(* ===== verification/Prelude.thy ===== *)
theory Prelude
  imports Main "HOL-Library.Word" "HOL-Library.Monad_Syntax"
begin

text \<open>
  What the components share: the machine's integer types, arrays whose every access is
  checked, and the lemma collections that carry the component proofs.

  An operation that can leave the C abstract machine (an access outside an array, a loop
  that never ends) returns an \<open>option\<close>; \<open>None\<close> stands for that failure, and a theorem
  that an operation returns \<open>Some\<close> says that it is free of it.
\<close>

unbundle bit_operations_syntax

section \<open>Integer types\<close>

type_synonym u8 = "8 word"
type_synonym u16 = "16 word"
type_synonym u32 = "32 word"
type_synonym u64 = "64 word"

named_theorems array_simps "checked array accesses"
named_theorems bit_simps "bits of packed words"

section \<open>Checked arrays\<close>

text \<open>
  A C array is a list; reading and writing it outside its bounds is undefined behaviour,
  hence \<open>None\<close>. An \<open>int\<close> index may also be negative.
\<close>

definition aread :: "'a list \<Rightarrow> nat \<Rightarrow> 'a option" where
  "aread xs i = (if i < length xs then Some (xs ! i) else None)"

definition awrite :: "'a list \<Rightarrow> nat \<Rightarrow> 'a \<Rightarrow> 'a list option" where
  "awrite xs i v = (if i < length xs then Some (xs[i := v]) else None)"

definition aread_int :: "'a list \<Rightarrow> int \<Rightarrow> 'a option" where
  "aread_int xs i = (if 0 \<le> i then aread xs (nat i) else None)"

definition awrite_int :: "'a list \<Rightarrow> int \<Rightarrow> 'a \<Rightarrow> 'a list option" where
  "awrite_int xs i v = (if 0 \<le> i then awrite xs (nat i) v else None)"

lemma aread_in [simp, array_simps]: "i < length xs \<Longrightarrow> aread xs i = Some (xs ! i)"
  by (simp add: aread_def)

lemma aread_out [simp, array_simps]: "length xs \<le> i \<Longrightarrow> aread xs i = None"
  by (simp add: aread_def)

lemma aread_Some_iff: "aread xs i = Some v \<longleftrightarrow> i < length xs \<and> v = xs ! i"
  by (auto simp: aread_def)

lemma awrite_in [simp, array_simps]: "i < length xs \<Longrightarrow> awrite xs i v = Some (xs[i := v])"
  by (simp add: awrite_def)

lemma awrite_out [simp, array_simps]: "length xs \<le> i \<Longrightarrow> awrite xs i v = None"
  by (simp add: awrite_def)

lemma awrite_Some_iff: "awrite xs i v = Some ys \<longleftrightarrow> i < length xs \<and> ys = xs[i := v]"
  by (auto simp: awrite_def)

lemma aread_int_nat [simp, array_simps]: "aread_int xs (int i) = aread xs i"
  by (simp add: aread_int_def)

lemma aread_int_neg [simp, array_simps]: "i < 0 \<Longrightarrow> aread_int xs i = None"
  by (simp add: aread_int_def)

lemma awrite_int_nat [simp, array_simps]: "awrite_int xs (int i) v = awrite xs i v"
  by (simp add: awrite_int_def)

lemma awrite_int_neg [simp, array_simps]: "i < 0 \<Longrightarrow> awrite_int xs i v = None"
  by (simp add: awrite_int_def)

lemma bind_Some_eq: "(Option.bind x f = Some y) \<longleftrightarrow> (\<exists>z. x = Some z \<and> f z = Some y)"
  by (cases x) auto

section \<open>Counted loops\<close>

text \<open>A \<open>for\<close> loop over a list of indices whose body can fail.\<close>

fun for_loop :: "('i \<Rightarrow> 's \<Rightarrow> 's option) \<Rightarrow> 'i list \<Rightarrow> 's \<Rightarrow> 's option" where
  "for_loop f [] s = Some s"
| "for_loop f (i # is) s = Option.bind (f i s) (for_loop f is)"

lemma for_loop_append: "for_loop f (xs @ ys) s = Option.bind (for_loop f xs s) (for_loop f ys)"
  by (induction xs arbitrary: s) (auto split: Option.bind_split)

text \<open>An invariant over the indices already visited.\<close>

lemma for_loop_inv:
  assumes "P [] s" and "\<And>done i rest t. xs = done @ i # rest \<Longrightarrow> P done t \<Longrightarrow> \<exists>t'. f i t = Some t' \<and> P (done @ [i]) t'"
  shows "\<exists>s'. for_loop f xs s = Some s' \<and> P xs s'"
proof -
  have "\<exists>s'. for_loop f ys s = Some s' \<and> P ys s'" if "\<exists>rest. xs = ys @ rest" for ys
    using that
  proof (induction ys rule: rev_induct)
    case (snoc i ys)
    then obtain t where t: "for_loop f ys s = Some t" "P ys t" by auto
    obtain rest where "xs = ys @ i # rest" using snoc.prems by auto
    from assms(2) [OF this t(2)] t(1) show ?case by (auto simp: for_loop_append)
  qed (use assms(1) in simp)
  then show ?thesis by blast
qed

section \<open>Bits\<close>

text \<open>Masks are described by the bits they have, not by integer literals.\<close>

declare bit_numeral_word_iff [simp del] bit_neg_numeral_word_iff [simp del]

lemma unat_u32_less: "unat (w :: u32) < 4294967296"
proof -
  have "unat w < 2 ^ LENGTH(32)" by (rule unsigned_less)
  then show ?thesis by simp
qed

lemma bit_set_mask_u8:
  fixes w :: u8
  assumes "k < 8" "m < 8"
  shows "bit ((w AND NOT (push_bit k 1)) OR push_bit k (of_bool v)) m
    \<longleftrightarrow> (if m = k then v else bit w m)"
  using assms by (auto simp: bit_and_iff bit_or_iff bit_not_iff bit_exp_iff)

lemma and_push_bit_one_eq_0_iff:
  fixes w :: u8
  assumes "k < 8"
  shows "w AND push_bit k 1 = 0 \<longleftrightarrow> \<not> bit w k"
proof
  assume "w AND push_bit k 1 = 0"
  then have "\<not> bit (w AND push_bit k 1) k" by simp
  then show "\<not> bit w k" using assms by (simp add: bit_and_iff bit_exp_iff)
next
  assume "\<not> bit w k"
  then show "w AND push_bit k 1 = 0"
    by (intro bit_word_eqI) (auto simp: bit_and_iff bit_exp_iff)
qed

lemma div_mod_8_eq_iff: "(m::nat) div 8 = n div 8 \<and> m mod 8 = n mod 8 \<longleftrightarrow> m = n"
  by (metis div_mult_mod_eq)

text \<open>A mask of the low bits is a remainder, a shift to the right a quotient.\<close>

lemma unat_and_low:
  fixes w :: u32
  assumes "mask k = (m :: u32)" "k \<le> 32"
  shows "unat (w AND m) = unat w mod 2 ^ k"
proof -
  have "w AND m = take_bit k w" using assms(1) by (simp add: take_bit_eq_mask)
  moreover have "unat (take_bit k w) = take_bit k (unat w)" by (rule unsigned_take_bit_eq)
  ultimately show ?thesis by (simp only: take_bit_nat_def)
qed

lemma unat_and_FFF: "unat ((w :: u32) AND 0xFFF) = unat w mod 4096"
  using unat_and_low [of 12 "0xFFF" w] by (simp add: mask_numeral)

lemma unat_and_3FF: "unat ((w :: u32) AND 0x3FF) = unat w mod 1024"
  using unat_and_low [of 10 "0x3FF" w] by (simp add: mask_numeral)

lemma unat_drop_bit: "unat (drop_bit k (w :: u32)) = unat w div 2 ^ k"
  by (simp only: unat_drop_bit_eq drop_bit_nat_def)

end
