(* ===== verification/CString.thy ===== *)
theory CString
  imports Prelude
begin

text \<open>
  The kernel's string and memory routines (\<open>kernel/include/string.c\<close>) and its character
  classes (\<open>kernel/include/ctype.c\<close>, \<open>stdtype.c\<close>), over the flat 32-bit address space of
  the kernel. \<open>char\<close> is signed on the target. Loops that scan for a terminator are
  partial functions: \<open>None\<close> is a scan that never meets one. Counters of the counted loops
  are natural numbers, for counts the \<open>int\<close> counters of the source can reach.
\<close>

type_synonym memory = "u32 \<Rightarrow> u8"

section \<open>Character classes\<close>

definition isupper :: "int \<Rightarrow> bool" where
  "isupper x \<longleftrightarrow> x \<ge> 65 \<and> x \<le> 90"

definition islower :: "int \<Rightarrow> bool" where
  "islower x \<longleftrightarrow> x \<ge> 97 \<and> x \<le> 122"

definition toupper :: "int \<Rightarrow> int" where
  "toupper ch = (if islower ch then ch - 32 else ch)"

definition tolower :: "int \<Rightarrow> int" where
  "tolower ch = (if isupper ch then ch + 32 else ch)"

definition isalpha :: "int \<Rightarrow> bool" where
  "isalpha x \<longleftrightarrow> (x \<ge> 97 \<and> x \<le> 122) \<or> (x \<ge> 65 \<and> x \<le> 90)"

definition isdigit :: "int \<Rightarrow> bool" where
  "isdigit x \<longleftrightarrow> x \<ge> 48 \<and> x \<le> 57"

definition isalnum :: "int \<Rightarrow> bool" where
  "isalnum x \<longleftrightarrow> isalpha x \<or> isdigit x"

lemmas char_defs = isupper_def islower_def toupper_def tolower_def isalpha_def isdigit_def isalnum_def

section \<open>Counted loops\<close>

text \<open>The loop of \<open>memcpy\<close>, with \<open>k\<close> bytes to go at index \<open>i\<close>.\<close>

fun memcpy_loop :: "memory \<Rightarrow> u32 \<Rightarrow> u32 \<Rightarrow> nat \<Rightarrow> nat \<Rightarrow> memory" where
  "memcpy_loop m dest src i 0 = m"
| "memcpy_loop m dest src i (Suc k) =
     memcpy_loop (m(dest + word_of_nat i := m (src + word_of_nat i))) dest src (Suc i) k"

definition memcpy :: "memory \<Rightarrow> u32 \<Rightarrow> u32 \<Rightarrow> u32 \<Rightarrow> memory \<times> u32" where
  "memcpy m dest src n = (memcpy_loop m dest src 0 (unat n), dest)"

fun memset_loop :: "memory \<Rightarrow> u32 \<Rightarrow> u8 \<Rightarrow> nat \<Rightarrow> nat \<Rightarrow> memory" where
  "memset_loop m str c i 0 = m"
| "memset_loop m str c i (Suc k) = memset_loop (m(str + word_of_nat i := c)) str c (Suc i) k"

definition memset :: "memory \<Rightarrow> u32 \<Rightarrow> int \<Rightarrow> u32 \<Rightarrow> memory \<times> u32" where
  "memset m str c n = (memset_loop m str (word_of_int c) 0 (unat n), str)"

fun memcmp_loop :: "memory \<Rightarrow> u32 \<Rightarrow> u32 \<Rightarrow> nat \<Rightarrow> nat \<Rightarrow> int" where
  "memcmp_loop m s1 s2 i 0 = 0"
| "memcmp_loop m s1 s2 i (Suc k) =
     (let a = m (s1 + word_of_nat i); b = m (s2 + word_of_nat i) in
      if a \<noteq> b then (if a < b then -1 else 1) else memcmp_loop m s1 s2 (Suc i) k)"

definition memcmp :: "memory \<Rightarrow> u32 \<Rightarrow> u32 \<Rightarrow> u32 \<Rightarrow> int" where
  "memcmp m s1 s2 n = memcmp_loop m s1 s2 0 (unat n)"

section \<open>Scanning loops\<close>

partial_function (option) strchr_loop :: "memory \<Rightarrow> u32 \<Rightarrow> int \<Rightarrow> u32 option" where
  "strchr_loop m str c =
     (if m str = 0 then Some 0
      else if sint (m str) = c then Some str
      else strchr_loop m (str + 1) c)"

definition strchr :: "memory \<Rightarrow> u32 \<Rightarrow> int \<Rightarrow> u32 option" where
  "strchr m str c = (if str = 0 then Some 0 else strchr_loop m str c)"

partial_function (option) strcpy_loop :: "memory \<Rightarrow> u32 \<Rightarrow> u32 \<Rightarrow> memory option" where
  "strcpy_loop m destination source =
     (if m source = 0 then Some (m(destination := 0))
      else strcpy_loop (m(destination := m source)) (destination + 1) (source + 1))"

definition strcpy :: "memory \<Rightarrow> u32 \<Rightarrow> u32 \<Rightarrow> (memory \<times> u32) option" where
  "strcpy m destination source =
     (if destination = 0 then Some (m, 0)
      else if source = 0 then Some (m(destination := 0), destination)
      else map_option (\<lambda>m'. (m', destination)) (strcpy_loop m destination source))"

partial_function (option) strlen_loop :: "memory \<Rightarrow> u32 \<Rightarrow> u32 \<Rightarrow> u32 option" where
  "strlen_loop m str len =
     (if m str = 0 then Some len else strlen_loop m (str + 1) (len + 1))"

definition strlen :: "memory \<Rightarrow> u32 \<Rightarrow> u32 option" where
  "strlen m str = strlen_loop m str 0"

partial_function (option) strcmp :: "memory \<Rightarrow> u32 \<Rightarrow> u32 \<Rightarrow> int option" where
  "strcmp m str1 str2 =
     (if m str1 \<noteq> 0 \<and> m str2 \<noteq> 0 then
        (if m str1 \<noteq> m str2 then Some (if m str1 <s m str2 then -1 else 1)
         else strcmp m (str1 + 1) (str2 + 1))
      else if m str1 \<noteq> 0 \<or> m str2 \<noteq> 0 then Some (if m str1 <s m str2 then -1 else 1)
      else Some 0)"

section \<open>Bytes and strings in memory\<close>

text \<open>The \<open>n\<close> bytes at an address, and the terminated string at an address.\<close>

fun bytes_at :: "memory \<Rightarrow> u32 \<Rightarrow> nat \<Rightarrow> u8 list" where
  "bytes_at m a 0 = []"
| "bytes_at m a (Suc n) = m a # bytes_at m (a + 1) n"

fun string_at :: "memory \<Rightarrow> u32 \<Rightarrow> u8 list \<Rightarrow> bool" where
  "string_at m a [] \<longleftrightarrow> m a = 0"
| "string_at m a (c # cs) \<longleftrightarrow> m a = c \<and> c \<noteq> 0 \<and> string_at m (a + 1) cs"

text \<open>The order of two strings as lists of signed characters.\<close>

fun compare_chars :: "u8 list \<Rightarrow> u8 list \<Rightarrow> int" where
  "compare_chars [] [] = 0"
| "compare_chars [] (b # bs) = (if 0 <s b then -1 else 1)"
| "compare_chars (a # as) [] = (if a <s 0 then -1 else 1)"
| "compare_chars (a # as) (b # bs) =
     (if a = b then compare_chars as bs else if a <s b then -1 else 1)"

text \<open>The order of two byte lists of the same length, as unsigned bytes.\<close>

fun compare_bytes :: "u8 list \<Rightarrow> u8 list \<Rightarrow> int" where
  "compare_bytes (a # as) (b # bs) =
     (if a = b then compare_bytes as bs else if a < b then -1 else 1)"
| "compare_bytes _ _ = 0"

lemma length_bytes_at [simp]: "length (bytes_at m a n) = n"
  by (induction n arbitrary: a) auto

lemma bytes_at_nth: "i < n \<Longrightarrow> bytes_at m a n ! i = m (a + word_of_nat i)"
proof (induction n arbitrary: a i)
  case (Suc n)
  then show ?case by (cases i) (auto simp: ac_simps)
qed simp

lemma bytes_at_eqI: "(\<And>i. i < n \<Longrightarrow> m (a + word_of_nat i) = m' (b + word_of_nat i)) \<Longrightarrow>
    bytes_at m a n = bytes_at m' b n"
  by (rule nth_equalityI) (auto simp: bytes_at_nth)

lemma compare_bytes_eq: "length xs = length ys \<Longrightarrow> compare_bytes xs ys = 0 \<longleftrightarrow> xs = ys"
  by (induction xs ys rule: compare_bytes.induct) auto

lemma compare_chars_eq: "compare_chars xs ys = 0 \<longleftrightarrow> xs = ys"
  by (induction xs ys rule: compare_chars.induct) auto

lemma string_at_unique: "string_at m a s \<Longrightarrow> string_at m a t \<Longrightarrow> s = t"
proof (induction s arbitrary: a t)
  case Nil
  then show ?case by (cases t) auto
next
  case (Cons c s)
  then show ?case by (cases t) auto
qed

lemma string_at_cong:
  "(\<And>j. j \<le> length t \<Longrightarrow> m' (a + word_of_nat j) = m (a + word_of_nat j)) \<Longrightarrow>
    string_at m' a t = string_at m a t"
proof (induction t arbitrary: a)
  case Nil
  then show ?case using Nil [of 0] by simp
next
  case (Cons y t)
  have "m' (a + 1 + word_of_nat j) = m (a + 1 + word_of_nat j)" if "j \<le> length t" for j
    using Cons.prems [of "Suc j"] that by (simp add: ac_simps)
  then show ?case using Cons.IH [of "a + 1"] Cons.prems [of 0] by simp
qed

section \<open>Correctness of the counted loops\<close>

lemma u32_add_inj:
  assumes "i < 2 ^ 32" "j < 2 ^ 32"
  shows "(a :: u32) + word_of_nat i = a + word_of_nat j \<longleftrightarrow> i = j"
proof
  assume "a + word_of_nat i = a + word_of_nat j"
  then have "(word_of_nat i :: u32) = word_of_nat j" by simp
  then have "unat (word_of_nat i :: u32) = unat (word_of_nat j :: u32)" by simp
  then show "i = j" using assms by (simp add: unat_of_nat take_bit_eq_mod)
qed simp

text \<open>A forward copy must not overwrite a source byte before it reads it.\<close>

definition forward_safe :: "u32 \<Rightarrow> u32 \<Rightarrow> nat \<Rightarrow> bool" where
  "forward_safe dest src n \<longleftrightarrow>
     (\<forall>j l. j < l \<and> l < n \<longrightarrow> dest + word_of_nat j \<noteq> src + word_of_nat l)"

lemma memcpy_loop_apply:
  assumes "i + k \<le> 2 ^ 32"
    and "\<And>j l. i \<le> j \<Longrightarrow> j < l \<Longrightarrow> l < i + k \<Longrightarrow> dest + word_of_nat j \<noteq> src + word_of_nat l"
  shows "memcpy_loop m dest src i k x =
    (if \<exists>j. i \<le> j \<and> j < i + k \<and> x = dest + word_of_nat j then m (src + (x - dest)) else m x)"
  using assms
proof (induction k arbitrary: i m)
  case (Suc k)
  let ?m = "m(dest + word_of_nat i := m (src + word_of_nat i))"
  have ih: "memcpy_loop ?m dest src (Suc i) k x =
    (if \<exists>j. Suc i \<le> j \<and> j < Suc i + k \<and> x = dest + word_of_nat j then ?m (src + (x - dest)) else ?m x)"
    by (rule Suc.IH) (use Suc.prems in auto)
  show ?case
  proof (cases "\<exists>j. Suc i \<le> j \<and> j < Suc i + k \<and> x = dest + word_of_nat j")
    case True
    then obtain j where j: "Suc i \<le> j" "j < Suc i + k" "x = dest + word_of_nat j" by blast
    then have "dest + word_of_nat i \<noteq> src + word_of_nat j" using Suc.prems(2) [of i j] by simp
    moreover have "memcpy_loop m dest src i (Suc k) x = ?m (src + (x - dest))" using ih True by simp
    ultimately have "memcpy_loop m dest src i (Suc k) x = m (src + (x - dest))"
      using j(3) by (auto simp: eq_commute)
    moreover have "\<exists>j. i \<le> j \<and> j < i + Suc k \<and> x = dest + word_of_nat j" using j by (intro exI [of _ j]) simp
    ultimately show ?thesis by (simp only: if_True)
  next
    case False
    then have eq: "(\<exists>j. i \<le> j \<and> j < i + Suc k \<and> x = dest + word_of_nat j) \<longleftrightarrow> x = dest + word_of_nat i"
      by (metis Suc_leI add_Suc add_Suc_right le_add1 le_imp_less_Suc le_neq_implies_less le_refl)
    have "memcpy_loop m dest src i (Suc k) x = ?m x"
      using ih False by (simp only: memcpy_loop.simps if_False)
    then show ?thesis unfolding eq by simp
  qed
qed auto

lemma memcpy_copies:
  assumes "forward_safe dest src (unat n)"
  shows "bytes_at (fst (memcpy m dest src n)) dest (unat n) = bytes_at m src (unat n)"
    and "(\<And>j. j < unat n \<Longrightarrow> x \<noteq> dest + word_of_nat j) \<Longrightarrow> fst (memcpy m dest src n) x = m x"
proof -
  have n: "0 + unat n \<le> 2 ^ 32" using unat_u32_less [of n] by simp
  have ap: "fst (memcpy m dest src n) x =
      (if \<exists>j. 0 \<le> j \<and> j < 0 + unat n \<and> x = dest + word_of_nat j then m (src + (x - dest)) else m x)" for x
    unfolding memcpy_def fst_conv
    by (rule memcpy_loop_apply [OF n]) (use assms in \<open>auto simp: forward_safe_def\<close>)
  show "bytes_at (fst (memcpy m dest src n)) dest (unat n) = bytes_at m src (unat n)"
    by (rule bytes_at_eqI) (auto simp: ap)
  show "fst (memcpy m dest src n) x = m x" if "\<And>j. j < unat n \<Longrightarrow> x \<noteq> dest + word_of_nat j"
    using that by (auto simp: ap)
qed

lemma memset_loop_apply:
  "memset_loop m str c i k x =
    (if \<exists>j. i \<le> j \<and> j < i + k \<and> x = str + word_of_nat j then c else m x)"
proof (induction k arbitrary: i m)
  case (Suc k)
  show ?case
    by (auto simp: Suc.IH Suc_le_eq intro: exI [of _ i])
qed auto

lemma memcmp_loop_bytes:
  "memcmp_loop m s1 s2 i k = compare_bytes (bytes_at m (s1 + word_of_nat i) k) (bytes_at m (s2 + word_of_nat i) k)"
proof (induction k arbitrary: i)
  case (Suc k)
  show ?case by (auto simp: Let_def Suc.IH ac_simps)
qed simp

lemma memcmp_bytes: "memcmp m s1 s2 n = compare_bytes (bytes_at m s1 (unat n)) (bytes_at m s2 (unat n))"
  by (simp add: memcmp_def memcmp_loop_bytes)

section \<open>Correctness of the scanning loops\<close>

lemma strlen_loop_string:
  "string_at m a s \<Longrightarrow> strlen_loop m a len = Some (len + word_of_nat (length s))"
proof (induction s arbitrary: a len)
  case Nil
  then show ?case by (subst strlen_loop.simps) simp
next
  case (Cons c s)
  then show ?case by (subst strlen_loop.simps) (simp add: ac_simps)
qed

lemma strcmp_strings:
  "string_at m a s \<Longrightarrow> string_at m b t \<Longrightarrow> strcmp m a b = Some (compare_chars s t)"
proof (induction s t arbitrary: a b rule: compare_chars.induct)
  case (4 x xs y ys)
  then show ?case by (subst strcmp.simps) auto
qed (subst strcmp.simps; auto)+

text \<open>The position of the first character \<open>c\<close> of a string.\<close>

fun find_char :: "int \<Rightarrow> u8 list \<Rightarrow> nat option" where
  "find_char c [] = None"
| "find_char c (x # xs) = (if sint x = c then Some 0 else map_option Suc (find_char c xs))"

lemma strchr_loop_string:
  "string_at m a s \<Longrightarrow> strchr_loop m a c =
    Some (case find_char c s of None \<Rightarrow> 0 | Some i \<Rightarrow> a + word_of_nat i)"
proof (induction s arbitrary: a)
  case Nil
  then show ?case by (subst strchr_loop.simps) simp
next
  case (Cons x s)
  then show ?case
    by (subst strchr_loop.simps) (auto simp: ac_simps split: option.splits)
qed

lemma find_char_first:
  "find_char c s = Some i \<Longrightarrow> i < length s \<and> sint (s ! i) = c \<and> (\<forall>j < i. sint (s ! j) \<noteq> c)"
proof (induction s arbitrary: i)
  case (Cons x s)
  then show ?case by (fastforce simp: less_Suc_eq_0_disj split: if_splits)
qed simp

lemma find_char_none: "find_char c s = None \<longleftrightarrow> c \<notin> sint ` set s"
  by (induction s) auto

text \<open>Addresses \<open>a \<dots> a + n\<close> that a string with \<open>n\<close> characters occupies.\<close>

lemma strcpy_loop_string:
  assumes "string_at m src s" "length s < 2 ^ 31"
    and "\<And>j l. j \<le> length s \<Longrightarrow> l \<le> length s \<Longrightarrow> dest + word_of_nat j \<noteq> src + word_of_nat l"
  shows "\<exists>m'. strcpy_loop m dest src = Some m' \<and> string_at m' dest s \<and>
    (\<forall>x. (\<forall>j \<le> length s. x \<noteq> dest + word_of_nat j) \<longrightarrow> m' x = m x)"
  using assms
proof (induction s arbitrary: m dest src)
  case Nil
  then show ?case by (subst strcpy_loop.simps) auto
next
  case (Cons c s)
  let ?m = "m(dest := m src)"
  have "string_at ?m (src + 1) s = string_at m (src + 1) s"
  proof (rule string_at_cong)
    show "?m (src + 1 + word_of_nat j) = m (src + 1 + word_of_nat j)" if "j \<le> length s" for j
      using Cons.prems(3) [of 0 "Suc j"] that by (auto simp: ac_simps)
  qed
  then have str: "string_at ?m (src + 1) s" using Cons.prems(1) by simp
  have sep: "dest + 1 + word_of_nat j \<noteq> src + 1 + word_of_nat l" if "j \<le> length s" "l \<le> length s" for j l
    using Cons.prems(3) [of "Suc j" "Suc l"] that by (simp add: ac_simps)
  have "\<exists>m'. strcpy_loop ?m (dest + 1) (src + 1) = Some m' \<and> string_at m' (dest + 1) s \<and>
      (\<forall>x. (\<forall>j \<le> length s. x \<noteq> dest + 1 + word_of_nat j) \<longrightarrow> m' x = ?m x)"
    by (rule Cons.IH [OF str _ sep]) (use Cons.prems(2) in simp)
  then obtain m' where m': "strcpy_loop ?m (dest + 1) (src + 1) = Some m'" "string_at m' (dest + 1) s"
    "\<forall>x. (\<forall>j \<le> length s. x \<noteq> dest + 1 + word_of_nat j) \<longrightarrow> m' x = ?m x"
    by blast
  have "dest \<noteq> dest + 1 + word_of_nat j" if "j \<le> length s" for j
    using u32_add_inj [of 0 "Suc j" dest] that Cons.prems(2) by (simp add: ac_simps)
  then have "m' dest = c" using m'(3) Cons.prems(1) by simp
  moreover have "m' x = m x" if "\<forall>j \<le> length (c # s). x \<noteq> dest + word_of_nat j" for x
  proof -
    have "x \<noteq> dest + 1 + word_of_nat j" if "j \<le> length s" for j
      using \<open>\<forall>j \<le> length (c # s). x \<noteq> dest + word_of_nat j\<close> [rule_format, of "Suc j"] that
      by (simp add: ac_simps)
    moreover have "x \<noteq> dest" using that [rule_format, of 0] by simp
    ultimately show ?thesis using m'(3) by simp
  qed
  ultimately show ?case
    using m'(1,2) Cons.prems(1) by (subst strcpy_loop.simps) auto
qed

section \<open>The contracts of the routines\<close>

text \<open>\<open>memcpy\<close> returns its destination, the \<open>n\<close> bytes there are the source's bytes before
  the call, no other byte changes, and a following \<open>memcmp\<close> of source and copy finds them
  equal if the ranges are disjoint. A forward copy needs only that no source byte is
  overwritten before it is read.\<close>

theorem memcpy_correct:
  assumes safe: "forward_safe dest src (unat n)"
  shows "\<exists>m'. memcpy m dest src n = (m', dest) \<and>
    bytes_at m' dest (unat n) = bytes_at m src (unat n) \<and>
    (\<forall>x. (\<forall>j < unat n. x \<noteq> dest + word_of_nat j) \<longrightarrow> m' x = m x) \<and>
    ((\<forall>j < unat n. \<forall>l < unat n. src + word_of_nat j \<noteq> dest + word_of_nat l) \<longrightarrow> memcmp m' dest src n = 0)"
proof -
  let ?m = "fst (memcpy m dest src n)"
  have copy: "bytes_at ?m dest (unat n) = bytes_at m src (unat n)"
    and frame: "\<And>x. (\<forall>j < unat n. x \<noteq> dest + word_of_nat j) \<Longrightarrow> ?m x = m x"
    using memcpy_copies [OF safe] by auto
  have "memcmp ?m dest src n = 0"
    if "\<forall>j < unat n. \<forall>l < unat n. src + word_of_nat j \<noteq> dest + word_of_nat l"
  proof -
    have "bytes_at ?m src (unat n) = bytes_at m src (unat n)"
      by (rule bytes_at_eqI) (use frame that in auto)
    then show ?thesis by (simp add: memcmp_bytes compare_bytes_eq copy)
  qed
  then show ?thesis using copy frame by (simp add: memcpy_def)
qed

lemma bytes_at_4: "bytes_at m a 4 = [m a, m (a + 1), m (a + 2), m (a + 3)]"
  by (simp add: eval_nat_numeral ac_simps)

lemma memcpy_correct_witness:
  "bytes_at (fst (memcpy (\<lambda>a. ucast a) 0x100 0x102 4)) 0x100 4 = [2, 3, 4, 5]"
proof -
  have "(word_of_nat j :: u32) \<noteq> 2 + word_of_nat l" if "j < l" "l < 4" for j l :: nat
  proof -
    have "j < 4" using that by simp
    then show ?thesis using u32_add_inj [of j "2 + l" 0] that by simp
  qed
  then have "forward_safe 0x100 0x102 (unat (4 :: u32))"
    by (auto simp: forward_safe_def add.assoc [symmetric] dest!: add_left_imp_eq [of 0x100])
  from memcpy_correct [OF this, of "\<lambda>a. ucast a"]
  have "bytes_at (fst (memcpy (\<lambda>a. ucast a) 0x100 0x102 4)) 0x100 4 = bytes_at (\<lambda>a. ucast a) 0x102 4" by auto
  then show ?thesis by (simp add: bytes_at_4)
qed

text \<open>\<open>memcmp\<close> is the sign of the order of the two ranges as lists of unsigned bytes, and
  0 exactly when they are equal.\<close>

theorem memcmp_lexicographic:
  "memcmp m s1 s2 n = compare_bytes (bytes_at m s1 (unat n)) (bytes_at m s2 (unat n)) \<and>
    (memcmp m s1 s2 n = 0 \<longleftrightarrow> bytes_at m s1 (unat n) = bytes_at m s2 (unat n))"
  by (simp add: memcmp_bytes compare_bytes_eq)

text \<open>On terminated strings \<open>strlen\<close>, \<open>strcmp\<close> and \<open>strchr\<close> return: the length, the order of
  the strings as lists of signed characters (0 exactly on equal strings), and the first
  place of a character, or a null pointer if it does not occur.\<close>

theorem string_scans_correct:
  assumes s: "string_at m a s" and t: "string_at m b t" and a: "a \<noteq> 0"
  shows "strlen m a = Some (word_of_nat (length s)) \<and>
    strcmp m a b = Some (compare_chars s t) \<and> (strcmp m a b = Some 0 \<longleftrightarrow> s = t) \<and>
    (if c \<in> sint ` set s
     then \<exists>i < length s. strchr m a c = Some (a + word_of_nat i) \<and> sint (s ! i) = c \<and> (\<forall>j < i. sint (s ! j) \<noteq> c)
     else strchr m a c = Some 0)"
proof -
  have "strchr m a c = Some (case find_char c s of None \<Rightarrow> 0 | Some i \<Rightarrow> a + word_of_nat i)"
    using a strchr_loop_string [OF s] by (simp add: strchr_def)
  then show ?thesis
    using strlen_loop_string [OF s, of 0] strcmp_strings [OF s t] find_char_none [of c s]
      find_char_first [of c s]
    by (cases "find_char c s") (auto simp: strlen_def compare_chars_eq)
qed

lemma string_scans_correct_witness:
  "strlen (\<lambda>a. if a = 0x10 then 65 else if a = 0x11 then 66 else 0) 0x10 = Some 2 \<and>
   strcmp (\<lambda>a. if a = 0x10 then 65 else if a = 0x11 then 66 else 0) 0x10 0x11 = Some (-1) \<and>
   strchr (\<lambda>a. if a = 0x10 then 65 else if a = 0x11 then 66 else 0) 0x10 67 = Some 0"
  using string_scans_correct [of "\<lambda>a. if a = 0x10 then 65 else if a = 0x11 then 66 else 0" "0x10" "[65, 66]" "0x11" "[66]" 67]
  by (simp add: word_sless_alt)

text \<open>\<open>strcpy\<close> of a terminated string to a range that does not overlap it returns the
  destination, which then holds the same string; no other byte changes.\<close>

theorem strcpy_correct:
  assumes "string_at m src s" "length s < 2 ^ 31" "dest \<noteq> 0" "src \<noteq> 0"
    and "\<And>j l. j \<le> length s \<Longrightarrow> l \<le> length s \<Longrightarrow> dest + word_of_nat j \<noteq> src + word_of_nat l"
  shows "\<exists>m'. strcpy m dest src = Some (m', dest) \<and> string_at m' dest s \<and>
    (\<forall>x. (\<forall>j \<le> length s. x \<noteq> dest + word_of_nat j) \<longrightarrow> m' x = m x)"
  using strcpy_loop_string [OF assms(1,2,5)] assms(3,4) by (auto simp: strcpy_def)

lemma strcpy_correct_witness:
  "\<exists>m'. strcpy (\<lambda>a. if a = 0x10 then 65 else 0) 0x20 0x10 = Some (m', 0x20) \<and> string_at m' 0x20 [65]"
proof -
  have "0x20 + word_of_nat j \<noteq> (0x10 :: u32) + word_of_nat l" if "j \<le> 1" "l \<le> 1" for j l :: nat
    using that by (cases j; cases l) auto
  then show ?thesis
    using strcpy_correct [of "\<lambda>a. if a = 0x10 then 65 else 0" "0x10" "[65]" "0x20"] by auto
qed

end
