(* ===== verification/Descriptors.thy ===== *)
theory Descriptors
  imports Prelude
begin

text \<open>
  The descriptor tables of the processor: the global descriptor table and the task state
  segment (\<open>kernel/arch/i686/gdt.c\<close>, \<open>tss.c\<close>), and the interrupt descriptor table with its 256
  gates (\<open>idt.c\<close>, \<open>isr_gate.c\<close>). The addresses of the assembly entry points \<open>i686_isr_0\<close> to
  \<open>i686_isr_255\<close> and of the task state segment are parameters; loading the tables into the
  processor is assembly and is left out.
\<close>

section \<open>Segment descriptors\<close>

record GDT_ENTRY =
  limit_low :: u16
  base_low :: u16
  base_mid :: u8
  g_access :: u8
  limit_hi_flags :: u8
  base_hi :: u8

definition GDT_ACCESS_ACCESSED_BIT :: u8 where "GDT_ACCESS_ACCESSED_BIT = 0x01"
definition GDT_ACCESS_CODE_READ :: u8 where "GDT_ACCESS_CODE_READ = 0x02"
definition GDT_ACCESS_DATA_WRITE :: u8 where "GDT_ACCESS_DATA_WRITE = 0x02"
definition GDT_ACCESS_EXECUTABLE :: u8 where "GDT_ACCESS_EXECUTABLE = 0x08"
definition GDT_ACCESS_DESC_TSS :: u8 where "GDT_ACCESS_DESC_TSS = 0x00"
definition GDT_ACCESS_DESC_NOT_TSS :: u8 where "GDT_ACCESS_DESC_NOT_TSS = 0x10"
definition GDT_ACCESS_CODE_SEG :: u8 where
  "GDT_ACCESS_CODE_SEG = GDT_ACCESS_DESC_NOT_TSS OR GDT_ACCESS_EXECUTABLE"
definition GDT_ACCESS_DATA_SEG :: u8 where "GDT_ACCESS_DATA_SEG = GDT_ACCESS_DESC_NOT_TSS"
definition GDT_ACCESS_RING0 :: u8 where "GDT_ACCESS_RING0 = 0x00"
definition GDT_ACCESS_RING3 :: u8 where "GDT_ACCESS_RING3 = 0x60"
definition GDT_ACCESS_PRESENT :: u8 where "GDT_ACCESS_PRESENT = 0x80"
definition GDT_FLAG_32_BIT :: u8 where "GDT_FLAG_32_BIT = 0x40"
definition GDT_FLAG_GRANULARITY_1B :: u8 where "GDT_FLAG_GRANULARITY_1B = 0x00"
definition GDT_FLAG_GRANULARITY_4K :: u8 where "GDT_FLAG_GRANULARITY_4K = 0x80"

lemmas gdt_flag_defs = GDT_ACCESS_ACCESSED_BIT_def GDT_ACCESS_CODE_READ_def GDT_ACCESS_DATA_WRITE_def
  GDT_ACCESS_EXECUTABLE_def GDT_ACCESS_DESC_TSS_def GDT_ACCESS_DESC_NOT_TSS_def GDT_ACCESS_CODE_SEG_def
  GDT_ACCESS_DATA_SEG_def GDT_ACCESS_RING0_def GDT_ACCESS_RING3_def GDT_ACCESS_PRESENT_def
  GDT_FLAG_32_BIT_def GDT_FLAG_GRANULARITY_1B_def GDT_FLAG_GRANULARITY_4K_def

text \<open>The macro \<open>GDT_ENTRY(base, limit, access, flags)\<close>.\<close>

definition mk_gdt_entry :: "u32 \<Rightarrow> u32 \<Rightarrow> u8 \<Rightarrow> u8 \<Rightarrow> GDT_ENTRY" where
  "mk_gdt_entry base limit acc flags = \<lparr>
     limit_low = ucast (limit AND 0xFFFF),
     base_low = ucast (base AND 0xFFFF),
     base_mid = ucast (drop_bit 16 base AND 0xFF),
     g_access = acc,
     limit_hi_flags = ucast (drop_bit 16 limit AND 0xF) OR (flags AND 0xF0),
     base_hi = ucast (drop_bit 24 base AND 0xFF)\<rparr>"

definition ring_code :: "u8 \<Rightarrow> GDT_ENTRY" where
  "ring_code ring = mk_gdt_entry 0 0xFFFFF
     (GDT_ACCESS_PRESENT OR ring OR GDT_ACCESS_CODE_SEG OR GDT_ACCESS_CODE_READ OR GDT_ACCESS_ACCESSED_BIT)
     (GDT_FLAG_32_BIT OR GDT_FLAG_GRANULARITY_4K)"

definition ring_data :: "u8 \<Rightarrow> GDT_ENTRY" where
  "ring_data ring = mk_gdt_entry 0 0xFFFFF
     (GDT_ACCESS_PRESENT OR ring OR GDT_ACCESS_DATA_SEG OR GDT_ACCESS_DATA_WRITE OR GDT_ACCESS_ACCESSED_BIT)
     (GDT_FLAG_32_BIT OR GDT_FLAG_GRANULARITY_4K)"

definition gdt_entry :: "GDT_ENTRY list" where
  "gdt_entry = [mk_gdt_entry 0 0 0 0, ring_code GDT_ACCESS_RING0, ring_data GDT_ACCESS_RING0,
     ring_code GDT_ACCESS_RING3, ring_data GDT_ACCESS_RING3, mk_gdt_entry 0 0 0 0]"

definition i686_GDT_CODE_SEG :: u16 where "i686_GDT_CODE_SEG = 0x08"
definition i686_GDT_DATA_SEG :: u16 where "i686_GDT_DATA_SEG = 0x10"

section \<open>The task state segment\<close>

record TSS_ENTRY =
  prev_tss :: u32  esp0 :: u32  ss0 :: u32  esp1 :: u32  ss1 :: u32  esp2 :: u32  ss2 :: u32
  t_cr3 :: u32  t_eip :: u32  t_eflags :: u32  t_eax :: u32  t_ecx :: u32  t_edx :: u32  t_ebx :: u32
  t_esp :: u32  t_ebp :: u32  t_esi :: u32  t_edi :: u32  t_es :: u32  t_cs :: u32  t_ss :: u32
  t_ds :: u32  t_fs :: u32  t_gs :: u32  ldt :: u32  t_reserved :: u16  iobp :: u16  ssp :: u32

definition SIZEOF_TSS_ENTRY :: u32 where "SIZEOF_TSS_ENTRY = 25 * 4 + 2 * 2 + 4"

definition zero_tss :: TSS_ENTRY where
  "zero_tss = \<lparr>prev_tss = 0, esp0 = 0, ss0 = 0, esp1 = 0, ss1 = 0, esp2 = 0, ss2 = 0,
     t_cr3 = 0, t_eip = 0, t_eflags = 0, t_eax = 0, t_ecx = 0, t_edx = 0, t_ebx = 0,
     t_esp = 0, t_ebp = 0, t_esi = 0, t_edi = 0, t_es = 0, t_cs = 0, t_ss = 0,
     t_ds = 0, t_fs = 0, t_gs = 0, ldt = 0, t_reserved = 0, iobp = 0, ssp = 0\<rparr>"

definition tss_init :: "u32 \<Rightarrow> u32 \<Rightarrow> TSS_ENTRY" where
  "tss_init kernel_stack_segment kernel_stack_pointer =
     zero_tss\<lparr>ss0 := kernel_stack_segment, esp0 := kernel_stack_pointer\<rparr>"

text \<open>The globals of \<open>gdt.c\<close> and \<open>tss.c\<close>.\<close>

record segments =
  gdt :: "GDT_ENTRY list"
  is_ring3_tss_gdt_init :: bool
  g_tss :: TSS_ENTRY

definition i686_ring3_tss_gdt_init :: "u32 \<Rightarrow> segments \<Rightarrow> u32 \<Rightarrow> u32 \<Rightarrow> segments option" where
  "i686_ring3_tss_gdt_init tss_address sg stack_segment stack_pointer = do {
     let tss_entry = mk_gdt_entry tss_address (SIZEOF_TSS_ENTRY - 1)
       (GDT_ACCESS_PRESENT OR GDT_ACCESS_ACCESSED_BIT OR GDT_ACCESS_DESC_TSS OR
        GDT_ACCESS_EXECUTABLE OR GDT_ACCESS_RING0)
       (GDT_FLAG_32_BIT OR GDT_FLAG_GRANULARITY_1B);
     gdt' \<leftarrow> awrite (gdt sg) 5 tss_entry;
     Some (sg\<lparr>is_ring3_tss_gdt_init := True, g_tss := tss_init stack_segment stack_pointer, gdt := gdt'\<rparr>)
   }"

section \<open>What the processor reads from a segment descriptor\<close>

definition desc_base :: "GDT_ENTRY \<Rightarrow> u32" where
  "desc_base e = ucast (base_low e) OR push_bit 16 (ucast (base_mid e)) OR push_bit 24 (ucast (base_hi e))"

definition desc_limit :: "GDT_ENTRY \<Rightarrow> u32" where
  "desc_limit e = ucast (limit_low e) OR push_bit 16 (ucast (limit_hi_flags e AND 0x0F))"

definition desc_dpl :: "GDT_ENTRY \<Rightarrow> u8" where
  "desc_dpl e = drop_bit 5 (g_access e) AND 3"

text \<open>Present, for code or data, and executable.\<close>

definition desc_usable :: "GDT_ENTRY \<Rightarrow> bool" where
  "desc_usable e \<longleftrightarrow> bit (g_access e) 7 \<and> bit (g_access e) 4"

definition desc_code :: "GDT_ENTRY \<Rightarrow> bool" where
  "desc_code e \<longleftrightarrow> bit (g_access e) 3"

section \<open>Interrupt gates\<close>

record IDT_ENTRY =
  i_base_low :: u16
  seg_selector :: u16
  i_res :: u8
  i_flags :: u8
  i_base_hi :: u16

definition IDT_FLAG_GATE_32B_INT :: u8 where "IDT_FLAG_GATE_32B_INT = 0xE"
definition IDT_FLAG_RING0 :: u8 where "IDT_FLAG_RING0 = push_bit 5 0"
definition IDT_FLAG_RING3 :: u8 where "IDT_FLAG_RING3 = push_bit 5 3"
definition IDT_FLAG_PRESENT :: u8 where "IDT_FLAG_PRESENT = 0x80"

lemmas idt_flag_defs = IDT_FLAG_GATE_32B_INT_def IDT_FLAG_RING0_def IDT_FLAG_RING3_def IDT_FLAG_PRESENT_def

definition i686_idt_set_present_flag :: "IDT_ENTRY list \<Rightarrow> int \<Rightarrow> IDT_ENTRY list option" where
  "i686_idt_set_present_flag idt_entries intr = do {
     e \<leftarrow> aread_int idt_entries intr;
     awrite_int idt_entries intr (e\<lparr>i_flags := i_flags e OR IDT_FLAG_PRESENT\<rparr>)
   }"

definition i686_idt_unset_present_flag :: "IDT_ENTRY list \<Rightarrow> int \<Rightarrow> IDT_ENTRY list option" where
  "i686_idt_unset_present_flag idt_entries intr = do {
     e \<leftarrow> aread_int idt_entries intr;
     awrite_int idt_entries intr (e\<lparr>i_flags := i_flags e AND NOT IDT_FLAG_PRESENT\<rparr>)
   }"

definition i686_idt_descriptor ::
    "IDT_ENTRY list \<Rightarrow> int \<Rightarrow> u32 \<Rightarrow> u16 \<Rightarrow> u8 \<Rightarrow> IDT_ENTRY list option" where
  "i686_idt_descriptor idt_entries intr base seg_desc fl =
     awrite_int idt_entries intr \<lparr>
       i_base_low = ucast (base AND 0xFFFF),
       seg_selector = seg_desc,
       i_res = 0,
       i_flags = fl,
       i_base_hi = ucast (drop_bit 16 base AND 0xFFFF)\<rparr>"

text \<open>The 256 calls of \<open>i686_isr_init_gates\<close>; gate 136 is the one of the system calls.\<close>

definition init_gate :: "(nat \<Rightarrow> u32) \<Rightarrow> nat \<Rightarrow> IDT_ENTRY list \<Rightarrow> IDT_ENTRY list option" where
  "init_gate isr n idt_entries = i686_idt_descriptor idt_entries (int n) (isr n) i686_GDT_CODE_SEG
     (if n = 136 then IDT_FLAG_RING0 OR IDT_FLAG_RING3 OR IDT_FLAG_GATE_32B_INT
      else IDT_FLAG_RING0 OR IDT_FLAG_GATE_32B_INT)"

definition init_gates_low :: "(nat \<Rightarrow> u32) \<Rightarrow> IDT_ENTRY list \<Rightarrow> IDT_ENTRY list option" where
  "init_gates_low isr idt_entries = for_loop (init_gate isr) [0..<128] idt_entries"

definition init_gates_high :: "(nat \<Rightarrow> u32) \<Rightarrow> IDT_ENTRY list \<Rightarrow> IDT_ENTRY list option" where
  "init_gates_high isr idt_entries = for_loop (init_gate isr) [128..<256] idt_entries"

definition i686_isr_init_gates :: "(nat \<Rightarrow> u32) \<Rightarrow> IDT_ENTRY list \<Rightarrow> IDT_ENTRY list option" where
  "i686_isr_init_gates isr idt_entries = Option.bind (init_gates_low isr idt_entries) (init_gates_high isr)"

definition i686_isr_init :: "(nat \<Rightarrow> u32) \<Rightarrow> IDT_ENTRY list \<Rightarrow> IDT_ENTRY list option" where
  "i686_isr_init isr idt_entries = do {
     idt1 \<leftarrow> i686_isr_init_gates isr idt_entries;
     idt2 \<leftarrow> for_loop (\<lambda>i idt. i686_idt_set_present_flag idt i) [0..255] idt1;
     i686_idt_unset_present_flag idt2 0x88
   }"

text \<open>What the processor reads from a gate.\<close>

definition gate_base :: "IDT_ENTRY \<Rightarrow> u32" where
  "gate_base e = ucast (i_base_low e) OR push_bit 16 (ucast (i_base_hi e))"

definition gate_dpl :: "IDT_ENTRY \<Rightarrow> u8" where
  "gate_dpl e = drop_bit 5 (i_flags e) AND 3"

definition gate_present :: "IDT_ENTRY \<Rightarrow> bool" where
  "gate_present e \<longleftrightarrow> bit (i_flags e) 7"

section \<open>The tables are what the processor expects\<close>

lemma bit_u32_FF: "bit (0xFF :: u32) n \<longleftrightarrow> n < 8"
  using bit_mask_iff [where 'a = u32, of 8 n] by (auto simp: mask_numeral)

lemma bit_u32_FFFF: "bit (0xFFFF :: u32) n \<longleftrightarrow> n < 16"
  using bit_mask_iff [where 'a = u32, of 16 n] by (auto simp: mask_numeral)

lemma bit_u32_F: "bit (0xF :: u32) n \<longleftrightarrow> n < 4"
  using bit_mask_iff [where 'a = u32, of 4 n] by (auto simp: mask_numeral)

lemma bit_u8_F: "bit (0xF :: u8) n \<longleftrightarrow> n < 4"
  using bit_mask_iff [where 'a = u8, of 4 n] by (auto simp: mask_numeral)

lemma bit_u8_F0: "bit (0xF0 :: u8) n \<longleftrightarrow> 4 \<le> n \<and> n < 8"
proof -
  have "(0xF0 :: u8) = NOT 0xF" by simp
  then show ?thesis by (auto simp only: bit_not_iff bit_u8_F) auto
qed

lemmas field_bits = bit_u32_FF bit_u32_FFFF bit_u32_F bit_u8_F bit_u8_F0
  bit_or_iff bit_and_iff bit_push_bit_iff bit_drop_bit_eq bit_ucast_iff

lemma bit_above_limit:
  assumes "unat (w :: u32) < 2 ^ k" "k \<le> n"
  shows "\<not> bit w n"
proof
  assume "bit w n"
  then have "bit (unat w) n" by (simp add: bit_unsigned_iff)
  then have "odd (unat w div 2 ^ n)" by (simp add: bit_nat_def)
  then have "unat w div 2 ^ n \<noteq> 0" by (metis even_zero)
  moreover have "unat w < 2 ^ n" using assms power_increasing [of k n "2 :: nat"] by linarith
  ultimately show False by simp
qed

text \<open>A segment descriptor built by the macro reads back, as the processor decodes it, as
  the base, the 20-bit limit and the access byte it was built from.\<close>

theorem gdt_entry_decodes:
  assumes "unat limit < 2 ^ 20"
  shows "desc_base (mk_gdt_entry base limit acc flags) = base \<and>
    desc_limit (mk_gdt_entry base limit acc flags) = limit \<and>
    g_access (mk_gdt_entry base limit acc flags) = acc"
proof (intro conjI)
  show "desc_base (mk_gdt_entry base limit acc flags) = base"
  proof (rule bit_word_eqI)
    fix n assume "n < LENGTH(32)"
    then consider "n < 16" | "16 \<le> n \<and> n < 24" | "24 \<le> n \<and> n < 32" by fastforce
    then show "bit (desc_base (mk_gdt_entry base limit acc flags)) n = bit base n"
      by cases (auto simp: desc_base_def mk_gdt_entry_def field_bits)
  qed
  show "desc_limit (mk_gdt_entry base limit acc flags) = limit"
  proof (rule bit_word_eqI)
    fix n assume "n < LENGTH(32)"
    then consider "n < 16" | "16 \<le> n \<and> n < 20" | "20 \<le> n \<and> n < 32" by fastforce
    then show "bit (desc_limit (mk_gdt_entry base limit acc flags)) n = bit limit n"
      using bit_above_limit [OF assms] by cases (auto simp: desc_limit_def mk_gdt_entry_def field_bits)
  qed
qed (simp add: mk_gdt_entry_def)

lemma gdt_entry_decodes_witness:
  "desc_base (mk_gdt_entry 0x00123456 107 0x89 0x40) = 0x00123456 \<and> desc_limit (mk_gdt_entry 0x00123456 107 0x89 0x40) = 107"
  using gdt_entry_decodes [of 107 "0x00123456" "0x89" "0x40"] by simp

lemma idt_descriptor_decodes:
  "gate_base \<lparr>i_base_low = ucast (b AND 0xFFFF), seg_selector = sg, i_res = r, i_flags = fl,
     i_base_hi = ucast (drop_bit 16 b AND 0xFFFF)\<rparr> = b"
proof (rule bit_word_eqI)
  fix n assume "n < LENGTH(32)"
  then consider "n < 16" | "16 \<le> n \<and> n < 32" by fastforce
  then show "bit (gate_base \<lparr>i_base_low = ucast (b AND 0xFFFF), seg_selector = sg, i_res = r, i_flags = fl,
     i_base_hi = ucast (drop_bit 16 b AND 0xFFFF)\<rparr>) n = bit b n"
    by cases (auto simp: gate_base_def field_bits)
qed

text \<open>A gate for vector \<open>n\<close> as the loops leave it, with the flag that says whether it is present.\<close>

definition gate_for :: "(nat \<Rightarrow> u32) \<Rightarrow> nat \<Rightarrow> bool \<Rightarrow> IDT_ENTRY \<Rightarrow> bool" where
  "gate_for isr n present e \<longleftrightarrow> gate_base e = isr n \<and> seg_selector e = i686_GDT_CODE_SEG \<and>
     i_flags e = (if n = 136 then 0x6E else 0x0E) OR (if present then 0x80 else 0)"

lemma init_gates_correct:
  assumes "length idt = 256"
  shows "\<exists>idt'. i686_isr_init_gates isr idt = Some idt' \<and> length idt' = 256 \<and>
    (\<forall>n < 256. gate_for isr n False (idt' ! n))"
proof -
  let ?P = "\<lambda>done idt'. length idt' = 256 \<and> (\<forall>n \<in> set done. gate_for isr n False (idt' ! n))"
  have "\<exists>idt'. for_loop (init_gate isr) [0..<256] idt = Some idt' \<and> ?P [0..<256] idt'"
  proof (rule for_loop_inv [of ?P])
    fix don i rest t
    assume s: "[0..<256] = don @ i # rest" and P: "?P don t"
    have i: "i < 256" using arg_cong [OF s, of set] by auto
    let ?e = "\<lparr>i_base_low = ucast (isr i AND 0xFFFF), seg_selector = i686_GDT_CODE_SEG, i_res = 0,
      i_flags = (if i = 136 then IDT_FLAG_RING0 OR IDT_FLAG_RING3 OR IDT_FLAG_GATE_32B_INT
        else IDT_FLAG_RING0 OR IDT_FLAG_GATE_32B_INT), i_base_hi = ucast (drop_bit 16 (isr i) AND 0xFFFF)\<rparr>"
    have "init_gate isr i t = Some (t[i := ?e])"
      using i P by (simp add: init_gate_def i686_idt_descriptor_def)
    moreover have "gate_for isr i False ?e"
      unfolding gate_for_def idt_descriptor_decodes by (simp add: idt_flag_defs)
    ultimately show "\<exists>t'. init_gate isr i t = Some t' \<and> ?P (don @ [i]) t'"
      using P i by (auto simp: nth_list_update)
  qed (use assms in simp)
  then obtain idt' where r: "for_loop (init_gate isr) [0..<256] idt = Some idt'" "length idt' = 256"
    "\<forall>n < 256. gate_for isr n False (idt' ! n)" by auto
  have s: "[0..<256] = [0..<128] @ [128..<256]" using upt_add_eq_append [of 0 128 128] by simp
  have h: "init_gates_high isr = for_loop (init_gate isr) [128..<256]" by (rule ext) (rule init_gates_high_def)
  have "i686_isr_init_gates isr idt = Some idt'"
    using r(1) unfolding i686_isr_init_gates_def init_gates_low_def h s for_loop_append .
  then show ?thesis using r by blast
qed

lemma gate_for_present:
  "gate_for isr n b e \<Longrightarrow> gate_for isr n True (e\<lparr>i_flags := i_flags e OR IDT_FLAG_PRESENT\<rparr>)"
  "gate_for isr n b e \<Longrightarrow> gate_for isr n False (e\<lparr>i_flags := i_flags e AND NOT IDT_FLAG_PRESENT\<rparr>)"
  by (auto simp: gate_for_def gate_base_def idt_flag_defs)

lemma set_present_loop:
  assumes "length idt = 256" "\<forall>n < 256. gate_for isr n False (idt ! n)"
  shows "\<exists>idt'. for_loop (\<lambda>i idt. i686_idt_set_present_flag idt i) [0..255] idt = Some idt' \<and> length idt' = 256 \<and>
    (\<forall>n < 256. gate_for isr n True (idt' ! n))"
proof -
  let ?P = "\<lambda>don idt'. length idt' = 256 \<and> (\<forall>n < 256. gate_for isr n (int n \<in> set don) (idt' ! n))"
  have "\<exists>idt'. for_loop (\<lambda>i idt. i686_idt_set_present_flag idt i) [0..255] idt = Some idt' \<and> ?P [0..255] idt'"
  proof (rule for_loop_inv [of ?P])
    fix don i rest and t :: "IDT_ENTRY list"
    assume s: "[0..255] = don @ i # rest" and P: "?P don t"
    have "i \<in> set [0..255]" unfolding s by simp
    then have i: "0 \<le> i" "i < 256" unfolding set_upto by auto
    then obtain k where k: "i = int k" "k < 256" by (metis nonneg_int_cases of_nat_less_numeral_iff)
    let ?e = "(t ! k)\<lparr>i_flags := i_flags (t ! k) OR IDT_FLAG_PRESENT\<rparr>"
    have "i686_idt_set_present_flag t i = Some (t[k := ?e])"
      using k P by (simp add: i686_idt_set_present_flag_def)
    moreover have "gate_for isr k True ?e" using gate_for_present(1) P k(2) by blast
    ultimately show "\<exists>t'. i686_idt_set_present_flag t i = Some t' \<and> ?P (don @ [i]) t'"
      using P k by (auto simp: nth_list_update)
  qed (use assms in simp)
  then show ?thesis by auto
qed

lemma gate_for_reads:
  "gate_for isr n p e \<Longrightarrow> gate_base e = isr n \<and> seg_selector e = i686_GDT_CODE_SEG \<and> gate_present e = p \<and>
     gate_dpl e = (if n = 136 then 3 else 0) \<and> i_flags e AND 0x0F = IDT_FLAG_GATE_32B_INT"
  by (cases p) (auto simp: gate_for_def gate_present_def gate_dpl_def idt_flag_defs bit_iff_odd)

text \<open>After \<open>i686_isr_init\<close> every vector \<open>n\<close> has the 32-bit interrupt gate of its own entry
  point \<open>i686_isr_n\<close> in the kernel's code segment; all are present but the system call's, and
  the system call's is the only one that user code may call.\<close>

theorem isr_gates_installed:
  assumes "length idt = 256"
  shows "\<exists>idt'. i686_isr_init isr idt = Some idt' \<and> length idt' = 256 \<and>
    (\<forall>n < 256. gate_base (idt' ! n) = isr n \<and> seg_selector (idt' ! n) = i686_GDT_CODE_SEG \<and>
      (gate_present (idt' ! n) \<longleftrightarrow> n \<noteq> 0x88) \<and> gate_dpl (idt' ! n) = (if n = 0x88 then 3 else 0) \<and>
      i_flags (idt' ! n) AND 0x0F = IDT_FLAG_GATE_32B_INT)"
proof -
  obtain idt1 where 1: "i686_isr_init_gates isr idt = Some idt1" "length idt1 = 256" "\<forall>n < 256. gate_for isr n False (idt1 ! n)"
    using init_gates_correct [OF assms] by blast
  obtain idt2 where 2: "for_loop (\<lambda>i idt. i686_idt_set_present_flag idt i) [0..255] idt1 = Some idt2" "length idt2 = 256"
    "\<forall>n < 256. gate_for isr n True (idt2 ! n)"
    using set_present_loop [OF 1(2,3)] by blast
  let ?e = "(idt2 ! 136)\<lparr>i_flags := i_flags (idt2 ! 136) AND NOT IDT_FLAG_PRESENT\<rparr>"
  have run: "i686_isr_init isr idt = Some (idt2[136 := ?e])"
    using 1(1) 2(1,2) by (simp add: i686_isr_init_def i686_idt_unset_present_flag_def aread_int_def awrite_int_def)
  have g: "gate_for isr n (n \<noteq> 136) (idt2[136 := ?e] ! n)" if "n < 256" for n
    using 2(2,3) that gate_for_present(2) [of isr 136 True] by (cases "n = 136") auto
  show ?thesis
  proof (intro exI [of _ "idt2[136 := ?e]"] conjI allI impI run)
    fix n :: nat assume n: "n < 256"
    note r = gate_for_reads [OF g [OF n]]
    show "gate_base (idt2[136 := ?e] ! n) = isr n" "seg_selector (idt2[136 := ?e] ! n) = i686_GDT_CODE_SEG"
      "gate_dpl (idt2[136 := ?e] ! n) = (if n = 0x88 then 3 else 0)"
      "i_flags (idt2[136 := ?e] ! n) AND 0x0F = IDT_FLAG_GATE_32B_INT"
      "gate_present (idt2[136 := ?e] ! n) = (n \<noteq> 0x88)" using r by blast+
  qed (simp add: 2(2))
qed

lemma isr_gates_installed_witness:
  "\<exists>idt'. i686_isr_init (\<lambda>n. 0x1000 + word_of_nat n * 16)
    (replicate 256 \<lparr>i_base_low = 0, seg_selector = 0, i_res = 0, i_flags = 0, i_base_hi = 0\<rparr>) = Some idt'"
  using isr_gates_installed [OF length_replicate] by blast

end
