(* ===== verification/Scheduler.thy ===== *)
theory Scheduler
  imports Prelude
begin

text \<open>
  The scheduler, \<open>kernel/hal/scheduler.c\<close>, but for the creation of a process (theory
  \<open>Process\<close>): the table of processes, the saved registers and the switch on a timer interrupt.
\<close>

section \<open>Data\<close>

text \<open>The registers pushed by the interrupt entry code (\<open>arch/i686/isr.h\<close>).\<close>

record REGISTERS =
  cr4 :: u32  cr3 :: u32  cr2 :: u32  cr0 :: u32
  gs :: u32  fs :: u32  es :: u32  ds :: u32
  edi :: u32  esi :: u32  ebp :: u32  oldesp :: u32  ebx :: u32  edx :: u32  ecx :: u32  eax :: u32
  intr :: u32  err :: u32
  eip :: u32  cs :: u32  eflags :: u32  esp :: u32  ss :: u32

definition zero_registers :: REGISTERS where
  "zero_registers = \<lparr>cr4 = 0, cr3 = 0, cr2 = 0, cr0 = 0, gs = 0, fs = 0, es = 0, ds = 0,
     edi = 0, esi = 0, ebp = 0, oldesp = 0, ebx = 0, edx = 0, ecx = 0, eax = 0,
     intr = 0, err = 0, eip = 0, cs = 0, eflags = 0, esp = 0, ss = 0\<rparr>"

record PCB =
  regs :: REGISTERS
  valid :: bool

definition MAX_THREADS :: nat where "MAX_THREADS = 10"
definition USER_SPACE_4MBs :: u32 where "USER_SPACE_4MBs = 3"
definition PROCESS_PRESENT :: u8 where "PROCESS_PRESENT = 0x10"
definition PROCESS_THREAD :: u8 where "PROCESS_THREAD = 0x20"
definition PROCESS_PRIO :: u8 where "PROCESS_PRIO = 0x40"

text \<open>\<open>cur_running_process\<close> is \<open>-1\<close> for the kernel.\<close>

record scheduler =
  processes :: "u8 list"
  pcbs :: "PCB list"
  kernel_pcb :: PCB
  sleep_ticks :: "u32 list"
  cur_running_process :: int

section \<open>Operations\<close>

definition hal_process_attribute :: "scheduler \<Rightarrow> int \<Rightarrow> u8 option" where
  "hal_process_attribute st index = aread_int (processes st) index"

definition hal_current_process_num :: "scheduler \<Rightarrow> int" where
  "hal_current_process_num st = cur_running_process st"

definition hal_remove_current_process :: "scheduler \<Rightarrow> scheduler option" where
  "hal_remove_current_process st =
     (if cur_running_process st = -1 then Some st
      else do {
        a \<leftarrow> aread_int (processes st) (cur_running_process st);
        ps \<leftarrow> awrite_int (processes st) (cur_running_process st) (a AND NOT PROCESS_PRESENT);
        pcb \<leftarrow> aread_int (pcbs st) (cur_running_process st);
        pcbs' \<leftarrow> awrite_int (pcbs st) (cur_running_process st) (pcb\<lparr>regs := zero_registers\<rparr>);
        Some (st\<lparr>processes := ps, pcbs := pcbs'\<rparr>)
      })"

definition hal_set_sleep_tick :: "scheduler \<Rightarrow> int \<Rightarrow> u32 \<Rightarrow> scheduler option" where
  "hal_set_sleep_tick st index ticks =
     map_option (\<lambda>s. st\<lparr>sleep_ticks := s\<rparr>) (awrite_int (sleep_ticks st) index ticks)"

function find_process :: "u8 list \<Rightarrow> nat \<Rightarrow> bool \<Rightarrow> int option" where
  "find_process procs process_idx check_present =
     (if process_idx < MAX_THREADS then do {
        a \<leftarrow> aread procs process_idx;
        if check_present = (a AND PROCESS_PRESENT \<noteq> 0) then Some (int process_idx)
        else find_process procs (Suc process_idx) check_present
      } else Some (-1))"
  by pat_completeness auto
termination
  by (relation "measure (\<lambda>(ps, i, c). MAX_THREADS - i)") auto

declare find_process.simps [simp del]

text \<open>The registers a process that never ran takes over from the interrupted context.\<close>

definition validate_pcb :: "REGISTERS \<Rightarrow> PCB \<Rightarrow> PCB" where
  "validate_pcb r pcb =
     (if valid pcb then pcb
      else \<lparr>regs = (regs pcb)\<lparr>cr0 := cr0 r, cr2 := cr2 r, cr3 := cr3 r, cr4 := cr4 r,
          ebp := ebp r, ebx := ebx r, ecx := ecx r, edx := edx r, edi := edi r, esi := esi r,
          intr := intr r, err := err r, oldesp := oldesp r\<rparr>,
        valid = True\<rparr>)"

text \<open>Where the registers of the interrupted context go.\<close>

definition save_context :: "scheduler \<Rightarrow> REGISTERS \<Rightarrow> scheduler option" where
  "save_context st r =
     (if cur_running_process st = -1 then Some (st\<lparr>kernel_pcb := (kernel_pcb st)\<lparr>regs := r\<rparr>\<rparr>)
      else do {
        a \<leftarrow> aread_int (processes st) (cur_running_process st);
        if a AND PROCESS_PRESENT \<noteq> 0 then do {
          pcb \<leftarrow> aread_int (pcbs st) (cur_running_process st);
          pcbs' \<leftarrow> awrite_int (pcbs st) (cur_running_process st) (pcb\<lparr>regs := r\<rparr>);
          Some (st\<lparr>pcbs := pcbs'\<rparr>)
        } else Some st
      })"

text \<open>
  \<open>preempt(regs, ticks)\<close>: the new state, the registers to return to, and whether another
  context runs.
\<close>

definition preempt :: "scheduler \<Rightarrow> REGISTERS \<Rightarrow> int \<Rightarrow> (scheduler \<times> REGISTERS \<times> bool) option" where
  "preempt st r ticks = do {
     hold \<leftarrow> (if ticks \<le> 5 \<and> cur_running_process st \<ge> 0
       then map_option (\<lambda>a. a AND PROCESS_THREAD \<noteq> 0) (aread_int (processes st) (cur_running_process st))
       else Some False);
     if hold then Some (st, r, False)
     else do {
       st1 \<leftarrow> save_context st r;
       let prev_process = cur_running_process st;
       next_process \<leftarrow> (if prev_process = -1 then find_process (processes st1) 0 True
         else find_process (processes st1) (nat (prev_process + 1)) True);
       let st2 = st1\<lparr>cur_running_process := next_process\<rparr>;
       if prev_process = next_process then Some (st2, r, False)
       else if next_process = -1 then Some (st2, regs (kernel_pcb st2), True)
       else do {
         pcb \<leftarrow> aread_int (pcbs st2) next_process;
         pcbs' \<leftarrow> awrite_int (pcbs st2) next_process (validate_pcb r pcb);
         Some (st2\<lparr>pcbs := pcbs'\<rparr>, regs (validate_pcb r pcb), True)
       }
     }
   }"

section \<open>The invariant and the ring of contexts\<close>

definition present :: "scheduler \<Rightarrow> int \<Rightarrow> bool" where
  "present st p \<longleftrightarrow> 0 \<le> p \<and> p < int MAX_THREADS \<and> processes st ! nat p AND PROCESS_PRESENT \<noteq> 0"

definition is_thread :: "scheduler \<Rightarrow> int \<Rightarrow> bool" where
  "is_thread st p \<longleftrightarrow> 0 \<le> p \<and> p < int MAX_THREADS \<and> processes st ! nat p AND PROCESS_THREAD \<noteq> 0"

definition sched_ok :: "scheduler \<Rightarrow> bool" where
  "sched_ok st \<longleftrightarrow> length (processes st) = MAX_THREADS \<and> length (pcbs st) = MAX_THREADS \<and>
     -1 \<le> cur_running_process st \<and> cur_running_process st < int MAX_THREADS"

text \<open>The context after \<open>c\<close>: the next present process, after the last one the kernel.\<close>

definition next_context :: "scheduler \<Rightarrow> int \<Rightarrow> int" where
  "next_context st c = (if \<exists>p. present st p \<and> c < p then Min {p. present st p \<and> c < p} else -1)"

text \<open>The saved registers of a context, and whether it has run.\<close>

definition saved :: "scheduler \<Rightarrow> int \<Rightarrow> REGISTERS" where
  "saved st c = (if c = -1 then regs (kernel_pcb st) else regs (pcbs st ! nat c))"

definition has_run :: "scheduler \<Rightarrow> int \<Rightarrow> bool" where
  "has_run st c \<longleftrightarrow> c = -1 \<or> valid (pcbs st ! nat c)"

lemma finite_present: "finite {p. present st p \<and> P p}"
  by (rule finite_subset [of _ "{0..<int MAX_THREADS}"]) (auto simp: present_def)

lemma next_context_props:
  "next_context st c = -1 \<and> (\<forall>p. present st p \<longrightarrow> p \<le> c) \<or>
   present st (next_context st c) \<and> c < next_context st c \<and> (\<forall>p. present st p \<longrightarrow> c < p \<longrightarrow> next_context st c \<le> p)"
proof (cases "\<exists>p. present st p \<and> c < p")
  case True
  let ?A = "{p. present st p \<and> c < p}"
  have "Min ?A \<in> ?A" using True by (intro Min_in finite_present) auto
  moreover have "Min ?A \<le> p" if "present st p" "c < p" for p using that by (intro Min_le finite_present) auto
  ultimately show ?thesis using True by (auto simp: next_context_def)
qed (auto simp: next_context_def)

lemma next_context_unique:
  assumes "present st q" "c < q" "\<And>p. present st p \<Longrightarrow> c < p \<Longrightarrow> q \<le> p"
  shows "next_context st c = q"
proof -
  from next_context_props [of st c] show ?thesis
  proof
    assume "next_context st c = -1 \<and> (\<forall>p. present st p \<longrightarrow> p \<le> c)"
    then show ?thesis using assms(1,2) by force
  next
    assume "present st (next_context st c) \<and> c < next_context st c \<and> (\<forall>p. present st p \<longrightarrow> c < p \<longrightarrow> next_context st c \<le> p)"
    then show ?thesis using assms by (intro antisym) auto
  qed
qed

lemma find_process_next:
  assumes "length (processes st) = MAX_THREADS" "i \<le> MAX_THREADS"
  shows "find_process (processes st) i True = Some (next_context st (int i - 1))"
  using assms(2)
proof (induction "MAX_THREADS - i" arbitrary: i)
  case 0
  then have "next_context st (int i - 1) = -1" by (auto simp: next_context_def present_def)
  then show ?case using 0 by (subst find_process.simps) simp
next
  case (Suc k)
  then have i: "i < MAX_THREADS" by simp
  have run: "find_process (processes st) i True =
      (if processes st ! i AND PROCESS_PRESENT \<noteq> 0 then Some (int i) else find_process (processes st) (Suc i) True)"
    using i assms(1) by (simp add: find_process.simps [of _ i])
  show ?case
  proof (cases "processes st ! i AND PROCESS_PRESENT \<noteq> 0")
    case True
    then have "next_context st (int i - 1) = int i" using i by (intro next_context_unique) (auto simp: present_def)
    then show ?thesis using run True by simp
  next
    case False
    have "find_process (processes st) (Suc i) True = Some (next_context st (int (Suc i) - 1))"
      by (rule Suc.hyps(1)) (use Suc.hyps(2) i in auto)
    moreover have "\<not> present st (int i)" using False by (simp add: present_def)
    then have "present st p \<and> int i - 1 < p \<longleftrightarrow> present st p \<and> int i < p" for p by (cases "p = int i") auto
    then have "next_context st (int i - 1) = next_context st (int i)" unfolding next_context_def by presburger
    ultimately show ?thesis using run False by simp
  qed
qed

section \<open>One switch\<close>

text \<open>A context that may be preempted: the kernel, a process, or a thread whose time is over.\<close>

definition held :: "scheduler \<Rightarrow> int \<Rightarrow> bool" where
  "held st ticks \<longleftrightarrow> ticks \<le> 5 \<and> is_thread st (cur_running_process st)"

text \<open>The context that runs is saved if it is the kernel or still present.\<close>

definition save_spec :: "scheduler \<Rightarrow> REGISTERS \<Rightarrow> scheduler" where
  "save_spec st r = (let c = cur_running_process st in
     if c = -1 then st\<lparr>kernel_pcb := (kernel_pcb st)\<lparr>regs := r\<rparr>\<rparr>
     else if present st c then st\<lparr>pcbs := (pcbs st)[nat c := (pcbs st ! nat c)\<lparr>regs := r\<rparr>]\<rparr>
     else st)"

lemma save_context_spec:
  assumes "sched_ok st"
  shows "save_context st r = Some (save_spec st r)"
  using assms by (auto simp: save_context_def save_spec_def sched_ok_def present_def Let_def aread_int_def awrite_int_def)

lemma save_spec_simps [simp]:
  "processes (save_spec st r) = processes st" "cur_running_process (save_spec st r) = cur_running_process st"
  "sleep_ticks (save_spec st r) = sleep_ticks st" "length (pcbs (save_spec st r)) = length (pcbs st)"
  by (simp_all add: save_spec_def Let_def)

lemma present_cong: "processes st = processes st' \<Longrightarrow> present st = present st'"
  by (simp add: present_def fun_eq_iff)

lemma next_context_cong: "processes st = processes st' \<Longrightarrow> next_context st = next_context st'"
  by (rule ext) (simp only: next_context_def present_cong [of st st'])

lemma next_context_range: "-1 \<le> next_context st c \<and> next_context st c < int MAX_THREADS"
  using next_context_props [of st c] by (auto simp: present_def MAX_THREADS_def)

text \<open>The state after a switch away from the context that ran.\<close>

definition switch_spec :: "scheduler \<Rightarrow> REGISTERS \<Rightarrow> scheduler" where
  "switch_spec st r = (let st1 = save_spec st r; n = next_context st (cur_running_process st);
      st2 = st1\<lparr>cur_running_process := n\<rparr> in
     if n = -1 \<or> n = cur_running_process st then st2
     else st2\<lparr>pcbs := (pcbs st2)[nat n := validate_pcb r (pcbs st2 ! nat n)]\<rparr>)"

lemma preempt_spec:
  assumes ok: "sched_ok st"
  shows "preempt st r ticks =
    (if held st ticks then Some (st, r, False)
     else let n = next_context st (cur_running_process st); st' = switch_spec st r in
       Some (st', if n = cur_running_process st then r else saved st' n, n \<noteq> cur_running_process st))"
proof -
  let ?c = "cur_running_process st"
  have len: "length (processes st) = MAX_THREADS" "length (pcbs st) = MAX_THREADS" "-1 \<le> ?c" "?c < int MAX_THREADS"
    using ok by (auto simp: sched_ok_def)
  have h: "(if ticks \<le> 5 \<and> ?c \<ge> 0 then map_option (\<lambda>a. a AND PROCESS_THREAD \<noteq> 0) (aread_int (processes st) ?c)
      else Some False) = Some (held st ticks)"
    using len by (auto simp: held_def is_thread_def aread_int_def)
  have f: "(if ?c = -1 then find_process (processes st) 0 True else find_process (processes st) (nat (?c + 1)) True) =
      Some (next_context st ?c)"
    using find_process_next [of st 0] find_process_next [of st "nat (?c + 1)"] len by auto
  have n: "-1 \<le> next_context st ?c" "next_context st ?c < int MAX_THREADS" using next_context_range by auto
  show ?thesis
  proof (cases "held st ticks")
    case True
    then show ?thesis unfolding preempt_def h by simp
  next
    case False
    then show ?thesis using f n len
      unfolding preempt_def h save_context_spec [OF ok]
      by (auto simp: Let_def switch_spec_def saved_def aread_int_def awrite_int_def)
  qed
qed

lemma sched_ok_switch: "sched_ok st \<Longrightarrow> sched_ok (switch_spec st r)"
  using next_context_range [of st "cur_running_process st"] by (auto simp: sched_ok_def switch_spec_def Let_def)

lemma switch_spec_simps [simp]:
  "processes (switch_spec st r) = processes st" "sleep_ticks (switch_spec st r) = sleep_ticks st"
  "cur_running_process (switch_spec st r) = next_context st (cur_running_process st)"
  by (auto simp: switch_spec_def Let_def)

lemma present_switch: "present (switch_spec st r) = present st"
  by (rule present_cong) simp

text \<open>What the switch does to the saved registers of a context.\<close>

lemma nat_eq_contexts: "0 \<le> (c :: int) \<Longrightarrow> 0 \<le> d \<Longrightarrow> nat c = nat d \<longleftrightarrow> c = d"
  by auto

lemma save_spec_pcbs:
  assumes "sched_ok st" "0 \<le> c"
  shows "pcbs (save_spec st r) ! nat c =
      (if c = cur_running_process st \<and> present st c then (pcbs st ! nat c)\<lparr>regs := r\<rparr> else pcbs st ! nat c)"
proof -
  have "nat (cur_running_process st) < length (pcbs st)" if "0 \<le> cur_running_process st"
    using assms(1) that by (auto simp: sched_ok_def nat_less_iff)
  then show ?thesis
    using assms(2) by (auto simp: save_spec_def Let_def nth_list_update nat_eq_contexts present_def)
qed

lemma switch_spec_pcbs:
  assumes "sched_ok st" "0 \<le> c"
  shows "pcbs (switch_spec st r) ! nat c =
      (if c = next_context st (cur_running_process st) \<and> c \<noteq> cur_running_process st
       then validate_pcb r (pcbs (save_spec st r) ! nat c) else pcbs (save_spec st r) ! nat c)"
proof -
  let ?n = "next_context st (cur_running_process st)"
  have "nat ?n < length (pcbs st)" if "0 \<le> ?n"
    using assms(1) that next_context_range [of st "cur_running_process st"] by (auto simp: sched_ok_def nat_less_iff)
  moreover have "0 \<le> ?n" if "?n \<noteq> -1" using that next_context_range [of st "cur_running_process st"] by simp
  ultimately show ?thesis
    using assms(2) by (auto simp: switch_spec_def Let_def nth_list_update nat_eq_contexts)
qed

lemma switch_spec_kernel:
  "kernel_pcb (switch_spec st r) = (if cur_running_process st = -1 then (kernel_pcb st)\<lparr>regs := r\<rparr> else kernel_pcb st)"
  by (simp add: switch_spec_def save_spec_def Let_def)

lemma switch_saves:
  assumes "sched_ok st" "c = cur_running_process st" "c = -1 \<or> present st c" "has_run st c"
  shows "saved (switch_spec st r) c = r" "has_run (switch_spec st r) c"
proof (atomize (full), cases "c = -1")
  case True
  then show "saved (switch_spec st r) c = r \<and> has_run (switch_spec st r) c"
    using assms(2) by (simp add: saved_def has_run_def switch_spec_kernel)
next
  case False
  then have c: "0 \<le> c" "present st c" using assms(3) by (auto simp: present_def)
  then show "saved (switch_spec st r) c = r \<and> has_run (switch_spec st r) c"
    using False assms(2,4) switch_spec_pcbs [OF assms(1) c(1)] save_spec_pcbs [OF assms(1) c(1)]
    by (simp add: saved_def has_run_def)
qed

lemma switch_keeps:
  assumes "sched_ok st" "c \<noteq> cur_running_process st" "has_run st c" "-1 \<le> c"
  shows "saved (switch_spec st r) c = saved st c" "has_run (switch_spec st r) c"
proof (atomize (full), cases "c = -1")
  case True
  then show "saved (switch_spec st r) c = saved st c \<and> has_run (switch_spec st r) c"
    using assms(2) by (simp add: saved_def has_run_def switch_spec_kernel)
next
  case False
  then have c: "0 \<le> c" using assms(4) by simp
  then show "saved (switch_spec st r) c = saved st c \<and> has_run (switch_spec st r) c"
    using False assms(2,3) unfolding saved_def has_run_def switch_spec_pcbs [OF assms(1) c] save_spec_pcbs [OF assms(1) c]
    by (auto simp: validate_pcb_def)
qed

text \<open>C16: A timer interrupt in a well-formed state leaves a running thread alone for its first five
  ticks and otherwise switches to the next present process in the order of their numbers, to
  the kernel after the last one. The registers of the context that ran are saved, those of
  the new one are restored as they were saved, and no other context that has run loses its
  registers.\<close>

theorem preempt_correct:
  assumes ok: "sched_ok st" and c: "c = cur_running_process st" "c = -1 \<or> present st c" "has_run st c"
  shows "\<exists>st' r' switched. preempt st r ticks = Some (st', r', switched) \<and> sched_ok st' \<and> processes st' = processes st \<and>
    (if held st ticks then st' = st \<and> r' = r \<and> \<not> switched
     else cur_running_process st' = next_context st c \<and> (switched \<longleftrightarrow> next_context st c \<noteq> c) \<and>
       r' = (if switched then saved st' (next_context st c) else r) \<and> saved st' c = r \<and>
       (\<forall>d. d \<noteq> c \<and> -1 \<le> d \<and> has_run st d \<longrightarrow> saved st' d = saved st d))"
proof (cases "held st ticks")
  case True
  then show ?thesis using preempt_spec [OF ok] ok by (intro exI [of _ st] exI [of _ r] exI [of _ False]) simp
next
  case False
  then have "preempt st r ticks = Some (switch_spec st r,
      if next_context st c = c then r else saved (switch_spec st r) (next_context st c), next_context st c \<noteq> c)"
    using preempt_spec [OF ok, of r ticks] c(1) by (simp add: Let_def)
  then show ?thesis
    using False c(1) sched_ok_switch [OF ok] switch_saves(1) [OF ok c] switch_keeps(1) [OF ok] by auto
qed

section \<open>Runs\<close>

text \<open>A run: one timer interrupt after the other, with the registers that the interrupted context
  had; observed are the context that runs afterwards and the registers it gets.\<close>

fun sched_run :: "scheduler \<Rightarrow> (REGISTERS \<times> int) list \<Rightarrow> (scheduler \<times> (int \<times> REGISTERS) list) option" where
  "sched_run st [] = Some (st, [])"
| "sched_run st ((r, ticks) # ins) = do {
     (st1, r1, switched) \<leftarrow> preempt st r ticks;
     (st2, outs) \<leftarrow> sched_run st1 ins;
     Some (st2, (cur_running_process st1, r1) # outs)
   }"

lemma preempt_step:
  assumes "sched_ok st"
  obtains st' r' b where "preempt st r ticks = Some (st', r', b)" "sched_ok st'" "processes st' = processes st"
    "st' = (if held st ticks then st else switch_spec st r)"
    "r' = (if held st ticks \<or> next_context st (cur_running_process st) = cur_running_process st then r
      else saved st' (cur_running_process st'))"
proof -
  let ?st = "if held st ticks then st else switch_spec st r"
  let ?n = "next_context st (cur_running_process st)"
  have p: "preempt st r ticks = Some (?st,
      if held st ticks \<or> ?n = cur_running_process st then r else saved ?st (cur_running_process ?st),
      \<not> held st ticks \<and> ?n \<noteq> cur_running_process st)"
    using preempt_spec [OF assms, of r ticks] by (auto simp: Let_def)
  show thesis by (rule that [OF p]) (use assms sched_ok_switch in auto)
qed

lemma sched_run_total:
  "sched_ok st \<Longrightarrow> \<exists>st' outs. sched_run st ins = Some (st', outs) \<and> sched_ok st' \<and>
     processes st' = processes st \<and> length outs = length ins"
proof (induction ins arbitrary: st)
  case (Cons i ins)
  obtain r t where i: "i = (r, t)" by (cases i)
  obtain st1 r1 b where 1: "preempt st r t = Some (st1, r1, b)" "sched_ok st1" "processes st1 = processes st"
    using preempt_step [OF Cons.prems] by metis
  from Cons.IH [OF 1(2)] show ?case using 1 by (auto simp: i)
qed simp

text \<open>While another context runs, a saved context waits unchanged and comes back as it was.\<close>

lemma waiting_context:
  assumes "sched_ok st" "cur_running_process st \<noteq> c" "-1 \<le> c" "has_run st c" "ins \<noteq> []"
    and "sched_run st ins = Some (st', outs)" "fst (last outs) = c" "\<forall>ob \<in> set (butlast outs). fst ob \<noteq> c"
  shows "snd (last outs) = saved st c"
  using assms
proof (induction ins arbitrary: st outs)
  case (Cons i ins)
  obtain r t where i: "i = (r, t)" by (cases i)
  obtain st1 r1 b where 1: "preempt st r t = Some (st1, r1, b)" "sched_ok st1"
      "st1 = (if held st t then st else switch_spec st r)"
      "r1 = (if held st t \<or> next_context st (cur_running_process st) = cur_running_process st then r
        else saved st1 (cur_running_process st1))"
    using preempt_step [OF Cons.prems(1)] by metis
  have keep: "saved st1 c = saved st c" "has_run st1 c"
    using switch_keeps [OF Cons.prems(1) Cons.prems(2) [symmetric] Cons.prems(4,3)] 1(3) Cons.prems(4) by auto
  obtain outs1 where 2: "sched_run st1 ins = Some (st', outs1)" "outs = (cur_running_process st1, r1) # outs1"
    using Cons.prems(6) 1(1) by (auto simp: i bind_Some_eq)
  show ?case
  proof (cases "ins = []")
    case True
    then have o: "outs = [(cur_running_process st1, r1)]" "cur_running_process st1 = c" using 2 Cons.prems(7) by auto
    then have "\<not> held st t" "next_context st (cur_running_process st) \<noteq> cur_running_process st"
      using 1(3) Cons.prems(2) by (auto split: if_splits)
    then show ?thesis using o keep 1(4) by simp
  next
    case False
    then have n: "outs1 \<noteq> []" using sched_run_total [OF 1(2), of ins] 2(1) by auto
    then have "cur_running_process st1 \<noteq> c" using Cons.prems(8) 2(2) by simp
    moreover have "fst (last outs1) = c" "\<forall>ob \<in> set (butlast outs1). fst ob \<noteq> c" using Cons.prems(7,8) 2(2) n by auto
    ultimately have "snd (last outs1) = saved st1 c"
      using Cons.IH [OF 1(2) _ Cons.prems(3) keep(2) False 2(1)] by blast
    then show ?thesis using 2(2) n keep(1) by simp
  qed
qed simp

text \<open>C17: A context that is interrupted with registers \<open>r0\<close> (the kernel or a present process) is
  returned to, the next time it runs, with exactly these registers, whatever ran in between.\<close>

theorem context_restored:
  assumes ok: "sched_ok st" and c: "c = cur_running_process st" "c = -1 \<or> present st c" "has_run st c"
    and run: "sched_run st ((r0, t0) # ins) = Some (st', outs)"
    and again: "fst (last outs) = c" "\<forall>ob \<in> set (butlast outs). fst ob \<noteq> c"
  shows "snd (last outs) = r0"
proof -
  obtain st1 r1 b where 1: "preempt st r0 t0 = Some (st1, r1, b)" "sched_ok st1"
      "st1 = (if held st t0 then st else switch_spec st r0)"
      "r1 = (if held st t0 \<or> next_context st c = c then r0 else saved st1 (cur_running_process st1))"
    using preempt_step [OF ok] c(1) by metis
  obtain outs1 where 2: "sched_run st1 ins = Some (st', outs1)" "outs = (cur_running_process st1, r1) # outs1"
    using run 1(1) by (auto simp: bind_Some_eq)
  have len: "length outs1 = length ins" using sched_run_total [OF 1(2), of ins] 2(1) by auto
  show ?thesis
  proof (cases "cur_running_process st1 = c")
    case True
    then have "outs1 = []" using again(2) 2(2) by (cases "outs1 = []") auto
    moreover have "held st t0 \<or> next_context st c = c" using True 1(3) c(1) by (auto split: if_splits)
    ultimately show ?thesis using 2(2) 1(4) by simp
  next
    case False
    then have n: "outs1 \<noteq> []" using again(1) 2(2) by (cases "outs1 = []") auto
    have s: "saved st1 c = r0" "has_run st1 c" using switch_saves [OF ok c] False 1(3) c(1) by auto
    have "-1 \<le> c" using ok c(1) by (simp add: sched_ok_def)
    moreover have "ins \<noteq> []" using n len by auto
    moreover have "fst (last outs1) = c" "\<forall>ob \<in> set (butlast outs1). fst ob \<noteq> c" using again 2(2) n by auto
    ultimately have "snd (last outs1) = saved st1 c"
      by (rule waiting_context [OF 1(2) False _ s(2) _ 2(1)])
    then show ?thesis using 2(2) n s(1) by simp
  qed
qed

text \<open>How many switches it can take until process \<open>p\<close> runs when context \<open>c\<close> runs now.\<close>

definition distance :: "int \<Rightarrow> int \<Rightarrow> nat" where
  "distance p c = nat (if c < p then p - c else int MAX_THREADS + 1 + p - c)"

lemma distance_decreases:
  assumes "present st p" "-1 \<le> c" "c < int MAX_THREADS"
  shows "next_context st c = p \<or> distance p (next_context st c) < distance p c"
  using next_context_props [of st c] assms
  by (auto simp: distance_def present_def MAX_THREADS_def split: if_splits)

lemma process_runs_within:
  assumes "sched_ok st" "present st p" "\<forall>q. \<not> is_thread st q" "distance p (cur_running_process st) \<le> length ins"
  shows "\<exists>k. 0 < k \<and> k \<le> distance p (cur_running_process st) \<and>
    (\<exists>st' outs. sched_run st (take k ins) = Some (st', outs) \<and> cur_running_process st' = p)"
  using assms
proof (induction "length ins" arbitrary: st ins)
  case 0
  then have "distance p (cur_running_process st) = 0" by simp
  then show ?case using 0(2,3) by (auto simp: distance_def sched_ok_def present_def split: if_splits)
next
  case (Suc n)
  obtain r t ins' where i: "ins = (r, t) # ins'" using Suc.hyps(2) by (cases ins) auto
  obtain st1 r1 b where 1: "preempt st r t = Some (st1, r1, b)" "sched_ok st1" "processes st1 = processes st"
      "st1 = (if held st t then st else switch_spec st r)"
    using preempt_step [OF Suc.prems(1)] by metis
  have "\<not> held st t" using Suc.prems(3) by (simp add: held_def)
  then have cur: "cur_running_process st1 = next_context st (cur_running_process st)" using 1(4) by simp
  have c: "-1 \<le> cur_running_process st" "cur_running_process st < int MAX_THREADS" using Suc.prems(1) by (auto simp: sched_ok_def)
  from distance_decreases [OF Suc.prems(2) this] show ?case
  proof
    assume "next_context st (cur_running_process st) = p"
    moreover have "0 < distance p (cur_running_process st)"
      using c Suc.prems(2) by (auto simp: distance_def present_def)
    ultimately show ?thesis using 1(1) cur by (intro exI [of _ 1]) (simp add: i)
  next
    assume d: "distance p (next_context st (cur_running_process st)) < distance p (cur_running_process st)"
    have "present st1 p" "\<forall>q. \<not> is_thread st1 q" using Suc.prems(2,3) 1(3) by (auto simp: present_def is_thread_def)
    moreover have "distance p (cur_running_process st1) \<le> length ins'" using d cur Suc.prems(4) i by simp
    ultimately obtain k st' outs where k: "k \<le> distance p (cur_running_process st1)"
        "sched_run st1 (take k ins') = Some (st', outs)" "cur_running_process st' = p"
      using Suc.hyps(1) [of ins' st1] Suc.hyps(2) i 1(2) by auto
    then show ?thesis using d cur 1(1) by (intro exI [of _ "Suc k"]) (simp add: i)
  qed
qed

text \<open>C18: No process starves: as long as no process is a thread (none is ever created as one),
  every present process runs after at most \<open>MAX_THREADS + 1\<close> timer interrupts.\<close>

theorem every_process_runs:
  assumes "sched_ok st" "present st p" "\<forall>q. \<not> is_thread st q" "MAX_THREADS + 1 \<le> length ins"
  shows "\<exists>k st' outs. 0 < k \<and> k \<le> MAX_THREADS + 1 \<and> sched_run st (take k ins) = Some (st', outs) \<and>
    cur_running_process st' = p"
proof -
  have d: "distance p (cur_running_process st) \<le> MAX_THREADS + 1"
    using assms(1,2) by (auto simp: distance_def sched_ok_def present_def MAX_THREADS_def)
  then have "distance p (cur_running_process st) \<le> length ins" using assms(4) by simp
  from process_runs_within [OF assms(1-3) this] d show ?thesis using order_trans by blast
qed

section \<open>Examples\<close>

text \<open>Two processes, the kernel running.\<close>

definition ex_sched :: scheduler where
  "ex_sched = \<lparr>processes = [0, PROCESS_PRESENT, 0, PROCESS_PRESENT, 0, 0, 0, 0, 0, 0],
     pcbs = replicate 10 \<lparr>regs = zero_registers, valid = False\<rparr>,
     kernel_pcb = \<lparr>regs = zero_registers, valid = False\<rparr>, sleep_ticks = replicate 10 0, cur_running_process = -1\<rparr>"

lemma ex_sched_facts:
  "sched_ok ex_sched" "cur_running_process ex_sched = -1" "has_run ex_sched (-1)"
  "present ex_sched 3" "\<not> is_thread ex_sched q"
proof -
  show "sched_ok ex_sched" "cur_running_process ex_sched = -1" "has_run ex_sched (-1)" "present ex_sched 3"
    by (simp_all add: sched_ok_def ex_sched_def MAX_THREADS_def has_run_def present_def PROCESS_PRESENT_def)
  have "\<forall>a \<in> set (processes ex_sched). a AND PROCESS_THREAD = 0"
    by (simp add: ex_sched_def PROCESS_PRESENT_def PROCESS_THREAD_def)
  moreover have "length (processes ex_sched) = 10" by (simp add: ex_sched_def)
  ultimately show "\<not> is_thread ex_sched q" by (auto simp: is_thread_def MAX_THREADS_def)
qed

lemma preempt_correct_witness:
  "\<exists>st' r' switched. preempt ex_sched zero_registers 1 = Some (st', r', switched) \<and> sched_ok st' \<and> saved st' (-1) = zero_registers"
  using preempt_correct [of ex_sched "-1" zero_registers 1] ex_sched_facts by (auto simp: held_def)

lemma every_process_runs_witness:
  "\<exists>k st' outs. sched_run ex_sched (take k (replicate 11 (zero_registers, 1))) = Some (st', outs) \<and> cur_running_process st' = 3"
  using every_process_runs [of ex_sched 3 "replicate 11 (zero_registers, 1)"] ex_sched_facts
  unfolding length_replicate MAX_THREADS_def by auto

lemma context_restored_witness:
  "\<exists>st' outs. sched_run ex_sched [(zero_registers\<lparr>eax := 7\<rparr>, 1), (zero_registers, 2), (zero_registers, 3)] = Some (st', outs) \<and>
    last outs = (-1, zero_registers\<lparr>eax := 7\<rparr>)"
proof -
  let ?ins = "[(zero_registers\<lparr>eax := 7\<rparr>, 1), (zero_registers, 2), (zero_registers, 3)]"
  have "map_option (\<lambda>(s, obs). map fst obs) (sched_run ex_sched ?ins) = Some [1, 3, -1]"
    by code_simp
  then obtain st' outs where r: "sched_run ex_sched ?ins = Some (st', outs)" "map fst outs = [1, 3, -1]" by auto
  then obtain x y z where o: "outs = [(1, x), (3, y), (-1, z)]" by (auto simp: map_eq_Cons_conv)
  have "snd (last outs) = zero_registers\<lparr>eax := 7\<rparr>"
    by (rule context_restored [OF ex_sched_facts(1) ex_sched_facts(2) [symmetric] _ ex_sched_facts(3) r(1)]) (simp_all add: o)
  then show ?thesis using r(1) o by simp
qed

end
