(* ===== verification/Memory.thy ===== *)
theory Memory
  imports CString
begin

text \<open>
  Words in the flat memory of the kernel: the little-endian 32-bit fields of the structures
  that its C code keeps in allocated blocks, and ranges of addresses that do not wrap.
\<close>

section \<open>Ranges\<close>

text \<open>The range of \<open>n\<close> bytes from \<open>a\<close> on, and the ranges that end below the top of memory.\<close>

definition range_of :: "u32 \<Rightarrow> nat \<Rightarrow> nat set" where
  "range_of a n = {unat a ..< unat a + n}"

definition fits_memory :: "u32 \<Rightarrow> nat \<Rightarrow> bool" where
  "fits_memory a n \<longleftrightarrow> unat a + n \<le> 2 ^ 32"

lemma unat_add_nat: "unat (a :: u32) + i < 2 ^ 32 \<Longrightarrow> unat (a + word_of_nat i) = unat a + i"
  by (simp add: unat_word_ariths unat_of_nat take_bit_eq_mod)

lemma unat_add_less: "unat (a :: u32) + unat b < 2 ^ 32 \<Longrightarrow> unat (a + b) = unat a + unat b"
  by (simp add: unat_word_ariths)

lemma unat_sub_le: "b \<le> (a :: u32) \<Longrightarrow> unat (a - b) = unat a - unat b"
  by (rule unat_sub)

lemma in_range_of: "fits_memory a n \<Longrightarrow> i < n \<Longrightarrow> unat (a + word_of_nat i) \<in> range_of a n"
  by (simp add: fits_memory_def range_of_def unat_add_nat)

lemma not_in_range:
  assumes "unat x \<notin> range_of a n" "fits_memory a n" "i < n"
  shows "x \<noteq> a + word_of_nat i"
  using in_range_of [OF assms(2,3)] assms(1) by auto

section \<open>Fields\<close>

definition load32 :: "memory \<Rightarrow> u32 \<Rightarrow> u32" where
  "load32 m a = ucast (m a) OR push_bit 8 (ucast (m (a + 1))) OR
     push_bit 16 (ucast (m (a + 2))) OR push_bit 24 (ucast (m (a + 3)))"

definition store32 :: "memory \<Rightarrow> u32 \<Rightarrow> u32 \<Rightarrow> memory" where
  "store32 m a w = m(a := ucast w, a + 1 := ucast (drop_bit 8 w),
     a + 2 := ucast (drop_bit 16 w), a + 3 := ucast (drop_bit 24 w))"

lemma u32_offsets_distinct [simp]:
  "(a :: u32) \<noteq> a + 1" "a \<noteq> a + 2" "a \<noteq> a + 3" "a + 1 \<noteq> a + 2" "a + 1 \<noteq> a + 3" "a + 2 \<noteq> a + 3"
  by simp_all

lemma load32_store32 [simp]: "load32 (store32 m a w) a = w"
proof (rule bit_word_eqI)
  fix n assume n: "n < LENGTH(32)"
  consider "n < 8" | "8 \<le> n \<and> n < 16" | "16 \<le> n \<and> n < 24" | "24 \<le> n \<and> n < 32" using n by fastforce
  then show "bit (load32 (store32 m a w) a) n = bit w n"
    by cases (auto simp: load32_def store32_def bit_or_iff bit_push_bit_iff bit_ucast_iff bit_drop_bit_eq)
qed

lemma load32_cong: "(\<And>i. i < 4 \<Longrightarrow> m (a + word_of_nat i) = m' (a + word_of_nat i)) \<Longrightarrow> load32 m a = load32 m' a"
proof -
  assume *: "\<And>i. i < 4 \<Longrightarrow> m (a + word_of_nat i) = m' (a + word_of_nat i)"
  show ?thesis using * [of 0] * [of 1] * [of 2] * [of 3] by (simp add: load32_def)
qed

lemma store32_outside: "unat x \<notin> range_of a 4 \<Longrightarrow> fits_memory a 4 \<Longrightarrow> store32 m a w x = m x"
  using not_in_range [of x a 4 0] not_in_range [of x a 4 1] not_in_range [of x a 4 2] not_in_range [of x a 4 3]
  by (simp add: store32_def)

lemma load32_store32_other:
  assumes "fits_memory a 4" "fits_memory b 4" "range_of a 4 \<inter> range_of b 4 = {}"
  shows "load32 (store32 m b w) a = load32 m a"
proof (rule load32_cong)
  fix i :: nat assume "i < 4"
  then have "unat (a + word_of_nat i) \<notin> range_of b 4" using in_range_of [OF assms(1)] assms(3) by blast
  then show "store32 m b w (a + word_of_nat i) = m (a + word_of_nat i)"
    using store32_outside assms(2) by blast
qed

text \<open>A read of a word that was stored, for words at constant addresses.\<close>

lemma load32_store32_eval:
  "load32 (store32 m b w) a = (if a = b then w else if 4 \<le> a - b \<and> 4 \<le> b - a then load32 m a else load32 (store32 m b w) a)"
proof (cases "a = b \<or> \<not> (4 \<le> a - b \<and> 4 \<le> b - a)")
  case False
  then have d: "4 \<le> a - b" "4 \<le> b - a" by auto
  have ne: "a + i \<noteq> b + j" if ij: "unat i < 4" "unat j < 4" for i j :: u32
  proof
    assume e: "a + i = b + j"
    then have ab: "a - b = j - i" "b - a = i - j" by (auto simp: algebra_simps)
    show False
    proof (cases "i \<le> j")
      case True
      then have "unat (a - b) < 4" using ab ij unat_sub [OF True] by simp
      then show False using d by (simp add: word_le_nat_alt)
    next
      case False
      then have le: "j \<le> i" by simp
      have "unat (b - a) < 4" using ab ij unat_sub [OF le] by simp
      then show False using d by (simp add: word_le_nat_alt)
    qed
  qed
  have "store32 m b w (a + i) = m (a + i)" if "unat i < 4" for i
    using ne [of i 0] ne [of i 1] ne [of i 2] ne [of i 3] that by (simp add: store32_def)
  then have "load32 (store32 m b w) a = load32 m a"
    by (intro load32_cong) (simp add: unat_of_nat take_bit_eq_mod)
  then show ?thesis using False by simp
qed auto

text \<open>A change outside a range is not seen by what is read there.\<close>

definition same_on :: "memory \<Rightarrow> memory \<Rightarrow> nat set \<Rightarrow> bool" where
  "same_on m m' A \<longleftrightarrow> (\<forall>x. unat x \<in> A \<longrightarrow> m x = m' x)"

lemma same_on_mono: "same_on m m' A \<Longrightarrow> B \<subseteq> A \<Longrightarrow> same_on m m' B"
  by (auto simp: same_on_def)

lemma same_on_load32: "same_on m m' A \<Longrightarrow> fits_memory a 4 \<Longrightarrow> range_of a 4 \<subseteq> A \<Longrightarrow> load32 m a = load32 m' a"
  by (rule load32_cong) (use in_range_of [of a 4] in \<open>auto simp: same_on_def\<close>)

lemma same_on_bytes_at: "same_on m m' A \<Longrightarrow> fits_memory a n \<Longrightarrow> range_of a n \<subseteq> A \<Longrightarrow> bytes_at m a n = bytes_at m' a n"
  by (rule bytes_at_eqI) (use in_range_of [of a n] in \<open>auto simp: same_on_def\<close>)

text \<open>A copy between two ranges that do not overlap.\<close>

lemma memcpy_ranges:
  assumes "fits_memory dest (unat n)" "fits_memory src (unat n)"
    and "range_of dest (unat n) \<inter> range_of src (unat n) = {}"
  shows "bytes_at (fst (memcpy m dest src n)) dest (unat n) = bytes_at m src (unat n)"
    and "same_on (fst (memcpy m dest src n)) m (- range_of dest (unat n))"
proof -
  have safe: "forward_safe dest src (unat n)"
    unfolding forward_safe_def
  proof (intro allI impI)
    fix j l assume "j < l \<and> l < unat n"
    then have "unat (dest + word_of_nat j) \<in> range_of dest (unat n)" "unat (src + word_of_nat l) \<in> range_of src (unat n)"
      using in_range_of assms(1,2) by auto
    then show "dest + word_of_nat j \<noteq> src + word_of_nat l" using assms(3) by auto
  qed
  show "bytes_at (fst (memcpy m dest src n)) dest (unat n) = bytes_at m src (unat n)"
    by (rule memcpy_copies(1) [OF safe])
  show "same_on (fst (memcpy m dest src n)) m (- range_of dest (unat n))"
    unfolding same_on_def
  proof (intro allI impI)
    fix x :: u32 assume "unat x \<in> - range_of dest (unat n)"
    then have "x \<noteq> dest + word_of_nat j" if "j < unat n" for j
      using not_in_range [OF _ assms(1) that] by simp
    then show "fst (memcpy m dest src n) x = m x" by (rule memcpy_copies(2) [OF safe])
  qed
qed

end
