(* ===== verification/Console.thy ===== *)
theory Console
  imports Memory "HOL-Library.Signed_Division"
begin

text \<open>
  The text console, \<open>kernel/include/stdio.c\<close>: the screen with its two cursors, \<open>putc\<close> with
  its control characters and keys, scrolling, and formatted output. The screen is the 32 KiB
  text window of the video adapter at \<open>0xB8000\<close>; an access outside it is \<open>None\<close>.
\<close>

section \<open>State\<close>

text \<open>
  \<open>g_scr_x\<close>, \<open>g_scr_y\<close> are the cursor, \<open>out_scr_x\<close>, \<open>out_scr_y\<close> the end of what the kernel
  printed; \<open>ports\<close> records the writes of \<open>hal_outb\<close>.
\<close>

record console =
  g_scr_buff :: "u8 list"
  g_scr_x :: int
  g_scr_y :: int
  out_scr_x :: int
  out_scr_y :: int
  char_written :: u32
  g_enable_echo :: bool
  ports :: "(u16 \<times> u8) list"

definition SCREEN_WIDTH :: int where "SCREEN_WIDTH = 80"
definition SCREEN_HEIGHT :: int where "SCREEN_HEIGHT = 25"
definition DEFAULT_COLOUR :: u8 where "DEFAULT_COLOUR = 0x7"

definition KEY_BACKSPACE :: int where "KEY_BACKSPACE = 0x08"
definition KEY_UP :: int where "KEY_UP = 0x85"
definition KEY_DOWN :: int where "KEY_DOWN = 0x86"
definition KEY_LEFT :: int where "KEY_LEFT = 0x87"
definition KEY_RIGHT :: int where "KEY_RIGHT = 0x88"

lemmas screen_consts = SCREEN_WIDTH_def SCREEN_HEIGHT_def
lemmas key_consts = KEY_BACKSPACE_def KEY_UP_def KEY_DOWN_def KEY_LEFT_def KEY_RIGHT_def

definition set_screen_pos :: "console \<Rightarrow> int \<Rightarrow> int \<Rightarrow> console" where
  "set_screen_pos st scr_x scr_y = st\<lparr>g_scr_x := scr_x, g_scr_y := scr_y\<rparr>"

section \<open>Cells\<close>

text \<open>\<open>SCREEN_WIDTH\<close> is unsigned, so the index of a cell is computed modulo \<open>2 ^ 32\<close>.\<close>

definition cell_index :: "int \<Rightarrow> int \<Rightarrow> u32" where
  "cell_index x y = 2 * (word_of_int y * word_of_int SCREEN_WIDTH + word_of_int x)"

definition putchar :: "console \<Rightarrow> int \<Rightarrow> int \<Rightarrow> u8 \<Rightarrow> console option" where
  "putchar st x y c = do {
     buff \<leftarrow> awrite (g_scr_buff st) (unat (cell_index x y)) c;
     Some (st\<lparr>g_scr_buff := buff\<rparr>)
   }"

definition putclr :: "console \<Rightarrow> int \<Rightarrow> int \<Rightarrow> u8 \<Rightarrow> console option" where
  "putclr st x y colour = do {
     buff \<leftarrow> awrite (g_scr_buff st) (unat (cell_index x y + 1)) colour;
     Some (st\<lparr>g_scr_buff := buff\<rparr>)
   }"

definition getc :: "console \<Rightarrow> int \<Rightarrow> int \<Rightarrow> u8 option" where
  "getc st x y = aread (g_scr_buff st) (unat (cell_index x y))"

definition getclr :: "console \<Rightarrow> int \<Rightarrow> int \<Rightarrow> u8 option" where
  "getclr st x y = aread (g_scr_buff st) (unat (cell_index x y + 1))"

definition hal_outb :: "console \<Rightarrow> int \<Rightarrow> int \<Rightarrow> console" where
  "hal_outb st port value = st\<lparr>ports := ports st @ [(word_of_int port, word_of_int value)]\<rparr>"

definition setcrsr :: "console \<Rightarrow> int \<Rightarrow> int \<Rightarrow> console" where
  "setcrsr st x y =
     (let pos = y * SCREEN_WIDTH + x;
          st1 = hal_outb st 0x3D4 0x0F;
          st2 = hal_outb st1 0x3D5 (pos AND 0xFF);
          st3 = hal_outb st2 0x3D4 0x0E in
      hal_outb st3 0x3D5 (drop_bit 8 pos AND 0xFF))"

section \<open>Scrolling and clearing\<close>

definition scroll_cell :: "int \<Rightarrow> int \<Rightarrow> int \<Rightarrow> console \<Rightarrow> console option" where
  "scroll_cell lines y x st = do {
     c \<leftarrow> getc st x y;
     st1 \<leftarrow> putchar st x (y - lines) c;
     colour \<leftarrow> getclr st1 x y;
     putclr st1 x (y - lines) colour
   }"

definition blank_cell :: "int \<Rightarrow> int \<Rightarrow> console \<Rightarrow> console option" where
  "blank_cell y x st = do {
     st1 \<leftarrow> putchar st x y 0;
     putclr st1 x y DEFAULT_COLOUR
   }"

definition scrollback :: "console \<Rightarrow> int \<Rightarrow> console option" where
  "scrollback st lines = do {
     st1 \<leftarrow> for_loop (\<lambda>y. for_loop (scroll_cell lines y) [0..SCREEN_WIDTH - 1]) [lines..SCREEN_HEIGHT - 1] st;
     st2 \<leftarrow> for_loop (\<lambda>y. for_loop (blank_cell y) [0..SCREEN_WIDTH - 1])
       [SCREEN_HEIGHT - lines..SCREEN_HEIGHT - 1] st1;
     let st3 = st2\<lparr>g_scr_y := g_scr_y st2 - lines, out_scr_y := out_scr_y st2 - lines\<rparr>;
     let st4 = (if g_scr_y st3 < 0 then st3\<lparr>g_scr_y := 0, g_scr_x := 0\<rparr> else st3);
     Some (if out_scr_y st4 < 0 then st4\<lparr>out_scr_y := 0, out_scr_x := 0\<rparr> else st4)
   }"

definition clrscr :: "console \<Rightarrow> console option" where
  "clrscr st = do {
     st1 \<leftarrow> for_loop (\<lambda>y. for_loop (blank_cell y) [0..SCREEN_WIDTH - 1]) [0..SCREEN_HEIGHT - 1] st;
     let st2 = st1\<lparr>g_scr_x := 0, g_scr_y := 0\<rparr>;
     Some (setcrsr st2 (g_scr_x st2) (g_scr_y st2))
   }"

section \<open>Characters and keys\<close>

text \<open>The first of some columns of a line that holds a character.\<close>

fun first_char :: "console \<Rightarrow> int \<Rightarrow> int list \<Rightarrow> int option option" where
  "first_char st y [] = Some None"
| "first_char st y (i # is) = do {
     c \<leftarrow> getc st i y;
     if c \<noteq> 0 then Some (Some i) else first_char st y is
   }"

text \<open>
  The \<open>switch\<close> of \<open>putc\<close>, without the tabulator; the flag is the jump to
  \<open>putc_skip_line_check\<close>.
\<close>

definition putc_switch :: "console \<Rightarrow> int \<Rightarrow> (console \<times> bool) option" where
  "putc_switch st c =
     (if c = 10 then Some (st\<lparr>g_scr_x := 0, g_scr_y := g_scr_y st + 1\<rparr>, False)
      else if c = 13 then Some (st\<lparr>g_scr_x := 0\<rparr>, False)
      else if c = KEY_BACKSPACE then
        (if (g_scr_y st > 0 \<or> g_scr_x st > 0) \<and>
            (g_scr_y st > out_scr_y st \<or> (g_scr_y st = out_scr_y st \<and> g_scr_x st > out_scr_x st))
         then do {
           let st1 = st\<lparr>g_scr_x := g_scr_x st - 1\<rparr>;
           let st2 = (if g_scr_x st1 < 0
             then st1\<lparr>g_scr_x := SCREEN_WIDTH - 1, g_scr_y := g_scr_y st1 - 1\<rparr> else st1);
           after \<leftarrow> first_char st2 (g_scr_y st2) [g_scr_x st2 + 1..SCREEN_WIDTH - 1];
           st3 \<leftarrow> putchar st2 (g_scr_x st2) (g_scr_y st2) (if after \<noteq> None then 32 else 0);
           Some (st3, False)
         } else Some (st, False))
      else if c = KEY_UP then
        Some (if g_scr_y st > 0 then st\<lparr>g_scr_y := g_scr_y st - 1\<rparr> else st, False)
      else if c = KEY_DOWN then
        Some (if g_scr_y st < out_scr_y st then st\<lparr>g_scr_y := g_scr_y st + 1\<rparr> else st, False)
      else if c = KEY_LEFT then
        Some (if g_scr_y st > 0 \<or> g_scr_x st > 0 then st\<lparr>g_scr_x := g_scr_x st - 1\<rparr> else st, False)
      else if c = KEY_RIGHT then do {
        ch \<leftarrow> getc st (g_scr_x st) (g_scr_y st);
        Some (if ch = 0
          then (if g_scr_y st < out_scr_y st then st\<lparr>g_scr_y := g_scr_y st + 1, g_scr_x := 0\<rparr> else st)
          else st\<lparr>g_scr_x := g_scr_x st + 1\<rparr>, False)
      }
      else if g_scr_y st > out_scr_y st \<or> (g_scr_y st = out_scr_y st \<and> g_scr_x st \<ge> out_scr_x st) then do {
        st1 \<leftarrow> putchar st (g_scr_x st) (g_scr_y st) (word_of_int c);
        Some (st1\<lparr>g_scr_x := g_scr_x st1 + 1\<rparr>, True)
      }
      else Some (st, False))"

text \<open>What follows the \<open>switch\<close>. The comparisons with the screen size are unsigned.\<close>

definition putc_line_check :: "console \<Rightarrow> console option" where
  "putc_line_check st = do {
     let st1 = (if g_scr_x st < 0
       then st\<lparr>g_scr_y := max (g_scr_y st - 1) 0, g_scr_x := SCREEN_WIDTH - 1\<rparr> else st);
     ch \<leftarrow> getc st1 (g_scr_x st1) (g_scr_y st1);
     if ch = 0 then do {
       found \<leftarrow> first_char st1 (g_scr_y st1) (rev [0..g_scr_x st1 - 1]);
       Some (st1\<lparr>g_scr_x := (case found of Some i \<Rightarrow> i + 1 | None \<Rightarrow> 0)\<rparr>)
     } else Some st1
   }"

definition as_unsigned :: "int \<Rightarrow> int" where
  "as_unsigned x = uint (word_of_int x :: u32)"

definition putc_finish :: "console \<Rightarrow> bool \<Rightarrow> console option" where
  "putc_finish st skip = do {
     st1 \<leftarrow> (if skip then Some st else putc_line_check st);
     let st2 = (if as_unsigned (g_scr_x st1) \<ge> SCREEN_WIDTH
       then st1\<lparr>g_scr_x := 0, g_scr_y := g_scr_y st1 + 1\<rparr> else st1);
     st3 \<leftarrow> (if as_unsigned (g_scr_y st2) \<ge> SCREEN_HEIGHT then scrollback st2 1 else Some st2);
     Some (setcrsr st3 (g_scr_x st3) (g_scr_y st3))
   }"

text \<open>\<open>putc\<close> calls itself only for a tabulator, with spaces: that call is \<open>putc_plain\<close>.\<close>

definition putc_plain :: "console \<Rightarrow> int \<Rightarrow> console option" where
  "putc_plain st c = do {
     (st1, skip) \<leftarrow> putc_switch (st\<lparr>char_written := char_written st + 1\<rparr>) c;
     putc_finish st1 skip
   }"

definition putc :: "console \<Rightarrow> int \<Rightarrow> console option" where
  "putc st c =
     (if c = 9 then do {
        let st0 = st\<lparr>char_written := char_written st + 1\<rparr>;
        let rel_g_scr_x = g_scr_x st0 smod 4;
        st1 \<leftarrow> for_loop (\<lambda>i s. putc_plain s 32) [0..4 - rel_g_scr_x - 1] st0;
        putc_finish st1 False
      } else putc_plain st c)"

end
