(* ===== verification/ConsoleCorrect.thy ===== *)
theory ConsoleCorrect
  imports Console
begin

text \<open>
  Correctness of the console: every operation stays inside the text window and keeps both
  cursors on the screen, scrolling moves the lines up by one, and what the kernel printed is
  not changed by the keys of the user.
\<close>

section \<open>Cells on the screen\<close>

definition BUFF_SIZE :: nat where "BUFF_SIZE = 0x8000"

text \<open>Where the character of a cell is in the window.\<close>

definition cell :: "int \<Rightarrow> int \<Rightarrow> nat" where
  "cell x y = nat (2 * (80 * y + x))"

lemma cell_index_screen:
  assumes "0 \<le> x" "x \<le> 80" "0 \<le> y" "y \<le> 25"
  shows "unat (cell_index x y) = cell x y" "unat (cell_index x y + 1) = Suc (cell x y)"
proof -
  have "cell_index x y = word_of_nat (cell x y)"
    using assms by (simp add: cell_index_def cell_def SCREEN_WIDTH_def algebra_simps)
  moreover have "Suc (cell x y) < 4294967296" using assms by (simp add: cell_def)
  ultimately show "unat (cell_index x y) = cell x y" "unat (cell_index x y + 1) = Suc (cell x y)"
    by (simp_all add: unat_of_nat take_bit_eq_mod unat_word_ariths)
qed

lemma cell_less: "0 \<le> x \<Longrightarrow> x \<le> 80 \<Longrightarrow> 0 \<le> y \<Longrightarrow> y \<le> 25 \<Longrightarrow> Suc (cell x y) < BUFF_SIZE"
  by (simp add: cell_def BUFF_SIZE_def)

lemma getc_screen:
  assumes "length (g_scr_buff st) = BUFF_SIZE" "0 \<le> x" "x \<le> 80" "0 \<le> y" "y \<le> 25"
  shows "getc st x y = Some (g_scr_buff st ! cell x y)" "getclr st x y = Some (g_scr_buff st ! Suc (cell x y))"
    "putchar st x y c = Some (st\<lparr>g_scr_buff := (g_scr_buff st)[cell x y := c]\<rparr>)"
    "putclr st x y c = Some (st\<lparr>g_scr_buff := (g_scr_buff st)[Suc (cell x y) := c]\<rparr>)"
  using cell_index_screen [OF assms(2-5)] cell_less [OF assms(2-5)] assms(1)
  by (simp_all add: getc_def getclr_def putchar_def putclr_def)

lemma cell_eq_iff:
  assumes "0 \<le> x" "x < 80" "0 \<le> y" "0 \<le> x'" "x' < 80" "0 \<le> y'"
  shows "cell x y = cell x' y' \<longleftrightarrow> x = x' \<and> y = y'"
proof
  assume "cell x y = cell x' y'"
  then have *: "80 * y + x = 80 * y' + x'" using assms by (simp add: cell_def)
  have "(80 * y + x) div 80 = y" "(80 * y' + x') div 80 = y'" using assms by auto
  then have "y = y'" using * by simp
  with * show "x = x' \<and> y = y'" by simp
qed simp

section \<open>Loops over the screen\<close>

lemma upto_split:
  assumes "[a..b] = don @ x # rest"
  shows "x = a + int (length don)" "x \<le> b" "a \<le> x"
proof -
  have l: "nat (b - a + 1) = length don + Suc (length rest)"
    using arg_cong [OF assms, of length] by (simp only: length_append length_upto list.size add_0_right One_nat_def)
  then have le: "a + int (length don) \<le> b" by linarith
  have "[a..b] ! length don = x" by (simp only: assms nth_append_length)
  then show x: "x = a + int (length don)" using nth_upto [OF le] by simp
  show "x \<le> b" "a \<le> x" using le x by linarith+
qed

text \<open>The effect of a loop on the window alone, byte by byte.\<close>

definition window :: "console \<Rightarrow> (nat \<Rightarrow> u8) \<Rightarrow> console \<Rightarrow> bool" where
  "window st f st' \<longleftrightarrow> (\<exists>b. st' = st\<lparr>g_scr_buff := b\<rparr> \<and> length b = BUFF_SIZE \<and> (\<forall>i < BUFF_SIZE. b ! i = f i))"

lemma window_refl: "length (g_scr_buff st) = BUFF_SIZE \<Longrightarrow> window st (\<lambda>i. g_scr_buff st ! i) st"
  unfolding window_def by (rule exI [of _ "g_scr_buff st"]) simp

lemma window_cong: "window st f st' \<Longrightarrow> (\<And>i. i < BUFF_SIZE \<Longrightarrow> f i = g i) \<Longrightarrow> window st g st'"
  unfolding window_def by auto

lemma window_trans: "window st f st' \<Longrightarrow> window st' g st'' \<Longrightarrow> window st g st''"
  unfolding window_def by auto

lemma window_at: "window st f st' \<Longrightarrow> i < BUFF_SIZE \<Longrightarrow> g_scr_buff st' ! i = f i"
  unfolding window_def by auto

lemma window_length: "window st f st' \<Longrightarrow> length (g_scr_buff st') = BUFF_SIZE"
  unfolding window_def by auto

lemma scroll_cell_window:
  assumes w: "window st f t" and c: "0 \<le> x" "x < 80" "1 \<le> y" "y < 25"
  shows "\<exists>t'. scroll_cell 1 y x t = Some t' \<and>
    window st (\<lambda>i. if i = cell x (y - 1) then f (cell x y) else
      if i = Suc (cell x (y - 1)) then f (Suc (cell x y)) else f i) t'"
proof -
  obtain b where t: "t = st\<lparr>g_scr_buff := b\<rparr>" "length b = BUFF_SIZE" "\<forall>i < BUFF_SIZE. b ! i = f i"
    using w by (auto simp: window_def)
  have l: "Suc (cell x y) < BUFF_SIZE" "Suc (cell x (y - 1)) < BUFF_SIZE"
    using c by (auto intro: cell_less)
  have ne: "cell x (y - 1) \<noteq> Suc (cell x y)" using c by (simp add: cell_def)
  let ?b = "b[cell x (y - 1) := b ! cell x y]"
  let ?b' = "?b[Suc (cell x (y - 1)) := ?b ! Suc (cell x y)]"
  have "scroll_cell 1 y x t = Some (t\<lparr>g_scr_buff := ?b'\<rparr>)"
    using c t(1,2) by (simp add: scroll_cell_def getc_screen)
  moreover have "window st (\<lambda>i. if i = cell x (y - 1) then f (cell x y) else
      if i = Suc (cell x (y - 1)) then f (Suc (cell x y)) else f i) (t\<lparr>g_scr_buff := ?b'\<rparr>)"
    unfolding window_def
    by (rule exI [of _ ?b']) (use t l ne in \<open>auto simp: nth_list_update\<close>)
  ultimately show ?thesis by blast
qed

text \<open>The first \<open>w\<close> columns of a line.\<close>

lemma scroll_columns_window:
  assumes w: "window st f t" and y: "1 \<le> y" "y < 25" and n: "n \<le> 80"
  shows "\<exists>t'. for_loop (scroll_cell 1 y) [0..int n - 1] t = Some t' \<and>
    window st (\<lambda>i. if cell 0 (y - 1) \<le> i \<and> i < cell 0 (y - 1) + 2 * n then f (i + 160) else f i) t'"
proof -
  let ?g = "\<lambda>n i. if cell 0 (y - 1) \<le> i \<and> i < cell 0 (y - 1) + 2 * n then f (i + 160) else f i"
  have "\<exists>t'. for_loop (scroll_cell 1 y) [0..int n - 1] t = Some t' \<and> window st (?g (length [0..int n - 1])) t'"
  proof (rule for_loop_inv)
    show "window st (?g (length ([] :: int list))) t" by (rule window_cong [OF w]) auto
    fix "done" x rest t assume s: "[0..int n - 1] = done @ x # rest" and w: "window st (?g (length done)) t"
    have x: "x = int (length done)" "x \<le> int n - 1" "0 \<le> x" using upto_split [OF s] by auto
    then have "x < 80" using n by simp
    from scroll_cell_window [OF w x(3) this y] obtain t' where t': "scroll_cell 1 y x t = Some t'"
      "window st (\<lambda>i. if i = cell x (y - 1) then ?g (length done) (cell x y) else
        if i = Suc (cell x (y - 1)) then ?g (length done) (Suc (cell x y)) else ?g (length done) i) t'" by blast
    have c: "cell x (y - 1) = cell 0 (y - 1) + 2 * length done" "cell x y = cell 0 (y - 1) + 2 * length done + 160"
      using x \<open>x < 80\<close> y by (simp_all add: cell_def)
    have "length done < 80" using x(1) \<open>x < 80\<close> by simp
    then have "window st (?g (length (done @ [x]))) t'"
      by (intro window_cong [OF t'(2)]) (use c in auto)
    then show "\<exists>t'. scroll_cell 1 y x t = Some t' \<and> window st (?g (length (done @ [x]))) t'" using t'(1) by blast
  qed
  then show ?thesis by simp
qed

lemma blank_cell_window:
  assumes w: "window st f t" and c: "0 \<le> x" "x < 80" "0 \<le> y" "y < 25"
  shows "\<exists>t'. blank_cell y x t = Some t' \<and>
    window st (\<lambda>i. if i = cell x y then 0 else if i = Suc (cell x y) then DEFAULT_COLOUR else f i) t'"
proof -
  obtain b where t: "t = st\<lparr>g_scr_buff := b\<rparr>" "length b = BUFF_SIZE" "\<forall>i < BUFF_SIZE. b ! i = f i"
    using w by (auto simp: window_def)
  let ?b = "b[cell x y := 0, Suc (cell x y) := DEFAULT_COLOUR]"
  have "Suc (cell x y) < BUFF_SIZE" using c by (auto intro: cell_less)
  moreover have "blank_cell y x t = Some (t\<lparr>g_scr_buff := ?b\<rparr>)"
    using c t(1,2) by (simp add: blank_cell_def getc_screen)
  moreover have "window st (\<lambda>i. if i = cell x y then 0 else if i = Suc (cell x y) then DEFAULT_COLOUR else f i)
      (t\<lparr>g_scr_buff := ?b\<rparr>)"
    unfolding window_def by (rule exI [of _ ?b]) (use t calculation(1) in \<open>auto simp: nth_list_update\<close>)
  ultimately show ?thesis by blast
qed

text \<open>A blank byte: no character, the default colour.\<close>

definition blank :: "nat \<Rightarrow> u8" where
  "blank i = (if even i then 0 else DEFAULT_COLOUR)"

lemma blank_columns_window:
  assumes w: "window st f t" and y: "0 \<le> y" "y < 25" and n: "n \<le> 80"
  shows "\<exists>t'. for_loop (blank_cell y) [0..int n - 1] t = Some t' \<and>
    window st (\<lambda>i. if cell 0 y \<le> i \<and> i < cell 0 y + 2 * n then blank i else f i) t'"
proof -
  let ?g = "\<lambda>n i. if cell 0 y \<le> i \<and> i < cell 0 y + 2 * n then blank i else f i"
  have "\<exists>t'. for_loop (blank_cell y) [0..int n - 1] t = Some t' \<and> window st (?g (length [0..int n - 1])) t'"
  proof (rule for_loop_inv)
    show "window st (?g (length ([] :: int list))) t" by (rule window_cong [OF w]) auto
    fix "done" x rest t assume s: "[0..int n - 1] = done @ x # rest" and w: "window st (?g (length done)) t"
    have x: "x = int (length done)" "x \<le> int n - 1" "0 \<le> x" using upto_split [OF s] by auto
    then have "x < 80" using n by simp
    from blank_cell_window [OF w x(3) this y] obtain t' where t': "blank_cell y x t = Some t'"
      "window st (\<lambda>i. if i = cell x y then 0 else if i = Suc (cell x y) then DEFAULT_COLOUR
        else ?g (length done) i) t'" by blast
    have c: "cell x y = cell 0 y + 2 * length done" "even (cell 0 y)"
      using x \<open>x < 80\<close> y by (simp_all add: cell_def even_nat_iff)
    have "window st (?g (length (done @ [x]))) t'"
      by (rule window_cong [OF t'(2)]) (use c in \<open>auto simp: blank_def\<close>)
    then show "\<exists>t'. blank_cell y x t = Some t' \<and> window st (?g (length (done @ [x]))) t'" using t'(1) by blast
  qed
  then show ?thesis by simp
qed

section \<open>Scrolling\<close>

text \<open>The window after the lines moved up by one and the last one was cleared.\<close>

definition scrolled :: "u8 list \<Rightarrow> nat \<Rightarrow> u8" where
  "scrolled b i = (if i < cell 0 24 then b ! (i + 160) else if i < cell 0 25 then blank i else b ! i)"

text \<open>The cursors after one line of scrolling: up by one, or home from the first line.\<close>

definition cursor_up :: "int \<times> int \<Rightarrow> int \<times> int" where
  "cursor_up = (\<lambda>(x, y). if y - 1 < 0 then (0, 0) else (x, y - 1))"

definition scroll_cursors :: "console \<Rightarrow> u8 list \<Rightarrow> console" where
  "scroll_cursors st b = (case (cursor_up (g_scr_x st, g_scr_y st), cursor_up (out_scr_x st, out_scr_y st)) of
     ((x, y), (ox, oy)) \<Rightarrow> st\<lparr>g_scr_buff := b, g_scr_x := x, g_scr_y := y, out_scr_x := ox, out_scr_y := oy\<rparr>)"

text \<open>The loops of \<open>scrollback\<close> over the first \<open>n\<close> columns of all lines.\<close>

lemma mod_line: "160 * k \<le> i \<Longrightarrow> i < 160 * k + 160 \<Longrightarrow> i mod 160 = i - 160 * k" for i k :: nat
proof -
  assume "160 * k \<le> i" "i < 160 * k + 160"
  then obtain r where r: "i = r + 160 * k" "r < 160" by (metis add.commute le_Suc_ex nat_add_left_cancel_less)
  then show ?thesis by simp
qed

lemma scroll_screen_window:
  assumes len: "length (g_scr_buff st) = BUFF_SIZE" and n: "n \<le> 80"
  shows "\<exists>t t'. for_loop (\<lambda>y. for_loop (scroll_cell 1 y) [0..int n - 1]) [1..24] st = Some t \<and>
    for_loop (blank_cell 24) [0..int n - 1] t = Some t' \<and>
    window st (\<lambda>i. if i mod 160 < 2 * n \<and> i < cell 0 25
      then (if i < cell 0 24 then g_scr_buff st ! (i + 160) else blank i) else g_scr_buff st ! i) t'"
proof -
  let ?B = "g_scr_buff st"
  let ?g = "\<lambda>k i. if i mod 160 < 2 * n \<and> i < 160 * k then ?B ! (i + 160) else ?B ! i"
  have "\<exists>t. for_loop (\<lambda>y. for_loop (scroll_cell 1 y) [0..int n - 1]) [1..24] st = Some t \<and>
      window st (?g (length [1..24 :: int])) t"
  proof (rule for_loop_inv)
    show "window st (?g (length ([] :: int list))) st" by (rule window_cong [OF window_refl [OF len]]) auto
    fix "done" y rest t assume s: "[1..24 :: int] = done @ y # rest" and w: "window st (?g (length done)) t"
    have y: "y = 1 + int (length done)" "y \<le> 24" "1 \<le> y" using upto_split [OF s] by auto
    then have "y < 25" by simp
    from scroll_columns_window [OF w y(3) this n] obtain t' where t': "for_loop (scroll_cell 1 y) [0..int n - 1] t = Some t'"
      "window st (\<lambda>i. if cell 0 (y - 1) \<le> i \<and> i < cell 0 (y - 1) + 2 * n then ?g (length done) (i + 160) else ?g (length done) i) t'"
      by blast
    have c: "cell 0 (y - 1) = 160 * length done" using y(1) by (simp add: cell_def)
    have "window st (?g (length (done @ [y]))) t'"
      by (rule window_cong [OF t'(2)]) (use c mod_line [of "length done"] n in auto)
    then show "\<exists>t'. for_loop (scroll_cell 1 y) [0..int n - 1] t = Some t' \<and> window st (?g (length (done @ [y]))) t'"
      using t'(1) by blast
  qed
  then obtain t where t: "for_loop (\<lambda>y. for_loop (scroll_cell 1 y) [0..int n - 1]) [1..24] st = Some t" "window st (?g 24) t" by auto
  obtain t2 where t2: "for_loop (blank_cell 24) [0..int n - 1] t = Some t2"
    "window st (\<lambda>i. if cell 0 24 \<le> i \<and> i < cell 0 24 + 2 * n then blank i else ?g 24 i) t2"
    using blank_columns_window [OF t(2) _ _ n, of 24] by auto
  have c: "cell 0 24 = 3840" "cell 0 25 = 4000" by (simp_all add: cell_def)
  have "window st (\<lambda>i. if i mod 160 < 2 * n \<and> i < cell 0 25
      then (if i < cell 0 24 then ?B ! (i + 160) else blank i) else ?B ! i) t2"
    by (rule window_cong [OF t2(2)]) (use mod_line [of 24] n c in auto)
  then show ?thesis using t(1) t2(1) by blast
qed

lemma scrollback_one:
  assumes len: "length (g_scr_buff st) = BUFF_SIZE"
  shows "\<exists>b. scrollback st 1 = Some (scroll_cursors st b) \<and> length b = BUFF_SIZE \<and>
    (\<forall>i < BUFF_SIZE. b ! i = scrolled (g_scr_buff st) i)"
proof -
  let ?B = "g_scr_buff st"
  obtain t t2 where t: "for_loop (\<lambda>y. for_loop (scroll_cell 1 y) [0..SCREEN_WIDTH - 1]) [1..24] st = Some t"
    "for_loop (blank_cell 24) [0..SCREEN_WIDTH - 1] t = Some t2"
    "window st (\<lambda>i. if i mod 160 < 160 \<and> i < cell 0 25
      then (if i < cell 0 24 then ?B ! (i + 160) else blank i) else ?B ! i) t2"
    using scroll_screen_window [OF len, of 80] by (auto simp: SCREEN_WIDTH_def)
  have "window st (scrolled ?B) t2"
    by (rule window_cong [OF t(3)]) (auto simp: scrolled_def cell_def)
  then obtain b where b: "t2 = st\<lparr>g_scr_buff := b\<rparr>" "length b = BUFF_SIZE" "\<forall>i < BUFF_SIZE. b ! i = scrolled ?B i"
    by (auto simp: window_def)
  have "[24..24 :: int] = [24]" by simp
  then have "scrollback st 1 = Some (scroll_cursors st b)"
    using t(1,2) by (simp add: scrollback_def SCREEN_HEIGHT_def b(1) Let_def scroll_cursors_def cursor_up_def)
  then show ?thesis using b by blast
qed

section \<open>The invariant\<close>

definition screen_ok :: "console \<Rightarrow> bool" where
  "screen_ok st \<longleftrightarrow> length (g_scr_buff st) = BUFF_SIZE \<and>
     0 \<le> g_scr_x st \<and> g_scr_x st < 80 \<and> 0 \<le> g_scr_y st \<and> g_scr_y st < 25 \<and>
     0 \<le> out_scr_x st \<and> out_scr_x st < 80 \<and> 0 \<le> out_scr_y st \<and> out_scr_y st < 25"

text \<open>Between the \<open>switch\<close> of \<open>putc\<close> and the checks after it the cursor may be off by one.\<close>

definition cursor_loose :: "console \<Rightarrow> bool" where
  "cursor_loose st \<longleftrightarrow> length (g_scr_buff st) = BUFF_SIZE \<and>
     -1 \<le> g_scr_x st \<and> g_scr_x st \<le> 80 \<and> 0 \<le> g_scr_y st \<and> g_scr_y st \<le> 25 \<and>
     (g_scr_y st = 25 \<longrightarrow> g_scr_x st < 80) \<and>
     0 \<le> out_scr_x st \<and> out_scr_x st < 80 \<and> 0 \<le> out_scr_y st \<and> out_scr_y st < 25"

lemma first_char_screen:
  assumes "length (g_scr_buff st) = BUFF_SIZE" "0 \<le> y" "y \<le> 25" "\<And>i. i \<in> set is \<Longrightarrow> 0 \<le> i \<and> i \<le> 80"
  shows "\<exists>r. first_char st y is = Some r \<and>
    (case r of None \<Rightarrow> \<forall>i \<in> set is. g_scr_buff st ! cell i y = 0
     | Some i \<Rightarrow> i \<in> set is \<and> g_scr_buff st ! cell i y \<noteq> 0)"
  using assms(4)
proof (induction "is")
  case (Cons i is')
  then show ?case using getc_screen(1) [OF assms(1) _ _ assms(2,3), of i] by (auto split: option.splits)
qed simp

text \<open>What \<open>putc\<close> may change: the window, the cursor and the counter of characters.\<close>

definition out_kept :: "console \<Rightarrow> console \<Rightarrow> bool" where
  "out_kept st st' \<longleftrightarrow> out_scr_x st' = out_scr_x st \<and> out_scr_y st' = out_scr_y st \<and>
     g_enable_echo st' = g_enable_echo st"

text \<open>A backspace behind the printed text: where it goes, and the one cell it writes.\<close>

definition back_x :: "console \<Rightarrow> int" where
  "back_x st = (if g_scr_x st = 0 then 79 else g_scr_x st - 1)"

definition back_y :: "console \<Rightarrow> int" where
  "back_y st = (if g_scr_x st = 0 then g_scr_y st - 1 else g_scr_y st)"

definition behind_out :: "console \<Rightarrow> bool" where
  "behind_out st \<longleftrightarrow> g_scr_y st > out_scr_y st \<or> (g_scr_y st = out_scr_y st \<and> g_scr_x st > out_scr_x st)"

lemma back_range:
  assumes "screen_ok st" "behind_out st"
  shows "0 \<le> back_x st" "back_x st < 80" "0 \<le> back_y st" "back_y st < 25"
  using assms by (auto simp: screen_ok_def behind_out_def back_x_def back_y_def)

lemma backspace_at:
  assumes "length (g_scr_buff st) = BUFF_SIZE" "0 \<le> x" "x < 80" "0 \<le> y" "y < 25" "g_scr_x st = x" "g_scr_y st = y"
  shows "\<exists>v. do {
      after \<leftarrow> first_char st (g_scr_y st) [g_scr_x st + 1..SCREEN_WIDTH - 1];
      st3 \<leftarrow> putchar st (g_scr_x st) (g_scr_y st) (if after \<noteq> None then 32 else 0);
      Some (st3, False)
    } = Some (st\<lparr>g_scr_buff := (g_scr_buff st)[cell x y := v]\<rparr>, False)"
proof -
  obtain q where q: "first_char st y [x + 1..79] = Some q"
    using first_char_screen [of st y "[x + 1..79]"] assms by auto
  show ?thesis
    by (rule exI [of _ "if q \<noteq> None then 32 else 0"])
      (use q getc_screen(3) [of st x y] assms in \<open>simp add: SCREEN_WIDTH_def\<close>)
qed

lemma backspace_step:
  assumes ok: "screen_ok st" and b: "behind_out st"
  shows "\<exists>v. putc_switch st KEY_BACKSPACE = Some (st\<lparr>g_scr_x := back_x st, g_scr_y := back_y st,
    g_scr_buff := (g_scr_buff st)[cell (back_x st) (back_y st) := v]\<rparr>, False)"
proof -
  note o = ok [unfolded screen_ok_def]
  have cond: "(g_scr_y st > 0 \<or> g_scr_x st > 0) \<and>
      (g_scr_y st > out_scr_y st \<or> (g_scr_y st = out_scr_y st \<and> g_scr_x st > out_scr_x st))"
    using o b by (auto simp: behind_out_def)
  let ?s = "st\<lparr>g_scr_x := back_x st, g_scr_y := back_y st\<rparr>"
  from backspace_at [of ?s "back_x st" "back_y st"] back_range [OF ok b] o
  obtain v where v: "do {
      after \<leftarrow> first_char ?s (g_scr_y ?s) [g_scr_x ?s + 1..SCREEN_WIDTH - 1];
      st3 \<leftarrow> putchar ?s (g_scr_x ?s) (g_scr_y ?s) (if after \<noteq> None then 32 else 0);
      Some (st3, False)
    } = Some (?s\<lparr>g_scr_buff := (g_scr_buff ?s)[cell (back_x st) (back_y st) := v]\<rparr>, False)" by auto
  have "(if g_scr_x (st\<lparr>g_scr_x := g_scr_x st - 1\<rparr>) < 0
      then st\<lparr>g_scr_x := g_scr_x st - 1, g_scr_x := SCREEN_WIDTH - 1, g_scr_y := g_scr_y (st\<lparr>g_scr_x := g_scr_x st - 1\<rparr>) - 1\<rparr>
      else st\<lparr>g_scr_x := g_scr_x st - 1\<rparr>) = ?s"
    using o by (simp add: back_x_def back_y_def SCREEN_WIDTH_def)
  then have "putc_switch st KEY_BACKSPACE = do {
      after \<leftarrow> first_char ?s (g_scr_y ?s) [g_scr_x ?s + 1..SCREEN_WIDTH - 1];
      st3 \<leftarrow> putchar ?s (g_scr_x ?s) (g_scr_y ?s) (if after \<noteq> None then 32 else 0);
      Some (st3, False)
    }"
    using cond unfolding putc_switch_def Let_def by (simp only: if_True key_consts) simp
  then show ?thesis using v by auto
qed

lemma backspace_nothing: "\<not> behind_out st \<Longrightarrow> putc_switch st KEY_BACKSPACE = Some (st, False)"
  by (auto simp: putc_switch_def key_consts behind_out_def)

lemma putc_switch_ok:
  assumes ok: "screen_ok st"
  shows "\<exists>st' skip. putc_switch st c = Some (st', skip) \<and> cursor_loose st' \<and> out_kept st st' \<and>
    char_written st' = char_written st \<and> (skip \<longrightarrow> 0 < g_scr_x st' \<and> g_scr_y st' < 25)"
proof (cases "c = KEY_BACKSPACE")
  case True
  show ?thesis
  proof (cases "behind_out st")
    case b: True
    show ?thesis using True backspace_step [OF ok b] back_range [OF ok b] ok
      by (auto simp: screen_ok_def cursor_loose_def out_kept_def)
  qed (use True backspace_nothing ok in \<open>auto simp: screen_ok_def cursor_loose_def out_kept_def\<close>)
next
  case False
  then show ?thesis using ok getc_screen [of st "g_scr_x st" "g_scr_y st"]
    by (auto simp: putc_switch_def key_consts screen_ok_def cursor_loose_def out_kept_def)
qed

section \<open>Printed text is kept\<close>

text \<open>The cells before the output cursor, in reading order.\<close>

definition printed :: "console \<Rightarrow> int \<Rightarrow> int \<Rightarrow> bool" where
  "printed st x y \<longleftrightarrow> 0 \<le> x \<and> x < 80 \<and> 0 \<le> y \<and>
     (y < out_scr_y st \<or> (y = out_scr_y st \<and> x < out_scr_x st))"

text \<open>
  Some lines of scrolling apart, the printed cells hold what they held, and the output cursor
  moved with them.
\<close>

definition keeps_printed :: "nat \<Rightarrow> console \<Rightarrow> console \<Rightarrow> bool" where
  "keeps_printed n st st' \<longleftrightarrow>
     (out_scr_x st', out_scr_y st') = (cursor_up ^^ n) (out_scr_x st, out_scr_y st) \<and>
     (\<forall>x y. printed st x y \<and> int n \<le> y \<longrightarrow>
        g_scr_buff st' ! cell x (y - int n) = g_scr_buff st ! cell x y \<and>
        g_scr_buff st' ! Suc (cell x (y - int n)) = g_scr_buff st ! Suc (cell x y))"

lemma cursor_up_funpow: "int n \<le> y \<Longrightarrow> (cursor_up ^^ n) (x, y) = (x, y - int n)"
  by (induction n) (auto simp: cursor_up_def)

lemma keeps_printed_refl [simp]: "keeps_printed 0 st st"
  by (simp add: keeps_printed_def)

lemma keeps_printed_trans:
  assumes "keeps_printed n st st'" "keeps_printed k st' st''"
  shows "keeps_printed (k + n) st st''"
proof -
  have out: "(out_scr_x st', out_scr_y st') = (cursor_up ^^ n) (out_scr_x st, out_scr_y st)"
    "(out_scr_x st'', out_scr_y st'') = (cursor_up ^^ k) (out_scr_x st', out_scr_y st')"
    using assms by (auto simp: keeps_printed_def)
  have cells: "g_scr_buff st'' ! cell x (y - int (k + n)) = g_scr_buff st ! cell x y \<and>
      g_scr_buff st'' ! Suc (cell x (y - int (k + n))) = g_scr_buff st ! Suc (cell x y)"
    if p: "printed st x y" "int (k + n) \<le> y" for x y
  proof -
    have "int n \<le> out_scr_y st" using p by (auto simp: printed_def)
    then have "out_scr_x st' = out_scr_x st" "out_scr_y st' = out_scr_y st - int n"
      using out(1) cursor_up_funpow [of n "out_scr_y st" "out_scr_x st"] by auto
    then have "printed st' x (y - int n)" using p by (auto simp: printed_def)
    moreover have "y - int n - int k = y - int (k + n)" "int k \<le> y - int n" using p(2) by auto
    ultimately show ?thesis using assms p unfolding keeps_printed_def by (metis of_nat_add add_increasing of_nat_0_le_iff le_add_same_cancel2 order_trans)
  qed
  have "(out_scr_x st'', out_scr_y st'') = (cursor_up ^^ (k + n)) (out_scr_x st, out_scr_y st)"
    by (simp only: out(2) out(1) funpow_add o_apply)
  then show ?thesis unfolding keeps_printed_def using cells by blast
qed

text \<open>Writing the character of a cell that is not printed.\<close>

lemma keeps_printed_write:
  assumes "screen_ok st" "0 \<le> x" "x < 80" "0 \<le> y" "\<not> printed st x y"
    and "st' = st\<lparr>g_scr_x := a, g_scr_y := b, g_scr_buff := (g_scr_buff st)[cell x y := v]\<rparr>"
  shows "keeps_printed 0 st st'"
proof -
  have 1: "cell x y \<noteq> cell x' y'" if "printed st x' y'" for x' y'
    using that assms(2-5) cell_eq_iff [of x' y' x y] by (auto simp: printed_def)
  have 2: "cell x y \<noteq> Suc (cell x' y')" if "printed st x' y'" for x' y'
  proof -
    have "even (cell x y)" "even (cell x' y')" using that assms(2,4) by (auto simp: cell_def printed_def even_nat_iff)
    then show ?thesis by (metis even_Suc)
  qed
  show ?thesis unfolding assms(6) keeps_printed_def using 1 2 by simp
qed

lemma keeps_printed_cursor: "keeps_printed 0 st (st\<lparr>g_scr_x := a, g_scr_y := b\<rparr>)"
  "keeps_printed 0 st (st\<lparr>g_scr_y := b, g_scr_x := a\<rparr>)"
  "keeps_printed 0 st (st\<lparr>g_scr_x := a\<rparr>)" "keeps_printed 0 st (st\<lparr>g_scr_y := b\<rparr>)"
  by (simp_all add: keeps_printed_def)

lemma putc_switch_keeps:
  assumes ok: "screen_ok st" and run: "putc_switch st c = Some (st', skip)"
  shows "keeps_printed 0 st st'"
proof (cases "c = KEY_BACKSPACE")
  case True
  show ?thesis
  proof (cases "behind_out st")
    case b: True
    obtain v where "st' = st\<lparr>g_scr_x := back_x st, g_scr_y := back_y st,
        g_scr_buff := (g_scr_buff st)[cell (back_x st) (back_y st) := v]\<rparr>"
      using backspace_step [OF ok b] run True by auto
    moreover have "\<not> printed st (back_x st) (back_y st)"
      using ok b by (auto simp: printed_def screen_ok_def behind_out_def back_x_def back_y_def)
    ultimately show ?thesis using keeps_printed_write [OF ok] back_range [OF ok b] by blast
  qed (use run True backspace_nothing in simp)
next
  case False
  have o: "length (g_scr_buff st) = BUFF_SIZE" "0 \<le> g_scr_x st" "g_scr_x st < 80" "0 \<le> g_scr_y st" "g_scr_y st < 25"
    using ok by (auto simp: screen_ok_def)
  then have g: "putchar st (g_scr_x st) (g_scr_y st) v =
      Some (st\<lparr>g_scr_buff := (g_scr_buff st)[cell (g_scr_x st) (g_scr_y st) := v]\<rparr>)"
    "getc st (g_scr_x st) (g_scr_y st) = Some (g_scr_buff st ! cell (g_scr_x st) (g_scr_y st))" for v
    using getc_screen by auto
  have w: "keeps_printed 0 st (st\<lparr>g_scr_buff := (g_scr_buff st)[cell (g_scr_x st) (g_scr_y st) := v],
      g_scr_x := g_scr_x st + 1\<rparr>)" if "g_scr_y st > out_scr_y st \<or> (g_scr_y st = out_scr_y st \<and> g_scr_x st \<ge> out_scr_x st)" for v
    by (rule keeps_printed_write [OF ok o(2-4), where a = "g_scr_x st + 1" and b = "g_scr_y st" and v = v])
      (use that in \<open>auto simp: printed_def\<close>)
  show ?thesis
    using run False g w keeps_printed_cursor [of st]
    by (auto simp: putc_switch_def split: if_splits)
qed

section \<open>The whole of putc\<close>

lemma as_unsigned_nonneg: "0 \<le> x \<Longrightarrow> x < 4294967296 \<Longrightarrow> as_unsigned x = x"
  by (simp add: as_unsigned_def uint_word_of_int)

lemma cursor_only_refl: "\<exists>a b. st = st\<lparr>g_scr_x := a, g_scr_y := b\<rparr>"
  by (rule exI [of _ "g_scr_x st"], rule exI [of _ "g_scr_y st"]) simp

text \<open>The checks before the wrap to the next line.\<close>

lemma putc_line_check_ok:
  assumes l: "cursor_loose st"
  shows "\<exists>st'. putc_line_check st = Some st' \<and> cursor_loose st' \<and> 0 \<le> g_scr_x st' \<and>
    (\<exists>a b. st' = st\<lparr>g_scr_x := a, g_scr_y := b\<rparr>)"
proof -
  define st1 where "st1 = (if g_scr_x st < 0
     then st\<lparr>g_scr_y := max (g_scr_y st - 1) 0, g_scr_x := SCREEN_WIDTH - 1\<rparr> else st)"
  have s1: "cursor_loose st1" "0 \<le> g_scr_x st1"
    using l unfolding st1_def cursor_loose_def by (auto simp: SCREEN_WIDTH_def)
  have s1': "\<exists>a b. st1 = st\<lparr>g_scr_x := a, g_scr_y := b\<rparr>"
  proof (cases "g_scr_x st < 0")
    case True
    show ?thesis
      by (rule exI [of _ 79], rule exI [of _ "max (g_scr_y st - 1) 0"]) (simp add: st1_def True SCREEN_WIDTH_def)
  qed (simp add: st1_def cursor_only_refl)
  have r: "length (g_scr_buff st1) = BUFF_SIZE" "0 \<le> g_scr_y st1" "g_scr_y st1 \<le> 25" "g_scr_x st1 \<le> 80"
    using s1 by (auto simp: cursor_loose_def)
  obtain q where q: "first_char st1 (g_scr_y st1) (rev [0..g_scr_x st1 - 1]) = Some q"
    "case q of None \<Rightarrow> True | Some i \<Rightarrow> i \<in> set [0..g_scr_x st1 - 1]"
    using first_char_screen [OF r(1-3), of "rev [0..g_scr_x st1 - 1]"] r(4) by (fastforce split: option.splits)
  let ?x = "case q of Some i \<Rightarrow> i + 1 | None \<Rightarrow> 0"
  have x: "0 \<le> ?x" "?x \<le> g_scr_x st1" using q(2) s1(2) by (auto split: option.splits)
  have run: "putc_line_check st = Some (if g_scr_buff st1 ! cell (g_scr_x st1) (g_scr_y st1) = 0
      then st1\<lparr>g_scr_x := ?x\<rparr> else st1)"
    using q(1) getc_screen(1) [OF r(1) s1(2) r(4) r(2,3)]
    by (simp add: putc_line_check_def st1_def [symmetric] Let_def)
  have "cursor_loose (st1\<lparr>g_scr_x := ?x\<rparr>)" using s1 x by (auto simp: cursor_loose_def)
  moreover have "\<exists>a b. st1\<lparr>g_scr_x := ?x\<rparr> = st\<lparr>g_scr_x := a, g_scr_y := b\<rparr>"
  proof -
    obtain a b where "st1 = st\<lparr>g_scr_x := a, g_scr_y := b\<rparr>" using s1' by blast
    then have "st1\<lparr>g_scr_x := ?x\<rparr> = st\<lparr>g_scr_x := ?x, g_scr_y := b\<rparr>" by simp
    then show ?thesis by blast
  qed
  ultimately show ?thesis using run s1 s1' x(1) by auto
qed

lemma setcrsr_fields [simp]:
  "g_scr_buff (setcrsr st x y) = g_scr_buff st" "g_scr_x (setcrsr st x y) = g_scr_x st"
  "g_scr_y (setcrsr st x y) = g_scr_y st" "out_scr_x (setcrsr st x y) = out_scr_x st"
  "out_scr_y (setcrsr st x y) = out_scr_y st" "char_written (setcrsr st x y) = char_written st"
  "g_enable_echo (setcrsr st x y) = g_enable_echo st"
  by (simp_all add: setcrsr_def hal_outb_def Let_def)

lemma scrollback_keeps:
  assumes len: "length (g_scr_buff st) = BUFF_SIZE" and r: "0 \<le> g_scr_x st" "g_scr_x st < 80"
    "0 \<le> g_scr_y st" "g_scr_y st \<le> 25" "0 \<le> out_scr_x st" "out_scr_x st < 80" "0 \<le> out_scr_y st" "out_scr_y st < 25"
  shows "\<exists>st'. scrollback st 1 = Some st' \<and> screen_ok st' \<and> keeps_printed 1 st st' \<and>
    char_written st' = char_written st \<and> g_enable_echo st' = g_enable_echo st"
proof -
  obtain b where b: "scrollback st 1 = Some (scroll_cursors st b)" "length b = BUFF_SIZE"
    "\<forall>i < BUFF_SIZE. b ! i = scrolled (g_scr_buff st) i"
    using scrollback_one [OF len] by blast
  have "b ! cell x (y - 1) = g_scr_buff st ! cell x y \<and> b ! Suc (cell x (y - 1)) = g_scr_buff st ! Suc (cell x y)"
    if p: "printed st x y" "1 \<le> y" for x y
  proof -
    have "0 \<le> x" "x < 80" "y < 25" using p r by (auto simp: printed_def)
    then have c: "cell x (y - 1) + 160 = cell x y" "Suc (cell x (y - 1)) < cell 0 24" "Suc (cell x (y - 1)) < BUFF_SIZE"
      using p(2) by (auto simp: cell_def BUFF_SIZE_def)
    then show ?thesis using b(3) by (simp add: scrolled_def add.commute)
  qed
  then have "keeps_printed 1 st (scroll_cursors st b)"
    by (auto simp: keeps_printed_def scroll_cursors_def cursor_up_def)
  moreover have "screen_ok (scroll_cursors st b)"
    using r b(2) by (auto simp: screen_ok_def scroll_cursors_def cursor_up_def)
  ultimately show ?thesis using b(1) by (auto simp: scroll_cursors_def cursor_up_def)
qed

lemma putc_finish_ok:
  assumes l: "cursor_loose st" and skip: "skip \<Longrightarrow> 0 \<le> g_scr_x st \<and> g_scr_y st < 25"
  shows "\<exists>st' n. putc_finish st skip = Some st' \<and> screen_ok st' \<and> keeps_printed n st st' \<and> n \<le> 1 \<and>
    char_written st' = char_written st \<and> g_enable_echo st' = g_enable_echo st"
proof -
  obtain st1 where st1: "(if skip then Some st else putc_line_check st) = Some st1" "cursor_loose st1"
    "0 \<le> g_scr_x st1" "\<exists>a b. st1 = st\<lparr>g_scr_x := a, g_scr_y := b\<rparr>"
  proof (cases skip)
    case True
    then show ?thesis using that [of st] l skip cursor_only_refl by auto
  next
    case False
    then show ?thesis using that putc_line_check_ok [OF l] by auto
  qed
  then have k1: "keeps_printed 0 st st1" "char_written st1 = char_written st" "g_enable_echo st1 = g_enable_echo st"
    using keeps_printed_cursor(1) by auto
  define st2 where "st2 = (if as_unsigned (g_scr_x st1) \<ge> SCREEN_WIDTH
     then st1\<lparr>g_scr_x := 0, g_scr_y := g_scr_y st1 + 1\<rparr> else st1)"
  have u: "as_unsigned (g_scr_x st1) = g_scr_x st1"
    using st1(2,3) by (intro as_unsigned_nonneg) (auto simp: cursor_loose_def)
  have r2: "length (g_scr_buff st2) = BUFF_SIZE" "0 \<le> g_scr_x st2" "g_scr_x st2 < 80" "0 \<le> g_scr_y st2"
    "g_scr_y st2 \<le> 25" "0 \<le> out_scr_x st2" "out_scr_x st2 < 80" "0 \<le> out_scr_y st2" "out_scr_y st2 < 25"
    using st1(2,3) u by (auto simp: st2_def cursor_loose_def SCREEN_WIDTH_def)
  have k2: "keeps_printed 0 st st2" "char_written st2 = char_written st" "g_enable_echo st2 = g_enable_echo st"
    using k1 keeps_printed_trans [OF k1(1), of 0] keeps_printed_cursor(1) [of st1] by (auto simp: st2_def)
  have u2: "as_unsigned (g_scr_y st2) = g_scr_y st2"
    using r2 by (intro as_unsigned_nonneg) auto
  obtain st3 n where st3: "(if as_unsigned (g_scr_y st2) \<ge> SCREEN_HEIGHT then scrollback st2 1 else Some st2) = Some st3"
    "screen_ok st3" "keeps_printed n st2 st3" "n \<le> 1" "char_written st3 = char_written st2" "g_enable_echo st3 = g_enable_echo st2"
  proof (cases "g_scr_y st2 \<ge> 25")
    case True
    then show ?thesis using that scrollback_keeps [OF r2] u2 by (auto simp: SCREEN_HEIGHT_def)
  next
    case False
    then show ?thesis using that [of st2 0] r2 u2 by (auto simp: SCREEN_HEIGHT_def screen_ok_def)
  qed
  let ?r = "setcrsr st3 (g_scr_x st3) (g_scr_y st3)"
  have "putc_finish st skip = Some ?r"
    unfolding putc_finish_def st1(1) Option.bind.bind_lunit Let_def st2_def [symmetric] st3(1) by (rule refl)
  moreover have "screen_ok ?r" using st3(2) by (simp add: screen_ok_def)
  moreover have "keeps_printed n st ?r"
    using keeps_printed_trans [OF k2(1) st3(3)] by (simp add: keeps_printed_def)
  ultimately show ?thesis using st3 k2 by (intro exI [of _ ?r] exI [of _ n]) simp
qed

text \<open>The steps of the console keep it well-formed and what was printed.\<close>

definition console_ok :: "console \<Rightarrow> console \<Rightarrow> bool" where
  "console_ok st st' \<longleftrightarrow> screen_ok st' \<and> (\<exists>n. keeps_printed n st st') \<and> g_enable_echo st' = g_enable_echo st"

lemma console_ok_refl: "screen_ok st \<Longrightarrow> console_ok st st"
  unfolding console_ok_def using keeps_printed_refl by blast

lemma console_ok_trans: "console_ok st st' \<Longrightarrow> console_ok st' st'' \<Longrightarrow> console_ok st st''"
  unfolding console_ok_def using keeps_printed_trans by metis

lemma console_ok_counter:
  "console_ok (st\<lparr>char_written := n\<rparr>) st' \<longleftrightarrow> console_ok st st'"
  by (simp add: console_ok_def keeps_printed_def printed_def)

lemma screen_ok_counter [simp]: "screen_ok (st\<lparr>char_written := n\<rparr>) = screen_ok st"
  by (simp add: screen_ok_def)

lemma putc_plain_ok:
  assumes ok: "screen_ok st"
  shows "\<exists>st'. putc_plain st c = Some st' \<and> console_ok st st' \<and> char_written st' = char_written st + 1"
proof -
  let ?s = "st\<lparr>char_written := char_written st + 1\<rparr>"
  have ok': "screen_ok ?s" using ok by simp
  obtain st1 skip where 1: "putc_switch ?s c = Some (st1, skip)" "cursor_loose st1" "out_kept ?s st1"
    "char_written st1 = char_written ?s" "skip \<longrightarrow> 0 < g_scr_x st1 \<and> g_scr_y st1 < 25"
    using putc_switch_ok [OF ok'] by blast
  obtain st2 n where 2: "putc_finish st1 skip = Some st2" "screen_ok st2" "keeps_printed n st1 st2"
    "char_written st2 = char_written st1" "g_enable_echo st2 = g_enable_echo st1"
    using putc_finish_ok [OF 1(2), of skip] 1(5) by force
  have "keeps_printed (n + 0) ?s st2"
    by (rule keeps_printed_trans [OF putc_switch_keeps [OF ok' 1(1)] 2(3)])
  then have "console_ok ?s st2" using 2 1(3) by (auto simp: console_ok_def out_kept_def)
  then show ?thesis using 1 2 by (simp add: putc_plain_def console_ok_counter)
qed

lemma screen_loose: "screen_ok st \<Longrightarrow> cursor_loose st"
  by (auto simp: screen_ok_def cursor_loose_def)

lemma putc_ok:
  assumes ok: "screen_ok st"
  shows "\<exists>st'. putc st c = Some st' \<and> console_ok st st'"
proof (cases "c = 9")
  case True
  let ?s = "st\<lparr>char_written := char_written st + 1\<rparr>"
  let ?xs = "[0..4 - (g_scr_x st smod 4) - 1]"
  have "\<exists>t. for_loop (\<lambda>i s. putc_plain s 32) ?xs ?s = Some t \<and> console_ok ?s t"
  proof (rule for_loop_inv)
    show "console_ok ?s ?s" using ok by (simp add: console_ok_refl)
    fix "done" i rest t assume t: "console_ok ?s t"
    then have "screen_ok t" by (simp add: console_ok_def)
    from putc_plain_ok [OF this, of 32] show "\<exists>t'. putc_plain t 32 = Some t' \<and> console_ok ?s t'"
      using console_ok_trans [OF t] by blast
  qed
  then obtain t where t: "for_loop (\<lambda>i s. putc_plain s 32) ?xs ?s = Some t" "console_ok ?s t" by blast
  obtain st2 n where 2: "putc_finish t False = Some st2" "screen_ok st2" "keeps_printed n t st2"
    "g_enable_echo st2 = g_enable_echo t"
    using putc_finish_ok [of t False] screen_loose t(2) by (auto simp: console_ok_def)
  then have "console_ok t st2" by (auto simp: console_ok_def)
  then have "console_ok ?s st2" using console_ok_trans [OF t(2)] by blast
  then show ?thesis using t(1) 2(1) True by (simp add: putc_def Let_def console_ok_counter)
next
  case False
  then show ?thesis using putc_plain_ok [OF ok] by (auto simp: putc_def)
qed

section \<open>Printing a character\<close>

text \<open>Characters that \<open>putc\<close> does not interpret.\<close>

definition plain_char :: "int \<Rightarrow> bool" where
  "plain_char c \<longleftrightarrow> c \<notin> {9, 10, 13, KEY_BACKSPACE, KEY_UP, KEY_DOWN, KEY_LEFT, KEY_RIGHT}"

definition at_output :: "console \<Rightarrow> bool" where
  "at_output st \<longleftrightarrow> g_scr_y st > out_scr_y st \<or> (g_scr_y st = out_scr_y st \<and> g_scr_x st \<ge> out_scr_x st)"

text \<open>What remains of the state when the record of port writes is left out.\<close>

definition screen_of :: "console \<Rightarrow> u8 list \<times> int \<times> int \<times> int \<times> int \<times> u32" where
  "screen_of st = (g_scr_buff st, g_scr_x st, g_scr_y st, out_scr_x st, out_scr_y st, char_written st)"

lemma screen_of_setcrsr [simp]: "screen_of (setcrsr st x y) = screen_of st"
  by (simp add: screen_of_def)

lemma putc_plain_char:
  assumes ok: "screen_ok st" and c: "plain_char c" and at: "at_output st" and x: "g_scr_x st < 79"
  shows "\<exists>st'. putc st c = Some st' \<and> screen_of st' =
    ((g_scr_buff st)[cell (g_scr_x st) (g_scr_y st) := word_of_int c], g_scr_x st + 1, g_scr_y st,
     out_scr_x st, out_scr_y st, char_written st + 1)"
proof -
  let ?s = "st\<lparr>char_written := char_written st + 1,
    g_scr_buff := (g_scr_buff st)[cell (g_scr_x st) (g_scr_y st) := word_of_int c], g_scr_x := g_scr_x st + 1\<rparr>"
  have o: "length (g_scr_buff st) = BUFF_SIZE" "0 \<le> g_scr_x st" "0 \<le> g_scr_y st" "g_scr_y st < 25"
    using ok by (auto simp: screen_ok_def)
  have "putc_switch (st\<lparr>char_written := char_written st + 1\<rparr>) c = Some (?s, True)"
    using c at o x getc_screen(3) [of "st\<lparr>char_written := char_written st + 1\<rparr>" "g_scr_x st" "g_scr_y st"]
    by (simp add: putc_switch_def plain_char_def at_output_def)
  moreover have "putc_finish ?s True = Some (setcrsr ?s (g_scr_x ?s) (g_scr_y ?s))"
    using o x as_unsigned_nonneg [of "g_scr_x st + 1"] as_unsigned_nonneg [of "g_scr_y st"]
    by (simp add: putc_finish_def screen_consts Let_def)
  ultimately show ?thesis
    using c by (simp add: putc_def plain_char_def putc_plain_def) (simp add: screen_of_def)
qed

section \<open>The contracts of the console\<close>

text \<open>A cleared screen with both cursors in the corner.\<close>

definition blank_screen :: console where
  "blank_screen = \<lparr>g_scr_buff = replicate BUFF_SIZE 0, g_scr_x = 0, g_scr_y = 0, out_scr_x = 0,
     out_scr_y = 0, char_written = 0, g_enable_echo = True, ports = []\<rparr>"

lemma blank_screen_ok: "screen_ok blank_screen"
  by (simp add: screen_ok_def blank_screen_def)

text \<open>C11: For every character or key \<open>putc\<close> returns, stays inside the text window and keeps
  both cursors on the screen; apart from scrolling by some number of lines, every cell before
  the output cursor keeps its character and colour, so no key of the user removes what the
  kernel printed.\<close>

theorem putc_keeps_printed:
  assumes "screen_ok st"
  shows "\<exists>st' n. putc st c = Some st' \<and> screen_ok st' \<and> keeps_printed n st st'"
  using putc_ok [OF assms, of c] by (auto simp: console_ok_def)

lemma putc_keeps_printed_witness:
  "\<exists>st' n. putc blank_screen 0x87 = Some st' \<and> screen_ok st' \<and> keeps_printed n blank_screen st'"
  by (rule putc_keeps_printed [OF blank_screen_ok])

text \<open>At the output, a plain character is written into the cell under the cursor and
  nothing else in the window changes; the cursor moves right, to the next line from the last
  column, and from the last cell the screen scrolls by one line.\<close>

theorem putc_prints_character:
  assumes ok: "screen_ok st" and c: "plain_char c" and at: "at_output st"
  defines "buff \<equiv> (g_scr_buff st)[cell (g_scr_x st) (g_scr_y st) := word_of_int c]"
  shows "\<exists>st'. putc st c = Some st' \<and> char_written st' = char_written st + 1 \<and>
    (if g_scr_x st < 79 then g_scr_buff st' = buff \<and> (g_scr_x st', g_scr_y st') = (g_scr_x st + 1, g_scr_y st)
     else if g_scr_y st < 24 then g_scr_buff st' = buff \<and> (g_scr_x st', g_scr_y st') = (0, g_scr_y st + 1)
     else (\<forall>i < BUFF_SIZE. g_scr_buff st' ! i = scrolled buff i) \<and> (g_scr_x st', g_scr_y st') = (0, 24))"
proof -
  let ?s = "st\<lparr>char_written := char_written st + 1, g_scr_buff := buff, g_scr_x := g_scr_x st + 1\<rparr>"
  have o: "length (g_scr_buff st) = BUFF_SIZE" "0 \<le> g_scr_x st" "g_scr_x st < 80" "0 \<le> g_scr_y st" "g_scr_y st < 25"
    using ok by (auto simp: screen_ok_def)
  have sw: "putc_switch (st\<lparr>char_written := char_written st + 1\<rparr>) c = Some (?s, True)"
    using c at o getc_screen(3) [of "st\<lparr>char_written := char_written st + 1\<rparr>" "g_scr_x st" "g_scr_y st"]
    by (simp add: putc_switch_def plain_char_def at_output_def buff_def)
  have run: "putc st c = putc_finish ?s True"
    using c sw by (simp add: putc_def plain_char_def putc_plain_def)
  have u: "as_unsigned (g_scr_x st + 1) = g_scr_x st + 1" "as_unsigned (g_scr_y st) = g_scr_y st"
    "as_unsigned (g_scr_y st + 1) = g_scr_y st + 1"
    using o by (auto intro!: as_unsigned_nonneg)
  consider "g_scr_x st < 79" | "g_scr_x st = 79" "g_scr_y st < 24" | "g_scr_x st = 79" "g_scr_y st = 24"
    using o by linarith
  then show ?thesis
  proof cases
    case 1
    then show ?thesis using run u o by (simp add: putc_finish_def screen_consts Let_def)
  next
    case 2
    then show ?thesis using run u o by (simp add: putc_finish_def screen_consts Let_def)
  next
    case 3
    let ?s2 = "?s\<lparr>g_scr_x := 0, g_scr_y := g_scr_y st + 1\<rparr>"
    obtain b where "scrollback ?s2 1 = Some (scroll_cursors ?s2 b)" "length b = BUFF_SIZE"
      "\<forall>i < BUFF_SIZE. b ! i = scrolled (g_scr_buff ?s2) i"
      using scrollback_one [of ?s2] o(1) by (auto simp: buff_def)
    then show ?thesis using run u o 3
      by (simp add: putc_finish_def screen_consts Let_def) (simp add: scroll_cursors_def cursor_up_def split: prod.splits)
  qed
qed

lemma putc_prints_character_witness:
  "\<exists>st'. putc blank_screen 65 = Some st' \<and> g_scr_buff st' = (replicate BUFF_SIZE 0)[0 := 65] \<and> g_scr_x st' = 1"
  using putc_prints_character [of blank_screen 65] blank_screen_ok
  by (auto simp: plain_char_def key_consts at_output_def blank_screen_def cell_def)

text \<open>Scrolling by one line moves every line, characters and colours, to the line above,
  clears the last line and nothing behind it, and takes both cursors up by one line, or home
  from the first one.\<close>

theorem scrollback_moves_lines:
  assumes "length (g_scr_buff st) = BUFF_SIZE"
  shows "\<exists>b. scrollback st 1 = Some (scroll_cursors st b) \<and> length b = BUFF_SIZE \<and>
    (\<forall>i < BUFF_SIZE. b ! i =
      (if i < 3840 then g_scr_buff st ! (i + 160) else if i < 4000 then (if even i then 0 else DEFAULT_COLOUR)
       else g_scr_buff st ! i))"
proof -
  have c: "cell 0 24 = 3840" "cell 0 25 = 4000" by (simp_all add: cell_def)
  show ?thesis using scrollback_one [OF assms] unfolding scrolled_def blank_def c .
qed

lemma scrollback_moves_lines_witness:
  "\<exists>b. scrollback blank_screen 1 = Some (scroll_cursors blank_screen b) \<and> b ! 3841 = 7"
  using scrollback_moves_lines [of blank_screen] by (auto simp: blank_screen_def BUFF_SIZE_def DEFAULT_COLOUR_def)

end
