(* ===== verification/Printf.thy ===== *)
theory Printf
  imports ConsoleCorrect
begin

text \<open>
  Formatted output, the second half of \<open>kernel/include/stdio.c\<close>: \<open>puts\<close>,
  \<open>printf_number\<close> and \<open>writef\<close>. The format, the strings and the arguments are read
  from the flat memory; \<open>argp\<close> is the address of the next argument. \<open>int\<close> and \<open>long\<close> are 32 bits
  wide on the target. The multiplications of \<open>min_digit\<close> are undefined (\<open>None\<close>) where the
  \<open>int\<close> overflows; the negation of an argument is that of the target's 32-bit registers, which
  gives \<open>INT_MIN\<close> back.
\<close>

section \<open>Strings\<close>

partial_function (option) puts :: "memory \<Rightarrow> console \<Rightarrow> u32 \<Rightarrow> console option" where
  "puts mem st str =
     (if mem str = 0 then Some st
      else do {
        st' \<leftarrow> putc st (sint (mem str));
        puts mem st' (str + 1)
      })"

section \<open>Numbers\<close>

definition number_chars :: "bool \<Rightarrow> u8 list" where
  "number_chars uppercase =
     map of_char (if uppercase then ''0123456789ABCDEFG'' else ''0123456789abcdefg'')"

text \<open>The sign and the 64-bit magnitude that are printed for an argument.\<close>

definition number_of_arg :: "u32 \<Rightarrow> bool \<Rightarrow> bool \<Rightarrow> bool \<times> u64" where
  "number_of_arg val sign long_t =
     (if sign then
        (let negative = val <s 0; val' = (if negative then - val else val) in
         (negative, if long_t then ucast val' else scast val'))
      else (False, ucast val))"

text \<open>The \<open>do ... while\<close> loop that fills the buffer with the digits, the last one first.\<close>

partial_function (option) digit_loop ::
    "u8 list \<Rightarrow> nat \<Rightarrow> nat \<Rightarrow> u8 list \<Rightarrow> nat \<Rightarrow> int \<Rightarrow> (u8 list \<times> nat \<times> int) option" where
  "digit_loop chars radix number buffer pos min_digit =
     (if radix = 0 then None
      else do {
        c \<leftarrow> aread chars (number mod radix);
        buffer' \<leftarrow> awrite buffer pos c;
        if number div radix > 0
        then digit_loop chars radix (number div radix) buffer' (pos + 1) (min_digit - 1)
        else Some (buffer', pos + 1, min_digit - 1)
      })"

definition printf_number ::
    "memory \<Rightarrow> console \<Rightarrow> u32 \<Rightarrow> bool \<Rightarrow> nat \<Rightarrow> bool \<Rightarrow> bool \<Rightarrow> int \<Rightarrow> console option" where
  "printf_number mem st argp sign radix uppercase long_t min_digit = do {
     let (negative, number) = number_of_arg (load32 mem argp) sign long_t;
     (buffer, pos, min_digit') \<leftarrow>
       digit_loop (number_chars uppercase) radix (unat number) (replicate 32 0) 0 min_digit;
     buffer' \<leftarrow> (if negative then awrite buffer pos 45 else Some buffer);
     let pos' = (if negative then pos + 1 else pos);
     st1 \<leftarrow> for_loop (\<lambda>i s. putc s 48) [0..min_digit' - 1] st;
     for_loop (\<lambda>i s. do { c \<leftarrow> aread buffer' i; putc s (sint c) }) (rev [0..<pos']) st1
   }"

section \<open>The format\<close>

datatype printf_state = PRINTF_STATE_PRINT | PRINTF_STATE_LENGTH | PRINTF_STATE_SPECIFIER
  | PRINTF_STATE_DIGIT_SPECIFIER

text \<open>
  The locals of the loop of \<open>writef\<close>: console, \<open>argp\<close>, \<open>state\<close>, \<open>len\<close>, \<open>min_digit\<close>; and the body of
  the loop for the format character \<open>c\<close>.
\<close>

type_synonym printf_locals = "console \<times> u32 \<times> printf_state \<times> bool \<times> int"

definition next_arg :: "u32 \<Rightarrow> bool \<Rightarrow> u32" where
  "next_arg argp len = (if len then argp + 4 + 4 else argp + 4)"

text \<open>\<open>min_digit *= 10\<close>, an \<open>int\<close>.\<close>

definition times_ten :: "int \<Rightarrow> int option" where
  "times_ten min_digit = (if - (2 ^ 31) \<le> min_digit * 10 \<and> min_digit * 10 < 2 ^ 31 then Some (min_digit * 10) else None)"

definition writef_step :: "memory \<Rightarrow> u8 \<Rightarrow> printf_locals \<Rightarrow> printf_locals option" where
  "writef_step mem c = (\<lambda>(st, argp, state, len, min_digit).
     if state = PRINTF_STATE_PRINT then
       (if c = 37 then Some (st, argp, PRINTF_STATE_SPECIFIER, len, 0)
        else do { st' \<leftarrow> putc st (sint c); Some (st', argp, PRINTF_STATE_PRINT, len, 0) })
     else
       let len' = (state = PRINTF_STATE_LENGTH \<or> len);
           argp' = (if len' then argp - 4 else argp);
           number = (\<lambda>sign radix uppercase. do {
             st' \<leftarrow> printf_number mem st argp' sign radix uppercase len' min_digit;
             Some (st', next_arg argp' len', PRINTF_STATE_PRINT, False, 0)
           }) in
       if c = 100 \<or> c = 105 then number True 10 True
       else if c = 117 then number False 10 True
       else if c = 88 then number False 16 True
       else if c = 120 then number False 16 False
       else if c = 111 then number False 8 True
       else if c = 108 then Some (st, next_arg argp' len', PRINTF_STATE_LENGTH, False, 0)
       else if c = 115 then do {
         st' \<leftarrow> puts mem st (load32 mem argp');
         Some (st', next_arg argp' len', PRINTF_STATE_PRINT, False, 0)
       }
       else if c = 99 then do {
         st' \<leftarrow> putc st (sint (ucast (load32 mem argp') :: u8));
         Some (st', next_arg argp' len', PRINTF_STATE_PRINT, False, 0)
       }
       else if c = 48 then do {
         min_digit' \<leftarrow> (if state = PRINTF_STATE_DIGIT_SPECIFIER then times_ten min_digit else Some min_digit);
         Some (st, argp', PRINTF_STATE_DIGIT_SPECIFIER, len', min_digit')
       }
       else if 49 \<le> c \<and> c \<le> 57 then do {
         _ \<leftarrow> times_ten min_digit;
         Some (st, argp', PRINTF_STATE_DIGIT_SPECIFIER, len', uint c - 48)
       }
       else if c = 37 then do {
         st' \<leftarrow> putc st 37;
         Some (st', next_arg argp' len', PRINTF_STATE_PRINT, False, 0)
       }
       else Some (st, next_arg argp' len', PRINTF_STATE_PRINT, False, 0))"

partial_function (option) writef_loop ::
    "memory \<Rightarrow> u32 \<Rightarrow> printf_locals \<Rightarrow> printf_locals option" where
  "writef_loop mem fmt s =
     (if mem fmt = 0 then Some s
      else do {
        s' \<leftarrow> writef_step mem (mem fmt) s;
        writef_loop mem (fmt + 1) s'
      })"

definition ascii :: "string \<Rightarrow> u8 list" where
  "ascii s = map of_char s"

text \<open>\<open>!memcmp(fmt, "[LOG]", 5)\<close> and the other two comparisons.\<close>

definition has_prefix :: "memory \<Rightarrow> u32 \<Rightarrow> string \<Rightarrow> bool" where
  "has_prefix mem fmt s \<longleftrightarrow> compare_bytes (bytes_at mem fmt (length s)) (ascii s) = 0"

definition put_chars :: "u8 list \<Rightarrow> console \<Rightarrow> console option" where
  "put_chars cs = for_loop (\<lambda>c s. putc s (sint c)) cs"

definition update_out :: "console \<Rightarrow> console" where
  "update_out st =
     (let st1 = (if g_scr_y st > out_scr_y st
        then st\<lparr>out_scr_x := g_scr_x st, out_scr_y := g_scr_y st\<rparr>
        else st\<lparr>out_scr_x := max (out_scr_x st) (g_scr_x st)\<rparr>) in
      st1\<lparr>out_scr_x := max (out_scr_x st1) 0, out_scr_y := max (out_scr_y st1) 0\<rparr>)"

definition writef :: "memory \<Rightarrow> console \<Rightarrow> u32 \<Rightarrow> u32 \<Rightarrow> (console \<times> u32) option" where
  "writef mem st fmt argp = do {
     let log = has_prefix mem fmt ''[LOG]'';
     let debug = has_prefix mem fmt ''[DEBUG]'';
     let error = has_prefix mem fmt ''[ERROR]'';
     let fmt' = (if log then fmt + 5 else if debug \<or> error then fmt + 7 else fmt);
     let log_prefix = (if \<not> g_enable_echo st then ''''
       else if log then ''(KERNEL): ''
       else if debug then ''(KERNEL) DEBUG: ''
       else if error then ''(KERNEL) ERROR: '' else '''');
     st1 \<leftarrow> put_chars (ascii log_prefix) st;
     (st2, _) \<leftarrow> writef_loop mem fmt' (st1\<lparr>char_written := 0\<rparr>, argp, PRINTF_STATE_PRINT, False, 0);
     st3 \<leftarrow> (if log \<or> debug \<or> error then putc st2 10 else Some st2);
     let st4 = update_out st3;
     Some (st4, char_written st4)
   }"

section \<open>Digits\<close>

text \<open>The digits of a number, the most significant one first.\<close>

function digits :: "nat \<Rightarrow> nat \<Rightarrow> nat list" where
  "digits r n = (if r < 2 \<or> n < r then [n] else digits r (n div r) @ [n mod r])"
  by pat_completeness auto
termination
  by (relation "measure snd") auto

declare digits.simps [simp del]

lemma digits_value: "2 \<le> r \<Longrightarrow> foldl (\<lambda>a d. a * r + d) 0 (digits r n) = n"
proof (induction n rule: less_induct)
  case (less n)
  show ?case
  proof (cases "n < r")
    case True
    then show ?thesis by (simp add: digits.simps [of r n])
  next
    case False
    then have "n div r < n" using less.prems by (intro div_less_dividend) auto
    then show ?thesis using less False by (simp add: digits.simps [of r n] div_mult_mod_eq)
  qed
qed

lemma digits_less: "2 \<le> r \<Longrightarrow> d \<in> set (digits r n) \<Longrightarrow> d < r"
proof (induction n rule: less_induct)
  case (less n)
  show ?case
  proof (cases "n < r")
    case True
    then show ?thesis using less.prems by (simp add: digits.simps [of r n])
  next
    case False
    then have lt: "n div r < n" using less.prems(1) by (intro div_less_dividend) auto
    show ?thesis using less.IH [OF lt less.prems(1)] less.prems False by (auto simp: digits.simps [of r n])
  qed
qed

lemma length_digits: "2 \<le> r \<Longrightarrow> n < r ^ k \<Longrightarrow> 0 < k \<Longrightarrow> length (digits r n) \<le> k"
proof (induction k arbitrary: n)
  case (Suc k)
  show ?case
  proof (cases "n < r")
    case True
    then show ?thesis by (simp add: digits.simps [of r n])
  next
    case False
    then have "0 < k" using Suc.prems by (cases k) auto
    moreover have "n div r < r ^ k" using Suc.prems by (simp add: less_mult_imp_div_less mult.commute)
    ultimately have "length (digits r (n div r)) \<le> k" using Suc by blast
    then show ?thesis using False Suc.prems(1) by (simp add: digits.simps [of r n])
  qed
qed simp

text \<open>The loop stores the digits of the number in reverse.\<close>

lemma digit_loop_digits:
  assumes r: "2 \<le> r" "r \<le> length chars"
  shows "pos + length (digits r n) \<le> length buffer \<Longrightarrow>
    \<exists>b. digit_loop chars r n buffer pos md =
        Some (b, pos + length (digits r n), md - int (length (digits r n))) \<and>
      length b = length buffer \<and>
      take (pos + length (digits r n)) b = take pos buffer @ rev (map ((!) chars) (digits r n))"
proof (induction n arbitrary: buffer pos md rule: less_induct)
  case (less n)
  have "n mod r < r" using r(1) by simp
  then have c: "n mod r < length chars" using r(2) by linarith
  show ?case
  proof (cases "n < r")
    case True
    then have d: "digits r n = [n]" "n mod r = n" "n div r = 0" by (simp_all add: digits.simps [of r n])
    then show ?thesis using less.prems r c
      by (subst digit_loop.simps) (simp add: take_Suc_conv_app_nth)
  next
    case False
    let ?b = "buffer[pos := chars ! (n mod r)]"
    have lt: "n div r < n" using False r(1) by (intro div_less_dividend) auto
    have d: "digits r n = digits r (n div r) @ [n mod r]" using False r(1) by (simp add: digits.simps [of r n])
    have "0 < n div r" using False r(1) by (simp add: div_greater_zero_iff)
    then have step: "digit_loop chars r n buffer pos md = digit_loop chars r (n div r) ?b (Suc pos) (md - 1)"
      using less.prems r c d by (subst digit_loop.simps) simp
    have "Suc pos + length (digits r (n div r)) \<le> length ?b" using less.prems d by simp
    from less.IH [OF lt this, of "md - 1"] obtain b where b:
      "digit_loop chars r (n div r) ?b (Suc pos) (md - 1) =
        Some (b, Suc pos + length (digits r (n div r)), md - 1 - int (length (digits r (n div r))))"
      "length b = length ?b"
      "take (Suc pos + length (digits r (n div r))) b = take (Suc pos) ?b @ rev (map ((!) chars) (digits r (n div r)))"
      by blast
    have "take (Suc pos) ?b = take pos buffer @ [chars ! (n mod r)]"
      using less.prems d by (simp add: take_Suc_conv_app_nth)
    then show ?thesis using b step d by (auto simp: algebra_simps)
  qed
qed

lemma length_number_chars [simp]: "length (number_chars up) = 17"
  by (simp add: number_chars_def)

section \<open>Characters printed for a number\<close>

lemma put_chars_append: "put_chars (xs @ ys) st = Option.bind (put_chars xs st) (put_chars ys)"
  by (simp add: put_chars_def for_loop_append)

lemma put_chars_reversed:
  "p \<le> length buf \<Longrightarrow>
    for_loop (\<lambda>i s. do { c \<leftarrow> aread buf i; putc s (sint c) }) (rev [0..<p]) st = put_chars (rev (take p buf)) st"
proof (induction p arbitrary: st)
  case (Suc p)
  then show ?case
    by (simp add: take_Suc_conv_app_nth put_chars_def) (auto split: Option.bind_split)
qed (simp add: put_chars_def)

lemma put_chars_replicate:
  "for_loop (\<lambda>i s. putc s (sint c)) xs st = put_chars (replicate (length xs) c) st"
  by (induction xs arbitrary: st) (auto simp: put_chars_def split: Option.bind_split)

text \<open>The characters of a number: zeros up to the minimal width, the sign, the digits.\<close>

definition number_text :: "nat \<Rightarrow> bool \<Rightarrow> int \<Rightarrow> bool \<Rightarrow> nat \<Rightarrow> u8 list" where
  "number_text radix uppercase min_digit negative n =
     replicate (nat (min_digit - int (length (digits radix n)))) 48 @
     (if negative then [45] else []) @ map ((!) (number_chars uppercase)) (digits radix n)"

text \<open>The absolute value of a word, as the negation computes it.\<close>

lemma number_of_arg_value:
  assumes "sign \<Longrightarrow> w \<noteq> 0x80000000"
  shows "\<exists>number. number_of_arg w sign long_t = (sign \<and> sint w < 0, number) \<and>
    unat number = (if sign then nat \<bar>sint w\<bar> else unat w)"
proof (cases sign)
  case False
  then show ?thesis using unat_u32_less [of w] by (simp add: number_of_arg_def unsigned_ucast_eq take_bit_nat_eq_self)
next
  case True
  let ?v = "if w <s 0 then - w else w"
  have lo: "sint w \<noteq> - (2 ^ 31)"
  proof
    assume "sint w = - (2 ^ 31)"
    then have "sint w = sint (0x80000000 :: u32)" by simp
    then have "w = 0x80000000" using signed_word_eqI by blast
    then show False using assms [OF True] by simp
  qed
  have range: "- (2 ^ 31) \<le> sint w" "sint w < 2 ^ 31" using sint_ge [of w] sint_less [of w] by simp_all
  have minus: "- w = word_of_int (- sint w)" by simp
  have "sint (- w) = - sint w"
    unfolding minus signed_of_int using lo range by (simp add: signed_take_bit_int_eq_self)
  then have v: "sint ?v = \<bar>sint w\<bar>" by (simp add: word_sless_alt)
  then have nn: "0 \<le> sint ?v" by simp
  have "sint ?v < 2 ^ 32" using v range by simp
  then have u: "uint ?v = sint ?v" unfolding uint_sint using nn by (simp add: take_bit_int_eq_self)
  have b: "sint ?v < 2 ^ 64" using \<open>sint ?v < 2 ^ 32\<close> by simp
  have "uint (ucast ?v :: u64) = sint ?v" unfolding unsigned_ucast_eq u using nn b by (simp add: take_bit_int_eq_self)
  moreover have "uint (scast ?v :: u64) = sint ?v"
  proof -
    have "(scast ?v :: u64) = word_of_int (sint ?v)" by (simp only: of_int_sint)
    then have "uint (scast ?v :: u64) = take_bit 64 (sint ?v)" by (simp only: unsigned_of_int) simp
    then show ?thesis using nn b by (simp only: take_bit_int_eq_self)
  qed
  ultimately have "unat (ucast ?v :: u64) = nat \<bar>sint w\<bar>" "unat (scast ?v :: u64) = nat \<bar>sint w\<bar>"
    unfolding unat_eq_nat_uint v by simp_all
  then show ?thesis using True by (cases long_t) (auto simp: number_of_arg_def word_sless_alt Let_def)
qed

lemma number_buffer:
  fixes number :: u64
  assumes r: "radix = 8 \<or> radix = 10 \<or> radix = 16"
  obtains b where "digit_loop (number_chars up) radix (unat number) (replicate 32 0) 0 md =
      Some (b, length (digits radix (unat number)), md - int (length (digits radix (unat number))))"
    "length b = 32" "length (digits radix (unat number)) \<le> 22"
    "take (length (digits radix (unat number))) b = rev (map ((!) (number_chars up)) (digits radix (unat number)))"
proof -
  let ?n = "unat number" and ?k = "length (digits radix (unat number))"
  have "?n < 2 ^ 64" using unsigned_less [of number] by simp
  moreover have "(2 :: nat) ^ 64 \<le> radix ^ 22" using r by auto
  ultimately have "?n < radix ^ 22" by linarith
  then have k: "?k \<le> 22" using r by (intro length_digits) auto
  then show thesis using digit_loop_digits [of radix "number_chars up" 0 ?n "replicate 32 0" md] r that by auto
qed

lemma printf_number_text:
  assumes r: "radix = 8 \<or> radix = 10 \<or> radix = 16"
    and arg: "number_of_arg (load32 mem argp) sign long_t = (negative, number)"
  shows "printf_number mem st argp sign radix up long_t md = put_chars (number_text radix up md negative (unat number)) st"
proof -
  let ?n = "unat number" and ?k = "length (digits radix (unat number))"
  obtain b where b: "digit_loop (number_chars up) radix ?n (replicate 32 0) 0 md = Some (b, ?k, md - int ?k)"
    "length b = 32" "?k \<le> 22" "take ?k b = rev (map ((!) (number_chars up)) (digits radix ?n))"
    by (rule number_buffer [OF r])
  note k = b(3)
  let ?b = "if negative then b[?k := 45] else b" and ?p = "if negative then ?k + 1 else ?k"
  have rev: "rev (take ?p ?b) = (if negative then [45] else []) @ map ((!) (number_chars up)) (digits radix ?n)"
    using b(2,4) k by (auto simp: take_Suc_conv_app_nth)
  have "printf_number mem st argp sign radix up long_t md = Option.bind
      (for_loop (\<lambda>i s. putc s (sint (48 :: u8))) [0..md - int ?k - 1] st)
      (for_loop (\<lambda>i s. do { c \<leftarrow> aread ?b i; putc s (sint c) }) (rev [0..<?p]))"
    using arg b(1,2) k by (simp add: printf_number_def Let_def)
  also have "\<dots> = Option.bind (put_chars (replicate (nat (md - int ?k)) 48) st) (put_chars (rev (take ?p ?b)))"
  proof -
    have "for_loop (\<lambda>i s. do { c \<leftarrow> aread ?b i; putc s (sint c) }) (rev [0..<?p]) = put_chars (rev (take ?p ?b))"
      by (rule ext, rule put_chars_reversed) (use b(2) k in auto)
    then show ?thesis using put_chars_replicate [of 48 "[0..md - int ?k - 1]" st] by (simp only: length_upto) simp
  qed
  also have "\<dots> = put_chars (number_text radix up md negative ?n) st"
    by (simp only: rev number_text_def put_chars_append)
  finally show ?thesis .
qed

section \<open>Formatted output always returns\<close>

text \<open>In a memory with a zero byte, every address is the start of a string.\<close>

definition has_zero :: "memory \<Rightarrow> bool" where
  "has_zero mem \<longleftrightarrow> (\<exists>z. mem z = 0)"

lemma string_exists:
  assumes "has_zero mem"
  shows "\<exists>s. string_at mem a s"
proof -
  obtain z where "mem z = 0" using assms by (auto simp: has_zero_def)
  then show ?thesis
proof (induction "unat (z - a)" arbitrary: a)
  case 0
  then have "a = z" by (simp add: unat_eq_zero)
  then show ?case using 0 by (intro exI [of _ "[]"]) simp
next
  case (Suc n)
  have ne: "z - a \<noteq> 0" using Suc.hyps(2) by auto
  have "unat (z - (a + 1)) = n"
    unfolding diff_diff_eq [symmetric] using unat_minus_one [OF ne] Suc.hyps(2) by linarith
  then obtain s where "string_at mem (a + 1) s" using Suc.hyps(1) [of "a + 1"] Suc.prems by blast
  then show ?case
    by (cases "mem a = 0") (use exI [of "string_at mem a" "[]"] exI [of "string_at mem a" "mem a # s"] in auto)
qed
qed

lemma string_has_zero: "string_at mem a s \<Longrightarrow> has_zero mem"
  by (induction s arbitrary: a) (auto simp: has_zero_def)

lemma put_chars_ok: "screen_ok st \<Longrightarrow> \<exists>st'. put_chars cs st = Some st' \<and> console_ok st st'"
proof (induction cs arbitrary: st)
  case (Cons c cs)
  obtain st1 where 1: "putc st (sint c) = Some st1" "console_ok st st1" using putc_ok [OF Cons.prems] by blast
  then obtain st2 where "put_chars cs st1 = Some st2" "console_ok st1 st2"
    using Cons.IH [of st1] by (auto simp: console_ok_def)
  then show ?case using 1 console_ok_trans by (auto simp: put_chars_def)
qed (simp add: put_chars_def console_ok_refl)

lemma puts_string: "string_at mem a s \<Longrightarrow> puts mem st a = put_chars s st"
proof (induction s arbitrary: a st)
  case (Cons c s)
  then show ?case
    by (subst puts.simps) (auto simp: put_chars_def split: Option.bind_split)
qed (subst puts.simps, simp add: put_chars_def)

lemma puts_ok: "screen_ok st \<Longrightarrow> has_zero mem \<Longrightarrow> \<exists>st'. puts mem st a = Some st' \<and> console_ok st st'"
  using string_exists [of mem a] puts_string put_chars_ok by metis

lemma printf_number_ok:
  assumes "screen_ok st" "radix = 8 \<or> radix = 10 \<or> radix = 16"
  shows "\<exists>st'. printf_number mem st argp sign radix up long_t md = Some st' \<and> console_ok st st'"
  using printf_number_text [OF assms(2)] put_chars_ok [OF assms(1)]
  by (cases "number_of_arg (load32 mem argp) sign long_t") metis

text \<open>The minimal widths of a format fit an \<open>int\<close>: no multiplication of \<open>min_digit\<close> overflows.\<close>

fun widths_fit :: "printf_state \<Rightarrow> int \<Rightarrow> u8 list \<Rightarrow> bool" where
  "widths_fit state md [] \<longleftrightarrow> True"
| "widths_fit state md (c # s) \<longleftrightarrow>
     (if state = PRINTF_STATE_PRINT then widths_fit (if c = 37 then PRINTF_STATE_SPECIFIER else PRINTF_STATE_PRINT) 0 s
      else if 48 \<le> c \<and> c \<le> 57 then
        (c = 48 \<and> state \<noteq> PRINTF_STATE_DIGIT_SPECIFIER \<or> times_ten md \<noteq> None) \<and>
        widths_fit PRINTF_STATE_DIGIT_SPECIFIER
          (if c \<noteq> 48 then uint c - 48 else if state = PRINTF_STATE_DIGIT_SPECIFIER then md * 10 else md) s
      else widths_fit (if c = 108 then PRINTF_STATE_LENGTH else PRINTF_STATE_PRINT) 0 s)"

text \<open>
  What a step of the format does to the console: printing some characters, or nothing; and the
  rest \<open>s\<close> of the format has widths that fit if the whole had.
\<close>

definition step_ok :: "console \<Rightarrow> u8 list \<Rightarrow> printf_locals option \<Rightarrow> bool" where
  "step_ok st s r \<longleftrightarrow> (\<exists>st' argp state len md. r = Some (st', argp, state, len, md) \<and> console_ok st st' \<and> widths_fit state md s)"

lemma step_ok_same: "screen_ok st \<Longrightarrow> widths_fit state md s \<Longrightarrow> step_ok st s (Some (st, argp, state, len, md))"
  by (simp add: step_ok_def console_ok_refl)

lemma step_ok_print:
  "\<exists>st'. r = Some st' \<and> console_ok st st' \<Longrightarrow> widths_fit state md s \<Longrightarrow>
    step_ok st s (Option.bind r (\<lambda>st'. Some (st', argp, state, len, md)))"
  by (auto simp: step_ok_def)

lemma writef_step_ok:
  assumes ok: "screen_ok st" and z: "has_zero mem" and w: "widths_fit state md (c # s)"
  shows "step_ok st s (writef_step mem c (st, argp, state, len, md))"
proof (cases "state = PRINTF_STATE_PRINT")
  case True
  then show ?thesis using step_ok_print [OF putc_ok [OF ok]] step_ok_same [OF ok] w
    by (auto simp: writef_step_def)
next
  case state: False
  show ?thesis
  proof (cases "48 \<le> c \<and> c \<le> 57")
    case True
    then have "step_ok st s (writef_step mem c (st, argp, state, len, md))" if "c = 48"
      using state w that step_ok_same [OF ok]
      by (auto simp: writef_step_def Let_def times_ten_def split: if_splits)
    moreover have "step_ok st s (writef_step mem c (st, argp, state, len, md))" if "c \<noteq> 48"
    proof -
      have "c \<noteq> 100" "c \<noteq> 105" "c \<noteq> 117" "c \<noteq> 88" "c \<noteq> 120" "c \<noteq> 111" "c \<noteq> 108" "c \<noteq> 115" "c \<noteq> 99" "49 \<le> c"
        using True that by (auto simp: word_le_nat_alt word_unat_eq_iff)
      then show ?thesis using state w that True step_ok_same [OF ok]
        by (auto simp: writef_step_def Let_def times_ten_def split: if_splits)
    qed
    ultimately show ?thesis by blast
  next
    case False
    then have c: "\<not> (49 \<le> c \<and> c \<le> 57)" "c \<noteq> 48" by (auto simp: word_le_nat_alt)
    have w': "widths_fit (if c = 108 then PRINTF_STATE_LENGTH else PRINTF_STATE_PRINT) 0 s"
      using w state False by simp
    show ?thesis
    proof (cases "c = 108")
      case True
      then have "widths_fit PRINTF_STATE_LENGTH 0 s" using w' by simp
      then show ?thesis using True step_ok_same [OF ok] by (simp add: writef_step_def Let_def state)
    next
      case False
      then have w1: "widths_fit PRINTF_STATE_PRINT 0 s" using w' by simp
      have num: "step_ok st s (Option.bind (printf_number mem st a sign radix up l md') (\<lambda>st'. Some (st', argp', PRINTF_STATE_PRINT, len', 0)))"
        if "radix = 8 \<or> radix = 10 \<or> radix = 16" for a sign radix up l md' argp' len'
        by (rule step_ok_print [OF printf_number_ok [OF ok that] w1])
      have strs: "step_ok st s (Option.bind (puts mem st a) (\<lambda>st'. Some (st', argp', PRINTF_STATE_PRINT, len', 0)))" for a argp' len'
        by (rule step_ok_print [OF puts_ok [OF ok z] w1])
      have chars: "step_ok st s (Option.bind (putc st x) (\<lambda>st'. Some (st', argp', PRINTF_STATE_PRINT, len', 0)))" for x argp' len'
        by (rule step_ok_print [OF putc_ok [OF ok] w1])
      have none: "step_ok st s (Some (st, argp', PRINTF_STATE_PRINT, len', 0))" for argp' len'
        by (rule step_ok_same [OF ok w1])
      show ?thesis
        unfolding writef_step_def prod.case if_not_P [OF state] Let_def if_not_P [OF c(1)] if_not_P [OF c(2)] if_not_P [OF False]
        using num strs chars none by simp
    qed
  qed
qed

lemma writef_loop_ok:
  assumes z: "has_zero mem"
  shows "string_at mem fmt s \<Longrightarrow> screen_ok st \<Longrightarrow> widths_fit state md s \<Longrightarrow>
    \<exists>st' l. writef_loop mem fmt (st, argp, state, len, md) = Some (st', l) \<and> console_ok st st'"
proof (induction s arbitrary: fmt st argp state len md)
  case Nil
  then show ?case by (subst writef_loop.simps) (simp add: console_ok_refl)
next
  case (Cons c s)
  obtain st1 argp1 state1 len1 md1 where 1: "writef_step mem c (st, argp, state, len, md) = Some (st1, argp1, state1, len1, md1)"
    "console_ok st st1" "widths_fit state1 md1 s"
    using writef_step_ok [OF Cons.prems(2) z Cons.prems(3), of argp len] unfolding step_ok_def by blast
  obtain st2 l2 where 2: "writef_loop mem (fmt + 1) (st1, argp1, state1, len1, md1) = Some (st2, l2)" "console_ok st1 st2"
    using Cons.IH [of "fmt + 1" st1 state1 md1 argp1 len1] Cons.prems(1) 1(2,3) unfolding console_ok_def [of st st1] by auto
  then have "writef_loop mem fmt (st, argp, state, len, md) = Some (st2, l2)"
    using Cons.prems(1) 1(1) by (subst writef_loop.simps) auto
  then show ?case using console_ok_trans [OF 1(2) 2(2)] by blast
qed

text \<open>The format behind a log prefix.\<close>

lemma prefix_split: "bytes_at mem a (length bs) = bs \<Longrightarrow> 0 \<notin> set bs \<Longrightarrow> string_at mem a s \<Longrightarrow>
    \<exists>s'. s = bs @ s' \<and> string_at mem (a + word_of_nat (length bs)) s'"
proof (induction bs arbitrary: a s)
  case (Cons b bs)
  then obtain s1 where s: "s = b # s1" "string_at mem (a + 1) s1" by (cases s) auto
  then show ?case using Cons.IH [of "a + 1" s1] Cons.prems by (auto simp: add.assoc)
qed simp

lemma behind_prefix:
  assumes "string_at mem fmt s" "widths_fit PRINTF_STATE_PRINT 0 s" "has_prefix mem fmt t" "t \<in> {''[LOG]'', ''[DEBUG]'', ''[ERROR]''}"
  shows "\<exists>s'. string_at mem (fmt + word_of_nat (length t)) s' \<and> widths_fit PRINTF_STATE_PRINT 0 s'"
proof -
  have "length (bytes_at mem fmt (length t)) = length (ascii t)" by (simp add: ascii_def)
  then have "bytes_at mem fmt (length (ascii t)) = ascii t"
    using assms(3) compare_bytes_eq by (simp add: has_prefix_def ascii_def)
  moreover have "0 \<notin> set (ascii t)" using assms(4) by (auto simp: ascii_def of_char_def)
  ultimately obtain s' where s': "s = ascii t @ s'" "string_at mem (fmt + word_of_nat (length t)) s'"
    using prefix_split [OF _ _ assms(1), of "ascii t"] by (auto simp: ascii_def)
  have "widths_fit PRINTF_STATE_PRINT 0 s'" using assms(2,4) unfolding s'(1) by (auto simp: ascii_def of_char_def)
  then show ?thesis using s'(2) by blast
qed

lemma char_written_update_out [simp]: "char_written (update_out st) = char_written st"
  by (simp add: update_out_def Let_def)

lemma screen_ok_update_out: "screen_ok st \<Longrightarrow> screen_ok (update_out st)"
  by (auto simp: screen_ok_def update_out_def Let_def)

lemma writef_ok:
  assumes ok: "screen_ok st" and fmt: "string_at mem fmt s" "widths_fit PRINTF_STATE_PRINT 0 s"
  shows "\<exists>st1 st'. writef mem st fmt argp = Some (st', char_written st') \<and> console_ok st st1 \<and>
    st' = update_out st1"
proof -
  have z: "has_zero mem" using fmt(1) by (rule string_has_zero)
  let ?log = "has_prefix mem fmt ''[LOG]''" and ?debug = "has_prefix mem fmt ''[DEBUG]''"
  let ?error = "has_prefix mem fmt ''[ERROR]''"
  let ?fmt = "if ?log then fmt + 5 else if ?debug \<or> ?error then fmt + 7 else fmt"
  let ?p = "if \<not> g_enable_echo st then '''' else if ?log then ''(KERNEL): ''
    else if ?debug then ''(KERNEL) DEBUG: '' else if ?error then ''(KERNEL) ERROR: '' else ''''"
  obtain st1 where 1: "put_chars (ascii ?p) st = Some st1" "console_ok st st1" using put_chars_ok [OF ok] by blast
  then have k1: "console_ok st (st1\<lparr>char_written := 0\<rparr>)" "screen_ok (st1\<lparr>char_written := 0\<rparr>)"
    by (auto simp: console_ok_def keeps_printed_def)
  obtain s' where "string_at mem ?fmt s'" "widths_fit PRINTF_STATE_PRINT 0 s'"
  proof -
    have p: "has_prefix mem fmt t \<Longrightarrow> t \<in> {''[LOG]'', ''[DEBUG]'', ''[ERROR]''} \<Longrightarrow>
        \<exists>s'. string_at mem (fmt + word_of_nat (length t)) s' \<and> widths_fit PRINTF_STATE_PRINT 0 s'" for t
      by (rule behind_prefix [OF fmt])
    have "\<exists>s'. string_at mem ?fmt s' \<and> widths_fit PRINTF_STATE_PRINT 0 s'"
      using fmt p [of "''[LOG]''"] p [of "''[DEBUG]''"] p [of "''[ERROR]''"] by (simp split: if_split) blast
    then show thesis using that by blast
  qed
  from writef_loop_ok [OF z this(1) k1(2) this(2), of argp False] obtain st2 l where
    2: "writef_loop mem ?fmt (st1\<lparr>char_written := 0\<rparr>, argp, PRINTF_STATE_PRINT, False, 0) = Some (st2, l)"
      "console_ok (st1\<lparr>char_written := 0\<rparr>) st2"
    by blast
  have k2: "console_ok st st2" using console_ok_trans [OF k1(1) 2(2)] .
  obtain st3 where 3: "(if ?log \<or> ?debug \<or> ?error then putc st2 10 else Some st2) = Some st3" "console_ok st st3"
  proof (cases "?log \<or> ?debug \<or> ?error")
    case True
    have "screen_ok st2" using k2 by (simp add: console_ok_def)
    then obtain st3 where "putc st2 10 = Some st3" "console_ok st2 st3" using putc_ok by blast
    then show ?thesis using that [of st3] True console_ok_trans [OF k2] by simp
  next
    case False
    then show ?thesis using that [of st2] k2 by simp
  qed
  have "writef mem st fmt argp = Some (update_out st3, char_written (update_out st3))"
    unfolding writef_def Let_def 1(1) Option.bind.bind_lunit 2(1) prod.case 3(1) by (rule refl)
  then show ?thesis using 3(2) by blast
qed

section \<open>The contracts of formatted output\<close>

text \<open>C12: From a well-formed screen \<open>writef\<close> always returns, for all arguments and for every format
  whose minimal widths fit an \<open>int\<close>, with both cursors on the screen; it never touches memory
  outside the text window, and before it moves the output cursor, everything printed earlier
  is still there, up to scrolling. With a width that does not fit, like that of
  \<open>%10000000000X\<close>, \<open>min_digit\<close> overflows.\<close>

theorem writef_returns:
  assumes "screen_ok st" "string_at mem fmt s" "widths_fit PRINTF_STATE_PRINT 0 s"
  shows "\<exists>st1 n. writef mem st fmt argp = Some (update_out st1, char_written st1) \<and>
    screen_ok (update_out st1) \<and> keeps_printed n st st1"
proof -
  obtain st1 where "writef mem st fmt argp = Some (update_out st1, char_written (update_out st1))" "console_ok st st1"
    using writef_ok [OF assms] by blast
  moreover from this(2) obtain n where "screen_ok st1" "keeps_printed n st st1" by (auto simp: console_ok_def)
  ultimately show ?thesis using screen_ok_update_out [of st1] by auto
qed

text \<open>The width that overflows: the digits of \<open>%10000000000X\<close> behind the percent sign.\<close>

lemma width_overflows:
  "\<not> widths_fit PRINTF_STATE_PRINT 0 [37, 49, 48, 48, 48, 48, 48, 48, 48, 48, 48, 48, 88]"
  "widths_fit PRINTF_STATE_PRINT 0 [37, 49, 48, 48, 48, 48, 48, 48, 48, 48, 48, 88]"
  by (simp_all add: times_ten_def)

text \<open>C13: \<open>printf_number\<close> prints the number that is in memory at \<open>argp\<close>: of a signed argument the
  minus sign exactly when it is negative, and its absolute value, of an unsigned one the value;
  the digits are those of the number in the radix, the most significant first, behind as many
  zeros as the minimal width asks for, and read back in that radix they give the number.
  (\<open>INT_MIN\<close> as a signed argument, whose negation overflows, is left out.)\<close>

theorem printf_number_correct:
  assumes r: "radix = 8 \<or> radix = 10 \<or> radix = 16" and no: "sign \<Longrightarrow> load32 mem argp \<noteq> 0x80000000"
  defines "w \<equiv> load32 mem argp"
  defines "negative \<equiv> sign \<and> sint w < 0" and "n \<equiv> (if sign then nat \<bar>sint w\<bar> else unat w)"
  shows "printf_number mem st argp sign radix up long_t md = put_chars
      (replicate (nat (md - int (length (digits radix n)))) 48 @ (if negative then [45] else []) @
       map ((!) (number_chars up)) (digits radix n)) st \<and>
    foldl (\<lambda>a d. a * radix + d) 0 (digits radix n) = n \<and> (\<forall>d \<in> set (digits radix n). d < radix)"
proof -
  obtain number where number: "number_of_arg w sign long_t = (negative, number)" "unat number = n"
    using number_of_arg_value [of sign w long_t] no unfolding w_def negative_def n_def by blast
  have "printf_number mem st argp sign radix up long_t md = put_chars (number_text radix up md negative n) st"
    using printf_number_text [OF r number(1) [unfolded w_def]] unfolding number(2) .
  then show ?thesis unfolding number_text_def
  proof (intro conjI)
    have r2: "2 \<le> radix" using r by auto
    show "foldl (\<lambda>a d. a * radix + d) 0 (digits radix n) = n" by (rule digits_value [OF r2])
    show "\<forall>d \<in> set (digits radix n). d < radix" using digits_less [OF r2] by blast
  qed
qed

text \<open>A format without conversions, as text.\<close>

lemma writef_loop_text:
  "string_at mem fmt s \<Longrightarrow> 37 \<notin> set s \<Longrightarrow>
    writef_loop mem fmt (st, argp, PRINTF_STATE_PRINT, False, 0) =
      map_option (\<lambda>st'. (st', argp, PRINTF_STATE_PRINT, False, 0)) (put_chars s st)"
proof (induction s arbitrary: fmt st)
  case Nil
  then show ?case by (subst writef_loop.simps) (simp add: put_chars_def)
next
  case (Cons c s)
  then show ?case
    by (subst writef_loop.simps) (cases "putc st (sint c)"; simp add: writef_step_def put_chars_def)
qed

lemma bytes_at_string: "string_at mem a s \<Longrightarrow> n \<le> length s \<Longrightarrow> bytes_at mem a n = take n s"
proof (induction s arbitrary: a n)
  case (Cons c s)
  then show ?case by (cases n) auto
qed simp

text \<open>A string that does not start with a bracket has none of the three prefixes.\<close>

lemma no_prefix: "mem fmt \<noteq> 91 \<Longrightarrow> t \<in> {''[LOG]'', ''[DEBUG]'', ''[ERROR]''} \<Longrightarrow> \<not> has_prefix mem fmt t"
  by (auto simp: has_prefix_def ascii_def split: if_splits)

text \<open>\<open>writef\<close> of a text without conversions and without a log prefix prints exactly the
  characters of the text, once each and in order, reads no argument, and returns the number
  of characters \<open>putc\<close> counted.\<close>

theorem writef_plain_text:
  assumes s: "string_at mem fmt s" and plain: "37 \<notin> set s" "mem fmt \<noteq> 91" and ok: "screen_ok st"
  shows "\<exists>st'. put_chars s (st\<lparr>char_written := 0\<rparr>) = Some st' \<and>
    writef mem st fmt argp = Some (update_out st', char_written st')"
proof -
  obtain st' where st': "put_chars s (st\<lparr>char_written := 0\<rparr>) = Some st'"
    using put_chars_ok [of "st\<lparr>char_written := 0\<rparr>" s] ok by auto
  have "\<not> has_prefix mem fmt ''[LOG]''" "\<not> has_prefix mem fmt ''[DEBUG]''" "\<not> has_prefix mem fmt ''[ERROR]''"
    using no_prefix [of mem fmt] plain(2) by auto
  then have "writef mem st fmt argp = Some (update_out st', char_written st')"
    using writef_loop_text [OF s plain(1), of "st\<lparr>char_written := 0\<rparr>" argp] st'
    by (simp add: writef_def Let_def ascii_def put_chars_def)
  then show ?thesis using st' by blast
qed

lemma writef_loop_next:
  "mem fmt = c \<Longrightarrow> c \<noteq> 0 \<Longrightarrow> writef_step mem c s = Some s' \<Longrightarrow> writef_loop mem fmt s = writef_loop mem (fmt + 1) s'"
  by (subst writef_loop.simps) simp

text \<open>\<open>%%\<close> uses up an argument: in \<open>"%%%u"\<close> the number printed behind the percent sign is the
  second argument, not the first.\<close>

theorem writef_percent_skips_argument:
  assumes s: "string_at mem fmt [37, 37, 37, 117]" and ok: "screen_ok st"
  shows "\<exists>st1 st2. putc (st\<lparr>char_written := 0\<rparr>) 37 = Some st1 \<and>
    put_chars (number_text 10 True 0 False (unat (load32 mem (argp + 4)))) st1 = Some st2 \<and>
    writef mem st fmt argp = Some (update_out st2, char_written st2)"
proof -
  obtain st1 where 1: "putc (st\<lparr>char_written := 0\<rparr>) 37 = Some st1" "screen_ok st1"
    using putc_ok [of "st\<lparr>char_written := 0\<rparr>" 37] ok by (auto simp: console_ok_def)
  let ?w = "load32 mem (argp + 4)"
  have arg: "number_of_arg ?w False False = (False, ucast ?w)" by (simp add: number_of_arg_def)
  have u: "unat (ucast ?w :: u64) = unat ?w" using unat_u32_less [of ?w] by (simp add: unsigned_ucast_eq take_bit_eq_mod)
  obtain st2 where 2: "put_chars (number_text 10 True 0 False (unat ?w)) st1 = Some st2"
    using put_chars_ok [OF 1(2)] by blast
  then have n: "printf_number mem st1 (argp + 4) False 10 True False 0 = Some st2"
    using printf_number_text [OF _ arg, of 10 st1 True 0] u by simp
  have m: "mem fmt = 37" "mem (fmt + 1) = 37" "mem (fmt + 2) = 37" "mem (fmt + 3) = 117" "mem (fmt + 4) = 0"
    using s by (simp_all add: add.assoc)
  have step: "writef_step mem 37 (st\<lparr>char_written := 0\<rparr>, argp, PRINTF_STATE_PRINT, False, 0) =
      Some (st\<lparr>char_written := 0\<rparr>, argp, PRINTF_STATE_SPECIFIER, False, 0)"
    "writef_step mem 37 (st\<lparr>char_written := 0\<rparr>, argp, PRINTF_STATE_SPECIFIER, False, 0) =
      Some (st1, argp + 4, PRINTF_STATE_PRINT, False, 0)"
    "writef_step mem 37 (st1, argp + 4, PRINTF_STATE_PRINT, False, 0) =
      Some (st1, argp + 4, PRINTF_STATE_SPECIFIER, False, 0)"
    "writef_step mem 117 (st1, argp + 4, PRINTF_STATE_SPECIFIER, False, 0) =
      Some (st2, argp + 8, PRINTF_STATE_PRINT, False, 0)"
    using 1(1) n by (simp_all add: writef_step_def next_arg_def Let_def add.assoc)
  have "writef_loop mem fmt (st\<lparr>char_written := 0\<rparr>, argp, PRINTF_STATE_PRINT, False, 0) =
      writef_loop mem (fmt + 4) (st2, argp + 8, PRINTF_STATE_PRINT, False, 0)"
    using writef_loop_next [OF m(1) _ step(1)] writef_loop_next [OF m(2) _ step(2)]
      writef_loop_next [OF m(3) _ step(3)] writef_loop_next [OF m(4) _ step(4)]
    by (simp add: add.assoc)
  also have "\<dots> = Some (st2, argp + 8, PRINTF_STATE_PRINT, False, 0)"
    using m(5) by (subst writef_loop.simps) simp
  finally have "writef_loop mem fmt (st\<lparr>char_written := 0\<rparr>, argp, PRINTF_STATE_PRINT, False, 0) =
      Some (st2, argp + 8, PRINTF_STATE_PRINT, False, 0)" .
  moreover have "\<not> has_prefix mem fmt ''[LOG]''" "\<not> has_prefix mem fmt ''[DEBUG]''" "\<not> has_prefix mem fmt ''[ERROR]''"
    using no_prefix [of mem fmt] m(1) by auto
  ultimately have "writef mem st fmt argp = Some (update_out st2, char_written st2)"
    by (simp add: writef_def Let_def ascii_def put_chars_def)
  then show ?thesis using 1(1) 2 by blast
qed

section \<open>Examples\<close>

text \<open>\<open>%05u\<close>, with the argument at 0x20.\<close>

lemma writef_returns_witness:
  "\<exists>st1 n. writef (\<lambda>a. if a = 0x10 then 37 else if a = 0x11 then 48 else if a = 0x12 then 53 else if a = 0x13 then 117 else 0)
      blank_screen 0x10 0x20 = Some (update_out st1, char_written st1) \<and>
    screen_ok (update_out st1) \<and> keeps_printed n blank_screen st1"
  by (rule writef_returns [where s = "[37, 48, 53, 117]"]) (simp_all add: blank_screen_ok times_ten_def)

lemma printf_number_correct_witness:
  "printf_number (\<lambda>a. if a = 0x20 then 0xD6 else if 0x20 < a \<and> a < 0x24 then 0xFF else 0) blank_screen 0x20 True 10 True False 4 =
    put_chars [48, 48, 45, 52, 50] blank_screen"
proof -
  let ?m = "\<lambda>a :: u32. if a = 0x20 then 0xD6 else if 0x20 < a \<and> a < 0x24 then 0xFF else (0 :: u8)"
  have w: "load32 ?m 0x20 = 0xFFFFFFD6" by (simp add: load32_def)
  have d: "digits 10 42 = [4, 2]" by (simp add: digits.simps)
  have "map ((!) (number_chars True)) [4, 2] = [52, 50]" by (simp add: number_chars_def numeral_eq_Suc of_char_def)
  then show ?thesis
    using printf_number_correct [of 10 True ?m "0x20" blank_screen True False 4] unfolding w
    by (simp add: d) (simp add: numeral_eq_Suc)
qed

lemma writef_plain_text_witness:
  "\<exists>st'. put_chars [72, 105] blank_screen = Some st' \<and>
    writef (\<lambda>a. if a = 0x10 then 72 else if a = 0x11 then 105 else 0) blank_screen 0x10 0x20 =
      Some (update_out st', char_written st')"
  using writef_plain_text [of "\<lambda>a. if a = 0x10 then 72 else if a = 0x11 then 105 else 0" "0x10" "[72, 105]" blank_screen "0x20"]
    blank_screen_ok by (simp add: blank_screen_def)

lemma writef_percent_skips_argument_witness:
  "\<exists>st1 st2. put_chars (number_text 10 True 0 False 7) st1 = Some st2 \<and>
    writef (\<lambda>a. if a < 3 then 37 else if a = 3 then 117 else if a = 0x20 then 5 else if a = 0x24 then 7 else 0)
      blank_screen 0 0x20 = Some (update_out st2, char_written st2)"
proof -
  let ?m = "\<lambda>a :: u32. if a < 3 then 37 else if a = 3 then 117 else if a = 0x20 then 5 else if a = 0x24 then 7 else (0 :: u8)"
  have "load32 ?m (0x20 + 4) = 7" by (simp add: load32_def)
  moreover have "string_at ?m 0 [37, 37, 37, 117]" by simp
  ultimately show ?thesis using writef_percent_skips_argument [of ?m 0 blank_screen "0x20"] blank_screen_ok by auto
qed

end
