(* ===== verification/Keyboard.thy ===== *)
theory Keyboard
  imports Printf
begin

text \<open>
  The keyboard and the input side of the console: the interrupt handler with its tables of
  scan codes (\<open>kernel/hal/handler.c\<close>), the listener that echoes keys (\<open>kernel/main.c\<close>), and
  \<open>readf\<close>/\<open>scanf\<close> (\<open>kernel/include/stdio.c\<close>), which wait for keyboard interrupts. The only
  listener the kernel registers is \<open>keyboard_listener\<close>, so the function pointer is a flag.
\<close>

section \<open>Keys\<close>

definition KEY_LSHIFT :: int where "KEY_LSHIFT = 0x80"
definition KEY_RSHIFT :: int where "KEY_RSHIFT = 0x81"
definition KEY_CAPS :: int where "KEY_CAPS = 0x82"
definition KEY_CTRL :: int where "KEY_CTRL = 0x83"
definition KEY_ALT :: int where "KEY_ALT = 0x84"
definition KEY_ESC :: int where "KEY_ESC = 0x1B"
definition KEY_DELETE :: int where "KEY_DELETE = 0x7F"
definition KEY_PAGE_UP :: int where "KEY_PAGE_UP = 0x8C"
definition KEY_PAGE_DOWN :: int where "KEY_PAGE_DOWN = 0x8D"
definition KEY_F1 :: int where "KEY_F1 = 0x8E"
definition KEY_F2 :: int where "KEY_F2 = 0x8F"
definition KEY_F3 :: int where "KEY_F3 = 0x90"
definition KEY_F4 :: int where "KEY_F4 = 0x91"
definition KEY_F5 :: int where "KEY_F5 = 0x92"
definition KEY_F6 :: int where "KEY_F6 = 0x93"
definition KEY_F7 :: int where "KEY_F7 = 0x94"
definition KEY_F8 :: int where "KEY_F8 = 0x95"
definition KEY_F9 :: int where "KEY_F9 = 0x96"
definition KEY_F10 :: int where "KEY_F10 = 0x97"
definition KEY_F11 :: int where "KEY_F11 = 0x98"
definition KEY_F12 :: int where "KEY_F12 = 0x99"

lemmas more_key_consts = key_consts KEY_LSHIFT_def KEY_RSHIFT_def KEY_CAPS_def KEY_CTRL_def KEY_ALT_def
  KEY_ESC_def KEY_DELETE_def KEY_PAGE_UP_def KEY_PAGE_DOWN_def KEY_F1_def KEY_F2_def KEY_F3_def
  KEY_F4_def KEY_F5_def KEY_F6_def KEY_F7_def KEY_F8_def KEY_F9_def KEY_F10_def KEY_F11_def KEY_F12_def

definition isnotchar :: "int \<Rightarrow> bool" where
  "isnotchar ch \<longleftrightarrow> ch = KEY_LSHIFT \<or> ch = KEY_RSHIFT \<or> ch = KEY_CAPS \<or> ch = KEY_CTRL \<or> ch = KEY_ALT \<or>
     ch = KEY_ESC \<or> ch = KEY_DELETE \<or> ch = KEY_PAGE_UP \<or> ch = KEY_PAGE_DOWN \<or> ch = KEY_F1 \<or>
     ch = KEY_F2 \<or> ch = KEY_F3 \<or> ch = KEY_F4 \<or> ch = KEY_F5 \<or> ch = KEY_F6 \<or>
     ch = KEY_F7 \<or> ch = KEY_F8 \<or> ch = KEY_F9 \<or> ch = KEY_F10 \<or> ch = KEY_F11 \<or>
     ch = KEY_F12 \<or> ch = KEY_UP \<or> ch = KEY_DOWN \<or> ch = KEY_LEFT \<or> ch = KEY_RIGHT"

text \<open>Characters are written as their codes; the entries that are not given are zero.\<close>

definition us_keyboard_down :: "int list" where
  "us_keyboard_down = [
    0, KEY_ESC, 49, 50, 51, 52, 53, 54,
    55, 56, 57, 48, 45, 61, KEY_BACKSPACE, 9,
    113, 119, 101, 114, 116, 121, 117, 105,
    111, 112, 91, 93, 10, KEY_CTRL, 97, 115,
    100, 102, 103, 104, 106, 107, 108, 59,
    39, 96, KEY_LSHIFT, 92, 122, 120, 99, 118,
    98, 110, 109, 44, 46, 47, KEY_RSHIFT, 42,
    KEY_ALT, 32, KEY_CAPS, KEY_F1, KEY_F2, KEY_F3, KEY_F4, KEY_F5,
    KEY_F6, KEY_F7, KEY_F8, KEY_F9, KEY_F10, 0, 0, 55,
    KEY_UP, KEY_PAGE_UP, 45, KEY_LEFT, 53, KEY_RIGHT, 43, 49,
    KEY_DOWN, KEY_PAGE_DOWN, 48, 46, KEY_DELETE, 0, 0, KEY_F11,
    KEY_F12] @ replicate (256 - 89) 0"

definition us_keyboard_up :: "int list" where
  "us_keyboard_up = [
    0, KEY_ESC, 33, 64, 35, 36, 37, 94,
    38, 42, 40, 41, 95, 43, KEY_BACKSPACE, 9,
    81, 87, 69, 82, 84, 89, 85, 73,
    79, 80, 123, 125, 10, KEY_CTRL, 65, 83,
    68, 70, 71, 72, 74, 75, 76, 58,
    34, 126, KEY_LSHIFT, 124, 90, 88, 67, 86,
    66, 78, 77, 60, 62, 63, KEY_RSHIFT, 42,
    KEY_ALT, 32, KEY_CAPS, KEY_F1, KEY_F2, KEY_F3, KEY_F4, KEY_F5,
    KEY_F6, KEY_F7, KEY_F8, KEY_F9, KEY_F10, 0, 0, 55,
    KEY_UP, KEY_PAGE_UP, 45, KEY_LEFT, 53, KEY_RIGHT, 43, 49,
    KEY_DOWN, KEY_PAGE_DOWN, 48, 46, KEY_DELETE, 0, 0, KEY_F11,
    KEY_F12] @ replicate (256 - 89) 0"

record KEY_STATE =
  caps_lock :: bool
  lshift :: bool
  rshift :: bool
  ctrl :: bool
  alt :: bool

record keyboard =
  g_key_state :: KEY_STATE
  g_last_keyboard_char :: int
  g_last_keyboard_up :: int
  g_keyboard_onpress_listener :: bool

section \<open>The interrupt\<close>

text \<open>The listener of \<open>main.c\<close>.\<close>

definition keyboard_listener :: "int \<Rightarrow> int \<Rightarrow> console \<Rightarrow> console option" where
  "keyboard_listener ch up con =
     (if ch = KEY_UP \<or> ch = KEY_DOWN \<or> ch = KEY_LEFT \<or> ch = KEY_RIGHT then
        (if up = 0 then putc con ch else Some con)
      else if isnotchar ch then Some con
      else if ch AND 0x80 = 0 \<and> up = 0 then putc con ch
      else Some con)"

text \<open>The \<open>switch\<close> over the key.\<close>

definition update_key_state :: "KEY_STATE \<Rightarrow> int \<Rightarrow> int \<Rightarrow> KEY_STATE" where
  "update_key_state ks ch up =
     (if ch = KEY_CAPS then
        let caps_on = \<not> (up \<noteq> 0 \<or> caps_lock ks);
            caps_off = (up = 0 \<and> caps_lock ks) in
        (if caps_on then ks\<lparr>caps_lock := True\<rparr>
         else if caps_off then ks\<lparr>caps_lock := False\<rparr> else ks)
      else if ch = KEY_LSHIFT then ks\<lparr>lshift := (up = 0)\<rparr>
      else if ch = KEY_RSHIFT then ks\<lparr>rshift := (up = 0)\<rparr>
      else if ch = KEY_CTRL then ks\<lparr>ctrl := (up = 0)\<rparr>
      else if ch = KEY_ALT then ks\<lparr>alt := (up = 0)\<rparr>
      else ks)"

text \<open>The byte read from the keyboard is \<open>scan\<close>.\<close>

definition hal_irq_keyboard :: "keyboard \<Rightarrow> console \<Rightarrow> u8 \<Rightarrow> (keyboard \<times> console) option" where
  "hal_irq_keyboard kbd con scan = do {
     let code = uint scan;
     let up = code AND 0x80;
     if code = 0 then Some (kbd, con)
     else do {
       let ks = g_key_state kbd;
       let table = (if (lshift ks \<or> rshift ks) \<noteq> caps_lock ks then us_keyboard_up else us_keyboard_down);
       ch \<leftarrow> aread_int table (code AND 0x7F);
       let kbd' = kbd\<lparr>g_key_state := update_key_state ks ch up,
         g_last_keyboard_char := ch, g_last_keyboard_up := up\<rparr>;
       con' \<leftarrow> (if g_keyboard_onpress_listener kbd' then keyboard_listener ch up con else Some con);
       Some (kbd', con')
     }
   }"

definition hal_keyboard_char :: "keyboard \<Rightarrow> int" where
  "hal_keyboard_char kbd = g_last_keyboard_char kbd"

definition hal_keyboard_up :: "keyboard \<Rightarrow> int" where
  "hal_keyboard_up kbd = g_last_keyboard_up kbd"

definition hal_keyboard_onpress :: "keyboard \<Rightarrow> keyboard" where
  "hal_keyboard_onpress kbd = kbd\<lparr>g_keyboard_onpress_listener := True\<rparr>"

section \<open>Waiting for a line\<close>

text \<open>
  The interrupts that wake the processor, in their order: \<open>Some scan\<close> is one of the keyboard,
  \<open>None\<close> another one. A wait that outlasts the list does not return.
\<close>

type_synonym events = "u8 option list"

text \<open>\<open>hal_wait_keyboard_interrupt\<close>; the flag is its result.\<close>

fun hal_wait_keyboard_interrupt ::
    "keyboard \<Rightarrow> console \<Rightarrow> events \<Rightarrow> (keyboard \<times> console \<times> events \<times> bool) option" where
  "hal_wait_keyboard_interrupt kbd con [] = None"
| "hal_wait_keyboard_interrupt kbd con (None # evs) = Some (kbd, con, evs, False)"
| "hal_wait_keyboard_interrupt kbd con (Some scan # evs) = do {
     (kbd', con') \<leftarrow> hal_irq_keyboard kbd con scan;
     Some (kbd', con', evs, True)
   }"

lemma wait_consumes:
  "hal_wait_keyboard_interrupt kbd con evs = Some (kbd', con', evs', k) \<Longrightarrow> length evs' < length evs"
  by (induction kbd con evs rule: hal_wait_keyboard_interrupt.induct) (auto simp: bind_Some_eq)

function wait_enter :: "keyboard \<Rightarrow> console \<Rightarrow> events \<Rightarrow> (keyboard \<times> console \<times> events) option" where
  "wait_enter kbd con evs =
     (case hal_wait_keyboard_interrupt kbd con evs of
        None \<Rightarrow> None
      | Some (kbd', con', evs', k) \<Rightarrow>
          if k \<and> hal_keyboard_up kbd' = 0 \<and> hal_keyboard_char kbd' = 10 then Some (kbd', con', evs')
          else wait_enter kbd' con' evs')"
  by pat_completeness auto
termination
  by (relation "measure (\<lambda>(kbd, con, evs). length evs)") (auto dest: wait_consumes)

declare wait_enter.simps [simp del]

section \<open>Reading input\<close>

text \<open>
  The locals of \<open>_read_console\<close>: the line buffer of \<open>readf\<close> (whose pointer is an index), its
  length \<open>buffer_index\<close>, the format and argument pointers, and the result.
\<close>

definition READ_BUFFER :: nat where "READ_BUFFER = nat (SCREEN_WIDTH * SCREEN_HEIGHT + 1)"

text \<open>The copy of one screen row: up to the end of the row or an empty cell.\<close>

fun copy_row :: "console \<Rightarrow> int \<Rightarrow> int list \<Rightarrow> u8 list \<times> nat \<Rightarrow> (u8 list \<times> nat) option" where
  "copy_row con y [] s = Some s"
| "copy_row con y (x # xs) (buffer, buffer_index) = do {
     c \<leftarrow> getc con x y;
     buffer' \<leftarrow> awrite buffer buffer_index c;
     if c = 0 then Some (buffer', buffer_index)
     else copy_row con y xs (buffer', buffer_index + 1)
   }"

text \<open>The first row is copied from the output cursor on, the others from their start.\<close>

definition copy_rows :: "console \<Rightarrow> u8 list \<Rightarrow> (u8 list \<times> nat) option" where
  "copy_rows con buffer = do {
     (buffer1, n) \<leftarrow> for_loop (\<lambda>y. copy_row con y
         [(if y = out_scr_y con then out_scr_x con else 0)..SCREEN_WIDTH - 1])
       [out_scr_y con..g_scr_y con - 1] (buffer, 0);
     buffer2 \<leftarrow> awrite buffer1 n 0;
     Some (buffer2, n)
   }"

text \<open>\<open>while (*buffer) if (*(buffer++) != ' ') break;\<close>\<close>

partial_function (option) skip_spaces :: "u8 list \<Rightarrow> nat \<Rightarrow> nat option" where
  "skip_spaces buffer pos = do {
     c \<leftarrow> aread buffer pos;
     if c = 0 then Some pos
     else if c \<noteq> 32 then Some (pos + 1)
     else skip_spaces buffer (pos + 1)
   }"

text \<open>The loop of \<open>%d\<close> and \<open>%u\<close>: position, the three flags and the number.\<close>

partial_function (option) scan_number ::
    "u8 list \<Rightarrow> nat \<Rightarrow> bool \<Rightarrow> bool \<Rightarrow> bool \<Rightarrow> u64 \<Rightarrow> (nat \<times> bool \<times> u64) option" where
  "scan_number buffer pos found_number negative positive number = do {
     c \<leftarrow> aread buffer pos;
     if c = 0 then Some (pos, negative, number)
     else if c = 32 then
       (if found_number then Some (pos, negative, number)
        else scan_number buffer (pos + 1) found_number negative positive number)
     else if \<not> negative \<and> c = 45 then scan_number buffer (pos + 1) found_number True positive number
     else if \<not> positive \<and> c = 43 then scan_number buffer (pos + 1) found_number negative True number
     else if isdigit (sint c) then
       scan_number buffer (pos + 1) True negative positive (number * 10 + (scast c - 48))
     else Some (pos, negative, number)
   }"

text \<open>
  A conversion stores through the pointers of its caller, a system call's included, which the
  code does not check. In the model the variables of the kernel and the screen are fields of
  their own and not bytes of the memory, so that a store into the kernel's image, which is linked
  at 0xC0000000 (\<open>KERNEL_VIRADR\<close>), or into the 4000 bytes at \<open>g_scr_buff\<close> has no value here.
\<close>

definition outside_kernel :: "u32 \<Rightarrow> nat \<Rightarrow> bool" where
  "outside_kernel p n \<longleftrightarrow> unat p + n \<le> 0xC0000000 \<and> (unat p + n \<le> 0xB8000 \<or> 0xB8FA0 \<le> unat p)"

text \<open>One conversion: the memory, the buffer position, the argument pointer and the count.\<close>

type_synonym scan_state = "memory \<times> nat \<times> u32 \<times> nat"

definition scan_string :: "u8 list \<Rightarrow> nat \<Rightarrow> scan_state \<Rightarrow> scan_state option" where
  "scan_string buffer buffer_index = (\<lambda>(mem, pos, argp, argcount). do {
     let buffer_end = pos + buffer_index + 1;
     pos1 \<leftarrow> skip_spaces buffer pos;
     let pos2 = pos1 - 1;
     if buffer_end \<le> length buffer \<and> outside_kernel (load32 mem argp) (buffer_end - pos2)
     then Some (fold (\<lambda>i m. m(load32 mem argp + word_of_nat i := buffer ! (pos2 + i))) [0..<buffer_end - pos2] mem,
       pos2, argp + 4, argcount + 1)
     else None
   })"

definition scan_int :: "u8 list \<Rightarrow> scan_state \<Rightarrow> scan_state option" where
  "scan_int buffer = (\<lambda>(mem, pos, argp, argcount). do {
     (pos', negative, number) \<leftarrow> scan_number buffer pos False False False 0;
     let number' = (if negative then - number else number);
     if outside_kernel (load32 mem argp) 4
     then Some (store32 mem (load32 mem argp) (ucast number'), pos', argp + 4, argcount + 1)
     else None
   })"

text \<open>\<open>while (*fmt && *buffer)\<close>; a \<open>%\<close> takes the character behind it as well, whatever it is.\<close>

partial_function (option) scan_loop :: "u8 list \<Rightarrow> nat \<Rightarrow> u32 \<Rightarrow> scan_state \<Rightarrow> (u32 \<times> scan_state) option" where
  "scan_loop buffer buffer_index fmt s =
     (case s of (mem, pos, argp, argcount) \<Rightarrow> do {
        c \<leftarrow> aread buffer pos;
        if mem fmt = 0 \<or> c = 0 then Some (fmt, s)
        else if mem fmt = 37 then do {
          let conv = mem (fmt + 1);
          s' \<leftarrow> (if conv = 115 then scan_string buffer buffer_index s
            else if conv = 100 \<or> conv = 117 then scan_int buffer s
            else Some s);
          scan_loop buffer buffer_index (fmt + 2) s'
        }
        else scan_loop buffer buffer_index (fmt + 1) s
      })"

definition input_done :: "console \<Rightarrow> console" where
  "input_done con =
     (let con1 = con\<lparr>out_scr_x := g_scr_x con, out_scr_y := g_scr_y con\<rparr> in
      if out_scr_x con1 < 0 then con1\<lparr>out_scr_x := SCREEN_WIDTH - 1, out_scr_y := out_scr_y con1 - 1\<rparr>
      else con1)"

record input =
  i_kbd :: keyboard
  i_con :: console
  i_mem :: memory
  i_events :: events

text \<open>
  \<open>_read_console(fmt, argp, argcount, _buffer)\<close>; it calls itself when the line ends before the
  format, and the result of that call is dropped.
\<close>

partial_function (option) read_console ::
    "input \<Rightarrow> u32 \<Rightarrow> u32 \<Rightarrow> nat \<Rightarrow> u8 list \<Rightarrow> (input \<times> nat) option" where
  "read_console st fmt argp argcount buffer0 = do {
     buffer1 \<leftarrow> awrite buffer0 0 0;
     (kbd, con, evs) \<leftarrow> wait_enter (i_kbd st) (i_con st) (i_events st);
     (buffer, buffer_index) \<leftarrow> copy_rows con buffer1;
     (fmt', (mem, pos, argp', argcount')) \<leftarrow> scan_loop buffer buffer_index fmt (i_mem st, 0, argp, argcount);
     let st' = \<lparr>i_kbd = kbd, i_con = input_done con, i_mem = mem, i_events = evs\<rparr>;
     if mem fmt' \<noteq> 0 then do {
       (st'', ignored) \<leftarrow> read_console st' fmt' argp' argcount' buffer;
       Some (st'', argcount')
     } else Some (st', argcount')
   }"

text \<open>The line buffer of \<open>readf\<close> is not initialised.\<close>

definition readf :: "input \<Rightarrow> u8 list \<Rightarrow> u32 \<Rightarrow> u32 \<Rightarrow> (input \<times> nat) option" where
  "readf st garbage fmt argp = read_console st fmt argp 0 (take READ_BUFFER garbage)"

end
