(* ===== verification/KeyboardCorrect.thy ===== *)
theory KeyboardCorrect
  imports Keyboard
begin

text \<open>
  Correctness of the keyboard: the state of the modifier keys after any sequence of scan codes,
  the wait for the end of a line, and numbers, which are read back as they are printed.
\<close>

section \<open>The tables\<close>

lemma length_tables [simp]: "length us_keyboard_down = 256" "length us_keyboard_up = 256"
  by (simp_all add: us_keyboard_down_def us_keyboard_up_def)

lemma table_modifiers_all:
  "\<forall>k \<in> set [0..<128]. \<forall>t \<in> {us_keyboard_down, us_keyboard_up}.
     (t ! k = KEY_CAPS \<longleftrightarrow> k = 58) \<and> (t ! k = KEY_LSHIFT \<longleftrightarrow> k = 42) \<and> (t ! k = KEY_RSHIFT \<longleftrightarrow> k = 54) \<and>
     (t ! k = KEY_CTRL \<longleftrightarrow> k = 29) \<and> (t ! k = KEY_ALT \<longleftrightarrow> k = 56) \<and> (t ! k = 10 \<longleftrightarrow> k = 28)"
  by code_simp

lemma table_modifiers:
  assumes "k < 128" "t = us_keyboard_down \<or> t = us_keyboard_up"
  shows "t ! k = KEY_CAPS \<longleftrightarrow> k = 58" "t ! k = KEY_LSHIFT \<longleftrightarrow> k = 42" "t ! k = KEY_RSHIFT \<longleftrightarrow> k = 54"
    "t ! k = KEY_CTRL \<longleftrightarrow> k = 29" "t ! k = KEY_ALT \<longleftrightarrow> k = 56" "t ! k = 10 \<longleftrightarrow> k = 28"
proof -
  have "k \<in> set [0..<128]" using assms(1) by simp
  then have all: "(t ! k = KEY_CAPS \<longleftrightarrow> k = 58) \<and> (t ! k = KEY_LSHIFT \<longleftrightarrow> k = 42) \<and> (t ! k = KEY_RSHIFT \<longleftrightarrow> k = 54) \<and>
     (t ! k = KEY_CTRL \<longleftrightarrow> k = 29) \<and> (t ! k = KEY_ALT \<longleftrightarrow> k = 56) \<and> (t ! k = 10 \<longleftrightarrow> k = 28)"
    using table_modifiers_all assms(2) by blast
  then show "t ! k = KEY_CAPS \<longleftrightarrow> k = 58" "t ! k = KEY_LSHIFT \<longleftrightarrow> k = 42" "t ! k = KEY_RSHIFT \<longleftrightarrow> k = 54"
    "t ! k = KEY_CTRL \<longleftrightarrow> k = 29" "t ! k = KEY_ALT \<longleftrightarrow> k = 56" "t ! k = 10 \<longleftrightarrow> k = 28" by blast+
qed

section \<open>One interrupt\<close>

text \<open>The key of a scan code, and whether it was pressed.\<close>

definition key_of :: "u8 \<Rightarrow> nat" where "key_of scan = unat scan mod 128"
definition pressed :: "u8 \<Rightarrow> bool" where "pressed scan \<longleftrightarrow> unat scan < 128"

lemma scan_bits:
  "uint (scan :: u8) AND 0x7F = int (key_of scan)" "uint scan AND 0x80 = 0 \<longleftrightarrow> pressed scan"
proof -
  have m: "(0x7F :: int) = mask 7" by (simp add: mask_eq_exp_minus_1)
  show "uint scan AND 0x7F = int (key_of scan)"
    unfolding m key_of_def by (simp add: take_bit_eq_mask [symmetric] take_bit_eq_mod zmod_int)
  have lt: "uint scan < 256" using unsigned_less [of scan] by simp
  have "uint scan AND 0x80 = 0 \<longleftrightarrow> \<not> bit (uint scan) 7"
    using and_exp_eq_0_iff_not_bit [of "uint scan" 7] by simp
  also have "\<dots> \<longleftrightarrow> even (uint scan div 128)" by (simp add: bit_iff_odd)
  also have "\<dots> \<longleftrightarrow> uint scan < 128"
  proof (cases "uint scan < 128")
    case False
    then have "uint scan div 128 = 1" using lt by (intro int_div_pos_eq [of _ 128 1 "uint scan - 128"]) auto
    then show ?thesis using False by simp
  qed simp
  also have "\<dots> \<longleftrightarrow> pressed scan" unfolding pressed_def uint_nat by linarith
  finally show "uint scan AND 0x80 = 0 \<longleftrightarrow> pressed scan" .
qed

lemma keyboard_listener_ok:
  "screen_ok con \<Longrightarrow> \<exists>con'. keyboard_listener ch up con = Some con' \<and> console_ok con con'"
  by (auto simp: keyboard_listener_def putc_ok console_ok_refl)

lemma hal_irq_keyboard_step:
  assumes "screen_ok con"
  shows "\<exists>kbd' con'. hal_irq_keyboard kbd con scan = Some (kbd', con') \<and> console_ok con con' \<and>
    g_keyboard_onpress_listener kbd' = g_keyboard_onpress_listener kbd \<and>
    (let ks = g_key_state kbd; ks' = g_key_state kbd' in
      caps_lock ks' = (caps_lock ks \<noteq> (key_of scan = 58 \<and> pressed scan)) \<and>
      lshift ks' = (if key_of scan = 42 then pressed scan else lshift ks) \<and>
      rshift ks' = (if key_of scan = 54 then pressed scan else rshift ks) \<and>
      ctrl ks' = (if key_of scan = 29 then pressed scan else ctrl ks) \<and>
      alt ks' = (if key_of scan = 56 then pressed scan else alt ks)) \<and>
    (key_of scan = 28 \<and> pressed scan \<longrightarrow> hal_keyboard_char kbd' = 10 \<and> hal_keyboard_up kbd' = 0)"
proof (cases "scan = 0")
  case True
  then show ?thesis using assms by (simp add: hal_irq_keyboard_def key_of_def console_ok_refl)
next
  case False
  then have code: "uint scan \<noteq> 0" by (simp add: uint_0_iff)
  let ?ks = "g_key_state kbd" and ?k = "key_of scan" and ?up = "uint scan AND 0x80"
  define t where "t = (if (lshift ?ks \<or> rshift ?ks) \<noteq> caps_lock ?ks then us_keyboard_up else us_keyboard_down)"
  let ?kbd = "kbd\<lparr>g_key_state := update_key_state ?ks (t ! ?k) ?up, g_last_keyboard_char := t ! ?k, g_last_keyboard_up := ?up\<rparr>"
  have k: "?k < 128" by (simp add: key_of_def)
  have t: "t = us_keyboard_down \<or> t = us_keyboard_up" by (simp add: t_def)
  then have "length t = 256" by auto
  then have ch: "aread_int t (uint scan AND 0x7F) = Some (t ! ?k)" using k unfolding scan_bits by simp
  have "\<exists>con'. (if g_keyboard_onpress_listener ?kbd then keyboard_listener (t ! ?k) ?up con else Some con) = Some con' \<and>
      console_ok con con'"
    by (cases "g_keyboard_onpress_listener ?kbd")
      (simp_all only: if_True if_False keyboard_listener_ok [OF assms] option.inject ex_simps simp_thms console_ok_refl [OF assms])
  then obtain con' where con': "(if g_keyboard_onpress_listener ?kbd then keyboard_listener (t ! ?k) ?up con else Some con) = Some con'"
    "console_ok con con'" by blast
  have run: "hal_irq_keyboard kbd con scan = Some (?kbd, con')"
    unfolding hal_irq_keyboard_def Let_def t_def [symmetric] ch
    by (simp only: code if_False Option.bind.simps con'(1))
  note m = table_modifiers [OF k t]
  have d: "KEY_LSHIFT \<noteq> KEY_CAPS" "KEY_RSHIFT \<noteq> KEY_CAPS" "KEY_CTRL \<noteq> KEY_CAPS" "KEY_ALT \<noteq> KEY_CAPS"
    by (simp_all add: more_key_consts)
  have st: "caps_lock (update_key_state ?ks (t ! ?k) ?up) = (caps_lock ?ks \<noteq> (?k = 58 \<and> pressed scan))"
    "lshift (update_key_state ?ks (t ! ?k) ?up) = (if ?k = 42 then pressed scan else lshift ?ks)"
    "rshift (update_key_state ?ks (t ! ?k) ?up) = (if ?k = 54 then pressed scan else rshift ?ks)"
    "ctrl (update_key_state ?ks (t ! ?k) ?up) = (if ?k = 29 then pressed scan else ctrl ?ks)"
    "alt (update_key_state ?ks (t ! ?k) ?up) = (if ?k = 56 then pressed scan else alt ?ks)"
    unfolding update_key_state_def scan_bits m Let_def by auto
  have enter: "?k = 28 \<and> pressed scan \<longrightarrow> t ! ?k = 10 \<and> ?up = 0" unfolding m(6) scan_bits(2) by blast
  show ?thesis
  proof (intro exI conjI)
    show "hal_irq_keyboard kbd con scan = Some (?kbd, con')" by (rule run)
    show "console_ok con con'" by (rule con'(2))
    show "let ks = ?ks; ks' = g_key_state ?kbd in
      caps_lock ks' = (caps_lock ks \<noteq> (?k = 58 \<and> pressed scan)) \<and>
      lshift ks' = (if ?k = 42 then pressed scan else lshift ks) \<and>
      rshift ks' = (if ?k = 54 then pressed scan else rshift ks) \<and>
      ctrl ks' = (if ?k = 29 then pressed scan else ctrl ks) \<and>
      alt ks' = (if ?k = 56 then pressed scan else alt ks)"
      unfolding Let_def using st by simp
    show "?k = 28 \<and> pressed scan \<longrightarrow> hal_keyboard_char ?kbd = 10 \<and> hal_keyboard_up ?kbd = 0"
      using enter by (simp add: hal_keyboard_char_def hal_keyboard_up_def)
  qed simp
qed

section \<open>Sequences of interrupts\<close>

fun keyboard_run :: "keyboard \<Rightarrow> console \<Rightarrow> u8 list \<Rightarrow> (keyboard \<times> console) option" where
  "keyboard_run kbd con [] = Some (kbd, con)"
| "keyboard_run kbd con (scan # scans) = do {
     (kbd', con') \<leftarrow> hal_irq_keyboard kbd con scan;
     keyboard_run kbd' con' scans
   }"

text \<open>Whether a key is down after some scan codes: what the last code of the key says.\<close>

definition key_down :: "nat \<Rightarrow> bool \<Rightarrow> u8 list \<Rightarrow> bool" where
  "key_down k init scans = (let es = filter (\<lambda>s. key_of s = k) scans in if es = [] then init else pressed (last es))"

lemma key_down_Cons: "key_down k init (s # scans) = key_down k (if key_of s = k then pressed s else init) scans"
  by (simp add: key_down_def Let_def)

definition presses :: "nat \<Rightarrow> u8 list \<Rightarrow> nat" where
  "presses k scans = length (filter (\<lambda>s. key_of s = k \<and> pressed s) scans)"

text \<open>After any sequence of keyboard interrupts, with the listener or without it, the handler
  has returned every time, the screen is well-formed and keeps what was printed, each of the
  shift, control and alt keys is recorded as down exactly if its last scan code was its
  press, and caps lock is toggled once for each press of its key.\<close>

theorem keyboard_tracks_modifiers:
  assumes "screen_ok con"
  shows "\<exists>kbd' con' n. keyboard_run kbd con scans = Some (kbd', con') \<and> screen_ok con' \<and> keeps_printed n con con' \<and>
    g_key_state kbd' = (let ks = g_key_state kbd in
      \<lparr>caps_lock = (caps_lock ks \<noteq> odd (presses 58 scans)), lshift = key_down 42 (lshift ks) scans,
       rshift = key_down 54 (rshift ks) scans, ctrl = key_down 29 (ctrl ks) scans, alt = key_down 56 (alt ks) scans\<rparr>)"
proof -
  have "\<exists>kbd' con'. keyboard_run kbd con scans = Some (kbd', con') \<and> console_ok con con' \<and>
    g_key_state kbd' = (let ks = g_key_state kbd in
      \<lparr>caps_lock = (caps_lock ks \<noteq> odd (presses 58 scans)), lshift = key_down 42 (lshift ks) scans,
       rshift = key_down 54 (rshift ks) scans, ctrl = key_down 29 (ctrl ks) scans, alt = key_down 56 (alt ks) scans\<rparr>)"
    using assms
  proof (induction scans arbitrary: kbd con)
    case Nil
    then show ?case by (simp add: console_ok_refl presses_def key_down_def Let_def)
  next
    case (Cons s scans)
    obtain kbd1 con1 where 1: "hal_irq_keyboard kbd con s = Some (kbd1, con1)" "console_ok con con1"
      "caps_lock (g_key_state kbd1) = (caps_lock (g_key_state kbd) \<noteq> (key_of s = 58 \<and> pressed s))"
      "lshift (g_key_state kbd1) = (if key_of s = 42 then pressed s else lshift (g_key_state kbd))"
      "rshift (g_key_state kbd1) = (if key_of s = 54 then pressed s else rshift (g_key_state kbd))"
      "ctrl (g_key_state kbd1) = (if key_of s = 29 then pressed s else ctrl (g_key_state kbd))"
      "alt (g_key_state kbd1) = (if key_of s = 56 then pressed s else alt (g_key_state kbd))"
      using hal_irq_keyboard_step [OF Cons.prems, of kbd s] unfolding Let_def by blast
    obtain kbd2 con2 where 2: "keyboard_run kbd1 con1 scans = Some (kbd2, con2)" "console_ok con1 con2"
      "g_key_state kbd2 = (let ks = g_key_state kbd1 in
        \<lparr>caps_lock = (caps_lock ks \<noteq> odd (presses 58 scans)), lshift = key_down 42 (lshift ks) scans,
         rshift = key_down 54 (rshift ks) scans, ctrl = key_down 29 (ctrl ks) scans, alt = key_down 56 (alt ks) scans\<rparr>)"
      using Cons.IH [of con1 kbd1] 1(2) by (auto simp: console_ok_def)
    have "presses 58 (s # scans) = (if key_of s = 58 \<and> pressed s then Suc (presses 58 scans) else presses 58 scans)"
      by (simp add: presses_def)
    then show ?case
      using 1 2 console_ok_trans by (auto simp: Let_def key_down_Cons)
  qed
  then show ?thesis by (auto simp: console_ok_def)
qed

text \<open>A wait for the end of the line returns at the first press of the enter key, if there is
  one among the interrupts that follow, whatever else is typed before and whatever the
  modifiers are.\<close>

theorem wait_enter_returns:
  assumes "screen_ok con" "Some scan \<in> set evs" "key_of scan = 28" "pressed scan"
  shows "\<exists>kbd' con' rest n. wait_enter kbd con evs = Some (kbd', con', rest) \<and> screen_ok con' \<and>
    keeps_printed n con con' \<and> hal_keyboard_char kbd' = 10 \<and> hal_keyboard_up kbd' = 0 \<and>
    (\<exists>used. evs = used @ rest \<and> used \<noteq> [])"
proof -
  have "\<exists>kbd' con' rest. wait_enter kbd con evs = Some (kbd', con', rest) \<and> console_ok con con' \<and>
    hal_keyboard_char kbd' = 10 \<and> hal_keyboard_up kbd' = 0 \<and> (\<exists>used. evs = used @ rest \<and> used \<noteq> [])"
    using assms(1,2)
  proof (induction evs arbitrary: kbd con)
    case (Cons e evs)
    show ?case
    proof (cases e)
      case None
      then obtain kbd' con' rest used where r: "wait_enter kbd con evs = Some (kbd', con', rest)" "console_ok con con'"
        "hal_keyboard_char kbd' = 10" "hal_keyboard_up kbd' = 0" "evs = used @ rest"
        using Cons.IH [OF Cons.prems(1), of kbd] Cons.prems(2) by fastforce
      have "wait_enter kbd con (e # evs) = wait_enter kbd con evs" using None by (subst wait_enter.simps) simp
      then show ?thesis using r by (auto intro!: exI [of _ "e # used"])
    next
      case (Some s)
      obtain kbd1 con1 where 1: "hal_irq_keyboard kbd con s = Some (kbd1, con1)" "console_ok con con1"
        "key_of s = 28 \<and> pressed s \<longrightarrow> hal_keyboard_char kbd1 = 10 \<and> hal_keyboard_up kbd1 = 0"
        using hal_irq_keyboard_step [OF Cons.prems(1), of kbd s] unfolding Let_def by blast
      show ?thesis
      proof (cases "hal_keyboard_up kbd1 = 0 \<and> hal_keyboard_char kbd1 = 10")
        case True
        then have "wait_enter kbd con (e # evs) = Some (kbd1, con1, evs)"
          using 1(1) Some by (subst wait_enter.simps) simp
        then show ?thesis using True 1(2) by (auto intro!: exI [of _ "[e]"])
      next
        case False
        then have w: "wait_enter kbd con (e # evs) = wait_enter kbd1 con1 evs"
          using 1(1) Some by (subst wait_enter.simps) auto
        have "s \<noteq> scan" using False 1(3) assms(3,4) by blast
        then have "Some scan \<in> set evs" using Cons.prems(2) Some by simp
        moreover have "screen_ok con1" using 1(2) by (simp add: console_ok_def)
        ultimately obtain kbd' con' rest used where r: "wait_enter kbd1 con1 evs = Some (kbd', con', rest)" "console_ok con1 con'"
          "hal_keyboard_char kbd' = 10" "hal_keyboard_up kbd' = 0" "evs = used @ rest"
          using Cons.IH [of con1 kbd1] by blast
        then show ?thesis using w console_ok_trans [OF 1(2) r(2)] by (auto intro!: exI [of _ "e # used"])
      qed
    qed
  qed simp
  then show ?thesis by (auto simp: console_ok_def)
qed

section \<open>Numbers are read back as they are printed\<close>

lemma digit_char:
  assumes "d < 10"
  shows "number_chars up ! d = word_of_nat (48 + d)" "isdigit (sint (word_of_nat (48 + d) :: u8))"
    "scast (word_of_nat (48 + d) :: u8) - 48 = (word_of_nat d :: u64)"
    "(word_of_nat (48 + d) :: u8) \<noteq> 0" "(word_of_nat (48 + d) :: u8) \<noteq> 32"
    "(word_of_nat (48 + d) :: u8) \<noteq> 45" "(word_of_nat (48 + d) :: u8) \<noteq> 43"
proof -
  have all: "\<forall>d \<in> set [0..<10]. number_chars up ! d = word_of_nat (48 + d) \<and> isdigit (sint (word_of_nat (48 + d) :: u8)) \<and>
    scast (word_of_nat (48 + d) :: u8) - 48 = (word_of_nat d :: u64) \<and> (word_of_nat (48 + d) :: u8) \<noteq> 0 \<and>
    (word_of_nat (48 + d) :: u8) \<noteq> 32 \<and> (word_of_nat (48 + d) :: u8) \<noteq> 45 \<and> (word_of_nat (48 + d) :: u8) \<noteq> 43"
    by (cases up) (simp_all add: upt_rec number_chars_def isdigit_def)
  have "d \<in> set [0..<10]" using assms by simp
  from bspec [OF all this]
  show "number_chars up ! d = word_of_nat (48 + d)" "isdigit (sint (word_of_nat (48 + d) :: u8))"
    "scast (word_of_nat (48 + d) :: u8) - 48 = (word_of_nat d :: u64)"
    "(word_of_nat (48 + d) :: u8) \<noteq> 0" "(word_of_nat (48 + d) :: u8) \<noteq> 32"
    "(word_of_nat (48 + d) :: u8) \<noteq> 45" "(word_of_nat (48 + d) :: u8) \<noteq> 43" by blast+
qed

lemma scan_digits:
  "\<forall>d \<in> set ds. d < 10 \<Longrightarrow>
    scan_number (pre @ map (\<lambda>d. word_of_nat (48 + d)) ds @ post) (length pre) f neg positive acc =
    scan_number (pre @ map (\<lambda>d. word_of_nat (48 + d)) ds @ post) (length pre + length ds) (f \<or> ds \<noteq> []) neg positive
      (foldl (\<lambda>a d. a * 10 + word_of_nat d) acc ds)"
proof (induction ds arbitrary: pre f acc)
  case (Cons d ds)
  have d: "d < 10" using Cons.prems by simp
  let ?b = "pre @ map (\<lambda>d. word_of_nat (48 + d)) (d # ds) @ post"
  have "scan_number ?b (length pre) f neg positive acc =
      scan_number ?b (length (pre @ [word_of_nat (48 + d)])) True neg positive (acc * 10 + word_of_nat d)"
    using digit_char [OF d] by (subst scan_number.simps) (simp add: nth_append)
  then show ?case using Cons.IH [of "pre @ [word_of_nat (48 + d)]" True "acc * 10 + word_of_nat d"] Cons.prems
    by (simp add: add.commute)
qed simp

lemma foldl_u64: "foldl (\<lambda>a d. a * 10 + word_of_nat d) (word_of_nat a :: u64) ds = word_of_nat (foldl (\<lambda>a d. a * 10 + d) a ds)"
proof (induction ds arbitrary: a)
  case (Cons d ds)
  show ?case using Cons.IH [of "a * 10 + d"] by simp
qed simp

lemma foldl_zeros: "foldl (\<lambda>a d. a * 10 + d) 0 (replicate k (0 :: nat)) = 0"
  by (induction k) auto

text \<open>A decimal number printed by \<open>printf_number\<close>, with its sign and its leading zeros, and
  followed by a space or the end of the line, is read back by \<open>%d\<close>: the sign is found, the
  number is the same, and the position is behind its last digit.\<close>

theorem number_read_back:
  assumes "buffer = pre @ number_text 10 up min_digit negative n @ c # post" "c = 0 \<or> c = 32"
  shows "scan_number buffer (length pre) False False False 0 =
    Some (length pre + length (number_text 10 up min_digit negative n), negative, word_of_nat n)"
proof -
  let ?k = "nat (min_digit - int (length (digits 10 n)))" and ?ds = "digits 10 n"
  let ?c = "\<lambda>d. word_of_nat (48 + d) :: u8" and ?s = "if negative then [45] else [] :: u8 list"
  have lt: "\<forall>d \<in> set ?ds. d < 10" using digits_less [of 10] by auto
  have ne: "?ds \<noteq> []" by (subst digits.simps) simp
  have nt: "number_text 10 up min_digit negative n = map ?c (replicate ?k 0) @ ?s @ map ?c ?ds"
    using lt digit_char(1) by (auto simp: number_text_def)
  let ?pre = "pre @ map ?c (replicate ?k 0) @ ?s"
  have b: "buffer = pre @ map ?c (replicate ?k 0) @ (?s @ map ?c ?ds @ c # post)" "buffer = ?pre @ map ?c ?ds @ c # post"
    using assms(1) nt by simp_all
  have "scan_number buffer (length pre) False False False 0 = scan_number buffer (length pre + ?k) (?k \<noteq> 0) False False 0"
    using scan_digits [of "replicate ?k 0" pre "?s @ map ?c ?ds @ c # post" False False False 0]
      foldl_u64 [of 0 "replicate ?k 0"] foldl_zeros [of ?k] unfolding b(1) by simp
  also have "\<dots> = scan_number buffer (length ?pre) (?k \<noteq> 0) negative False 0"
  proof (cases negative)
    case True
    then have "buffer ! (length pre + ?k) = 45" "length pre + ?k < length buffer" unfolding b(1) by (simp_all add: nth_append)
    then show ?thesis using True by (subst scan_number.simps) simp
  qed simp
  also have "\<dots> = scan_number buffer (length ?pre + length ?ds) True negative False (word_of_nat n)"
    using scan_digits [OF lt, of ?pre "c # post" "?k \<noteq> 0" negative False 0] foldl_u64 [of 0 ?ds] digits_value [of 10 n] ne
    unfolding b(2) by simp
  also have "\<dots> = Some (length ?pre + length ?ds, negative, word_of_nat n)"
  proof -
    have "aread buffer (length ?pre + length ?ds) = Some c" unfolding b(2) by (simp add: aread_def nth_append)
    then show ?thesis using assms(2) by (subst scan_number.simps) auto
  qed
  finally show ?thesis unfolding nt by simp
qed

section \<open>Examples\<close>

lemma keyboard_tracks_modifiers_witness:
  "\<exists>kbd' con'. keyboard_run \<lparr>g_key_state = \<lparr>caps_lock = False, lshift = False, rshift = False, ctrl = False, alt = False\<rparr>,
      g_last_keyboard_char = 0, g_last_keyboard_up = 0, g_keyboard_onpress_listener = True\<rparr> blank_screen [42, 30, 170, 58] = Some (kbd', con') \<and>
    caps_lock (g_key_state kbd') \<and> \<not> lshift (g_key_state kbd')"
  using keyboard_tracks_modifiers [OF blank_screen_ok, of _ "[42, 30, 170, 58]"]
  by (fastforce simp: Let_def presses_def key_down_def key_of_def pressed_def)

lemma wait_enter_returns_witness:
  "\<exists>kbd' con' rest. wait_enter \<lparr>g_key_state = \<lparr>caps_lock = False, lshift = False, rshift = False, ctrl = False, alt = False\<rparr>,
      g_last_keyboard_char = 0, g_last_keyboard_up = 0, g_keyboard_onpress_listener = True\<rparr> blank_screen [None, Some 30, Some 28] = Some (kbd', con', rest)"
  using wait_enter_returns [OF blank_screen_ok, of 28 "[None, Some 30, Some 28]"]
  by (simp add: key_of_def pressed_def) blast

lemma number_read_back_witness:
  "scan_number ([32] @ number_text 10 False 4 True 57 @ [0]) 1 False False False 0 =
    Some (1 + length (number_text 10 False 4 True 57), True, 57)"
  using number_read_back [of _ "[32]" False 4 True 57 0 "[]"] by simp

end
