(* ===== verification/Interrupts.thy ===== *)
theory Interrupts
  imports Descriptors Scheduler KeyboardCorrect
begin

text \<open>
  From the interrupt to its handler: the two interrupt controllers (\<open>kernel/arch/i686/pic.c\<close>),
  the dispatch of exceptions and interrupts (\<open>isr.c\<close>), the requests with their waits (\<open>irq.c\<close>)
  and the system calls (\<open>kernel/hal/handler.c\<close>), on one state that also holds the scheduler,
  the keyboard and the console. A function pointer is the name of the function, of which the
  kernel registers only a few. \<open>inb\<close> is what the ports give. Port writes and the kernel's own
  \<open>printf\<close> calls are recorded in order; theory \<open>Printf\<close> says what \<open>printf\<close> does with them.
\<close>

section \<open>The interrupt controllers\<close>

definition PIC1_CMD_PORT :: u16 where "PIC1_CMD_PORT = 0x20"
definition PIC1_DAT_PORT :: u16 where "PIC1_DAT_PORT = 0x21"
definition PIC2_CMD_PORT :: u16 where "PIC2_CMD_PORT = 0xA0"
definition PIC2_DAT_PORT :: u16 where "PIC2_DAT_PORT = 0xA1"
definition UNUSED_PORT :: u16 where "UNUSED_PORT = 0x80"
definition PIC_ICW1_ICW4 :: u8 where "PIC_ICW1_ICW4 = 0x01"
definition PIC_ICW1_INIT :: u8 where "PIC_ICW1_INIT = 0x10"
definition PIC_ICW4_8086 :: u8 where "PIC_ICW4_8086 = 0x1"
definition PIC_CMD_EOI :: u8 where "PIC_CMD_EOI = 0x20"
definition PIC_CMD_READ_IRR :: u8 where "PIC_CMD_READ_IRR = 0x0A"
definition PIC_CMD_READ_ISR :: u8 where "PIC_CMD_READ_ISR = 0x0B"

lemmas pic_ports = PIC1_CMD_PORT_def PIC1_DAT_PORT_def PIC2_CMD_PORT_def PIC2_DAT_PORT_def UNUSED_PORT_def
lemmas pic_values = PIC_ICW1_ICW4_def PIC_ICW1_INIT_def PIC_ICW4_8086_def PIC_CMD_EOI_def
  PIC_CMD_READ_IRR_def PIC_CMD_READ_ISR_def

text \<open>Each operation is the list of the port writes it makes.\<close>

type_synonym out = "u16 \<times> u8"

definition i686_io_wait :: "out list" where "i686_io_wait = [(UNUSED_PORT, 0)]"

definition i686_pic_config :: "u8 \<Rightarrow> u8 \<Rightarrow> out list" where
  "i686_pic_config pic1_offset pic2_offset =
     [(PIC1_CMD_PORT, PIC_ICW1_ICW4 OR PIC_ICW1_INIT)] @ i686_io_wait @
     [(PIC2_CMD_PORT, PIC_ICW1_ICW4 OR PIC_ICW1_INIT)] @ i686_io_wait @
     [(PIC1_DAT_PORT, pic1_offset)] @ i686_io_wait @
     [(PIC2_DAT_PORT, pic2_offset)] @ i686_io_wait @
     [(PIC1_DAT_PORT, 0x4)] @ i686_io_wait @
     [(PIC2_DAT_PORT, 0x2)] @ i686_io_wait @
     [(PIC1_DAT_PORT, PIC_ICW4_8086)] @ i686_io_wait @
     [(PIC2_DAT_PORT, PIC_ICW4_8086)] @ i686_io_wait @
     [(PIC1_DAT_PORT, 0)] @ i686_io_wait @
     [(PIC2_DAT_PORT, 0)] @ i686_io_wait"

definition i686_pic_disable :: "out list" where
  "i686_pic_disable = [(PIC1_DAT_PORT, 0xFF)] @ i686_io_wait @ [(PIC2_DAT_PORT, 0xFF)] @ i686_io_wait"

definition i686_pic_mask :: "(u16 \<Rightarrow> u8) \<Rightarrow> int \<Rightarrow> out list" where
  "i686_pic_mask inb irq =
     (let (port, line) = (if irq \<ge> 8 then (PIC2_DAT_PORT, irq - 8) else (PIC1_DAT_PORT, irq)) in
      [(port, inb port OR push_bit (nat line) 1)])"

definition i686_pic_unmask :: "(u16 \<Rightarrow> u8) \<Rightarrow> int \<Rightarrow> out list" where
  "i686_pic_unmask inb irq =
     (let (port, line) = (if irq \<ge> 8 then (PIC2_DAT_PORT, irq - 8) else (PIC1_DAT_PORT, irq)) in
      [(port, inb port AND NOT (push_bit (nat line) 1))])"

definition i686_pic_send_eoi :: "int \<Rightarrow> out list" where
  "i686_pic_send_eoi irq =
     (if irq \<ge> 8 then [(PIC2_CMD_PORT, PIC_CMD_EOI)] else []) @ [(PIC1_CMD_PORT, PIC_CMD_EOI)]"

text \<open>Both halves of the result come from the second controller, as the code has it.\<close>

definition i686_pic_read_irr :: "(u16 \<Rightarrow> u8) \<Rightarrow> out list \<times> u16" where
  "i686_pic_read_irr inb = ([(PIC1_CMD_PORT, PIC_CMD_READ_IRR), (PIC2_CMD_PORT, PIC_CMD_READ_IRR)],
     ucast (inb PIC2_CMD_PORT) OR push_bit 8 (ucast (inb PIC2_CMD_PORT)))"

definition i686_pic_read_isr :: "(u16 \<Rightarrow> u8) \<Rightarrow> out list \<times> u16" where
  "i686_pic_read_isr inb = ([(PIC1_CMD_PORT, PIC_CMD_READ_ISR), (PIC2_CMD_PORT, PIC_CMD_READ_ISR)],
     ucast (inb PIC2_CMD_PORT) OR push_bit 8 (ucast (inb PIC2_CMD_PORT)))"

section \<open>State\<close>

datatype isr_fn = Irq_handler | Isr_syscall
datatype irq_fn = Irq_idle | Irq_keyboard | Sleep_interrupt

record machine =
  idt :: "IDT_ENTRY list"
  isr_handlers :: "isr_fn option list"
  recent_intr :: u32
  is_keyboard_intr :: bool
  irq_handlers :: "irq_fn option list"
  preempt_handler :: bool
  idle_ticks :: u32
  ticks :: u32
  interrupt_called :: bool
  interrupt_called_ready :: bool
  old_handler :: "irq_fn option"
  sched :: scheduler
  kbd :: keyboard
  con :: console
  mem :: memory
  syscalls :: u32
  outs :: "out list"
  msgs :: "(string \<times> u32 list) list"
  panicked :: bool

text \<open>Interrupts that can still come while a system call waits, and its uninitialised buffer.\<close>

record environment =
  inb :: "u16 \<Rightarrow> u8"
  pending :: events
  garbage :: "u8 list"

definition put_outs :: "out list \<Rightarrow> machine \<Rightarrow> machine" where
  "put_outs os m = m\<lparr>outs := outs m @ os\<rparr>"

definition log_msg :: "string \<Rightarrow> u32 list \<Rightarrow> machine \<Rightarrow> machine" where
  "log_msg s args m = m\<lparr>msgs := msgs m @ [(s, args)]\<rparr>"

definition newline :: string where "newline = [CHR 0x0A]"

section \<open>Registration\<close>

definition i686_isr_reg_handler :: "machine \<Rightarrow> int \<Rightarrow> isr_fn \<Rightarrow> machine option" where
  "i686_isr_reg_handler m n handler = do {
     hs \<leftarrow> awrite_int (isr_handlers m) n (Some handler);
     idt' \<leftarrow> i686_idt_set_present_flag (idt m) n;
     Some (m\<lparr>isr_handlers := hs, idt := idt'\<rparr>)
   }"

definition i686_irq_reg_handler :: "machine \<Rightarrow> int \<Rightarrow> irq_fn option \<Rightarrow> machine option" where
  "i686_irq_reg_handler m irq handler =
     map_option (\<lambda>hs. m\<lparr>irq_handlers := hs\<rparr>) (awrite_int (irq_handlers m) irq handler)"

definition i686_preempt_handler :: "machine \<Rightarrow> machine" where
  "i686_preempt_handler m = m\<lparr>preempt_handler := True\<rparr>"

definition PIC_REMAP_OFFSET :: int where "PIC_REMAP_OFFSET = 0x20"

definition i686_irq_init :: "machine \<Rightarrow> machine option" where
  "i686_irq_init m = do {
     let m1 = put_outs (i686_pic_config (word_of_int PIC_REMAP_OFFSET) (word_of_int (PIC_REMAP_OFFSET + 8))) m;
     m2 \<leftarrow> for_loop (\<lambda>i m. i686_isr_reg_handler m (PIC_REMAP_OFFSET + i) Irq_handler) [0..15] m1;
     i686_irq_reg_handler m2 0 (Some Irq_idle)
   }"

text \<open>\<open>hal_init\<close>: the tables, the interrupts, the system calls and the keyboard.\<close>

definition hal_init :: "(nat \<Rightarrow> u32) \<Rightarrow> machine \<Rightarrow> machine option" where
  "hal_init isr m = do {
     let m0 = log_msg ''[LOG]Initialising Global Descriptor Table.'' [] m;
     let m1 = log_msg ''[LOG]Initialising Interrupt Service Routine.'' [] m0;
     idt' \<leftarrow> i686_isr_init isr (idt m1);
     m2 \<leftarrow> i686_isr_reg_handler (m1\<lparr>idt := idt'\<rparr>) 0x88 Isr_syscall;
     m3 \<leftarrow> i686_irq_init (log_msg ''[LOG]Initialising Interrupt Requests.'' [] m2);
     m4 \<leftarrow> i686_irq_reg_handler m3 1 (Some Irq_keyboard);
     Some (log_msg ''[LOG]Loading Instruction Descriptor Table.'' [] m4)
   }"

section \<open>System calls\<close>

definition syscall0 :: "machine \<Rightarrow> REGISTERS \<Rightarrow> machine option" where
  "syscall0 m r = do {
     let process_num = hal_current_process_num (sched m);
     a \<leftarrow> hal_process_attribute (sched m) process_num;
     s \<leftarrow> hal_remove_current_process (sched m);
     Some ((log_msg ((if a AND PROCESS_THREAD \<noteq> 0 then ''[LOG]Thread'' else ''[LOG]Process'') @ '' %i ended with exit code %i.'')
       [word_of_int process_num, ebx r] m)\<lparr>sched := s\<rparr>)
   }"

text \<open>
  The read call stores through the pointers the user program passes, unchecked and with the
  kernel's rights. Where one of them points into the kernel's image or the screen, \<open>readf\<close> has no
  value in the model (\<open>outside_kernel\<close>); a store into the kernel's stack or page tables, which the
  model does not hold, is not seen.
\<close>

definition syscall1 :: "environment \<Rightarrow> machine \<Rightarrow> REGISTERS \<Rightarrow> machine option" where
  "syscall1 env m r = do {
     (st, n) \<leftarrow> readf \<lparr>i_kbd = kbd m, i_con = con m, i_mem = mem m, i_events = pending env\<rparr> (garbage env) (ebx r) (ecx r);
     Some (m\<lparr>kbd := i_kbd st, con := i_con st, mem := i_mem st\<rparr>)
   }"

definition syscall2 :: "machine \<Rightarrow> REGISTERS \<Rightarrow> machine option" where
  "syscall2 m r = do {
     (c, n) \<leftarrow> writef (mem m) (con m) (ebx r) (ecx r);
     Some (m\<lparr>con := c\<rparr>)
   }"

definition syscall3 :: "machine \<Rightarrow> REGISTERS \<Rightarrow> machine option" where
  "syscall3 m r = map_option (\<lambda>s. m\<lparr>sched := s\<rparr>)
     (hal_set_sleep_tick (sched m) (hal_current_process_num (sched m)) (ebx r))"

definition hal_isr_syscall :: "environment \<Rightarrow> machine \<Rightarrow> REGISTERS \<Rightarrow> (machine \<times> REGISTERS) option" where
  "hal_isr_syscall env m r = do {
     m1 \<leftarrow> (if eax r = 0 then syscall0 m r
       else if eax r = 1 then syscall1 env m r
       else if eax r = 2 then syscall2 m r
       else if eax r = 3 then syscall3 m r
       else Some m);
     let m2 = m1\<lparr>syscalls := syscalls m1 + 1\<rparr>;
     if sint (syscalls m2) smod 140000 = 0
     then Some (log_msg ''[LOG]You have made a System Call. Congratz :D %i'' [eax r] m2, r\<lparr>ecx := 12030\<rparr>)
     else Some (m2, r)
   }"

section \<open>Dispatch\<close>

definition irq_idle :: "machine \<Rightarrow> REGISTERS \<Rightarrow> (machine \<times> REGISTERS) option" where
  "irq_idle m r = do {
     let m1 = m\<lparr>idle_ticks := idle_ticks m - 1, ticks := ticks m + 1\<rparr>;
     if preempt_handler m1 then do {
       (s, r', switched) \<leftarrow> preempt (sched m1) r (sint (ticks m1));
       let m2 = m1\<lparr>sched := s\<rparr>;
       Some (if switched then m2\<lparr>ticks := 0\<rparr> else m2, r')
     } else Some (m1, r)
   }"

definition sleep_interrupt_irq :: "machine \<Rightarrow> machine" where
  "sleep_interrupt_irq m = m\<lparr>interrupt_called := True\<rparr>"

fun call_irq :: "environment \<Rightarrow> irq_fn \<Rightarrow> machine \<Rightarrow> REGISTERS \<Rightarrow> (machine \<times> REGISTERS) option" where
  "call_irq env Irq_idle m r = irq_idle m r"
| "call_irq env Irq_keyboard m r = do {
     (k, c) \<leftarrow> hal_irq_keyboard (kbd m) (con m) (inb env 0x60);
     Some (m\<lparr>kbd := k, con := c\<rparr>, r)
   }"
| "call_irq env Sleep_interrupt m r = Some (sleep_interrupt_irq m, r)"

definition i686_irq_handler :: "environment \<Rightarrow> machine \<Rightarrow> REGISTERS \<Rightarrow> (machine \<times> REGISTERS) option" where
  "i686_irq_handler env m r = do {
     let irq = sint (intr r - word_of_int PIC_REMAP_OFFSET);
     let (os1, pic_isr) = i686_pic_read_isr (inb env);
     let (os2, pic_irr) = i686_pic_read_irr (inb env);
     let m1 = put_outs (os1 @ os2) m;
     h \<leftarrow> aread_int (irq_handlers m1) irq;
     (m2, r') \<leftarrow> (case h of
         Some f \<Rightarrow> call_irq env f m1 r
       | None \<Rightarrow> Some (log_msg (''[ERROR]Unhandled Exception %u'' @ newline @ ''ISR=0x%X   IRR=0x%X   ERR=0x%8X'' @ newline)
           [word_of_int irq, ucast (ucast pic_isr :: u8), ucast (ucast pic_irr :: u8), err r] m1, r));
     Some (put_outs (i686_pic_send_eoi irq) m2, r')
   }"

fun call_isr :: "environment \<Rightarrow> isr_fn \<Rightarrow> machine \<Rightarrow> REGISTERS \<Rightarrow> (machine \<times> REGISTERS) option" where
  "call_isr env Irq_handler m r = i686_irq_handler env m r"
| "call_isr env Isr_syscall m r = hal_isr_syscall env m r"

definition isr_exception_msg :: "string list" where
  "isr_exception_msg = [''division by zero'', ''debug exception'', ''non-maskable interrupt'', ''breakpoint'',
     ''number overflow'', ''out of bounds'', ''invalid opcode'', ''unavailable device'', ''double fault'',
     ''coprocessor segment overrun'', ''invalid TSS'', ''segment not present'', ''stack-segment fault'',
     ''general protection fault'', ''page fault'', '''', ''x87 floating-point exception'', ''alignment check'',
     ''machine check'', ''SIMD floating-point exception'', ''virtualisation exception'',
     ''control protection exception'', '''', '''', '''', '''', '''', '''', ''hypervisor injection exception'',
     ''VMM communication exception'', ''security exception'']"

definition i686_panic :: "machine \<Rightarrow> machine" where
  "i686_panic m = m\<lparr>panicked := True\<rparr>"

text \<open>The message of an exception is recorded with its text and the registers it prints.\<close>

definition i686_isr_handler :: "environment \<Rightarrow> machine \<Rightarrow> REGISTERS \<Rightarrow> (machine \<times> REGISTERS) option" where
  "i686_isr_handler env m r = do {
     let m1 = m\<lparr>recent_intr := intr r\<rparr>;
     let m2 = (if recent_intr m1 = 33 then m1\<lparr>is_keyboard_intr := True\<rparr> else m1);
     h \<leftarrow> aread (isr_handlers m2) (unat (intr r));
     (case h of
        Some f \<Rightarrow> call_isr env f m2 r
      | None \<Rightarrow>
          if intr r \<ge> 32 then Some (log_msg (''[ERROR]Unhandled Interrupt %u.'' @ newline) [intr r] m2, r)
          else do {
            text \<leftarrow> aread isr_exception_msg (unat (intr r));
            Some (i686_panic (log_msg (''[ERROR]Unhandled Exception: '' @ text)
              [intr r, err r, eax r, ebx r, ecx r, edx r, esi r, edi r, esp r, ebp r, eip r, eflags r,
               cr0 r, cr2 r, cr3 r, cr4 r, cs r, ds r, es r, fs r, gs r, ss r] m2), r)
          })
   }"

section \<open>Waiting\<close>

text \<open>
  A \<open>i686_halt\<close> ends with the next interrupt. An event is the environment and the registers of
  that interrupt; the code that waits is the kernel's, which looks at its condition again
  only when the scheduler returns to it. A wait that outlasts the events does not return.
\<close>

type_synonym occurrence = "environment \<times> REGISTERS"

fun wait_loop :: "(machine \<Rightarrow> bool) \<Rightarrow> machine \<Rightarrow> occurrence list \<Rightarrow> (machine \<times> occurrence list) option" where
  "wait_loop go_on m evs =
     (if cur_running_process (sched m) = -1 \<and> \<not> go_on m then Some (m, evs)
      else (case evs of
          [] \<Rightarrow> None
        | (env, r) # evs' \<Rightarrow> do {
            (m', r') \<leftarrow> i686_isr_handler env m r;
            wait_loop go_on m' evs'
          }))"

declare wait_loop.simps [simp del]

definition MS_PER_IDLE_TICK :: int where "MS_PER_IDLE_TICK = 50"

definition i686_sleep :: "machine \<Rightarrow> int \<Rightarrow> occurrence list \<Rightarrow> (machine \<times> occurrence list) option" where
  "i686_sleep m ms evs = wait_loop (\<lambda>m. sint (idle_ticks m) > 0)
     (m\<lparr>idle_ticks := word_of_int (ms sdiv MS_PER_IDLE_TICK)\<rparr>) evs"

definition i686_wait_ready :: "machine \<Rightarrow> int \<Rightarrow> machine option" where
  "i686_wait_ready m irq =
     (if interrupt_called_ready m then Some m
      else do {
        h \<leftarrow> aread_int (irq_handlers m) irq;
        i686_irq_reg_handler (m\<lparr>interrupt_called := False, interrupt_called_ready := True, old_handler := h\<rparr>)
          irq (Some Sleep_interrupt)
      })"

definition i686_wait_max_time :: "machine \<Rightarrow> int \<Rightarrow> int \<Rightarrow> occurrence list \<Rightarrow> (machine \<times> occurrence list) option" where
  "i686_wait_max_time m irq ms evs = do {
     m1 \<leftarrow> (if \<not> interrupt_called_ready m then i686_wait_ready m irq else Some m);
     (m2, rest) \<leftarrow> wait_loop (\<lambda>m. \<not> interrupt_called m \<and> (ms < 0 \<or> idle_ticks m \<noteq> 0))
       (m1\<lparr>idle_ticks := word_of_int (ms sdiv MS_PER_IDLE_TICK)\<rparr>) evs;
     m3 \<leftarrow> i686_irq_reg_handler (m2\<lparr>interrupt_called := False, interrupt_called_ready := False\<rparr>) irq (old_handler m2);
     Some (m3, rest)
   }"

definition i686_wait :: "machine \<Rightarrow> int \<Rightarrow> occurrence list \<Rightarrow> (machine \<times> occurrence list) option" where
  "i686_wait m irq evs = i686_wait_max_time m irq (-1) evs"

end
