(* ===== verification/InterruptsCorrect.thy ===== *)
theory InterruptsCorrect
  imports Interrupts
begin

text \<open>
  Correctness of the interrupts: what \<open>hal_init\<close> sets up, as the processor and the controllers
  see it, the handling of a hardware interrupt up to its acknowledgement, and the waits.
\<close>

section \<open>The controllers\<close>

text \<open>
  An 8259 controller as far as the kernel uses it: a command with bit 4 starts the
  initialisation, which takes the vector offset, the cascade and the mode from the data port;
  afterwards the data port is the mask of the eight lines.
\<close>

record pic8259 =
  p_expects :: nat
  p_offset :: u8
  p_cascade :: u8
  p_mode :: u8
  p_imr :: u8

definition pic_command :: "u8 \<Rightarrow> pic8259 \<Rightarrow> pic8259" where
  "pic_command v p = (if bit v 4 then p\<lparr>p_expects := 1, p_imr := 0\<rparr> else p)"

definition pic_data :: "u8 \<Rightarrow> pic8259 \<Rightarrow> pic8259" where
  "pic_data v p =
     (if p_expects p = 1 then p\<lparr>p_expects := 2, p_offset := v AND 0xF8\<rparr>
      else if p_expects p = 2 then p\<lparr>p_expects := 3, p_cascade := v\<rparr>
      else if p_expects p = 3 then p\<lparr>p_expects := 0, p_mode := v\<rparr>
      else p\<lparr>p_imr := v\<rparr>)"

fun pic_out :: "pic8259 \<times> pic8259 \<Rightarrow> out \<Rightarrow> pic8259 \<times> pic8259" where
  "pic_out (p1, p2) (port, v) =
     (if port = PIC1_CMD_PORT then (pic_command v p1, p2)
      else if port = PIC1_DAT_PORT then (pic_data v p1, p2)
      else if port = PIC2_CMD_PORT then (p1, pic_command v p2)
      else if port = PIC2_DAT_PORT then (p1, pic_data v p2)
      else (p1, p2))"

definition pic_run :: "out list \<Rightarrow> pic8259 \<times> pic8259 \<Rightarrow> pic8259 \<times> pic8259" where
  "pic_run os p = foldl pic_out p os"

lemma pic_run_append: "pic_run (os @ os') p = pic_run os' (pic_run os p)"
  by (simp add: pic_run_def)

lemma pic_config_run:
  "pic_run (i686_pic_config o1 o2) (p1, p2) =
    (\<lparr>p_expects = 0, p_offset = o1 AND 0xF8, p_cascade = 4, p_mode = 1, p_imr = 0\<rparr>,
     \<lparr>p_expects = 0, p_offset = o2 AND 0xF8, p_cascade = 2, p_mode = 1, p_imr = 0\<rparr>)"
  by (cases p1; cases p2)
    (simp add: pic_run_def i686_pic_config_def i686_io_wait_def pic_ports pic_values pic_command_def pic_data_def bit_numeral_word_iff)

text \<open>The vector of a line.\<close>

definition pic_vector :: "pic8259 \<times> pic8259 \<Rightarrow> nat \<Rightarrow> nat" where
  "pic_vector ps n = (if n < 8 then unat (p_offset (fst ps)) + n else unat (p_offset (snd ps)) + (n - 8))"

text \<open>Whether a line is masked.\<close>

definition pic_masked :: "pic8259 \<times> pic8259 \<Rightarrow> nat \<Rightarrow> bool" where
  "pic_masked ps n = (if n < 8 then bit (p_imr (fst ps)) n else bit (p_imr (snd ps)) (n - 8))"

definition pic_ready :: "pic8259 \<times> pic8259 \<Rightarrow> (u16 \<Rightarrow> u8) \<Rightarrow> bool" where
  "pic_ready ps inp \<longleftrightarrow> p_expects (fst ps) = 0 \<and> p_expects (snd ps) = 0 \<and>
     inp PIC1_DAT_PORT = p_imr (fst ps) \<and> inp PIC2_DAT_PORT = p_imr (snd ps)"

text \<open>Masking a line at initialised controllers masks this line and no other one, unmasking it
  likewise.\<close>

theorem pic_mask_one_line:
  assumes "pic_ready ps inp" "n < 16" "k < 16"
  shows "(pic_masked (pic_run (i686_pic_mask inp (int n)) ps) k \<longleftrightarrow> k = n \<or> pic_masked ps k) \<and>
    (pic_masked (pic_run (i686_pic_unmask inp (int n)) ps) k \<longleftrightarrow> k \<noteq> n \<and> pic_masked ps k)"
proof -
  obtain p1 p2 where ps: "ps = (p1, p2)" by (cases ps)
  have n: "nat (int n - 8) = n - 8" by simp
  have "pic_masked (pic_run (i686_pic_mask inp (int n)) ps) k \<longleftrightarrow> k = n \<or> pic_masked ps k"
    using assms by (cases "n < 8"; cases "k < 8")
      (auto simp: ps pic_run_def i686_pic_mask_def pic_ready_def pic_masked_def pic_data_def pic_ports n bit_or_iff bit_exp_iff)
  moreover have "pic_masked (pic_run (i686_pic_unmask inp (int n)) ps) k \<longleftrightarrow> k \<noteq> n \<and> pic_masked ps k"
    using assms by (cases "n < 8"; cases "k < 8")
      (auto simp: ps pic_run_def i686_pic_unmask_def pic_ready_def pic_masked_def pic_data_def pic_ports n bit_and_iff bit_not_iff bit_exp_iff)
  ultimately show ?thesis by blast
qed

lemma pic_mask_one_line_witness:
  "pic_masked (pic_run (i686_pic_mask (\<lambda>_. 0) 9) (pic_run (i686_pic_config 0x20 0x28)
     (\<lparr>p_expects = 0, p_offset = 0, p_cascade = 0, p_mode = 0, p_imr = 0xFF\<rparr>,
      \<lparr>p_expects = 0, p_offset = 0, p_cascade = 0, p_mode = 0, p_imr = 0xFF\<rparr>))) 9"
  using pic_mask_one_line [of "pic_run (i686_pic_config 0x20 0x28)
     (\<lparr>p_expects = 0, p_offset = 0, p_cascade = 0, p_mode = 0, p_imr = 0xFF\<rparr>,
      \<lparr>p_expects = 0, p_offset = 0, p_cascade = 0, p_mode = 0, p_imr = 0xFF\<rparr>)" "\<lambda>_. 0" 9 9]
  unfolding pic_config_run by (simp add: pic_ready_def)

section \<open>Initialisation\<close>

lemma put_outs_simps [simp]:
  "idt (put_outs os m) = idt m" "isr_handlers (put_outs os m) = isr_handlers m" "irq_handlers (put_outs os m) = irq_handlers m"
  "outs (put_outs os m) = outs m @ os" "sched (put_outs os m) = sched m" "con (put_outs os m) = con m"
  "kbd (put_outs os m) = kbd m" "preempt_handler (put_outs os m) = preempt_handler m" "idle_ticks (put_outs os m) = idle_ticks m"
  "ticks (put_outs os m) = ticks m" "interrupt_called (put_outs os m) = interrupt_called m"
  "interrupt_called_ready (put_outs os m) = interrupt_called_ready m" "old_handler (put_outs os m) = old_handler m"
  "mem (put_outs os m) = mem m"
  by (simp_all add: put_outs_def)

lemma log_msg_simps [simp]:
  "idt (log_msg x y m) = idt m" "isr_handlers (log_msg x y m) = isr_handlers m" "irq_handlers (log_msg x y m) = irq_handlers m"
  "outs (log_msg x y m) = outs m" "sched (log_msg x y m) = sched m" "con (log_msg x y m) = con m"
  "kbd (log_msg x y m) = kbd m" "preempt_handler (log_msg x y m) = preempt_handler m" "idle_ticks (log_msg x y m) = idle_ticks m"
  "ticks (log_msg x y m) = ticks m" "interrupt_called (log_msg x y m) = interrupt_called m"
  "interrupt_called_ready (log_msg x y m) = interrupt_called_ready m" "old_handler (log_msg x y m) = old_handler m"
  "mem (log_msg x y m) = mem m"
  by (simp_all add: log_msg_def)

lemma set_present_nth:
  assumes "length tab = 256" "n < 256"
  shows "i686_idt_set_present_flag tab (int n) = Some (tab[n := (tab ! n)\<lparr>i_flags := i_flags (tab ! n) OR IDT_FLAG_PRESENT\<rparr>])"
  using assms by (simp add: i686_idt_set_present_flag_def)

lemma gate_for_set_present:
  assumes "length tab = 256" "\<forall>k < 256. gate_for isr k (P k) (tab ! k)" "n < 256"
  shows "\<exists>tab'. i686_idt_set_present_flag tab (int n) = Some tab' \<and> length tab' = 256 \<and>
    (\<forall>k < 256. gate_for isr k (P k \<or> k = n) (tab' ! k))"
  using assms gate_for_present(1) [of isr n "P n"] set_present_nth [of tab n]
  by (auto simp: nth_list_update)

lemma reg_handler_gates:
  assumes "length (idt m) = 256" "\<forall>k < 256. gate_for isr k (P k) (idt m ! k)" "length (isr_handlers m) = 256" "n < 256"
  shows "\<exists>m'. i686_isr_reg_handler m (int n) f = Some m' \<and> length (idt m') = 256 \<and>
    (\<forall>k < 256. gate_for isr k (P k \<or> k = n) (idt m' ! k)) \<and>
    isr_handlers m' = (isr_handlers m)[n := Some f] \<and> outs m' = outs m \<and> irq_handlers m' = irq_handlers m"
  using gate_for_set_present [OF assms(1,2,4)] assms(3,4) by (auto simp: i686_isr_reg_handler_def)

lemma irq_handlers_loop:
  assumes "length (idt m) = 256" "\<forall>k < 256. gate_for isr k True (idt m ! k)" "length (isr_handlers m) = 256"
  shows "\<exists>m'. for_loop (\<lambda>i m. i686_isr_reg_handler m (PIC_REMAP_OFFSET + i) Irq_handler) [0..15] m = Some m' \<and>
    length (idt m') = 256 \<and> (\<forall>k < 256. gate_for isr k True (idt m' ! k)) \<and> length (isr_handlers m') = 256 \<and>
    (\<forall>k < 256. isr_handlers m' ! k = (if 32 \<le> k \<and> k < 48 then Some Irq_handler else isr_handlers m ! k)) \<and>
    outs m' = outs m \<and> irq_handlers m' = irq_handlers m"
proof -
  let ?P = "\<lambda>don m'. length (idt m') = 256 \<and> (\<forall>k < 256. gate_for isr k True (idt m' ! k)) \<and> length (isr_handlers m') = 256 \<and>
    (\<forall>k < 256. isr_handlers m' ! k = (if int k - 32 \<in> set don then Some Irq_handler else isr_handlers m ! k)) \<and>
    outs m' = outs m \<and> irq_handlers m' = irq_handlers m"
  have "\<exists>m'. for_loop (\<lambda>i m. i686_isr_reg_handler m (PIC_REMAP_OFFSET + i) Irq_handler) [0..15] m = Some m' \<and> ?P [0..15] m'"
  proof (rule for_loop_inv [of ?P])
    fix don i rest and t :: machine
    assume s: "[0..15] = don @ i # rest" and P: "?P don t"
    have "i \<in> set [0..15]" unfolding s by simp
    then have "0 \<le> i" "i < 16" unfolding set_upto by auto
    then obtain n where n: "i = int n" "n < 16" by (metis nonneg_int_cases of_nat_less_numeral_iff)
    obtain t' where t': "i686_isr_reg_handler t (int (32 + n)) Irq_handler = Some t'" "length (idt t') = 256"
      "\<forall>k < 256. gate_for isr k (True \<or> k = 32 + n) (idt t' ! k)" "isr_handlers t' = (isr_handlers t)[32 + n := Some Irq_handler]"
      "outs t' = outs t" "irq_handlers t' = irq_handlers t"
      using reg_handler_gates [of t isr "\<lambda>_. True" "32 + n" Irq_handler] P n(2) by auto
    have "PIC_REMAP_OFFSET + i = int (32 + n)" using n by (simp add: PIC_REMAP_OFFSET_def)
    moreover have "?P (don @ [i]) t'" using t' P n by (auto simp: nth_list_update)
    ultimately show "\<exists>t'. i686_isr_reg_handler t (PIC_REMAP_OFFSET + i) Irq_handler = Some t' \<and> ?P (don @ [i]) t'"
      using t'(1) by auto
  qed (use assms in simp)
  then obtain m' where m': "for_loop (\<lambda>i m. i686_isr_reg_handler m (PIC_REMAP_OFFSET + i) Irq_handler) [0..15] m = Some m'"
    "?P [0..15] m'" by blast
  have "int k - 32 \<in> set [0..15] \<longleftrightarrow> 32 \<le> k \<and> k < 48" for k unfolding set_upto by auto
  then show ?thesis using m' by simp
qed

lemma hal_init_run:
  assumes "length (idt m) = 256" "length (isr_handlers m) = 256" "length (irq_handlers m) = 16"
  shows "\<exists>m' os. hal_init isr m = Some m' \<and> outs m' = outs m @ os \<and>
    (\<forall>n < 256. gate_base (idt m' ! n) = isr n \<and> gate_present (idt m' ! n) \<and> gate_dpl (idt m' ! n) = (if n = 0x88 then 3 else 0)) \<and>
    (\<forall>n < 16. pic_vector (pic_run os ps) n = 32 + n \<and> \<not> pic_masked (pic_run os ps) n \<and>
      isr_handlers m' ! pic_vector (pic_run os ps) n = Some Irq_handler) \<and>
    isr_handlers m' ! 0x88 = Some Isr_syscall \<and>
    irq_handlers m' = (irq_handlers m)[0 := Some Irq_idle, 1 := Some Irq_keyboard]"
proof -
  let ?l = "log_msg ''[LOG]Initialising Interrupt Service Routine.'' [] (log_msg ''[LOG]Initialising Global Descriptor Table.'' [] m)"
  obtain idt1 where 1: "i686_isr_init_gates isr (idt m) = Some idt1" "length idt1 = 256" "\<forall>n < 256. gate_for isr n False (idt1 ! n)"
    using init_gates_correct [OF assms(1)] by blast
  obtain idt2 where 2: "for_loop (\<lambda>i idt. i686_idt_set_present_flag idt i) [0..255] idt1 = Some idt2" "length idt2 = 256"
    "\<forall>n < 256. gate_for isr n True (idt2 ! n)"
    using set_present_loop [OF 1(2,3)] by blast
  let ?e = "(idt2 ! 136)\<lparr>i_flags := i_flags (idt2 ! 136) AND NOT IDT_FLAG_PRESENT\<rparr>"
  have 3: "i686_isr_init isr (idt ?l) = Some (idt2[136 := ?e])"
    using 1(1) 2(1,2) by (simp add: i686_isr_init_def i686_idt_unset_present_flag_def aread_int_def awrite_int_def)
  have g3: "\<forall>n < 256. gate_for isr n (n \<noteq> 136) (idt2[136 := ?e] ! n)"
    using 2(2,3) gate_for_present(2) [of isr 136 True] by (auto simp: nth_list_update)
  let ?m = "?l\<lparr>idt := idt2[136 := ?e]\<rparr>"
  have l3: "length (idt ?m) = 256" "length (isr_handlers ?m) = 256" "\<forall>n < 256. gate_for isr n (n \<noteq> 136) (idt ?m ! n)"
    using 2(2) assms(2) g3 by simp_all
  obtain m2 where m2: "i686_isr_reg_handler ?m 136 Isr_syscall = Some m2" "length (idt m2) = 256"
    "\<forall>k < 256. gate_for isr k (k \<noteq> 136 \<or> k = 136) (idt m2 ! k)" "isr_handlers m2 = (isr_handlers ?m)[136 := Some Isr_syscall]"
    "outs m2 = outs ?m" "irq_handlers m2 = irq_handlers ?m"
    using reg_handler_gates [OF l3(1,3,2), of 136 Isr_syscall] by auto
  let ?os = "i686_pic_config 0x20 0x28"
  let ?m3 = "put_outs ?os (log_msg ''[LOG]Initialising Interrupt Requests.'' [] m2)"
  have l4: "length (idt ?m3) = 256" "\<forall>k < 256. gate_for isr k True (idt ?m3 ! k)" "length (isr_handlers ?m3) = 256"
    using m2(2-4) assms(2) by simp_all
  obtain m4 where m4: "for_loop (\<lambda>i m. i686_isr_reg_handler m (PIC_REMAP_OFFSET + i) Irq_handler) [0..15] ?m3 = Some m4"
    "length (idt m4) = 256" "\<forall>k < 256. gate_for isr k True (idt m4 ! k)"
    "\<forall>k < 256. isr_handlers m4 ! k = (if 32 \<le> k \<and> k < 48 then Some Irq_handler else isr_handlers ?m3 ! k)"
    "outs m4 = outs ?m3" "irq_handlers m4 = irq_handlers ?m3"
    using irq_handlers_loop [OF l4] by blast
  let ?m5 = "m4\<lparr>irq_handlers := (irq_handlers m4)[0 := Some Irq_idle]\<rparr>"
  let ?m6 = "?m5\<lparr>irq_handlers := (irq_handlers ?m5)[1 := Some Irq_keyboard]\<rparr>"
  let ?m' = "log_msg ''[LOG]Loading Instruction Descriptor Table.'' [] ?m6"
  have len: "length (irq_handlers m4) = 16" using m4(6) m2(6) assms(3) by simp
  have init: "i686_irq_init (log_msg ''[LOG]Initialising Interrupt Requests.'' [] m2) = Some ?m5"
    using m4(1) len by (simp add: i686_irq_init_def i686_irq_reg_handler_def PIC_REMAP_OFFSET_def awrite_int_def Let_def)
  have key: "i686_irq_reg_handler ?m5 1 (Some Irq_keyboard) = Some ?m6"
    using len by (simp add: i686_irq_reg_handler_def awrite_int_def)
  have run: "hal_init isr m = Some ?m'"
    using 3 m2(1) init key by (simp add: hal_init_def Let_def)
  have outs: "outs ?m' = outs m @ ?os" using m4(5) m2(5) by simp
  obtain p1 p2 where ps: "ps = (p1, p2)" by (cases ps)
  have pic: "pic_vector (pic_run ?os ps) n = 32 + n" "\<not> pic_masked (pic_run ?os ps) n" if "n < 16" for n
    using that unfolding ps pic_config_run by (auto simp: pic_vector_def pic_masked_def)
  show ?thesis
  proof (intro exI conjI allI impI)
    fix n :: nat assume n: "n < 256"
    then have "gate_for isr n True (idt ?m' ! n)" using m4(3) by simp
    from gate_for_reads [OF this] show "gate_base (idt ?m' ! n) = isr n" "gate_present (idt ?m' ! n)"
      "gate_dpl (idt ?m' ! n) = (if n = 0x88 then 3 else 0)" by blast+
  next
    fix n :: nat assume n: "n < 16"
    show "pic_vector (pic_run ?os ps) n = 32 + n" "\<not> pic_masked (pic_run ?os ps) n" using pic [OF n] by blast+
    show "isr_handlers ?m' ! pic_vector (pic_run ?os ps) n = Some Irq_handler"
      unfolding pic(1) [OF n] using m4(4) n by simp
  next
    show "isr_handlers ?m' ! 0x88 = Some Isr_syscall" using m4(4) m2(4) assms(2) by simp
    show "irq_handlers ?m' = (irq_handlers m)[0 := Some Irq_idle, 1 := Some Irq_keyboard]" using m4(6) m2(6) by simp
  qed (rule run, rule outs)
qed

lemma hal_init_handlers:
  assumes "length (idt m) = 256" "length (isr_handlers m) = 256" "length (irq_handlers m) = 16"
  obtains m' where "hal_init isr m = Some m'" "isr_handlers m' ! 0x88 = Some Isr_syscall"
    "irq_handlers m' = (irq_handlers m)[0 := Some Irq_idle, 1 := Some Irq_keyboard]"
    "\<forall>n < 16. isr_handlers m' ! (32 + n) = Some Irq_handler"
proof -
  fix ps :: "pic8259 \<times> pic8259"
  obtain m' os where m': "hal_init isr m = Some m'" "isr_handlers m' ! 0x88 = Some Isr_syscall"
    "irq_handlers m' = (irq_handlers m)[0 := Some Irq_idle, 1 := Some Irq_keyboard]"
    "\<forall>n < 16. pic_vector (pic_run os ps) n = 32 + n \<and> isr_handlers m' ! pic_vector (pic_run os ps) n = Some Irq_handler"
    using hal_init_run [OF assms, of isr ps] by blast
  then have "\<forall>n < 16. isr_handlers m' ! (32 + n) = Some Irq_handler" by metis
  then show thesis by (rule that [OF m'(1-3)])
qed

text \<open>\<open>hal_init\<close> returns with every vector leading to its own entry point through a present
  gate, the system call through the only gate that user code may call; the sixteen lines of
  the controllers, all unmasked, are delivered as the vectors 32 to 47, whose handler is the
  one of requests, and the timer and the keyboard have their handlers.\<close>

theorem hal_init_connects:
  assumes "length (idt m) = 256" "length (isr_handlers m) = 256" "length (irq_handlers m) = 16"
  shows "\<exists>m' os. hal_init isr m = Some m' \<and> outs m' = outs m @ os \<and>
    (\<forall>n < 256. gate_base (idt m' ! n) = isr n \<and> gate_present (idt m' ! n) \<and> gate_dpl (idt m' ! n) = (if n = 0x88 then 3 else 0)) \<and>
    (\<forall>n < 16. pic_vector (pic_run os ps) n = 32 + n \<and> \<not> pic_masked (pic_run os ps) n \<and>
      isr_handlers m' ! pic_vector (pic_run os ps) n = Some Irq_handler) \<and>
    isr_handlers m' ! 0x88 = Some Isr_syscall \<and>
    irq_handlers m' = (irq_handlers m)[0 := Some Irq_idle, 1 := Some Irq_keyboard]"
  using hal_init_run [OF assms] .

text \<open>A machine before \<open>hal_init\<close>, and one after it.\<close>

definition ex_machine :: machine where
  "ex_machine = \<lparr>idt = replicate 256 \<lparr>i_base_low = 0, seg_selector = 0, i_res = 0, i_flags = 0, i_base_hi = 0\<rparr>,
     isr_handlers = replicate 256 None, recent_intr = 0, is_keyboard_intr = False,
     irq_handlers = replicate 16 None, preempt_handler = False, idle_ticks = 0, ticks = 0,
     interrupt_called = False, interrupt_called_ready = False, old_handler = None,
     sched = ex_sched, kbd = \<lparr>g_key_state = \<lparr>caps_lock = False, lshift = False, rshift = False, ctrl = False, alt = False\<rparr>,
       g_last_keyboard_char = 0, g_last_keyboard_up = 0, g_keyboard_onpress_listener = True\<rparr>,
     con = blank_screen, mem = (\<lambda>_. 0), syscalls = 0, outs = [], msgs = [], panicked = False\<rparr>"

lemma ex_machine_lengths [simp]:
  "length (idt ex_machine) = 256" "length (isr_handlers ex_machine) = 256" "length (irq_handlers ex_machine) = 16"
  unfolding ex_machine_def by (simp_all only: machine.select_convs length_replicate)

lemma hal_init_connects_witness:
  "\<exists>m'. hal_init (\<lambda>n. word_of_nat n) ex_machine = Some m' \<and> isr_handlers m' ! 0x88 = Some Isr_syscall"
  using hal_init_connects [OF ex_machine_lengths] by blast

section \<open>A hardware interrupt\<close>

text \<open>The tables as \<open>hal_init\<close> leaves them, and the components the handlers work on.\<close>

definition machine_ok :: "machine \<Rightarrow> bool" where
  "machine_ok m \<longleftrightarrow> length (isr_handlers m) = 256 \<and> length (irq_handlers m) = 16 \<and>
     (\<forall>n < 16. isr_handlers m ! (32 + n) = Some Irq_handler) \<and> screen_ok (con m) \<and> sched_ok (sched m)"

text \<open>What the handler of a line does to the variables of the waits.\<close>

definition timers_after :: "machine \<Rightarrow> irq_fn option \<Rightarrow> machine \<Rightarrow> bool" where
  "timers_after m f m' \<longleftrightarrow>
     idle_ticks m' = (if f = Some Irq_idle then idle_ticks m - 1 else idle_ticks m) \<and>
     interrupt_called m' = (interrupt_called m \<or> f = Some Sleep_interrupt) \<and>
     irq_handlers m' = irq_handlers m \<and> isr_handlers m' = isr_handlers m \<and> preempt_handler m' = preempt_handler m \<and>
     interrupt_called_ready m' = interrupt_called_ready m \<and> old_handler m' = old_handler m \<and>
     (preempt_handler m \<longrightarrow> f = Some Irq_idle \<or> sched m' = sched m) \<and> (\<not> preempt_handler m \<longrightarrow> sched m' = sched m)"

lemma irq_idle_ok:
  assumes "sched_ok (sched m)"
  shows "\<exists>m' r'. irq_idle m r = Some (m', r') \<and> timers_after m (Some Irq_idle) m' \<and> sched_ok (sched m') \<and>
    con m' = con m \<and> outs m' = outs m"
proof -
  obtain s r' b where "preempt (sched m) r (sint (ticks m + 1)) = Some (s, r', b)" "sched_ok s"
    using preempt_step [OF assms] by metis
  then show ?thesis using assms by (cases "preempt_handler m") (auto simp: irq_idle_def timers_after_def Let_def)
qed

lemma call_irq_ok:
  assumes "sched_ok (sched m)" "screen_ok (con m)"
  shows "\<exists>m' r'. call_irq env f m r = Some (m', r') \<and> timers_after m (Some f) m' \<and> sched_ok (sched m') \<and>
    screen_ok (con m') \<and> outs m' = outs m"
proof (cases f)
  case Irq_idle
  then show ?thesis using irq_idle_ok [OF assms(1), of r] assms(2) by auto
next
  case Irq_keyboard
  obtain k c where "hal_irq_keyboard (kbd m) (con m) (inb env 0x60) = Some (k, c)" "console_ok (con m) c"
    using hal_irq_keyboard_step [OF assms(2)] by blast
  then show ?thesis using Irq_keyboard assms by (simp add: timers_after_def console_ok_def)
next
  case Sleep_interrupt
  then show ?thesis using assms by (simp add: timers_after_def sleep_interrupt_irq_def)
qed

lemma intr_line:
  assumes "unat (intr r) = 32 + n" "n < 16"
  shows "sint (intr r - word_of_int PIC_REMAP_OFFSET) = int n" "32 \<le> intr r"
proof -
  have i: "intr r = word_of_nat (32 + n)" using assms(1) by (metis of_nat_unat ucast_id)
  then have d: "intr r - word_of_int PIC_REMAP_OFFSET = word_of_nat n" by (simp add: PIC_REMAP_OFFSET_def)
  show "sint (intr r - word_of_int PIC_REMAP_OFFSET) = int n"
    unfolding d using assms(2) by (simp add: sint_word_ariths signed_of_nat signed_take_bit_int_eq_self)
  show "32 \<le> intr r" using assms(1) by (simp add: word_le_nat_alt)
qed

lemma irq_event:
  assumes ok: "machine_ok m" and n: "unat (intr r) = 32 + n" "n < 16"
  shows "\<exists>m' r' os. i686_isr_handler env m r = Some (m', r') \<and> machine_ok m' \<and> timers_after m (irq_handlers m ! n) m' \<and>
    outs m' = outs m @ os @ (if 8 \<le> n then [(PIC2_CMD_PORT, PIC_CMD_EOI)] else []) @ [(PIC1_CMD_PORT, PIC_CMD_EOI)]"
proof -
  let ?m1 = "m\<lparr>recent_intr := intr r\<rparr>"
  let ?m2 = "if recent_intr ?m1 = 33 then ?m1\<lparr>is_keyboard_intr := True\<rparr> else ?m1"
  note line = intr_line [OF n]
  have isr: "aread (isr_handlers ?m2) (unat (intr r)) = Some (Some Irq_handler)"
    using ok n by (simp add: machine_ok_def aread_def)
  have run: "i686_isr_handler env m r = i686_irq_handler env ?m2 r"
    using isr by (simp add: i686_isr_handler_def Let_def)
  let ?os = "fst (i686_pic_read_isr (inb env)) @ fst (i686_pic_read_irr (inb env))"
  let ?m3 = "put_outs ?os ?m2"
  have irq: "aread_int (irq_handlers ?m3) (int n) = Some (irq_handlers m ! n)"
    using ok n(2) by (simp add: machine_ok_def)
  have ok3: "sched_ok (sched ?m3)" "screen_ok (con ?m3)" using ok by (simp_all add: machine_ok_def)
  let ?eoi = "(if 8 \<le> n then [(PIC2_CMD_PORT, PIC_CMD_EOI)] else []) @ [(PIC1_CMD_PORT, PIC_CMD_EOI)]"
  have eoi: "i686_pic_send_eoi (int n) = ?eoi" by (simp add: i686_pic_send_eoi_def)
  show ?thesis
  proof (cases "irq_handlers m ! n")
    case None
    obtain msg args where h: "i686_irq_handler env ?m2 r = Some (put_outs ?eoi (log_msg msg args ?m3), r)"
      using irq None line(1) eoi by (simp add: i686_irq_handler_def Let_def case_prod_unfold)
    have "machine_ok (put_outs ?eoi (log_msg msg args ?m3)) \<and> timers_after m None (put_outs ?eoi (log_msg msg args ?m3)) \<and>
        outs (put_outs ?eoi (log_msg msg args ?m3)) = outs m @ ?os @ ?eoi"
      using ok by (simp add: machine_ok_def timers_after_def)
    then show ?thesis using run h None by metis
  next
    case (Some f)
    obtain m4 r4 where c: "call_irq env f ?m3 r = Some (m4, r4)" "timers_after ?m3 (Some f) m4" "sched_ok (sched m4)"
      "screen_ok (con m4)" "outs m4 = outs ?m3"
      using call_irq_ok [OF ok3] by blast
    have h: "i686_irq_handler env ?m2 r = Some (put_outs ?eoi m4, r4)"
      using irq Some line(1) eoi c(1) by (simp add: i686_irq_handler_def Let_def case_prod_unfold)
    have "machine_ok (put_outs ?eoi m4) \<and> timers_after m (Some f) (put_outs ?eoi m4) \<and> outs (put_outs ?eoi m4) = outs m @ ?os @ ?eoi"
      using ok c(2-5) by (auto simp: machine_ok_def timers_after_def)
    then show ?thesis using run h Some by metis
  qed
qed

text \<open>C20: An interrupt of line \<open>n\<close> in a well-formed state returns to a well-formed state: the
  handler of the line runs, if there is one, and the interrupt is acknowledged at the end to
  the first controller, for a line of the second one to both; the table of handlers stays,
  and only the timer, once there is something to schedule, can change what runs.\<close>

theorem hardware_interrupt_handled:
  assumes "machine_ok m" "unat (intr r) = 32 + n" "n < 16"
  shows "\<exists>m' r' os. i686_isr_handler env m r = Some (m', r') \<and> machine_ok m' \<and> timers_after m (irq_handlers m ! n) m' \<and>
    outs m' = outs m @ os @ (if 8 \<le> n then [(PIC2_CMD_PORT, PIC_CMD_EOI)] else []) @ [(PIC1_CMD_PORT, PIC_CMD_EOI)]"
  using assms by (rule irq_event)

text \<open>A well-formed machine, as the tables of \<open>hal_init\<close> make it.\<close>

definition ex_ready :: machine where
  "ex_ready = ex_machine\<lparr>isr_handlers := replicate 32 None @ replicate 16 (Some Irq_handler) @ replicate 208 None,
     irq_handlers := Some Irq_idle # Some Irq_keyboard # replicate 14 None\<rparr>"

lemma ex_ready_ok: "machine_ok ex_ready"
proof -
  have "isr_handlers ex_ready ! (32 + n) = Some Irq_handler" if "n < 16" for n
    using that by (simp add: ex_ready_def nth_append)
  moreover have "length (isr_handlers ex_ready) = 256" "length (irq_handlers ex_ready) = 16"
    by (simp_all add: ex_ready_def)
  ultimately show ?thesis
    using ex_sched_facts(1) blank_screen_ok by (simp add: machine_ok_def ex_ready_def ex_machine_def)
qed

lemma hardware_interrupt_handled_witness:
  "\<exists>m' r'. i686_isr_handler \<lparr>inb = (\<lambda>_. 0), pending = [], garbage = []\<rparr> ex_ready (zero_registers\<lparr>intr := 40\<rparr>) = Some (m', r') \<and> machine_ok m'"
  using hardware_interrupt_handled [OF ex_ready_ok, of "zero_registers\<lparr>intr := 40\<rparr>" 8] by simp blast

section \<open>The waits\<close>

text \<open>Interrupts of the sixteen lines; \<open>line n\<close> are those of line \<open>n\<close>.\<close>

definition line :: "nat \<Rightarrow> occurrence \<Rightarrow> bool" where
  "line n ev \<longleftrightarrow> unat (intr (snd ev)) = 32 + n"

definition hardware :: "occurrence list \<Rightarrow> bool" where
  "hardware evs \<longleftrightarrow> (\<forall>ev \<in> set evs. \<exists>n < 16. line n ev)"

text \<open>The kernel waits and nothing can be scheduled.\<close>

definition kernel_waits :: "machine \<Rightarrow> bool" where
  "kernel_waits m \<longleftrightarrow> machine_ok m \<and> \<not> preempt_handler m \<and> cur_running_process (sched m) = -1"

lemma wait_step:
  assumes "kernel_waits m" "go_on m" "line n ev" "n < 16"
  shows "\<exists>m'. wait_loop go_on m (ev # evs) = wait_loop go_on m' evs \<and> kernel_waits m' \<and> timers_after m (irq_handlers m ! n) m'"
proof -
  have "machine_ok m" "unat (intr (snd ev)) = 32 + n" using assms(1,3) by (simp_all add: kernel_waits_def line_def)
  then obtain m' r' where "i686_isr_handler (fst ev) m (snd ev) = Some (m', r')" "machine_ok m'" "timers_after m (irq_handlers m ! n) m'"
    using irq_event [of m "snd ev" n "fst ev"] assms(4) by blast
  then show ?thesis using assms(1,2)
    by (subst wait_loop.simps) (auto simp: kernel_waits_def timers_after_def case_prod_unfold)
qed

lemma line_unique: "line n ev \<Longrightarrow> line k ev \<Longrightarrow> n = k"
  by (simp add: line_def)

lemma wait_device:
  assumes "kernel_waits m" "\<forall>k < 16. irq_handlers m ! k = Some Sleep_interrupt \<longleftrightarrow> k = n" "n < 16" "\<not> interrupt_called m"
    "hardware evs" "\<exists>ev \<in> set evs. line n ev" "\<forall>m. go_on m \<longleftrightarrow> \<not> interrupt_called m"
  shows "\<exists>m' used ev rest. wait_loop go_on m evs = Some (m', rest) \<and>
    evs = used @ ev # rest \<and> line n ev \<and> (\<forall>e \<in> set used. \<not> line n e) \<and>
    kernel_waits m' \<and> irq_handlers m' = irq_handlers m \<and> old_handler m' = old_handler m"
  using assms
proof (induction evs arbitrary: m)
  case (Cons ev evs)
  obtain k where k: "k < 16" "line k ev" using Cons.prems(5) by (auto simp: hardware_def)
  obtain m1 where 1: "wait_loop go_on m (ev # evs) = wait_loop go_on m1 evs" "kernel_waits m1" "timers_after m (irq_handlers m ! k) m1"
    using wait_step [OF Cons.prems(1) _ k(2,1), of go_on evs] Cons.prems(4,7) by auto
  note t = 1(3) [unfolded timers_after_def]
  show ?case
  proof (cases "k = n")
    case True
    then have "interrupt_called m1" using t Cons.prems(2,3) by simp
    then have "wait_loop go_on m1 evs = Some (m1, evs)"
      using 1(2) Cons.prems(7) by (subst wait_loop.simps) (simp add: kernel_waits_def)
    then show ?thesis using 1 t k(2) True
      by (intro exI [of _ m1] exI [of _ "[]"] exI [of _ ev] exI [of _ evs]) simp
  next
    case False
    then have n: "\<not> line n ev" using k(2) line_unique by blast
    have n2: "\<not> interrupt_called m1" using t Cons.prems(2,4) k(1) False by blast
    have "hardware evs" "\<exists>ev \<in> set evs. line n ev" using n Cons.prems(5,6) by (auto simp: hardware_def)
    then obtain m' used ev' rest where "wait_loop go_on m1 evs = Some (m', rest)" "evs = used @ ev' # rest" "line n ev'"
      "\<forall>e \<in> set used. \<not> line n e" "kernel_waits m'" "irq_handlers m' = irq_handlers m1" "old_handler m' = old_handler m1"
      using Cons.IH [OF 1(2) _ Cons.prems(3) n2] t Cons.prems(2,7) by metis
    then show ?thesis using 1(1) t n
      by (intro exI [of _ m'] exI [of _ "ev # used"] exI [of _ ev'] exI [of _ rest]) simp
  qed
qed simp


lemma sleep_loop:
  assumes "kernel_waits m" "irq_handlers m ! 0 = Some Irq_idle" "\<forall>k < 16. 0 < k \<longrightarrow> irq_handlers m ! k \<noteq> Some Irq_idle"
    "idle_ticks m = word_of_nat t" "t < 2 ^ 31" "hardware evs" "t \<le> length (filter (line 0) evs)"
  shows "\<exists>m' used rest. wait_loop (\<lambda>m. sint (idle_ticks m) > 0) m evs = Some (m', rest) \<and> evs = used @ rest \<and>
    length (filter (line 0) used) = t \<and> kernel_waits m' \<and> irq_handlers m' = irq_handlers m"
  using assms
proof (induction evs arbitrary: m t)
  case Nil
  then show ?case by (subst wait_loop.simps) (simp add: kernel_waits_def)
next
  case (Cons ev evs)
  show ?case
  proof (cases "t = 0")
    case True
    then show ?thesis using Cons.prems
      by (subst wait_loop.simps) (auto simp: kernel_waits_def intro!: exI [of _ m] exI [of _ "[]"])
  next
    case False
    obtain k where k: "k < 16" "line k ev" using Cons.prems(6) by (auto simp: hardware_def)
    have "sint (word_of_nat t :: u32) = int t"
      using Cons.prems(5) by (simp add: signed_of_nat signed_take_bit_int_eq_self)
    then have "sint (idle_ticks m) > 0" using False Cons.prems(4) by simp
    then obtain m1 where 1: "wait_loop (\<lambda>m. sint (idle_ticks m) > 0) m (ev # evs) = wait_loop (\<lambda>m. sint (idle_ticks m) > 0) m1 evs"
      "kernel_waits m1" "timers_after m (irq_handlers m ! k) m1"
      using wait_step [OF Cons.prems(1) _ k(2,1), of "\<lambda>m. sint (idle_ticks m) > 0" evs] by auto
    have h: "irq_handlers m1 = irq_handlers m"
      "idle_ticks m1 = (if irq_handlers m ! k = Some Irq_idle then idle_ticks m - 1 else idle_ticks m)"
      using 1(3) by (simp_all add: timers_after_def)
    have line: "line 0 ev \<longleftrightarrow> k = 0" using k(2) line_unique by blast
    let ?t = "if k = 0 then t - 1 else t"
    have tick: "irq_handlers m ! k = Some Irq_idle \<longleftrightarrow> k = 0" using Cons.prems(2,3) k(1) by (cases "k = 0") auto
    have idle: "idle_ticks m1 = word_of_nat ?t" using h(2) tick Cons.prems(4) False by (simp add: of_nat_diff)
    have len: "?t \<le> length (filter (line 0) evs)" using Cons.prems(7) line by (simp split: if_splits)
    have lt: "?t < 2 ^ 31" using Cons.prems(5) by (simp add: less_imp_diff_less)
    have hw: "hardware evs" using Cons.prems(6) by (simp add: hardware_def)
    obtain m' used rest where r: "wait_loop (\<lambda>m. sint (idle_ticks m) > 0) m1 evs = Some (m', rest)" "evs = used @ rest"
      "length (filter (line 0) used) = ?t" "kernel_waits m'" "irq_handlers m' = irq_handlers m1"
      using Cons.IH [OF 1(2) _ _ idle lt hw len] Cons.prems(2,3) unfolding h(1) by blast
    have "length (filter (line 0) (ev # used)) = t" using r(3) line False by simp
    then show ?thesis using 1(1) r(1,2,4,5) h(1)
      by (intro exI [of _ m'] exI [of _ "ev # used"] exI [of _ rest]) simp
  qed
qed


section \<open>Examples of waits\<close>

definition ex_irq :: "nat \<Rightarrow> occurrence" where
  "ex_irq n = (\<lparr>inb = (\<lambda>_. 0), pending = [], garbage = []\<rparr>, zero_registers\<lparr>intr := word_of_nat (32 + n)\<rparr>)"

lemma ex_irq_line [simp]: "n < 16 \<Longrightarrow> line k (ex_irq n) \<longleftrightarrow> k = n"
  by (auto simp: line_def ex_irq_def unat_of_nat take_bit_eq_mod simp del: of_nat_add)

lemma ex_ready_waits: "kernel_waits ex_ready"
  using ex_ready_ok ex_sched_facts(2) by (simp add: kernel_waits_def ex_ready_def ex_machine_def)



section \<open>Exceptions and system calls\<close>

text \<open>An exception without a handler stops the kernel with its message, but for exception 31:
  the table of messages has no entry for it and is read behind its end.\<close>

theorem unhandled_exception:
  assumes "length (isr_handlers m) = 256" "v < 32" "isr_handlers m ! v = None" "unat (intr r) = v"
  shows "if v = 31 then i686_isr_handler env m r = None
    else \<exists>m'. i686_isr_handler env m r = Some (m', r) \<and> panicked m' \<and>
      (\<exists>args. msgs m' = msgs m @ [(''[ERROR]Unhandled Exception: '' @ isr_exception_msg ! v, args)])"
proof -
  have len: "length isr_exception_msg = 31" by (simp add: isr_exception_msg_def)
  have i: "\<not> 32 \<le> intr r" "intr r \<noteq> 33" using assms(2,4) by (auto simp: word_le_nat_alt)
  show ?thesis
  proof (cases "v = 31")
    case True
    then show ?thesis using assms i len by (simp add: i686_isr_handler_def Let_def)
  next
    case False
    then have "aread isr_exception_msg v = Some (isr_exception_msg ! v)" using assms(2) len by simp
    then show ?thesis using False assms i
      by (simp add: i686_isr_handler_def Let_def i686_panic_def log_msg_def)
  qed
qed

lemma unhandled_exception_witness:
  "i686_isr_handler \<lparr>inb = (\<lambda>_. 0), pending = [], garbage = []\<rparr> ex_machine (zero_registers\<lparr>intr := 31\<rparr>) = None"
proof -
  have "isr_handlers ex_machine ! 31 = None"
    unfolding ex_machine_def by (simp only: machine.select_convs) simp
  then show ?thesis using unhandled_exception [of ex_machine 31 "zero_registers\<lparr>intr := 31\<rparr>"] by simp
qed

lemma present_and_mask: "(a AND NOT PROCESS_PRESENT) AND PROCESS_PRESENT = 0"
  by (simp add: bit_eq_iff bit_and_iff bit_not_iff)

lemma remove_current_ok:
  assumes "sched_ok st" "cur_running_process st = int p" "p < MAX_THREADS"
  shows "\<exists>st'. hal_remove_current_process st = Some st' \<and> sched_ok st' \<and> cur_running_process st' = int p \<and>
    processes st' = (processes st)[p := processes st ! p AND NOT PROCESS_PRESENT] \<and> \<not> present st' (int p)"
  using assms present_and_mask
  by (auto simp: hal_remove_current_process_def sched_ok_def present_def)

lemma absent_never_runs:
  "sched_ok st \<Longrightarrow> \<not> present st p \<Longrightarrow> p \<noteq> -1 \<Longrightarrow> \<forall>q. \<not> is_thread st q \<Longrightarrow>
    sched_run st ins = Some (st', obs) \<Longrightarrow> p \<notin> fst ` set obs"
proof (induction ins arbitrary: st obs)
  case (Cons i ins)
  obtain r t where i: "i = (r, t)" by (cases i)
  obtain st1 r1 b where 1: "preempt st r t = Some (st1, r1, b)" "sched_ok st1" "processes st1 = processes st"
      "st1 = (if held st t then st else switch_spec st r)"
    using preempt_step [OF Cons.prems(1)] by metis
  obtain obs1 where 2: "sched_run st1 ins = Some (st', obs1)" "obs = (cur_running_process st1, r1) # obs1"
    using Cons.prems(5) 1(1) by (auto simp: i bind_Some_eq)
  have "\<not> held st t" using Cons.prems(4) by (simp add: held_def)
  then have "cur_running_process st1 = next_context st (cur_running_process st)" using 1(4) by simp
  then have "cur_running_process st1 \<noteq> p"
    using next_context_props [of st "cur_running_process st"] Cons.prems(2,3) by auto
  moreover have "\<not> present st1 p" "\<forall>q. \<not> is_thread st1 q" using Cons.prems(2,4) 1(3) by (auto simp: present_def is_thread_def)
  then have "p \<notin> fst ` set obs1" using Cons.IH [OF 1(2) _ Cons.prems(3) _ 2(1)] by blast
  ultimately show ?case using 2(2) by auto
qed simp

text \<open>C23: The end call of the running process returns, takes the process and no other one out of
  the table, and no timer interrupt that follows gives the processor back to it.\<close>

theorem exit_ends_process:
  assumes "sched_ok (sched m)" "cur_running_process (sched m) = int p" "p < MAX_THREADS" "eax r = 0"
    "\<forall>q. \<not> is_thread (sched m) q"
  shows "\<exists>m' r'. hal_isr_syscall env m r = Some (m', r') \<and> \<not> present (sched m') (int p) \<and>
    (\<forall>q. q \<noteq> int p \<longrightarrow> present (sched m') q = present (sched m) q) \<and>
    (\<forall>ins st' obs. sched_run (sched m') ins = Some (st', obs) \<longrightarrow> int p \<notin> fst ` set obs)"
proof -
  obtain st' where st': "hal_remove_current_process (sched m) = Some st'" "sched_ok st'"
    "processes st' = (processes (sched m))[p := processes (sched m) ! p AND NOT PROCESS_PRESENT]" "\<not> present st' (int p)"
    using remove_current_ok [OF assms(1-3)] by blast
  have len: "length (processes (sched m)) = MAX_THREADS" using assms(1) by (simp add: sched_ok_def)
  obtain m1 where "syscall0 m r = Some m1" "sched m1 = st'"
    using st'(1) assms(2,3) len
    by (simp add: syscall0_def hal_current_process_num_def hal_process_attribute_def Let_def)
  then have "\<exists>m' r'. hal_isr_syscall env m r = Some (m', r') \<and> sched m' = st'"
    using assms(4) by (cases "sint (syscalls m1 + 1) smod 140000 = 0") (simp_all add: hal_isr_syscall_def Let_def)
  then obtain m' r' where run: "hal_isr_syscall env m r = Some (m', r')" "sched m' = st'" by blast
  have other: "present st' q = present (sched m) q" if "q \<noteq> int p" for q
    using that len st'(3) by (cases "nat q = p") (auto simp: present_def nth_list_update)
  have mask: "(a AND NOT PROCESS_PRESENT) AND PROCESS_THREAD = a AND PROCESS_THREAD" for a :: u8
    by (simp add: PROCESS_PRESENT_def PROCESS_THREAD_def and.assoc)
  have "\<not> is_thread st' q" for q
  proof (cases "q = int p")
    case True
    then show ?thesis using spec [OF assms(5), of "int p"] assms(3) len st'(3) mask by (simp add: is_thread_def)
  next
    case False
    then have "0 \<le> q \<longrightarrow> nat q \<noteq> p" by auto
    then show ?thesis using assms(5) st'(3) by (auto simp: is_thread_def)
  qed
  then have "\<forall>ins st'' obs. sched_run st' ins = Some (st'', obs) \<longrightarrow> int p \<notin> fst ` set obs"
    using absent_never_runs [OF st'(2,4)] by simp
  then show ?thesis using run st'(4) other by auto
qed

lemma exit_ends_process_witness:
  "\<exists>m' r'. hal_isr_syscall \<lparr>inb = (\<lambda>_. 0), pending = [], garbage = []\<rparr>
    (ex_machine\<lparr>sched := ex_sched\<lparr>cur_running_process := 3\<rparr>\<rparr>) zero_registers = Some (m', r') \<and> \<not> present (sched m') 3"
proof -
  let ?m = "ex_machine\<lparr>sched := ex_sched\<lparr>cur_running_process := 3\<rparr>\<rparr>"
  have "sched_ok (sched ?m)" using ex_sched_facts(1) by (simp add: sched_ok_def MAX_THREADS_def)
  moreover have "\<forall>q. \<not> is_thread (sched ?m) q" using ex_sched_facts(5) by (simp add: is_thread_def)
  ultimately show ?thesis
    using exit_ends_process [of ?m 3 zero_registers "\<lparr>inb = (\<lambda>_. 0), pending = [], garbage = []\<rparr>"]
    by (auto simp: MAX_THREADS_def zero_registers_def)
qed

end
