(* ===== verification/Floppy.thy ===== *)
theory Floppy
  imports InterruptsCorrect
begin

text \<open>
  The floppy driver, \<open>kernel/arch/i686/floppy.c\<close>: commands to the controller, the motor, seek,
  the set-up of the DMA channel, and the transfer of a sector. The controller is a parameter:
  what its ports read and do, and the bytes of the transfer buffer \<open>floppy_buffer\<close>, which the
  DMA channel fills and empties. Interrupts come as in theory \<open>Interrupts\<close>; a wait that
  outlasts them does not return (\<open>None\<close>). \<open>addr\<close> is the physical address of the buffer, as
  \<open>i686_physical_addr\<close> gives it.
\<close>

section \<open>State\<close>

record DISK =
  disk_id :: u8
  disk_heads :: u16
  disk_cylinders :: u16
  disk_sectors :: u16

record 'd port_device =
  p_in :: "'d \<Rightarrow> u16 \<Rightarrow> u8 \<times> 'd"
  p_out :: "'d \<Rightarrow> u16 \<Rightarrow> u8 \<Rightarrow> 'd"
  p_read :: "'d \<Rightarrow> u8 list"
  p_write :: "u8 list \<Rightarrow> 'd \<Rightarrow> 'd"

record 'd floppy =
  fl_machine :: machine
  fl_events :: "occurrence list"
  fl_dev :: 'd
  floppy_motor_ticks :: int
  floppy_motor_state :: int

definition FLOPPY_IRQ :: int where "FLOPPY_IRQ = 6"
definition FLOPPY_MOTOR_OFF :: int where "FLOPPY_MOTOR_OFF = 0"
definition FLOPPY_MOTOR_ON :: int where "FLOPPY_MOTOR_ON = 1"
definition FLOPPY_MOTOR_WAIT :: int where "FLOPPY_MOTOR_WAIT = 2"
definition FLOPPY_BUFFER_LEN :: u32 where "FLOPPY_BUFFER_LEN = 0x4800"
definition FLOPPY_DOR :: u16 where "FLOPPY_DOR = 2"
definition FLOPPY_MSR :: u16 where "FLOPPY_MSR = 4"
definition FLOPPY_FIFO :: u16 where "FLOPPY_FIFO = 5"
definition FLOPPY_CMD_WRITE_DATA :: u8 where "FLOPPY_CMD_WRITE_DATA = 5"
definition FLOPPY_CMD_READ_DATA :: u8 where "FLOPPY_CMD_READ_DATA = 6"
definition FLOPPY_CMD_RECALIBRATE :: u8 where "FLOPPY_CMD_RECALIBRATE = 7"
definition FLOPPY_CMD_SENSE_INTERRUPT :: u8 where "FLOPPY_CMD_SENSE_INTERRUPT = 8"
definition FLOPPY_CMD_SEEK :: u8 where "FLOPPY_CMD_SEEK = 15"
definition FLOPPY_STANDARD_BASE :: u16 where "FLOPPY_STANDARD_BASE = 0x3f0"
definition FLOPPY_DIR_READ :: int where "FLOPPY_DIR_READ = 1"
definition FLOPPY_DIR_WRITE :: int where "FLOPPY_DIR_WRITE = 2"

lemmas floppy_consts = FLOPPY_MOTOR_OFF_def FLOPPY_MOTOR_ON_def FLOPPY_MOTOR_WAIT_def FLOPPY_DOR_def FLOPPY_MSR_def
  FLOPPY_FIFO_def FLOPPY_CMD_WRITE_DATA_def FLOPPY_CMD_READ_DATA_def FLOPPY_CMD_RECALIBRATE_def
  FLOPPY_CMD_SENSE_INTERRUPT_def FLOPPY_CMD_SEEK_def FLOPPY_STANDARD_BASE_def FLOPPY_DIR_READ_def FLOPPY_DIR_WRITE_def

section \<open>Ports\<close>

definition fl_out :: "'d port_device \<Rightarrow> u16 \<Rightarrow> u8 \<Rightarrow> 'd floppy \<Rightarrow> 'd floppy" where
  "fl_out dev port b st = st\<lparr>fl_machine := put_outs [(port, b)] (fl_machine st), fl_dev := p_out dev (fl_dev st) port b\<rparr>"

definition fl_in :: "'d port_device \<Rightarrow> u16 \<Rightarrow> 'd floppy \<Rightarrow> u8 \<times> 'd floppy" where
  "fl_in dev port st = (case p_in dev (fl_dev st) port of (v, d) \<Rightarrow> (v, st\<lparr>fl_dev := d\<rparr>))"

definition fl_log :: "string \<Rightarrow> u32 list \<Rightarrow> 'd floppy \<Rightarrow> 'd floppy" where
  "fl_log s args st = st\<lparr>fl_machine := log_msg s args (fl_machine st)\<rparr>"

definition quoted :: "string \<Rightarrow> string" where "quoted s = [CHR 0x27] @ s @ [CHR 0x27] @ ''.''"

definition fl_wait_ready :: "'d floppy \<Rightarrow> 'd floppy option" where
  "fl_wait_ready st = map_option (\<lambda>m. st\<lparr>fl_machine := m\<rparr>) (i686_wait_ready (fl_machine st) FLOPPY_IRQ)"

definition fl_wait_max_time :: "int \<Rightarrow> 'd floppy \<Rightarrow> 'd floppy option" where
  "fl_wait_max_time ms st = map_option (\<lambda>(m, evs). st\<lparr>fl_machine := m, fl_events := evs\<rparr>)
     (i686_wait_max_time (fl_machine st) FLOPPY_IRQ ms (fl_events st))"

definition drive_types_str :: "string list" where
  "drive_types_str = [''None'', ''360KB 5.25'' @ [CHR 0x22], ''360MB 5.25'' @ [CHR 0x22], ''360KB 3.5'' @ [CHR 0x22],
     ''1.44MB 3.5'' @ [CHR 0x22], ''2.88MB 3.5'' @ [CHR 0x22], ''Unknown Type'', ''Unknown Type'']"

definition i686_detect_drives :: "'d port_device \<Rightarrow> 'd floppy \<Rightarrow> 'd floppy option" where
  "i686_detect_drives dev st = do {
     let (drives, st1) = fl_in dev 0x71 (fl_out dev 0x70 0x10 st);
     a \<leftarrow> aread drive_types_str (unat (drop_bit 4 drives));
     b \<leftarrow> aread drive_types_str (unat (drives AND 0xF));
     Some (fl_log (''[LOG]Detected Floppy Drive 1: '' @ b) [] (fl_log (''[LOG]Detected Floppy Drive 0: '' @ a) [] st1))
   }"

section \<open>Commands\<close>

text \<open>\<open>for (int i = 0; i < 200; i++)\<close>, and the message when it is over.\<close>

fun floppy_cmd_loop :: "nat \<Rightarrow> 'd port_device \<Rightarrow> u16 \<Rightarrow> u8 \<Rightarrow> 'd floppy \<Rightarrow> 'd floppy \<times> bool" where
  "floppy_cmd_loop 0 dev base cmd st = (fl_log ''[ERROR]Floppy command timed out.'' [] st, False)"
| "floppy_cmd_loop (Suc i) dev base cmd st =
     (let (status, st1) = fl_in dev (base + FLOPPY_MSR) st in
      if status AND 0xC0 = 0x80 then (fl_out dev (base + FLOPPY_FIFO) cmd st1, True)
      else floppy_cmd_loop i dev base cmd st1)"

definition floppy_cmd :: "'d port_device \<Rightarrow> u16 \<Rightarrow> u8 \<Rightarrow> 'd floppy \<Rightarrow> 'd floppy \<times> bool" where
  "floppy_cmd dev base cmd st = floppy_cmd_loop 200 dev base cmd st"

fun floppy_read_port_loop :: "nat \<Rightarrow> 'd port_device \<Rightarrow> u16 \<Rightarrow> 'd floppy \<Rightarrow> u8 \<times> 'd floppy" where
  "floppy_read_port_loop 0 dev base st = (0, fl_log ''[ERROR]Floppy disk read timed out.'' [] st)"
| "floppy_read_port_loop (Suc i) dev base st =
     (let (status, st1) = fl_in dev (base + FLOPPY_MSR) st in
      if status AND 0x80 \<noteq> 0 then fl_in dev (base + FLOPPY_FIFO) st1
      else floppy_read_port_loop i dev base st1)"

definition floppy_read_port :: "'d port_device \<Rightarrow> u16 \<Rightarrow> 'd floppy \<Rightarrow> u8 \<times> 'd floppy" where
  "floppy_read_port dev base st = floppy_read_port_loop 600 dev base st"

text \<open>Calls of \<open>floppy_cmd\<close> in a row, their results ignored, and of \<open>floppy_read_port\<close>.\<close>

definition floppy_cmds :: "'d port_device \<Rightarrow> u16 \<Rightarrow> u8 list \<Rightarrow> 'd floppy \<Rightarrow> 'd floppy" where
  "floppy_cmds dev base bs st = fold (\<lambda>b st. fst (floppy_cmd dev base b st)) bs st"

fun floppy_read_ports :: "nat \<Rightarrow> 'd port_device \<Rightarrow> u16 \<Rightarrow> 'd floppy \<Rightarrow> u8 list \<times> 'd floppy" where
  "floppy_read_ports 0 dev base st = ([], st)"
| "floppy_read_ports (Suc n) dev base st =
     (let (b, st1) = floppy_read_port dev base st; (bs, st2) = floppy_read_ports n dev base st1 in (b # bs, st2))"

definition floppy_motor :: "'d port_device \<Rightarrow> u16 \<Rightarrow> int \<Rightarrow> 'd floppy \<Rightarrow> 'd floppy" where
  "floppy_motor dev base state st =
     (if state = FLOPPY_MOTOR_ON then
        (if floppy_motor_state st = FLOPPY_MOTOR_OFF then fl_out dev (base + FLOPPY_DOR) 0x1C st else st)
          \<lparr>floppy_motor_state := FLOPPY_MOTOR_ON\<rparr>
      else if state = FLOPPY_MOTOR_OFF then (fl_out dev (base + FLOPPY_DOR) 0x1C st)\<lparr>floppy_motor_state := FLOPPY_MOTOR_OFF\<rparr>
      else (if floppy_motor_state st = FLOPPY_MOTOR_WAIT
          then fl_log ''[LOG]Floppy: Attempt to wait while already waiting.'' [] st else st)
        \<lparr>floppy_motor_ticks := 300, floppy_motor_state := FLOPPY_MOTOR_WAIT\<rparr>)"

definition floppy_check_interrupt :: "'d port_device \<Rightarrow> u16 \<Rightarrow> 'd floppy \<Rightarrow> u8 \<times> u8 \<times> 'd floppy" where
  "floppy_check_interrupt dev base st =
     (let (st1, ok) = floppy_cmd dev base FLOPPY_CMD_SENSE_INTERRUPT st;
          (st0, st2) = floppy_read_port dev base st1;
          (cyl, st3) = floppy_read_port dev base st2 in
      (st0, cyl, st3))"

definition floppy_err_status :: "string list" where
  "floppy_err_status = [''normal'', ''error'', ''invalid'', ''drive'']"

section \<open>Positioning\<close>

text \<open>The five tries of a command that moves the head; \<open>name\<close> is the one in the messages.\<close>

fun floppy_calibrate_loop :: "nat \<Rightarrow> 'd port_device \<Rightarrow> u16 \<Rightarrow> 'd floppy \<Rightarrow> ('d floppy \<times> int) option" where
  "floppy_calibrate_loop 0 dev base st =
     Some (floppy_motor dev base FLOPPY_MOTOR_OFF (fl_log ''[ERROR]Floppy calibration: failed 5 retries.'' [] st), 1)"
| "floppy_calibrate_loop (Suc i) dev base st = do {
     st1 \<leftarrow> fl_wait_ready st;
     st2 \<leftarrow> fl_wait_max_time 3000 (floppy_cmds dev base [FLOPPY_CMD_RECALIBRATE, 0] st1);
     let (st0, cyl, st3) = floppy_check_interrupt dev base st2;
     if st0 AND 0xC0 \<noteq> 0 then do {
       s \<leftarrow> aread floppy_err_status (unat (drop_bit 6 st0));
       floppy_calibrate_loop i dev base (fl_log (''[ERROR]Floppy calibration status '' @ quoted s) [] st3)
     }
     else Some (floppy_motor dev base FLOPPY_MOTOR_OFF st3, 0)
   }"

definition floppy_calibrate :: "'d port_device \<Rightarrow> u16 \<Rightarrow> 'd floppy \<Rightarrow> ('d floppy \<times> int) option" where
  "floppy_calibrate dev base st = floppy_calibrate_loop 5 dev base (floppy_motor dev base FLOPPY_MOTOR_ON st)"

text \<open>The function returns at once; what follows the \<open>return\<close> is never run.\<close>

definition i686_floppy_reset :: "u16 \<Rightarrow> 'd floppy \<Rightarrow> 'd floppy \<times> int" where
  "i686_floppy_reset base st = (st, 0)"

fun floppy_seek_loop :: "nat \<Rightarrow> 'd port_device \<Rightarrow> u16 \<Rightarrow> u16 \<Rightarrow> u16 \<Rightarrow> 'd floppy \<Rightarrow> ('d floppy \<times> int) option" where
  "floppy_seek_loop 0 dev base cyl head st =
     Some (floppy_motor dev base FLOPPY_MOTOR_OFF (fl_log ''[ERROR]Floppy seek: failed 5 retries.'' [] st), 1)"
| "floppy_seek_loop (Suc i) dev base cyl head st = do {
     st1 \<leftarrow> fl_wait_ready st;
     st2 \<leftarrow> fl_wait_max_time 3000 (floppy_cmds dev base [FLOPPY_CMD_SEEK, ucast (push_bit 2 head), ucast cyl] st1);
     let (st0, cyl', st3) = floppy_check_interrupt dev base st2;
     if st0 AND 0xC0 \<noteq> 0 then do {
       s \<leftarrow> aread floppy_err_status (unat (drop_bit 6 st0));
       floppy_seek_loop i dev base cyl head (fl_log (''[ERROR]Floppy seek status '' @ quoted s) [] st3)
     }
     else Some (floppy_motor dev base FLOPPY_MOTOR_OFF st3, 0)
   }"

definition floppy_seek :: "'d port_device \<Rightarrow> u16 \<Rightarrow> u16 \<Rightarrow> u16 \<Rightarrow> 'd floppy \<Rightarrow> ('d floppy \<times> int) option" where
  "floppy_seek dev base cyl head st = floppy_seek_loop 5 dev base cyl head (floppy_motor dev base FLOPPY_MOTOR_ON st)"

section \<open>Transfer\<close>

definition floppy_dma_init :: "'d port_device \<Rightarrow> u32 \<Rightarrow> int \<Rightarrow> 'd floppy \<Rightarrow> 'd floppy \<times> int" where
  "floppy_dma_init dev addr dir st =
     (let count = FLOPPY_BUFFER_LEN in
      if drop_bit 24 addr \<noteq> 0 \<or> drop_bit 16 count \<noteq> 0 \<or> drop_bit 16 ((addr AND 0xFFFF) + count) \<noteq> 0
      then (fl_log ''[ERROR] Floppy DMA initialisation failed: static buffer problem.'' [] st, 1)
      else if dir \<noteq> FLOPPY_DIR_READ \<and> dir \<noteq> FLOPPY_DIR_WRITE
      then (fl_log ''[ERROR] Floppy DMA initialisation failed: invalid direction.'' [] st, 1)
      else
        (let mode = (if dir = FLOPPY_DIR_READ then 0x46 else 0x4a) in
         (fold (\<lambda>(port, b). fl_out dev port b)
            [(0x0A, 0x06), (0x0C, 0xFF), (0x04, ucast addr), (0x04, ucast (drop_bit 8 addr)), (0x81, ucast (drop_bit 16 addr)),
             (0x0C, 0xFF), (0x05, ucast count), (0x05, ucast (drop_bit 8 count)), (0x0B, mode), (0x0A, 0x02)] st, 0)))"

text \<open>The position of a sector; a division by zero traps.\<close>

definition floppy_chs :: "DISK \<Rightarrow> u32 \<Rightarrow> (u16 \<times> u16 \<times> u16) option" where
  "floppy_chs disk lba =
     (if disk_sectors disk = 0 \<or> disk_heads disk = 0 then None
      else (let lba_sectors = (word_of_int (sint lba sdiv uint (disk_sectors disk)) :: u32);
          sec = word_of_int (sint lba smod uint (disk_sectors disk) + 1);
          cyl = ucast (lba_sectors div ucast (disk_heads disk));
          head = ucast (lba_sectors mod ucast (disk_heads disk)) in
        Some (cyl, head, sec)))"

text \<open>What the seven result bytes complain about, in the order of the messages.\<close>

definition floppy_errors :: "u8 \<Rightarrow> u8 \<Rightarrow> u8 \<Rightarrow> u8 \<Rightarrow> (string \<times> u32 list) list" where
  "floppy_errors st0 st1 st2 bps = map snd (filter fst
     [(st0 AND 0xC0 \<noteq> 0, '' status '' @ quoted (floppy_err_status ! unat (drop_bit 6 st0)), []),
      (st0 AND 0x08 \<noteq> 0, '': drive not ready.'', []),
      (st1 AND 0x80 \<noteq> 0, '': end of cylinder.'', []),
      (st1 AND 0x20 \<noteq> 0, '': CRC error.'', []),
      (st1 AND 0x10 \<noteq> 0, '': controller timed out.'', []),
      (st1 AND 0x04 \<noteq> 0, '': no data found.'', []),
      (st1 AND 0x02 \<noteq> 0, '': not writable.'', []),
      ((st1 OR st2) AND 0x01 \<noteq> 0, '': no address mark found.'', []),
      (st2 AND 0x40 \<noteq> 0, '': deleted address mark.'', []),
      (st2 AND 0x20 \<noteq> 0, '': CRC error in data.'', []),
      (st2 AND 0x10 \<noteq> 0, '': wrong cylinder.'', []),
      (st2 AND 0x04 \<noteq> 0, '': uPD765 sector not found.'', []),
      (st2 AND 0x02 \<noteq> 0, '': bad cylinder.'', []),
      (bps \<noteq> 0x02, '': expected 512B/sector, got %uB/s'', [push_bit (unat bps + 7) 1])])"

fun floppy_execute_loop ::
    "nat \<Rightarrow> 'd port_device \<Rightarrow> u32 \<Rightarrow> u16 \<Rightarrow> u8 \<Rightarrow> int \<Rightarrow> u16 \<times> u16 \<times> u16 \<Rightarrow> 'd floppy \<Rightarrow> ('d floppy \<times> int) option" where
  "floppy_execute_loop 0 dev addr base cmd dir chs st =
     Some (floppy_motor dev base FLOPPY_MOTOR_OFF (fl_log ''[ERROR]Floppy execution: failed 5 retries.'' [] st), 1)"
| "floppy_execute_loop (Suc i) dev addr base cmd dir (cyl, head, sec) st = do {
     let (st1, fail) = floppy_dma_init dev addr dir (floppy_motor dev base FLOPPY_MOTOR_ON st);
     if fail \<noteq> 0 then floppy_execute_loop i dev addr base cmd dir (cyl, head, sec)
       (fl_log ''[ERROR]Floppy execution: DMA initialisation failed.'' [] st1)
     else do {
       st2 \<leftarrow> fl_wait_ready st1;
       st3 \<leftarrow> fl_wait_max_time 3000 (floppy_cmds dev base
         [cmd, ucast (push_bit 2 head), ucast cyl, ucast head, ucast sec, 2, 18, 27, 0xFF] st2);
       let (res, st4) = floppy_read_ports 7 dev base st3;
       let st5 = fl_log ''[LOG]Floppy Disk Driver: (success) read head %i, cylinder %i, sector %i.'' [ucast head, ucast cyl, ucast sec] st4;
       let errors = floppy_errors (res ! 0) (res ! 1) (res ! 2) (res ! 6);
       let st6 = fold (\<lambda>(s, args). fl_log (''[ERROR]Floppy execution'' @ s) args) errors st5;
       if errors = [] then Some (floppy_motor dev base FLOPPY_MOTOR_OFF st6, 0)
       else floppy_execute_loop i dev addr base cmd dir (cyl, head, sec) (fl_log ''[ERROR]Floppy execution: retrying.'' [] st6)
     }
   }"

definition floppy_execute ::
    "'d port_device \<Rightarrow> u32 \<Rightarrow> DISK \<Rightarrow> u16 \<Rightarrow> u32 \<Rightarrow> int \<Rightarrow> 'd floppy \<Rightarrow> ('d floppy \<times> int) option" where
  "floppy_execute dev addr disk base lba dir st =
     (if dir \<noteq> FLOPPY_DIR_READ \<and> dir \<noteq> FLOPPY_DIR_WRITE
      then Some (fl_log ''[ERROR] Floppy execution failed: invalid direction.'' [] st, 1)
      else do {
        let cmd = (if dir = FLOPPY_DIR_READ then FLOPPY_CMD_READ_DATA else FLOPPY_CMD_WRITE_DATA) OR 0xC0;
        (cyl, head, sec) \<leftarrow> floppy_chs disk lba;
        (st1, fail) \<leftarrow> floppy_seek dev base cyl head st;
        if fail \<noteq> 0 then Some (st1, 1)
        else floppy_execute_loop 5 dev addr base cmd dir (cyl, head, sec) st1
      })"

text \<open>The bytes a read gives its caller; they are the first 512 of the transfer buffer.\<close>

definition i686_floppy_read_sector ::
    "'d port_device \<Rightarrow> u32 \<Rightarrow> DISK \<Rightarrow> u16 \<Rightarrow> u32 \<Rightarrow> 'd floppy \<Rightarrow> ('d floppy \<times> int \<times> u8 list option) option" where
  "i686_floppy_read_sector dev addr disk base lba st = do {
     (st1, status) \<leftarrow> floppy_execute dev addr disk base lba FLOPPY_DIR_READ st;
     Some (st1, status, if status \<noteq> 0 then None else Some (take 512 (p_read dev (fl_dev st1))))
   }"

definition i686_floppy_writer_sector ::
    "'d port_device \<Rightarrow> u32 \<Rightarrow> DISK \<Rightarrow> u16 \<Rightarrow> u32 \<Rightarrow> u8 list \<Rightarrow> 'd floppy \<Rightarrow> ('d floppy \<times> int) option" where
  "i686_floppy_writer_sector dev addr disk base lba data st =
     floppy_execute dev addr disk base lba FLOPPY_DIR_WRITE
       (st\<lparr>fl_dev := p_write dev (take 512 data @ drop 512 (p_read dev (fl_dev st))) (fl_dev st)\<rparr>)"

end
