(* ===== verification/FloppyCorrect.thy ===== *)
theory FloppyCorrect
  imports Floppy
begin

text \<open>
  What the floppy driver does with an 82077 controller: the state of the controller and of
  channel 2 of the DMA controller as the driver uses them, the waits of the driver, and the
  transfer of a sector. The controller follows its data sheet except in one point, which is left
  open: whether it reports the end of the cylinder. The data sheet says it does; then every
  transfer of this driver is reported as failed. Emulators do not, and with them the driver works.
\<close>

section \<open>The controller\<close>

text \<open>
  \<open>fdc_cmd\<close> are the bytes of a command that is not complete, \<open>fdc_results\<close> what is still to be
  read. A sector of the medium is named by cylinder, head and number. \<open>fdc_strict\<close> is for the
  controllers that report the end of the cylinder, as the data sheet says, when a transfer has
  used the sectors up before the terminal count of the DMA channel; the controllers of emulators,
  for which it is false, end such a transfer as a normal one.
\<close>

record fdc =
  fdc_strict :: bool
  fdc_cmd :: "u8 list"
  fdc_results :: "u8 list"
  fdc_cyl :: u8
  fdc_media :: "u8 \<times> u8 \<times> u8 \<Rightarrow> u8 list"
  fdc_buffer :: "u8 list"
  fdc_buffer_addr :: u32
  dma_high :: bool
  dma_addr :: u16
  dma_page :: u8
  dma_count :: u16
  dma_mode :: u8
  dma_masked :: bool

definition command_length :: "u8 \<Rightarrow> nat" where
  "command_length c = (let op = c AND 0x1F in
     if op = 3 \<or> op = 15 then 3 else if op = 5 \<or> op = 6 then 9 else if op = 7 then 2 else 1)"

text \<open>A transfer with the multi-track bit goes on to the end of the track, then to the other head.\<close>

definition transfer_run :: "u8 \<Rightarrow> u8 \<Rightarrow> u8 \<Rightarrow> nat \<Rightarrow> (u8 \<times> u8) list" where
  "transfer_run head sec eot n = take n
     (map (\<lambda>s. (head, word_of_nat s)) [unat sec ..< Suc (unat eot)] @
      (if head = 0 then map (\<lambda>s. (1, word_of_nat s)) [1 ..< Suc (unat eot)] else []))"

definition dma_target :: "fdc \<Rightarrow> u32" where
  "dma_target f = push_bit 16 (ucast (dma_page f)) OR ucast (dma_addr f)"

definition slices :: "u8 list \<Rightarrow> nat \<Rightarrow> u8 list list" where
  "slices bs n = map (\<lambda>i. take 512 (drop (512 * i) bs)) [0..<n]"

text \<open>
  The results of a transfer that went through \<open>run\<close>: the status bytes, with the head in the first
  one, and the place behind the last sector.
\<close>

definition transfer_status :: "fdc \<Rightarrow> (u8 \<times> u8) list \<Rightarrow> u8 list" where
  "transfer_status f run = (if fdc_strict f \<and> 512 * length run < unat (dma_count f) + 1
     then [0x40 OR push_bit 2 (fst (last run)), 0x80, 0] else [push_bit 2 (fst (last run)), 0, 0])"

definition transfer_end :: "u8 list \<Rightarrow> (u8 \<times> u8) list \<Rightarrow> u8 list" where
  "transfer_end c run = (case last run of (h, s) \<Rightarrow>
     if s < c ! 6 then [c ! 2, h, s + 1] else if h = 0 then [c ! 2, 1, 1] else [c ! 2 + 1, 0, 1])"

definition fdc_transfer :: "u8 list \<Rightarrow> fdc \<Rightarrow> fdc" where
  "fdc_transfer c f =
     (let run = transfer_run (c ! 3) (c ! 4) (c ! 6) ((unat (dma_count f) + 1) div 512); n = length run;
          reads = (c ! 0 AND 0x1F = 6) in
      if dma_masked f \<or> dma_target f \<noteq> fdc_buffer_addr f \<or> dma_mode f \<noteq> (if reads then 0x46 else 0x4A) \<or> c ! 2 \<noteq> fdc_cyl f \<or> run = []
      then f\<lparr>fdc_results := [0x40 OR push_bit 2 (c ! 3), 0, 0, c ! 2, c ! 3, c ! 4, 2]\<rparr>
      else if reads
      then f\<lparr>fdc_results := transfer_status f run @ transfer_end c run @ [2],
        fdc_buffer := concat (map (\<lambda>(h, s). fdc_media f (c ! 2, h, s)) run) @ drop (512 * n) (fdc_buffer f)\<rparr>
      else f\<lparr>fdc_results := transfer_status f run @ transfer_end c run @ [2],
        fdc_media := (\<lambda>(cyl, h, s). case if cyl = c ! 2 then map_of (zip run (slices (fdc_buffer f) n)) (h, s) else None of
          None \<Rightarrow> fdc_media f (cyl, h, s) | Some bs \<Rightarrow> bs)\<rparr>)"

definition fdc_execute :: "u8 list \<Rightarrow> fdc \<Rightarrow> fdc" where
  "fdc_execute c f = (let op = c ! 0 AND 0x1F in
     if op = 15 then f\<lparr>fdc_cyl := c ! 2\<rparr>
     else if op = 7 then f\<lparr>fdc_cyl := 0\<rparr>
     else if op = 8 then f\<lparr>fdc_results := [0x20, fdc_cyl f]\<rparr>
     else if op = 5 \<or> op = 6 then fdc_transfer c f
     else f)"

text \<open>
  The main status register: ready for a byte, busy with a command that is not complete, or with
  results to be read.
\<close>

definition fdc_status :: "fdc \<Rightarrow> u8" where
  "fdc_status f = (if fdc_results f \<noteq> [] then 0xD0 else if fdc_cmd f \<noteq> [] then 0x90 else 0x80)"

definition fdc_in :: "fdc \<Rightarrow> u16 \<Rightarrow> u8 \<times> fdc" where
  "fdc_in f port =
     (if port = 0x3F4 then (fdc_status f, f)
      else if port = 0x3F5 then (case fdc_results f of [] \<Rightarrow> (0, f) | r # rs \<Rightarrow> (r, f\<lparr>fdc_results := rs\<rparr>))
      else (0, f))"

definition low_byte :: "u16 \<Rightarrow> u8 \<Rightarrow> u16" where "low_byte w b = push_bit 8 (drop_bit 8 w) OR ucast b"
definition high_byte :: "u16 \<Rightarrow> u8 \<Rightarrow> u16" where "high_byte w b = ucast (ucast w :: u8) OR push_bit 8 (ucast b)"

definition fdc_out :: "fdc \<Rightarrow> u16 \<Rightarrow> u8 \<Rightarrow> fdc" where
  "fdc_out f port b =
     (if port = 0x3F5 then
        (let c = fdc_cmd f @ [b] in
         if length c < command_length (hd c) then f\<lparr>fdc_cmd := c\<rparr> else fdc_execute c (f\<lparr>fdc_cmd := []\<rparr>))
      else if port = 0x0A then (if b AND 3 = 2 then f\<lparr>dma_masked := b AND 4 \<noteq> 0\<rparr> else f)
      else if port = 0x0B then (if b AND 3 = 2 then f\<lparr>dma_mode := b\<rparr> else f)
      else if port = 0x0C then f\<lparr>dma_high := False\<rparr>
      else if port = 0x04 then f\<lparr>dma_addr := (if dma_high f then high_byte else low_byte) (dma_addr f) b, dma_high := \<not> dma_high f\<rparr>
      else if port = 0x05 then f\<lparr>dma_count := (if dma_high f then high_byte else low_byte) (dma_count f) b, dma_high := \<not> dma_high f\<rparr>
      else if port = 0x81 then f\<lparr>dma_page := b\<rparr>
      else f)"

text \<open>
  A device that behaves like the controller, seen through \<open>rep\<close>. Of the main status register only
  the two upper bits are fixed: the others tell which drives are still moving. What other ports
  give, and the data port while there is no result, is left open.
\<close>

definition is_fdc :: "'d port_device \<Rightarrow> ('d \<Rightarrow> fdc) \<Rightarrow> bool" where
  "is_fdc dev rep \<longleftrightarrow>
     (\<forall>d. fst (p_in dev d 0x3F4) AND 0xC0 = fdc_status (rep d) AND 0xC0) \<and>
     (\<forall>d. fdc_results (rep d) \<noteq> [] \<longrightarrow> fst (p_in dev d 0x3F5) = hd (fdc_results (rep d))) \<and>
     (\<forall>d port. rep (snd (p_in dev d port)) = snd (fdc_in (rep d) port)) \<and>
     (\<forall>d port b. rep (p_out dev d port b) = fdc_out (rep d) port b) \<and>
     (\<forall>d. p_read dev d = fdc_buffer (rep d)) \<and> (\<forall>d bs. rep (p_write dev bs d) = (rep d)\<lparr>fdc_buffer := bs\<rparr>)"

definition fdc_device :: "fdc port_device" where
  "fdc_device = \<lparr>p_in = fdc_in, p_out = fdc_out, p_read = fdc_buffer, p_write = (\<lambda>bs f. f\<lparr>fdc_buffer := bs\<rparr>)\<rparr>"

lemma fdc_device_is_fdc: "is_fdc fdc_device id"
  by (simp add: is_fdc_def fdc_device_def fdc_in_def split: list.split)

section \<open>The position of a sector\<close>

definition small_disk :: "DISK \<Rightarrow> bool" where
  "small_disk disk \<longleftrightarrow> disk_heads disk = 2 \<and> disk_sectors disk = 18"

lemma unat_lt_16: "unat (w :: u16) < 65536"
  using unsigned_less [of w, where 'a = nat] by simp

lemma sdiv_nat: "int a sdiv int b = int (a div b)"
  by (cases "a = 0"; cases "b = 0") (simp_all add: signed_divide_int_def sgn_if zdiv_int)

lemma smod_nat: "int a smod int b = int (a mod b)"
  by (cases "a = 0"; cases "b = 0") (simp_all add: signed_modulo_int_def sgn_if zmod_int)

lemma floppy_chs_geometry:
  assumes "0 < disk_sectors disk" "0 < disk_heads disk" "unat lba < 2 ^ 16"
  defines "S \<equiv> unat (disk_sectors disk)" and "H \<equiv> unat (disk_heads disk)"
  shows "\<exists>cyl head sec. floppy_chs disk lba = Some (cyl, head, sec) \<and> unat sec = unat lba mod S + 1 \<and>
    unat head = unat lba div S mod H \<and> unat cyl = unat lba div S div H"
proof -
  let ?l = "unat lba"
  have nz: "0 < S" "0 < H" "S < 65536" "H < 65536" "disk_sectors disk \<noteq> 0" "disk_heads disk \<noteq> 0"
    using assms(1,2) unat_lt_16 [of "disk_sectors disk"] unat_lt_16 [of "disk_heads disk"]
    by (auto simp: S_def H_def word_less_nat_alt)
  have lw: "lba = word_of_nat ?l" by simp
  have l: "sint lba = int ?l"
    by (subst lw, subst signed_of_nat) (use assms(3) in \<open>simp add: signed_take_bit_int_eq_self del: of_nat_unat\<close>)
  have u: "uint (disk_sectors disk) = int S" "unat (ucast (disk_heads disk) :: u32) = H"
    "take_bit 32 (unat (disk_heads disk)) = H"
    using nz(4) by (simp_all add: S_def H_def unsigned_ucast_eq take_bit_nat_eq_self)
  define q where "q = (word_of_nat (?l div S) :: u32)"
  have q: "word_of_int (sint lba sdiv uint (disk_sectors disk)) = q"
    unfolding l u(1) q_def sdiv_nat by simp
  have qb: "?l div S < 2 ^ 16" using assms(3) by (meson div_le_dividend le_less_trans)
  then have uq: "unat q = ?l div S" by (simp add: q_def unat_of_nat take_bit_eq_mod)
  have r: "sint lba smod uint (disk_sectors disk) + 1 = int (?l mod S + 1)"
    unfolding l u(1) smod_nat by simp
  have "?l mod S + 1 < 65536" using nz(1,3) mod_less_divisor [of S ?l] by linarith
  then have us: "unat (word_of_int (int (?l mod S + 1)) :: u16) = ?l mod S + 1"
    unfolding of_int_of_nat_eq unat_of_nat by (simp add: take_bit_eq_mod)
  have "?l div S mod H < 65536" using nz(2,4) mod_less_divisor [of H "?l div S"] by linarith
  then have uh: "unat (ucast (q mod ucast (disk_heads disk)) :: u16) = ?l div S mod H"
    by (simp add: unsigned_ucast_eq take_bit_nat_eq_self uq u(2,3) unat_mod)
  have "?l div S div H < 65536" using qb div_le_dividend [of "?l div S" H] by (rule_tac le_less_trans) simp_all
  then have uc: "unat (ucast (q div ucast (disk_heads disk)) :: u16) = ?l div S div H"
    by (simp add: unsigned_ucast_eq take_bit_nat_eq_self uq u(2,3) unat_div)
  show ?thesis unfolding floppy_chs_def q r using nz(5,6) us uh uc by (simp add: Let_def)
qed


section \<open>Waiting for the controller\<close>

text \<open>
  The kernel waits with its own code: no wait is open, and line 0 alone is the timer. A wait ends
  with an interrupt of line 6 before 60 timer interrupts, or with the 60th of them.
\<close>

definition floppy_idle :: "machine \<Rightarrow> bool" where
  "floppy_idle m \<longleftrightarrow> kernel_waits m \<and> \<not> interrupt_called_ready m \<and> Some Sleep_interrupt \<notin> set (irq_handlers m) \<and>
     irq_handlers m ! 0 = Some Irq_idle \<and>
     (\<forall>k < 16. 0 < k \<longrightarrow> irq_handlers m ! k \<noteq> Some Irq_idle)"

primrec waits_end :: "nat \<Rightarrow> occurrence list \<Rightarrow> occurrence list \<Rightarrow> bool" where
  "waits_end 0 evs rest \<longleftrightarrow> evs = rest"
| "waits_end (Suc n) evs rest \<longleftrightarrow> (\<exists>used ev evs'. evs = used @ ev # evs' \<and> hardware used \<and> (\<forall>e \<in> set used. \<not> line 6 e) \<and>
     (line 6 ev \<and> length (filter (line 0) used) < 60 \<or> line 0 ev \<and> length (filter (line 0) used) = 59) \<and> waits_end n evs' rest)"

lemma wait_answer:
  assumes "kernel_waits m" "\<forall>k < 16. irq_handlers m ! k = Some Sleep_interrupt \<longleftrightarrow> k = 6" "\<not> interrupt_called m"
    "\<forall>k < 16. irq_handlers m ! k = Some Irq_idle \<longleftrightarrow> k = 0" "idle_ticks m = word_of_nat t" "t \<le> 60"
    "hardware used" "\<forall>e \<in> set used. \<not> line 6 e"
    "line 6 ev \<and> length (filter (line 0) used) < t \<or> line 0 ev \<and> Suc (length (filter (line 0) used)) = t"
    "\<forall>m. go_on m \<longleftrightarrow> \<not> interrupt_called m \<and> idle_ticks m \<noteq> 0"
  shows "\<exists>m'. wait_loop go_on m (used @ ev # rest) = Some (m', rest) \<and> kernel_waits m' \<and>
    irq_handlers m' = irq_handlers m \<and> old_handler m' = old_handler m"
  using assms
proof (induction used arbitrary: m t)
  case Nil
  then have "idle_ticks m \<noteq> 0" by (auto simp: word_of_nat_eq_0_iff)
  moreover obtain k where k: "k < 16" "line k ev" "k = 6 \<or> k = 0 \<and> t = 1"
    using Nil.prems(9) that [of 0] that [of 6] by auto
  ultimately obtain m1 where 1: "wait_loop go_on m (ev # rest) = wait_loop go_on m1 rest" "kernel_waits m1" "timers_after m (irq_handlers m ! k) m1"
    using wait_step [OF Nil.prems(1) _ k(2), of go_on rest] Nil.prems(3,10) by auto
  then have "\<not> go_on m1" using Nil.prems(2,4,5,10) k(1,3) by (auto simp: timers_after_def)
  then have "wait_loop go_on m1 rest = Some (m1, rest)"
    using 1(2) by (subst wait_loop.simps) (simp add: kernel_waits_def)
  then show ?case using 1 by (simp add: timers_after_def)
next
  case (Cons e used)
  obtain k where k: "k < 16" "line k e" using Cons.prems(7) by (auto simp: hardware_def)
  have t0: "0 < t" using Cons.prems(9) by auto
  then have "idle_ticks m \<noteq> 0" using Cons.prems(5,6) by (auto simp: word_of_nat_eq_0_iff)
  then obtain m1 where 1: "wait_loop go_on m (e # used @ ev # rest) = wait_loop go_on m1 (used @ ev # rest)" "kernel_waits m1"
    "timers_after m (irq_handlers m ! k) m1"
    using wait_step [OF Cons.prems(1) _ k(2,1), of go_on "used @ ev # rest"] Cons.prems(3,10) by auto
  note tm = 1(3) [unfolded timers_after_def]
  have k6: "k \<noteq> 6" using k(2) Cons.prems(8) by auto
  have line0: "line 0 e \<longleftrightarrow> k = 0" using k(2) line_unique by blast
  define t' where "t' = (if k = 0 then t - 1 else t)"
  have len: "line 6 ev \<and> length (filter (line 0) used) < t' \<or> line 0 ev \<and> Suc (length (filter (line 0) used)) = t'"
    using Cons.prems(9) line0 t0 by (auto simp: t'_def)
  have idle: "idle_ticks m1 = word_of_nat t'" using tm Cons.prems(4,5) k(1) t0 by (auto simp: t'_def of_nat_diff)
  have hd: "irq_handlers m1 = irq_handlers m" "\<not> interrupt_called m1" using tm Cons.prems(2,3) k(1) k6 by auto
  have "\<exists>m'. wait_loop go_on m1 (used @ ev # rest) = Some (m', rest) \<and> kernel_waits m' \<and>
    irq_handlers m' = irq_handlers m1 \<and> old_handler m' = old_handler m1"
    by (rule Cons.IH [where t = t']) (use Cons.prems(2,4,6-8,10) hd idle len 1(2) in \<open>auto simp: hardware_def t'_def\<close>)
  then show ?case using 1(1) tm by simp
qed

section \<open>Commands\<close>

text \<open>Steps of the driver outside the waits: only the records of what was written and printed change.\<close>

definition quiet :: "'d floppy \<Rightarrow> 'd floppy \<Rightarrow> bool" where
  "quiet st st' \<longleftrightarrow> fl_machine st' = (fl_machine st)\<lparr>outs := outs (fl_machine st'), msgs := msgs (fl_machine st')\<rparr> \<and>
     fl_events st' = fl_events st"

lemma quiet_refl [simp]: "quiet st st"
  by (simp add: quiet_def)

lemma quietI:
  assumes "fl_machine st' = (fl_machine st)\<lparr>outs := os, msgs := ms\<rparr>" "fl_events st' = fl_events st"
  shows "quiet st st'"
  unfolding quiet_def assms by simp

lemma quietE:
  assumes "quiet st st'"
  obtains os ms where "fl_machine st' = (fl_machine st)\<lparr>outs := os, msgs := ms\<rparr>" "fl_events st' = fl_events st"
  using assms unfolding quiet_def by blast

lemma quiet_trans:
  assumes "quiet st st'" "quiet st' st''" shows "quiet st st''"
proof -
  obtain os ms where 1: "fl_machine st' = (fl_machine st)\<lparr>outs := os, msgs := ms\<rparr>" "fl_events st' = fl_events st"
    using assms(1) by (rule quietE)
  obtain os' ms' where 2: "fl_machine st'' = (fl_machine st')\<lparr>outs := os', msgs := ms'\<rparr>" "fl_events st'' = fl_events st'"
    using assms(2) by (rule quietE)
  show ?thesis by (rule quietI [where os = os' and ms = ms']) (simp_all add: 1 2)
qed

lemma quiet_out [simp]: "quiet st (fl_out dev port b st)"
  by (rule quietI [where os = "outs (fl_machine st) @ [(port, b)]" and ms = "msgs (fl_machine st)"]) (simp_all add: fl_out_def put_outs_def)

lemma quiet_log [simp]: "quiet st (fl_log s args st)"
  by (rule quietI [where os = "outs (fl_machine st)" and ms = "msgs (fl_machine st) @ [(s, args)]"]) (simp_all add: fl_log_def log_msg_def)

lemma quiet_in [simp]: "quiet st (snd (fl_in dev port st))"
  by (rule quietI [where os = "outs (fl_machine st)" and ms = "msgs (fl_machine st)"]) (simp_all add: fl_in_def split_def)

lemma quiet_motor_state [simp]: "quiet st (st'\<lparr>floppy_motor_state := x\<rparr>) = quiet st st'"
    "quiet st (st'\<lparr>floppy_motor_ticks := y\<rparr>) = quiet st st'"
  by (simp_all add: quiet_def)

lemma quiet_motor [simp]: "quiet st (floppy_motor dev base s st)"
  by (simp add: floppy_motor_def)

lemma quiet_idle:
  assumes "quiet st st'" shows "floppy_idle (fl_machine st') = floppy_idle (fl_machine st)"
proof -
  obtain os ms where "fl_machine st' = (fl_machine st)\<lparr>outs := os, msgs := ms\<rparr>" "fl_events st' = fl_events st"
    using assms by (rule quietE)
  then show ?thesis by (simp add: floppy_idle_def kernel_waits_def machine_ok_def)
qed

lemma fl_dev_log [simp]: "fl_dev (fl_log s args st) = fl_dev st"
  by (simp add: fl_log_def)

lemma rep_out: "is_fdc dev rep \<Longrightarrow> rep (fl_dev (fl_out dev port b st)) = fdc_out (rep (fl_dev st)) port b"
  by (simp add: is_fdc_def fl_out_def)

lemma rep_in:
  assumes "is_fdc dev rep"
  shows "rep (fl_dev (snd (fl_in dev port st))) = snd (fdc_in (rep (fl_dev st)) port)"
    "fst (fl_in dev 0x3F4 st) AND 0xC0 = fdc_status (rep (fl_dev st)) AND 0xC0"
    "fdc_results (rep (fl_dev st)) = r # rs \<Longrightarrow> fst (fl_in dev 0x3F5 st) = r"
  using assms by (simp_all add: is_fdc_def fl_in_def split_def)

lemma fdc_out_other [simp]: "fdc_out f 0x3F2 b = f"
  by (simp add: fdc_out_def)

lemma rep_motor: "is_fdc dev rep \<Longrightarrow> rep (fl_dev (floppy_motor dev 0x3F0 s st)) = rep (fl_dev st)"
  using rep_out [of dev rep "0x3F2" "0x1C" st] by (simp add: floppy_motor_def FLOPPY_DOR_def)

lemma status_bits:
  "fdc_results f = [] \<Longrightarrow> fdc_status f AND 0xC0 = 0x80" "fdc_results f \<noteq> [] \<Longrightarrow> fdc_status f AND 0xC0 = 0xC0"
  by (simp_all add: fdc_status_def)

lemma status_ready: "v AND 0xC0 = 0xC0 \<Longrightarrow> v AND 0x80 \<noteq> (0 :: u8)"
proof
  assume "v AND 0xC0 = 0xC0" "v AND 0x80 = 0"
  moreover have "v AND 0x80 = (v AND 0xC0) AND 0x80" by (simp add: and.assoc)
  ultimately show False by simp
qed

lemma floppy_cmd_ready:
  assumes "is_fdc dev rep" "fdc_results (rep (fl_dev st)) = []"
  shows "quiet st (fst (floppy_cmd dev 0x3F0 b st))" "snd (floppy_cmd dev 0x3F0 b st)"
    "rep (fl_dev (fst (floppy_cmd dev 0x3F0 b st))) = fdc_out (rep (fl_dev st)) 0x3F5 b"
proof -
  obtain v st1 where i: "fl_in dev 0x3F4 st = (v, st1)" by fastforce
  have "v AND 0xC0 = 0x80"
    using rep_in(2) [OF assms(1), of st] status_bits(1) [OF assms(2)] i by simp
  then have v: "v AND 0xC0 = 0x80" "rep (fl_dev st1) = rep (fl_dev st)" "quiet st st1"
    using rep_in(1) [OF assms(1), of "0x3F4" st] quiet_in [of st dev "0x3F4"] i by (simp_all add: fdc_in_def)
  have "floppy_cmd_loop (Suc n) dev 0x3F0 b st = (fl_out dev 0x3F5 b st1, True)" for n
    using i v(1) by (simp add: FLOPPY_MSR_def FLOPPY_FIFO_def)
  from this [of 199] have "floppy_cmd dev 0x3F0 b st = (fl_out dev 0x3F5 b st1, True)"
    by (simp only: floppy_cmd_def Suc_numeral) simp
  then show "quiet st (fst (floppy_cmd dev 0x3F0 b st))" "snd (floppy_cmd dev 0x3F0 b st)"
    "rep (fl_dev (fst (floppy_cmd dev 0x3F0 b st))) = fdc_out (rep (fl_dev st)) 0x3F5 b"
    using v rep_out [OF assms(1)] quiet_trans [OF v(3) quiet_out] by simp_all
qed

lemma floppy_read_port_ready:
  assumes "is_fdc dev rep" "fdc_results (rep (fl_dev st)) = r # rs"
  shows "fst (floppy_read_port dev 0x3F0 st) = r" "quiet st (snd (floppy_read_port dev 0x3F0 st))"
    "rep (fl_dev (snd (floppy_read_port dev 0x3F0 st))) = (rep (fl_dev st))\<lparr>fdc_results := rs\<rparr>"
proof -
  obtain v st1 where i: "fl_in dev 0x3F4 st = (v, st1)" by fastforce
  have "v AND 0xC0 = 0xC0"
    using rep_in(2) [OF assms(1), of st] status_bits(2) [of "rep (fl_dev st)"] assms(2) i by simp
  then have v: "v AND 0x80 \<noteq> 0" "rep (fl_dev st1) = rep (fl_dev st)" "quiet st st1"
    using rep_in(1) [OF assms(1), of "0x3F4" st] quiet_in [of st dev "0x3F4"] status_ready i by (simp_all add: fdc_in_def)
  have "floppy_read_port_loop (Suc n) dev 0x3F0 st = fl_in dev 0x3F5 st1" for n
    using i v(1) by (simp add: FLOPPY_MSR_def FLOPPY_FIFO_def)
  from this [of 599] have "floppy_read_port dev 0x3F0 st = fl_in dev 0x3F5 st1"
    by (simp only: floppy_read_port_def Suc_numeral) simp
  then show "fst (floppy_read_port dev 0x3F0 st) = r" "quiet st (snd (floppy_read_port dev 0x3F0 st))"
    "rep (fl_dev (snd (floppy_read_port dev 0x3F0 st))) = (rep (fl_dev st))\<lparr>fdc_results := rs\<rparr>"
    using rep_in(1) [OF assms(1), of "0x3F5" st1] rep_in(3) [OF assms(1), of st1 r rs] v assms(2) quiet_trans [OF v(3) quiet_in]
    by (simp_all add: fdc_in_def)
qed

lemma floppy_read_ports_ready:
  assumes "is_fdc dev rep" "fdc_results (rep (fl_dev st)) = rs @ rs'"
  shows "\<exists>st'. floppy_read_ports (length rs) dev 0x3F0 st = (rs, st') \<and> quiet st st' \<and>
    rep (fl_dev st') = (rep (fl_dev st))\<lparr>fdc_results := rs'\<rparr>"
  using assms(2)
proof (induction rs arbitrary: st)
  case (Cons r rs)
  obtain v st1 where i: "floppy_read_port dev 0x3F0 st = (v, st1)" by fastforce
  have v: "v = r" "quiet st st1" "rep (fl_dev st1) = (rep (fl_dev st))\<lparr>fdc_results := rs @ rs'\<rparr>"
    using floppy_read_port_ready [OF assms(1), of st r "rs @ rs'"] Cons.prems i by simp_all
  then obtain st' where "floppy_read_ports (length rs) dev 0x3F0 st1 = (rs, st')" "quiet st1 st'"
    "rep (fl_dev st') = (rep (fl_dev st1))\<lparr>fdc_results := rs'\<rparr>"
    using Cons.IH [of st1] by auto
  then show ?case using i v quiet_trans by (auto simp: Let_def)
qed simp

text \<open>The bytes of a command; with the last one it is executed.\<close>

lemma floppy_cmds_ready:
  assumes "is_fdc dev rep" "fdc_results (rep (fl_dev st)) = []" "fdc_cmd (rep (fl_dev st)) @ bs \<noteq> []" "bs \<noteq> []"
    and "length (fdc_cmd (rep (fl_dev st)) @ bs) = command_length (hd (fdc_cmd (rep (fl_dev st)) @ bs))"
  shows "quiet st (floppy_cmds dev 0x3F0 bs st) \<and>
    rep (fl_dev (floppy_cmds dev 0x3F0 bs st)) = fdc_execute (fdc_cmd (rep (fl_dev st)) @ bs) ((rep (fl_dev st))\<lparr>fdc_cmd := []\<rparr>)"
  using assms(2-5)
proof (induction bs arbitrary: st)
  case (Cons b bs)
  let ?st = "fst (floppy_cmd dev 0x3F0 b st)" and ?f = "rep (fl_dev st)"
  note c = floppy_cmd_ready [OF assms(1) Cons.prems(1), of b]
  have hd: "hd (fdc_cmd ?f @ b # bs) = hd (fdc_cmd ?f @ [b])" by (cases "fdc_cmd ?f") simp_all
  have step: "floppy_cmds dev 0x3F0 (b # bs) st = floppy_cmds dev 0x3F0 bs ?st" by (simp add: floppy_cmds_def)
  show ?case
  proof (cases "bs = []")
    case True
    then show ?thesis using c Cons.prems(4) step hd by (simp add: floppy_cmds_def fdc_out_def Let_def)
  next
    case False
    then have "length (fdc_cmd ?f @ [b]) < command_length (hd (fdc_cmd ?f @ [b]))"
      using Cons.prems(4) hd by (cases bs) auto
    then have r: "rep (fl_dev ?st) = ?f\<lparr>fdc_cmd := fdc_cmd ?f @ [b]\<rparr>" using c(3) by (simp add: fdc_out_def Let_def)
    then have "quiet ?st (floppy_cmds dev 0x3F0 bs ?st) \<and> rep (fl_dev (floppy_cmds dev 0x3F0 bs ?st)) =
        fdc_execute (fdc_cmd (rep (fl_dev ?st)) @ bs) ((rep (fl_dev ?st))\<lparr>fdc_cmd := []\<rparr>)"
      using False Cons.prems(1,4) by (intro Cons.IH) simp_all
    then show ?thesis using step r quiet_trans [OF c(1)] by simp
  qed
qed simp

text \<open>What is done between the opening of a wait and its end.\<close>

lemma floppy_wait:
  assumes "floppy_idle (fl_machine st)" "waits_end (Suc n) (fl_events st) rest"
  obtains st1 where "fl_wait_ready st = Some st1" "fl_dev st1 = fl_dev st"
    "\<And>st2. quiet st1 st2 \<Longrightarrow> \<exists>st3. fl_wait_max_time 3000 st2 = Some st3 \<and> floppy_idle (fl_machine st3) \<and>
       waits_end n (fl_events st3) rest \<and> fl_dev st3 = fl_dev st2"
proof -
  let ?m = "fl_machine st"
  have K: "kernel_waits ?m" "\<not> interrupt_called_ready ?m" "Some Sleep_interrupt \<notin> set (irq_handlers ?m)"
    "\<forall>k < 16. irq_handlers ?m ! k = Some Irq_idle \<longleftrightarrow> k = 0" using assms(1) by (auto simp: floppy_idle_def)
  have len: "length (irq_handlers ?m) = 16" using K(1) by (simp add: kernel_waits_def machine_ok_def)
  let ?m1 = "?m\<lparr>interrupt_called := False, interrupt_called_ready := True, old_handler := irq_handlers ?m ! 6,
    irq_handlers := (irq_handlers ?m)[6 := Some Sleep_interrupt]\<rparr>"
  let ?st1 = "st\<lparr>fl_machine := ?m1\<rparr>"
  have six: "aread_int xs 6 = aread xs 6" "awrite_int xs 6 v = awrite xs 6 v" for xs :: "irq_fn option list" and v
    by (simp_all add: aread_int_def awrite_int_def)
  have "i686_wait_ready ?m 6 = Some ?m1"
    using K(2) len unfolding i686_wait_ready_def i686_irq_reg_handler_def six by simp
  then have ready: "fl_wait_ready st = Some ?st1" by (simp add: fl_wait_ready_def FLOPPY_IRQ_def)
  have "\<exists>st3. fl_wait_max_time 3000 st2 = Some st3 \<and> floppy_idle (fl_machine st3) \<and>
       waits_end n (fl_events st3) rest \<and> fl_dev st3 = fl_dev st2" if q: "quiet ?st1 st2" for st2
  proof -
    obtain os ms where "fl_machine st2 = (fl_machine ?st1)\<lparr>outs := os, msgs := ms\<rparr>" "fl_events st2 = fl_events ?st1"
      by (rule quietE [OF q])
    then have m2: "fl_machine st2 = ?m1\<lparr>outs := os, msgs := ms\<rparr>" "fl_events st2 = fl_events st" by simp_all
    obtain used ev evs where ev: "fl_events st = used @ ev # evs" "hardware used" "\<forall>e \<in> set used. \<not> line 6 e"
      "line 6 ev \<and> length (filter (line 0) used) < 60 \<or> line 0 ev \<and> Suc (length (filter (line 0) used)) = 60" "waits_end n evs rest"
      using assms(2) by auto
    let ?m3 = "(fl_machine st2)\<lparr>idle_ticks := word_of_int (3000 sdiv MS_PER_IDLE_TICK)\<rparr>"
    let ?go = "\<lambda>m. \<not> interrupt_called m \<and> (3000 < (0 :: int) \<or> idle_ticks m \<noteq> 0)"
    have ticks: "word_of_int (3000 sdiv MS_PER_IDLE_TICK) = (word_of_nat 60 :: u32)"
      by (simp add: MS_PER_IDLE_TICK_def signed_divide_int_def)
    have "kernel_waits ?m3" using K(1) m2 by (simp add: kernel_waits_def machine_ok_def)
    moreover have "\<forall>k < 16. irq_handlers ?m3 ! k = Some Sleep_interrupt \<longleftrightarrow> k = 6"
      using K(3) len m2 by (auto simp: nth_list_update) (metis nth_mem)
    moreover have "\<forall>k < 16. irq_handlers ?m3 ! k = Some Irq_idle \<longleftrightarrow> k = 0"
      using K(4) len m2 by (auto simp: nth_list_update)
    moreover have "\<not> interrupt_called ?m3" "idle_ticks ?m3 = word_of_nat 60" using m2 ticks by simp_all
    ultimately obtain m' where w: "wait_loop ?go ?m3 (used @ ev # evs) = Some (m', evs)" "kernel_waits m'"
      "irq_handlers m' = irq_handlers ?m3" "old_handler m' = old_handler ?m3"
      using wait_answer [of ?m3 60 used ev ?go evs] ev(2-4) by auto
    let ?m' = "m'\<lparr>interrupt_called := False, interrupt_called_ready := False, irq_handlers := irq_handlers ?m\<rparr>"
    have "i686_wait_max_time (fl_machine st2) 6 3000 (fl_events st2) = Some (?m', evs)"
      using w(1,3,4) m2 len ev(1) unfolding i686_wait_max_time_def i686_irq_reg_handler_def six by simp
    then have "fl_wait_max_time 3000 st2 = Some (st2\<lparr>fl_machine := ?m', fl_events := evs\<rparr>)"
      by (simp add: fl_wait_max_time_def FLOPPY_IRQ_def)
    moreover have "floppy_idle ?m'" using w(2) K by (simp add: floppy_idle_def kernel_waits_def machine_ok_def)
    ultimately show ?thesis using ev(5) by simp
  qed
  then show thesis using that ready by simp
qed

lemma floppy_transaction:
  assumes "is_fdc dev rep" "floppy_idle (fl_machine st)" "waits_end (Suc n) (fl_events st) rest"
    and "fdc_cmd (rep (fl_dev st)) = []" "fdc_results (rep (fl_dev st)) = []" "bs \<noteq> []" "length bs = command_length (hd bs)"
  shows "\<exists>st1 st2. fl_wait_ready st = Some st1 \<and> fl_wait_max_time 3000 (floppy_cmds dev 0x3F0 bs st1) = Some st2 \<and>
    floppy_idle (fl_machine st2) \<and> waits_end n (fl_events st2) rest \<and> rep (fl_dev st2) = fdc_execute bs (rep (fl_dev st))"
proof -
  obtain st1 where w: "fl_wait_ready st = Some st1" "fl_dev st1 = fl_dev st"
    "\<And>st2. quiet st1 st2 \<Longrightarrow> \<exists>st3. fl_wait_max_time 3000 st2 = Some st3 \<and> floppy_idle (fl_machine st3) \<and>
       waits_end n (fl_events st3) rest \<and> fl_dev st3 = fl_dev st2"
    using floppy_wait [OF assms(2,3)] by blast
  have same: "f\<lparr>fdc_cmd := []\<rparr> = f" if "fdc_cmd f = []" for f :: fdc using that by simp
  have "quiet st1 (floppy_cmds dev 0x3F0 bs st1) \<and> rep (fl_dev (floppy_cmds dev 0x3F0 bs st1)) = fdc_execute bs (rep (fl_dev st))"
    using floppy_cmds_ready [OF assms(1), of st1 bs] assms(4-7) w(2) by (simp add: same)
  then show ?thesis using w(1,3) by fastforce
qed

section \<open>Seek\<close>

lemma fl_dev_motor_state [simp]: "fl_dev (st\<lparr>floppy_motor_state := x\<rparr>) = fl_dev st" "fl_dev (st\<lparr>floppy_motor_ticks := y\<rparr>) = fl_dev st"
  by simp_all

text \<open>Between two commands the controller has taken every byte and given every result.\<close>

definition at_rest :: "fdc \<Rightarrow> bool" where
  "at_rest f \<longleftrightarrow> fdc_cmd f = [] \<and> fdc_results f = []"

definition driver_ready :: "('d \<Rightarrow> fdc) \<Rightarrow> nat \<Rightarrow> occurrence list \<Rightarrow> 'd floppy \<Rightarrow> bool" where
  "driver_ready rep n rest st \<longleftrightarrow> floppy_idle (fl_machine st) \<and> waits_end n (fl_events st) rest \<and> at_rest (rep (fl_dev st))"

lemma quiet_ready:
  assumes "quiet st st'" "driver_ready rep n rest st" "rep (fl_dev st') = f" "at_rest f"
  shows "driver_ready rep n rest st'"
proof -
  obtain os ms where "fl_machine st' = (fl_machine st)\<lparr>outs := os, msgs := ms\<rparr>" "fl_events st' = fl_events st"
    using assms(1) by (rule quietE)
  then show ?thesis using assms quiet_idle [OF assms(1)] by (simp add: driver_ready_def)
qed

lemma check_interrupt_ready:
  assumes "is_fdc dev rep" "at_rest (rep (fl_dev st))"
  shows "\<exists>st'. floppy_check_interrupt dev 0x3F0 st = (0x20, fdc_cyl (rep (fl_dev st)), st') \<and> quiet st st' \<and>
    rep (fl_dev st') = rep (fl_dev st)"
proof -
  let ?f = "rep (fl_dev st)"
  let ?s1 = "fst (floppy_cmd dev 0x3F0 FLOPPY_CMD_SENSE_INTERRUPT st)"
  have rest: "fdc_cmd ?f = []" "fdc_results ?f = []" using assms(2) by (simp_all add: at_rest_def)
  have r1: "rep (fl_dev ?s1) = ?f\<lparr>fdc_results := [0x20, fdc_cyl ?f]\<rparr>"
    using floppy_cmd_ready(3) [OF assms(1) rest(2), of FLOPPY_CMD_SENSE_INTERRUPT] rest
    by (simp add: fdc_out_def FLOPPY_CMD_SENSE_INTERRUPT_def command_length_def fdc_execute_def)
  have q1: "quiet st ?s1" using floppy_cmd_ready(1) [OF assms(1) rest(2)] .
  let ?s2 = "snd (floppy_read_port dev 0x3F0 ?s1)"
  note p2 = floppy_read_port_ready [OF assms(1), of ?s1 "0x20" "[fdc_cyl ?f]"]
  have r2: "rep (fl_dev ?s2) = ?f\<lparr>fdc_results := [fdc_cyl ?f]\<rparr>" using p2(3) r1 by simp
  let ?s3 = "snd (floppy_read_port dev 0x3F0 ?s2)"
  note p3 = floppy_read_port_ready [OF assms(1), of ?s2 "fdc_cyl ?f" "[]"]
  have r3: "rep (fl_dev ?s3) = ?f" using p3(3) r2 rest(2) by simp
  have "floppy_check_interrupt dev 0x3F0 st = (0x20, fdc_cyl ?f, ?s3)"
    using p2(1) p3(1) r1 r2 by (simp add: floppy_check_interrupt_def split_def Let_def prod_eq_iff)
  moreover have "quiet st ?s3" using q1 p2(2) p3(2) r1 r2 by (auto intro: quiet_trans)
  ultimately show ?thesis using r3 by blast
qed

lemma floppy_seek_ready:
  assumes "is_fdc dev rep" "driver_ready rep (Suc n) rest st"
  shows "\<exists>st'. floppy_seek dev 0x3F0 cyl head st = Some (st', 0) \<and> driver_ready rep n rest st' \<and>
    rep (fl_dev st') = (rep (fl_dev st))\<lparr>fdc_cyl := ucast cyl\<rparr>"
proof -
  let ?s0 = "floppy_motor dev 0x3F0 FLOPPY_MOTOR_ON st" and ?f = "rep (fl_dev st)"
  have f0: "rep (fl_dev ?s0) = ?f" using rep_motor [OF assms(1)] .
  have d0: "driver_ready rep (Suc n) rest ?s0"
    using quiet_ready [OF quiet_motor assms(2) f0] assms(2) by (simp add: driver_ready_def)
  let ?bs = "[FLOPPY_CMD_SEEK, ucast (push_bit 2 head), ucast cyl] :: u8 list"
  have c: "length ?bs = command_length (hd ?bs)" by (simp add: FLOPPY_CMD_SEEK_def command_length_def)
  obtain s1 s2 where t: "fl_wait_ready ?s0 = Some s1" "fl_wait_max_time 3000 (floppy_cmds dev 0x3F0 ?bs s1) = Some s2"
    "floppy_idle (fl_machine s2)" "waits_end n (fl_events s2) rest" "rep (fl_dev s2) = fdc_execute ?bs (rep (fl_dev ?s0))"
    using floppy_transaction [OF assms(1), of ?s0 n rest ?bs] d0 c by (auto simp: driver_ready_def at_rest_def)
  have f2: "rep (fl_dev s2) = ?f\<lparr>fdc_cyl := ucast cyl\<rparr>" using t(5) f0 by (simp add: fdc_execute_def FLOPPY_CMD_SEEK_def)
  have d2: "driver_ready rep n rest s2" using t(3,4) f2 assms(2) by (simp add: driver_ready_def at_rest_def)
  then have "at_rest (rep (fl_dev s2))" by (simp add: driver_ready_def)
  then obtain s3 cyl' where s3: "floppy_check_interrupt dev 0x3F0 s2 = (0x20, cyl', s3)" "quiet s2 s3" "rep (fl_dev s3) = rep (fl_dev s2)"
    using check_interrupt_ready [OF assms(1)] by blast
  let ?s4 = "floppy_motor dev 0x3F0 FLOPPY_MOTOR_OFF s3"
  have f4: "rep (fl_dev ?s4) = ?f\<lparr>fdc_cyl := ucast cyl\<rparr>" using rep_motor [OF assms(1)] s3(3) f2 by simp
  have "driver_ready rep n rest ?s4"
    using quiet_ready [OF quiet_trans [OF s3(2) quiet_motor] d2 f4] assms(2) by (simp add: driver_ready_def at_rest_def)
  moreover have "floppy_seek_loop (Suc k) dev 0x3F0 cyl head ?s0 = Some (?s4, 0)" for k
    using t(1,2) s3(1) by simp
  from this [of 4] have "floppy_seek dev 0x3F0 cyl head st = Some (?s4, 0)" by (simp only: floppy_seek_def Suc_numeral) simp
  ultimately show ?thesis using f4 by blast
qed

section \<open>The DMA channel\<close>

text \<open>What the channel is set to: the buffer, one byte more than the buffer, and the direction.\<close>

definition programmed :: "u32 \<Rightarrow> int \<Rightarrow> fdc \<Rightarrow> fdc" where
  "programmed addr dir f = f\<lparr>dma_high := False, dma_addr := ucast addr, dma_page := ucast (drop_bit 16 addr), dma_count := 0x4800,
     dma_mode := (if dir = FLOPPY_DIR_READ then 0x46 else 0x4A), dma_masked := False\<rparr>"

lemmas port_bits = bit_or_iff bit_push_bit_iff bit_ucast_iff bit_drop_bit_eq

lemma two_bytes: "high_byte (low_byte w a) b = ucast a OR push_bit 8 (ucast b)"
proof (rule bit_word_eqI)
  fix n assume "n < LENGTH(16)"
  then consider "n < 8" | "8 \<le> n \<and> n < 16" by fastforce
  then show "bit (high_byte (low_byte w a) b) n = bit (ucast a OR push_bit 8 (ucast b) :: u16) n"
    by cases (auto simp: high_byte_def low_byte_def port_bits dest: bit_imp_le_length)
qed

lemma address_bytes: "ucast (ucast addr :: u8) OR push_bit 8 (ucast (ucast (drop_bit 8 addr) :: u8)) = (ucast addr :: u16)" for addr :: u32
proof (rule bit_word_eqI)
  fix n assume "n < LENGTH(16)"
  then consider "n < 8" | "8 \<le> n \<and> n < 16" by fastforce
  then show "bit (ucast (ucast addr :: u8) OR push_bit 8 (ucast (ucast (drop_bit 8 addr) :: u8)) :: u16) n = bit (ucast addr :: u16) n"
    by cases (auto simp: port_bits)
qed

lemma dma_target_programmed:
  assumes "drop_bit 24 addr = 0" shows "dma_target (programmed addr dir f) = addr"
proof (rule bit_word_eqI)
  fix n assume n: "n < LENGTH(32)"
  consider "n < 16" | "16 \<le> n \<and> n < 24" | "24 \<le> n \<and> n < 32" using n by fastforce
  then show "bit (dma_target (programmed addr dir f)) n = bit addr n"
  proof cases
    case 3
    have "bit (drop_bit 24 addr) (n - 24) = bit addr n" using 3 by (simp add: bit_drop_bit_eq)
    then show ?thesis using 3 assms by (auto simp: dma_target_def programmed_def port_bits)
  qed (auto simp: dma_target_def programmed_def port_bits)
qed

lemma rep_outs:
  assumes "is_fdc dev rep"
  shows "quiet st (fold (\<lambda>(port, b). fl_out dev port b) os st)"
    "rep (fl_dev (fold (\<lambda>(port, b). fl_out dev port b) os st)) = fold (\<lambda>(port, b) f. fdc_out f port b) os (rep (fl_dev st))"
proof (induction os arbitrary: st)
  case (Cons p os)
  { case 1 show ?case using Cons.IH(1) [of "fl_out dev (fst p) (snd p) st"] by (auto intro: quiet_trans [OF quiet_out] simp: split_def) }
  { case 2 show ?case using Cons.IH(2) rep_out [OF assms] by (simp add: split_def) }
qed simp_all

definition dma_reaches :: "u32 \<Rightarrow> bool" where
  "dma_reaches addr \<longleftrightarrow> drop_bit 24 addr = 0 \<and> drop_bit 16 ((addr AND 0xFFFF) + 0x4800) = 0"

lemma dma_init_ready:
  assumes "is_fdc dev rep" "dma_reaches addr" "dir = FLOPPY_DIR_READ \<or> dir = FLOPPY_DIR_WRITE"
  shows "\<exists>st'. floppy_dma_init dev addr dir st = (st', 0) \<and> quiet st st' \<and> rep (fl_dev st') = programmed addr dir (rep (fl_dev st))"
proof -
  let ?mode = "if dir = FLOPPY_DIR_READ then 0x46 else 0x4a :: u8"
  let ?os = "[(0x0A, 0x06), (0x0C, 0xFF), (0x04, ucast addr), (0x04, ucast (drop_bit 8 addr)), (0x81, ucast (drop_bit 16 addr)),
             (0x0C, 0xFF), (0x05, ucast FLOPPY_BUFFER_LEN), (0x05, ucast (drop_bit 8 FLOPPY_BUFFER_LEN)), (0x0B, ?mode), (0x0A, 0x02)]
             :: (u16 \<times> u8) list"
  have "floppy_dma_init dev addr dir st = (fold (\<lambda>(port, b). fl_out dev port b) ?os st, 0)"
    using assms(2,3) unfolding floppy_dma_init_def Let_def dma_reaches_def by (simp add: FLOPPY_BUFFER_LEN_def)
  moreover have "fold (\<lambda>(port, b) f. fdc_out f port b) ?os f = programmed addr dir f" for f
    by (simp add: fdc_out_def programmed_def two_bytes address_bytes FLOPPY_BUFFER_LEN_def)
  ultimately show ?thesis using rep_outs [OF assms(1), where st = st and os = ?os] by auto
qed

section \<open>The transfer\<close>

definition transfer_command :: "u8 \<Rightarrow> u16 \<times> u16 \<times> u16 \<Rightarrow> u8 list" where
  "transfer_command cmd chs = (case chs of (cyl, head, sec) \<Rightarrow>
     [cmd, ucast (push_bit 2 head), ucast cyl, ucast head, ucast sec, 2, 18, 27, 0xFF])"

lemma quiet_logs: "quiet st (fold (\<lambda>(s, args). fl_log (g s) args) ps st)"
  "fl_dev (fold (\<lambda>(s, args). fl_log (g s) args) ps st) = fl_dev st"
proof (induction ps arbitrary: st)
  case (Cons p ps)
  { case 1 show ?case using Cons.IH(1) [of "fl_log (g (fst p)) (snd p) st"] by (auto intro: quiet_trans [OF quiet_log] simp: split_def) }
  { case 2 show ?case using Cons.IH(2) by (simp add: split_def) }
qed simp_all

text \<open>One pass of the loop: the channel is set up, the command is done, its results are judged.\<close>

lemma execute_pass:
  assumes "is_fdc dev rep" "driver_ready rep (Suc n) rest st" "dma_reaches addr"
    and dir: "dir = FLOPPY_DIR_READ \<or> dir = FLOPPY_DIR_WRITE" and cmd: "cmd AND 0x1F = 5 \<or> cmd AND 0x1F = 6"
    and f: "f = fdc_transfer (transfer_command cmd chs) (programmed addr dir (rep (fl_dev st)))"
    and res: "fdc_results f = [r0, r1, r2, r3, r4, r5, r6]"
  shows "\<exists>st'. driver_ready rep n rest st' \<and> rep (fl_dev st') = f\<lparr>fdc_results := []\<rparr> \<and>
    floppy_execute_loop (Suc k) dev addr 0x3F0 cmd dir chs st =
      (if floppy_errors r0 r1 r2 r6 = [] then Some (st', 0) else floppy_execute_loop k dev addr 0x3F0 cmd dir chs st')"
proof -
  obtain cyl head sec where chs: "chs = (cyl, head, sec)" by (cases chs)
  let ?f = "rep (fl_dev st)" and ?c = "transfer_command cmd chs"
  let ?s0 = "floppy_motor dev 0x3F0 FLOPPY_MOTOR_ON st"
  obtain s1 where s1: "floppy_dma_init dev addr dir ?s0 = (s1, 0)" "quiet ?s0 s1" "rep (fl_dev s1) = programmed addr dir ?f"
    using dma_init_ready [OF assms(1,3) dir, of ?s0] rep_motor [OF assms(1), of FLOPPY_MOTOR_ON st] by auto
  have at: "at_rest (programmed addr dir ?f)" using assms(2) by (simp add: driver_ready_def at_rest_def programmed_def)
  have d1: "driver_ready rep (Suc n) rest s1"
    using quiet_ready [OF quiet_trans [OF quiet_motor s1(2)] assms(2) s1(3) at] .
  have c: "?c \<noteq> []" "length ?c = command_length (hd ?c)" using cmd
    by (auto simp: transfer_command_def chs command_length_def)
  have "fdc_cmd (rep (fl_dev s1)) = []" "fdc_results (rep (fl_dev s1)) = []" using at s1(3) by (simp_all add: at_rest_def)
  then obtain s2 s3 where t: "fl_wait_ready s1 = Some s2" "fl_wait_max_time 3000 (floppy_cmds dev 0x3F0 ?c s2) = Some s3"
    "floppy_idle (fl_machine s3)" "waits_end n (fl_events s3) rest" "rep (fl_dev s3) = fdc_execute ?c (rep (fl_dev s1))"
    using floppy_transaction [OF assms(1), of s1 n rest ?c] d1 c by (auto simp: driver_ready_def)
  have f3: "rep (fl_dev s3) = f" using t(5) s1(3) f cmd by (auto simp: fdc_execute_def transfer_command_def chs)
  have seven: "length [r0, r1, r2, r3, r4, r5, r6] = 7" by simp
  obtain s4 where s4: "floppy_read_ports 7 dev 0x3F0 s3 = ([r0, r1, r2, r3, r4, r5, r6], s4)"
    "quiet s3 s4" "rep (fl_dev s4) = f\<lparr>fdc_results := []\<rparr>"
    using floppy_read_ports_ready [OF assms(1), of s3 "[r0, r1, r2, r3, r4, r5, r6]" "[]", unfolded seven f3] res by auto
  let ?es = "floppy_errors r0 r1 r2 r6"
  let ?s5 = "fl_log ''[LOG]Floppy Disk Driver: (success) read head %i, cylinder %i, sector %i.'' [ucast head, ucast cyl, ucast sec] s4"
  let ?s6 = "fold (\<lambda>(s, args). fl_log (''[ERROR]Floppy execution'' @ s) args) ?es ?s5"
  define st' where "st' = (if ?es = [] then floppy_motor dev 0x3F0 FLOPPY_MOTOR_OFF ?s6 else fl_log ''[ERROR]Floppy execution: retrying.'' [] ?s6)"
  have q5: "quiet s3 ?s6" by (rule quiet_trans [OF quiet_trans [OF s4(2) quiet_log] quiet_logs(1)])
  have q: "quiet s3 st'" unfolding st'_def using q5 quiet_motor quiet_log by (auto intro: quiet_trans)
  have f': "rep (fl_dev st') = f\<lparr>fdc_results := []\<rparr>"
    using s4(3) rep_motor [OF assms(1)] by (simp add: st'_def quiet_logs(2))
  have "fdc_cmd f = []" using at by (simp add: f fdc_transfer_def Let_def at_rest_def)
  then have "at_rest (f\<lparr>fdc_results := []\<rparr>)" by (simp add: at_rest_def)
  moreover obtain os ms where "fl_machine st' = (fl_machine s3)\<lparr>outs := os, msgs := ms\<rparr>" "fl_events st' = fl_events s3"
    using q by (rule quietE)
  ultimately have "driver_ready rep n rest st'" using t(3,4) quiet_idle [OF q] f' by (simp add: driver_ready_def)
  moreover have "floppy_execute_loop (Suc k) dev addr 0x3F0 cmd dir chs st =
      (if ?es = [] then Some (st', 0) else floppy_execute_loop k dev addr 0x3F0 cmd dir chs st')"
    using s1(1) t(1,2) s4(1) by (simp add: chs transfer_command_def st'_def Let_def del: floppy_read_ports.simps fold_simps)
  ultimately show ?thesis using f' by blast
qed

section \<open>Sectors\<close>

text \<open>Sector \<open>n\<close> of a disk with 2 heads and 18 sectors per track, and the sectors of its
  cylinder from there on.\<close>

definition track_place :: "nat \<Rightarrow> u8 \<times> u8" where
  "track_place i = (word_of_nat (i div 18), word_of_nat (i mod 18 + 1))"

definition sector_of :: "nat \<Rightarrow> u8 \<times> u8 \<times> u8" where
  "sector_of n = (word_of_nat (n div 36), track_place (n mod 36))"

lemma u16_u8: "ucast (word_of_nat n :: u16) = (word_of_nat n :: u8)"
  by transfer (simp add: take_bit_of_nat min_def)

lemma u16_u8_unat: "unat (w :: u16) = n \<Longrightarrow> ucast w = (word_of_nat n :: u8)"
  using u16_u8 [of n] by auto

lemma transfer_run_cylinder: "r < 36 \<Longrightarrow> transfer_run (fst (track_place r)) (snd (track_place r)) 18 36 = map track_place [r..<36]"
proof -
  have "list_all (\<lambda>r. transfer_run (fst (track_place r)) (snd (track_place r)) 18 36 = map track_place [r..<36]) [0..<36]"
    by code_simp
  then show "r < 36 \<Longrightarrow> ?thesis" by (simp add: list_all_iff)
qed

lemma track_place_inj: "inj_on track_place {0..<36}"
proof -
  have "distinct (map track_place [0..<36])" by code_simp
  then show ?thesis by (simp add: distinct_map)
qed

lemma small_disk_chs:
  assumes "small_disk disk" "unat lba < 2880"
  obtains cyl head sec where "floppy_chs disk lba = Some (cyl, head, sec)"
    "(ucast cyl, ucast head, ucast sec) = sector_of (unat lba)" "unat head < 2"
proof -
  have g: "0 < disk_sectors disk" "0 < disk_heads disk" "unat lba < 2 ^ 16"
    "unat (disk_sectors disk) = 18" "unat (disk_heads disk) = 2" using assms by (simp_all add: small_disk_def)
  obtain cyl head sec where c: "floppy_chs disk lba = Some (cyl, head, sec)" "unat sec = unat lba mod 18 + 1"
      "unat head = unat lba div 18 mod 2" "unat cyl = unat lba div 18 div 2"
    using floppy_chs_geometry [OF g(1-3), unfolded g(4,5)] by blast
  have "unat lba mod 36 div 18 = unat lba div 18 mod 2" "unat lba mod 36 mod 18 = unat lba mod 18"
    using mod_mult2_eq [of "unat lba" 18 2] by simp_all
  then have "(ucast cyl, ucast head, ucast sec) = sector_of (unat lba)"
    using c(2-4) [THEN u16_u8_unat] by (simp add: sector_of_def track_place_def div_mult2_eq [symmetric])
  then show thesis using that c by simp
qed

lemma sector_of_in_cylinder:
  assumes "n \<le> k" "k < (n div 36 + 1) * 36"
  shows "sector_of k = (word_of_nat (n div 36), track_place (n mod 36 + (k - n)))" "n mod 36 + (k - n) < 36"
proof -
  define q r where "q = n div 36" and "r = n mod 36"
  have n: "n = q * 36 + r" "r < 36" by (simp_all add: q_def r_def)
  obtain d where d: "k = n + d" using assms(1) le_Suc_ex by blast
  have "k < q * 36 + 36" using assms(2) unfolding q_def [symmetric] by simp
  then have j: "r + (k - n) < 36" "k = q * 36 + (r + (k - n))" unfolding d n(1) by simp_all
  have "(q * 36 + e) div 36 = q" "(q * 36 + e) mod 36 = e" if "e < 36" for e using that by simp_all
  from this [OF j(1)] have "k div 36 = n div 36" "k mod 36 = n mod 36 + (k - n)"
    unfolding j(2) [symmetric] by (simp_all add: q_def r_def)
  then show "sector_of k = (word_of_nat (n div 36), track_place (n mod 36 + (k - n)))" by (simp add: sector_of_def)
  show "n mod 36 + (k - n) < 36" using j(1) by (simp add: r_def)
qed

text \<open>The medium behind a transfer from \<open>buf\<close> that starts at sector \<open>n\<close>.\<close>

definition written :: "nat \<Rightarrow> u8 list \<Rightarrow> (u8 \<times> u8 \<times> u8 \<Rightarrow> u8 list) \<Rightarrow> u8 \<times> u8 \<times> u8 \<Rightarrow> u8 list" where
  "written n buf media = (\<lambda>(cyl', p).
     case if cyl' = word_of_nat (n div 36)
       then map_of (zip (map track_place [n mod 36..<36]) (slices buf (36 - n mod 36))) p else None of
     None \<Rightarrow> media (cyl', p) | Some bs \<Rightarrow> bs)"

lemma written_from:
  assumes "n \<le> k" "k < (n div 36 + 1) * 36"
  shows "written n buf media (sector_of k) = take 512 (drop (512 * (k - n)) buf)"
proof -
  let ?r = "n mod 36" and ?places = "map track_place [n mod 36..<36]"
  note s = sector_of_in_cylinder [OF assms]
  have dist: "distinct ?places"
    using inj_on_subset [OF track_place_inj, of "{?r..<36}"] by (simp add: distinct_map)
  have j: "k - n < length ?places" "?places ! (k - n) = track_place (?r + (k - n))" using s(2) by simp_all
  then have "map_of (zip ?places (slices buf (36 - ?r))) (track_place (?r + (k - n))) = Some (slices buf (36 - ?r) ! (k - n))"
    using map_of_zip_nth [OF _ dist, of "slices buf (36 - ?r)" "k - n"] by (simp add: slices_def)
  then show ?thesis using j(1) by (simp add: written_def s(1) slices_def)
qed

lemma written_elsewhere:
  assumes p: "p \<notin> sector_of ` {n..<(n div 36 + 1) * 36}"
  shows "written n buf media p = media p"
proof -
  let ?r = "n mod 36"
  obtain c q where pq: "p = (c, q)" by (cases p)
  have "q \<notin> set (map track_place [?r..<36])" if c: "c = word_of_nat (n div 36)"
  proof
    assume "q \<in> set (map track_place [?r..<36])"
    then obtain i where i: "?r \<le> i" "i < 36" "q = track_place i" by auto
    have end_at: "q * 36 + r + (i - r) < (q + 1) * 36" if "r \<le> i" for q r :: nat using that i(2) by simp
    have k: "n + (i - ?r) < (n div 36 + 1) * 36" using end_at [OF i(1), of "n div 36"] by simp
    then have "p = sector_of (n + (i - ?r))" using sector_of_in_cylinder(1) [OF _ k] i c pq by simp
    then show False using p k by auto
  qed
  then have "c = word_of_nat (n div 36) \<Longrightarrow> map_of (zip (map track_place [?r..<36]) (slices buf (36 - ?r))) q = None" by (simp add: slices_def)
  then show ?thesis by (simp add: written_def pq)
qed

lemma written_twice: "written n buf (written n buf media) = written n buf media"
  by (auto simp: written_def fun_eq_iff split: option.split)

text \<open>What a transfer that starts at sector \<open>n\<close> does to buffer and medium.\<close>

definition transferred :: "int \<Rightarrow> nat \<Rightarrow> fdc \<Rightarrow> fdc" where
  "transferred dir n f = (if dir = FLOPPY_DIR_READ
     then f\<lparr>fdc_buffer := concat (map (\<lambda>p. fdc_media f (word_of_nat (n div 36), p)) (map track_place [n mod 36..<36])) @
       drop (512 * (36 - n mod 36)) (fdc_buffer f)\<rparr>
     else f\<lparr>fdc_media := written n (fdc_buffer f) (fdc_media f)\<rparr>)"

lemma transferred_results: "transferred dir n (f\<lparr>fdc_results := r\<rparr>) = (transferred dir n f)\<lparr>fdc_results := r\<rparr>"
  by (cases f) (simp add: transferred_def)

lemma transfer_programmed:
  assumes "drop_bit 24 (fdc_buffer_addr f) = 0" "dir = FLOPPY_DIR_READ \<or> dir = FLOPPY_DIR_WRITE"
    and "c = transfer_command (if dir = FLOPPY_DIR_READ then 0xC6 else 0xC5) (cyl, head, sec)"
    and "(ucast cyl, ucast head, ucast sec) = sector_of n" "fdc_cyl f = ucast cyl"
  defines "g \<equiv> programmed (fdc_buffer_addr f) dir f"
  shows "fdc_transfer c g = (transferred dir n g)\<lparr>fdc_results :=
    (if fdc_strict f then [0x44, 0x80, 0] else [4, 0, 0]) @ [ucast cyl + 1, 0, 1, 2]\<rparr>"
proof -
  define places where "places = map track_place [n mod 36..<36]"
  have r: "n mod 36 < 36" by simp
  have c: "c ! 2 = ucast cyl" "c ! 3 = fst (track_place (n mod 36))" "c ! 4 = snd (track_place (n mod 36))" "c ! 6 = 18"
    "c ! 0 AND 0x1F = (if dir = FLOPPY_DIR_READ then 6 else 5)"
    using assms(2-4) by (auto simp: transfer_command_def sector_of_def prod_eq_iff)
  have cyl: "ucast cyl = (word_of_nat (n div 36) :: u8)" using assms(4) by (simp add: sector_of_def)
  have g: "dma_count g = 0x4800" "dma_masked g = False" "dma_target g = fdc_buffer_addr f" "fdc_cyl g = ucast cyl"
    "dma_mode g = (if dir = FLOPPY_DIR_READ then 0x46 else 0x4A)" "fdc_buffer_addr g = fdc_buffer_addr f"
    "fdc_strict g = fdc_strict f"
    using assms(5) dma_target_programmed [OF assms(1)] by (simp_all add: g_def) (simp_all add: programmed_def)
  have run: "transfer_run (c ! 3) (c ! 4) (c ! 6) ((unat (dma_count g) + 1) div 512) = places"
    using transfer_run_cylinder [OF r] by (simp add: c(2-4) g(1) places_def)
  have len: "length places = 36 - n mod 36" "places \<noteq> []" by (simp_all add: places_def)
  have "last places = track_place 35" using r by (simp add: places_def last_map)
  then have last: "last places = (1, 18)" by (simp add: track_place_def)
  have "36 - n mod 36 \<le> 36" by simp
  then have short: "512 * (36 - n mod 36) < 18433" by linarith
  have st: "transfer_status g places = (if fdc_strict f then [0x44, 0x80, 0] else [4, 0, 0])"
    using short by (simp add: transfer_status_def g(1,7) len last)
  have en: "transfer_end c places = [ucast cyl + 1, 0, 1]" by (simp add: transfer_end_def last c(1,4))
  let ?g = "g\<lparr>fdc_results := (if fdc_strict f then [0x44, 0x80, 0] else [4, 0, 0]) @ [ucast cyl + 1, 0, 1, 2]\<rparr>"
  have media: "written n (fdc_buffer g) (fdc_media g) = (\<lambda>(cyl', p).
      case if cyl' = ucast cyl then map_of (zip places (slices (fdc_buffer g) (length places))) p else None of
        None \<Rightarrow> fdc_media g (cyl', p) | Some bs \<Rightarrow> bs)"
    unfolding len(1) unfolding written_def cyl places_def ..
  have "fdc_transfer c g = transferred dir n ?g"
  proof (cases "dir = FLOPPY_DIR_READ")
    case True
    then show ?thesis unfolding fdc_transfer_def Let_def run transferred_def places_def [symmetric] cyl [symmetric] len(1) [symmetric]
      by (simp add: c(1,5) g st en len(2) split_def)
  next
    case False
    have "transferred dir n ?g = ?g\<lparr>fdc_media := written n (fdc_buffer g) (fdc_media g)\<rparr>" using False by (simp add: transferred_def)
    moreover have "c ! 0 AND 0x1F = 5" "dma_mode g = 0x4A" using False c(5) g(5) by simp_all
    ultimately show ?thesis using len(2) unfolding media fdc_transfer_def Let_def run split_def prod.collapse
      by (simp add: c(1) g(1-4,6,7) st en)
  qed
  then show ?thesis unfolding transferred_results .
qed

section \<open>Reading and writing a sector\<close>

text \<open>The driver with its buffer, a controller that answers the next \<open>n\<close> commands, and a 1.44MB disk.\<close>

definition drive_works :: "'d port_device \<Rightarrow> ('d \<Rightarrow> fdc) \<Rightarrow> u32 \<Rightarrow> DISK \<Rightarrow> nat \<Rightarrow> occurrence list \<Rightarrow> 'd floppy \<Rightarrow> bool" where
  "drive_works dev rep addr disk n rest st \<longleftrightarrow> is_fdc dev rep \<and> driver_ready rep n rest st \<and> dma_reaches addr \<and>
     fdc_buffer_addr (rep (fl_dev st)) = addr \<and> small_disk disk"

definition direction_command :: "int \<Rightarrow> u8" where
  "direction_command dir = (if dir = FLOPPY_DIR_READ then 0xC6 else 0xC5)"

lemma direction_command_bits: "direction_command dir AND 0x1F = 5 \<or> direction_command dir AND 0x1F = 6"
  by (simp add: direction_command_def)

lemma no_floppy_errors: "floppy_errors 4 0 0 2 = []"
  by (simp add: floppy_errors_def)

lemma end_of_cylinder_error: "floppy_errors 0x44 0x80 0 2 \<noteq> []"
  by (simp add: floppy_errors_def)

lemma execute_start:
  assumes "drive_works dev rep addr disk (Suc n) rest st" "unat lba < 2880" "dir = FLOPPY_DIR_READ \<or> dir = FLOPPY_DIR_WRITE"
  obtains cyl head sec st1 where
    "floppy_execute dev addr disk 0x3F0 lba dir st = floppy_execute_loop 5 dev addr 0x3F0 (direction_command dir) dir (cyl, head, sec) st1"
    "(ucast cyl, ucast head, ucast sec) = sector_of (unat lba)" "drive_works dev rep addr disk n rest st1"
    "rep (fl_dev st1) = (rep (fl_dev st))\<lparr>fdc_cyl := ucast cyl\<rparr>"
proof -
  obtain cyl head sec where c: "floppy_chs disk lba = Some (cyl, head, sec)" "(ucast cyl, ucast head, ucast sec) = sector_of (unat lba)"
    using small_disk_chs [OF _ assms(2)] assms(1) unfolding drive_works_def by metis
  obtain st1 where s: "floppy_seek dev 0x3F0 cyl head st = Some (st1, 0)" "driver_ready rep n rest st1"
    "rep (fl_dev st1) = (rep (fl_dev st))\<lparr>fdc_cyl := ucast cyl\<rparr>"
    using floppy_seek_ready [of dev rep n rest st cyl head] assms(1) unfolding drive_works_def by auto
  have "(if dir = FLOPPY_DIR_READ then FLOPPY_CMD_READ_DATA else FLOPPY_CMD_WRITE_DATA) OR 0xC0 = direction_command dir"
    by (simp add: direction_command_def FLOPPY_CMD_READ_DATA_def FLOPPY_CMD_WRITE_DATA_def)
  then have "floppy_execute dev addr disk 0x3F0 lba dir st = floppy_execute_loop 5 dev addr 0x3F0 (direction_command dir) dir (cyl, head, sec) st1"
    using c(1) s(1) assms(3) unfolding floppy_execute_def by auto
  moreover have "drive_works dev rep addr disk n rest st1" using assms(1) s(2,3) by (simp add: drive_works_def)
  ultimately show thesis using that c(2) s(3) by blast
qed

lemma loop_pass:
  assumes "drive_works dev rep addr disk (Suc n) rest st" "dir = FLOPPY_DIR_READ \<or> dir = FLOPPY_DIR_WRITE"
    and "f = fdc_transfer (transfer_command (direction_command dir) chs) (programmed addr dir (rep (fl_dev st)))"
    and "fdc_results f = [r0, r1, r2, r3, r4, r5, r6]"
  obtains st' where "driver_ready rep n rest st'" "rep (fl_dev st') = f\<lparr>fdc_results := []\<rparr>"
    "floppy_execute_loop (Suc k) dev addr 0x3F0 (direction_command dir) dir chs st =
      (if floppy_errors r0 r1 r2 r6 = [] then Some (st', 0)
       else floppy_execute_loop k dev addr 0x3F0 (direction_command dir) dir chs st')"
  using execute_pass [of dev rep n rest st addr dir "direction_command dir" f chs r0 r1 r2 r3 r4 r5 r6 k]
    assms direction_command_bits unfolding drive_works_def by blast

text \<open>One pass of the loop, with either kind of controller.\<close>

lemma transfer_pass:
  assumes "drive_works dev rep addr disk (Suc n) rest st" "dir = FLOPPY_DIR_READ \<or> dir = FLOPPY_DIR_WRITE"
    and "(ucast cyl, ucast head, ucast sec) = sector_of N" "fdc_cyl (rep (fl_dev st)) = ucast cyl"
  defines "f \<equiv> rep (fl_dev st)"
  obtains st' where "floppy_execute_loop (Suc k) dev addr 0x3F0 (direction_command dir) dir (cyl, head, sec) st =
      (if fdc_strict f then floppy_execute_loop k dev addr 0x3F0 (direction_command dir) dir (cyl, head, sec) st' else Some (st', 0))"
    "drive_works dev rep addr disk n rest st'" "rep (fl_dev st') = transferred dir N (programmed addr dir f)"
proof -
  let ?c = "transfer_command (direction_command dir) (cyl, head, sec)"
  have b: "fdc_buffer_addr f = addr" "drop_bit 24 addr = 0" using assms(1) by (simp_all add: drive_works_def dma_reaches_def f_def)
  have at: "at_rest f" using assms(1) by (simp add: drive_works_def driver_ready_def f_def)
  define g where "g = fdc_transfer ?c (programmed addr dir f)"
  have tr: "g = (transferred dir N (programmed addr dir f))\<lparr>fdc_results :=
      (if fdc_strict f then [0x44, 0x80, 0] else [4, 0, 0]) @ [ucast cyl + 1, 0, 1, 2]\<rparr>"
    unfolding g_def b(1) [symmetric]
    by (rule transfer_programmed [OF _ assms(2) _ assms(3)]) (use b assms(4) in \<open>simp_all add: f_def direction_command_def\<close>)
  define r where "r = (if fdc_strict f then (0x44, 0x80) else (4, 0) :: u8 \<times> u8)"
  have "fdc_results g = [fst r, snd r, 0, ucast cyl + 1, 0, 1, 2]" using tr by (simp add: r_def)
  then obtain st' where st': "driver_ready rep n rest st'" "rep (fl_dev st') = g\<lparr>fdc_results := []\<rparr>"
    "floppy_execute_loop (Suc k) dev addr 0x3F0 (direction_command dir) dir (cyl, head, sec) st =
      (if floppy_errors (fst r) (snd r) 0 2 = [] then Some (st', 0)
       else floppy_execute_loop k dev addr 0x3F0 (direction_command dir) dir (cyl, head, sec) st')"
    using loop_pass [OF assms(1,2) g_def [unfolded f_def]] by blast
  have "fdc_results (transferred dir N (programmed addr dir f)) = []"
    using at by (simp add: transferred_def programmed_def at_rest_def)
  then have f': "rep (fl_dev st') = transferred dir N (programmed addr dir f)" using st'(2) tr by simp
  then have "drive_works dev rep addr disk n rest st'"
    using assms(1) st'(1) b(1) by (simp add: drive_works_def transferred_def programmed_def)
  moreover have "floppy_errors (fst r) (snd r) 0 2 = [] \<longleftrightarrow> \<not> fdc_strict f"
    using no_floppy_errors end_of_cylinder_error by (simp add: r_def)
  ultimately have "floppy_execute_loop (Suc k) dev addr 0x3F0 (direction_command dir) dir (cyl, head, sec) st =
      (if fdc_strict f then floppy_execute_loop k dev addr 0x3F0 (direction_command dir) dir (cyl, head, sec) st' else Some (st', 0))"
    and "drive_works dev rep addr disk n rest st'"
    unfolding st'(3) by (cases "fdc_strict f", simp_all only: not_True_eq_False not_False_eq_True if_True if_False)
  then show thesis using that f' by blast
qed

lemma transferred_fields [simp]:
  "fdc_strict (transferred dir n (programmed addr dir f)) = fdc_strict f"
  "fdc_cyl (transferred dir n (programmed addr dir f)) = fdc_cyl f"
  "fdc_media (transferred dir n (programmed addr dir f)) =
    (if dir = FLOPPY_DIR_READ then fdc_media f else written n (fdc_buffer f) (fdc_media f))"
  "dir \<noteq> FLOPPY_DIR_READ \<Longrightarrow> fdc_buffer (transferred dir n (programmed addr dir f)) = fdc_buffer f"
  by (simp_all add: transferred_def programmed_def)

text \<open>A controller that reports the end of the cylinder makes every pass fail.\<close>

lemma strict_loop:
  assumes "drive_works dev rep addr disk (k + n) rest st" "dir = FLOPPY_DIR_READ \<or> dir = FLOPPY_DIR_WRITE"
    and "fdc_strict (rep (fl_dev st))" "(ucast cyl, ucast head, ucast sec) = sector_of N" "fdc_cyl (rep (fl_dev st)) = ucast cyl"
  shows "\<exists>st'. floppy_execute_loop k dev addr 0x3F0 (direction_command dir) dir (cyl, head, sec) st = Some (st', 1) \<and>
    driver_ready rep n rest st' \<and> fdc_media (rep (fl_dev st')) = (if dir = FLOPPY_DIR_READ \<or> k = 0
      then fdc_media (rep (fl_dev st)) else written N (fdc_buffer (rep (fl_dev st))) (fdc_media (rep (fl_dev st))))"
  using assms(1,3,5)
proof (induction k arbitrary: st)
  case 0
  let ?s = "floppy_motor dev 0x3F0 FLOPPY_MOTOR_OFF (fl_log ''[ERROR]Floppy execution: failed 5 retries.'' [] st)"
  have ctl: "is_fdc dev rep" and ready: "driver_ready rep n rest st" using 0 by (simp_all add: drive_works_def)
  have f: "rep (fl_dev ?s) = rep (fl_dev st)" using rep_motor [OF ctl] by simp
  have "driver_ready rep n rest ?s"
    by (rule quiet_ready [OF quiet_trans [OF quiet_log quiet_motor] ready f]) (use ready in \<open>simp add: driver_ready_def\<close>)
  then show ?case using f by simp
next
  case (Suc k)
  have works: "drive_works dev rep addr disk (Suc (k + n)) rest st" using Suc.prems(1) by simp
  obtain st' where st': "floppy_execute_loop (Suc k) dev addr 0x3F0 (direction_command dir) dir (cyl, head, sec) st =
      (if fdc_strict (rep (fl_dev st)) then floppy_execute_loop k dev addr 0x3F0 (direction_command dir) dir (cyl, head, sec) st'
       else Some (st', 0))"
    "drive_works dev rep addr disk (k + n) rest st'" "rep (fl_dev st') = transferred dir N (programmed addr dir (rep (fl_dev st)))"
    by (rule transfer_pass [OF works assms(2,4) Suc.prems(3)])
  note loop = st'(1) [unfolded if_P [OF Suc.prems(2)]]
  obtain st'' where "floppy_execute_loop k dev addr 0x3F0 (direction_command dir) dir (cyl, head, sec) st' = Some (st'', 1)"
    "driver_ready rep n rest st''" "fdc_media (rep (fl_dev st'')) = (if dir = FLOPPY_DIR_READ \<or> k = 0
      then fdc_media (rep (fl_dev st')) else written N (fdc_buffer (rep (fl_dev st'))) (fdc_media (rep (fl_dev st'))))"
    using Suc.IH [OF st'(2)] st'(3) Suc.prems(2,3) by auto
  then show ?case unfolding loop using st'(3) by (auto simp: written_twice)
qed

text \<open>
  A transfer with either kind of controller. The one that reports the end of the cylinder needs
  an interrupt for each of the five passes and makes it fail, with the same effect on the medium.
\<close>

lemma transfer_outcome:
  assumes "drive_works dev rep addr disk (n + (if fdc_strict (rep (fl_dev st)) then 6 else 2)) rest st" "unat lba < 2880"
    and dir: "dir = FLOPPY_DIR_READ \<or> dir = FLOPPY_DIR_WRITE"
  defines "f \<equiv> rep (fl_dev st)"
  obtains st' where "floppy_execute dev addr disk 0x3F0 lba dir st = Some (st', if fdc_strict f then 1 else 0)"
    "driver_ready rep n rest st'"
    "fdc_media (rep (fl_dev st')) = (if dir = FLOPPY_DIR_READ then fdc_media f else written (unat lba) (fdc_buffer f) (fdc_media f))"
    "\<not> fdc_strict f \<Longrightarrow> drive_works dev rep addr disk n rest st' \<and> \<not> fdc_strict (rep (fl_dev st'))"
    "\<not> fdc_strict f \<Longrightarrow> dir = FLOPPY_DIR_READ \<Longrightarrow> fdc_buffer (rep (fl_dev st')) =
       concat (map (\<lambda>p. fdc_media f (word_of_nat (unat lba div 36), p)) (map track_place [unat lba mod 36..<36])) @
       drop (512 * (36 - unat lba mod 36)) (fdc_buffer f)"
proof -
  have "drive_works dev rep addr disk (Suc (if fdc_strict f then 5 + n else Suc n)) rest st"
    using assms(1) by (simp add: f_def add.commute split: if_splits)
  then obtain cyl head sec st1 where s: "floppy_execute dev addr disk 0x3F0 lba dir st =
      floppy_execute_loop 5 dev addr 0x3F0 (direction_command dir) dir (cyl, head, sec) st1"
    "(ucast cyl, ucast head, ucast sec) = sector_of (unat lba)"
    "drive_works dev rep addr disk (if fdc_strict f then 5 + n else Suc n) rest st1" "rep (fl_dev st1) = (rep (fl_dev st))\<lparr>fdc_cyl := ucast cyl\<rparr>"
    by (rule execute_start [OF _ assms(2) dir])
  note s4 = s(4) [folded f_def]
  show thesis
  proof (cases "fdc_strict f")
    case True
    then show thesis using that strict_loop [OF _ dir _ s(2), of dev rep addr disk 5 n rest st1] s(1,3) s4 by fastforce
  next
    case False
    then have works: "drive_works dev rep addr disk (Suc n) rest st1" "fdc_cyl (rep (fl_dev st1)) = ucast cyl"
      "\<not> fdc_strict (rep (fl_dev st1))" using s(3) s4 by simp_all
    obtain st' where st': "floppy_execute_loop (Suc 4) dev addr 0x3F0 (direction_command dir) dir (cyl, head, sec) st1 =
        (if fdc_strict (rep (fl_dev st1)) then floppy_execute_loop 4 dev addr 0x3F0 (direction_command dir) dir (cyl, head, sec) st'
         else Some (st', 0))"
      "drive_works dev rep addr disk n rest st'" "rep (fl_dev st') = transferred dir (unat lba) (programmed addr dir (rep (fl_dev st1)))"
      by (rule transfer_pass [OF works(1) dir s(2) works(2)])
    have "Suc 4 = 5" by simp
    then have "floppy_execute dev addr disk 0x3F0 lba dir st = Some (st', 0)"
      using st'(1) unfolding s(1) if_not_P [OF works(3)] by (simp only:)
    then have "floppy_execute dev addr disk 0x3F0 lba dir st = Some (st', if fdc_strict f then 1 else 0)" using False by simp
    moreover have "driver_ready rep n rest st'" using st'(2) by (simp add: drive_works_def)
    ultimately show thesis
      by (rule that) (use st'(2,3) s4 False in \<open>simp_all add: transferred_def programmed_def\<close>)
  qed
qed

definition sectors_of_512 :: "fdc \<Rightarrow> bool" where
  "sectors_of_512 f \<longleftrightarrow> (\<forall>p. length (fdc_media f p) = 512)"

lemma read_sector_outcome:
  assumes "drive_works dev rep addr disk (n + (if fdc_strict (rep (fl_dev st)) then 6 else 2)) rest st" "unat lba < 2880"
    and "sectors_of_512 (rep (fl_dev st))"
  defines "f \<equiv> rep (fl_dev st)"
  shows "\<exists>st'. i686_floppy_read_sector dev addr disk 0x3F0 lba st =
      Some (if fdc_strict f then (st', 1, None) else (st', 0, Some (fdc_media f (sector_of (unat lba))))) \<and>
    fdc_media (rep (fl_dev st')) = fdc_media f \<and> driver_ready rep n rest st' \<and>
    (\<not> fdc_strict f \<longrightarrow> drive_works dev rep addr disk n rest st' \<and> \<not> fdc_strict (rep (fl_dev st')))"
proof -
  let ?r = "unat lba mod 36" and ?cyl = "word_of_nat (unat lba div 36) :: u8"
  obtain st' where st': "floppy_execute dev addr disk 0x3F0 lba FLOPPY_DIR_READ st = Some (st', if fdc_strict f then 1 else 0)"
    "driver_ready rep n rest st'" "fdc_media (rep (fl_dev st')) = fdc_media f"
    "\<not> fdc_strict f \<Longrightarrow> drive_works dev rep addr disk n rest st' \<and> \<not> fdc_strict (rep (fl_dev st'))"
    "\<not> fdc_strict f \<Longrightarrow> fdc_buffer (rep (fl_dev st')) = concat (map (\<lambda>p. fdc_media f (?cyl, p)) (map track_place [?r..<36])) @
       drop (512 * (36 - ?r)) (fdc_buffer f)"
    by (rule transfer_outcome [OF assms(1,2) disjI1 [OF refl], folded f_def]; rule that; simp)
  have "take 512 (fdc_buffer (rep (fl_dev st'))) = fdc_media f (sector_of (unat lba))" if "\<not> fdc_strict f"
  proof -
    have "?r < 36" by simp
    then have "[?r..<36] = ?r # [Suc ?r..<36]" by (rule upt_conv_Cons)
    moreover have "length (fdc_media f (sector_of (unat lba))) = 512" using assms(3) unfolding sectors_of_512_def f_def by blast
    ultimately show ?thesis unfolding st'(5) [OF that] by (simp add: sector_of_def)
  qed
  moreover have "p_read dev d = fdc_buffer (rep d)" for d using assms(1) by (simp add: drive_works_def is_fdc_def)
  ultimately show ?thesis using st'(1-4) by (auto simp: i686_floppy_read_sector_def)
qed

lemma read_sector_run:
  assumes "drive_works dev rep addr disk (Suc (Suc n)) rest st" "unat lba < 2880"
    and "\<not> fdc_strict (rep (fl_dev st))" "sectors_of_512 (rep (fl_dev st))"
  shows "\<exists>st'. i686_floppy_read_sector dev addr disk 0x3F0 lba st =
      Some (st', 0, Some (fdc_media (rep (fl_dev st)) (sector_of (unat lba)))) \<and>
    fdc_media (rep (fl_dev st')) = fdc_media (rep (fl_dev st)) \<and> drive_works dev rep addr disk n rest st' \<and>
    \<not> fdc_strict (rep (fl_dev st'))"
  using read_sector_outcome [of dev rep addr disk n st rest lba] assms by auto

text \<open>C27: Reading a sector of the disk, with either kind of controller. One that ends the transfer
  at the end of the cylinder as a normal one, as emulators do, makes the read return 0 with the
  512 bytes of that sector. One that reports the end of the cylinder, as the data sheet says,
  makes it return 1 after five tries, with no bytes. In both cases the medium stays as it was and
  the controller is at rest again.\<close>

theorem floppy_read_sector_correct:
  assumes "drive_works dev rep addr disk (n + (if fdc_strict (rep (fl_dev st)) then 6 else 2)) rest st" "unat lba < 2880"
    and "sectors_of_512 (rep (fl_dev st))"
  shows "\<exists>st'. i686_floppy_read_sector dev addr disk 0x3F0 lba st =
      Some (if fdc_strict (rep (fl_dev st)) then (st', 1, None)
        else (st', 0, Some (fdc_media (rep (fl_dev st)) (sector_of (unat lba))))) \<and>
    fdc_media (rep (fl_dev st')) = fdc_media (rep (fl_dev st)) \<and> driver_ready rep n rest st'"
  using read_sector_outcome [OF assms] by blast

text \<open>C28: Writing a sector leaves its bytes on the medium, but the transfer goes on to the end of the
  cylinder: each later sector of the cylinder is overwritten with what the driver's buffer held
  at its place. The sectors before it and the other cylinders stay. The status is 0 with a
  controller that, as emulators do, takes this as a normal end, and 1, after five tries that all
  wrote the same, with one that reports the end of the cylinder, as the data sheet says.\<close>

theorem floppy_write_runs_on:
  assumes "drive_works dev rep addr disk (n + (if fdc_strict (rep (fl_dev st)) then 6 else 2)) rest st" "unat lba < 2880"
    and "length data = 512" "length (fdc_buffer (rep (fl_dev st))) = 0x4800"
  defines "f \<equiv> rep (fl_dev st)" and "cylinder_end \<equiv> (unat lba div 36 + 1) * 36"
  shows "\<exists>st'. i686_floppy_writer_sector dev addr disk 0x3F0 lba data st = Some (st', if fdc_strict f then 1 else 0) \<and>
    fdc_media (rep (fl_dev st')) (sector_of (unat lba)) = data \<and>
    (\<forall>k. unat lba < k \<and> k < cylinder_end \<longrightarrow>
       fdc_media (rep (fl_dev st')) (sector_of k) = take 512 (drop (512 * (k - unat lba)) (fdc_buffer f))) \<and>
    (\<forall>p. p \<notin> sector_of ` {unat lba..<cylinder_end} \<longrightarrow> fdc_media (rep (fl_dev st')) p = fdc_media f p) \<and>
    driver_ready rep n rest st'"
proof -
  let ?buf = "data @ drop 512 (fdc_buffer f)"
  define st0 where "st0 = st\<lparr>fl_dev := p_write dev (take 512 data @ drop 512 (p_read dev (fl_dev st))) (fl_dev st)\<rparr>"
  have f0: "rep (fl_dev st0) = f\<lparr>fdc_buffer := ?buf\<rparr>"
    using assms(1,3) by (simp add: st0_def drive_works_def is_fdc_def f_def)
  have "fl_machine st0 = fl_machine st" "fl_events st0 = fl_events st" by (simp_all add: st0_def)
  then have "drive_works dev rep addr disk k rest st0 \<longleftrightarrow> drive_works dev rep addr disk k rest st" for k
    using f0 by (simp add: drive_works_def driver_ready_def at_rest_def f_def)
  then have "drive_works dev rep addr disk (n + (if fdc_strict (rep (fl_dev st0)) then 6 else 2)) rest st0"
    using assms(1) f0 by (simp only: f_def) simp
  from transfer_outcome [OF this assms(2) disjI2 [OF refl]]
  obtain st' where st': "floppy_execute dev addr disk 0x3F0 lba FLOPPY_DIR_WRITE st0 = Some (st', if fdc_strict f then 1 else 0)"
    "driver_ready rep n rest st'" "fdc_media (rep (fl_dev st')) = written (unat lba) ?buf (fdc_media f)"
    unfolding f0 by (auto simp: FLOPPY_DIR_READ_def FLOPPY_DIR_WRITE_def)
  have at: "fdc_media (rep (fl_dev st')) (sector_of k) = take 512 (drop (512 * (k - unat lba)) ?buf)"
    if "unat lba \<le> k" "k < cylinder_end" for k
    unfolding st'(3) by (rule written_from) (use that in \<open>simp_all add: cylinder_end_def\<close>)
  have "fdc_media (rep (fl_dev st')) (sector_of (unat lba)) = data"
    using at [of "unat lba"] assms(3) by (simp add: cylinder_end_def) 
  moreover have "fdc_media (rep (fl_dev st')) (sector_of k) = take 512 (drop (512 * (k - unat lba)) (fdc_buffer f))"
    if k: "unat lba < k" "k < cylinder_end" for k
    using at [of k] k assms(3) by (simp add: diff_mult_distrib2)
  moreover have "fdc_media (rep (fl_dev st')) p = fdc_media f p" if "p \<notin> sector_of ` {unat lba..<cylinder_end}" for p
    unfolding st'(3) by (rule written_elsewhere) (use that in \<open>simp add: cylinder_end_def\<close>)
  ultimately show ?thesis using st'(1,2) by (simp add: i686_floppy_writer_sector_def st0_def [symmetric])
qed

section \<open>Failures\<close>


text \<open>The two conditions on the address, as numbers.\<close>

lemma dma_bounds:
  "drop_bit 24 (addr :: u32) = 0 \<longleftrightarrow> unat addr < 2 ^ 24"
  "drop_bit 16 ((addr AND 0xFFFF) + 0x4800) = 0 \<longleftrightarrow> unat addr mod 2 ^ 16 + 0x4800 < 2 ^ 16"
proof -
  show "drop_bit 24 addr = 0 \<longleftrightarrow> unat addr < 2 ^ 24"
    unfolding word_unat_eq_iff unat_drop_bit_eq unfolding drop_bit_eq_div by (simp add: div_eq_0_iff)
  have low: "unat (addr AND 0xFFFF) = unat addr mod 2 ^ 16"
  proof -
    have "addr AND 0xFFFF = take_bit 16 addr" by (simp add: take_bit_eq_mask mask_eq_exp_minus_1)
    then show ?thesis by (simp add: unat_mod take_bit_eq_mod)
  qed
  have "unat addr mod 2 ^ 16 < 65536" by simp
  then have "unat addr mod 2 ^ 16 + 0x4800 < 4294967296" by linarith
  then have "unat ((addr AND 0xFFFF) + 0x4800) = unat addr mod 2 ^ 16 + 0x4800"
    by (simp add: unat_word_ariths low [unfolded power_numeral])
  then show "drop_bit 16 ((addr AND 0xFFFF) + 0x4800) = 0 \<longleftrightarrow> unat addr mod 2 ^ 16 + 0x4800 < 2 ^ 16"
    unfolding word_unat_eq_iff unat_drop_bit_eq unfolding drop_bit_eq_div by (simp add: div_eq_0_iff)
qed

text \<open>C30: \<open>floppy_dma_init\<close> sets the channel up exactly when the direction is known and the
  buffer and the byte behind it are below 16MB and in one 64KB page. Then it returns 0, and the
  channel is unmasked and programmed with the address of the buffer, in its address and page
  registers, with a count of one byte more than the buffer has, and with the mode of the
  direction; nothing else of the controller changes. Otherwise it returns 1 and writes to no port.\<close>

theorem floppy_dma_init_bounds:
  fixes dev :: "'d port_device" and st :: "'d floppy"
  assumes "is_fdc dev rep"
  defines "f \<equiv> rep (fl_dev st)"
  shows "if unat addr < 2 ^ 24 \<and> unat addr mod 2 ^ 16 + 0x4800 < 2 ^ 16 \<and> dir \<in> {FLOPPY_DIR_READ, FLOPPY_DIR_WRITE}
    then \<exists>st' g. floppy_dma_init dev addr dir st = (st', 0) \<and> rep (fl_dev st') = g \<and>
      dma_target g = addr \<and> dma_count g = 0x4800 \<and> dma_mode g = (if dir = FLOPPY_DIR_READ then 0x46 else 0x4A) \<and> \<not> dma_masked g \<and>
      g = f\<lparr>dma_high := False, dma_addr := dma_addr g, dma_page := dma_page g, dma_count := dma_count g,
        dma_mode := dma_mode g, dma_masked := False\<rparr>
    else \<exists>st'. floppy_dma_init dev addr dir st = (st', 1) \<and> fl_dev st' = fl_dev st \<and> outs (fl_machine st') = outs (fl_machine st)"
proof (cases "unat addr < 2 ^ 24 \<and> unat addr mod 2 ^ 16 + 0x4800 < 2 ^ 16 \<and> dir \<in> {FLOPPY_DIR_READ, FLOPPY_DIR_WRITE}")
  case True
  then have d: "dma_reaches addr" "dir = FLOPPY_DIR_READ \<or> dir = FLOPPY_DIR_WRITE" by (simp_all add: dma_reaches_def dma_bounds)
  obtain st' where st': "floppy_dma_init dev addr dir st = (st', 0)" "rep (fl_dev st') = programmed addr dir f"
    using dma_init_ready [OF assms(1) d] unfolding f_def by blast
  have "drop_bit 24 addr = 0" using d(1) by (simp add: dma_reaches_def)
  then have "dma_target (programmed addr dir f) = addr" by (rule dma_target_programmed)
  then show ?thesis using st' unfolding if_P [OF True]
    by (intro exI [of _ st'] exI [of _ "programmed addr dir f"]) (simp add: programmed_def)
next
  case False
  have "drop_bit 16 FLOPPY_BUFFER_LEN = 0" by (simp add: FLOPPY_BUFFER_LEN_def)
  then show ?thesis using False unfolding if_not_P [OF False] floppy_dma_init_def Let_def
    by (auto simp: dma_bounds FLOPPY_BUFFER_LEN_def fl_log_def log_msg_def)
qed

lemma dead_in:
  assumes "\<forall>d port. fst (p_in dev d port) = 0" "fl_in dev port st = (v, st1)"
  shows "v = 0"
  using assms(2) assms(1) [rule_format, of "fl_dev st" port] by (auto simp: fl_in_def split: prod.splits)

lemma dead_cmd:
  assumes "\<forall>d port. fst (p_in dev d port) = 0"
  shows "quiet st (fst (floppy_cmd dev base b st))"
proof -
  have "quiet st (fst (floppy_cmd_loop n dev base b st))" for n
  proof (induction n arbitrary: st)
    case (Suc n)
    obtain v st1 where i: "fl_in dev (base + FLOPPY_MSR) st = (v, st1)" by fastforce
    have "v = 0" using dead_in [OF assms i] .
    moreover have "quiet st st1" using quiet_in [of st dev "base + FLOPPY_MSR"] i by simp
    ultimately show ?case using Suc.IH [of st1] i quiet_trans by auto
  qed simp
  then show ?thesis by (simp add: floppy_cmd_def)
qed

lemma dead_read_port:
  assumes "\<forall>d port. fst (p_in dev d port) = 0"
  shows "fst (floppy_read_port dev base st) = 0"
proof -
  have "fst (floppy_read_port_loop n dev base st) = 0" for n
  proof (induction n arbitrary: st)
    case (Suc n)
    obtain v st1 where i: "fl_in dev (base + FLOPPY_MSR) st = (v, st1)" by fastforce
    have "v = 0" using dead_in [OF assms i] .
    then show ?case using Suc.IH [of st1] i by simp
  qed simp
  then show ?thesis by (simp add: floppy_read_port_def)
qed

lemma dead_cmds:
  assumes "\<forall>d port. fst (p_in dev d port) = 0"
  shows "quiet st (floppy_cmds dev base bs st)"
proof (induction bs arbitrary: st)
  case (Cons b bs)
  then show ?case using dead_cmd [OF assms, of st base b] quiet_trans by (auto simp: floppy_cmds_def)
qed (simp add: floppy_cmds_def)

text \<open>a controller that is not there, every port of which reads 0, makes \<open>floppy_seek\<close> report
  success: each command times out, the wait ends with the 60th timer interrupt, and the read of
  the status that times out gives 0, which is the status of a seek that worked.\<close>

theorem floppy_seek_without_controller:
  assumes "\<forall>d port. fst (p_in dev d port) = 0" "floppy_idle (fl_machine st)" "waits_end 1 (fl_events st) rest"
  shows "\<exists>st'. floppy_seek dev base cyl head st = Some (st', 0)"
proof -
  let ?s0 = "floppy_motor dev base FLOPPY_MOTOR_ON st"
  have "floppy_idle (fl_machine ?s0)" using quiet_idle [OF quiet_motor] assms(2) by blast
  moreover have "waits_end (Suc 0) (fl_events ?s0) rest"
    using quietE [OF quiet_motor [of st dev base FLOPPY_MOTOR_ON]] assms(3) by (metis One_nat_def)
  ultimately obtain st1 where w: "fl_wait_ready ?s0 = Some st1"
    "\<And>st2. quiet st1 st2 \<Longrightarrow> \<exists>st3. fl_wait_max_time 3000 st2 = Some st3"
    using floppy_wait [of ?s0 0 rest] by metis
  obtain st3 where st3: "fl_wait_max_time 3000 (floppy_cmds dev base [FLOPPY_CMD_SEEK, ucast (push_bit 2 head), ucast cyl] st1) = Some st3"
    using w(2) [OF dead_cmds [OF assms(1)]] by blast
  obtain s0 cyl' st4 where ci: "floppy_check_interrupt dev base st3 = (s0, cyl', st4)" by (cases "floppy_check_interrupt dev base st3")
  then have "s0 = 0" using dead_read_port [OF assms(1)] by (auto simp: floppy_check_interrupt_def Let_def split_def)
  then have "\<exists>st'. floppy_seek_loop (Suc k) dev base cyl head ?s0 = Some (st', 0)" for k
    using w(1) st3 ci by simp
  from this [of 4] show ?thesis unfolding floppy_seek_def by simp
qed

section \<open>Examples\<close>

lemma ex_ready_floppy: "floppy_idle ex_ready"
  using ex_ready_waits by (auto simp: floppy_idle_def ex_ready_def ex_machine_def nth_Cons split: nat.splits)

definition ex_fdc :: "bool \<Rightarrow> fdc" where
  "ex_fdc strict = \<lparr>fdc_strict = strict, fdc_cmd = [], fdc_results = [], fdc_cyl = 0, fdc_media = (\<lambda>(c, h, s). replicate 512 (c + s)),
     fdc_buffer = replicate 0x4800 7, fdc_buffer_addr = 0x108000, dma_high = True, dma_addr = 0, dma_page = 0, dma_count = 0,
     dma_mode = 0, dma_masked = True\<rparr>"

definition ex_drive :: "nat \<Rightarrow> bool \<Rightarrow> fdc floppy" where
  "ex_drive n strict = \<lparr>fl_machine = ex_ready, fl_events = replicate n (ex_irq 6), fl_dev = ex_fdc strict,
     floppy_motor_ticks = 0, floppy_motor_state = 0\<rparr>"

definition ex_disk :: DISK where
  "ex_disk = \<lparr>disk_id = 0, disk_heads = 2, disk_cylinders = 80, disk_sectors = 18\<rparr>"

lemma ex_answers: "waits_end n (replicate n (ex_irq 6)) []"
proof (induction n)
  case (Suc n)
  show ?case unfolding waits_end.simps
    by (rule exI [of _ "[]"], rule exI [of _ "ex_irq 6"], rule exI [of _ "replicate n (ex_irq 6)"]) (simp add: hardware_def Suc.IH)
qed simp

lemma ex_drive_works: "drive_works fdc_device id 0x108000 ex_disk n [] (ex_drive n strict)"
  using ex_ready_floppy ex_answers fdc_device_is_fdc
  by (simp add: drive_works_def driver_ready_def at_rest_def ex_drive_def ex_fdc_def dma_reaches_def small_disk_def ex_disk_def)

lemma ex_drive_lenient:
  "drive_works fdc_device id 0x108000 ex_disk (0 + (if fdc_strict (id (fl_dev (ex_drive 2 False))) then 6 else 2)) [] (ex_drive 2 False)"
proof -
  have "0 + (if fdc_strict (id (fl_dev (ex_drive 2 False))) then 6 else 2) = (2 :: nat)" by (simp add: ex_drive_def ex_fdc_def)
  then show ?thesis using ex_drive_works [of 2 False] by (simp only:)
qed

lemma ex_drive_fdc: "fl_dev (ex_drive n strict) = ex_fdc strict" "\<not> fdc_strict (ex_fdc False)"
  by (simp_all add: ex_drive_def ex_fdc_def)

lemma floppy_read_sector_correct_witness:
  "\<exists>st'. i686_floppy_read_sector fdc_device 0x108000 ex_disk 0x3F0 40 (ex_drive 2 False) = Some (st', 0, Some (replicate 512 6))"
proof -
  have sectors: "sectors_of_512 (ex_fdc False)" by (simp add: sectors_of_512_def ex_fdc_def)
  have "fdc_media (ex_fdc False) (sector_of 40) = replicate 512 6"
    by (simp add: ex_fdc_def sector_of_def track_place_def)
  moreover have "unat (40 :: u32) = 40" by simp
  ultimately show ?thesis
    using floppy_read_sector_correct [OF ex_drive_lenient, of 40, unfolded id_apply ex_drive_fdc(1)] sectors ex_drive_fdc(2) by auto
qed

lemma floppy_write_runs_on_witness:
  "\<exists>st'. i686_floppy_writer_sector fdc_device 0x108000 ex_disk 0x3F0 40 (replicate 512 1) (ex_drive 2 False) = Some (st', 0) \<and>
     fdc_media (fl_dev st') (sector_of 40) = replicate 512 1 \<and> fdc_media (fl_dev st') (sector_of 41) = replicate 512 7"
proof -
  have b: "length (fdc_buffer (ex_fdc False)) = 0x4800" "take 512 (drop (512 * (41 - 40)) (fdc_buffer (ex_fdc False))) = replicate 512 7"
    by (simp_all add: ex_fdc_def)
  have n: "unat (40 :: u32) = 40" "(40 :: nat) < 41 \<and> 41 < (40 div 36 + 1) * (36 :: nat)" by simp_all
  obtain st' where "i686_floppy_writer_sector fdc_device 0x108000 ex_disk 0x3F0 40 (replicate 512 1) (ex_drive 2 False) = Some (st', 0)"
    "fdc_media (fl_dev st') (sector_of 40) = replicate 512 1"
    "\<forall>k. 40 < k \<and> k < (40 div 36 + 1) * 36 \<longrightarrow>
       fdc_media (fl_dev st') (sector_of k) = take 512 (drop (512 * (k - 40)) (fdc_buffer (ex_fdc False)))"
    using floppy_write_runs_on [OF ex_drive_lenient, of 40 "replicate 512 1", unfolded id_apply ex_drive_fdc(1) n(1)] b(1) ex_drive_fdc(2)
    by auto
  then show ?thesis using n(2) b(2) by metis
qed


lemma floppy_dma_init_bounds_witness:
  "(\<exists>st'. floppy_dma_init fdc_device 0x108000 FLOPPY_DIR_WRITE (ex_drive 0 False) = (st', 0) \<and>
      dma_target (fl_dev st') = 0x108000 \<and> dma_mode (fl_dev st') = 0x4A \<and> \<not> dma_masked (fl_dev st')) \<and>
   (\<exists>st'. floppy_dma_init fdc_device 0x10C000 FLOPPY_DIR_WRITE (ex_drive 0 False) = (st', 1) \<and> fl_dev st' = fl_dev (ex_drive 0 False))"
  using floppy_dma_init_bounds [OF fdc_device_is_fdc, where addr = "0x108000" and dir = FLOPPY_DIR_WRITE and st = "ex_drive 0 False"]
    floppy_dma_init_bounds [OF fdc_device_is_fdc, where addr = "0x10C000" and dir = FLOPPY_DIR_WRITE and st = "ex_drive 0 False"]
  by (auto simp: FLOPPY_DIR_READ_def FLOPPY_DIR_WRITE_def)

definition dead_device :: "unit port_device" where
  "dead_device = \<lparr>p_in = (\<lambda>d _. (0, d)), p_out = (\<lambda>d _ _. d), p_read = (\<lambda>_. []), p_write = (\<lambda>_ d. d)\<rparr>"

lemma floppy_seek_without_controller_witness:
  "\<exists>st'. floppy_seek dead_device 0x3F0 3 1 \<lparr>fl_machine = ex_ready, fl_events = replicate 59 (ex_irq 0) @ [ex_irq 0], fl_dev = (),
     floppy_motor_ticks = 0, floppy_motor_state = 0\<rparr> = Some (st', 0)"
proof -
  have "filter (line 0) (replicate 59 (ex_irq 0)) = replicate 59 (ex_irq 0)" by (rule filter_True) simp
  then have "waits_end 1 (replicate 59 (ex_irq 0) @ [ex_irq 0]) []" unfolding One_nat_def waits_end.simps
    by (intro exI [of _ "replicate 59 (ex_irq 0)"] exI [of _ "ex_irq 0"] exI [of _ "[]"]) (auto simp: hardware_def)
  then show ?thesis
    using floppy_seek_without_controller [of dead_device
      "\<lparr>fl_machine = ex_ready, fl_events = replicate 59 (ex_irq 0) @ [ex_irq 0], fl_dev = (), floppy_motor_ticks = 0, floppy_motor_state = 0\<rparr>" "[]" "0x3F0" 3 1]
      ex_ready_floppy by (simp add: dead_device_def del: replicate.simps)
qed

text \<open>the cylinder, head and sector the driver sends name the sector: putting them together again
  gives the block number, the head exists and the sector counts from 1.\<close>

theorem floppy_chs_inverse:
  assumes "0 < disk_sectors disk" "0 < disk_heads disk" "unat lba < 2 ^ 16"
  shows "\<exists>cyl head sec. floppy_chs disk lba = Some (cyl, head, sec) \<and> 0 < unat sec \<and> unat sec \<le> unat (disk_sectors disk) \<and>
    unat head < unat (disk_heads disk) \<and>
    (unat cyl * unat (disk_heads disk) + unat head) * unat (disk_sectors disk) + (unat sec - 1) = unat lba"
proof -
  have "0 < unat (disk_sectors disk)" "0 < unat (disk_heads disk)" using assms(1,2) by (simp_all add: word_less_nat_alt)
  then show ?thesis using floppy_chs_geometry [OF assms] by (fastforce simp: Suc_le_eq)
qed

lemma floppy_chs_inverse_witness:
  "\<exists>cyl head sec. floppy_chs ex_disk 100 = Some (cyl, head, sec) \<and> (unat cyl * 2 + unat head) * 18 + (unat sec - 1) = 100"
  using floppy_chs_inverse [of ex_disk 100] by (auto simp: ex_disk_def)

end
