(* ===== verification/Fat.thy ===== *)
theory Fat
  imports Memory
begin

text \<open>
  The FAT12 driver of the kernel, \<open>kernel/hal/fat.c\<close>: cluster arithmetic, the table of open
  files, reading, directory search and path lookup. A sector of the floppy is a parameter,
  \<open>disk :: u32 \<Rightarrow> u8 list option\<close>, with \<open>None\<close> for a failed read (which leaves the buffer as it
  was). A \<open>FAT_FILE *\<close> always points into the driver's tables, so it is the handle of the
  file. Messages on the console are left out.
\<close>

section \<open>Data\<close>

definition SECTOR_SIZE :: u32 where "SECTOR_SIZE = 512"
definition MAX_PATH_SIZE :: nat where "MAX_PATH_SIZE = 256"
definition MAX_FILE_HANDLE :: nat where "MAX_FILE_HANDLE = 10"
definition ROOT_DIR_HANDLE :: int where "ROOT_DIR_HANDLE = -1"
definition FILE_ATTR_DIRECTORY :: u8 where "FILE_ATTR_DIRECTORY = 0x10"

record fat_dir_entry =
  e_name :: "u8 list"
  e_attribute :: u8
  e_first_cluster_high :: u16
  e_first_cluster_low :: u16
  e_size :: u32

record fat_file =
  f_handle :: int
  f_is_dir :: bool
  f_pos :: u32
  f_size :: u32

record fat_file_desc =
  d_buffer :: "u8 list"
  d_file :: fat_file
  d_opened :: bool
  d_first_cluster :: u32
  d_cur_cluster :: u32
  d_cur_sector_in_cluster :: u32

record fat =
  root_dir :: fat_file_desc
  opened_files :: "fat_file_desc list"
  g_fat :: "u8 list"
  g_data_lba :: u32
  cluster_sectors :: u8

type_synonym disk = "u32 \<Rightarrow> u8 list option"

section \<open>Clusters\<close>

definition cluster_to_lba :: "fat \<Rightarrow> u32 \<Rightarrow> u32" where
  "cluster_to_lba st cluster = g_data_lba st + (cluster - 2) * ucast (cluster_sectors st)"

definition le16 :: "u8 list \<Rightarrow> nat \<Rightarrow> u16 option" where
  "le16 bs i = do {
     lo \<leftarrow> aread bs i;
     hi \<leftarrow> aread bs (i + 1);
     Some (ucast lo OR push_bit 8 (ucast hi))
   }"

definition fat_next_cluster :: "fat \<Rightarrow> u32 \<Rightarrow> u32 option" where
  "fat_next_cluster st current_cluster =
     (let idx = current_cluster * 3 div 2 in
      if current_cluster mod 2 = 0
      then map_option (\<lambda>w. ucast w AND 0x0FFF) (le16 (g_fat st) (unat idx))
      else map_option (\<lambda>w. drop_bit 4 (ucast w)) (le16 (g_fat st) (unat idx)))"

section \<open>Open files\<close>

definition get_desc :: "fat \<Rightarrow> int \<Rightarrow> fat_file_desc option" where
  "get_desc st h = (if h = ROOT_DIR_HANDLE then Some (root_dir st) else aread_int (opened_files st) h)"

definition set_desc :: "fat \<Rightarrow> int \<Rightarrow> fat_file_desc \<Rightarrow> fat option" where
  "set_desc st h d =
     (if h = ROOT_DIR_HANDLE then Some (st\<lparr>root_dir := d\<rparr>)
      else map_option (\<lambda>ds. st\<lparr>opened_files := ds\<rparr>) (awrite_int (opened_files st) h d))"

text \<open>\<open>for (int i = 0; i < MAX_FILE_HANDLE && handle < 0; i++)\<close>\<close>

fun free_handle :: "fat_file_desc list \<Rightarrow> int \<Rightarrow> int" where
  "free_handle [] i = -1"
| "free_handle (d # ds) i = (if \<not> d_opened d then i else free_handle ds (i + 1))"

text \<open>The result is the handle, or \<open>None\<close> for a null pointer.\<close>

definition fat_open_entry :: "disk \<Rightarrow> fat \<Rightarrow> fat_dir_entry \<Rightarrow> (fat \<times> int option) option" where
  "fat_open_entry disk st entry = do {
     let handle = free_handle (take MAX_FILE_HANDLE (opened_files st)) 0;
     if handle < 0 then Some (st, None)
     else do {
       old \<leftarrow> aread_int (opened_files st) handle;
       let first = ucast (e_first_cluster_low entry) + push_bit 16 (ucast (e_first_cluster_high entry));
       let desc = old\<lparr>
         d_file := \<lparr>f_handle = handle, f_is_dir = (e_attribute entry AND FILE_ATTR_DIRECTORY \<noteq> 0),
           f_pos = 0, f_size = e_size entry\<rparr>,
         d_first_cluster := first, d_cur_cluster := first, d_cur_sector_in_cluster := 0\<rparr>;
       (case disk (cluster_to_lba st (d_cur_cluster desc)) of
          None \<Rightarrow> do {
            st' \<leftarrow> set_desc st handle desc;
            Some (st', None)
          }
        | Some sector \<Rightarrow> do {
            st' \<leftarrow> set_desc st handle (desc\<lparr>d_buffer := sector, d_opened := True\<rparr>);
            Some (st', Some handle)
          })
     }
   }"

definition fat_close :: "fat \<Rightarrow> int \<Rightarrow> fat option" where
  "fat_close st file =
     (if file = ROOT_DIR_HANDLE
      then Some (st\<lparr>root_dir := (root_dir st)\<lparr>d_file := (d_file (root_dir st))\<lparr>f_pos := 0\<rparr>,
        d_cur_cluster := d_first_cluster (root_dir st)\<rparr>\<rparr>)
      else do {
        desc \<leftarrow> aread_int (opened_files st) file;
        set_desc st file (desc\<lparr>d_opened := False\<rparr>)
      })"

section \<open>Reading\<close>

text \<open>
  What happens at the end of a sector: the next sector is loaded. The flag is false for a
  \<open>break\<close>.
\<close>

definition load_next :: "disk \<Rightarrow> fat \<Rightarrow> fat_file_desc \<Rightarrow> (fat_file_desc \<times> bool) option" where
  "load_next disk st desc =
     (if f_handle (d_file desc) = ROOT_DIR_HANDLE then
        let desc1 = desc\<lparr>d_cur_cluster := d_cur_cluster desc + 1\<rparr> in
        Some (case disk (d_cur_cluster desc1) of
            None \<Rightarrow> (desc1, False)
          | Some sector \<Rightarrow> (desc1\<lparr>d_buffer := sector\<rparr>, True))
      else do {
        let desc1 = desc\<lparr>d_cur_sector_in_cluster := d_cur_sector_in_cluster desc + 1\<rparr>;
        desc2 \<leftarrow> (if d_cur_sector_in_cluster desc1 \<ge> ucast (cluster_sectors st)
          then do {
            next_cluster \<leftarrow> fat_next_cluster st (d_cur_cluster desc1);
            Some (desc1\<lparr>d_cur_sector_in_cluster := 0, d_cur_cluster := next_cluster\<rparr>)
          } else Some desc1);
        if d_cur_cluster desc2 \<ge> 0xFF8
        then Some (desc2\<lparr>d_file := (d_file desc2)\<lparr>f_size := f_pos (d_file desc2)\<rparr>\<rparr>, False)
        else Some (case disk (cluster_to_lba st (d_cur_cluster desc2) + d_cur_sector_in_cluster desc2) of
            None \<Rightarrow> (desc2, False)
          | Some sector \<Rightarrow> (desc2\<lparr>d_buffer := sector\<rparr>, True))
      })"

definition read_chunk :: "u8 list \<Rightarrow> nat \<Rightarrow> nat \<Rightarrow> u8 list option" where
  "read_chunk buffer pos n = (if pos + n \<le> length buffer then Some (take n (drop pos buffer)) else None)"

text \<open>The loop, with the bytes copied to \<open>data\<close> so far.\<close>

partial_function (option) fat_read_loop ::
    "disk \<Rightarrow> fat \<Rightarrow> fat_file_desc \<Rightarrow> u32 \<Rightarrow> u8 list \<Rightarrow> (fat_file_desc \<times> u8 list) option" where
  "fat_read_loop disk st desc n data =
     (if n > 0 then do {
        let relative_pos = f_pos (d_file desc) mod SECTOR_SIZE;
        let left = SECTOR_SIZE - relative_pos;
        let copy_size = min n left;
        chunk \<leftarrow> read_chunk (d_buffer desc) (unat relative_pos) (unat copy_size);
        let desc1 = desc\<lparr>d_file := (d_file desc)\<lparr>f_pos := f_pos (d_file desc) + copy_size\<rparr>\<rparr>;
        if left = copy_size then do {
          (desc2, more) \<leftarrow> load_next disk st desc1;
          if more then fat_read_loop disk st desc2 (n - copy_size) (data @ chunk)
          else Some (desc2, data @ chunk)
        } else fat_read_loop disk st desc1 (n - copy_size) (data @ chunk)
      } else Some (desc, data))"

text \<open>The number of bytes read is the length of the data.\<close>

definition fat_read :: "disk \<Rightarrow> fat \<Rightarrow> int \<Rightarrow> u32 \<Rightarrow> (fat \<times> u8 list) option" where
  "fat_read disk st file n = do {
     desc \<leftarrow> get_desc st file;
     let n' = (if \<not> f_is_dir (d_file desc) \<or> f_size (d_file desc) \<noteq> 0
       then min n (f_size (d_file desc) - f_pos (d_file desc)) else n);
     (desc', data) \<leftarrow> fat_read_loop disk st desc n' [];
     st' \<leftarrow> set_desc st file desc';
     Some (st', data)
   }"

text \<open>The 32 bytes of a directory entry.\<close>

definition le32 :: "u8 list \<Rightarrow> nat \<Rightarrow> u32" where
  "le32 bs i = ucast (bs ! i) OR push_bit 8 (ucast (bs ! (i + 1))) OR
     push_bit 16 (ucast (bs ! (i + 2))) OR push_bit 24 (ucast (bs ! (i + 3)))"

definition entry_of_bytes :: "u8 list \<Rightarrow> fat_dir_entry" where
  "entry_of_bytes bs = \<lparr>e_name = take 11 bs, e_attribute = bs ! 11,
     e_first_cluster_high = ucast (bs ! 20) OR push_bit 8 (ucast (bs ! 21)),
     e_first_cluster_low = ucast (bs ! 26) OR push_bit 8 (ucast (bs ! 27)),
     e_size = le32 bs 28\<rparr>"

definition fat_entry :: "disk \<Rightarrow> fat \<Rightarrow> int \<Rightarrow> (fat \<times> fat_dir_entry option) option" where
  "fat_entry disk st file = do {
     (st', data) \<leftarrow> fat_read disk st file 32;
     Some (st', if length data = 32 then Some (entry_of_bytes data) else None)
   }"

section \<open>Directory search\<close>

text \<open>
  The 11 characters a name is compared with. \<open>fat_name\<close> is an uninitialised array on the
  stack of which \<open>memset(fat_name, ' ', sizeof(name))\<close> sets the first four bytes only (the
  size of a pointer); \<open>garbage\<close> is what it held before. The name is the list of its characters,
  with its terminator at \<open>length name\<close>.
\<close>

definition char_at :: "u8 list \<Rightarrow> nat \<Rightarrow> u8" where
  "char_at name i = (if i < length name then name ! i else 0)"

definition upper :: "u8 \<Rightarrow> u8" where
  "upper c = word_of_int (toupper (sint c))"

text \<open>The loop over the base name; it returns \<open>name_end\<close>.\<close>

fun base_loop :: "nat \<Rightarrow> u8 list \<Rightarrow> nat option \<Rightarrow> nat \<Rightarrow> u8 list \<Rightarrow> u8 list \<times> nat" where
  "base_loop 0 name ext i fat_name = (fat_name, i)"
| "base_loop (Suc k) name ext i fat_name =
     (if char_at name i \<noteq> 0 \<and> (case ext of None \<Rightarrow> True | Some e \<Rightarrow> i < e)
      then base_loop k name ext (Suc i) (fat_name[i := upper (char_at name i)])
      else (fat_name, i))"

fun ext_loop :: "nat \<Rightarrow> u8 list \<Rightarrow> nat \<Rightarrow> nat \<Rightarrow> u8 list \<Rightarrow> u8 list" where
  "ext_loop 0 name e i fat_name = fat_name"
| "ext_loop (Suc k) name e i fat_name =
     (if char_at name (e + i + 1) \<noteq> 0
      then ext_loop k name e (Suc i) (fat_name[i + 8 := upper (char_at name (e + i + 1))])
      else fat_name)"

definition fat_name_of :: "u8 list \<Rightarrow> u8 list \<Rightarrow> u8 list" where
  "fat_name_of garbage name =
     (let n0 = (replicate 4 32 @ drop 4 (take 12 garbage))[11 := 0];
          ext = find_char 46 name;
          (n1, name_end) = base_loop 8 name ext 0 n0;
          (n2, max_len) = (case ext of None \<Rightarrow> (n1, 12) | Some e \<Rightarrow> (ext_loop 3 name e 0 n1, 8)) in
      fold (\<lambda>i fat_name. fat_name[i := 32]) [name_end..<max_len] n2)"

partial_function (option) find_loop ::
    "disk \<Rightarrow> fat \<Rightarrow> int \<Rightarrow> u8 list \<Rightarrow> (fat \<times> fat_dir_entry option) option" where
  "find_loop disk st file fat_name = do {
     (st', r) \<leftarrow> fat_entry disk st file;
     (case r of
        None \<Rightarrow> Some (st', None)
      | Some e \<Rightarrow>
          if compare_bytes (take 11 fat_name) (e_name e) = 0 then Some (st', Some e)
          else find_loop disk st' file fat_name)
   }"

definition fat_find_file ::
    "disk \<Rightarrow> fat \<Rightarrow> int \<Rightarrow> u8 list \<Rightarrow> u8 list \<Rightarrow> (fat \<times> fat_dir_entry option) option" where
  "fat_find_file disk st file garbage name = find_loop disk st file (fat_name_of garbage name)"

section \<open>Paths\<close>

text \<open>
  A path is the list of its characters. A component that does not fit \<open>name[MAX_PATH_SIZE]\<close>
  overflows the array; a null pointer from \<open>fat_open_entry\<close> is dereferenced by the next
  round. The test for a directory reads \<open>entry.attribute & (FILE_ATTR_DIRECTORY == 0)\<close>, as
  C parses it.
\<close>

partial_function (option) open_loop ::
    "disk \<Rightarrow> (nat \<Rightarrow> u8 list) \<Rightarrow> nat \<Rightarrow> fat \<Rightarrow> int option \<Rightarrow> u8 list \<Rightarrow> (fat \<times> int option) option" where
  "open_loop disk garbage round st current path =
     (if path = [] then Some (st, current)
      else do {
        let delim = find_char 47 path;
        let name = (case delim of Some i \<Rightarrow> take i path | None \<Rightarrow> path);
        let rest = (case delim of Some i \<Rightarrow> drop (i + 1) path | None \<Rightarrow> []);
        let is_last = (delim = None);
        if MAX_PATH_SIZE \<le> length name then None
        else do {
          file \<leftarrow> current;
          (st1, found) \<leftarrow> fat_find_file disk st file (garbage round) name;
          st2 \<leftarrow> fat_close st1 file;
          (case found of
             None \<Rightarrow> Some (st2, None)
           | Some entry \<Rightarrow>
               if \<not> is_last \<and> e_attribute entry AND of_bool (FILE_ATTR_DIRECTORY = 0) \<noteq> 0
               then Some (st2, None)
               else do {
                 (st3, current') \<leftarrow> fat_open_entry disk st2 entry;
                 open_loop disk garbage (Suc round) st3 current' rest
               })
        }
      })"

definition fat_open :: "disk \<Rightarrow> (nat \<Rightarrow> u8 list) \<Rightarrow> fat \<Rightarrow> u8 list \<Rightarrow> (fat \<times> int option) option" where
  "fat_open disk garbage st path =
     (let path' = (if char_at path 0 = 47 then tl path else path) in
      open_loop disk garbage 0 st (Some ROOT_DIR_HANDLE) path')"

end
