(* ===== verification/FatCorrect.thy ===== *)
theory FatCorrect
  imports Fat
begin

text \<open>
  Correctness of the FAT12 driver: the packed 12-bit entries, reading a file as reading from
  the concatenation of its sectors, and the table of open files.
\<close>

section \<open>Streams of sectors\<close>

text \<open>What a load of the next sector leaves alone.\<close>

definition same_desc :: "fat_file_desc \<Rightarrow> fat_file_desc \<Rightarrow> bool" where
  "same_desc d d' \<longleftrightarrow> d_opened d' = d_opened d \<and> d_first_cluster d' = d_first_cluster d \<and>
     f_handle (d_file d') = f_handle (d_file d) \<and> f_is_dir (d_file d') = f_is_dir (d_file d)"

lemma same_desc_refl [simp]: "same_desc d d"
  by (simp add: same_desc_def)

lemma same_desc_trans: "same_desc d d' \<Longrightarrow> same_desc d' d'' \<Longrightarrow> same_desc d d''"
  by (simp add: same_desc_def)

text \<open>A piece of one block is a piece of the concatenation.\<close>

lemma take_drop_concat:
  assumes "\<And>s. s \<in> set ss \<Longrightarrow> length s = b" "k < length ss" "r + c \<le> b"
  shows "take c (drop (b * k + r) (concat ss)) = take c (drop r (ss ! k))"
  using assms
proof (induction ss arbitrary: k)
  case (Cons s ss)
  show ?case
  proof (cases k)
    case 0
    then show ?thesis using Cons.prems by (simp add: )
  next
    case (Suc j)
    have "length s = b" using Cons.prems(1) by simp
    moreover have "take c (drop (b * j + r) (concat ss)) = take c (drop r (ss ! j))"
      by (rule Cons.IH) (use Cons.prems Suc in auto)
    ultimately show ?thesis using Suc by simp
  qed
qed simp

lemma length_concat_blocks: "(\<And>s. s \<in> set ss \<Longrightarrow> length s = b) \<Longrightarrow> length (concat ss) = b * length ss"
  by (induction ss) auto

text \<open>One step of the read loop, with all sizes as natural numbers.\<close>

lemma fat_read_loop_step:
  assumes n: "0 < unat n" and p: "unat (f_pos (d_file d)) = p" "p + unat n < 2 ^ 32"
    and buf: "length (d_buffer d) = 512" and c: "c = min (unat n) (512 - p mod 512)"
  shows "\<exists>d1 n'. d1 = d\<lparr>d_file := (d_file d)\<lparr>f_pos := word_of_nat (p + c)\<rparr>\<rparr> \<and> unat n' = unat n - c \<and>
    unat (f_pos (d_file d1)) = p + c \<and>
    fat_read_loop disk st d n data =
      (if p mod 512 + c = 512 then do {
         (d2, more) \<leftarrow> load_next disk st d1;
         if more then fat_read_loop disk st d2 n' (data @ take c (drop (p mod 512) (d_buffer d)))
         else Some (d2, data @ take c (drop (p mod 512) (d_buffer d)))
       } else fat_read_loop disk st d1 n' (data @ take c (drop (p mod 512) (d_buffer d))))"
proof -
  let ?rel = "f_pos (d_file d) mod SECTOR_SIZE"
  let ?left = "SECTOR_SIZE - ?rel"
  have rel: "unat ?rel = p mod 512" using p(1) by (simp add: SECTOR_SIZE_def unat_mod_distrib)
  have "?rel \<le> SECTOR_SIZE" using rel by (simp add: word_le_nat_alt SECTOR_SIZE_def)
  then have left: "unat ?left = 512 - p mod 512" using rel by (simp add: unat_sub SECTOR_SIZE_def)
  have copy: "unat (min n ?left) = c" using left c by (simp add: min_def word_le_nat_alt)
  have pos: "f_pos (d_file d) + min n ?left = word_of_nat (p + c)" "unat (word_of_nat (p + c) :: u32) = p + c"
  proof -
    have "p + c < 2 ^ 32" using p(2) c by simp
    then show u: "unat (word_of_nat (p + c) :: u32) = p + c" by (simp add: unat_of_nat take_bit_eq_mod del: of_nat_add)
    have "f_pos (d_file d) = word_of_nat p" "min n ?left = word_of_nat c"
      using p(1) copy by (metis of_nat_unat ucast_id)+
    then show "f_pos (d_file d) + min n ?left = word_of_nat (p + c)" by (simp only: of_nat_add)
  qed
  have n': "unat (n - min n ?left) = unat n - c" using copy unat_sub [OF min.cobounded1, of n ?left] by simp
  have full: "?left = min n ?left \<longleftrightarrow> p mod 512 + c = 512"
    using left copy unfolding word_unat_eq_iff by simp (use mod_less_divisor [of 512 p] in linarith)
  have "0 < n" using n by (simp add: word_less_nat_alt)
  moreover have "read_chunk (d_buffer d) (unat ?rel) (unat (min n ?left)) = Some (take c (drop (p mod 512) (d_buffer d)))"
  proof -
    have "p mod 512 < 512" by simp
    then have "p mod 512 + c \<le> 512" using c by linarith
    then show ?thesis using buf rel copy by (simp add: read_chunk_def)
  qed
  ultimately have run: "fat_read_loop disk st d n data =
      (if p mod 512 + c = 512 then do {
         (d2, more) \<leftarrow> load_next disk st (d\<lparr>d_file := (d_file d)\<lparr>f_pos := word_of_nat (p + c)\<rparr>\<rparr>);
         if more then fat_read_loop disk st d2 (n - min n ?left) (data @ take c (drop (p mod 512) (d_buffer d)))
         else Some (d2, data @ take c (drop (p mod 512) (d_buffer d)))
       } else fat_read_loop disk st (d\<lparr>d_file := (d_file d)\<lparr>f_pos := word_of_nat (p + c)\<rparr>\<rparr>) (n - min n ?left)
         (data @ take c (drop (p mod 512) (d_buffer d))))"
    using full by (subst fat_read_loop.simps) (simp only: Let_def pos(1) if_True Option.bind.bind_lunit)
  show ?thesis
    by (rule exI [of _ "d\<lparr>d_file := (d_file d)\<lparr>f_pos := word_of_nat (p + c)\<rparr>\<rparr>"],
        rule exI [of _ "n - min n ?left"], intro conjI refl n' run) (simp add: pos(2) del: of_nat_add)
qed

text \<open>
  The interface that the read loop needs of what it reads from, be it a cluster chain or the
  root directory: \<open>at_sector x d k\<close> says that the descriptor \<open>d\<close> is in sector \<open>k\<close> of \<open>x\<close>, and
  \<open>marks_end\<close> that the size of the file is set at the end of the last sector.
\<close>

locale sector_stream =
  fixes ok :: "'x \<Rightarrow> bool"
    and sectors :: "'x \<Rightarrow> u8 list list"
    and disk_of :: "'x \<Rightarrow> disk"
    and fat_of :: "'x \<Rightarrow> fat"
    and at_sector :: "'x \<Rightarrow> fat_file_desc \<Rightarrow> nat \<Rightarrow> bool"
    and marks_end :: bool
  assumes sector_length: "ok x \<Longrightarrow> s \<in> set (sectors x) \<Longrightarrow> length s = 512"
    and total_bound: "ok x \<Longrightarrow> 512 * length (sectors x) < 2 ^ 32"
    and at_buffer: "ok x \<Longrightarrow> at_sector x d k \<Longrightarrow> k < length (sectors x) \<Longrightarrow> d_buffer d = sectors x ! k"
    and at_pos: "at_sector x d k \<Longrightarrow> at_sector x (d\<lparr>d_file := (d_file d)\<lparr>f_pos := q\<rparr>\<rparr>) k"
    and load_more: "ok x \<Longrightarrow> at_sector x d k \<Longrightarrow> Suc k < length (sectors x) \<Longrightarrow>
      \<exists>d'. load_next (disk_of x) (fat_of x) d = Some (d', True) \<and> at_sector x d' (Suc k) \<and> same_desc d d' \<and> d_file d' = d_file d"
    and load_end: "ok x \<Longrightarrow> at_sector x d k \<Longrightarrow> Suc k = length (sectors x) \<Longrightarrow>
      \<exists>d' more. load_next (disk_of x) (fat_of x) d = Some (d', more) \<and> same_desc d d' \<and> f_pos (d_file d') = f_pos (d_file d) \<and>
        f_size (d_file d') = (if marks_end then f_pos (d_file d) else f_size (d_file d))"
begin

definition total :: "'x \<Rightarrow> nat" where
  "total x = 512 * length (sectors x)"

text \<open>A descriptor at byte \<open>p\<close> of the stream.\<close>

definition at_byte :: "'x \<Rightarrow> fat_file_desc \<Rightarrow> nat \<Rightarrow> bool" where
  "at_byte x d p \<longleftrightarrow> unat (f_pos (d_file d)) = p \<and> p \<le> total x \<and> (p < total x \<longrightarrow> at_sector x d (p div 512))"

text \<open>One round of the loop on the stream: \<open>c\<close> bytes are copied, and the sector may be used up.\<close>

lemma stream_round:
  assumes ok: "ok x" and byte: "at_byte x d p" and n: "0 < unat n" "p + unat n \<le> total x"
  defines "c \<equiv> min (unat n) (512 - p mod 512)"
  obtains d1 n' where "0 < c" "unat n' = unat n - c" "c \<le> unat n" "p mod 512 + c \<le> 512"
    "unat (f_pos (d_file d1)) = p + c" "same_desc d d1" "f_size (d_file d1) = f_size (d_file d)" "p div 512 < length (sectors x)"
    "at_sector x d1 (p div 512)" "take c (drop p (concat (sectors x))) @ take (unat n') (drop (p + c) (concat (sectors x))) =
      take (unat n) (drop p (concat (sectors x)))"
    "fat_read_loop (disk_of x) (fat_of x) d n data =
      (if p mod 512 + c = 512 then do {
         (d2, more) \<leftarrow> load_next (disk_of x) (fat_of x) d1;
         if more then fat_read_loop (disk_of x) (fat_of x) d2 n' (data @ take c (drop p (concat (sectors x))))
         else Some (d2, data @ take c (drop p (concat (sectors x))))
       } else fat_read_loop (disk_of x) (fat_of x) d1 n' (data @ take c (drop p (concat (sectors x)))))"
proof -
  let ?k = "p div 512"
  have pos: "unat (f_pos (d_file d)) = p" using byte by (simp add: at_byte_def)
  have lt: "p < total x" using n by simp
  then have k: "at_sector x d ?k" "?k < length (sectors x)" using byte by (auto simp: at_byte_def total_def)
  have buf: "d_buffer d = sectors x ! ?k" "length (sectors x ! ?k) = 512"
    using at_buffer [OF ok k] sector_length [OF ok] k(2) by auto
  have bound: "p + unat n < 2 ^ 32" using n(2) total_bound [OF ok] by (simp add: total_def)
  have c: "0 < c" "c \<le> unat n" "p mod 512 + c \<le> 512" using n(1) by (auto simp: c_def)
  have chunk: "take c (drop (p mod 512) (d_buffer d)) = take c (drop p (concat (sectors x)))"
    using take_drop_concat [of "sectors x" 512 ?k "p mod 512" c] sector_length [OF ok] k(2) c(3) buf(1) by simp
  obtain d1 n' where d1: "d1 = d\<lparr>d_file := (d_file d)\<lparr>f_pos := word_of_nat (p + c)\<rparr>\<rparr>" "unat n' = unat n - c"
    "unat (f_pos (d_file d1)) = p + c" and step: "fat_read_loop (disk_of x) (fat_of x) d n data =
      (if p mod 512 + c = 512 then do {
         (d2, more) \<leftarrow> load_next (disk_of x) (fat_of x) d1;
         if more then fat_read_loop (disk_of x) (fat_of x) d2 n' (data @ take c (drop p (concat (sectors x))))
         else Some (d2, data @ take c (drop p (concat (sectors x))))
       } else fat_read_loop (disk_of x) (fat_of x) d1 n' (data @ take c (drop p (concat (sectors x)))))"
    using fat_read_loop_step [of n d p c "disk_of x" "fat_of x" data, OF n(1) pos bound _ c_def [THEN meta_eq_to_obj_eq]] buf
    unfolding chunk by auto
  have "take c (drop p (concat (sectors x))) @ take (unat n') (drop (p + c) (concat (sectors x))) =
      take (unat n) (drop p (concat (sectors x)))"
    using take_add [of c "unat n'" "drop p (concat (sectors x))"] d1(2) c(2) by (simp add: add.commute)
  moreover have "at_sector x d1 ?k" "same_desc d d1" "f_size (d_file d1) = f_size (d_file d)"
    unfolding d1(1) using at_pos [OF k(1)] by (simp_all add: same_desc_def)
  ultimately show thesis using that [of n' d1] c d1(2,3) k(2) step by blast
qed

text \<open>What a run of the loop gives; rounds within a sector, into the next one, and up to the end.\<close>

definition reads :: "'x \<Rightarrow> fat_file_desc \<Rightarrow> nat \<Rightarrow> u32 \<Rightarrow> u8 list \<Rightarrow> (fat_file_desc \<times> u8 list) option \<Rightarrow> bool" where
  "reads x d p n data r \<longleftrightarrow> (\<exists>d'. r = Some (d', data @ take (unat n) (drop p (concat (sectors x)))) \<and>
     at_byte x d' (p + unat n) \<and> same_desc d d' \<and>
     f_size (d_file d') = (if marks_end \<and> 0 < unat n \<and> p + unat n = total x then f_pos (d_file d') else f_size (d_file d)))"

lemma reads_round:
  assumes r: "reads x d1 (p + c) n' (data @ take c (drop p (concat (sectors x)))) r"
    and n: "unat n' = unat n - c" "c \<le> unat n" "0 < c" "same_desc d d1" "f_size (d_file d1) = f_size (d_file d)"
    and split: "take c (drop p (concat (sectors x))) @ take (unat n') (drop (p + c) (concat (sectors x))) =
      take (unat n) (drop p (concat (sectors x)))"
    and inner: "p + c \<noteq> total x \<or> 0 < unat n'"
  shows "reads x d p n data r"
proof -
  obtain d' where d': "r = Some (d', (data @ take c (drop p (concat (sectors x)))) @ take (unat n') (drop (p + c) (concat (sectors x))))"
    "at_byte x d' (p + c + unat n')" "same_desc d1 d'"
    "f_size (d_file d') = (if marks_end \<and> 0 < unat n' \<and> p + c + unat n' = total x then f_pos (d_file d') else f_size (d_file d1))"
    using r unfolding reads_def by blast
  have "p + c + unat n' = p + unat n" using n by simp
  note d' = d' [unfolded this]
  have "r = Some (d', data @ take (unat n) (drop p (concat (sectors x))))" using d'(1) split by simp
  then show ?thesis unfolding reads_def using d'(2-4) n same_desc_trans [OF n(4) d'(3)] inner by (intro exI [of _ d']) auto
qed

lemma reads_last:
  assumes ok: "ok x" and d1: "at_sector x d1 k" "Suc k = length (sectors x)" "unat (f_pos (d_file d1)) = p + unat n"
    and n: "p + unat n = total x" "0 < unat n" "same_desc d d1" "f_size (d_file d1) = f_size (d_file d)" and n': "n' = 0"
  shows "reads x d p n data (do {
     (d2, more) \<leftarrow> load_next (disk_of x) (fat_of x) d1;
     if more then fat_read_loop (disk_of x) (fat_of x) d2 n' (data @ take (unat n) (drop p (concat (sectors x))))
     else Some (d2, data @ take (unat n) (drop p (concat (sectors x))))
   })"
proof -
  obtain d2 more where d2: "load_next (disk_of x) (fat_of x) d1 = Some (d2, more)" "same_desc d1 d2"
    "f_pos (d_file d2) = f_pos (d_file d1)" "f_size (d_file d2) = (if marks_end then f_pos (d_file d1) else f_size (d_file d1))"
    using load_end [OF ok d1(1,2)] by blast
  have "fat_read_loop (disk_of x) (fat_of x) d2 0 l = Some (d2, l)" for l by (subst fat_read_loop.simps) simp
  moreover have "at_byte x d2 (p + unat n)" using d2(3) d1(3) n(1) by (simp add: at_byte_def)
  ultimately show ?thesis unfolding reads_def
    using d2 n same_desc_trans [OF n(3) d2(2)] n' by (intro exI [of _ d2]) auto
qed

lemma read_loop_reads:
  assumes ok: "ok x"
  shows "at_byte x d p \<Longrightarrow> p + unat n \<le> total x \<Longrightarrow> reads x d p n data (fat_read_loop (disk_of x) (fat_of x) d n data)"
proof (induction "unat n" arbitrary: n d p data rule: less_induct)
  case less
  show ?case
  proof (cases "unat n = 0")
    case True
    then have "n = 0" by (simp add: unat_eq_zero)
    then show ?thesis using less.prems by (subst fat_read_loop.simps) (simp add: reads_def)
  next
    case False
    let ?k = "p div 512" and ?all = "concat (sectors x)"
    define c where "c = min (unat n) (512 - p mod 512)"
    obtain d1 n' where r: "0 < c" "unat n' = unat n - c" "c \<le> unat n" "p mod 512 + c \<le> 512"
      "unat (f_pos (d_file d1)) = p + c" "same_desc d d1" "f_size (d_file d1) = f_size (d_file d)" "?k < length (sectors x)"
      "at_sector x d1 ?k" "take c (drop p ?all) @ take (unat n') (drop (p + c) ?all) = take (unat n) (drop p ?all)"
      "fat_read_loop (disk_of x) (fat_of x) d n data =
        (if p mod 512 + c = 512 then do {
           (d2, more) \<leftarrow> load_next (disk_of x) (fat_of x) d1;
           if more then fat_read_loop (disk_of x) (fat_of x) d2 n' (data @ take c (drop p ?all))
           else Some (d2, data @ take c (drop p ?all))
         } else fat_read_loop (disk_of x) (fat_of x) d1 n' (data @ take c (drop p ?all)))"
      using stream_round [OF ok less.prems(1) _ less.prems(2)] False unfolding c_def by blast
    have less': "unat n' < unat n" "p + c + unat n' \<le> total x" using r(1-3) less.prems(2) by simp_all
    have pk: "p + c = 512 * ?k + (p mod 512 + c)" by simp
    note go = reads_round [OF _ r(2,3,1) _ _ r(10)]
    show ?thesis
    proof (cases "p mod 512 + c = 512")
      case False
      have gen: "(512 * q + e) div 512 = q \<and> (512 * q + e) mod 512 = e" if "e < 512" for q e :: nat using that by simp
      have "p mod 512 + c < 512" using r(4) False by simp
      from gen [OF this, of ?k, folded pk] have "(p + c) div 512 = ?k" "(p + c) mod 512 \<noteq> 0" using r(1) by simp_all
      then have "at_byte x d1 (p + c)" "p + c \<noteq> total x" using r(5,9) less'(2) by (auto simp: at_byte_def total_def)
      then show ?thesis using go [OF less.hyps [OF less'(1) _ less'(2)] r(6,7)] r(11) False by simp
    next
      case full: True
      then have pc: "p + c = 512 * Suc ?k" using pk by simp
      show ?thesis
      proof (cases "Suc ?k < length (sectors x)")
        case True
        then obtain d2 where d2: "load_next (disk_of x) (fat_of x) d1 = Some (d2, True)" "at_sector x d2 (Suc ?k)"
          "same_desc d1 d2" "d_file d2 = d_file d1"
          using load_more [OF ok r(9)] by blast
        have "at_byte x d2 (p + c)" "p + c \<noteq> total x" using d2 r(5) True unfolding pc by (auto simp: at_byte_def total_def)
        moreover have "same_desc d d2" using same_desc_trans r(6) d2(3) by blast
        ultimately show ?thesis using go [OF less.hyps [OF less'(1) _ less'(2)], of d2] r(7,11) full d2(1,4) by simp
      next
        case False
        then have last: "Suc ?k = length (sectors x)" using r(8) by simp
        then have fin: "p + c = total x" "c = unat n" using pc less'(2) r(2,3) by (auto simp: total_def)
        have "n' = 0" using r(2) fin(2) by (simp add: unat_eq_zero)
        then show ?thesis using reads_last [OF ok r(9) last, of p n d n' data] r fin(1) full unfolding fin(2) by simp
      qed
    qed
  qed
qed

lemma read_loop_stream:
  assumes "ok x" "at_byte x d p" "p + unat n \<le> total x"
  shows "\<exists>d'. fat_read_loop (disk_of x) (fat_of x) d n data =
        Some (d', data @ take (unat n) (drop p (concat (sectors x)))) \<and>
      at_byte x d' (p + unat n) \<and> same_desc d d' \<and>
      f_size (d_file d') = (if marks_end \<and> 0 < unat n \<and> p + unat n = total x then f_pos (d_file d') else f_size (d_file d))"
  using read_loop_reads [OF assms] by (simp add: reads_def)

end

section \<open>The two streams of the driver\<close>

text \<open>
  A cluster chain \<open>cs\<close> whose sectors \<open>ss\<close> the disk can read: every cluster is linked to the
  next one by the FAT, and the last one to an end mark.
\<close>

type_synonym chain = "disk \<times> fat \<times> u32 list \<times> u8 list list"

definition per_cluster :: "fat \<Rightarrow> nat" where
  "per_cluster st = unat (cluster_sectors st)"

definition chain_ok :: "chain \<Rightarrow> bool" where
  "chain_ok = (\<lambda>(disk, st, cs, ss). 0 < per_cluster st \<and>
     length ss = per_cluster st * length cs \<and> 512 * length ss < 2 ^ 32 \<and>
     (\<forall>s \<in> set ss. length s = 512) \<and> (\<forall>c \<in> set cs. c < 0xFF8) \<and>
     (\<forall>i < length cs. \<exists>c. fat_next_cluster st (cs ! i) = Some c \<and>
        (if Suc i < length cs then c = cs ! Suc i else 0xFF8 \<le> c)) \<and>
     (\<forall>k < length ss. disk (cluster_to_lba st (cs ! (k div per_cluster st)) +
        word_of_nat (k mod per_cluster st)) = Some (ss ! k)))"

definition chain_at :: "chain \<Rightarrow> fat_file_desc \<Rightarrow> nat \<Rightarrow> bool" where
  "chain_at = (\<lambda>(disk, st, cs, ss) d k. f_handle (d_file d) \<noteq> ROOT_DIR_HANDLE \<and> k < length ss \<and>
     d_buffer d = ss ! k \<and> d_cur_cluster d = cs ! (k div per_cluster st) \<and>
     d_cur_sector_in_cluster d = word_of_nat (k mod per_cluster st))"

text \<open>The root directory: consecutive sectors from \<open>lba\<close> on.\<close>

type_synonym root_area = "disk \<times> fat \<times> u32 \<times> u8 list list"

definition root_ok :: "root_area \<Rightarrow> bool" where
  "root_ok = (\<lambda>(disk, st, lba, ss). 512 * length ss < 2 ^ 32 \<and> (\<forall>s \<in> set ss. length s = 512) \<and>
     (\<forall>k < length ss. disk (lba + word_of_nat k) = Some (ss ! k)))"

definition root_at :: "root_area \<Rightarrow> fat_file_desc \<Rightarrow> nat \<Rightarrow> bool" where
  "root_at = (\<lambda>(disk, st, lba, ss) d k. f_handle (d_file d) = ROOT_DIR_HANDLE \<and> k < length ss \<and>
     d_buffer d = ss ! k \<and> d_cur_cluster d = lba + word_of_nat k)"

lemma cur_sector_next:
  assumes "0 < per_cluster st"
  shows "word_of_nat (k mod per_cluster st) + 1 \<ge> (ucast (cluster_sectors st) :: u32) \<longleftrightarrow>
      Suc (k mod per_cluster st) = per_cluster st"
proof -
  have spc: "unat (ucast (cluster_sectors st) :: u32) = per_cluster st" "per_cluster st < 256"
  proof -
    have lt: "unat (cluster_sectors st) < 2 ^ LENGTH(8)" by (rule unsigned_less)
    then show "per_cluster st < 256" by (simp add: per_cluster_def)
    show "unat (ucast (cluster_sectors st) :: u32) = per_cluster st"
      using lt by (simp add: per_cluster_def unsigned_ucast_eq take_bit_eq_mod)
  qed
  have "k mod per_cluster st < per_cluster st" using assms by simp
  then have "unat (word_of_nat (Suc (k mod per_cluster st)) :: u32) = Suc (k mod per_cluster st)"
    using spc(2) by (simp add: unat_of_nat take_bit_eq_mod del: of_nat_Suc)
  then show ?thesis using spc(1) \<open>k mod per_cluster st < per_cluster st\<close>
    by (simp add: word_le_nat_alt add.commute) linarith
qed

lemma chain_load:
  assumes ok: "chain_ok (disk, st, cs, ss)" and at: "chain_at (disk, st, cs, ss) d k"
  shows "if Suc k < length ss
    then \<exists>d'. load_next disk st d = Some (d', True) \<and> chain_at (disk, st, cs, ss) d' (Suc k) \<and>
      same_desc d d' \<and> d_file d' = d_file d
    else \<exists>d'. load_next disk st d = Some (d', False) \<and> same_desc d d' \<and>
      f_pos (d_file d') = f_pos (d_file d) \<and> f_size (d_file d') = f_pos (d_file d)"
proof -
  let ?p = "per_cluster st"
  note o = ok [unfolded chain_ok_def prod.case]
  note a = at [unfolded chain_at_def prod.case]
  have p: "0 < ?p" "k < ?p * length cs" using o a by auto
  then have kc: "k div ?p < length cs" by (simp add: less_mult_imp_div_less mult.commute)
  show ?thesis
  proof (cases "Suc (k mod ?p) = ?p")
    case False
    then have ds: "Suc k mod ?p = Suc (k mod ?p)" "Suc k div ?p = k div ?p" by (auto simp: mod_Suc div_Suc)
    have lt: "Suc k < length ss"
    proof -
      have "?p * (k div ?p) + k mod ?p = k" by (rule mult_div_mod_eq)
      moreover have "Suc (k mod ?p) < ?p" using False mod_less_divisor [OF p(1), of k] by linarith
      moreover have "?p * Suc (k div ?p) \<le> ?p * length cs" using kc by (intro mult_le_mono2) simp
      moreover have "length ss = ?p * length cs" using o by simp
      ultimately show ?thesis unfolding mult_Suc_right by linarith
    qed
    have "cs ! (k div ?p) < 0xFF8" using o kc by simp
    then have c: "\<not> 0xFF8 \<le> cs ! (k div ?p)" by simp
    have disk: "disk (cluster_to_lba st (cs ! (k div ?p)) + word_of_nat (Suc (k mod ?p))) = Some (ss ! Suc k)"
      using o lt ds by metis
    show ?thesis
      using a lt c disk False cur_sector_next [OF p(1), of k]
      by (simp add: load_next_def Let_def same_desc_def chain_at_def ds add.commute)
  next
    case True
    then have ds: "Suc k mod ?p = 0" "Suc k div ?p = Suc (k div ?p)" by (auto simp: mod_Suc div_Suc)
    obtain c where c: "fat_next_cluster st (cs ! (k div ?p)) = Some c"
      "if Suc (k div ?p) < length cs then c = cs ! Suc (k div ?p) else 0xFF8 \<le> c" using o kc by blast
    have "Suc k = ?p * Suc (k div ?p)"
      using ds div_mult_mod_eq [of "Suc k" ?p] by (simp add: mult.commute)
    then have lt: "Suc k < length ss \<longleftrightarrow> Suc (k div ?p) < length cs" 
    proof -
      have "length ss = ?p * length cs" using o by simp
      then show ?thesis using \<open>Suc k = ?p * Suc (k div ?p)\<close> p(1) by (simp only: mult_less_cancel1 simp_thms)
    qed
    show ?thesis
    proof (cases "Suc (k div ?p) < length cs")
      case more: True
      then have "cs ! Suc (k div ?p) < 0xFF8" using o by simp
      then have n: "\<not> 0xFF8 \<le> cs ! Suc (k div ?p)" by simp
      have disk: "disk (cluster_to_lba st (cs ! Suc (k div ?p)) + word_of_nat 0) = Some (ss ! Suc k)"
        using o lt ds more by metis
      show ?thesis
        using a lt c n disk True more cur_sector_next [OF p(1), of k]
        by (simp add: load_next_def Let_def same_desc_def chain_at_def ds)
    next
      case False
      then show ?thesis
        using a lt c True cur_sector_next [OF p(1), of k]
        by (simp add: load_next_def Let_def same_desc_def)
    qed
  qed
qed

interpretation chain: sector_stream chain_ok "\<lambda>(disk, st, cs, ss). ss" "\<lambda>(disk, st, cs, ss). disk"
  "\<lambda>(disk, st, cs, ss). st" chain_at True
proof (unfold_locales, goal_cases)
  case (5 x d k)
  then show ?case using chain_load [of "fst x" "fst (snd x)" "fst (snd (snd x))" "snd (snd (snd x))" d k]
    by (simp add: case_prod_unfold)
next
  case (6 x d k)
  then show ?case using chain_load [of "fst x" "fst (snd x)" "fst (snd (snd x))" "snd (snd (snd x))" d k]
    by (auto simp: case_prod_unfold)
qed (auto simp: chain_ok_def chain_at_def)

lemma root_load:
  assumes "root_ok (disk, st, lba, ss)" "root_at (disk, st, lba, ss) d k"
  shows "\<exists>d' more. load_next disk st d = Some (d', more) \<and> same_desc d d' \<and> d_file d' = d_file d \<and>
    (Suc k < length ss \<longrightarrow> more \<and> root_at (disk, st, lba, ss) d' (Suc k))"
proof (cases "Suc k < length ss")
  case True
  then have "disk (lba + word_of_nat (Suc k)) = Some (ss ! Suc k)" using assms(1) by (auto simp: root_ok_def)
  then have "load_next disk st d = Some (d\<lparr>d_cur_cluster := d_cur_cluster d + 1, d_buffer := ss ! Suc k\<rparr>, True)"
    using assms(2) by (simp add: load_next_def Let_def root_at_def add.assoc add.commute [of 1])
  then show ?thesis using assms(2) True
    by (intro exI [of _ "d\<lparr>d_cur_cluster := d_cur_cluster d + 1, d_buffer := ss ! Suc k\<rparr>"] exI [of _ True])
      (simp add: root_at_def same_desc_def add.assoc add.commute [of 1])
next
  case False
  then show ?thesis using assms(2)
    by (auto simp: load_next_def Let_def root_at_def same_desc_def split: option.splits)
qed

interpretation root: sector_stream root_ok "\<lambda>(disk, st, lba, ss). ss" "\<lambda>(disk, st, lba, ss). disk"
  "\<lambda>(disk, st, lba, ss). st" root_at False
proof (unfold_locales, goal_cases)
  case (5 x d k)
  then show ?case using root_load [of "fst x" "fst (snd x)" "fst (snd (snd x))" "snd (snd (snd x))" d k]
    by (auto simp: case_prod_unfold)
next
  case (6 x d k)
  then show ?case using root_load [of "fst x" "fst (snd x)" "fst (snd (snd x))" "snd (snd (snd x))" d k]
    by (auto simp: case_prod_unfold)
qed (auto simp: root_ok_def root_at_def)

section \<open>Reading an open file\<close>

lemma geometry_opened [simp]:
  "fat_next_cluster (st\<lparr>opened_files := ds\<rparr>) = fat_next_cluster st"
  "cluster_to_lba (st\<lparr>opened_files := ds\<rparr>) = cluster_to_lba st"
  "per_cluster (st\<lparr>opened_files := ds\<rparr>) = per_cluster st"
  by (simp_all add: fun_eq_iff fat_next_cluster_def cluster_to_lba_def per_cluster_def Let_def)

lemma chain_ok_opened: "chain_ok (disk, st\<lparr>opened_files := ds\<rparr>, cs, ss) = chain_ok (disk, st, cs, ss)"
  by (simp add: chain_ok_def)

lemma chain_at_opened: "chain_at (disk, st\<lparr>opened_files := ds\<rparr>, cs, ss) = chain_at (disk, st, cs, ss)"
  by (simp add: chain_at_def)

lemma chain_at_byte_opened:
  "chain.at_byte (disk, st\<lparr>opened_files := ds\<rparr>, cs, ss) = chain.at_byte (disk, st, cs, ss)"
  by (intro ext) (simp add: chain.at_byte_def chain.total_def chain_at_opened)

text \<open>
  File \<open>h\<close> is open at byte \<open>p\<close> of its \<open>sz\<close> bytes, the first ones of the sectors \<open>ss\<close> of the
  cluster chain \<open>cs\<close>.
\<close>

definition file_view :: "disk \<Rightarrow> fat \<Rightarrow> int \<Rightarrow> u32 list \<Rightarrow> u8 list list \<Rightarrow> nat \<Rightarrow> nat \<Rightarrow> bool" where
  "file_view disk st h cs ss p sz \<longleftrightarrow> chain_ok (disk, st, cs, ss) \<and> 0 \<le> h \<and> nat h < length (opened_files st) \<and>
     (let d = opened_files st ! nat h in f_handle (d_file d) = h \<and> \<not> f_is_dir (d_file d) \<and> d_opened d \<and>
        unat (f_size (d_file d)) = sz \<and> p \<le> sz \<and> sz \<le> 512 * length ss \<and>
        chain.at_byte (disk, st, cs, ss) d p)"

lemma get_set_desc:
  assumes "0 \<le> h" "nat h < length (opened_files st)"
  shows "get_desc st h = Some (opened_files st ! nat h)"
    "set_desc st h d = Some (st\<lparr>opened_files := (opened_files st)[nat h := d]\<rparr>)"
  using assms by (simp_all add: get_desc_def set_desc_def ROOT_DIR_HANDLE_def aread_int_def awrite_int_def)

lemma unat_capped:
  assumes "unat (pos :: u32) = p" "unat (fsz :: u32) = sz" "p \<le> sz"
  shows "unat (min n (fsz - pos)) = min (unat n) (sz - p)"
proof -
  have "unat (fsz - pos) = sz - p" using assms by (simp add: unat_sub word_le_nat_alt)
  then show ?thesis by (auto simp: min_def word_le_nat_alt)
qed

lemma fat_read_run:
  assumes v: "file_view disk st h cs ss p sz"
  shows "\<exists>st'. fat_read disk st h n = Some (st', take (min (unat n) (sz - p)) (drop p (concat ss))) \<and>
    file_view disk st' h cs ss (p + min (unat n) (sz - p)) sz \<and>
    root_dir st' = root_dir st \<and> length (opened_files st') = length (opened_files st) \<and>
    (\<forall>j. j \<noteq> nat h \<longrightarrow> opened_files st' ! j = opened_files st ! j)"
proof -
  let ?d = "opened_files st ! nat h" and ?x = "(disk, st, cs, ss)" and ?k = "min (unat n) (sz - p)"
  let ?n = "min n (f_size (d_file ?d) - f_pos (d_file ?d))"
  have ok: "chain_ok ?x" and h: "0 \<le> h" "nat h < length (opened_files st)" and
    d: "f_handle (d_file ?d) = h" "\<not> f_is_dir (d_file ?d)" "d_opened ?d" "unat (f_size (d_file ?d)) = sz" "p \<le> sz"
      "sz \<le> 512 * length ss" "chain.at_byte ?x ?d p"
    using v by (auto simp: file_view_def Let_def)
  have p: "unat (f_pos (d_file ?d)) = p" using d(7) by (simp add: chain.at_byte_def)
  have k: "unat ?n = ?k" by (rule unat_capped [OF p d(4,5)])
  have "p + unat ?n \<le> chain.total ?x" using k d(5,6) by (simp add: chain.total_def)
  from chain.read_loop_stream [OF ok d(7) this, of "[]"] obtain d' where d':
    "fat_read_loop disk st ?d ?n [] = Some (d', take ?k (drop p (concat ss)))"
    "chain.at_byte ?x d' (p + ?k)" "same_desc ?d d'"
    "f_size (d_file d') = f_size (d_file ?d) \<or> (p + ?k = 512 * length ss \<and> f_size (d_file d') = f_pos (d_file d'))"
    by (auto simp: k chain.total_def split: if_splits)
  let ?st = "st\<lparr>opened_files := (opened_files st)[nat h := d']\<rparr>"
  have run: "fat_read disk st h n = Some (?st, take ?k (drop p (concat ss)))"
    using d(2) d'(1) by (simp add: fat_read_def get_set_desc [OF h] Let_def)
  have "unat (f_size (d_file d')) = sz"
    using d'(2,4) d(4,5,6) by (auto simp: chain.at_byte_def)
  then have "file_view disk ?st h cs ss (p + ?k) sz"
    using h d d' ok by (simp add: file_view_def chain_ok_opened chain_at_byte_opened same_desc_def)
  then show ?thesis using run by auto
qed

text \<open>C14: Reading \<open>n\<close> bytes of an open file returns exactly the next bytes of the file, fewer
  only at its end, moves its position behind them, and touches no other open file, wherever
  sector and cluster boundaries are.\<close>

theorem fat_read_file:
  assumes v: "file_view disk st h cs ss p sz"
  shows "\<exists>st'. fat_read disk st h n = Some (st', take (min (unat n) (sz - p)) (drop p (concat ss))) \<and>
    file_view disk st' h cs ss (p + min (unat n) (sz - p)) sz \<and>
    root_dir st' = root_dir st \<and> length (opened_files st') = length (opened_files st) \<and>
    (\<forall>j. j \<noteq> nat h \<longrightarrow> opened_files st' ! j = opened_files st ! j)"
  using fat_read_run [OF v] .

section \<open>Opening a file\<close>

lemma free_handle_result:
  "free_handle ds i = -1 \<and> (\<forall>d \<in> set ds. d_opened d) \<or>
    (\<exists>j < length ds. free_handle ds i = i + int j \<and> \<not> d_opened (ds ! j) \<and> (\<forall>j' < j. d_opened (ds ! j')))"
proof (induction ds i rule: free_handle.induct)
  case (2 d ds i)
  show ?case
  proof (cases "d_opened d")
    case True
    consider "free_handle ds (i + 1) = -1 \<and> (\<forall>d \<in> set ds. d_opened d)" |
      j where "j < length ds" "free_handle ds (i + 1) = i + 1 + int j" "\<not> d_opened (ds ! j)" "\<forall>j' < j. d_opened (ds ! j')"
      using 2 True by blast
    then show ?thesis
    proof cases
      case 1
      then show ?thesis using True by simp
    next
      case (2 j)
      then have "\<forall>j' < Suc j. d_opened ((d # ds) ! j')" using True by (auto simp: less_Suc_eq_0_disj)
      then show ?thesis using 2 True by (intro disjI2 exI [of _ "Suc j"]) simp
    qed
  qed (auto intro!: exI [of _ 0])
qed simp

text \<open>What \<open>fat_open_entry\<close> does with a readable cluster chain when some handle is free.\<close>

lemma fat_open_entry_run:
  assumes len: "length (opened_files st) = MAX_FILE_HANDLE" and free: "\<exists>d \<in> set (opened_files st). \<not> d_opened d"
    and ok: "chain_ok (disk, st, cs, ss)"
    and cs: "cs \<noteq> []" "hd cs = ucast (e_first_cluster_low e) + push_bit 16 (ucast (e_first_cluster_high e))"
  obtains j d where "fat_open_entry disk st e = Some (st\<lparr>opened_files := (opened_files st)[j := d]\<rparr>, Some (int j))"
    "j < length (opened_files st)" "\<not> d_opened (opened_files st ! j)" "\<forall>j' < j. d_opened (opened_files st ! j')"
    "f_handle (d_file d) = int j" "f_is_dir (d_file d) \<longleftrightarrow> e_attribute e AND FILE_ATTR_DIRECTORY \<noteq> 0" "f_size (d_file d) = e_size e"
    "d_opened d" "chain_at (disk, st, cs, ss) d 0" "f_pos (d_file d) = 0"
proof -
  obtain j where j: "j < length (opened_files st)" "free_handle (opened_files st) 0 = int j"
    "\<not> d_opened (opened_files st ! j)" "\<forall>j' < j. d_opened (opened_files st ! j')"
    using free_handle_result [of "opened_files st" 0] free by auto
  let ?first = "ucast (e_first_cluster_low e) + push_bit 16 (ucast (e_first_cluster_high e)) :: u32"
  have hd: "cs ! 0 = ?first" using cs by (simp add: hd_conv_nth)
  have pos: "0 < length ss" using ok cs(1) by (simp add: chain_ok_def)
  have disk: "disk (cluster_to_lba st ?first) = Some (ss ! 0)"
  proof -
    have "disk (cluster_to_lba st (cs ! (0 div per_cluster st)) + word_of_nat (0 mod per_cluster st)) = Some (ss ! 0)"
      using ok pos unfolding chain_ok_def prod.case by blast
    then show ?thesis by (simp add: hd)
  qed
  let ?d = "(opened_files st ! j)\<lparr>
     d_file := \<lparr>f_handle = int j, f_is_dir = (e_attribute e AND FILE_ATTR_DIRECTORY \<noteq> 0), f_pos = 0, f_size = e_size e\<rparr>,
     d_first_cluster := ?first, d_cur_cluster := ?first, d_cur_sector_in_cluster := 0,
     d_buffer := ss ! 0, d_opened := True\<rparr>"
  have run: "fat_open_entry disk st e = Some (st\<lparr>opened_files := (opened_files st)[j := ?d]\<rparr>, Some (int j))"
    using j(1,2) len disk get_set_desc [of "int j" st] by (simp add: fat_open_entry_def Let_def)
  have "chain_at (disk, st, cs, ss) ?d 0"
    using hd pos by (simp add: chain_at_def ROOT_DIR_HANDLE_def)
  then show thesis using that [OF run j(1,3,4)] by simp
qed

text \<open>\<open>fat_open_entry\<close> of a file whose cluster chain is readable takes the first handle that
  is not open, returns it with the file at its first byte, and leaves every other handle as
  it was; with all ten handles open it returns a null pointer and changes nothing.\<close>

theorem fat_open_entry_correct:
  assumes len: "length (opened_files st) = MAX_FILE_HANDLE" and ok: "chain_ok (disk, st, cs, ss)"
    and cs: "cs \<noteq> []" "hd cs = ucast (e_first_cluster_low e) + push_bit 16 (ucast (e_first_cluster_high e))"
    and e: "e_attribute e AND FILE_ATTR_DIRECTORY = 0" "unat (e_size e) \<le> 512 * length ss"
  shows "if \<forall>d \<in> set (opened_files st). d_opened d then fat_open_entry disk st e = Some (st, None)
    else \<exists>h st'. fat_open_entry disk st e = Some (st', Some h) \<and> \<not> d_opened (opened_files st ! nat h) \<and>
      (\<forall>j < nat h. d_opened (opened_files st ! j)) \<and> file_view disk st' h cs ss 0 (unat (e_size e)) \<and>
      root_dir st' = root_dir st \<and> length (opened_files st') = length (opened_files st) \<and>
      (\<forall>j. j \<noteq> nat h \<longrightarrow> opened_files st' ! j = opened_files st ! j)"
proof (cases "\<forall>d \<in> set (opened_files st). d_opened d")
  case True
  have "free_handle (opened_files st) 0 < 0"
    using free_handle_result [of "opened_files st" 0] True by (auto dest: nth_mem)
  then show ?thesis using True len by (simp add: fat_open_entry_def Let_def)
next
  case False
  then obtain j d where r: "fat_open_entry disk st e = Some (st\<lparr>opened_files := (opened_files st)[j := d]\<rparr>, Some (int j))"
    "j < length (opened_files st)" "\<not> d_opened (opened_files st ! j)" "\<forall>j' < j. d_opened (opened_files st ! j')"
    "f_handle (d_file d) = int j" "f_is_dir (d_file d) \<longleftrightarrow> e_attribute e AND FILE_ATTR_DIRECTORY \<noteq> 0" "f_size (d_file d) = e_size e"
    "d_opened d" "chain_at (disk, st, cs, ss) d 0" "f_pos (d_file d) = 0"
    using fat_open_entry_run [OF len _ ok cs] by blast
  have "chain.at_byte (disk, st, cs, ss) d 0" using r(9,10) by (simp add: chain.at_byte_def)
  then have "file_view disk (st\<lparr>opened_files := (opened_files st)[j := d]\<rparr>) (int j) cs ss 0 (unat (e_size e))"
    using ok r e by (simp add: file_view_def chain_ok_opened chain_at_byte_opened Let_def)
  then show ?thesis using r(1-4) False by (auto intro!: exI [of _ "int j"])
qed

section \<open>The packed allocation table\<close>

text \<open>Two 12-bit entries are stored in three bytes.\<close>

fun fat12_bytes :: "nat list \<Rightarrow> u8 list" where
  "fat12_bytes [] = []"
| "fat12_bytes [a] = [word_of_nat (a mod 256), word_of_nat (a div 256)]"
| "fat12_bytes (a # b # es) =
     [word_of_nat (a mod 256), word_of_nat (a div 256 + 16 * (b mod 16)), word_of_nat (b div 16)] @ fat12_bytes es"

text \<open>The 16 bits at the byte where an entry starts, and the entry in them.\<close>

definition entry_word :: "nat list \<Rightarrow> nat \<Rightarrow> nat" where
  "entry_word es i = (if even i
     then es ! i + (if Suc i < length es then 4096 * (es ! Suc i mod 16) else 0)
     else es ! (i - 1) div 256 + 16 * (es ! i))"

lemma le16_bytes:
  assumes "lo < 256" "hi < 256" "bs ! i = word_of_nat lo" "bs ! Suc i = word_of_nat hi" "Suc i < length bs"
  shows "le16 bs i = Some (word_of_nat (lo + 256 * hi))"
proof -
  have "ucast (word_of_nat lo :: u8) OR push_bit 8 (ucast (word_of_nat hi :: u8)) = (word_of_nat (lo + 256 * hi) :: u16)"
  proof -
    have l: "ucast (word_of_nat lo :: u8) = (word_of_nat lo :: u16)" "ucast (word_of_nat hi :: u8) = (word_of_nat hi :: u16)"
      using assms(1,2) by (simp_all add: word_unat_eq_iff unsigned_ucast_eq unat_of_nat take_bit_eq_mod)
    have "\<not> bit (word_of_nat lo :: u16) n" if "8 \<le> n" for n
    proof -
      have "unat (word_of_nat lo :: u16) = lo" using assms(1) by (simp add: unat_of_nat take_bit_eq_mod)
      then have "unat (take_bit 8 (word_of_nat lo :: u16)) = lo"
        using assms(1) by (simp only: unsigned_take_bit_eq) (simp add: take_bit_eq_mod)
      then have "take_bit 8 (word_of_nat lo :: u16) = word_of_nat lo" by (metis of_nat_unat ucast_id)
      then show ?thesis using that by (metis bit_take_bit_iff not_less)
    qed
    then have "(word_of_nat lo :: u16) OR push_bit 8 (word_of_nat hi) = word_of_nat lo + push_bit 8 (word_of_nat hi)"
      by (intro disjunctive_add [symmetric]) (auto simp: bit_push_bit_iff)
    also have "\<dots> = word_of_nat (lo + 256 * hi)" by (simp add: push_bit_eq_mult mult.commute)
    finally have "(word_of_nat lo :: u16) OR push_bit 8 (word_of_nat hi) = word_of_nat (lo + 256 * hi)" .
    then show ?thesis by (simp only: l)
  qed
  then show ?thesis using assms(3-5) by (simp add: le16_def aread_def del: of_nat_add of_nat_mult)
qed

lemma le16_append: "le16 (xs @ ys) (length xs + i) = le16 ys i"
  by (auto simp: le16_def aread_def nth_append)

lemma fat12_le16:
  "i < length es \<Longrightarrow> \<forall>e \<in> set es. e < 4096 \<Longrightarrow> le16 (fat12_bytes es) (i * 3 div 2) = Some (word_of_nat (entry_word es i))"
proof (induction es arbitrary: i rule: fat12_bytes.induct)
  case (2 a)
  then have "le16 (fat12_bytes [a]) 0 = Some (word_of_nat (a mod 256 + 256 * (a div 256)))"
    by (intro le16_bytes) auto
  then show ?case using 2 by (simp add: entry_word_def)
next
  case (3 a b es)
  consider "i = 0" | "i = 1" | j where "i = Suc (Suc j)" by (metis One_nat_def old.nat.exhaust)
  then show ?case
  proof cases
    case 1
    have "le16 (fat12_bytes (a # b # es)) 0 =
        Some (word_of_nat (a mod 256 + 256 * (a div 256 + 16 * (b mod 16))))"
      by (rule le16_bytes) (use 3 in auto)
    also have "a mod 256 + 256 * (a div 256 + 16 * (b mod 16)) = entry_word (a # b # es) 0"
      by (simp add: entry_word_def algebra_simps)
    finally show ?thesis using 1 by simp
  next
    case 2
    have "le16 (fat12_bytes (a # b # es)) 1 =
        Some (word_of_nat ((a div 256 + 16 * (b mod 16)) + 256 * (b div 16)))"
      by (rule le16_bytes) (use 3 in auto)
    also have "(a div 256 + 16 * (b mod 16)) + 256 * (b div 16) = entry_word (a # b # es) 1"
    proof -
      have "16 * (b div 16) + b mod 16 = b" by simp
      then have "256 * (b div 16) + 16 * (b mod 16) = 16 * b" by linarith
      then show ?thesis by (simp add: entry_word_def)
    qed
    finally show ?thesis using 2 by simp
  next
    case (3 j)
    have i: "i * 3 div 2 = 3 + j * 3 div 2" using 3 by simp
    have "le16 (fat12_bytes (a # b # es)) (3 + j * 3 div 2) = le16 (fat12_bytes es) (j * 3 div 2)"
      using le16_append [of "[word_of_nat (a mod 256), word_of_nat (a div 256 + 16 * (b mod 16)), word_of_nat (b div 16)]"
          "fat12_bytes es" "j * 3 div 2"] by (simp add: numeral_3_eq_3 del: of_nat_add of_nat_mult)
    also have "\<dots> = Some (word_of_nat (entry_word es j))"
      using "3.IH" "3.prems" 3 by simp
    also have "entry_word es j = entry_word (a # b # es) i"
      using 3 by (cases j) (auto simp: entry_word_def)
    finally have "le16 (fat12_bytes (a # b # es)) (3 + j * 3 div 2) = Some (word_of_nat (entry_word (a # b # es) i))" .
    then show ?thesis unfolding i .
  qed
qed simp

text \<open>C15: \<open>fat_next_cluster\<close> reads every entry of a packed FAT12 table back: entry \<open>i\<close> of the
  table that packs the 12-bit entries \<open>es\<close> is \<open>es ! i\<close>.\<close>

theorem fat_next_cluster_decodes:
  assumes "i < length es" "\<forall>e \<in> set es. e < 4096" "length es \<le> 4096" "g_fat st = fat12_bytes es"
  shows "fat_next_cluster st (word_of_nat i) = Some (word_of_nat (es ! i))"
proof -
  have i: "i < 4096" using assms(1,3) by simp
  have e: "es ! i < 4096" using assms(1,2) by simp
  have u: "unat (word_of_nat i :: u32) = i" using i by (simp add: unat_of_nat take_bit_eq_mod)
  have idx: "unat ((word_of_nat i :: u32) * 3 div 2) = i * 3 div 2"
    using i u by (simp add: unat_div_distrib unat_word_ariths)
  have par: "(word_of_nat i :: u32) mod 2 = 0 \<longleftrightarrow> even i"
    using u by (simp add: word_unat_eq_iff unat_mod_distrib even_iff_mod_2_eq_zero)
  let ?w = "word_of_nat (entry_word es i) :: u16"
  have w: "le16 (g_fat st) (i * 3 div 2) = Some ?w" using fat12_le16 [OF assms(1,2)] assms(4) by simp
  show ?thesis
  proof (cases "even i")
    case True
    have "es ! Suc i mod 16 < 16" by simp
    then have "es ! i + 4096 * (es ! Suc i mod 16) < 65536" using e by linarith
    then have b: "entry_word es i < 65536" using True e by (simp add: entry_word_def)
    have "unat (ucast ?w AND (0xFFF :: u32)) = es ! i"
      unfolding unat_and_FFF using b e True by (simp add: unsigned_ucast_eq unat_of_nat take_bit_eq_mod) (simp add: entry_word_def)
    then have "ucast ?w AND (0xFFF :: u32) = word_of_nat (es ! i)" by (metis of_nat_unat ucast_id)
    then show ?thesis using w True by (simp add: fat_next_cluster_def Let_def idx par)
  next
    case False
    have p: "es ! (i - 1) div 256 < 16"
      using assms(1,2) by (intro less_mult_imp_div_less) (simp add: less_imp_diff_less)
    then have b: "entry_word es i < 65536" using False e by (simp add: entry_word_def)
    have "unat (drop_bit 4 (ucast ?w) :: u32) = es ! i"
      unfolding unat_drop_bit using b p False by (simp add: unsigned_ucast_eq unat_of_nat take_bit_eq_mod) (simp add: entry_word_def)
    then have "drop_bit 4 (ucast ?w) = (word_of_nat (es ! i) :: u32)" by (metis of_nat_unat ucast_id)
    then show ?thesis using w False by (simp add: fat_next_cluster_def Let_def idx par)
  qed
qed

section \<open>Examples\<close>

text \<open>A volume with one data cluster of one sector, which is linked to an end mark, and a root
  directory of two sectors of empty entries.\<close>

definition ex_sector :: "u8 list" where "ex_sector = replicate 512 7"

definition ex_disk :: disk where
  "ex_disk lba = (if lba = 40 then Some ex_sector else if lba = 19 \<or> lba = 20 then Some (replicate 512 0) else None)"

definition ex_desc :: "int \<Rightarrow> u8 list \<Rightarrow> u32 \<Rightarrow> u32 \<Rightarrow> u32 \<Rightarrow> u32 \<Rightarrow> bool \<Rightarrow> fat_file_desc" where
  "ex_desc h buf pos sz first cur op = \<lparr>d_buffer = buf,
     d_file = \<lparr>f_handle = h, f_is_dir = False, f_pos = pos, f_size = sz\<rparr>,
     d_opened = op, d_first_cluster = first, d_cur_cluster = cur, d_cur_sector_in_cluster = 0\<rparr>"

definition ex_fat :: "fat_file_desc \<Rightarrow> fat_file_desc list \<Rightarrow> fat" where
  "ex_fat r ds = \<lparr>root_dir = r, opened_files = ds, g_fat = fat12_bytes [0xFF0, 0xFFF, 0xFFF],
     g_data_lba = 40, cluster_sectors = 1\<rparr>"

definition ex_root :: "u32 \<Rightarrow> u32 \<Rightarrow> fat_file_desc" where
  "ex_root pos cur = ex_desc ROOT_DIR_HANDLE (replicate 512 0) pos 1024 19 cur True"

lemma ex_chain_ok: "chain_ok (ex_disk, ex_fat r ds, [2], [ex_sector])"
proof -
  have "fat_next_cluster (ex_fat r ds) (word_of_nat 2) = Some (word_of_nat ([0xFF0, 0xFFF, 0xFFF] ! 2))"
    unfolding fat_next_cluster_def ex_fat_def by (simp add: le16_def aread_def Let_def)
  then have "fat_next_cluster (ex_fat r ds) 2 = Some 0xFFF" by simp
  then show ?thesis
    by (simp add: chain_ok_def per_cluster_def cluster_to_lba_def ex_disk_def) (simp add: ex_fat_def ex_sector_def)
qed

lemma ex_file_view:
  "file_view ex_disk (ex_fat r [ex_desc 0 ex_sector 3 10 2 2 True]) 0 [2] [ex_sector] 3 10"
  unfolding file_view_def chain.at_byte_def chain.total_def Let_def
  by (simp add: ex_chain_ok) (simp add: chain_at_def ex_fat_def ex_desc_def per_cluster_def ROOT_DIR_HANDLE_def)

lemma fat_read_file_witness:
  "\<exists>st'. fat_read ex_disk (ex_fat (ex_root 0 19) [ex_desc 0 ex_sector 3 10 2 2 True]) 0 20 = Some (st', replicate 7 7)"
  using fat_read_file [OF ex_file_view, of "ex_root 0 19" 20] by (auto simp: ex_sector_def)

lemma fat_open_entry_correct_witness:
  "\<exists>st'. fat_open_entry ex_disk (ex_fat (ex_root 0 19) (replicate MAX_FILE_HANDLE (ex_desc 0 [] 0 0 0 0 False)))
      \<lparr>e_name = replicate 11 65, e_attribute = 0, e_first_cluster_high = 0, e_first_cluster_low = 2, e_size = 10\<rparr> = Some (st', Some 0) \<and>
    file_view ex_disk st' 0 [2] [ex_sector] 0 10"
proof -
  let ?e = "\<lparr>e_name = replicate 11 65, e_attribute = 0, e_first_cluster_high = 0, e_first_cluster_low = 2, e_size = 10\<rparr>"
  let ?st = "ex_fat (ex_root 0 19) (replicate MAX_FILE_HANDLE (ex_desc 0 [] 0 0 0 0 False))"
  have o: "opened_files ?st = replicate MAX_FILE_HANDLE (ex_desc 0 [] 0 0 0 0 False)" by (simp add: ex_fat_def)
  have c: "\<not> (\<forall>d \<in> set (opened_files ?st). d_opened d)" unfolding o by (simp add: ex_desc_def MAX_FILE_HANDLE_def)
  obtain h st' where r: "fat_open_entry ex_disk ?st ?e = Some (st', Some h)"
    "\<forall>j < nat h. d_opened (opened_files ?st ! j)" "file_view ex_disk st' h [2] [ex_sector] 0 10"
    using fat_open_entry_correct [of ?st ex_disk "[2]" "[ex_sector]" ?e] c o ex_chain_ok
    by (auto simp: split: if_splits)
  have "\<not> d_opened (opened_files ?st ! 0)" unfolding o by (simp add: ex_desc_def MAX_FILE_HANDLE_def)
  then have "\<not> 0 < nat h" using r(2) by blast
  moreover have "0 \<le> h" using r(3) by (simp add: file_view_def)
  ultimately have "h = 0" by simp
  then show ?thesis using r by blast
qed

lemma fat_next_cluster_decodes_witness:
  "fat_next_cluster (ex_fat (ex_root 0 19) []) 1 = Some 0xFFF"
  using fat_next_cluster_decodes [of 1 "[0xFF0, 0xFFF, 0xFFF]" "ex_fat (ex_root 0 19) []"] by (simp add: ex_fat_def)

end
