(* ===== verification/FatSearch.thy ===== *)
theory FatSearch
  imports FatCorrect
begin

text \<open>
  The search of directories by the FAT12 driver and the opening of a file by its path: reading a
  directory entry by entry, names in the form of the directory, and the walk from the root.
\<close>

section \<open>Searching the root directory\<close>

text \<open>The directory entries in the first \<open>sz\<close> bytes of some sectors.\<close>

definition entries_of :: "u8 list list \<Rightarrow> nat \<Rightarrow> fat_dir_entry list" where
  "entries_of ss sz = map (\<lambda>i. entry_of_bytes (take 32 (drop (32 * i) (concat ss)))) [0..<sz div 32]"

text \<open>The root directory is at byte \<open>p\<close> of its \<open>sz\<close> bytes.\<close>

definition root_view :: "disk \<Rightarrow> fat \<Rightarrow> u8 list list \<Rightarrow> nat \<Rightarrow> nat \<Rightarrow> bool" where
  "root_view disk st ss p sz \<longleftrightarrow> root_ok (disk, st, d_first_cluster (root_dir st), ss) \<and>
     f_handle (d_file (root_dir st)) = ROOT_DIR_HANDLE \<and>
     unat (f_size (d_file (root_dir st))) = sz \<and> 0 < sz \<and> 32 dvd sz \<and> p \<le> sz \<and> sz \<le> 512 * length ss \<and>
     root.at_byte (disk, st, d_first_cluster (root_dir st), ss) (root_dir st) p"

lemma root_at_any: "root_ok (disk, st, lba, ss) = root_ok (disk, st', lba, ss)"
  "root_at (disk, st, lba, ss) = root_at (disk, st', lba, ss)"
  by (simp_all add: root_ok_def root_at_def fun_eq_iff)

lemma root_at_byte_any: "root.at_byte (disk, st, lba, ss) = root.at_byte (disk, st', lba, ss)"
  by (intro ext) (simp add: root.at_byte_def root.total_def root_at_any(2) [of disk st lba ss st'])

lemma fat_read_root:
  assumes v: "root_view disk st ss p sz"
  shows "\<exists>st'. fat_read disk st ROOT_DIR_HANDLE n = Some (st', take (min (unat n) (sz - p)) (drop p (concat ss))) \<and>
    root_view disk st' ss (p + min (unat n) (sz - p)) sz \<and> (\<exists>d. st' = st\<lparr>root_dir := d\<rparr>)"
proof -
  let ?d = "root_dir st" and ?x = "(disk, st, d_first_cluster (root_dir st), ss)" and ?k = "min (unat n) (sz - p)"
  let ?n = "min n (f_size (d_file ?d) - f_pos (d_file ?d))"
  have ok: "root_ok ?x" and d: "f_handle (d_file ?d) = ROOT_DIR_HANDLE" "unat (f_size (d_file ?d)) = sz" "0 < sz" "32 dvd sz" "p \<le> sz"
      "sz \<le> 512 * length ss" "root.at_byte ?x ?d p"
    using v by (auto simp: root_view_def)
  have p: "unat (f_pos (d_file ?d)) = p" using d(7) by (simp add: root.at_byte_def)
  have k: "unat ?n = ?k" by (rule unat_capped [OF p d(2,5)])
  have "p + unat ?n \<le> root.total ?x" using k d(5,6) by (simp add: root.total_def)
  from root.read_loop_stream [OF ok d(7) this, of "[]"] obtain d' where d':
    "fat_read_loop disk st ?d ?n [] = Some (d', take ?k (drop p (concat ss)))"
    "root.at_byte ?x d' (p + ?k)" "same_desc ?d d'"
    "f_size (d_file d') = f_size (d_file ?d)"
    by (auto simp: k root.total_def)
  let ?st = "st\<lparr>root_dir := d'\<rparr>"
  have "f_size (d_file ?d) \<noteq> 0" using d(2,3) by auto
  then have run: "fat_read disk st ROOT_DIR_HANDLE n = Some (?st, take ?k (drop p (concat ss)))"
    using d'(1) by (simp add: fat_read_def get_desc_def set_desc_def Let_def)
  have sz: "unat (f_size (d_file d')) = sz" using d'(2,4) d(2,5,6) by (auto simp: root.at_byte_def)
  have fc: "d_first_cluster d' = d_first_cluster ?d" "f_handle (d_file d') = ROOT_DIR_HANDLE"
    using d'(3) d(1) by (auto simp: same_desc_def)
  have "root_ok (disk, ?st, d_first_cluster ?d, ss)" using ok root_at_any(1) by metis
  moreover have "root.at_byte (disk, ?st, d_first_cluster ?d, ss) d' (p + ?k)" using d'(2) root_at_byte_any by metis
  ultimately have "root_view disk ?st ss (p + ?k) sz" using d sz fc by (simp add: root_view_def)
  then show ?thesis using run by auto
qed

lemma fat_entry_root:
  assumes v: "root_view disk st ss (32 * i) sz"
  shows "if 32 * i < sz
    then \<exists>st'. fat_entry disk st ROOT_DIR_HANDLE = Some (st', Some (entries_of ss sz ! i)) \<and>
      root_view disk st' ss (32 * Suc i) sz \<and> (\<exists>d. st' = st\<lparr>root_dir := d\<rparr>)
    else \<exists>st'. fat_entry disk st ROOT_DIR_HANDLE = Some (st', None) \<and>
      root_view disk st' ss (32 * i) sz \<and> (\<exists>d. st' = st\<lparr>root_dir := d\<rparr>)"
proof -
  have sz: "32 dvd sz" "sz \<le> 512 * length ss" "32 * i \<le> sz" "\<And>s. s \<in> set ss \<Longrightarrow> length s = 512"
    using v by (auto simp: root_view_def root_ok_def)
  obtain st' where st': "fat_read disk st ROOT_DIR_HANDLE 32 = Some (st', take (min 32 (sz - 32 * i)) (drop (32 * i) (concat ss)))"
    "root_view disk st' ss (32 * i + min 32 (sz - 32 * i)) sz" "(\<exists>d. st' = st\<lparr>root_dir := d\<rparr>)"
    using fat_read_root [OF v, of 32] by auto
  have len: "length (concat ss) = 512 * length ss" using length_concat_blocks sz(4) by blast
  obtain q where q: "sz = 32 * q" using sz(1) by (elim dvdE)
  show ?thesis
  proof (cases "32 * i < sz")
    case True
    then have "i < q" by (simp add: q)
    then have m: "min 32 (sz - 32 * i) = 32" "entries_of ss sz ! i = entry_of_bytes (take 32 (drop (32 * i) (concat ss)))"
      by (simp_all add: q entries_of_def)
    then show ?thesis using st' True len sz(2) \<open>i < q\<close> by (simp add: fat_entry_def q add.commute)
  next
    case False
    then show ?thesis using st' sz(3) by (simp add: fat_entry_def)
  qed
qed

lemma entries_of_names:
  assumes "sz \<le> 512 * length ss" "\<And>s. s \<in> set ss \<Longrightarrow> length s = 512" "e \<in> set (entries_of ss sz)"
  shows "length (e_name e) = 11"
proof -
  obtain i where i: "i < sz div 32" "e = entry_of_bytes (take 32 (drop (32 * i) (concat ss)))"
    using assms(3) by (auto simp: entries_of_def)
  have "length (concat ss) = 512 * length ss" using length_concat_blocks assms(2) by blast
  then show ?thesis using i assms(1) by (simp add: entry_of_bytes_def min_def)
qed

text \<open>
  The interface of a directory that is read entry by entry: \<open>view x st i\<close> says that the entries
  before \<open>i\<close> have been read in state \<open>st\<close>.
\<close>

locale entry_stream =
  fixes view :: "'x \<Rightarrow> fat \<Rightarrow> nat \<Rightarrow> bool"
    and entries :: "'x \<Rightarrow> fat_dir_entry list"
    and disk_of :: "'x \<Rightarrow> disk"
    and handle_of :: "'x \<Rightarrow> int"
  assumes entry_names: "view x st i \<Longrightarrow> e \<in> set (entries x) \<Longrightarrow> length (e_name e) = 11"
    and view_le: "view x st i \<Longrightarrow> i \<le> length (entries x)"
    and entry_more: "view x st i \<Longrightarrow> i < length (entries x) \<Longrightarrow>
      \<exists>st'. fat_entry (disk_of x) st (handle_of x) = Some (st', Some (entries x ! i)) \<and> view x st' (Suc i)"
    and entry_end: "view x st (length (entries x)) \<Longrightarrow>
      \<exists>st'. fat_entry (disk_of x) st (handle_of x) = Some (st', None) \<and> view x st' (length (entries x))"
begin

lemma find_from:
  assumes "view x st i" "length fn = 12"
  shows "\<exists>st' i'. find_loop (disk_of x) st (handle_of x) fn =
    Some (st', List.find (\<lambda>e. e_name e = take 11 fn) (drop i (entries x))) \<and> view x st' i'"
  using assms(1)
proof (induction "length (entries x) - i" arbitrary: i st)
  case 0
  then have "i = length (entries x)" using view_le [OF 0(2)] by simp
  then show ?case using entry_end [of x st] 0(2) by (subst find_loop.simps) fastforce
next
  case (Suc k)
  have lt: "i < length (entries x)" using Suc.hyps(2) by simp
  let ?e = "entries x ! i"
  obtain st1 where st1: "fat_entry (disk_of x) st (handle_of x) = Some (st1, Some ?e)" "view x st1 (Suc i)"
    using entry_more [OF Suc.prems lt] by blast
  have drop: "drop i (entries x) = ?e # drop (Suc i) (entries x)" using lt by (rule Cons_nth_drop_Suc [symmetric])
  have cmp: "compare_bytes (take 11 fn) (e_name ?e) = 0 \<longleftrightarrow> e_name ?e = take 11 fn"
    using compare_bytes_eq [of "take 11 fn" "e_name ?e"] assms(2) entry_names [OF Suc.prems, of ?e] lt by auto
  have "\<exists>st' i'. find_loop (disk_of x) st1 (handle_of x) fn =
      Some (st', List.find (\<lambda>e. e_name e = take 11 fn) (drop (Suc i) (entries x))) \<and> view x st' i'"
    by (rule Suc.hyps(1) [OF _ st1(2)]) (use Suc.hyps(2) in simp)
  then obtain st' i' where r: "find_loop (disk_of x) st1 (handle_of x) fn =
      Some (st', List.find (\<lambda>e. e_name e = take 11 fn) (drop (Suc i) (entries x)))" "view x st' i'" by blast
  show ?case
  proof (cases "e_name ?e = take 11 fn")
    case True
    then show ?thesis using st1 drop cmp by (subst find_loop.simps) auto
  next
    case False
    then show ?thesis using st1(1) drop cmp r by (subst find_loop.simps) auto
  qed
qed

end

text \<open>The root directory, from a state in which only its descriptor changes.\<close>

type_synonym root_entries = "disk \<times> fat \<times> u8 list list \<times> nat"

definition root_entry_view :: "root_entries \<Rightarrow> fat \<Rightarrow> nat \<Rightarrow> bool" where
  "root_entry_view = (\<lambda>(disk, st0, ss, sz) st i. root_view disk st ss (32 * i) sz \<and> (\<exists>d. st = st0\<lparr>root_dir := d\<rparr>))"

lemma length_entries_of [simp]: "length (entries_of ss sz) = sz div 32"
  by (simp add: entries_of_def)

interpretation root_entries: entry_stream root_entry_view "\<lambda>(disk, st0, ss, sz). entries_of ss sz"
  "\<lambda>(disk, st0, ss, sz). disk" "\<lambda>_. ROOT_DIR_HANDLE"
proof (unfold_locales, goal_cases)
  case (1 x st i e)
  then show ?case
    by (cases x) (auto simp: root_entry_view_def root_view_def root_ok_def intro: entries_of_names)
next
  case (2 x st i)
  then show ?case by (cases x) (auto simp: root_entry_view_def root_view_def)
next
  case (3 x st i)
  obtain disk st0 ss sz where x: "x = (disk, st0, ss, sz)" by (cases x)
  have "32 * i < sz" using 3 by (simp add: x less_mult_imp_div_less)
  then show ?case using fat_entry_root [of disk st ss i sz] 3 by (auto simp: x root_entry_view_def)
next
  case (4 x st)
  obtain disk st0 ss sz where x: "x = (disk, st0, ss, sz)" by (cases x)
  have "\<not> 32 * (sz div 32) < sz" using 4 by (auto simp: x root_entry_view_def root_view_def)
  then show ?case using fat_entry_root [of disk st ss "sz div 32" sz] 4 by (auto simp: x root_entry_view_def)
qed

text \<open>A search of the root directory from its start.\<close>

lemma find_loop_root:
  assumes "root_view disk st ss 0 sz" "length fn = 12"
  shows "\<exists>d i. find_loop disk st ROOT_DIR_HANDLE fn =
      Some (st\<lparr>root_dir := d\<rparr>, List.find (\<lambda>e. e_name e = take 11 fn) (entries_of ss sz)) \<and>
    root_view disk (st\<lparr>root_dir := d\<rparr>) ss (32 * i) sz"
proof -
  have "\<exists>d. st = st\<lparr>root_dir := d\<rparr>" by (rule exI [of _ "root_dir st"]) simp
  then have "root_entry_view (disk, st, ss, sz) st 0" using assms(1) by (simp add: root_entry_view_def)
  from root_entries.find_from [OF this assms(2)] show ?thesis by (auto simp: root_entry_view_def)
qed

section \<open>Searching a subdirectory\<close>

text \<open>
  Handle \<open>h\<close> is an open directory whose first \<open>i\<close> entries have been read. It has no size until
  its end is reached.
\<close>

definition dir_view :: "disk \<Rightarrow> fat \<Rightarrow> int \<Rightarrow> u32 list \<Rightarrow> u8 list list \<Rightarrow> nat \<Rightarrow> bool" where
  "dir_view disk st h cs ss i \<longleftrightarrow> chain_ok (disk, st, cs, ss) \<and> 0 \<le> h \<and> nat h < length (opened_files st) \<and> ss \<noteq> [] \<and>
     i \<le> 16 * length ss \<and>
     (let d = opened_files st ! nat h in f_handle (d_file d) = h \<and> f_is_dir (d_file d) \<and> d_opened d \<and>
        chain.at_byte (disk, st, cs, ss) d (32 * i) \<and>
        f_size (d_file d) = (if i = 16 * length ss then f_pos (d_file d) else 0))"

lemma fat_entry_dir:
  assumes v: "dir_view disk st h cs ss i"
  shows "\<exists>d. let st' = st\<lparr>opened_files := (opened_files st)[nat h := d]\<rparr> in
    if i < 16 * length ss
    then fat_entry disk st h = Some (st', Some (entries_of ss (512 * length ss) ! i)) \<and> dir_view disk st' h cs ss (Suc i)
    else fat_entry disk st h = Some (st', None) \<and> dir_view disk st' h cs ss i"
proof -
  let ?d = "opened_files st ! nat h" and ?x = "(disk, st, cs, ss)"
  have ok: "chain_ok ?x" and h: "0 \<le> h" "nat h < length (opened_files st)" and ne: "ss \<noteq> []" "i \<le> 16 * length ss" and
    d: "f_handle (d_file ?d) = h" "f_is_dir (d_file ?d)" "d_opened ?d" "chain.at_byte ?x ?d (32 * i)"
      "f_size (d_file ?d) = (if i = 16 * length ss then f_pos (d_file ?d) else 0)"
    using v by (auto simp: dir_view_def Let_def)
  have p: "unat (f_pos (d_file ?d)) = 32 * i" using d(4) by (simp add: chain.at_byte_def)
  have len: "length (concat ss) = 512 * length ss" using ok length_concat_blocks [of ss 512] by (auto simp: chain_ok_def)
  show ?thesis
  proof (cases "i < 16 * length ss")
    case True
    then have le: "32 * i + unat (32 :: u32) \<le> chain.total ?x" by (simp add: chain.total_def)
    from chain.read_loop_stream [OF ok d(4) le, of "[]"] obtain d' where d':
      "fat_read_loop disk st ?d 32 [] = Some (d', take 32 (drop (32 * i) (concat ss)))"
      "chain.at_byte ?x d' (32 * i + 32)" "same_desc ?d d'"
      "f_size (d_file d') = (if 32 * i + 32 = 512 * length ss then f_pos (d_file d') else f_size (d_file ?d))"
      by (auto simp: chain.total_def)
    let ?st = "st\<lparr>opened_files := (opened_files st)[nat h := d']\<rparr>"
    have run: "fat_read disk st h 32 = Some (?st, take 32 (drop (32 * i) (concat ss)))"
      using d(2,5) True d'(1) by (simp add: fat_read_def get_set_desc [OF h] Let_def)
    have "dir_view disk ?st h cs ss (Suc i)"
      using h ne True d d' ok by (simp add: dir_view_def chain_ok_opened chain_at_byte_opened same_desc_def Let_def add.commute)
    moreover have "entries_of ss (512 * length ss) ! i = entry_of_bytes (take 32 (drop (32 * i) (concat ss)))"
      using True by (simp add: entries_of_def)
    ultimately show ?thesis using run True len by (intro exI [of _ d']) (simp add: fat_entry_def Let_def)
  next
    case False
    then have i: "i = 16 * length ss" using ne(2) by simp
    then have sz: "f_size (d_file ?d) = f_pos (d_file ?d)" using d(5) by simp
    moreover have "f_size (d_file ?d) \<noteq> 0" using sz p i ne(1) by auto
    moreover have "fat_read_loop disk st ?d 0 [] = Some (?d, [])" by (subst fat_read_loop.simps) simp
    ultimately have "fat_read disk st h 32 = Some (st\<lparr>opened_files := (opened_files st)[nat h := ?d]\<rparr>, [])"
      by (simp add: fat_read_def get_set_desc [OF h] Let_def)
    then show ?thesis using False v by (intro exI [of _ ?d]) (simp add: fat_entry_def)
  qed
qed

type_synonym dir_entries = "disk \<times> fat \<times> int \<times> u32 list \<times> u8 list list"

definition dir_entry_view :: "dir_entries \<Rightarrow> fat \<Rightarrow> nat \<Rightarrow> bool" where
  "dir_entry_view = (\<lambda>(disk, st0, h, cs, ss) st i. dir_view disk st h cs ss i \<and>
     (\<exists>d. st = st0\<lparr>opened_files := (opened_files st0)[nat h := d]\<rparr>))"

interpretation dir_entries: entry_stream dir_entry_view "\<lambda>(disk, st0, h, cs, ss). entries_of ss (512 * length ss)"
  "\<lambda>(disk, st0, h, cs, ss). disk" "\<lambda>(disk, st0, h, cs, ss). h"
proof (unfold_locales, goal_cases)
  case (1 x st i e)
  then show ?case
    by (cases x) (auto simp: dir_entry_view_def dir_view_def chain_ok_def intro: entries_of_names)
next
  case (2 x st i)
  then show ?case by (cases x) (auto simp: dir_entry_view_def dir_view_def)
next
  case (3 x st i)
  obtain disk st0 h cs ss where x: "x = (disk, st0, h, cs, ss)" by (cases x)
  have "i < 16 * length ss" using 3 by (simp add: x)
  then show ?case using fat_entry_dir [of disk st h cs ss i] 3 by (auto simp: x dir_entry_view_def Let_def)
next
  case (4 x st)
  obtain disk st0 h cs ss where x: "x = (disk, st0, h, cs, ss)" by (cases x)
  show ?case using fat_entry_dir [of disk st h cs ss "16 * length ss"] 4 by (auto simp: x dir_entry_view_def Let_def)
qed

lemma find_loop_dir:
  assumes v: "dir_view disk st h cs ss 0" and "length fn = 12"
  shows "\<exists>d. find_loop disk st h fn = Some (st\<lparr>opened_files := (opened_files st)[nat h := d]\<rparr>,
    List.find (\<lambda>e. e_name e = take 11 fn) (entries_of ss (512 * length ss)))"
proof -
  have "\<exists>d. st = st\<lparr>opened_files := (opened_files st)[nat h := d]\<rparr>" by (rule exI [of _ "opened_files st ! nat h"]) simp
  then have "dir_entry_view (disk, st, h, cs, ss) st 0" using v by (simp add: dir_entry_view_def)
  from dir_entries.find_from [OF this assms(2)] show ?thesis by (auto simp: dir_entry_view_def)
qed

section \<open>Names\<close>

lemma base_loop_run:
  assumes "i \<le> m" "m \<le> i + k" "m \<le> length fn"
    and "\<And>j. i \<le> j \<Longrightarrow> j < m \<Longrightarrow> char_at name j \<noteq> 0 \<and> (case ext of None \<Rightarrow> True | Some e \<Rightarrow> j < e)"
    and "m = i + k \<or> char_at name m = 0 \<or> (\<exists>e. ext = Some e \<and> e \<le> m)"
  shows "base_loop k name ext i fn = (take i fn @ map (\<lambda>j. upper (char_at name j)) [i..<m] @ drop m fn, m)"
  using assms
proof (induction k arbitrary: i fn)
  case (Suc k)
  show ?case
  proof (cases "i = m")
    case True
    then show ?thesis using Suc.prems by (auto split: option.splits)
  next
    case False
    then have i: "i < m" "i < length fn" using Suc.prems by auto
    let ?fn = "fn[i := upper (char_at name i)]"
    have "base_loop (Suc k) name ext i fn = base_loop k name ext (Suc i) ?fn"
      using Suc.prems(4) [of i] i by simp
    also have "\<dots> = (take (Suc i) ?fn @ map (\<lambda>j. upper (char_at name j)) [Suc i..<m] @ drop m ?fn, m)"
      by (rule Suc.IH) (use Suc.prems i in auto)
    also have "take (Suc i) ?fn = take i fn @ [upper (char_at name i)]" using i by (simp add: take_Suc_conv_app_nth)
    also have "drop m ?fn = drop m fn" using i by simp
    finally show ?thesis using i by (simp add: upt_conv_Cons)
  qed
qed simp

lemma ext_loop_run:
  assumes "i \<le> m" "m \<le> i + k" "m + 8 \<le> length fn"
    and "\<And>j. i \<le> j \<Longrightarrow> j < m \<Longrightarrow> char_at name (e + j + 1) \<noteq> 0"
    and "m = i + k \<or> char_at name (e + m + 1) = 0"
  shows "ext_loop k name e i fn =
    take (i + 8) fn @ map (\<lambda>j. upper (char_at name (e + j + 1))) [i..<m] @ drop (m + 8) fn"
  using assms
proof (induction k arbitrary: i fn)
  case (Suc k)
  show ?case
  proof (cases "i = m")
    case True
    then show ?thesis using Suc.prems by auto
  next
    case False
    then have i: "i < m" "i + 8 < length fn" using Suc.prems by auto
    let ?fn = "fn[i + 8 := upper (char_at name (e + i + 1))]"
    have "ext_loop (Suc k) name e i fn = ext_loop k name e (Suc i) ?fn"
      using Suc.prems(4) [of i] i by simp
    also have "\<dots> = take (Suc i + 8) ?fn @ map (\<lambda>j. upper (char_at name (e + j + 1))) [Suc i..<m] @ drop (m + 8) ?fn"
      by (rule Suc.IH) (use Suc.prems i in auto)
    also have "take (Suc i + 8) ?fn = take (i + 8) fn @ [upper (char_at name (e + i + 1))]"
      using i take_Suc_conv_app_nth [of "i + 8" ?fn] by simp
    also have "drop (m + 8) ?fn = drop (m + 8) fn" using i by simp
    finally show ?thesis using i by (simp add: upt_conv_Cons)
  qed
qed simp

lemma fill_spaces:
  "a \<le> b \<Longrightarrow> b \<le> length l \<Longrightarrow> fold (\<lambda>i l. l[i := 32]) [a..<b] l = take a l @ replicate (b - a) 32 @ drop b l"
proof (induction b)
  case (Suc b)
  show ?case
  proof (cases "a = Suc b")
    case False
    then have "fold (\<lambda>i l. l[i := 32]) [a..<Suc b] l = (take a l @ replicate (b - a) 32 @ drop b l)[b := 32]"
      using Suc by simp
    also have "\<dots> = take a l @ replicate (Suc b - a) 32 @ drop (Suc b) l"
      using Suc.prems False by (simp add: list_update_append Cons_nth_drop_Suc [symmetric] Suc_diff_le replicate_append_same)
    finally show ?thesis .
  qed simp
qed simp

lemma find_char_append: "c \<notin> sint ` set xs \<Longrightarrow> sint y = c \<Longrightarrow> find_char c (xs @ y # ys) = Some (length xs)"
  by (induction xs) auto

lemma map_upt_nth: "(\<And>j. j < length xs \<Longrightarrow> f j = g (xs ! j)) \<Longrightarrow> map f [0..<length xs] = map g xs"
  by (rule nth_equalityI) auto

text \<open>The name of a base and an extension: the padding of the extension is what the array held.\<close>

lemma fat_name_ext:
  assumes base: "length base \<le> 8" "46 \<notin> set base" "0 \<notin> set base"
    and ext: "length ext \<le> 3" "0 \<notin> set ext" and g: "length garbage = 12"
  shows "take 11 (fat_name_of garbage (base @ 46 # ext)) =
    map upper base @ replicate (8 - length base) 32 @ map upper ext @ take (3 - length ext) (drop (8 + length ext) garbage)"
proof -
  let ?name = "base @ 46 # ext" and ?n = "length base" and ?k = "length ext"
  define n0 where "n0 = (replicate 4 32 @ drop 4 (take 12 garbage))[11 := 0 :: u8]"
  have n0: "length n0 = 12" using g by (simp add: n0_def)
  have tail: "take (3 - ?k) (drop (8 + ?k) n0) = take (3 - ?k) (drop (8 + ?k) garbage)"
    using g ext(1) by (intro nth_equalityI) (auto simp: n0_def nth_list_update nth_append add.assoc)
  have "46 \<notin> sint ` set base"
  proof
    assume "46 \<in> sint ` set base"
    then obtain c where "c \<in> set base" "sint c = sint (46 :: u8)" by auto
    then show False using base(2) by (metis signed_word_eqI)
  qed
  then have e: "find_char 46 ?name = Some ?n" by (intro find_char_append) auto
  have ch: "char_at ?name j = base ! j" if "j < ?n" for j using that by (simp add: char_at_def nth_append)
  have xch: "char_at ?name (?n + j + 1) = ext ! j" if "j < ?k" for j using that by (simp add: char_at_def nth_append)
  have x0: "char_at ?name (?n + ?k + 1) = 0" by (simp add: char_at_def)
  have b: "base_loop 8 ?name (Some ?n) 0 n0 = (take 0 n0 @ map (\<lambda>j. upper (char_at ?name j)) [0..<?n] @ drop ?n n0, ?n)"
    by (rule base_loop_run) (use base n0 ch in \<open>auto simp: in_set_conv_nth\<close>)
  have mb: "map (\<lambda>j. upper (char_at ?name j)) [0..<?n] = map upper base"
    by (rule map_upt_nth) (simp add: ch)
  let ?n1 = "map upper base @ drop ?n n0"
  have x: "ext_loop 3 ?name ?n 0 ?n1 =
      take (0 + 8) ?n1 @ map (\<lambda>j. upper (char_at ?name (?n + j + 1))) [0..<?k] @ drop (?k + 8) ?n1"
    by (rule ext_loop_run) (use ext n0 base xch x0 in \<open>auto simp: in_set_conv_nth\<close>)
  have mx: "map (\<lambda>j. upper (char_at ?name (?n + j + 1))) [0..<?k] = map upper ext"
    by (rule map_upt_nth) (use xch in simp)
  let ?n2 = "take 8 ?n1 @ map upper ext @ drop (?k + 8) ?n1"
  have "fat_name_of garbage ?name = fold (\<lambda>i l. l[i := 32]) [?n..<8] ?n2"
    using b x unfolding mb mx by (simp add: fat_name_of_def n0_def [symmetric] Let_def e)
  also have "\<dots> = take ?n ?n2 @ replicate (8 - ?n) 32 @ drop 8 ?n2"
    by (rule fill_spaces) (use base n0 in auto)
  also have "take ?n ?n2 = map upper base" using base(1) n0 by simp
  also have "drop 8 ?n2 = map upper ext @ drop (?k + 8) n0" using base(1) n0 by (simp add: add.commute)
  finally show ?thesis using base(1) ext(1) tail by (simp add: add.commute)
qed

lemma length_fill: "length (fold (\<lambda>i l. l[i := 32]) is l) = length l"
  by (induction "is" arbitrary: l) auto

lemma length_base_loop: "base_loop k name e i l = (l', n) \<Longrightarrow> length l' = length l"
  by (induction k arbitrary: i l) (auto split: if_splits)

lemma length_ext_loop [simp]: "length (ext_loop k name e i l) = length l"
  by (induction k arbitrary: i l) auto

lemma length_fat_name_of: "length garbage = 12 \<Longrightarrow> length (fat_name_of garbage name) = 12"
  by (auto simp: fat_name_of_def Let_def length_fill dest: length_base_loop split: prod.splits option.splits)

text \<open>Searching the root directory from its start for a name with a base of at most eight
  and an extension of exactly three characters returns the first entry whose eleven
  characters are the base and the extension in capitals, the base padded with spaces, or
  nothing if there is none; the open files are not touched.\<close>

theorem fat_find_file_root:
  assumes v: "root_view disk st ss 0 sz" and base: "length base \<le> 8" "46 \<notin> set base" "0 \<notin> set base"
    and ext: "length ext = 3" "0 \<notin> set ext" and g: "length garbage = 12"
  shows "\<exists>st'. fat_find_file disk st ROOT_DIR_HANDLE garbage (base @ 46 # ext) =
      Some (st', List.find (\<lambda>e. e_name e = map upper base @ replicate (8 - length base) 32 @ map upper ext) (entries_of ss sz)) \<and>
    opened_files st' = opened_files st"
proof -
  have len: "length (fat_name_of garbage (base @ 46 # ext)) = 12" by (rule length_fat_name_of [OF g])
  show ?thesis
    using find_loop_root [OF v len] fat_name_ext [OF base _ ext(2) g] ext(1)
    by (auto simp: fat_find_file_def)
qed

text \<open>For an extension of fewer than three characters the name that is compared is the
  right one, padded with spaces, only if the uninitialised array happened to hold spaces
  there.\<close>

theorem short_extension_uninitialised:
  assumes base: "length base \<le> 8" "46 \<notin> set base" "0 \<notin> set base"
    and ext: "length ext < 3" "0 \<notin> set ext" and g: "length garbage = 12"
  shows "take 11 (fat_name_of garbage (base @ 46 # ext)) =
      map upper base @ replicate (8 - length base) 32 @ map upper ext @ replicate (3 - length ext) 32 \<longleftrightarrow>
    take (3 - length ext) (drop (8 + length ext) garbage) = replicate (3 - length ext) 32"
  using fat_name_ext [OF base _ ext(2) g] ext(1) by simp

section \<open>Closing the root directory\<close>

text \<open>\<open>fat_close\<close> of the root directory resets its position but not its buffer: after a
  search that left the first sector, the next search starts with the entry at the start of
  the sector that was read last, not with the first entry of the directory.\<close>

theorem close_root_keeps_stale_sector:
  assumes v: "root_view disk st ss p sz" and p: "512 \<le> p" "p < sz"
  shows "\<exists>st' st''. fat_close st ROOT_DIR_HANDLE = Some st' \<and>
    fat_entry disk st' ROOT_DIR_HANDLE = Some (st'', Some (entry_of_bytes (take 32 (ss ! (p div 512)))))"
proof -
  let ?d = "(root_dir st)\<lparr>d_file := (d_file (root_dir st))\<lparr>f_pos := 0\<rparr>, d_cur_cluster := d_first_cluster (root_dir st)\<rparr>"
  let ?st = "st\<lparr>root_dir := ?d\<rparr>"
  have r: "root_ok (disk, st, d_first_cluster (root_dir st), ss)"
    "unat (f_size (d_file (root_dir st))) = sz" "32 dvd sz" "sz \<le> 512 * length ss"
    "root.at_byte (disk, st, d_first_cluster (root_dir st), ss) (root_dir st) p"
    using v by (auto simp: root_view_def)
  have "p < 512 * length ss" using p(2) r(4) by simp
  then have "root_at (disk, st, d_first_cluster (root_dir st), ss) (root_dir st) (p div 512)"
    using r(5) by (simp add: root.at_byte_def root.total_def)
  then have at: "d_buffer (root_dir st) = ss ! (p div 512)" "p div 512 < length ss" by (auto simp: root_at_def)
  then have len: "length (d_buffer ?d) = 512" using r(1) by (auto simp: root_ok_def)
  have n: "min 32 (f_size (d_file ?d) - f_pos (d_file ?d)) = (32 :: u32)"
    using r(2) p by (simp add: min_def word_le_nat_alt)
  define d1 where "d1 = ?d\<lparr>d_file := (d_file ?d)\<lparr>f_pos := 32\<rparr>\<rparr>"
  have stop: "fat_read_loop disk ?st d1 0 (take 32 (d_buffer ?d)) = Some (d1, take 32 (d_buffer ?d))"
    by (subst fat_read_loop.simps) simp
  have "fat_read_loop disk ?st ?d 32 [] = fat_read_loop disk ?st d1 0 (take 32 (d_buffer ?d))"
    using len by (subst fat_read_loop.simps) (simp add: SECTOR_SIZE_def read_chunk_def Let_def min_def d1_def)
  then have "fat_read_loop disk ?st ?d 32 [] = Some (d1, take 32 (d_buffer ?d))" using stop by simp
  moreover have "f_size (d_file ?d) \<noteq> 0" using r(2) p by auto
  ultimately have "fat_read disk ?st ROOT_DIR_HANDLE 32 = Some (?st\<lparr>root_dir := d1\<rparr>, take 32 (d_buffer ?d))"
    using n by (simp add: fat_read_def get_desc_def set_desc_def Let_def)
  then have "fat_entry disk ?st ROOT_DIR_HANDLE = Some (?st\<lparr>root_dir := d1\<rparr>, Some (entry_of_bytes (take 32 (ss ! (p div 512)))))"
    using len at(1) by (simp add: fat_entry_def)
  then show ?thesis by (auto simp: fat_close_def)
qed

section \<open>Examples\<close>

lemma ex_root_view:
  "root_view ex_disk (ex_fat (ex_root 0 19) ds) [replicate 512 0, replicate 512 0] 0 1024"
  "root_view ex_disk (ex_fat (ex_root 512 20) ds) [replicate 512 0, replicate 512 0] 512 1024"
  unfolding root_view_def root.at_byte_def root.total_def
  by (simp_all add: root_at_def root_ok_def ex_fat_def ex_root_def ex_desc_def ROOT_DIR_HANDLE_def ex_disk_def less_Suc_eq nth_Cons')

lemma fat_find_file_root_witness:
  "\<exists>st' r. fat_find_file ex_disk (ex_fat (ex_root 0 19) []) ROOT_DIR_HANDLE (replicate 12 0) [97, 46, 116, 120, 116] = Some (st', r)"
  using fat_find_file_root [OF ex_root_view(1), of "[97]" "[116, 120, 116]" "replicate 12 0" "[]"] by auto

lemma short_extension_uninitialised_witness:
  "take 11 (fat_name_of (replicate 12 0) [97, 46, 99]) \<noteq> [65, 32, 32, 32, 32, 32, 32, 32, 67, 32, 32]"
proof -
  have "upper 97 = 65" "upper 99 = 67" by (simp_all add: upper_def toupper_def islower_def)
  moreover have "replicate 7 (32 :: u8) = [32, 32, 32, 32, 32, 32, 32]" "replicate 2 (32 :: u8) = [32, 32]"
    by (simp_all add: numeral_eq_Suc)
  moreover have "take 2 (drop 9 (replicate 12 (0 :: u8))) \<noteq> replicate 2 32" by simp
  ultimately show ?thesis using short_extension_uninitialised [of "[97]" "[99]" "replicate 12 0"] by simp
qed

lemma close_root_keeps_stale_sector_witness:
  "\<exists>st' st'' e. fat_close (ex_fat (ex_root 512 20) []) ROOT_DIR_HANDLE = Some st' \<and>
    fat_entry ex_disk st' ROOT_DIR_HANDLE = Some (st'', Some e)"
  using close_root_keeps_stale_sector [OF ex_root_view(2), of "[]"] by auto

end
