(* ===== verification/FatPath.thy ===== *)
theory FatPath
  imports FatSearch
begin

text \<open>
  Opening a file by its path: \<open>fat_open\<close> walks from the root directory through subdirectories
  and needs a single handle for the whole way.
\<close>

section \<open>Names\<close>

text \<open>The eleven characters a component of a path is stored under: a base of at most eight
  characters, and no extension or one of exactly three.\<close>

definition name_in_directory :: "u8 list \<Rightarrow> u8 list option" where
  "name_in_directory name =
     (let base = takeWhile (\<lambda>c. c \<noteq> 46) name; ext = drop (Suc (length base)) name in
      if name = [] \<or> 0 \<in> set name \<or> 47 \<in> set name \<or> 8 < length base then None
      else if 46 \<notin> set name then Some (map upper base @ replicate (11 - length base) 32)
      else if length ext = 3 then Some (map upper base @ replicate (8 - length base) 32 @ map upper ext)
      else None)"

lemma sint_char: "sint (c :: u8) = sint (d :: u8) \<longleftrightarrow> c = d"
  by (metis signed_word_eqI)

lemma find_char_absent: "c \<notin> set xs \<Longrightarrow> find_char (sint c) xs = None"
  by (auto simp: find_char_none sint_char)

lemma fat_name_base:
  assumes name: "length name \<le> 8" "46 \<notin> set name" "0 \<notin> set name" and g: "length garbage = 12"
  shows "take 11 (fat_name_of garbage name) = map upper name @ replicate (11 - length name) 32"
proof -
  let ?n = "length name"
  define n0 where "n0 = (replicate 4 32 @ drop 4 (take 12 garbage))[11 := 0 :: u8]"
  have n0: "length n0 = 12" using g by (simp add: n0_def)
  have e: "find_char 46 name = None" using find_char_absent [of 46 name] name(2) by simp
  have ch: "char_at name j = name ! j" if "j < ?n" for j using that by (simp add: char_at_def)
  have b: "base_loop 8 name None 0 n0 = (take 0 n0 @ map (\<lambda>j. upper (char_at name j)) [0..<?n] @ drop ?n n0, ?n)"
    by (rule base_loop_run) (use name n0 ch in \<open>auto simp: in_set_conv_nth char_at_def\<close>)
  have mb: "map (\<lambda>j. upper (char_at name j)) [0..<?n] = map upper name"
    by (rule map_upt_nth) (simp add: ch)
  let ?n1 = "map upper name @ drop ?n n0"
  have "fat_name_of garbage name = fold (\<lambda>i l. l[i := 32]) [?n..<12] ?n1"
    using b unfolding mb by (simp add: fat_name_of_def n0_def [symmetric] Let_def e)
  also have "\<dots> = take ?n ?n1 @ replicate (12 - ?n) 32 @ drop 12 ?n1"
    by (rule fill_spaces) (use name n0 in auto)
  finally show ?thesis using name(1) n0 by (simp add: min_def)
qed

lemma fat_name_directory:
  assumes "name_in_directory name = Some n" "length garbage = 12"
  shows "take 11 (fat_name_of garbage name) = n"
proof -
  let ?base = "takeWhile (\<lambda>c. c \<noteq> 46) name"
  have z: "0 \<notin> set name" "length ?base \<le> 8" using assms(1) by (auto simp: name_in_directory_def Let_def split: if_splits)
  show ?thesis
  proof (cases "46 \<in> set name")
    case False
    then have b: "?base = name" by (simp add: takeWhile_eq_all_conv) blast
    show ?thesis using assms(1) z False fat_name_base [of name garbage] assms(2)
      unfolding name_in_directory_def Let_def b by (auto split: if_splits)
  next
    case True
    let ?ext = "drop (Suc (length ?base)) name"
    have "dropWhile (\<lambda>c. c \<noteq> 46) name \<noteq> []" using True by (simp add: dropWhile_eq_Nil_conv)
    then obtain l where "dropWhile (\<lambda>c. c \<noteq> 46) name = 46 # l"
      using hd_dropWhile [of "\<lambda>c. c \<noteq> 46" name] by (cases "dropWhile (\<lambda>c. c \<noteq> 46) name") auto
    then have l: "?base @ 46 # l = name" using takeWhile_dropWhile_id [of "\<lambda>c. c \<noteq> 46" name] by simp
    have "drop (Suc (length ?base)) (?base @ 46 # l) = l" by simp
    then have "?ext = l" by (simp only: l)
    then have name: "name = ?base @ 46 # ?ext" by (simp only: l)
    have "0 \<notin> set ?base" "0 \<notin> set ?ext" "46 \<notin> set ?base"
      using z(1) by (auto dest: set_takeWhileD in_set_dropD)
    moreover have "length ?ext = 3" "n = map upper ?base @ replicate (8 - length ?base) 32 @ map upper ?ext"
      using assms(1) True by (auto simp: name_in_directory_def Let_def split: if_splits)
    ultimately show ?thesis using fat_name_ext [of ?base ?ext garbage] z(2) assms(2) name by simp
  qed
qed

fun join_path :: "u8 list list \<Rightarrow> u8 list" where
  "join_path [] = []"
| "join_path [name] = name"
| "join_path (name # names) = name @ 47 # join_path names"

section \<open>What a path leads to\<close>

text \<open>The chain of an entry on the disk.\<close>

definition entry_chain :: "disk \<Rightarrow> fat \<Rightarrow> fat_dir_entry \<Rightarrow> u32 list \<Rightarrow> u8 list list \<Rightarrow> bool" where
  "entry_chain disk st e cs ss \<longleftrightarrow> chain_ok (disk, st, cs, ss) \<and> cs \<noteq> [] \<and>
     hd cs = ucast (e_first_cluster_low e) + push_bit 16 (ucast (e_first_cluster_high e))"

text \<open>The names lead from a directory with the entries \<open>es\<close> to an entry, or to nothing.\<close>

inductive resolves :: "disk \<Rightarrow> fat \<Rightarrow> fat_dir_entry list \<Rightarrow> u8 list list \<Rightarrow> fat_dir_entry option \<Rightarrow> bool" for disk st where
  missing: "name_in_directory name = Some n \<Longrightarrow> List.find (\<lambda>e. e_name e = n) es = None \<Longrightarrow>
    resolves disk st es (name # names) None"
| last: "name_in_directory name = Some n \<Longrightarrow> List.find (\<lambda>e. e_name e = n) es = Some e \<Longrightarrow>
    resolves disk st es [name] (Some e)"
| step: "name_in_directory name = Some n \<Longrightarrow> List.find (\<lambda>e. e_name e = n) es = Some e \<Longrightarrow>
    e_attribute e AND FILE_ATTR_DIRECTORY \<noteq> 0 \<Longrightarrow> e_size e = 0 \<Longrightarrow> entry_chain disk st e cs ss \<Longrightarrow> names \<noteq> [] \<Longrightarrow>
    resolves disk st (entries_of ss (512 * length ss)) names r \<Longrightarrow> resolves disk st es (name # names) r"

section \<open>One handle\<close>

text \<open>Handle \<open>k\<close> is the one that is opened next, and a state differs from another only there.\<close>

definition slot_free :: "fat \<Rightarrow> nat \<Rightarrow> bool" where
  "slot_free st k \<longleftrightarrow> length (opened_files st) = MAX_FILE_HANDLE \<and> k < MAX_FILE_HANDLE \<and>
     \<not> d_opened (opened_files st ! k) \<and> (\<forall>j < k. d_opened (opened_files st ! j))"

definition only_slot :: "nat \<Rightarrow> fat \<Rightarrow> fat \<Rightarrow> bool" where
  "only_slot k st st' \<longleftrightarrow> g_fat st' = g_fat st \<and> g_data_lba st' = g_data_lba st \<and> cluster_sectors st' = cluster_sectors st \<and>
     length (opened_files st') = length (opened_files st) \<and> (\<forall>j. j \<noteq> k \<longrightarrow> opened_files st' ! j = opened_files st ! j)"

lemma only_slot_trans: "only_slot k st st' \<Longrightarrow> only_slot k st' st'' \<Longrightarrow> only_slot k st st''"
  by (simp add: only_slot_def)

lemma only_slot_chain: "only_slot k st st' \<Longrightarrow> entry_chain disk st' e cs ss = entry_chain disk st e cs ss"
  by (simp add: only_slot_def entry_chain_def chain_ok_def per_cluster_def fat_next_cluster_def cluster_to_lba_def Let_def)

text \<open>A directory that can be searched and closed again; then slot \<open>k\<close> is the next one.\<close>

definition searchable :: "disk \<Rightarrow> fat \<Rightarrow> int \<Rightarrow> fat_dir_entry list \<Rightarrow> nat \<Rightarrow> bool" where
  "searchable disk st h es k \<longleftrightarrow> (\<forall>fn. length fn = 12 \<longrightarrow> (\<exists>st1 st2.
     find_loop disk st h fn = Some (st1, List.find (\<lambda>e. e_name e = take 11 fn) es) \<and> fat_close st1 h = Some st2 \<and>
     slot_free st2 k \<and> only_slot k st st2))"

lemma searchable_root:
  assumes "root_view disk st ss 0 sz" "slot_free st k"
  shows "searchable disk st ROOT_DIR_HANDLE (entries_of ss sz) k"
  unfolding searchable_def
proof (intro allI impI)
  fix fn :: "u8 list" assume "length fn = 12"
  from find_loop_root [OF assms(1) this] show "\<exists>st1 st2.
     find_loop disk st ROOT_DIR_HANDLE fn = Some (st1, List.find (\<lambda>e. e_name e = take 11 fn) (entries_of ss sz)) \<and>
     fat_close st1 ROOT_DIR_HANDLE = Some st2 \<and> slot_free st2 k \<and> only_slot k st st2"
    using assms(2) by (auto simp: fat_close_def slot_free_def only_slot_def)
qed

lemma searchable_dir:
  assumes v: "dir_view disk st (int k) cs ss 0" and len: "length (opened_files st) = MAX_FILE_HANDLE"
    and below: "\<forall>j < k. d_opened (opened_files st ! j)"
  shows "searchable disk st (int k) (entries_of ss (512 * length ss)) k"
  unfolding searchable_def
proof (intro allI impI)
  fix fn :: "u8 list" assume "length fn = 12"
  from find_loop_dir [OF v this] obtain d where d: "find_loop disk st (int k) fn =
      Some (st\<lparr>opened_files := (opened_files st)[k := d]\<rparr>, List.find (\<lambda>e. e_name e = take 11 fn) (entries_of ss (512 * length ss)))"
    by auto
  have k: "k < length (opened_files st)" using v by (simp add: dir_view_def)
  have "fat_close (st\<lparr>opened_files := (opened_files st)[k := d]\<rparr>) (int k) =
      Some (st\<lparr>opened_files := (opened_files st)[k := d\<lparr>d_opened := False\<rparr>]\<rparr>)"
    using k by (simp add: fat_close_def ROOT_DIR_HANDLE_def set_desc_def aread_int_def awrite_int_def)
  then show "\<exists>st1 st2.
     find_loop disk st (int k) fn = Some (st1, List.find (\<lambda>e. e_name e = take 11 fn) (entries_of ss (512 * length ss))) \<and>
     fat_close st1 (int k) = Some st2 \<and> slot_free st2 k \<and> only_slot k st st2"
    using d k len below by (auto simp: slot_free_def only_slot_def)
qed

text \<open>What is opened next goes to slot \<open>k\<close>.\<close>

lemma open_slot:
  assumes s: "slot_free st k" and c: "entry_chain disk st e cs ss"
  obtains d where "fat_open_entry disk st e = Some (st\<lparr>opened_files := (opened_files st)[k := d]\<rparr>, Some (int k))"
    "only_slot k st (st\<lparr>opened_files := (opened_files st)[k := d]\<rparr>)"
    "f_handle (d_file d) = int k" "f_is_dir (d_file d) \<longleftrightarrow> e_attribute e AND FILE_ATTR_DIRECTORY \<noteq> 0" "f_size (d_file d) = e_size e"
    "d_opened d" "chain.at_byte (disk, st, cs, ss) d 0" "f_pos (d_file d) = 0"
proof -
  have len: "length (opened_files st) = MAX_FILE_HANDLE" and free: "\<exists>d \<in> set (opened_files st). \<not> d_opened d"
    using s nth_mem [of k "opened_files st"] by (auto simp: slot_free_def)
  have ok: "chain_ok (disk, st, cs, ss)" and cs: "cs \<noteq> []" "hd cs = ucast (e_first_cluster_low e) + push_bit 16 (ucast (e_first_cluster_high e))"
    using c by (simp_all add: entry_chain_def)
  obtain j d where r: "fat_open_entry disk st e = Some (st\<lparr>opened_files := (opened_files st)[j := d]\<rparr>, Some (int j))"
    "j < length (opened_files st)" "\<not> d_opened (opened_files st ! j)" "\<forall>j' < j. d_opened (opened_files st ! j')"
    "f_handle (d_file d) = int j" "f_is_dir (d_file d) \<longleftrightarrow> e_attribute e AND FILE_ATTR_DIRECTORY \<noteq> 0" "f_size (d_file d) = e_size e"
    "d_opened d" "chain_at (disk, st, cs, ss) d 0" "f_pos (d_file d) = 0"
    by (rule fat_open_entry_run [OF len free ok cs])
  have "j = k" using r(3,4) s unfolding slot_free_def by (metis linorder_neqE_nat)
  moreover have "chain.at_byte (disk, st, cs, ss) d 0" using r(9,10) by (simp add: chain.at_byte_def)
  ultimately show thesis using that [of d] r by (simp add: only_slot_def)
qed

lemma open_dir:
  assumes s: "slot_free st k" and c: "entry_chain disk st e cs ss" and e: "e_attribute e AND FILE_ATTR_DIRECTORY \<noteq> 0" "e_size e = 0"
  shows "\<exists>st'. fat_open_entry disk st e = Some (st', Some (int k)) \<and> only_slot k st st' \<and>
    searchable disk st' (int k) (entries_of ss (512 * length ss)) k"
proof -
  obtain d where d: "fat_open_entry disk st e = Some (st\<lparr>opened_files := (opened_files st)[k := d]\<rparr>, Some (int k))"
    "only_slot k st (st\<lparr>opened_files := (opened_files st)[k := d]\<rparr>)"
    "f_handle (d_file d) = int k" "f_is_dir (d_file d) \<longleftrightarrow> e_attribute e AND FILE_ATTR_DIRECTORY \<noteq> 0" "f_size (d_file d) = e_size e"
    "d_opened d" "chain.at_byte (disk, st, cs, ss) d 0" "f_pos (d_file d) = 0"
    by (rule open_slot [OF s c])
  have ok: "chain_ok (disk, st, cs, ss)" "cs \<noteq> []" using c by (simp_all add: entry_chain_def)
  then have "0 < length ss" by (simp add: chain_ok_def)
  then have "dir_view disk (st\<lparr>opened_files := (opened_files st)[k := d]\<rparr>) (int k) cs ss 0"
    using ok d e s by (auto simp: dir_view_def chain_ok_opened chain_at_byte_opened Let_def slot_free_def)
  from searchable_dir [OF this] s d(1,2) show ?thesis by (auto simp: slot_free_def)
qed

lemma open_file:
  assumes s: "slot_free st k" and c: "entry_chain disk st e cs ss"
    and e: "e_attribute e AND FILE_ATTR_DIRECTORY = 0" "unat (e_size e) \<le> 512 * length ss"
  shows "\<exists>st'. fat_open_entry disk st e = Some (st', Some (int k)) \<and> only_slot k st st' \<and>
    file_view disk st' (int k) cs ss 0 (unat (e_size e))"
proof -
  obtain d where d: "fat_open_entry disk st e = Some (st\<lparr>opened_files := (opened_files st)[k := d]\<rparr>, Some (int k))"
    "only_slot k st (st\<lparr>opened_files := (opened_files st)[k := d]\<rparr>)"
    "f_handle (d_file d) = int k" "f_is_dir (d_file d) \<longleftrightarrow> e_attribute e AND FILE_ATTR_DIRECTORY \<noteq> 0" "f_size (d_file d) = e_size e"
    "d_opened d" "chain.at_byte (disk, st, cs, ss) d 0" "f_pos (d_file d) = 0"
    by (rule open_slot [OF s c])
  have ok: "chain_ok (disk, st, cs, ss)" using c by (simp add: entry_chain_def)
  have "file_view disk (st\<lparr>opened_files := (opened_files st)[k := d]\<rparr>) (int k) cs ss 0 (unat (e_size e))"
    using ok d e s by (simp add: file_view_def chain_ok_opened chain_at_byte_opened Let_def slot_free_def)
  then show ?thesis using d(1,2) by blast
qed

section \<open>The walk\<close>

lemma named: "name_in_directory name = Some n \<Longrightarrow> name \<noteq> [] \<and> 47 \<notin> set name \<and> length name < MAX_PATH_SIZE"
proof -
  assume a: "name_in_directory name = Some n"
  let ?base = "takeWhile (\<lambda>c. c \<noteq> 46) name"
  have "length name \<le> length ?base + 4"
  proof (cases "46 \<in> set name")
    case True
    then show ?thesis using a by (auto simp: name_in_directory_def Let_def split: if_splits)
  next
    case False
    then have b: "?base = name" by (simp add: takeWhile_eq_all_conv) blast
    show ?thesis unfolding b by simp
  qed
  then show ?thesis using a by (auto simp: name_in_directory_def Let_def MAX_PATH_SIZE_def split: if_splits)
qed

text \<open>One round of the loop.\<close>

lemma open_loop_round:
  assumes n: "name_in_directory name = Some n"
    and find: "fat_find_file disk st h (garbage round) name = Some (st1, r)" and close: "fat_close st1 h = Some st2"
  shows "open_loop disk garbage round st (Some h) (join_path (name # names)) =
    (case r of None \<Rightarrow> Some (st2, None)
     | Some e \<Rightarrow> do { (st3, h') \<leftarrow> fat_open_entry disk st2 e; open_loop disk garbage (Suc round) st3 h' (join_path names) })"
proof -
  have nm: "name \<noteq> []" "47 \<notin> set name" "\<not> MAX_PATH_SIZE \<le> length name" using named [OF n] by auto
  have attr: "FILE_ATTR_DIRECTORY \<noteq> 0" by (simp add: FILE_ATTR_DIRECTORY_def)
  show ?thesis
  proof (cases names)
    case Nil
    have "find_char 47 name = None" using find_char_absent [OF nm(2)] by simp
    then show ?thesis using Nil nm find close
      by (subst open_loop.simps) (auto simp: attr split: option.splits)
  next
    case (Cons a as)
    have "47 \<notin> sint ` set name"
    proof
      assume "47 \<in> sint ` set name"
      then obtain c where "c \<in> set name" "sint c = sint (47 :: u8)" by auto
      then show False using nm(2) sint_char by metis
    qed
    then have "find_char 47 (name @ 47 # join_path names) = Some (length name)" by (intro find_char_append) auto
    then show ?thesis using Cons nm find close
      by (subst open_loop.simps) (auto simp: attr split: option.splits)
  qed
qed

lemma open_loop_resolves:
  assumes g: "\<And>i. length (garbage i) = 12"
  shows "resolves disk st0 es names r \<Longrightarrow> searchable disk st h es k \<Longrightarrow> only_slot k st0 st \<Longrightarrow>
    (\<And>e. r = Some e \<Longrightarrow> entry_chain disk st0 e fcs fss \<and> e_attribute e AND FILE_ATTR_DIRECTORY = 0 \<and> unat (e_size e) \<le> 512 * length fss) \<Longrightarrow>
    \<exists>st'. only_slot k st0 st' \<and> open_loop disk garbage round st (Some h) (join_path names) = Some (st', map_option (\<lambda>_. int k) r) \<and>
      (case r of None \<Rightarrow> slot_free st' k | Some e \<Rightarrow> file_view disk st' (int k) fcs fss 0 (unat (e_size e)))"
proof (induction es names r arbitrary: st h round rule: resolves.induct)
  case (missing name n es names)
  obtain st1 st2 where s: "find_loop disk st h (fat_name_of (garbage round) name) = Some (st1, List.find (\<lambda>e. e_name e = n) es)"
    "fat_close st1 h = Some st2" "slot_free st2 k" "only_slot k st st2"
    using missing.prems(1) length_fat_name_of [OF g] fat_name_directory [OF missing.hyps(1) g] unfolding searchable_def by metis
  then show ?case using open_loop_round [OF missing.hyps(1), of disk st h garbage round st1 _ st2 names] missing.hyps(2)
      only_slot_trans [OF missing.prems(2)] by (auto simp: fat_find_file_def)
next
  case (last name n es e)
  obtain st1 st2 where s: "find_loop disk st h (fat_name_of (garbage round) name) = Some (st1, List.find (\<lambda>e. e_name e = n) es)"
    "fat_close st1 h = Some st2" "slot_free st2 k" "only_slot k st st2"
    using last.prems(1) length_fat_name_of [OF g] fat_name_directory [OF last.hyps(1) g] unfolding searchable_def by metis
  have o2: "only_slot k st0 st2" by (rule only_slot_trans [OF last.prems(2) s(4)])
  have f: "entry_chain disk st2 e fcs fss" "e_attribute e AND FILE_ATTR_DIRECTORY = 0" "unat (e_size e) \<le> 512 * length fss"
    using last.prems(3) [OF refl] only_slot_chain [OF o2] by simp_all
  obtain st3 where o: "fat_open_entry disk st2 e = Some (st3, Some (int k))" "only_slot k st2 st3"
    "file_view disk st3 (int k) fcs fss 0 (unat (e_size e))"
    using open_file [OF s(3) f] by blast
  have "open_loop disk garbage (Suc round) st3 (Some (int k)) [] = Some (st3, Some (int k))" by (subst open_loop.simps) simp
  then show ?case using open_loop_round [OF last.hyps(1), of disk st h garbage round st1 _ st2 "[]"] last.hyps(2) s(1,2) o
      only_slot_trans [OF o2 o(2)] by (auto simp: fat_find_file_def)
next
  case (step name n es e cs ss names r)
  obtain st1 st2 where s: "find_loop disk st h (fat_name_of (garbage round) name) = Some (st1, List.find (\<lambda>e. e_name e = n) es)"
    "fat_close st1 h = Some st2" "slot_free st2 k" "only_slot k st st2"
    using step.prems(1) length_fat_name_of [OF g] fat_name_directory [OF step.hyps(1) g] unfolding searchable_def by metis
  have o2: "only_slot k st0 st2" by (rule only_slot_trans [OF step.prems(2) s(4)])
  have c: "entry_chain disk st2 e cs ss" using step.hyps(5) only_slot_chain [OF o2] by simp
  obtain st3 where o: "fat_open_entry disk st2 e = Some (st3, Some (int k))" "only_slot k st2 st3"
    "searchable disk st3 (int k) (entries_of ss (512 * length ss)) k"
    using open_dir [OF s(3) c step.hyps(3,4)] by blast
  have r: "open_loop disk garbage round st (Some h) (join_path (name # names)) = open_loop disk garbage (Suc round) st3 (Some (int k)) (join_path names)"
    using open_loop_round [OF step.hyps(1), of disk st h garbage round st1 _ st2 names] step.hyps(2) s(1,2) o(1) by (simp add: fat_find_file_def)
  show ?case unfolding r by (rule step.IH [OF o(3) only_slot_trans [OF o2 o(2)] step.prems(3)])
qed

lemma join_path_start: "resolves disk st es names r \<Longrightarrow> char_at (join_path names) 0 \<noteq> 47 \<and> names \<noteq> []"
proof (induction rule: resolves.induct)
  case (missing name n es names)
  then show ?case using named [OF missing(1)] by (cases name; cases names) (auto simp: char_at_def)
next
  case (last name n es e)
  then show ?case using named [OF last(1)] by (cases name) (auto simp: char_at_def)
next
  case (step name n es e cs ss names r)
  then show ?case using named [OF step(1)] by (cases name; cases names) (auto simp: char_at_def)
qed

text \<open>C37: Opening a file by its path, with or without a slash in front: when the names lead through
  subdirectories to an entry, the first free handle is returned with that file at its first byte, reading it
  gives the bytes of the cluster chain of the entry, and no other handle changes, however deep
  the path is. When the names lead nowhere, a null pointer is returned and the handle is free again.\<close>

theorem fat_open_path:
  assumes root: "root_view disk st ss 0 sz" and free: "slot_free st k" and g: "\<And>i. length (garbage i) = 12"
    and path: "path = join_path names \<or> path = 47 # join_path names" and r: "resolves disk st (entries_of ss sz) names r"
    and f: "\<And>e. r = Some e \<Longrightarrow> entry_chain disk st e cs fs \<and> e_attribute e AND FILE_ATTR_DIRECTORY = 0 \<and> unat (e_size e) \<le> 512 * length fs"
  shows "\<exists>st'. fat_open disk garbage st path = Some (st', map_option (\<lambda>_. int k) r) \<and> only_slot k st st' \<and>
    (case r of None \<Rightarrow> slot_free st' k
     | Some e \<Rightarrow> \<forall>n. \<exists>st''. fat_read disk st' (int k) n = Some (st'', take (min (unat n) (unat (e_size e))) (concat fs)))"
proof -
  have "only_slot k st st" by (simp add: only_slot_def)
  have "\<exists>st'. only_slot k st st' \<and>
      open_loop disk garbage 0 st (Some ROOT_DIR_HANDLE) (join_path names) = Some (st', map_option (\<lambda>_. int k) r) \<and>
      (case r of None \<Rightarrow> slot_free st' k | Some e \<Rightarrow> file_view disk st' (int k) cs fs 0 (unat (e_size e)))"
    by (rule open_loop_resolves [OF g r searchable_root [OF root free] \<open>only_slot k st st\<close> f])
  then obtain st' where st': "only_slot k st st'"
    "open_loop disk garbage 0 st (Some ROOT_DIR_HANDLE) (join_path names) = Some (st', map_option (\<lambda>_. int k) r)"
    "case r of None \<Rightarrow> slot_free st' k | Some e \<Rightarrow> file_view disk st' (int k) cs fs 0 (unat (e_size e))" by (elim exE conjE)
  have "(if char_at path 0 = 47 then tl path else path) = join_path names"
    using path join_path_start [OF r] by (auto simp: char_at_def)
  then have "fat_open disk garbage st path = Some (st', map_option (\<lambda>_. int k) r)" using st'(2) by (simp add: fat_open_def)
  moreover have "case r of None \<Rightarrow> slot_free st' k
     | Some e \<Rightarrow> \<forall>n. \<exists>st''. fat_read disk st' (int k) n = Some (st'', take (min (unat n) (unat (e_size e))) (concat fs))"
  proof (cases r)
    case (Some e)
    then have v: "file_view disk st' (int k) cs fs 0 (unat (e_size e))" using st'(3) by simp
    have "\<exists>st''. fat_read disk st' (int k) n = Some (st'', take (min (unat n) (unat (e_size e))) (concat fs))" for n
      using fat_read_run [OF v, of n] by auto
    then show ?thesis using Some by simp
  qed (use st'(3) in simp)
  ultimately show ?thesis using st'(1) by blast
qed

section \<open>An example\<close>

text \<open>A volume with the file \<open>dir/a.txt\<close>: the root directory, the directory in cluster 2 and the file
  in cluster 3.\<close>

definition ex_entry :: "u8 list \<Rightarrow> u8 \<Rightarrow> u8 \<Rightarrow> u8 \<Rightarrow> u8 list" where
  "ex_entry name attr cluster sz = name @ attr # replicate 14 0 @ [cluster, 0, sz, 0, 0, 0]"

definition ex_dir_sector :: "u8 list" where
  "ex_dir_sector = ex_entry [65, 32, 32, 32, 32, 32, 32, 32, 84, 88, 84] 0 3 5 @ replicate 480 0"

definition ex_root_sector :: "u8 list" where
  "ex_root_sector = ex_entry [68, 73, 82, 32, 32, 32, 32, 32, 32, 32, 32] 0x10 2 0 @ replicate 480 0"

definition ex_tree :: disk where
  "ex_tree lba = (if lba = 19 then Some ex_root_sector else if lba = 20 then Some (replicate 512 0)
    else if lba = 40 then Some ex_dir_sector else if lba = 41 then Some ex_sector else None)"

definition ex_tree_fat :: fat where
  "ex_tree_fat = \<lparr>root_dir = ex_desc ROOT_DIR_HANDLE ex_root_sector 0 1024 19 19 True,
     opened_files = replicate MAX_FILE_HANDLE (ex_desc 0 [] 0 0 0 0 False), g_fat = fat12_bytes [0xFF0, 0xFFF, 0xFFF, 0xFFF],
     g_data_lba = 40, cluster_sectors = 1\<rparr>"

lemma ex_sector_lengths: "length ex_dir_sector = 512" "length ex_root_sector = 512" "length ex_sector = 512"
  by (simp_all add: ex_dir_sector_def ex_root_sector_def ex_entry_def ex_sector_def)

lemma ex_tree_root: "root_view ex_tree ex_tree_fat [ex_root_sector, replicate 512 0] 0 1024"
  unfolding root_view_def root.at_byte_def root.total_def
  by (simp add: root_at_def root_ok_def ex_tree_fat_def ex_desc_def ROOT_DIR_HANDLE_def ex_tree_def less_Suc_eq nth_Cons' ex_sector_lengths)

lemma ex_tree_chain:
  assumes "c = 2 \<and> s = ex_dir_sector \<or> c = 3 \<and> s = ex_sector"
  shows "chain_ok (ex_tree, ex_tree_fat, [c], [s])"
proof -
  have "fat_next_cluster ex_tree_fat 2 = Some 0xFFF" "fat_next_cluster ex_tree_fat 3 = Some 0xFFF"
    unfolding fat_next_cluster_def ex_tree_fat_def by (simp_all add: le16_def aread_def Let_def)
  moreover have "cluster_to_lba ex_tree_fat 2 = 40" "cluster_to_lba ex_tree_fat 3 = 41" "per_cluster ex_tree_fat = 1"
    unfolding cluster_to_lba_def per_cluster_def ex_tree_fat_def by simp_all
  ultimately show ?thesis using assms by (auto simp: chain_ok_def ex_tree_def ex_sector_lengths)
qed

lemma find_first_entry:
  assumes "length ent = 32" "32 \<le> sz" "P (entry_of_bytes ent)"
  shows "List.find P (entries_of ((ent @ rest) # ss) sz) = Some (entry_of_bytes ent)"
proof -
  have "0 < sz div 32" using assms(2) by (simp add: div_greater_zero_iff)
  then have "entries_of ((ent @ rest) # ss) sz =
      entry_of_bytes ent # map (\<lambda>i. entry_of_bytes (take 32 (drop (32 * i) (concat ((ent @ rest) # ss))))) [Suc 0..<sz div 32]"
    using assms(1) by (simp add: entries_of_def upt_conv_Cons)
  then show ?thesis using assms(3) by simp
qed

lemma fat_open_path_witness:
  "\<exists>st' st''. fat_open ex_tree (\<lambda>_. replicate 12 0) ex_tree_fat [100, 105, 114, 47, 97, 46, 116, 120, 116] = Some (st', Some 0) \<and>
    fat_read ex_tree st' 0 100 = Some (st'', replicate 5 7)"
proof -
  let ?e1 = "entry_of_bytes (ex_entry [68, 73, 82, 32, 32, 32, 32, 32, 32, 32, 32] 0x10 2 0)"
  let ?e2 = "entry_of_bytes (ex_entry [65, 32, 32, 32, 32, 32, 32, 32, 84, 88, 84] 0 3 5)"
  have e1: "e_name ?e1 = [68, 73, 82, 32, 32, 32, 32, 32, 32, 32, 32]" "e_attribute ?e1 = 0x10" "e_size ?e1 = 0"
    "e_first_cluster_low ?e1 = 2" "e_first_cluster_high ?e1 = 0"
    by (simp_all add: entry_of_bytes_def ex_entry_def le32_def nth_append)
  have e2: "e_name ?e2 = [65, 32, 32, 32, 32, 32, 32, 32, 84, 88, 84]" "e_attribute ?e2 = 0" "e_size ?e2 = 5"
    "e_first_cluster_low ?e2 = 3" "e_first_cluster_high ?e2 = 0"
    by (simp_all add: entry_of_bytes_def ex_entry_def le32_def nth_append)
  have up: "upper 100 = 68" "upper 105 = 73" "upper 114 = 82" "upper 97 = 65" "upper 116 = 84" "upper 120 = 88"
    by (simp_all add: upper_def toupper_def islower_def)
  have pad: "replicate 8 (32 :: u8) = [32, 32, 32, 32, 32, 32, 32, 32]" "replicate 7 (32 :: u8) = [32, 32, 32, 32, 32, 32, 32]"
    by (simp_all add: numeral_eq_Suc)
  have n1: "name_in_directory [100, 105, 114] = Some (e_name ?e1)"
    unfolding e1(1) by (simp add: name_in_directory_def Let_def up pad)
  have n2: "name_in_directory [97, 46, 116, 120, 116] = Some (e_name ?e2)"
    unfolding e2(1) by (simp add: name_in_directory_def Let_def up pad)
  have c1: "entry_chain ex_tree ex_tree_fat ?e1 [2] [ex_dir_sector]" using ex_tree_chain e1 by (simp add: entry_chain_def)
  have c2: "entry_chain ex_tree ex_tree_fat ?e2 [3] [ex_sector]" using ex_tree_chain e2 by (simp add: entry_chain_def)
  have f2: "List.find (\<lambda>e. e_name e = e_name ?e2) (entries_of [ex_dir_sector] (512 * length [ex_dir_sector])) = Some ?e2"
    unfolding ex_dir_sector_def by (rule find_first_entry) (simp_all add: ex_entry_def)
  have f1: "List.find (\<lambda>e. e_name e = e_name ?e1) (entries_of [ex_root_sector, replicate 512 0] 1024) = Some ?e1"
    unfolding ex_root_sector_def by (rule find_first_entry) (simp_all add: ex_entry_def)
  have r: "resolves ex_tree ex_tree_fat (entries_of [ex_root_sector, replicate 512 0] 1024) [[100, 105, 114], [97, 46, 116, 120, 116]] (Some ?e2)"
    by (rule resolves.step [OF n1 f1 _ e1(3) c1 _ resolves.last [OF n2 f2]]) (simp_all add: e1(2) FILE_ATTR_DIRECTORY_def)
  have free: "slot_free ex_tree_fat 0" by (simp add: slot_free_def ex_tree_fat_def MAX_FILE_HANDLE_def ex_desc_def)
  have "\<exists>st'. fat_open ex_tree (\<lambda>_. replicate 12 0) ex_tree_fat [100, 105, 114, 47, 97, 46, 116, 120, 116] =
      Some (st', map_option (\<lambda>_. int 0) (Some ?e2)) \<and> only_slot 0 ex_tree_fat st' \<and>
    (case Some ?e2 of None \<Rightarrow> slot_free st' 0
     | Some e \<Rightarrow> \<forall>n. \<exists>st''. fat_read ex_tree st' (int 0) n = Some (st'', take (min (unat n) (unat (e_size e))) (concat [ex_sector])))"
    by (rule fat_open_path [OF ex_tree_root free _ _ r]) (use c2 e2 in \<open>simp_all add: FILE_ATTR_DIRECTORY_def\<close>)
  then obtain st' where st': "fat_open ex_tree (\<lambda>_. replicate 12 0) ex_tree_fat [100, 105, 114, 47, 97, 46, 116, 120, 116] = Some (st', Some 0)"
    "\<forall>n. \<exists>st''. fat_read ex_tree st' 0 n = Some (st'', take (min (unat n) (unat (5 :: u32))) (concat [ex_sector]))"
    using e2(3) by auto
  obtain st'' where "fat_read ex_tree st' 0 100 = Some (st'', take (min (unat (100 :: u32)) (unat (5 :: u32))) (concat [ex_sector]))"
    using st'(2) by blast
  then have "fat_read ex_tree st' 0 100 = Some (st'', replicate 5 7)" by (simp add: ex_sector_def)
  then show ?thesis using st'(1) by blast
qed

end
