(* ===== verification/FloppyDisk.thy ===== *)
theory FloppyDisk
  imports FloppyCorrect FatPath
begin

text \<open>
  The FAT driver over the floppy driver. In theory \<open>Fat\<close> the disk is a function from sectors to
  bytes; here the reads of \<open>fat_read\<close> go through a device with a state of its own, and the two
  agree for every device that serves its sectors, of which the floppy driver is one.
\<close>

section \<open>Reading through a device\<close>

type_synonym 's sector_reader = "u32 \<Rightarrow> 's \<Rightarrow> ('s \<times> u8 list option) option"

text \<open>
  What \<open>load_next\<close> does before it reads: the place of the next sector, and the sector to load,
  if there is one.
\<close>

definition advance :: "fat \<Rightarrow> fat_file_desc \<Rightarrow> fat_file_desc option" where
  "advance st desc =
     (let desc1 = desc\<lparr>d_cur_sector_in_cluster := d_cur_sector_in_cluster desc + 1\<rparr> in
      if d_cur_sector_in_cluster desc1 \<ge> ucast (cluster_sectors st)
      then do {
        next_cluster \<leftarrow> fat_next_cluster st (d_cur_cluster desc1);
        Some (desc1\<lparr>d_cur_sector_in_cluster := 0, d_cur_cluster := next_cluster\<rparr>)
      } else Some desc1)"

definition next_sector :: "fat \<Rightarrow> fat_file_desc \<Rightarrow> (fat_file_desc \<times> u32 option) option" where
  "next_sector st desc =
     (if f_handle (d_file desc) = ROOT_DIR_HANDLE
      then Some (desc\<lparr>d_cur_cluster := d_cur_cluster desc + 1\<rparr>, Some (d_cur_cluster desc + 1))
      else do {
        desc2 \<leftarrow> advance st desc;
        Some (if d_cur_cluster desc2 \<ge> 0xFF8
          then (desc2\<lparr>d_file := (d_file desc2)\<lparr>f_size := f_pos (d_file desc2)\<rparr>\<rparr>, None)
          else (desc2, Some (cluster_to_lba st (d_cur_cluster desc2) + d_cur_sector_in_cluster desc2)))
      })"

definition load_next_on :: "'s sector_reader \<Rightarrow> fat \<Rightarrow> fat_file_desc \<Rightarrow> 's \<Rightarrow> ('s \<times> fat_file_desc \<times> bool) option" where
  "load_next_on rd st desc s = do {
     (desc1, wanted) \<leftarrow> next_sector st desc;
     (case wanted of
        None \<Rightarrow> Some (s, desc1, False)
      | Some lba \<Rightarrow> do {
          (s1, sector) \<leftarrow> rd lba s;
          Some (case sector of None \<Rightarrow> (s1, desc1, False) | Some bs \<Rightarrow> (s1, desc1\<lparr>d_buffer := bs\<rparr>, True))
        })
   }"

partial_function (option) fat_read_loop_on ::
    "'s sector_reader \<Rightarrow> fat \<Rightarrow> fat_file_desc \<Rightarrow> u32 \<Rightarrow> u8 list \<Rightarrow> 's \<Rightarrow> ('s \<times> fat_file_desc \<times> u8 list) option" where
  "fat_read_loop_on rd st desc n data s =
     (if n > 0 then do {
        let relative_pos = f_pos (d_file desc) mod SECTOR_SIZE;
        let left = SECTOR_SIZE - relative_pos;
        let copy_size = min n left;
        chunk \<leftarrow> read_chunk (d_buffer desc) (unat relative_pos) (unat copy_size);
        let desc1 = desc\<lparr>d_file := (d_file desc)\<lparr>f_pos := f_pos (d_file desc) + copy_size\<rparr>\<rparr>;
        if left = copy_size then do {
          (s1, desc2, go) \<leftarrow> load_next_on rd st desc1 s;
          if go then fat_read_loop_on rd st desc2 (n - copy_size) (data @ chunk) s1
          else Some (s1, desc2, data @ chunk)
        } else fat_read_loop_on rd st desc1 (n - copy_size) (data @ chunk) s
      } else Some (s, desc, data))"

definition fat_read_on :: "'s sector_reader \<Rightarrow> fat \<Rightarrow> int \<Rightarrow> u32 \<Rightarrow> 's \<Rightarrow> ('s \<times> fat \<times> u8 list) option" where
  "fat_read_on rd st file n s = do {
     desc \<leftarrow> get_desc st file;
     let n' = (if \<not> f_is_dir (d_file desc) \<or> f_size (d_file desc) \<noteq> 0
       then min n (f_size (d_file desc) - f_pos (d_file desc)) else n);
     (s', desc', data) \<leftarrow> fat_read_loop_on rd st desc n' [] s;
     st' \<leftarrow> set_desc st file desc';
     Some (s', st', data)
   }"

lemma load_next_advance:
  "load_next disk st d =
     (if f_handle (d_file d) = ROOT_DIR_HANDLE then
        Some (case disk (d_cur_cluster d + 1) of None \<Rightarrow> (d\<lparr>d_cur_cluster := d_cur_cluster d + 1\<rparr>, False)
          | Some bs \<Rightarrow> (d\<lparr>d_cur_cluster := d_cur_cluster d + 1, d_buffer := bs\<rparr>, True))
      else do {
        d2 \<leftarrow> advance st d;
        if d_cur_cluster d2 \<ge> 0xFF8 then Some (d2\<lparr>d_file := (d_file d2)\<lparr>f_size := f_pos (d_file d2)\<rparr>\<rparr>, False)
        else Some (case disk (cluster_to_lba st (d_cur_cluster d2) + d_cur_sector_in_cluster d2) of
            None \<Rightarrow> (d2, False) | Some bs \<Rightarrow> (d2\<lparr>d_buffer := bs\<rparr>, True))
      })"
  unfolding load_next_def advance_def Let_def by simp

lemma load_next_wanted:
  "load_next disk st d = (case next_sector st d of None \<Rightarrow> None | Some (d1, None) \<Rightarrow> Some (d1, False)
    | Some (d1, Some lba) \<Rightarrow> Some (case disk lba of None \<Rightarrow> (d1, False) | Some bs \<Rightarrow> (d1\<lparr>d_buffer := bs\<rparr>, True)))"
  unfolding load_next_advance next_sector_def by (cases "advance st d") simp_all

lemma advance_file: "advance st (d\<lparr>d_file := f\<rparr>) = map_option (\<lambda>d2. d2\<lparr>d_file := f\<rparr>) (advance st d)"
  by (cases "fat_next_cluster st (d_cur_cluster d)") (simp_all add: advance_def Let_def)

lemma advance_keeps: "advance st d = Some d2 \<Longrightarrow> d_file d2 = d_file d"
  by (cases "fat_next_cluster st (d_cur_cluster d)") (auto simp: advance_def Let_def split: if_splits)

definition no_miss :: "disk \<Rightarrow> fat \<Rightarrow> fat_file_desc \<Rightarrow> bool" where
  "no_miss disk st d \<longleftrightarrow> (\<forall>d1 lba. next_sector st d = Some (d1, Some lba) \<longrightarrow> disk lba \<noteq> None)"

text \<open>A chain that the disk can read never asks for a sector that it cannot.\<close>

lemma chain_no_miss:
  assumes "chain_ok (disk, st, cl, secs)" "chain_at (disk, st, cl, secs) d k"
  shows "no_miss disk st d"
  unfolding no_miss_def
proof (intro allI impI notI)
  fix d1 lba assume want: "next_sector st d = Some (d1, Some lba)" and miss: "disk lba = None"
  let ?d = "d\<lparr>d_file := (d_file d)\<lparr>f_pos := f_size (d_file d) + 1\<rparr>\<rparr>"
  have at: "chain_at (disk, st, cl, secs) ?d k" using assms(2) by (simp add: chain_at_def)
  have "\<exists>d2. next_sector st ?d = Some (d2, Some lba) \<and> f_size (d_file d2) = f_size (d_file d)"
    using want advance_keeps
    by (cases "advance st d") (auto simp: next_sector_def advance_file cluster_to_lba_def split: if_splits)
  then obtain d2 where d2: "load_next disk st ?d = Some (d2, False)" "f_size (d_file d2) = f_size (d_file d)"
    using miss by (auto simp: load_next_wanted)
  show False using chain_load [OF assms(1) at] d2 by (auto split: if_splits)
qed

text \<open>The sizes of one round of the loop.\<close>

lemma sector_step:
  assumes "0 < n" and rel: "rel = pos mod SECTOR_SIZE" and left: "left = SECTOR_SIZE - rel" and c: "c = min n left"
  shows "unat (n - c) < unat n"
    "left \<noteq> c \<Longrightarrow> unat (n - c) = 0 \<and> (unat pos mod 512 + unat n) div 512 = 0"
    "left = c \<Longrightarrow> (unat pos mod 512 + unat n) div 512 = Suc (unat (n - c) div 512) \<and> unat (pos + c) mod 512 = 0"
proof -
  have r: "unat rel = unat pos mod 512" using rel by (simp add: SECTOR_SIZE_def unat_mod_distrib)
  then have "rel \<le> SECTOR_SIZE" by (simp add: word_le_nat_alt SECTOR_SIZE_def)
  then have l: "unat left = 512 - unat pos mod 512" using r left by (simp add: unat_sub SECTOR_SIZE_def)
  have u: "unat c = min (unat n) (unat left)" using c by (simp add: min_def word_le_nat_alt)
  have "c \<le> n" using c by simp
  then have n: "unat (n - c) = unat n - unat c" by (rule unat_sub)
  have pos: "0 < unat n" "0 < unat left" "unat pos mod 512 < 512" using assms(1) l by (simp_all add: word_less_nat_alt)
  show "unat (n - c) < unat n" using n u pos by simp
  show "unat (n - c) = 0 \<and> (unat pos mod 512 + unat n) div 512 = 0" if "left \<noteq> c"
  proof -
    have "unat left \<noteq> unat c" using that by (simp add: word_unat_eq_iff)
    then have "unat n < unat left" "unat c = unat n" using u by auto
    then show ?thesis using n l by simp
  qed
  show "(unat pos mod 512 + unat n) div 512 = Suc (unat (n - c) div 512) \<and> unat (pos + c) mod 512 = 0" if "left = c"
  proof -
    have cl: "unat c = unat left" "unat left \<le> unat n" using that u by auto
    then have "unat pos mod 512 + unat n = 512 + unat (n - c)" using n l pos by linarith
    then have "(unat pos mod 512 + unat n) div 512 = Suc (unat (n - c) div 512)" by simp
    moreover have "unat (pos + c) mod 512 = (unat pos + unat c) mod 512"
      by (simp add: unat_word_ariths mod_mod_cancel)
    moreover have "(unat pos + unat c) mod 512 = (unat pos mod 512 + unat c) mod 512" by (simp add: mod_add_left_eq)
    moreover have "unat pos mod 512 + unat c = 512" using cl(1) l pos by linarith
    ultimately show ?thesis by simp
  qed
qed

section \<open>A device that serves its sectors\<close>

locale sector_device =
  fixes serves :: "nat \<Rightarrow> 's \<Rightarrow> bool"
    and read_sector :: "'s sector_reader"
    and contents :: "'s \<Rightarrow> disk"
  assumes served: "serves (Suc n) s \<Longrightarrow> contents s lba = Some bs \<Longrightarrow>
      \<exists>s'. read_sector lba s = Some (s', Some bs) \<and> serves n s' \<and> contents s' = contents s"
    and serves_less: "serves (Suc n) s \<Longrightarrow> serves n s"
begin

lemma serves_mono: "serves (n + m) s \<Longrightarrow> serves m s"
  by (induction n) (auto dest: serves_less)

lemma load_next_served:
  assumes "load_next (contents s) st d = Some (d', go)" "no_miss (contents s) st d" "serves (Suc n) s"
  shows "\<exists>s'. load_next_on read_sector st d s = Some (s', d', go) \<and> serves n s' \<and> contents s' = contents s"
proof -
  obtain d1 w where w: "next_sector st d = Some (d1, w)" using assms(1) by (auto simp: load_next_wanted split: option.splits)
  show ?thesis
  proof (cases w)
    case None
    then show ?thesis using assms w serves_less by (auto simp: load_next_wanted load_next_on_def)
  next
    case (Some lba)
    then obtain bs where bs: "contents s lba = Some bs" using assms(2) w by (auto simp: no_miss_def)
    then show ?thesis using served [OF assms(3) bs] assms(1) w Some by (auto simp: load_next_wanted load_next_on_def)
  qed
qed

text \<open>The read loop through the device and over its contents go together as long as no sector is missed.\<close>

lemma read_loop_served:
  assumes miss: "\<And>d. I d \<Longrightarrow> no_miss disk st d"
    and pos: "\<And>d q. I d \<Longrightarrow> I (d\<lparr>d_file := (d_file d)\<lparr>f_pos := q\<rparr>\<rparr>)"
    and load: "\<And>d d'. I d \<Longrightarrow> load_next disk st d = Some (d', True) \<Longrightarrow> I d' \<and> f_pos (d_file d') = f_pos (d_file d)"
  shows "fat_read_loop disk st d n data = Some r \<Longrightarrow> 0 < n \<longrightarrow> I d \<Longrightarrow> contents s = disk \<Longrightarrow>
    serves ((unat (f_pos (d_file d)) mod 512 + unat n) div 512 + m) s \<Longrightarrow>
    \<exists>s'. fat_read_loop_on read_sector st d n data s = Some (s', r) \<and> serves m s' \<and> contents s' = disk"
proof (induction "unat n" arbitrary: n d data s rule: less_induct)
  case less
  show ?case
  proof (cases "0 < n")
    case False
    then show ?thesis using less.prems by (subst fat_read_loop_on.simps) (auto simp: fat_read_loop.simps intro: serves_mono)
  next
    case True
    define rel left c where "rel = f_pos (d_file d) mod SECTOR_SIZE" and "left = SECTOR_SIZE - rel" and "c = min n left"
    define d1 where "d1 = d\<lparr>d_file := (d_file d)\<lparr>f_pos := f_pos (d_file d) + c\<rparr>\<rparr>"
    have I: "I d1" using pos less.prems(2) True by (simp add: d1_def)
    obtain chunk where chunk: "read_chunk (d_buffer d) (unat rel) (unat c) = Some chunk"
      using less.prems(1) True by (subst (asm) fat_read_loop.simps) (auto simp: Let_def rel_def left_def c_def bind_eq_Some_conv)
    have "fat_read_loop disk st d n data = (if left = c then do {
          (d2, go) \<leftarrow> load_next disk st d1;
          if go then fat_read_loop disk st d2 (n - c) (data @ chunk) else Some (d2, data @ chunk)
        } else fat_read_loop disk st d1 (n - c) (data @ chunk))"
      using True chunk
      by (subst fat_read_loop.simps, unfold Let_def rel_def [symmetric], unfold left_def [symmetric],
        unfold c_def [symmetric], unfold d1_def [symmetric]) simp
    note pure = less.prems(1) [unfolded this]
    have run: "fat_read_loop_on read_sector st d n data s = (if left = c then do {
          (s1, d2, go) \<leftarrow> load_next_on read_sector st d1 s;
          if go then fat_read_loop_on read_sector st d2 (n - c) (data @ chunk) s1 else Some (s1, d2, data @ chunk)
        } else fat_read_loop_on read_sector st d1 (n - c) (data @ chunk) s)"
      using True chunk
      by (subst fat_read_loop_on.simps, unfold Let_def rel_def [symmetric], unfold left_def [symmetric],
        unfold c_def [symmetric], unfold d1_def [symmetric]) simp
    note step = sector_step [OF True rel_def left_def c_def]
    show ?thesis
    proof (cases "left = c")
      case False
      then have "unat (n - c) = 0" "(unat (f_pos (d_file d)) mod 512 + unat n) div 512 = 0" using step by auto
      then have "n - c = 0" by (simp add: unat_eq_zero)
      then show ?thesis using pure run False less.prems(3,4) step
        by (subst (asm) fat_read_loop_on.simps) (auto simp: fat_read_loop.simps intro: serves_mono)
    next
      case full: True
      then obtain d2 go where d2: "load_next disk st d1 = Some (d2, go)" "if go then
          fat_read_loop disk st d2 (n - c) (data @ chunk) = Some r else r = (d2, data @ chunk)"
        using pure by (auto simp: bind_eq_Some_conv split: if_splits)
      define b where "b = unat (n - c) div 512 + m"
      have budget: "(unat (f_pos (d_file d)) mod 512 + unat n) div 512 + m = Suc b" using step full by (simp add: b_def)
      obtain s1 where s1: "load_next_on read_sector st d1 s = Some (s1, d2, go)" "serves b s1" "contents s1 = disk"
        using load_next_served [of s st d1 d2 go b] d2(1) miss [OF I] less.prems(3,4) budget by auto
      show ?thesis
      proof (cases go)
        case False
        then show ?thesis using run full s1 d2(2) serves_mono [of "unat (n - c) div 512" m s1] by (auto simp: b_def)
      next
        case True
        then have l: "fat_read_loop disk st d2 (n - c) (data @ chunk) = Some r" using d2(2) by simp
        have d2': "I d2" "unat (f_pos (d_file d2)) mod 512 = 0"
          using load [OF I] d2(1) True step full by (auto simp: d1_def)
        have "serves ((unat (f_pos (d_file d2)) mod 512 + unat (n - c)) div 512 + m) s1" using s1(2) d2'(2) by (simp add: b_def)
        from less.hyps [OF _ l _ s1(3) this] d2'(1) step show ?thesis using run full s1(1) True by auto
      qed
    qed
  qed
qed

text \<open>
  Reading an open file through the device: the bytes of the file, with as many sectors read as
  the position passes.
\<close>

lemma fat_read_served:
  assumes v: "file_view (contents s) st h cl secs p sz"
    and b: "serves ((p mod 512 + min (unat n) (sz - p)) div 512 + m) s"
  shows "\<exists>s' st'. fat_read_on read_sector st h n s = Some (s', st', take (min (unat n) (sz - p)) (drop p (concat secs))) \<and>
    serves m s' \<and> contents s' = contents s \<and> file_view (contents s) st' h cl secs (p + min (unat n) (sz - p)) sz \<and>
    fat_read (contents s) st h n = Some (st', take (min (unat n) (sz - p)) (drop p (concat secs)))"
proof -
  let ?d = "opened_files st ! nat h" and ?x = "(contents s, st, cl, secs)" and ?k = "min (unat n) (sz - p)"
  let ?n = "min n (f_size (d_file ?d) - f_pos (d_file ?d))"
  have ok: "chain_ok ?x" and h: "0 \<le> h" "nat h < length (opened_files st)"
    and d: "\<not> f_is_dir (d_file ?d)" "unat (f_size (d_file ?d)) = sz" "p \<le> sz" "sz \<le> 512 * length secs" "chain.at_byte ?x ?d p"
    using v by (auto simp: file_view_def Let_def)
  have p: "unat (f_pos (d_file ?d)) = p" using d(5) by (simp add: chain.at_byte_def)
  have k: "unat ?n = ?k" by (rule unat_capped [OF p d(2,3)])
  obtain st' where st': "fat_read (contents s) st h n = Some (st', take ?k (drop p (concat secs)))"
    "file_view (contents s) st' h cl secs (p + ?k) sz"
    using fat_read_run [OF v] by blast
  obtain d' where d': "fat_read_loop (contents s) st ?d ?n [] = Some (d', take ?k (drop p (concat secs)))" "set_desc st h d' = Some st'"
    using st'(1) d(1) by (auto simp: fat_read_def get_set_desc [OF h] Let_def bind_eq_Some_conv)
  define I where "I = (\<lambda>d. \<exists>k. chain_at ?x d k)"
  have "0 < ?n \<longrightarrow> I ?d"
  proof
    assume "0 < ?n"
    then have "p < chain.total ?x" using k d(3,4) by (auto simp: chain.total_def word_less_nat_alt)
    then show "I ?d" using d(5) by (auto simp: chain.at_byte_def I_def)
  qed
  moreover have "no_miss (contents s) st e" if "I e" for e using that chain_no_miss [OF ok] by (auto simp: I_def)
  moreover have "I (e\<lparr>d_file := (d_file e)\<lparr>f_pos := q\<rparr>\<rparr>)" if "I e" for e q using that by (auto simp: I_def chain_at_def)
  moreover have "I e' \<and> f_pos (d_file e') = f_pos (d_file e)" if "I e" "load_next (contents s) st e = Some (e', True)" for e e'
    using that chain_load [OF ok] by (fastforce simp: I_def split: if_splits)
  moreover have "serves ((unat (f_pos (d_file ?d)) mod 512 + unat ?n) div 512 + m) s" using b by (simp only: p k)
  ultimately obtain s' where "fat_read_loop_on read_sector st ?d ?n [] s = Some (s', d', take ?k (drop p (concat secs)))"
    "serves m s'" "contents s' = contents s"
    using read_loop_served [of I "contents s" st ?d ?n "[]", OF _ _ _ d'(1) _ refl] by blast
  then show ?thesis using st' d' d(1) by (auto simp: fat_read_on_def get_set_desc [OF h] Let_def)
qed

end

section \<open>The floppy driver\<close>

text \<open>The 2880 sectors of the medium.\<close>

definition floppy_disk :: "fdc \<Rightarrow> disk" where
  "floppy_disk f lba = (if unat lba < 2880 then Some (fdc_media f (sector_of (unat lba))) else None)"

definition floppy_reader :: "'d port_device \<Rightarrow> u32 \<Rightarrow> DISK \<Rightarrow> 'd floppy sector_reader" where
  "floppy_reader dev addr disk lba fl =
     map_option (\<lambda>(fl1, status, data). (fl1, data)) (i686_floppy_read_sector dev addr disk FLOPPY_STANDARD_BASE lba fl)"

text \<open>The drive answers what \<open>n\<close> reads ask of it: a seek and a transfer each.\<close>

definition floppy_serves :: "'d port_device \<Rightarrow> ('d \<Rightarrow> fdc) \<Rightarrow> u32 \<Rightarrow> DISK \<Rightarrow> nat \<Rightarrow> 'd floppy \<Rightarrow> bool" where
  "floppy_serves dev rep addr disk n fl \<longleftrightarrow> (\<exists>rest. drive_works dev rep addr disk (2 * n) rest fl) \<and> sectors_of_512 (rep (fl_dev fl))"

lemma waits_end_less: "waits_end (Suc n) evs rest \<Longrightarrow> \<exists>rest'. waits_end n evs rest'"
proof (induction n arbitrary: evs)
  case 0
  show ?case by (rule exI [of _ evs]) simp
next
  case (Suc n)
  then obtain used ev evs' where "evs = used @ ev # evs'" "hardware used" "\<forall>e \<in> set used. \<not> line 6 e"
    "line 6 ev \<and> length (filter (line 0) used) < 60 \<or> line 0 ev \<and> length (filter (line 0) used) = 59" "waits_end (Suc n) evs' rest"
    unfolding waits_end.simps(2) [of "Suc n"] by blast
  then show ?case using Suc.IH [of evs'] unfolding waits_end.simps(2) [of n evs] by blast
qed

text \<open>The contract holds of a controller that ends a transfer at the end of the cylinder without an error.\<close>

interpretation floppy: sector_device "\<lambda>n fl. floppy_serves dev rep addr disk n fl \<and> \<not> fdc_strict (rep (fl_dev fl))" "floppy_reader dev addr disk"
  "\<lambda>fl. floppy_disk (rep (fl_dev fl))" for dev rep addr disk
proof (unfold_locales, goal_cases)
  case (1 n fl lba bs)
  then obtain rest where w: "drive_works dev rep addr disk (Suc (Suc (2 * n))) rest fl" "\<not> fdc_strict (rep (fl_dev fl))"
    "sectors_of_512 (rep (fl_dev fl))" "unat lba < 2880" "bs = fdc_media (rep (fl_dev fl)) (sector_of (unat lba))"
    by (auto simp: floppy_serves_def floppy_disk_def split: if_splits)
  obtain fl' where fl': "i686_floppy_read_sector dev addr disk 0x3F0 lba fl = Some (fl', 0, Some bs)"
    "fdc_media (rep (fl_dev fl')) = fdc_media (rep (fl_dev fl))" "drive_works dev rep addr disk (2 * n) rest fl'" "\<not> fdc_strict (rep (fl_dev fl'))"
    using read_sector_run [OF w(1,4,2,3)] w(5) by blast
  then have "floppy_reader dev addr disk lba fl = Some (fl', Some bs)" "floppy_disk (rep (fl_dev fl')) = floppy_disk (rep (fl_dev fl))"
    "sectors_of_512 (rep (fl_dev fl'))"
    using w(3) by (simp_all add: fun_eq_iff [of "floppy_disk _"] floppy_reader_def FLOPPY_STANDARD_BASE_def floppy_disk_def sectors_of_512_def)
  then show ?case using fl'(3,4) by (auto simp: floppy_serves_def)
next
  case (2 n fl)
  then obtain rest where w: "drive_works dev rep addr disk (Suc (Suc (2 * n))) rest fl" by (auto simp: floppy_serves_def)
  then have "waits_end (Suc (Suc (2 * n))) (fl_events fl) rest" by (simp add: drive_works_def driver_ready_def)
  then obtain rest' where "waits_end (2 * n) (fl_events fl) rest'" using waits_end_less by blast
  then have "drive_works dev rep addr disk (2 * n) rest' fl" using w by (simp add: drive_works_def driver_ready_def)
  then show ?case using 2 by (auto simp: floppy_serves_def)
qed

text \<open>C40: reading an open file through the floppy driver, with a controller that, as emulators do, ends
  the driver's transfers at the end of the cylinder without an error: every sector the FAT driver
  asks for costs a seek and a transfer, the bytes are the next ones of the file, the medium stays
  as it was and the drive is ready again; the FAT driver is in the same state as with a disk that
  is a function of the sector. (With a controller that reports the end of the cylinder, as the
  data sheet says, the driver reads no sector at all.)\<close>

theorem file_read_from_floppy:
  assumes "file_view (floppy_disk (rep (fl_dev fl))) st h cl secs p sz"
    and "floppy_serves dev rep addr disk ((p mod 512 + min (unat n) (sz - p)) div 512 + m) fl"
    and "\<not> fdc_strict (rep (fl_dev fl))"
  shows "\<exists>fl' st'. fat_read_on (floppy_reader dev addr disk) st h n fl =
      Some (fl', st', take (min (unat n) (sz - p)) (drop p (concat secs))) \<and>
    floppy_serves dev rep addr disk m fl' \<and> \<not> fdc_strict (rep (fl_dev fl')) \<and> floppy_disk (rep (fl_dev fl')) = floppy_disk (rep (fl_dev fl)) \<and>
    file_view (floppy_disk (rep (fl_dev fl'))) st' h cl secs (p + min (unat n) (sz - p)) sz \<and>
    fat_read (floppy_disk (rep (fl_dev fl))) st h n = Some (st', take (min (unat n) (sz - p)) (drop p (concat secs)))"
  using floppy.fat_read_served [OF assms(1) conjI [OF assms(2,3)]] by fastforce

section \<open>Example\<close>

text \<open>A file of 700 bytes in the clusters 2 and 3, the sectors 40 and 41.\<close>

definition ex_volume :: fat where
  "ex_volume = \<lparr>root_dir = ex_root 0 19, opened_files = [ex_desc 0 (replicate 512 6) 3 700 2 2 True],
     g_fat = fat12_bytes [0xFF0, 0xFFF, 3, 0xFFF], g_data_lba = 40, cluster_sectors = 1\<rparr>"

lemma ex_volume_chain: "chain_ok (floppy_disk (ex_fdc False), ex_volume, [2, 3], [replicate 512 6, replicate 512 7])"
proof -
  have "fat_next_cluster ex_volume 2 = Some 3" "fat_next_cluster ex_volume 3 = Some 0xFFF"
    unfolding fat_next_cluster_def ex_volume_def by (simp_all add: le16_def aread_def Let_def)
  moreover have "cluster_to_lba ex_volume 2 = 40" "cluster_to_lba ex_volume 3 = 41" "per_cluster ex_volume = 1"
    unfolding cluster_to_lba_def per_cluster_def ex_volume_def by simp_all
  moreover have "floppy_disk (ex_fdc False) 40 = Some (replicate 512 6)" "floppy_disk (ex_fdc False) 41 = Some (replicate 512 7)"
    by (simp_all add: floppy_disk_def ex_fdc_def sector_of_def track_place_def)
  ultimately show ?thesis
    by (simp add: chain_ok_def less_Suc_eq nth_Cons' del: replicate.simps)
qed

lemma ex_volume_view:
  "file_view (floppy_disk (ex_fdc False)) ex_volume 0 [2, 3] [replicate 512 6, replicate 512 7] 3 700"
  unfolding file_view_def chain.at_byte_def chain.total_def Let_def
  by (simp add: ex_volume_chain) (simp add: chain_at_def ex_volume_def ex_desc_def per_cluster_def ROOT_DIR_HANDLE_def)

lemma file_read_from_floppy_witness:
  "\<exists>fl' st'. fat_read_on (floppy_reader fdc_device 0x108000 FloppyCorrect.ex_disk) ex_volume 0 600 (ex_drive 2 False) =
    Some (fl', st', replicate 509 6 @ replicate 91 7)"
proof -
  have "sectors_of_512 (ex_fdc False)" by (simp add: sectors_of_512_def ex_fdc_def)
  then have "floppy_serves fdc_device id 0x108000 FloppyCorrect.ex_disk (1 + 0) (ex_drive 2 False)"
    using ex_drive_works [of 2 False] ex_drive_fdc by (auto simp: floppy_serves_def)
  moreover have "(3 mod 512 + min (unat (600 :: u32)) (700 - 3)) div 512 = (1 :: nat)" by simp
  ultimately have s: "floppy_serves fdc_device id 0x108000 FloppyCorrect.ex_disk
      ((3 mod 512 + min (unat (600 :: u32)) (700 - 3)) div 512 + 0) (ex_drive 2 False)" by (simp only:)
  have "file_view (floppy_disk (id (fl_dev (ex_drive 2 False)))) ex_volume 0 [2, 3] [replicate 512 6, replicate 512 7] 3 700"
    using ex_volume_view by (simp add: ex_drive_fdc)
  moreover have "\<not> fdc_strict (id (fl_dev (ex_drive 2 False)))" by (simp add: ex_drive_fdc)
  ultimately obtain fl' st' where
    "fat_read_on (floppy_reader fdc_device 0x108000 FloppyCorrect.ex_disk) ex_volume 0 600 (ex_drive 2 False) =
      Some (fl', st', take (min (unat (600 :: u32)) (700 - 3)) (drop 3 (concat [replicate 512 6, replicate 512 7])))"
    using file_read_from_floppy s by blast
  moreover have "take (min (unat (600 :: u32)) (700 - 3)) (drop 3 (concat [replicate 512 6, replicate 512 7])) =
      replicate 509 6 @ (replicate 91 7 :: u8 list)"
    by simp
  ultimately show ?thesis by metis
qed

end
