(* ===== verification/MachineTypes.thy ===== *)
theory MachineTypes
  imports InterruptsCorrect
begin

text \<open>
  What every interrupt keeps: the tables have their sizes, the lines of the controllers their
  handler, the screen and the process table are well formed. The lemmas speak of a handler
  that returns; that it does is shown in theory \<open>InterruptsCorrect\<close>.
\<close>

section \<open>The console\<close>

lemma putc_keeps: "putc st c = Some st' \<Longrightarrow> screen_ok st \<Longrightarrow> screen_ok st'"
  using putc_ok [of st c] by (auto simp: console_ok_def)

lemma put_chars_keeps: "put_chars bs st = Some st' \<Longrightarrow> screen_ok st \<Longrightarrow> screen_ok st'"
  using put_chars_ok [of st bs] by (auto simp: console_ok_def)

lemma puts_keeps: "puts m st a = Some st' \<Longrightarrow> screen_ok st \<longrightarrow> screen_ok st'"
  by (rule puts.raw_induct [of "\<lambda>m st a st'. screen_ok st \<longrightarrow> screen_ok st'"])
    (auto simp: bind_eq_Some_conv dest: putc_keeps split: if_splits)

lemma printf_number_keeps:
  assumes "printf_number m st a sign radix up long_t md = Some st'" "screen_ok st" "radix = 8 \<or> radix = 10 \<or> radix = 16"
  shows "screen_ok st'"
  using printf_number_ok [OF assms(2,3), of m a sign up long_t md] assms(1) by (auto simp: console_ok_def)

lemma writef_step_keeps:
  assumes "writef_step m c (st, l) = Some (st', l')" "screen_ok st"
  shows "screen_ok st'"
proof -
  obtain argp state len md where [simp]: "l = (argp, state, len, md)" by (cases l)
  show ?thesis
  proof (cases "state = PRINTF_STATE_PRINT")
    case True
    then show ?thesis using assms putc_keeps by (auto simp: writef_step_def bind_eq_Some_conv split: if_splits)
  next
    case False
    note run = assms(1) [unfolded writef_step_def \<open>l = _\<close> prod.case if_not_P [OF False] Let_def]
    show ?thesis using run assms(2) putc_keeps puts_keeps printf_number_keeps
      by (simp split: if_split_asm add: bind_eq_Some_conv) blast+
  qed
qed

lemma writef_loop_keeps: "writef_loop m fmt s = Some s' \<Longrightarrow> screen_ok (fst s) \<longrightarrow> screen_ok (fst s')"
  by (rule writef_loop.raw_induct [of "\<lambda>m fmt s s'. screen_ok (fst s) \<longrightarrow> screen_ok (fst s')"])
    (auto simp: bind_eq_Some_conv dest: writef_step_keeps split: if_splits)

lemma writef_keeps:
  assumes "writef m st fmt argp = Some (st', n)" "screen_ok st"
  shows "screen_ok st'"
proof -
  let ?log = "has_prefix m fmt ''[LOG]''" and ?debug = "has_prefix m fmt ''[DEBUG]''" and ?error = "has_prefix m fmt ''[ERROR]''"
  let ?fmt = "if ?log then fmt + 5 else if ?debug \<or> ?error then fmt + 7 else fmt"
  let ?p = "if \<not> g_enable_echo st then '''' else if ?log then ''(KERNEL): ''
    else if ?debug then ''(KERNEL) DEBUG: '' else if ?error then ''(KERNEL) ERROR: '' else ''''"
  obtain st1 y where 1: "put_chars (ascii ?p) st = Some st1"
    and y: "writef_loop m ?fmt (st1\<lparr>char_written := 0\<rparr>, argp, PRINTF_STATE_PRINT, False, 0) = Some y"
    and rest: "(case y of (st2, _) \<Rightarrow> Option.bind (if ?log \<or> ?debug \<or> ?error then putc st2 10 else Some st2)
      (\<lambda>st3. Some (update_out st3, char_written (update_out st3)))) = Some (st', n)"
    using assms(1) unfolding writef_def Let_def bind_eq_Some_conv [of "put_chars _ _"] bind_eq_Some_conv [of "writef_loop _ _ _"] by blast
  obtain st2 l where 2: "writef_loop m ?fmt (st1\<lparr>char_written := 0\<rparr>, argp, PRINTF_STATE_PRINT, False, 0) = Some (st2, l)" and st2: "y = (st2, l)"
    using y by (cases y) blast
  obtain st3 where 3: "(if ?log \<or> ?debug \<or> ?error then putc st2 10 else Some st2) = Some st3" "st' = update_out st3"
    using rest unfolding st2 prod.case bind_eq_Some_conv by blast
  have "screen_ok (st1\<lparr>char_written := 0\<rparr>)" using put_chars_keeps [OF 1 assms(2)] by (simp add: screen_ok_def)
  then have "screen_ok st2" using writef_loop_keeps [OF 2] by simp
  then have "screen_ok st3" using 3(1) putc_keeps by (auto split: if_splits)
  then show ?thesis using screen_ok_update_out 3(2) by simp
qed

lemma wait_keyboard_keeps:
  "hal_wait_keyboard_interrupt k c evs = Some (k', c', evs', b) \<Longrightarrow> screen_ok c \<Longrightarrow> screen_ok c'"
proof (induction k c evs rule: hal_wait_keyboard_interrupt.induct)
  case (3 k c scan evs)
  then show ?case using hal_irq_keyboard_step [of c k scan] by (auto simp: console_ok_def)
qed simp_all

lemma wait_enter_keeps: "wait_enter k c evs = Some (k', c', evs') \<Longrightarrow> screen_ok c \<Longrightarrow> screen_ok c'"
proof (induction k c evs rule: wait_enter.induct)
  case (1 k c evs)
  obtain k1 c1 evs1 b where w: "hal_wait_keyboard_interrupt k c evs = Some (k1, c1, evs1, b)"
    "(if b \<and> hal_keyboard_up k1 = 0 \<and> hal_keyboard_char k1 = 10 then Some (k1, c1, evs1) else wait_enter k1 c1 evs1) = Some (k', c', evs')"
    using 1(2) by (subst (asm) wait_enter.simps) (auto split: option.splits)
  have "screen_ok c1" using wait_keyboard_keeps [OF w(1) 1(3)] .
  then show ?case using 1(1) [OF w(1) refl refl refl] w(2) by (auto split: if_splits)
qed

lemma input_done_keeps: "screen_ok c \<Longrightarrow> screen_ok (input_done c)"
  by (simp add: screen_ok_def input_done_def Let_def)

lemma read_console_keeps:
  assumes "read_console st fmt argp n buf = Some r"
  shows "screen_ok (i_con st) \<longrightarrow> screen_ok (i_con (fst r))"
proof (rule read_console.raw_induct [of "\<lambda>st fmt argp n buf r. screen_ok (i_con st) \<longrightarrow> screen_ok (i_con (fst r))", OF _ assms], goal_cases)
  case (1 rc st fmt argp n buf r)
  obtain b kbd con evs where w: "wait_enter (i_kbd st) (i_con st) (i_events st) = Some (kbd, con, evs)"
    using 1(2) by (auto simp: bind_eq_Some_conv)
  have "screen_ok (input_done con)" if "screen_ok (i_con st)" using wait_enter_keeps [OF w that] input_done_keeps by blast
  then show ?case using 1(1,2) w by (fastforce simp: bind_eq_Some_conv Let_def split: if_splits)
qed

section \<open>The system calls\<close>

lemma machine_ok_changes [simp]:
  "machine_ok (m\<lparr>recent_intr := i\<rparr>) = machine_ok m" "machine_ok (m\<lparr>is_keyboard_intr := b\<rparr>) = machine_ok m"
  "machine_ok (m\<lparr>syscalls := n\<rparr>) = machine_ok m" "machine_ok (m\<lparr>panicked := b\<rparr>) = machine_ok m"
  "machine_ok (log_msg s args m) = machine_ok m" "machine_ok (put_outs os m) = machine_ok m"
  by (simp_all add: machine_ok_def)

lemma remove_current_keeps:
  "hal_remove_current_process s = Some s' \<Longrightarrow> sched_ok s \<Longrightarrow> sched_ok s'"
  by (auto simp: hal_remove_current_process_def bind_eq_Some_conv awrite_int_def awrite_def sched_ok_def split: if_splits)

lemma syscall_keeps:
  assumes "hal_isr_syscall env m r = Some (m', r')" and ok: "machine_ok m"
  shows "machine_ok m'"
proof -
  obtain m1 where 1: "(if eax r = 0 then syscall0 m r else if eax r = 1 then syscall1 env m r else if eax r = 2 then syscall2 m r
      else if eax r = 3 then syscall3 m r else Some m) = Some m1"
    and 2: "m' = m1\<lparr>syscalls := syscalls m1 + 1\<rparr> \<or>
      (\<exists>s args. m' = log_msg s args (m1\<lparr>syscalls := syscalls m1 + 1\<rparr>))"
    using assms(1) by (auto simp: hal_isr_syscall_def Let_def bind_eq_Some_conv split: if_splits)
  have "machine_ok m1"
  proof -
    have "machine_ok m1" if "syscall0 m r = Some m1"
      using that ok remove_current_keeps [of "sched m"] by (auto simp: syscall0_def Let_def bind_eq_Some_conv machine_ok_def)
    moreover have "machine_ok m1" if "syscall1 env m r = Some m1"
      using that ok read_console_keeps by (fastforce simp: syscall1_def readf_def bind_eq_Some_conv machine_ok_def)
    moreover have "machine_ok m1" if "syscall2 m r = Some m1"
      using that ok writef_keeps by (auto simp: syscall2_def bind_eq_Some_conv machine_ok_def)
    moreover have "machine_ok m1" if "syscall3 m r = Some m1"
      using that ok by (auto simp: syscall3_def hal_set_sleep_tick_def machine_ok_def sched_ok_def)
    ultimately show ?thesis using 1 ok by (auto split: if_splits)
  qed
  then show ?thesis using 2 by auto
qed

section \<open>Every interrupt\<close>

lemma irq_keeps:
  assumes "i686_irq_handler env m r = Some (m', r')" and ok: "machine_ok m"
  shows "machine_ok m'"
proof -
  define n where "n = sint (intr r - word_of_int PIC_REMAP_OFFSET)"
  define m1 where "m1 = put_outs (fst (i686_pic_read_isr (inb env)) @ fst (i686_pic_read_irr (inb env))) m"
  note run = assms(1) [unfolded i686_irq_handler_def Let_def case_prod_unfold, folded n_def, folded m1_def]
  have ok1: "machine_ok m1" using ok by (simp add: m1_def)
  obtain h where h: "aread_int (irq_handlers m1) n = Some h" using run by (auto simp: bind_eq_Some_conv)
  show ?thesis
  proof (cases h)
    case None
    then show ?thesis using run h ok1 by auto
  next
    case (Some f)
    have "sched_ok (sched m1)" "screen_ok (con m1)" using ok1 by (simp_all add: machine_ok_def)
    then obtain m2 r2 where m2: "call_irq env f m1 r = Some (m2, r2)" "timers_after m1 (Some f) m2" "sched_ok (sched m2)" "screen_ok (con m2)"
      using call_irq_ok by blast
    have "machine_ok m2" using m2(2-4) ok1 by (simp add: machine_ok_def timers_after_def)
    then show ?thesis using run h Some m2(1) by auto
  qed
qed

lemma interrupt_keeps:
  assumes "i686_isr_handler env m r = Some (m', r')" and ok: "machine_ok m"
  shows "machine_ok m'"
proof -
  define m2 where "m2 = (if recent_intr (m\<lparr>recent_intr := intr r\<rparr>) = 33
    then m\<lparr>recent_intr := intr r, is_keyboard_intr := True\<rparr> else m\<lparr>recent_intr := intr r\<rparr>)"
  have ok2: "machine_ok m2" using ok by (simp add: m2_def)
  note run = assms(1) [unfolded i686_isr_handler_def Let_def, folded m2_def]
  obtain h where h: "aread (isr_handlers m2) (unat (intr r)) = Some h" using run by (auto simp: bind_eq_Some_conv)
  show ?thesis
  proof (cases h)
    case None
    then show ?thesis using run h ok2 by (auto simp: i686_panic_def bind_eq_Some_conv split: if_splits)
  next
    case (Some f)
    then show ?thesis using run h irq_keeps [OF _ ok2] syscall_keeps [OF _ ok2] by (cases f) auto
  qed
qed

section \<open>From the start on\<close>

lemma reg_handler_keeps:
  assumes "i686_isr_reg_handler m n f = Some m'"
  shows "con m' = con m \<and> sched m' = sched m \<and> length (isr_handlers m') = length (isr_handlers m)"
  using assms by (auto simp: i686_isr_reg_handler_def bind_eq_Some_conv awrite_int_def awrite_def split: if_splits)

lemma reg_handlers_keep:
  "for_loop (\<lambda>i m. i686_isr_reg_handler m (PIC_REMAP_OFFSET + i) Irq_handler) xs m = Some m' \<Longrightarrow>
    con m' = con m \<and> sched m' = sched m \<and> length (isr_handlers m') = length (isr_handlers m)"
  by (induction xs arbitrary: m) (fastforce simp: bind_eq_Some_conv dest: reg_handler_keeps)+

lemma hal_init_keeps:
  assumes "hal_init isr m = Some m'"
  shows "con m' = con m \<and> sched m' = sched m \<and> length (isr_handlers m') = length (isr_handlers m)"
  using assms unfolding hal_init_def i686_irq_init_def i686_irq_reg_handler_def Let_def
  by (auto simp: bind_eq_Some_conv dest!: reg_handler_keeps reg_handlers_keep)

lemma hal_init_machine_ok:
  assumes "length (idt m) = 256" "length (isr_handlers m) = 256" "length (irq_handlers m) = 16"
    and "screen_ok (con m)" "sched_ok (sched m)"
  shows "\<exists>m'. hal_init isr m = Some m' \<and> machine_ok m'"
proof -
  obtain m' where m': "hal_init isr m = Some m'" "irq_handlers m' = (irq_handlers m)[0 := Some Irq_idle, 1 := Some Irq_keyboard]"
    "\<forall>n < 16. isr_handlers m' ! (32 + n) = Some Irq_handler"
    by (rule hal_init_handlers [OF assms(1-3)])
  then show ?thesis using hal_init_keeps [OF m'(1)] m' assms by (simp add: machine_ok_def)
qed

text \<open>
  The states between interrupts, whatever interrupts come and whatever registers they find. A read
  call that would store into the kernel's image or the screen has no value in the model, and so
  no state behind it.
\<close>

inductive interrupts_run :: "machine \<Rightarrow> machine \<Rightarrow> bool" for m where
  none: "interrupts_run m m"
| interrupt: "interrupts_run m m1 \<Longrightarrow> i686_isr_handler env m1 r = Some (m2, r') \<Longrightarrow> interrupts_run m m2"

lemma interrupts_run_keeps: "interrupts_run m m' \<Longrightarrow> machine_ok m \<Longrightarrow> machine_ok m'"
  by (induction rule: interrupts_run.induct) (auto dest: interrupt_keeps)

text \<open>C39: \<open>hal_init\<close> gives the tables their types, and every interrupt that returns keeps them: after
  any run of exceptions, hardware interrupts and system calls, with any registers except those of
  a read call that stores into the kernel's image or the screen (the code does not check its
  pointers; the model has no value for such a call), there are 256 handlers of interrupts, the
  sixteen lines have the handler of requests, there are sixteen handlers of requests, the screen
  has its size and its cursors are on it, and the process table has its entries with a current
  process among them.\<close>

theorem tables_keep_their_types:
  assumes "length (idt m) = 256" "length (isr_handlers m) = 256" "length (irq_handlers m) = 16"
    and "screen_ok (con m)" "sched_ok (sched m)"
  shows "\<exists>m'. hal_init isr m = Some m' \<and> (\<forall>m''. interrupts_run m' m'' \<longrightarrow>
    length (isr_handlers m'') = 256 \<and> (\<forall>n < 16. isr_handlers m'' ! (32 + n) = Some Irq_handler) \<and>
    length (irq_handlers m'') = 16 \<and> screen_ok (con m'') \<and> sched_ok (sched m''))"
  using hal_init_machine_ok [OF assms] interrupts_run_keeps unfolding machine_ok_def by blast

text \<open>A run: the start, and an interrupt behind it.\<close>

lemma tables_keep_their_types_witness:
  "\<exists>m' m''. hal_init (\<lambda>n. word_of_nat n) ex_machine = Some m' \<and> interrupts_run m' m'' \<and> m'' \<noteq> m' \<and> screen_ok (con m'')"
proof -
  have "screen_ok (con ex_machine)" "sched_ok (sched ex_machine)"
    using ex_ready_ok by (simp_all add: machine_ok_def ex_ready_def)
  from tables_keep_their_types [OF ex_machine_lengths this, of "\<lambda>n. word_of_nat n"] obtain m' where
    m': "hal_init (\<lambda>n. word_of_nat n) ex_machine = Some m'" "\<forall>m''. interrupts_run m' m'' \<longrightarrow> length (isr_handlers m'') = 256 \<and>
      (\<forall>n < 16. isr_handlers m'' ! (32 + n) = Some Irq_handler) \<and> length (irq_handlers m'') = 16 \<and> screen_ok (con m'') \<and> sched_ok (sched m'')"
    by blast
  have none: "interrupts_run m' m'" by (rule interrupts_run.none)
  have ok: "machine_ok m'" using m'(2) none by (simp add: machine_ok_def)
  have n: "unat (intr (zero_registers\<lparr>intr := 40\<rparr>)) = 32 + 8" by simp
  obtain m'' r' os where i: "i686_isr_handler \<lparr>inb = (\<lambda>_. 0), pending = [], garbage = []\<rparr> m' (zero_registers\<lparr>intr := 40\<rparr>) = Some (m'', r')"
    "outs m'' = outs m' @ os @ (if 8 \<le> (8 :: nat) then [(PIC2_CMD_PORT, PIC_CMD_EOI)] else []) @ [(PIC1_CMD_PORT, PIC_CMD_EOI)]"
    using irq_event [OF ok n, of "\<lparr>inb = (\<lambda>_. 0), pending = [], garbage = []\<rparr>"] by auto
  have "interrupts_run m' m''" by (rule interrupts_run.interrupt [OF none i(1)])
  moreover have "m'' \<noteq> m'" using i(2) by auto
  ultimately show ?thesis using m' by blast
qed

end
