(* ===== verification/BuddyTree.thy ===== *)
theory BuddyTree
  imports Prelude
begin

text \<open>
  The abstract specification of the buddy allocator: a complete binary tree whose node
  \<open>(l, i)\<close> is block \<open>i\<close> of layer \<open>l\<close>. A marked node is either split (a child is marked) or
  allocated (no child is marked). The set of allocated blocks is what the allocator
  promises to its clients; marking a path and clearing one with its merges are the two
  ways the code changes it.
\<close>

type_synonym tree = "nat \<Rightarrow> nat \<Rightarrow> bool"
type_synonym block_id = "nat \<times> nat"

section \<open>Well-formed trees and allocated blocks\<close>

definition wf_tree :: "nat \<Rightarrow> tree \<Rightarrow> bool" where
  "wf_tree L T \<longleftrightarrow> (\<forall>l i. Suc l < L \<and> i < 2 ^ Suc l \<and> T (Suc l) i \<longrightarrow> T l (i div 2))"

definition leaf :: "nat \<Rightarrow> tree \<Rightarrow> nat \<Rightarrow> nat \<Rightarrow> bool" where
  "leaf L T l i \<longleftrightarrow> l < L \<and> i < 2 ^ l \<and> T l i \<and>
     (Suc l < L \<longrightarrow> \<not> T (Suc l) (2 * i) \<and> \<not> T (Suc l) (Suc (2 * i)))"

definition blocks :: "nat \<Rightarrow> tree \<Rightarrow> block_id set" where
  "blocks L T = {(l, i). leaf L T l i}"

definition tree_eq :: "nat \<Rightarrow> tree \<Rightarrow> tree \<Rightarrow> bool" where
  "tree_eq L T T' \<longleftrightarrow> (\<forall>l i. l < L \<and> i < 2 ^ l \<longrightarrow> T l i = T' l i)"

text \<open>Block \<open>(l, i)\<close> contains block \<open>(l', i')\<close>; two blocks are disjoint if neither does.\<close>

definition covers :: "block_id \<Rightarrow> block_id \<Rightarrow> bool" where
  "covers b c = (case b of (l, i) \<Rightarrow> case c of (l', i') \<Rightarrow> l \<le> l' \<and> i' div 2 ^ (l' - l) = i)"

definition disjoint_blocks :: "block_id \<Rightarrow> block_id \<Rightarrow> bool" where
  "disjoint_blocks b c \<longleftrightarrow> \<not> covers b c \<and> \<not> covers c b"

text \<open>The units of the bottom layer that a block spans.\<close>

definition units :: "nat \<Rightarrow> block_id \<Rightarrow> nat set" where
  "units L b = (case b of (l, i) \<Rightarrow> {i * 2 ^ (L - 1 - l) ..< Suc i * 2 ^ (L - 1 - l)})"

named_theorems tree_defs "definitions of the abstract tree"
declare wf_tree_def [tree_defs] leaf_def [tree_defs] blocks_def [tree_defs]

lemma wf_tree_parent:
  "wf_tree L T \<Longrightarrow> Suc l < L \<Longrightarrow> i < 2 ^ Suc l \<Longrightarrow> T (Suc l) i \<Longrightarrow> T l (i div 2)"
  by (auto simp: wf_tree_def)

lemma wf_tree_cong: "tree_eq L T T' \<Longrightarrow> wf_tree L T = wf_tree L T'"
proof -
  have *: "wf_tree L T'" if "tree_eq L T T'" "wf_tree L T" for T T'
    unfolding wf_tree_def
  proof (intro allI impI)
    fix l i assume a: "Suc l < L \<and> i < 2 ^ Suc l \<and> T' (Suc l) i"
    then have "T (Suc l) i" using that(1) by (simp add: tree_eq_def)
    with a that(2) have "T l (i div 2)" by (simp add: wf_tree_def)
    then show "T' l (i div 2)" using that(1) a by (auto simp: tree_eq_def)
  qed
  assume "tree_eq L T T'"
  then show ?thesis using * [of T T'] * [of T' T] by (auto simp: tree_eq_def)
qed

lemma blocks_cong: "tree_eq L T T' \<Longrightarrow> blocks L T = blocks L T'"
  by (auto simp: blocks_def leaf_def tree_eq_def)

lemma wf_tree_ancestor:
  assumes "wf_tree L T" "T l i" "l < L" "i < 2 ^ l" "k \<le> l"
  shows "T (l - k) (i div 2 ^ k)"
  using assms(5)
proof (induction k)
  case 0
  then show ?case using assms(2) by simp
next
  case (Suc k)
  then have T: "T (l - k) (i div 2 ^ k)" by simp
  obtain m where m: "l - k = Suc m" using Suc.prems by (metis Suc_diff_Suc Suc_le_lessD)
  have "i < 2 ^ Suc m * 2 ^ k"
    using assms(4) m Suc.prems by (metis add_diff_inverse_nat le_add_diff_inverse2 less_imp_le_nat
      not_less power_add Suc_leD)
  then have "i div 2 ^ k < 2 ^ Suc m" by (simp add: less_mult_imp_div_less)
  moreover have "Suc m < L" using m assms(3) by simp
  ultimately have "T m (i div 2 ^ k div 2)"
    using wf_tree_parent [OF assms(1)] T m by simp
  moreover have "l - Suc k = m" using m by simp
  moreover have "i div 2 ^ Suc k = i div 2 ^ k div 2" by (metis div_mult2_eq power_Suc2)
  ultimately show ?case by simp
qed

lemma wf_tree_no_child:
  assumes "wf_tree L T" "\<not> T l i" "i < 2 ^ l" "Suc l < L"
  shows "\<not> T (Suc l) (2 * i)" "\<not> T (Suc l) (Suc (2 * i))"
  using assms wf_tree_parent [of L T l "2 * i"] wf_tree_parent [of L T l "Suc (2 * i)"] by auto

lemma covers_refl [simp]: "covers b b"
  by (simp add: covers_def split: prod.splits)

lemma covers_trans: "covers a b \<Longrightarrow> covers b c \<Longrightarrow> covers a c"
proof -
  assume a: "covers a b" "covers b c"
  obtain l i l' i' l'' i'' where [simp]: "a = (l, i)" "b = (l', i')" "c = (l'', i'')"
    by (cases a; cases b; cases c)
  from a have le: "l \<le> l'" "l' \<le> l''" and d: "i' div 2 ^ (l' - l) = i" "i'' div 2 ^ (l'' - l') = i'"
    by (auto simp: covers_def)
  have "(2::nat) ^ (l'' - l) = 2 ^ (l'' - l') * 2 ^ (l' - l)"
    using le by (simp flip: power_add)
  then have "i'' div 2 ^ (l'' - l) = i" using d by (simp add: div_mult2_eq)
  then show ?thesis using le by (simp add: covers_def)
qed

text \<open>Two allocated blocks of a well-formed tree never overlap.\<close>

lemma leaf_covers_eq:
  assumes wf: "wf_tree L T" and b: "leaf L T l i" and c: "leaf L T l' i'"
    and cov: "covers (l, i) (l', i')"
  shows "(l, i) = (l', i')"
proof (rule ccontr)
  assume ne: "(l, i) \<noteq> (l', i')"
  from cov have le: "l \<le> l'" and d: "i' div 2 ^ (l' - l) = i" by (auto simp: covers_def)
  with ne have lt: "l < l'" by (cases "l = l'") auto
  let ?k = "l' - Suc l"
  have "T (l' - ?k) (i' div 2 ^ ?k)"
    by (rule wf_tree_ancestor [OF wf]) (use c in \<open>auto simp: leaf_def\<close>)
  moreover have "l' - ?k = Suc l" using lt by simp
  moreover have "i' div 2 ^ ?k div 2 = i"
    using d lt by (metis Suc_diff_Suc div_mult2_eq mult.commute power_Suc)
  then have "i' div 2 ^ ?k = 2 * i \<or> i' div 2 ^ ?k = Suc (2 * i)" by auto
  moreover have "Suc l < L" using lt c by (auto simp: leaf_def)
  ultimately show False using b by (auto simp: leaf_def)
qed

lemma blocks_disjoint:
  assumes "wf_tree L T" "b \<in> blocks L T" "c \<in> blocks L T" "b \<noteq> c"
  shows "disjoint_blocks b c"
  using assms leaf_covers_eq [OF assms(1)]
  unfolding disjoint_blocks_def blocks_def by (cases b; cases c) blast

lemma not_covers_units:
  assumes "\<not> covers (l, i) (l', i')" "l \<le> l'" "l' < L"
  shows "units L (l, i) \<inter> units L (l', i') = {}"
proof -
  let ?s = "2 ^ (L - 1 - l') :: nat" and ?k = "l' - l"
  have e: "2 ^ (L - 1 - l) = 2 ^ ?k * ?s"
    using assms(2,3) by (simp flip: power_add)
  have False if x: "x \<in> units L (l, i)" "x \<in> units L (l', i')" for x
  proof -
    from x(2) have "i' * ?s \<le> x" "x < Suc i' * ?s" by (auto simp: units_def)
    then have "x div ?s = i'"
      by (intro div_nat_eqI) (auto simp: mult.commute)
    moreover from x(1) e have "i * (2 ^ ?k * ?s) \<le> x" "x < Suc i * (2 ^ ?k * ?s)"
      by (auto simp: units_def)
    then have "x div (2 ^ ?k * ?s) = i"
      by (intro div_nat_eqI) (auto simp: mult.commute mult.left_commute)
    ultimately have "i' div 2 ^ ?k = i"
      by (metis div_mult2_eq mult.commute)
    with assms(1,2) show False by (simp add: covers_def)
  qed
  then show ?thesis by auto
qed

lemma disjoint_blocks_units:
  assumes "disjoint_blocks b c" "fst b < L" "fst c < L"
  shows "units L b \<inter> units L c = {}"
proof (cases b; cases c)
  fix l i l' i' assume [simp]: "b = (l, i)" "c = (l', i')"
  show ?thesis
    using assms not_covers_units [of l i l' i' L] not_covers_units [of l' i' l i L]
    by (cases "l \<le> l'") (auto simp: disjoint_blocks_def)
qed

section \<open>Marking a path\<close>

definition upd :: "tree \<Rightarrow> nat \<Rightarrow> nat \<Rightarrow> bool \<Rightarrow> tree" where
  "upd T l i v = (\<lambda>l' i'. if l' = l \<and> i' = i then v else T l' i')"

text \<open>Mark \<open>(l, i)\<close> and its leftmost descendants in the \<open>n\<close> layers below it.\<close>

fun mark_path :: "tree \<Rightarrow> nat \<Rightarrow> nat \<Rightarrow> nat \<Rightarrow> tree" where
  "mark_path T l i 0 = upd T l i True"
| "mark_path T l i (Suc n) = mark_path (upd T l i True) (Suc l) (2 * i) n"

lemma upd_apply: "upd T l i v l' i' = (if l' = l \<and> i' = i then v else T l' i')"
  by (simp add: upd_def)

lemma mark_path_apply:
  "mark_path T l i n l' i' \<longleftrightarrow> T l' i' \<or> (l \<le> l' \<and> l' \<le> l + n \<and> i' = i * 2 ^ (l' - l))"
proof (induction n arbitrary: T l i)
  case 0
  then show ?case by (auto simp: upd_apply)
next
  case (Suc n)
  have "i' = 2 * i * 2 ^ (l' - Suc l) \<longleftrightarrow> i' = i * 2 ^ (l' - l)" if "Suc l \<le> l'"
    using that by (metis (no_types, lifting) Suc_diff_le diff_Suc_Suc mult.assoc mult.commute power_Suc)
  then show ?case
    by (auto simp: Suc.IH upd_apply not_less_eq_eq Suc_le_eq le_Suc_eq)
qed

text \<open>
  A node from which a path may be marked: it is clear, and it is the root or its parent is
  split because its buddy is marked.
\<close>

definition buddy_of :: "nat \<Rightarrow> nat" where
  "buddy_of i = (if even i then Suc i else i - 1)"

definition candidate :: "tree \<Rightarrow> nat \<Rightarrow> nat \<Rightarrow> bool" where
  "candidate T l i \<longleftrightarrow> \<not> T l i \<and> i < 2 ^ l \<and>
     (0 < l \<longrightarrow> T (l - 1) (i div 2) \<and> T l (buddy_of i))"

lemma buddy_of_div [simp]: "buddy_of i div 2 = i div 2"
  by (auto simp: buddy_of_def elim!: evenE oddE)

lemma buddy_of_children: "i = 2 * j \<or> i = Suc (2 * j) \<Longrightarrow>
    {i, buddy_of i} = {2 * j, Suc (2 * j)}"
  by (auto simp: buddy_of_def)

lemma clear_descendants:
  assumes "wf_tree L T" "\<not> T l i" "i < 2 ^ l" "l \<le> l'" "l' < L" "i' < 2 ^ l'"
    "i' div 2 ^ (l' - l) = i"
  shows "\<not> T l' i'"
  using wf_tree_ancestor [OF assms(1), of l' i' "l' - l"] assms by auto

lemma mark_path_wf:
  assumes wf: "wf_tree L T" and c: "candidate T l i" and n: "l + n < L"
  shows "wf_tree L (mark_path T l i n)"
  unfolding wf_tree_def
proof (intro allI impI)
  fix l' i' assume a: "Suc l' < L \<and> i' < 2 ^ Suc l' \<and> mark_path T l i n (Suc l') i'"
  consider (old) "T (Suc l') i'" | (top) "l = Suc l'" "i' = i"
    | (path) "l \<le> l'" "Suc l' \<le> l + n" "i' = i * 2 ^ (Suc l' - l)"
    using a by (fastforce simp: mark_path_apply le_Suc_eq)
  then show "mark_path T l i n l' (i' div 2)"
  proof cases
    case old
    then show ?thesis using wf a by (auto simp: wf_tree_def mark_path_apply)
  next
    case top
    then show ?thesis using c by (auto simp: candidate_def mark_path_apply)
  next
    case path
    then have "i' div 2 = i * 2 ^ (l' - l)" by (simp add: Suc_diff_le)
    then show ?thesis using path by (simp add: mark_path_apply)
  qed
qed

text \<open>
  Marking from a candidate down to layer \<open>l + n\<close> allocates exactly the block at the end of
  the path: the nodes above it are split, and no other block changes its status.
\<close>

lemma mark_path_leaf_end:
  assumes wf: "wf_tree L T" and c: "candidate T l i" and n: "l + n < L"
  shows "leaf L (mark_path T l i n) (l + n) (i * 2 ^ n)"
proof -
  have "i < 2 ^ l" "\<not> T l i" using c by (auto simp: candidate_def)
  then have b: "i * 2 ^ n < 2 ^ (l + n)" by (simp add: power_add)
  have "\<not> T (Suc (l + n)) j" if "j = 2 * (i * 2 ^ n) \<or> j = Suc (2 * (i * 2 ^ n))" "Suc (l + n) < L" for j
  proof (rule clear_descendants [OF wf \<open>\<not> T l i\<close> \<open>i < 2 ^ l\<close>])
    show "j < 2 ^ Suc (l + n)" using that b by auto
    have "j div 2 = i * 2 ^ n" using that by auto
    then have "j div 2 div 2 ^ n = i" by simp
    then show "j div 2 ^ (Suc (l + n) - l) = i"
      by (simp add: Suc_diff_le div_mult2_eq)
  qed (use that in auto)
  then show ?thesis using n b by (simp add: leaf_def mark_path_apply)
qed

lemma mark_path_leaf_old:
  assumes wf: "wf_tree L T" and c: "candidate T l i" and n: "l + n < L"
    and x: "leaf L T l' i'"
  shows "leaf L (mark_path T l i n) l' i'"
proof -
  have False if m: "mark_path T l i n (Suc l') j" "j = 2 * i' \<or> j = Suc (2 * i')" "Suc l' < L" for j
  proof -
    have "\<not> T (Suc l') j" using x m by (auto simp: leaf_def)
    then have p: "l \<le> Suc l'" "Suc l' \<le> l + n" "j = i * 2 ^ (Suc l' - l)"
      using m by (auto simp: mark_path_apply)
    show False
    proof (cases "l = Suc l'")
      case True
      then have "j = i" using p by simp
      then have "T l (buddy_of i)" "buddy_of i \<in> {2 * i', Suc (2 * i')}"
        using c True m(2) buddy_of_children [of i i'] by (auto simp: candidate_def)
      then show False using x True m(3) by (auto simp: leaf_def)
    next
      case False
      then have "l \<le> l'" using p by simp
      have "j div 2 = i'" using m(2) by auto
      then have "i' = i * 2 ^ (l' - l)" using p \<open>l \<le> l'\<close> by (simp add: Suc_diff_le)
      moreover have "i < 2 ^ l" "\<not> T l i" using c by (auto simp: candidate_def)
      ultimately have "\<not> T l' i'"
        using x \<open>l \<le> l'\<close> clear_descendants [OF wf, of l i l' i'] by (simp add: leaf_def)
      then show False using x by (simp add: leaf_def)
    qed
  qed
  then show ?thesis using x by (auto simp: leaf_def mark_path_apply)
qed

lemma mark_path_leaf_new:
  assumes x: "leaf L (mark_path T l i n) l' i'" and n: "l + n < L" and i: "i < 2 ^ l"
  shows "leaf L T l' i' \<or> (l', i') = (l + n, i * 2 ^ n)"
proof (cases "T l' i'")
  case True
  then show ?thesis using x by (auto simp: leaf_def mark_path_apply)
next
  case False
  then have p: "l \<le> l'" "l' \<le> l + n" "i' = i * 2 ^ (l' - l)"
    using x by (auto simp: leaf_def mark_path_apply)
  have "l' = l + n"
  proof (rule ccontr)
    assume "l' \<noteq> l + n"
    then have "mark_path T l i n (Suc l') (2 * i')"
      using p by (simp add: mark_path_apply Suc_diff_le)
    then show False using x \<open>l' \<noteq> l + n\<close> p n by (auto simp: leaf_def)
  qed
  then show ?thesis using p by simp
qed

lemma mark_path_blocks:
  assumes "wf_tree L T" "candidate T l i" "l + n < L"
  shows "blocks L (mark_path T l i n) = insert (l + n, i * 2 ^ n) (blocks L T)"
proof -
  have "i < 2 ^ l" using assms(2) by (simp add: candidate_def)
  then show ?thesis
    using mark_path_leaf_end [OF assms] mark_path_leaf_old [OF assms]
      mark_path_leaf_new [of L T l i n, OF _ assms(3)]
    by (fastforce simp: blocks_def)
qed

text \<open>A path never starts inside an allocated block, so its end is new.\<close>

lemma candidate_end_fresh:
  assumes wf: "wf_tree L T" and c: "candidate T l i" and n: "l + n < L"
  shows "(l + n, i * 2 ^ n) \<notin> blocks L T"
proof -
  have "i < 2 ^ l" "\<not> T l i" using c by (auto simp: candidate_def)
  then have "\<not> T (l + n) (i * 2 ^ n)"
    using n by (simp add: power_add clear_descendants [OF wf, of l i])
  then show ?thesis by (simp add: blocks_def leaf_def)
qed

text \<open>
  Conversely, a clear block that lies in no allocated block has a candidate on its path to
  the root: the topmost clear node.
\<close>

lemma free_block_candidate:
  assumes wf: "wf_tree L T" and m: "m < L" "i < 2 ^ m" "\<not> T m i"
    and free: "\<And>b. b \<in> blocks L T \<Longrightarrow> \<not> covers b (m, i)"
  shows "\<exists>f j. f \<le> m \<and> candidate T f j \<and> i div 2 ^ (m - f) = j"
  using assms(2-5)
proof (induction m arbitrary: i)
  case 0
  then show ?case by (auto simp: candidate_def intro!: exI [of _ 0])
next
  case (Suc m)
  have lt: "i div 2 < 2 ^ m" using Suc.prems by auto
  show ?case
  proof (cases "T m (i div 2)")
    case False
    have nc: "\<not> covers b (m, i div 2)" if "b \<in> blocks L T" for b
    proof
      assume "covers b (m, i div 2)"
      then have "covers b (Suc m, i)"
        by (auto simp: covers_def Suc_diff_le div_mult2_eq split: prod.splits)
      then show False using Suc.prems(4) [OF that] by simp
    qed
    have "\<exists>f j. f \<le> m \<and> candidate T f j \<and> i div 2 div 2 ^ (m - f) = j"
      by (rule Suc.IH) (use Suc.prems lt False nc in auto)
    then obtain f where f: "f \<le> m" "candidate T f (i div 2 div 2 ^ (m - f))" by auto
    then have "i div 2 div 2 ^ (m - f) = i div 2 ^ (Suc m - f)"
      by (simp add: Suc_diff_le div_mult2_eq)
    then show ?thesis using f by (metis le_SucI)
  next
    case True
    have "covers (m, i div 2) (Suc m, i)" by (simp add: covers_def)
    then have "\<not> leaf L T m (i div 2)" using Suc.prems(4) by (auto simp: blocks_def)
    then obtain c where c: "T (Suc m) c" "c = 2 * (i div 2) \<or> c = Suc (2 * (i div 2))"
      using True lt Suc.prems(1) by (auto simp: leaf_def)
    then have "T (Suc m) (buddy_of i)"
      using Suc.prems(3) buddy_of_children [of i "i div 2"] by (auto simp: buddy_of_def)
    then have "candidate T (Suc m) i"
      using True Suc.prems by (auto simp: candidate_def)
    then show ?thesis by (metis diff_self_eq_0 div_by_1 le_refl power_0)
  qed
qed

section \<open>A tree is determined by its allocated blocks\<close>

lemma marked_has_leaf:
  assumes "T l i" "l < L" "i < 2 ^ l"
  shows "\<exists>b \<in> blocks L T. covers (l, i) b"
  using assms
proof (induction "L - l" arbitrary: l i)
  case 0
  then show ?case by simp
next
  case (Suc k)
  show ?case
  proof (cases "leaf L T l i")
    case True
    then have "(l, i) \<in> blocks L T" by (simp add: blocks_def)
    then show ?thesis using covers_refl by blast
  next
    case False
    then obtain j where j: "Suc l < L" "T (Suc l) j" "j = 2 * i \<or> j = Suc (2 * i)"
      using Suc.prems by (auto simp: leaf_def)
    then have "j < 2 ^ Suc l" using Suc.prems(3) by auto
    moreover have k: "k = L - Suc l" using Suc.hyps(2) by arith
    ultimately obtain b where b: "b \<in> blocks L T" "covers (Suc l, j) b"
      using Suc.hyps(1) [of "Suc l" j] k j(1,2) by auto
    obtain l' i' where [simp]: "b = (l', i')" by (cases b)
    have le: "Suc l \<le> l'" and "i' div 2 ^ (l' - Suc l) = j"
      using b(2) by (auto simp: covers_def)
    then have "i' div 2 ^ (l' - l) = j div 2"
      by (metis Suc_diff_le diff_Suc_Suc div_mult2_eq power_Suc2)
    then have "covers (l, i) b" using j(3) le by (auto simp: covers_def)
    then show ?thesis using b(1) by blast
  qed
qed

lemma marked_iff_leaf_below:
  assumes wf: "wf_tree L T" and "l < L" "i < 2 ^ l"
  shows "T l i \<longleftrightarrow> (\<exists>b \<in> blocks L T. covers (l, i) b)"
proof
  assume "\<exists>b \<in> blocks L T. covers (l, i) b"
  then obtain l' i' where x: "leaf L T l' i'" "l \<le> l'" "i' div 2 ^ (l' - l) = i"
    by (auto simp: blocks_def covers_def)
  then show "T l i"
    using wf_tree_ancestor [OF wf, of l' i' "l' - l"] by (auto simp: leaf_def)
qed (use marked_has_leaf assms in auto)

lemma blocks_eq_tree_eq:
  "wf_tree L T \<Longrightarrow> wf_tree L T' \<Longrightarrow> blocks L T = blocks L T' \<Longrightarrow> tree_eq L T T'"
  using marked_iff_leaf_below [of L T] marked_iff_leaf_below [of L T'] by (simp add: tree_eq_def)

lemma empty_blocks_clear:
  "wf_tree L T \<Longrightarrow> blocks L T = {} \<Longrightarrow> l < L \<Longrightarrow> i < 2 ^ l \<Longrightarrow> \<not> T l i"
  using marked_has_leaf [of T l i L] by auto

section \<open>Clearing a block and merging upwards\<close>

text \<open>
  From a cleared node, clear the parent as long as the buddy is clear too. \<open>None\<close> is the
  case where the merge would go on above the root.
\<close>

fun merge_up :: "tree \<Rightarrow> nat \<Rightarrow> nat \<Rightarrow> (tree \<times> nat \<times> nat) option" where
  "merge_up T 0 i = None"
| "merge_up T (Suc l) i =
     (if T (Suc l) i \<or> T (Suc l) (buddy_of i) then Some (T, Suc l, i)
      else merge_up (upd T l (i div 2) False) l (i div 2))"

text \<open>
  The loop invariant: \<open>B\<close> are the blocks that stay allocated, and the only other node that
  may look allocated is the parent of the node just cleared.
\<close>

definition merging :: "nat \<Rightarrow> block_id set \<Rightarrow> tree \<Rightarrow> nat \<Rightarrow> nat \<Rightarrow> bool" where
  "merging L B T l i \<longleftrightarrow> wf_tree L T \<and> l < L \<and> i < 2 ^ l \<and> \<not> T l i \<and> B \<subseteq> blocks L T \<and>
     (\<forall>b \<in> blocks L T - B. 0 < l \<and> b = (l - 1, i div 2)) \<and>
     (0 < l \<longrightarrow> T (l - 1) (i div 2) \<and> (l - 1, i div 2) \<notin> B)"

lemma clear_node_wf:
  assumes "wf_tree L T" "Suc l < L \<Longrightarrow> \<not> T (Suc l) (2 * i) \<and> \<not> T (Suc l) (Suc (2 * i))"
  shows "wf_tree L (upd T l i False)"
  unfolding wf_tree_def
proof (intro allI impI)
  fix l' j assume a: "Suc l' < L \<and> j < 2 ^ Suc l' \<and> upd T l i False (Suc l') j"
  then have t: "T (Suc l') j" by (simp add: upd_apply split: if_split_asm)
  with a have p: "T l' (j div 2)" using wf_tree_parent [OF assms(1), of l' j] by blast
  have "\<not> (l' = l \<and> j div 2 = i)"
  proof
    assume e: "l' = l \<and> j div 2 = i"
    then have "j = 2 * i \<or> j = Suc (2 * i)" by linarith
    then show False using assms(2) a e t by metis
  qed
  then show "upd T l i False l' (j div 2)" using p by (simp add: upd_apply)
qed

lemma clear_node_blocks:
  assumes wf: "wf_tree L T" and x: "leaf L T l i"
  shows "blocks L T - {(l, i)} \<subseteq> blocks L (upd T l i False)"
    and "b \<in> blocks L (upd T l i False) \<Longrightarrow> b \<notin> blocks L T \<Longrightarrow> 0 < l \<and> b = (l - 1, i div 2)"
    and "(l, i) \<notin> blocks L (upd T l i False)"
proof -
  show "blocks L T - {(l, i)} \<subseteq> blocks L (upd T l i False)"
    by (auto simp: blocks_def leaf_def upd_apply)
  show "0 < l \<and> b = (l - 1, i div 2)"
    if "b \<in> blocks L (upd T l i False)" "b \<notin> blocks L T"
  proof -
    obtain l' i' where [simp]: "b = (l', i')" by (cases b)
    have "leaf L (upd T l i False) l' i'" "\<not> leaf L T l' i'"
      using that by (auto simp: blocks_def)
    then have "Suc l' = l" "i = 2 * i' \<or> i = Suc (2 * i')"
      by (auto simp: leaf_def upd_apply split: if_splits)
    then show ?thesis by auto
  qed
  show "(l, i) \<notin> blocks L (upd T l i False)" by (simp add: blocks_def leaf_def upd_apply)
qed

lemma merging_start:
  assumes wf: "wf_tree L T" and x: "leaf L T l i"
  shows "merging L (blocks L T - {(l, i)}) (upd T l i False) l i"
proof -
  have parent: "T (l - 1) (i div 2)" "(l - 1, i div 2) \<notin> blocks L T" if "0 < l"
  proof -
    show "T (l - 1) (i div 2)" using that x wf wf_tree_parent [of L T "l - 1" i] by (auto simp: leaf_def)
    have "i = 2 * (i div 2) \<or> i = Suc (2 * (i div 2))" by auto
    then show "(l - 1, i div 2) \<notin> blocks L T" using that x by (auto simp: leaf_def blocks_def)
  qed
  have "wf_tree L (upd T l i False)"
    by (rule clear_node_wf [OF wf]) (use x in \<open>auto simp: leaf_def\<close>)
  then show ?thesis
    unfolding merging_def
    using x parent clear_node_blocks [OF wf x]
    by (auto simp: leaf_def upd_apply)
qed

lemma merging_step:
  assumes m: "merging L B T (Suc l) i" and b: "\<not> T (Suc l) (buddy_of i)"
  shows "merging L B (upd T l (i div 2) False) l (i div 2)"
proof -
  let ?j = "i div 2"
  have wf: "wf_tree L T" using m by (simp add: merging_def)
  have c: "\<not> T (Suc l) (2 * ?j)" "\<not> T (Suc l) (Suc (2 * ?j))"
    using m b buddy_of_children [of i ?j] by (auto simp: merging_def buddy_of_def split: if_splits)
  then have x: "leaf L T l ?j" using m by (auto simp: merging_def leaf_def)
  have "B = blocks L T - {(l, ?j)}" using m x by (auto simp: merging_def blocks_def)
  then show ?thesis using merging_start [OF wf x] by simp
qed

lemma merging_done:
  assumes m: "merging L B T (Suc l) i" and b: "T (Suc l) (buddy_of i)"
  shows "blocks L T = B"
proof -
  let ?j = "i div 2"
  have "\<not> leaf L T l ?j"
    using m b buddy_of_children [of i ?j] by (auto simp: merging_def leaf_def buddy_of_def split: if_splits)
  then have "(l, ?j) \<notin> blocks L T" by (simp add: blocks_def)
  moreover have "B \<subseteq> blocks L T" "\<forall>b \<in> blocks L T - B. b = (l, ?j)"
    using m by (auto simp: merging_def)
  ultimately show ?thesis by (metis DiffI subsetI subset_antisym)
qed

lemma merging_root: "merging L B T 0 i \<Longrightarrow> blocks L T = {} \<and> B = {}"
proof -
  assume m: "merging L B T 0 i"
  have "\<not> leaf L T l j" for l j
    using m clear_descendants [of L T 0 0 l j] by (auto simp: merging_def leaf_def)
  then show ?thesis using m by (auto simp: merging_def blocks_def)
qed

text \<open>
  Merging stops with exactly the other blocks allocated, at a clear node around the freed
  block; it fails if and only if no other block is allocated.
\<close>

lemma merge_up_correct:
  assumes "merging L B T l i"
  shows "if B = {} then merge_up T l i = None
    else \<exists>T' l' i'. merge_up T l i = Some (T', l', i') \<and> wf_tree L T' \<and> blocks L T' = B \<and>
      l' \<le> l \<and> l' < L \<and> i' = i div 2 ^ (l - l') \<and> \<not> T' l' i' \<and> i' < 2 ^ l'"
  using assms
proof (induction T l i rule: merge_up.induct)
  case (1 T i)
  then show ?case using merging_root by simp
next
  case (2 T l i)
  show ?case
  proof (cases "T (Suc l) (buddy_of i)")
    case True
    then have "blocks L T = B" by (rule merging_done [OF 2(2)])
    moreover have "i div 2 < 2 ^ l" using 2(2) by (auto simp: merging_def)
    then have "B \<noteq> {}"
      using calculation 2(2) empty_blocks_clear [of L T l "i div 2"] by (auto simp: merging_def)
    ultimately show ?thesis using 2(2) True by (auto simp: merging_def)
  next
    case False
    have n: "\<not> T (Suc l) i" using 2(2) by (simp add: merging_def)
    have ih: "if B = {} then merge_up (upd T l (i div 2) False) l (i div 2) = None
      else \<exists>T' l' i'. merge_up (upd T l (i div 2) False) l (i div 2) = Some (T', l', i') \<and>
        wf_tree L T' \<and> blocks L T' = B \<and> l' \<le> l \<and> l' < L \<and>
        i' = i div 2 div 2 ^ (l - l') \<and> \<not> T' l' i' \<and> i' < 2 ^ l'"
      using "2.IH" merging_step [OF 2(2) False] n False by simp
    have e: "i div 2 div 2 ^ (l - l') = i div 2 ^ (Suc l - l')" if "l' \<le> l" for l'
      using that by (simp add: Suc_diff_le div_mult2_eq)
    show ?thesis
    proof (cases "B = {}")
      case True
      then show ?thesis using ih n False by simp
    next
      case ne: False
      then obtain T' l' i' where r: "merge_up (upd T l (i div 2) False) l (i div 2) = Some (T', l', i')"
        "wf_tree L T'" "blocks L T' = B" "l' \<le> l" "l' < L" "i' = i div 2 div 2 ^ (l - l')"
        "\<not> T' l' i'" "i' < 2 ^ l'"
        using ih by auto
      then show ?thesis using ne n False e [of l'] by simp
    qed
  qed
qed

end
