(* ===== verification/Paging.thy ===== *)
theory Paging
  imports Prelude
begin

text \<open>
  The kernel's page tables (\<open>kernel/arch/i686/page.c\<close>, \<open>page.h\<close> and the paging wrappers of
  \<open>kernel/hal/hal.c\<close>). The page directory and a page table are arrays of 32-bit entries;
  a pointer into an array of tables is the array with an offset. Physical memory, which
  \<open>i686_physical_addr\<close> reads through the identity map, is a function from addresses to
  32-bit words.
\<close>

section \<open>Entries\<close>

definition PAGE_PRESENT :: u32 where "PAGE_PRESENT = 0x01"
definition PAGE_READ_WRITE :: u32 where "PAGE_READ_WRITE = 0x02"
definition PAGE_ALL_ACCESS :: u32 where "PAGE_ALL_ACCESS = 0x04"

lemmas page_flag_defs = PAGE_PRESENT_def PAGE_READ_WRITE_def PAGE_ALL_ACCESS_def

definition i686_page_table :: "u32 list \<Rightarrow> u32 \<Rightarrow> int \<Rightarrow> u32 \<Rightarrow> u32 list option" where
  "i686_page_table g_page_dir table index flags = awrite_int g_page_dir index (table OR flags)"

definition i686_get_page_table :: "u32 list \<Rightarrow> int \<Rightarrow> u32 option" where
  "i686_get_page_table g_page_dir index =
     map_option (\<lambda>e. e AND NOT 0xFFF) (aread_int g_page_dir index)"

text \<open>The loop of \<open>i686_page_table_find_empty\<close>, at index \<open>i\<close>.\<close>

function find_empty_from :: "u32 list \<Rightarrow> nat \<Rightarrow> int option" where
  "find_empty_from table i =
     (if i < 1024 then do {
        e \<leftarrow> aread table i;
        if e AND 0xFFFFF000 = 0 then Some (int i) else find_empty_from table (Suc i)
      } else Some (-1))"
  by pat_completeness auto
termination
  by (relation "measure (\<lambda>(t, i). 1024 - i)") auto

declare find_empty_from.simps [simp del]

definition i686_page_table_find_empty :: "u32 list \<Rightarrow> int option" where
  "i686_page_table_find_empty table = find_empty_from table 0"

text \<open>The pointer \<open>table\<close> is the entry at \<open>offset\<close> of the array \<open>tables\<close>.\<close>

definition i686_page_table_entry ::
    "u32 list \<Rightarrow> nat \<Rightarrow> int \<Rightarrow> u32 \<Rightarrow> u32 \<Rightarrow> u32 list option" where
  "i686_page_table_entry tables offset index maddr flags =
     awrite_int tables (int offset + index) ((maddr AND NOT 0xFFF) OR flags)"

definition i686_physical_addr :: "u32 list \<Rightarrow> (u32 \<Rightarrow> u32) \<Rightarrow> u32 \<Rightarrow> u32 option" where
  "i686_physical_addr g_page_dir mem vir_addr = do {
     table_entry \<leftarrow> aread g_page_dir (unat (drop_bit 22 vir_addr));
     let table_addr = table_entry AND NOT 0x3FF;
     let page = mem (table_addr + 4 * (drop_bit 12 vir_addr AND 0x3FF));
     Some ((page AND NOT 0x3FF) OR (vir_addr AND 0xFFF))
   }"

section \<open>The wrappers of the hardware abstraction layer\<close>

definition hal_set_page_table :: "u32 list \<Rightarrow> u32 \<Rightarrow> int \<Rightarrow> bool \<Rightarrow> u32 list option" where
  "hal_set_page_table g_page_dir page_table index usermode =
     i686_page_table g_page_dir page_table index
       ((if usermode then PAGE_ALL_ACCESS else 0) OR PAGE_READ_WRITE OR PAGE_PRESENT)"

definition hal_get_page_table :: "u32 list \<Rightarrow> int \<Rightarrow> u32 option" where
  "hal_get_page_table g_page_dir index = i686_get_page_table g_page_dir index"

definition hal_set_page_table_entry ::
    "u32 list \<Rightarrow> nat \<Rightarrow> int \<Rightarrow> u32 \<Rightarrow> bool \<Rightarrow> bool \<Rightarrow> u32 list option" where
  "hal_set_page_table_entry tables offset index mapped_addr usermode readonly =
     i686_page_table_entry tables offset index mapped_addr
       ((if usermode then PAGE_ALL_ACCESS else 0) OR
        (if readonly then 0 else PAGE_READ_WRITE) OR PAGE_PRESENT)"

definition hal_physical_addr :: "u32 list \<Rightarrow> (u32 \<Rightarrow> u32) \<Rightarrow> u32 \<Rightarrow> u32 option" where
  "hal_physical_addr g_page_dir mem vir_addr = i686_physical_addr g_page_dir mem vir_addr"

lemmas hal_page_defs = hal_set_page_table_def hal_get_page_table_def
  hal_set_page_table_entry_def hal_physical_addr_def i686_page_table_def
  i686_get_page_table_def i686_page_table_entry_def

section \<open>The processor's walk\<close>

text \<open>
  What the processor does with the same structures (4 KiB pages): the frame address of an
  entry is its top 20 bits, and an entry without the present bit faults.
\<close>

definition mmu_translate :: "u32 list \<Rightarrow> (u32 \<Rightarrow> u32) \<Rightarrow> u32 \<Rightarrow> u32 option" where
  "mmu_translate g_page_dir mem vir_addr = do {
     pde \<leftarrow> aread g_page_dir (unat (drop_bit 22 vir_addr));
     if pde AND PAGE_PRESENT = 0 then None else do {
       let pte = mem ((pde AND NOT 0xFFF) + 4 * (drop_bit 12 vir_addr AND 0x3FF));
       if pte AND PAGE_PRESENT = 0 then None
       else Some ((pte AND NOT 0xFFF) OR (vir_addr AND 0xFFF))
     }
   }"

text \<open>Bits 10 and 11 of an entry are left to the system; the kernel's own flags leave them clear.\<close>

definition avail_clear :: "u32 \<Rightarrow> bool" where
  "avail_clear e \<longleftrightarrow> e AND 0xC00 = 0"

lemma bit_mask_FFF: "bit (0xFFF :: u32) n \<longleftrightarrow> n < 12"
  using bit_mask_iff [where 'a = u32, of 12 n] by (auto simp: mask_numeral)

lemma bit_mask_3FF: "bit (0x3FF :: u32) n \<longleftrightarrow> n < 10"
  using bit_mask_iff [where 'a = u32, of 10 n] by (auto simp: mask_numeral)

lemma bit_mask_C00: "bit (0xC00 :: u32) n \<longleftrightarrow> n = 10 \<or> n = 11"
proof -
  have "(0xC00 :: u32) = 0xFFF AND NOT 0x3FF" by simp
  then show ?thesis
    by (auto simp only: bit_and_iff bit_not_iff bit_mask_FFF bit_mask_3FF) auto
qed

lemma bit_frame_mask: "bit (- 4096 :: u32) n \<longleftrightarrow> 12 \<le> n \<and> n < 32"
proof -
  have "(- 4096 :: u32) = NOT 0xFFF" by simp
  then show ?thesis by (auto simp only: bit_not_iff bit_mask_FFF) auto
qed

lemma bit_coarse_mask: "bit (- 1024 :: u32) n \<longleftrightarrow> 10 \<le> n \<and> n < 32"
proof -
  have "(- 1024 :: u32) = NOT 0x3FF" by simp
  then show ?thesis by (auto simp only: bit_not_iff bit_mask_3FF) auto
qed

lemmas bit_masks [bit_simps] = bit_mask_FFF bit_mask_3FF bit_mask_C00 bit_frame_mask bit_coarse_mask

lemma avail_clear_mask:
  assumes "avail_clear e"
  shows "e AND - 1024 = e AND - 4096"
proof -
  have "bit (e AND 0xC00) 10 = False" "bit (e AND 0xC00) 11 = False"
    using assms by (simp_all add: avail_clear_def)
  then have c: "\<not> bit e 10" "\<not> bit e 11"
    by (simp_all add: bit_and_iff bit_mask_C00)
  show ?thesis
  proof (rule bit_word_eqI)
    fix n assume "n < LENGTH(32)"
    have "n < 10 \<or> n = 10 \<or> n = 11 \<or> 12 \<le> n" by arith
    then show "bit (e AND - 1024) n = bit (e AND - 4096) n"
      using c by (auto simp: bit_and_iff bit_masks)
  qed
qed

lemma physical_addr_mmu:
  assumes "mmu_translate dir mem v = Some p"
    and pde: "\<And>e. aread dir (unat (drop_bit 22 v)) = Some e \<Longrightarrow> avail_clear e"
    and pte: "\<And>a. avail_clear (mem a)"
  shows "i686_physical_addr dir mem v = Some p"
  using assms
  by (auto simp: mmu_translate_def i686_physical_addr_def Let_def bind_Some_eq
      avail_clear_mask split: if_splits)

lemma find_empty_from_spec:
  assumes "length table = 1024" "i \<le> 1024"
  shows "find_empty_from table i =
    Some (if \<exists>j. i \<le> j \<and> j < 1024 \<and> table ! j AND 0xFFFFF000 = 0
      then int (LEAST j. i \<le> j \<and> j < 1024 \<and> table ! j AND 0xFFFFF000 = 0) else - 1)"
  using assms(2)
proof (induction "1024 - i" arbitrary: i)
  case 0
  then have "i = 1024" by simp
  then show ?case by (auto simp: find_empty_from.simps [of table 1024])
next
  case (Suc k)
  then have i: "i < 1024" by simp
  show ?case
  proof (cases "table ! i AND 0xFFFFF000 = 0")
    case True
    then have "(LEAST j. i \<le> j \<and> j < 1024 \<and> table ! j AND 0xFFFFF000 = 0) = i"
      using i by (intro Least_equality) auto
    then show ?thesis
      using i True assms(1) by (auto simp: find_empty_from.simps [of table i])
  next
    case False
    have "(\<lambda>j. i \<le> j \<and> j < 1024 \<and> table ! j AND 0xFFFFF000 = 0)
        = (\<lambda>j. Suc i \<le> j \<and> j < 1024 \<and> table ! j AND 0xFFFFF000 = 0)"
      using False by (auto simp: fun_eq_iff) (metis Suc_leI le_neq_implies_less)
    moreover have "find_empty_from table i = find_empty_from table (Suc i)"
      using i False assms(1) by (simp add: find_empty_from.simps [of table i])
    ultimately show ?thesis
      using Suc.hyps(1) [of "Suc i"] Suc.hyps(2) i by (simp only:)
  qed
qed

end
