(* ===== verification/Buddy.thy ===== *)
theory Buddy
  imports BuddyTree Paging
begin

text \<open>
  The buddy allocator, \<open>kernel/util/buddy_alloc.c\<close>: its bitmap, its globals, and
  \<open>buddy_init\<close>, \<open>buddy_alloc\<close> and \<open>buddy_free\<close> with the control flow of the source. The
  abstract tree of theory \<open>BuddyTree\<close> is what the bitmap stands for.
\<close>

section \<open>The bitmap\<close>

definition BUDDY_LAYERS :: int where "BUDDY_LAYERS = 14"
definition BUDDY_ARRAY_SIZE :: nat where "BUDDY_ARRAY_SIZE = 2048"
definition BUDDY_PAGE_TABLES :: nat where "BUDDY_PAGE_TABLES = 256"
definition TOTAL_PAGE_MAPPABLE_SIZE :: nat where "TOTAL_PAGE_MAPPABLE_SIZE = 4 * 1024 * 1024"
definition BUDDY_ALLOC_VIRADR :: u32 where "BUDDY_ALLOC_VIRADR = 0x80000000"

lemmas buddy_consts = BUDDY_LAYERS_def BUDDY_ARRAY_SIZE_def BUDDY_PAGE_TABLES_def
  TOTAL_PAGE_MAPPABLE_SIZE_def BUDDY_ALLOC_VIRADR_def

definition buddy_layers :: "nat list" where
  "buddy_layers = [0, 1, 3, 7, 15, 31, 63, 127, 255, 511, 1023, 2047, 4095, 8191, 16383, 32767]"

definition buddy_block :: "u8 list \<Rightarrow> int \<Rightarrow> nat \<Rightarrow> bool option" where
  "buddy_block blk layer idx = do {
     base \<leftarrow> aread_int buddy_layers layer;
     let index = base + idx;
     b \<leftarrow> aread blk (index div 8);
     Some (b AND push_bit (index mod 8) 1 \<noteq> 0)
   }"

definition buddy_block_set :: "u8 list \<Rightarrow> int \<Rightarrow> nat \<Rightarrow> bool \<Rightarrow> u8 list option" where
  "buddy_block_set blk layer idx val = do {
     base \<leftarrow> aread_int buddy_layers layer;
     let index = base + idx;
     b \<leftarrow> aread blk (index div 8);
     awrite blk (index div 8)
       ((b AND NOT (push_bit (index mod 8) 1)) OR push_bit (index mod 8) (of_bool val))
   }"

text \<open>The tree a bitmap stands for: node \<open>(l, i)\<close> is bit \<open>2 ^ l - 1 + i\<close> of the array.\<close>

definition node :: "nat \<Rightarrow> nat \<Rightarrow> nat" where
  "node l i = 2 ^ l - 1 + i"

definition tree_of :: "u8 list \<Rightarrow> tree" where
  "tree_of blk l i = bit (blk ! (node l i div 8)) (node l i mod 8)"

lemma length_buddy_layers [simp]: "length buddy_layers = 16"
  by (simp add: buddy_layers_def)

lemma buddy_layers_nth: "l < 16 \<Longrightarrow> buddy_layers ! l = 2 ^ l - 1"
proof -
  have "\<forall>l \<in> set [0..<16]. buddy_layers ! l = 2 ^ l - 1"
    by (simp add: buddy_layers_def upt_rec)
  then show "l < 16 \<Longrightarrow> buddy_layers ! l = 2 ^ l - 1" by simp
qed

lemma node_fold: "2 ^ l + i - Suc 0 = node l i"
proof -
  have "(1::nat) \<le> 2 ^ l" by simp
  then show ?thesis by (simp add: node_def)
qed

lemma node_inj: "i < 2 ^ l \<Longrightarrow> i' < 2 ^ l' \<Longrightarrow> node l i = node l' i' \<longleftrightarrow> l = l' \<and> i = i'"
proof -
  have *: "node l i < node l' i'" if "i < 2 ^ l" "l < l'" for l l' i i'
  proof -
    have "(2::nat) ^ Suc l \<le> 2 ^ l'" using that by (intro power_increasing) auto
    then show ?thesis using that(1) by (simp add: node_def)
  qed
  assume "i < 2 ^ l" "i' < 2 ^ l'"
  then show ?thesis
    using * [of i l l' i'] * [of i' l' l i] by (cases l l' rule: linorder_cases) (auto simp: node_def)
qed

lemma node_less: "i < 2 ^ l \<Longrightarrow> l < 14 \<Longrightarrow> node l i < 16383"
proof -
  assume "i < 2 ^ l" "l < 14"
  moreover from this have "(2::nat) ^ Suc l \<le> 2 ^ 14" by (intro power_increasing) auto
  ultimately show ?thesis by (simp add: node_def)
qed

lemma buddy_block_tree:
  assumes "l < 14" "i < 2 ^ l" "length blk = BUDDY_ARRAY_SIZE"
  shows "buddy_block blk (int l) i = Some (tree_of blk l i)"
proof -
  have "node l i div 8 < 2048" using node_less [OF assms(2,1)] by simp
  then show ?thesis
    using assms and_push_bit_one_eq_0_iff [of "node l i mod 8" "blk ! (node l i div 8)"]
    by (simp add: buddy_block_def buddy_layers_nth tree_of_def BUDDY_ARRAY_SIZE_def
        node_fold Let_def)
qed

lemma buddy_block_set_tree:
  assumes l: "l < 14" "i < 2 ^ l" and len: "length blk = BUDDY_ARRAY_SIZE"
  obtains blk' where "buddy_block_set blk (int l) i v = Some blk'"
    "length blk' = BUDDY_ARRAY_SIZE"
    "\<And>l' i'. l' < 14 \<Longrightarrow> i' < 2 ^ l' \<Longrightarrow> tree_of blk' l' i' = upd (tree_of blk) l i v l' i'"
proof -
  let ?n = "node l i"
  have n: "?n div 8 < 2048" using node_less [OF l(2,1)] by simp
  define blk' where "blk' = blk[?n div 8 :=
    (blk ! (?n div 8) AND NOT (push_bit (?n mod 8) 1)) OR push_bit (?n mod 8) (of_bool v)]"
  have "buddy_block_set blk (int l) i v = Some blk'"
    using n len l by (simp add: buddy_block_set_def buddy_layers_nth blk'_def BUDDY_ARRAY_SIZE_def
        node_fold Let_def)
  moreover have "length blk' = BUDDY_ARRAY_SIZE" using len by (simp add: blk'_def)
  moreover have "tree_of blk' l' i' = upd (tree_of blk) l i v l' i'"
    if "l' < 14" "i' < 2 ^ l'" for l' i'
  proof (cases "node l' i' div 8 = ?n div 8")
    case True
    then have "node l' i' mod 8 = ?n mod 8 \<longleftrightarrow> l' = l \<and> i' = i"
      using div_mod_8_eq_iff [of "node l' i'" ?n] node_inj [OF that(2) l(2)] by auto
    then show ?thesis
      using True n len bit_set_mask_u8 [of "?n mod 8" "node l' i' mod 8" "blk ! (?n div 8)" v]
      by (simp add: tree_of_def upd_def blk'_def BUDDY_ARRAY_SIZE_def)
  next
    case False
    then show ?thesis by (auto simp: tree_of_def upd_def blk'_def)
  qed
  ultimately show ?thesis using that by blast
qed

section \<open>State\<close>

text \<open>
  The globals of the allocator. C \<open>int\<close>s that are never negative (\<open>g_buddy_max_block\<close>,
  \<open>g_buddy_min_block\<close>, block indices) are natural numbers: all sizes are bounded by
  \<open>g_buddy_max_block \<le> 2 ^ 29\<close> (lemma \<open>buddy_init_geometry\<close>), so their arithmetic never
  overflows. Layers are integers, since the source counts them down to \<open>-1\<close>.
\<close>

record buddy =
  g_buddy_block :: "u8 list"
  g_buddy_max_block :: nat
  g_buddy_min_block :: nat
  g_buddy_layers :: int
  g_buddy_start :: u32
  g_buddy_page_tables :: "u32 list"

definition buddy_bss :: buddy where
  "buddy_bss = \<lparr>g_buddy_block = replicate BUDDY_ARRAY_SIZE 0, g_buddy_max_block = 0,
     g_buddy_min_block = 0, g_buddy_layers = 0, g_buddy_start = 0,
     g_buddy_page_tables = replicate (1024 * BUDDY_PAGE_TABLES) 0\<rparr>"

section \<open>Allocation\<close>

text \<open>\<open>while (min_block_size < size) { min_block_size <<= 1; min_layer--; }\<close>\<close>

partial_function (option) fit_layer :: "nat \<Rightarrow> nat \<Rightarrow> int \<Rightarrow> (nat \<times> int) option" where
  "fit_layer sz min_block_size min_layer =
     (if min_block_size < sz then fit_layer sz (push_bit 1 min_block_size) (min_layer - 1)
      else Some (min_block_size, min_layer))"

text \<open>
  The body of the inner loop up to the label \<open>buddy_alloc_loop\<close> and its test: \<open>Skip idx\<close>
  is a \<open>continue\<close> with that index, \<open>Take idx\<close> falls through with a clear block.
\<close>

datatype visit = Skip nat | Take nat

definition alloc_test :: "u8 list \<Rightarrow> int \<Rightarrow> nat \<Rightarrow> visit option" where
  "alloc_test blk layer idx = do {
     occupied \<leftarrow> buddy_block blk layer idx;
     Some (if occupied then Skip idx else Take idx)
   }"

definition alloc_visit :: "u8 list \<Rightarrow> int \<Rightarrow> nat \<Rightarrow> bool \<Rightarrow> visit option" where
  "alloc_visit blk layer idx search_up =
     (if layer \<noteq> 0 then do {
        parent \<leftarrow> buddy_block blk (layer - 1) (idx div 2);
        if parent then do {
          only_parent \<leftarrow> (if search_up then do {
             a \<leftarrow> buddy_block blk layer idx;
             if a then Some False else do {
               b \<leftarrow> buddy_block blk layer (idx + 1);
               Some (\<not> b)
             }
           } else Some False);
          if only_parent then Some (Skip idx) else do {
            a \<leftarrow> buddy_block blk layer idx;
            if \<not> a then alloc_test blk layer idx else do {
              b \<leftarrow> buddy_block blk layer (idx + 1);
              if \<not> b then alloc_test blk layer (idx + 1) else Some (Skip idx)
            }
          }
        } else Some (Skip idx)
      } else alloc_test blk layer idx)"

text \<open>
  How the search ends: with a block to allocate (already marked), by falling out of the
  outer loop, or by the jump to \<open>buddy_alloc_ret_0\<close>.
\<close>

datatype search = Found "u8 list" int nat | Exhausted "u8 list" | Ret0 "u8 list"

text \<open>
  The two loops and their jumps. With \<open>at_label\<close> the control is at the label
  \<open>buddy_alloc_top_loop\<close> (or at the outer loop's condition), without it at the inner
  loop's condition. \<open>None\<close> is an access outside an array or a search without end.
\<close>

partial_function (option) alloc_scan ::
    "int \<Rightarrow> u8 list \<Rightarrow> int \<Rightarrow> nat \<Rightarrow> bool \<Rightarrow> bool \<Rightarrow> search option" where
  "alloc_scan min_layer blk layer idx search_up at_label =
     (if at_label then
        (if layer < 0 then Some (Exhausted blk)
         else do {
           full \<leftarrow> (if layer \<le> 1 then do {
              a \<leftarrow> buddy_block blk 1 0;
              if a then buddy_block blk 1 1 else Some False
            } else Some False);
           if full then Some (Ret0 blk)
           else alloc_scan min_layer blk layer idx search_up False
         })
      else if idx < push_bit (nat layer) 1 then do {
        v \<leftarrow> alloc_visit blk layer idx search_up;
        (case v of
           Skip i \<Rightarrow> alloc_scan min_layer blk layer (i + 2) search_up False
         | Take i \<Rightarrow> do {
             blk' \<leftarrow> buddy_block_set blk layer i True;
             if layer = min_layer then Some (Found blk' layer i)
             else alloc_scan min_layer blk' (layer + 1) (push_bit 1 i) False True
           })
      }
      else alloc_scan min_layer blk (layer - 1) 0 search_up True)"

text \<open>
  The loop that sets the page table entries of a block, page by page; \<open>target\<close> gives the
  address to map: the physical address on allocation, 0 on release.
\<close>

function map_pages :: "(u32 \<Rightarrow> u32) \<Rightarrow> nat \<Rightarrow> nat \<Rightarrow> u32 \<Rightarrow> u32 list \<Rightarrow> u32 list option" where
  "map_pages target i address_size address tables =
     (if i < address_size then do {
        tables' \<leftarrow> hal_set_page_table_entry tables
          (unat (push_bit 10 (drop_bit 22 address)))
          (int (unat (drop_bit 12 address AND 0x3FF))) (target address) False False;
        map_pages target (i + 4096) address_size (address + 4096) tables'
      } else Some tables)"
  by pat_completeness auto
termination
  by (relation "measure (\<lambda>(t, i, n, a, ts). n - i)") auto

declare map_pages.simps [simp del]

text \<open>The result of \<open>buddy_alloc\<close>: the new state, \<open>*block_size\<close>, and the returned pointer.\<close>

definition buddy_alloc :: "buddy \<Rightarrow> u32 \<Rightarrow> (buddy \<times> nat \<times> u32) option" where
  "buddy_alloc st sz =
     (if g_buddy_max_block st < unat sz then Some (st, 0, 0)
      else do {
        root \<leftarrow> buddy_block (g_buddy_block st) 0 0;
        full \<leftarrow> (if root then do {
           a \<leftarrow> buddy_block (g_buddy_block st) 1 0;
           if a then Some False else do {
             b \<leftarrow> buddy_block (g_buddy_block st) 1 1;
             Some (\<not> b)
           }
         } else Some False);
        if full then Some (st, 0, 0)
        else do {
          (min_block_size, min_layer) \<leftarrow>
            fit_layer (unat sz) (g_buddy_min_block st) (g_buddy_layers st - 1);
          r \<leftarrow> alloc_scan min_layer (g_buddy_block st) min_layer 0 True True;
          (case r of
             Found blk layer idx \<Rightarrow> do {
               let block_size = push_bit (nat (g_buddy_layers st - layer - 1)) (g_buddy_min_block st);
               let address_size = push_bit (nat (g_buddy_layers st - min_layer - 1)) (g_buddy_min_block st);
               let address = (word_of_nat (address_size * idx) :: u32);
               tables \<leftarrow> map_pages (\<lambda>a. a + g_buddy_start st) 0 address_size address
                 (g_buddy_page_tables st);
               Some (st\<lparr>g_buddy_block := blk, g_buddy_page_tables := tables\<rparr>, block_size,
                 word_of_nat min_block_size * word_of_nat idx + BUDDY_ALLOC_VIRADR)
             }
           | Exhausted blk \<Rightarrow>
               if min_layer \<le> 0 then do {
                 root' \<leftarrow> buddy_block blk 0 0;
                 if root' then Some (st\<lparr>g_buddy_block := blk\<rparr>, 0, 0)
                 else do {
                   blk' \<leftarrow> buddy_block_set blk 0 0 True;
                   Some (st\<lparr>g_buddy_block := blk'\<rparr>, g_buddy_max_block st, BUDDY_ALLOC_VIRADR)
                 }
               } else Some (st\<lparr>g_buddy_block := blk\<rparr>, 0, 0)
           | Ret0 blk \<Rightarrow> Some (st\<lparr>g_buddy_block := blk\<rparr>, 0, 0))
        }
      })"

section \<open>Release\<close>

text \<open>\<open>while (!buddy_block(layer, min_block_idx))\<close>: up to the occupied block.\<close>

partial_function (option) free_find :: "u8 list \<Rightarrow> int \<Rightarrow> nat \<Rightarrow> (int \<times> nat) option" where
  "free_find blk layer idx = do {
     occupied \<leftarrow> buddy_block blk layer idx;
     if \<not> occupied then free_find blk (layer - 1) (idx div 2) else Some (layer, idx)
   }"

text \<open>The merge loop: \<open>min_block_idx & ~1\<close> is the even one of the two buddies.\<close>

partial_function (option) free_merge :: "u8 list \<Rightarrow> int \<Rightarrow> nat \<Rightarrow> (u8 list \<times> int \<times> nat) option" where
  "free_merge blk layer idx =
     (if layer < 0 then Some (blk, layer, idx)
      else do {
        a \<leftarrow> buddy_block blk layer (2 * (idx div 2));
        busy \<leftarrow> (if a then Some True else buddy_block blk layer (2 * (idx div 2) + 1));
        if busy then Some (blk, layer, idx)
        else do {
          blk' \<leftarrow> buddy_block_set blk (layer - 1) (idx div 2) False;
          free_merge blk' (layer - 1) (idx div 2)
        }
      })"

definition buddy_free :: "buddy \<Rightarrow> u32 \<Rightarrow> buddy option" where
  "buddy_free st ptr =
     (if ptr = 0 then Some st
      else if g_buddy_min_block st = 0 then None
      else do {
        let min_block_idx = unat (ptr - BUDDY_ALLOC_VIRADR) div g_buddy_min_block st;
        (layer, idx) \<leftarrow> free_find (g_buddy_block st) (g_buddy_layers st - 1) min_block_idx;
        blk \<leftarrow> buddy_block_set (g_buddy_block st) layer idx False;
        (blk', layer', idx') \<leftarrow> free_merge blk layer idx;
        let address_size = push_bit (nat (g_buddy_layers st - layer' - 1)) (g_buddy_min_block st);
        tables \<leftarrow> map_pages (\<lambda>a. 0) 0 address_size (word_of_nat (address_size * idx'))
          (g_buddy_page_tables st);
        Some (st\<lparr>g_buddy_block := blk', g_buddy_page_tables := tables\<rparr>)
      })"

section \<open>Initialisation\<close>

record memory_block =
  mb_begin :: u64
  mb_length :: u64
  mb_type :: u32
  mb_acpi :: u32

definition MEMORY_BLOCK_TYPE_USABLE :: u32 where "MEMORY_BLOCK_TYPE_USABLE = 1"

text \<open>The first loop: the first largest usable block, its length read as an \<open>int\<close>.\<close>

fun pick_block :: "memory_block list \<Rightarrow> int \<Rightarrow> memory_block option \<Rightarrow> int \<times> memory_block option" where
  "pick_block [] max_size best = (max_size, best)"
| "pick_block (b # bs) max_size best =
     (if mb_type b \<noteq> MEMORY_BLOCK_TYPE_USABLE then pick_block bs max_size best
      else let sz = sint (ucast (mb_length b) :: u32) in
        if max_size < sz then pick_block bs sz (Some b) else pick_block bs max_size best)"

fun count_layers :: "nat \<Rightarrow> nat" where
  "count_layers max_size = (if max_size = 0 then 0 else Suc (count_layers (max_size div 2)))"

declare count_layers.simps [simp del]

text \<open>
  The loop that enters the allocator's page tables into the page directory (from entry
  512 on) and into the identity map \<open>table0\<close>; \<open>tables_addr\<close> is the address the linker
  gives to \<open>g_buddy_page_tables\<close>.
\<close>

function init_tables ::
    "u32 \<Rightarrow> (u32 \<Rightarrow> u32) \<Rightarrow> nat \<Rightarrow> nat \<Rightarrow> nat \<Rightarrow> u32 list \<Rightarrow> u32 list \<Rightarrow> (u32 list \<times> u32 list) option"
where
  "init_tables tables_addr mem max_block i index dir table0 =
     (if i < max_block then do {
        table_phys \<leftarrow> hal_physical_addr dir mem (tables_addr + 4 * word_of_nat (index * 1024));
        dir' \<leftarrow> hal_set_page_table dir table_phys (512 + int index) False;
        table0' \<leftarrow> hal_set_page_table_entry table0 0 (int (unat (drop_bit 12 table_phys AND 0x3FF)))
          table_phys False False;
        init_tables tables_addr mem max_block (i + TOTAL_PAGE_MAPPABLE_SIZE) (index + 1) dir' table0'
      } else Some (dir, table0))"
  by pat_completeness auto
termination
  by (relation "measure (\<lambda>(a, m, n, i, k, d, t). n - i)")
    (auto simp: TOTAL_PAGE_MAPPABLE_SIZE_def)

declare init_tables.simps [simp del]

definition buddy_init ::
    "memory_block list \<Rightarrow> u32 \<Rightarrow> (u32 \<Rightarrow> u32) \<Rightarrow> u32 list \<Rightarrow> u32 list \<Rightarrow> buddy \<Rightarrow>
     (buddy \<times> u32 list \<times> u32 list \<times> nat) option"
where
  "buddy_init mblocks tables_addr mem dir table0 st =
     (case pick_block mblocks 0 None of
        (_, None) \<Rightarrow> Some (st, dir, table0, 0)
      | (max_size, Some b) \<Rightarrow> do {
          let layers = int (count_layers (nat max_size div 2));
          let max_block = push_bit (nat layers) 1 div 2;
          let min_block = drop_bit (nat (max 0 (min (layers - 2) (BUDDY_LAYERS - 1)))) max_block;
          let start = ucast (mb_begin b + mb_length b + 1 - word_of_nat max_block) AND 0xFFFFF000;
          (dir', table0') \<leftarrow> init_tables tables_addr mem max_block 0 0 dir table0;
          Some (st\<lparr>g_buddy_max_block := max_block, g_buddy_min_block := min_block,
              g_buddy_layers := min layers BUDDY_LAYERS, g_buddy_start := start\<rparr>,
            dir', table0', max_block)
        })"

end
