(* ===== verification/Allocator.thy ===== *)
theory Allocator
  imports Prelude
begin

text \<open>
  The interface of a block allocator, as its clients in the kernel use it: a request
  returns the new state, the size of the block and its address (0 if there is none), a
  release takes an address back. The clients' lemmas are proved here once, from the laws.
\<close>

locale block_allocator =
  fixes inv :: "'s \<Rightarrow> bool"
    and live :: "'s \<Rightarrow> 'b set"
    and extent :: "'s \<Rightarrow> 'b \<Rightarrow> nat set"
    and addr :: "'s \<Rightarrow> 'b \<Rightarrow> u32"
    and alloc :: "'s \<Rightarrow> u32 \<Rightarrow> ('s \<times> nat \<times> u32) option"
    and release :: "'s \<Rightarrow> u32 \<Rightarrow> 's option"
  assumes alloc_returns: "inv s \<Longrightarrow> \<exists>s' sz p. alloc s n = Some (s', sz, p)"
    and alloc_gives: "inv s \<Longrightarrow> alloc s n = Some (s', sz, p) \<Longrightarrow> p \<noteq> 0 \<Longrightarrow>
      inv s' \<and> unat n \<le> sz \<and> unat p + sz \<le> 2 ^ 32 \<and>
      (\<exists>b. b \<notin> live s \<and> live s' = insert b (live s) \<and> p = addr s b \<and>
        extent s b = {unat p ..< unat p + sz})"
    and alloc_keeps: "inv s \<Longrightarrow> alloc s n = Some (s', sz, p) \<Longrightarrow> extent s' = extent s \<and> addr s' = addr s"
    and alloc_fails: "inv s \<Longrightarrow> alloc s n = Some (s', sz, 0) \<Longrightarrow> s' = s \<and> sz = 0"
    and live_disjoint: "inv s \<Longrightarrow> b \<in> live s \<Longrightarrow> c \<in> live s \<Longrightarrow> b \<noteq> c \<Longrightarrow>
      extent s b \<inter> extent s c = {}"
    and release_works: "inv s \<Longrightarrow> b \<in> live s \<Longrightarrow> live s \<noteq> {b} \<Longrightarrow>
      \<exists>s'. release s (addr s b) = Some s' \<and> inv s' \<and> live s' = live s - {b} \<and>
        extent s' = extent s \<and> addr s' = addr s"
begin

lemma alloc_inv: "inv s \<Longrightarrow> alloc s n = Some (s', sz, p) \<Longrightarrow> inv s'"
  using alloc_gives [of s n s' sz p] alloc_fails [of s n s' sz] by (cases "p = 0") auto

text \<open>A new block shares no byte with a block that is live.\<close>

lemma alloc_extent_fresh:
  assumes "inv s" "alloc s n = Some (s', sz, p)" "p \<noteq> 0" "c \<in> live s"
  shows "{unat p ..< unat p + sz} \<inter> extent s c = {}"
proof -
  obtain b where b: "inv s'" "b \<notin> live s" "live s' = insert b (live s)"
    "extent s b = {unat p ..< unat p + sz}"
    using alloc_gives [OF assms(1-3)] by blast
  have "extent s' b \<inter> extent s' c = {}"
    by (rule live_disjoint) (use b assms(4) in auto)
  then show ?thesis using alloc_keeps [OF assms(1,2)] b(4) by simp
qed

text \<open>Two requests in a row get disjoint blocks.\<close>

lemma alloc_alloc_disjoint:
  assumes "inv s" "alloc s n = Some (s', sz, p)" "p \<noteq> 0"
    and "alloc s' n' = Some (s'', sz', p')" "p' \<noteq> 0"
  shows "{unat p ..< unat p + sz} \<inter> {unat p' ..< unat p' + sz'} = {}"
proof -
  obtain b where b: "inv s'" "b \<in> live s'" "extent s b = {unat p ..< unat p + sz}"
    using alloc_gives [OF assms(1-3)] by blast
  have "{unat p' ..< unat p' + sz'} \<inter> extent s' b = {}"
    by (rule alloc_extent_fresh [OF b(1) assms(4,5) b(2)])
  then show ?thesis using alloc_keeps [OF assms(1,2)] b(3) by auto
qed

text \<open>A block released right after it was given out leaves the live blocks as they were.\<close>

lemma alloc_release_live:
  assumes "inv s" "live s \<noteq> {}" "alloc s n = Some (s', sz, p)" "p \<noteq> 0"
  shows "\<exists>s''. release s' p = Some s'' \<and> inv s'' \<and> live s'' = live s"
proof -
  obtain b where b: "inv s'" "b \<notin> live s" "live s' = insert b (live s)" "p = addr s b"
    using alloc_gives [OF assms(1,3,4)] by blast
  have "live s' \<noteq> {b}" using b(2,3) assms(2) by auto
  then obtain s'' where "release s' (addr s' b) = Some s''" "inv s''" "live s'' = live s' - {b}"
    using release_works [OF b(1), of b] b(3) by auto
  then show ?thesis using b alloc_keeps [OF assms(1,3)] by auto
qed

end

end
