(* ===== verification/BuddyCorrect.thy ===== *)
theory BuddyCorrect
  imports Buddy Allocator
begin

text \<open>
  Correctness of the buddy allocator: the search and the merge loop refine the two
  operations of the abstract tree (theory \<open>BuddyTree\<close>), and the allocator as a whole
  implements a set of pairwise disjoint blocks.
\<close>

section \<open>What the loops do to a bitmap\<close>

text \<open>A bitmap stands for a tree with \<open>L\<close> layers.\<close>

definition stands_for :: "nat \<Rightarrow> u8 list \<Rightarrow> tree \<Rightarrow> bool" where
  "stands_for L blk T \<longleftrightarrow> L \<le> 14 \<and> length blk = BUDDY_ARRAY_SIZE \<and> tree_eq L (tree_of blk) T"

named_theorems buddy_step "one step of the allocator's loops on the tree"

lemma stands_for_block [buddy_step]:
  "stands_for L blk T \<Longrightarrow> l < L \<Longrightarrow> i < 2 ^ l \<Longrightarrow> buddy_block blk (int l) i = Some (T l i)"
  using buddy_block_tree [of l i blk] by (simp add: stands_for_def tree_eq_def)

lemma stands_for_set:
  assumes s: "stands_for L blk T" and l: "l < L" "i < 2 ^ l"
  obtains blk' where "buddy_block_set blk (int l) i v = Some blk'" "stands_for L blk' (upd T l i v)"
proof -
  have "l < 14" "length blk = BUDDY_ARRAY_SIZE" using s l by (simp_all add: stands_for_def)
  from buddy_block_set_tree [OF this(1) l(2) this(2), of v] obtain blk' where b:
    "buddy_block_set blk (int l) i v = Some blk'" "length blk' = BUDDY_ARRAY_SIZE"
    "\<And>l' i'. l' < 14 \<Longrightarrow> i' < 2 ^ l' \<Longrightarrow> tree_of blk' l' i' = upd (tree_of blk) l i v l' i'"
    by metis
  have "stands_for L blk' (upd T l i v)"
    using s b(2,3) by (auto simp: stands_for_def tree_eq_def upd_apply)
  with b(1) show ?thesis by (rule that)
qed

subsection \<open>Fitting the layer\<close>

lemma fit_layer_level:
  assumes "0 < mn" "sz \<le> mn * 2 ^ n"
  shows "\<exists>k \<le> n. fit_layer sz mn layer = Some (mn * 2 ^ k, layer - int k) \<and> sz \<le> mn * 2 ^ k \<and>
    (0 < k \<longrightarrow> mn * 2 ^ (k - 1) < sz)"
  using assms
proof (induction n arbitrary: mn layer)
  case 0
  then show ?case by (simp add: fit_layer.simps)
next
  case (Suc n)
  show ?case
  proof (cases "mn < sz")
    case False
    then show ?thesis by (intro exI [of _ 0]) (simp add: fit_layer.simps)
  next
    case True
    obtain k where k: "k \<le> n" "fit_layer sz (2 * mn) (layer - 1) = Some (2 * mn * 2 ^ k, layer - 1 - int k)"
      "sz \<le> 2 * mn * 2 ^ k" "0 < k \<longrightarrow> 2 * mn * 2 ^ (k - 1) < sz"
      using Suc.IH [of "2 * mn" "layer - 1"] Suc.prems by auto
    have "fit_layer sz mn layer = Some (mn * 2 ^ Suc k, layer - int (Suc k))"
      using True k(2) by (subst fit_layer.simps) (simp add: mult.commute)
    moreover have "mn * 2 ^ (Suc k - 1) < sz"
      using k(4) True by (cases k) (auto simp: mult.commute mult.left_commute)
    ultimately show ?thesis using k(1,3) by (intro exI [of _ "Suc k"]) (simp add: mult.commute mult.left_commute)
  qed
qed

subsection \<open>Moving deeper\<close>

text \<open>What the source does with a clear block: mark it, and stop or search below it.\<close>

definition take_block :: "int \<Rightarrow> u8 list \<Rightarrow> int \<Rightarrow> nat \<Rightarrow> search option" where
  "take_block min_layer blk layer i = do {
     blk' \<leftarrow> buddy_block_set blk layer i True;
     if layer = min_layer then Some (Found blk' layer i)
     else alloc_scan min_layer blk' (layer + 1) (push_bit 1 i) False True
   }"

lemma scan_inner:
  "alloc_scan m blk layer idx su False =
    (if idx < push_bit (nat layer) 1 then do {
       v \<leftarrow> alloc_visit blk layer idx su;
       (case v of Skip i \<Rightarrow> alloc_scan m blk layer (i + 2) su False | Take i \<Rightarrow> take_block m blk layer i)
     } else alloc_scan m blk (layer - 1) 0 su True)"
  by (subst alloc_scan.simps) (simp add: take_block_def [abs_def])

lemma scan_label:
  assumes s: "stands_for L blk T" and l: "l < L" "2 \<le> L"
  shows "alloc_scan m blk (int l) idx su True =
    (if l \<le> 1 \<and> T 1 0 \<and> T 1 1 then Some (Ret0 blk) else alloc_scan m blk (int l) idx su False)"
  using stands_for_block [OF s, of 1 0] stands_for_block [OF s, of 1 1] l
  by (subst alloc_scan.simps) auto

lemma visit_down:
  assumes s: "stands_for L blk T" and l: "Suc l < L" "i < 2 ^ l"
    and t: "T l i" "\<not> T (Suc l) (2 * i)"
  shows "alloc_visit blk (int (Suc l)) (2 * i) False = Some (Take (2 * i))"
  using stands_for_block [OF s, of l i] stands_for_block [OF s, of "Suc l" "2 * i"] l t
  by (simp add: alloc_visit_def alloc_test_def)

lemma take_block_path:
  assumes "stands_for L blk T" "l + n < L" "2 \<le> L" "i < 2 ^ l"
    and "\<And>l' i'. l \<le> l' \<Longrightarrow> l' < L \<Longrightarrow> i' < 2 ^ l' \<Longrightarrow> i' div 2 ^ (l' - l) = i \<Longrightarrow> \<not> T l' i'"
  shows "\<exists>blk'. take_block (int (l + n)) blk (int l) i = Some (Found blk' (int (l + n)) (i * 2 ^ n)) \<and>
    stands_for L blk' (mark_path T l i n)"
  using assms
proof (induction n arbitrary: blk T l i)
  case 0
  then obtain blk' where "buddy_block_set blk (int l) i True = Some blk'" "stands_for L blk' (upd T l i True)"
    using stands_for_set [of L blk T l i True] by auto
  then show ?case by (simp add: take_block_def)
next
  case (Suc n)
  obtain blk' where b: "buddy_block_set blk (int l) i True = Some blk'" "stands_for L blk' (upd T l i True)"
    using Suc.prems stands_for_set [of L blk T l i True] by auto
  let ?T = "upd T l i True"
  have below: "\<not> ?T l' i'" if "Suc l \<le> l'" "l' < L" "i' < 2 ^ l'" "i' div 2 ^ (l' - Suc l) = 2 * i" for l' i'
  proof -
    have "i' div 2 ^ (l' - l) = i"
      using that(1,4) by (metis Suc_diff_le diff_Suc_Suc div_mult2_eq nonzero_mult_div_cancel_left
          power_Suc2 zero_neq_numeral)
    then show ?thesis using Suc.prems(5) that by (simp add: upd_apply)
  qed
  have c: "\<not> ?T (Suc l) (2 * i)"
    using below [of "Suc l" "2 * i"] Suc.prems(2,4) by simp
  have ih: "\<exists>blk''. take_block (int (Suc l + n)) blk' (int (Suc l)) (2 * i)
      = Some (Found blk'' (int (Suc l + n)) (2 * i * 2 ^ n)) \<and>
    stands_for L blk'' (mark_path ?T (Suc l) (2 * i) n)"
    by (rule Suc.IH [OF b(2)]) (use Suc.prems below in auto)
  have "\<not> (Suc l \<le> 1 \<and> ?T 1 0 \<and> ?T 1 1)"
    using c Suc.prems(4) by auto
  then have "alloc_scan (int (l + Suc n)) blk' (int (Suc l)) (2 * i) False True =
      alloc_scan (int (l + Suc n)) blk' (int (Suc l)) (2 * i) False False"
    using scan_label [OF b(2), of "Suc l" "int (l + Suc n)" "2 * i" False] Suc.prems(2,3)
    by (simp only: if_False)
  then have "take_block (int (l + Suc n)) blk (int l) i =
      alloc_scan (int (l + Suc n)) blk' (int (Suc l)) (2 * i) False False"
    using b by (simp add: take_block_def add.commute mult.commute)
  also have "\<dots> = take_block (int (Suc l + n)) blk' (int (Suc l)) (2 * i)"
    using visit_down [OF b(2), of l i] c Suc.prems(2,4)
    by (subst scan_inner) (simp add: upd_apply push_bit_eq_mult nat_add_distrib)
  finally show ?case using ih by (simp add: ac_simps)
qed

lemma take_candidate:
  assumes s: "stands_for L blk T" and wf: "wf_tree L T" and c: "candidate T f i"
    and n: "f \<le> m" "m < L" "2 \<le> L"
  shows "\<exists>blk'. take_block (int m) blk (int f) i = Some (Found blk' (int m) (i * 2 ^ (m - f))) \<and>
    stands_for L blk' (mark_path T f i (m - f))"
proof -
  have i: "i < 2 ^ f" "\<not> T f i" using c by (auto simp: candidate_def)
  have "\<exists>blk'. take_block (int (f + (m - f))) blk (int f) i =
      Some (Found blk' (int (f + (m - f))) (i * 2 ^ (m - f))) \<and>
    stands_for L blk' (mark_path T f i (m - f))"
  proof (rule take_block_path [OF s])
    show "\<not> T l' i'" if "f \<le> l'" "l' < L" "i' < 2 ^ l'" "i' div 2 ^ (l' - f) = i" for l' i'
      using clear_descendants [OF wf i(2,1) that] .
  qed (use n i in auto)
  then show ?thesis using n by simp
qed

subsection \<open>Searching upwards\<close>

lemma visit_up:
  assumes s: "stands_for L blk T" and l: "l < L" "i < 2 ^ l" "even i"
  shows "alloc_visit blk (int l) i True = Some
    (if candidate T l i then Take i
     else if 0 < l \<and> candidate T l (Suc i) then Take (Suc i) else Skip i)"
proof (cases l)
  case 0
  then show ?thesis
    using stands_for_block [OF s, of 0 0] l by (simp add: alloc_visit_def alloc_test_def candidate_def)
next
  case (Suc k)
  then have i: "Suc i < 2 ^ l" "i div 2 < 2 ^ k" using l by (auto elim!: evenE)
  have [simp]: "buddy_of i = Suc i" "buddy_of (Suc i) = i" "Suc i div 2 = i div 2"
    using l(3) by (auto simp: buddy_of_def)
  show ?thesis
    using stands_for_block [OF s, of k "i div 2"] stands_for_block [OF s, of l i]
      stands_for_block [OF s, of l "Suc i"] Suc i l
    by (auto simp: alloc_visit_def alloc_test_def candidate_def)
qed

text \<open>
  The outcome of the search from some point on: a candidate above the wanted layer and its
  marked path, or no candidate in what remains to be searched.
\<close>

definition scan_result :: "nat \<Rightarrow> nat \<Rightarrow> u8 list \<Rightarrow> tree \<Rightarrow> nat \<Rightarrow> nat \<Rightarrow> search option \<Rightarrow> bool" where
  "scan_result L m blk T l idx r \<longleftrightarrow>
     (\<exists>f j blk'. r = Some (Found blk' (int m) (j * 2 ^ (m - f))) \<and> f \<le> l \<and> candidate T f j \<and>
        stands_for L blk' (mark_path T f j (m - f))) \<or>
     ((r = Some (Exhausted blk) \<or> r = Some (Ret0 blk)) \<and>
        (\<forall>i \<ge> idx. \<not> candidate T l i) \<and> (\<forall>f < l. \<forall>i. \<not> candidate T f i))"

lemma scan_result_skip:
  assumes "scan_result L m blk T l (idx + 2) r" "\<not> candidate T l idx" "\<not> candidate T l (Suc idx)"
  shows "scan_result L m blk T l idx r"
proof -
  have "i = idx \<or> i = Suc idx \<or> idx + 2 \<le> i" if "idx \<le> i" for i using that by arith
  then show ?thesis using assms unfolding scan_result_def by metis
qed

lemma scan_result_up:
  assumes "scan_result L m blk T l 0 r" "2 ^ Suc l \<le> idx"
  shows "scan_result L m blk T (Suc l) idx r"
proof -
  have "\<not> candidate T (Suc l) i" if "idx \<le> i" for i
    using that assms(2) by (auto simp: candidate_def)
  then show ?thesis using assms(1) unfolding scan_result_def by (metis le_SucI less_SucE zero_le)
qed

lemma scan_inner_result:
  assumes s: "stands_for L blk T" and wf: "wf_tree L T" and l: "l \<le> m" "m < L" "2 \<le> L"
    and up: "2 ^ l \<le> idx \<or> even idx"
    and next_layer: "\<And>idx. 2 ^ l \<le> idx \<Longrightarrow>
      scan_result L m blk T l idx (alloc_scan (int m) blk (int l - 1) 0 True True)"
  shows "scan_result L m blk T l idx (alloc_scan (int m) blk (int l) idx True False)"
  using up
proof (induction "2 ^ l - idx" arbitrary: idx rule: less_induct)
  case less
  have taken: "scan_result L m blk T l idx (take_block (int m) blk (int l) i)"
    if "candidate T l i" for i
    using take_candidate [OF s wf that l] that by (auto simp: scan_result_def)
  show ?case
  proof (cases "idx < 2 ^ l")
    case False
    then show ?thesis using next_layer by (subst scan_inner) simp
  next
    case True
    then have ev: "even idx" using less.prems by simp
    have v: "alloc_visit blk (int l) idx True = Some
      (if candidate T l idx then Take idx
       else if 0 < l \<and> candidate T l (Suc idx) then Take (Suc idx) else Skip idx)"
      by (rule visit_up [OF s _ True ev]) (use l in simp)
    show ?thesis
    proof (cases "candidate T l idx \<or> (0 < l \<and> candidate T l (Suc idx))")
      case c: True
      then show ?thesis using taken v True by (subst scan_inner) auto
    next
      case False
      have "scan_result L m blk T l (idx + 2) (alloc_scan (int m) blk (int l) (idx + 2) True False)"
        by (rule less.hyps) (use True ev in auto)
      moreover have "\<not> candidate T l (Suc idx)"
        using False by (cases l) (auto simp: candidate_def)
      ultimately have "scan_result L m blk T l idx (alloc_scan (int m) blk (int l) (idx + 2) True False)"
        using False scan_result_skip by blast
      then show ?thesis using v True False by (subst scan_inner) auto
    qed
  qed
qed

lemma scan_label_result:
  assumes s: "stands_for L blk T" and wf: "wf_tree L T" and l: "l \<le> m" "m < L" "2 \<le> L"
  shows "scan_result L m blk T l 0 (alloc_scan (int m) blk (int l) 0 True True)"
  using l(1)
proof (induction l)
  case 0
  have "scan_result L m blk T 0 0 (alloc_scan (int m) blk (int 0) 0 True False)"
  proof (rule scan_inner_result [OF s wf _ l(2,3)])
    have "alloc_scan (int m) blk (int 0 - 1) 0 True True = Some (Exhausted blk)"
      by (subst alloc_scan.simps) simp
    then show "scan_result L m blk T 0 idx (alloc_scan (int m) blk (int 0 - 1) 0 True True)"
      if "2 ^ 0 \<le> idx" for idx
      using that by (auto simp: scan_result_def candidate_def)
  qed auto
  moreover have "T 0 0" if "T 1 0" using wf_tree_parent [OF wf, of 0 0] that l(3) by simp
  then have "scan_result L m blk T 0 0 (Some (Ret0 blk))" if "T 1 0"
    using that by (auto simp: scan_result_def candidate_def)
  ultimately show ?case
    using scan_label [OF s, of 0 "int m" 0 True] l by auto
next
  case (Suc l)
  have "scan_result L m blk T (Suc l) 0 (alloc_scan (int m) blk (int (Suc l)) 0 True False)"
  proof (rule scan_inner_result [OF s wf Suc.prems l(2,3)])
    show "scan_result L m blk T (Suc l) idx (alloc_scan (int m) blk (int (Suc l) - 1) 0 True True)"
      if "2 ^ Suc l \<le> idx" for idx
      using scan_result_up [OF _ that] Suc by simp
  qed auto
  moreover have "scan_result L m blk T (Suc l) 0 (Some (Ret0 blk))" if "l = 0" "T 1 0" "T 1 1"
  proof -
    have "T 0 0" using wf_tree_parent [OF wf, of 0 0] that l(3) by simp
    moreover have "\<not> candidate T 1 i" for i using that less_2_cases [of i] by (auto simp: candidate_def)
    ultimately show ?thesis using that(1) by (auto simp: scan_result_def candidate_def)
  qed
  ultimately show ?case
    using scan_label [OF s, of "Suc l" "int m" 0 True] l(2,3) Suc.prems by auto
qed

subsection \<open>Finding and merging on release\<close>

lemma leaf_below_clear:
  assumes wf: "wf_tree L T" and x: "leaf L T l i"
    and u: "l < l'" "l' < L" "u < 2 ^ l'" "u div 2 ^ (l' - l) = i"
  shows "\<not> T l' u"
proof
  assume t: "T l' u"
  let ?c = "u div 2 ^ (l' - Suc l)"
  have "T (Suc l) ?c"
    using wf_tree_ancestor [OF wf t u(2,3), of "l' - Suc l"] u(1) by simp
  moreover have "?c div 2 = i"
    using u(1,4) by (metis Suc_diff_Suc div_mult2_eq power_Suc2)
  then have "?c = 2 * i \<or> ?c = Suc (2 * i)" by linarith
  ultimately show False using x u(1,2) by (auto simp: leaf_def)
qed

lemma free_find_leaf:
  assumes s: "stands_for L blk T" and wf: "wf_tree L T" and x: "leaf L T l i"
    and u: "l + n < L" "u < 2 ^ (l + n)" "u div 2 ^ n = i"
  shows "free_find blk (int (l + n)) u = Some (int l, i)"
  using u
proof (induction n arbitrary: u)
  case 0
  then show ?case
    using stands_for_block [OF s, of l i] x by (subst free_find.simps) (simp add: leaf_def)
next
  case (Suc n)
  have "\<not> T (l + Suc n) u" by (rule leaf_below_clear [OF wf x]) (use Suc.prems in auto)
  then have "buddy_block blk (int (l + Suc n)) u = Some False"
    using stands_for_block [OF s, of "l + Suc n" u] Suc.prems by simp
  then have "free_find blk (int (l + Suc n)) u = free_find blk (int (l + n)) (u div 2)"
    by (subst free_find.simps) simp
  also have "\<dots> = Some (int l, i)"
    using Suc.prems by (intro Suc.IH) (auto simp: div_mult2_eq)
  finally show ?case .
qed

lemma buddy_block_root_alias: "buddy_block blk 0 1 = buddy_block blk 1 0"
  by (simp add: buddy_block_def buddy_layers_def aread_int_def aread_def)

lemma buddy_block_set_above [simp]: "layer < 0 \<Longrightarrow> buddy_block_set blk layer i v = None"
  by (simp add: buddy_block_set_def)

lemma pair_marks:
  assumes "stands_for L blk T" "Suc l < L" "i < 2 ^ Suc l"
  obtains x y where "buddy_block blk (int (Suc l)) (2 * (i div 2)) = Some x"
    "buddy_block blk (int (Suc l)) (2 * (i div 2) + 1) = Some y"
    "(x \<or> y) = (T (Suc l) i \<or> T (Suc l) (buddy_of i))"
proof -
  have "i div 2 < 2 ^ l" using assms(3) by auto
  then have b: "2 * (i div 2) < 2 ^ Suc l" "2 * (i div 2) + 1 < 2 ^ Suc l" by auto
  have "i = 2 * (i div 2) \<and> buddy_of i = 2 * (i div 2) + 1 \<or>
      i = 2 * (i div 2) + 1 \<and> buddy_of i = 2 * (i div 2)"
    by (auto simp: buddy_of_def)
  then have "(T (Suc l) (2 * (i div 2)) \<or> T (Suc l) (2 * (i div 2) + 1)) =
      (T (Suc l) i \<or> T (Suc l) (buddy_of i))" by metis
  then show ?thesis
    using that stands_for_block [OF assms(1,2) b(1)] stands_for_block [OF assms(1,2) b(2)] by blast
qed

lemma free_merge_refines:
  assumes "stands_for L blk T" "merging L B T l i" "2 \<le> L"
  shows "case merge_up T l i of
      None \<Rightarrow> free_merge blk (int l) i = None
    | Some (T', l', i') \<Rightarrow> \<exists>blk'. free_merge blk (int l) i = Some (blk', int l', i') \<and> stands_for L blk' T'"
  using assms(1,2)
proof (induction T l i arbitrary: blk rule: merge_up.induct)
  case (1 T i)
  have c: "\<not> T 0 0" "i = 0" using 1(2) by (auto simp: merging_def)
  then have "\<not> T 1 0"
    using wf_tree_parent [of L T 0 0] 1(2) assms(3) by (auto simp: merging_def)
  then have "buddy_block blk 0 0 = Some False" "buddy_block blk 0 1 = Some False"
    using c stands_for_block [OF 1(1), of 0 0] stands_for_block [OF 1(1), of 1 0] assms(3)
      buddy_block_root_alias [of blk] by auto
  then show ?case using c by (subst free_merge.simps) simp
next
  case (2 T l i)
  have i: "Suc l < L" "i < 2 ^ Suc l" "i div 2 < 2 ^ l" "l < L"
    using "2.prems"(2) by (auto simp: merging_def)
  obtain blk' where b: "buddy_block_set blk (int l) (i div 2) False = Some blk'"
    "stands_for L blk' (upd T l (i div 2) False)"
    using stands_for_set [OF "2.prems"(1) i(4,3)] by metis
  have "free_merge blk (int (Suc l)) i =
    (if T (Suc l) i \<or> T (Suc l) (buddy_of i) then Some (blk, int (Suc l), i)
     else free_merge blk' (int l) (i div 2))"
    by (rule pair_marks [OF "2.prems"(1) i(1,2)], subst free_merge.simps) (use b(1) in auto)
  moreover have "merging L B (upd T l (i div 2) False) l (i div 2)"
    if "\<not> (T (Suc l) i \<or> T (Suc l) (buddy_of i))"
    using that "2.prems"(2) merging_step by blast
  ultimately show ?case using "2.IH" [OF _ b(2)] "2.prems"(1) by (auto simp del: of_nat_Suc split: option.splits prod.splits)
qed

section \<open>Page table entries of a block\<close>

lemma entry_index:
  fixes a :: u32
  shows "int (unat (push_bit 10 (drop_bit 22 a))) + int (unat (drop_bit 12 a AND 0x3FF)) = int (unat a div 4096)"
proof -
  have a: "unat a < 4294967296" using unsigned_less [of a] by simp
  have "(drop_bit 12 a AND 0x3FF) = take_bit 10 (drop_bit 12 a)"
    by (simp add: take_bit_eq_mask mask_numeral)
  moreover have "unat (take_bit 10 (drop_bit 12 a)) = unat a div 4096 mod 1024"
    by (simp only: unsigned_take_bit_eq unsigned_drop_bit_eq) (use a in \<open>simp add: take_bit_eq_mod drop_bit_eq_div\<close>)
  ultimately have 1: "unat (drop_bit 12 a AND 0x3FF) = unat a div 4096 mod 1024" by simp
  have d: "unat (drop_bit 22 a) = unat a div 4194304"
    by (simp only: unsigned_drop_bit_eq) (use a in \<open>simp add: take_bit_eq_mod drop_bit_eq_div\<close>)
  have "unat a div 4194304 * 1024 < 4294967296" using a by linarith
  then have "unat (push_bit 10 (drop_bit 22 a)) = unat a div 4194304 * 1024"
    by (simp only: unsigned_push_bit_eq d) (simp add: push_bit_eq_mult take_bit_eq_mod)
  also have "unat a div 4194304 = unat a div 4096 div 1024" by (simp add: div_mult2_eq)
  finally have 2: "unat (push_bit 10 (drop_bit 22 a)) = unat a div 4096 div 1024 * 1024" .
  have "unat a div 4096 div 1024 * 1024 + unat a div 4096 mod 1024 = unat a div 4096"
    by (rule div_mult_mod_eq)
  then show ?thesis unfolding 1 2 by (metis of_nat_add)
qed

definition page_count :: "nat \<Rightarrow> nat" where
  "page_count n = (n + 4095) div 4096"

text \<open>The entry of a kernel page that is present and writable.\<close>

definition kernel_entry :: "u32 \<Rightarrow> u32" where
  "kernel_entry a = (a AND NOT 0xFFF) OR 3"

lemma set_entry_at:
  fixes address :: u32
  assumes "unat address div 4096 < length tables"
  shows "hal_set_page_table_entry tables (unat (push_bit 10 (drop_bit 22 address)))
      (int (unat (drop_bit 12 address AND 0x3FF))) v False False
    = Some (tables[unat address div 4096 := kernel_entry v])"
  using assms unfolding hal_page_defs
  using entry_index [of address]
  by (simp add: page_flag_defs kernel_entry_def del: of_nat_div)

lemma map_pages_entries:
  assumes "A + (n - i) \<le> 4096 * length tables" "length tables \<le> 2 ^ 18" "i \<le> n"
  shows "\<exists>tables'. map_pages target i n (word_of_nat A) tables = Some tables' \<and>
    length tables' = length tables \<and>
    (\<forall>p < length tables. tables' ! p =
      (if A div 4096 \<le> p \<and> p < A div 4096 + page_count (n - i)
       then kernel_entry (target (word_of_nat (A + 4096 * (p - A div 4096)))) else tables ! p))"
  using assms
proof (induction "n - i" arbitrary: i A tables rule: less_induct)
  case less
  show ?case
  proof (cases "i < n")
    case False
    then show ?thesis using less.prems by (subst map_pages.simps) (auto simp: page_count_def)
  next
    case True
    let ?a = "word_of_nat A :: u32" and ?q = "A div 4096"
    have A: "A < 2 ^ 32" using True less.prems(1,2) by simp
    then have ua: "unat ?a = A" by (simp add: unat_of_nat take_bit_eq_mod)
    have q: "?q < length tables" using True less.prems(1) by (simp add: less_mult_imp_div_less mult.commute)
    let ?ts = "tables[?q := kernel_entry (target ?a)]"
    have step: "map_pages target i n ?a tables = map_pages target (i + 4096) n (word_of_nat (A + 4096)) ?ts"
      using True set_entry_at [of ?a tables "target ?a"] q
      by (subst map_pages.simps) (simp add: ua add.commute)
    show ?thesis
    proof (cases "i + 4096 \<le> n")
      case False
      then have "page_count (n - i) = 1" using True by (auto simp: page_count_def)
      moreover have "map_pages target (i + 4096) n (word_of_nat (A + 4096)) ?ts = Some ?ts"
        using False by (subst map_pages.simps) simp
      ultimately show ?thesis using step by (auto simp: nth_list_update)
    next
      case le: True
      have pc: "page_count (n - i) = Suc (page_count (n - (i + 4096)))"
        using le by (simp add: page_count_def)
      have prem: "A + 4096 + (n - (i + 4096)) \<le> 4096 * length ?ts"
        using less.prems(1) le by simp
      have dec: "n - (i + 4096) < n - i" using le by arith
      obtain tables' where t: "map_pages target (i + 4096) n (word_of_nat (A + 4096)) ?ts = Some tables'"
        "length tables' = length ?ts"
        "\<forall>p < length ?ts. tables' ! p =
          (if (A + 4096) div 4096 \<le> p \<and> p < (A + 4096) div 4096 + page_count (n - (i + 4096))
           then kernel_entry (target (word_of_nat (A + 4096 + 4096 * (p - (A + 4096) div 4096)))) else ?ts ! p)"
        using less.hyps [of "i + 4096" "A + 4096" ?ts] prem dec less.prems(2) le by auto
      have q1: "(A + 4096) div 4096 = Suc ?q" by simp
      have e: "A + 4096 + 4096 * (p - Suc ?q) = A + 4096 * (p - ?q)" if "Suc ?q \<le> p" for p
      proof -
        have "p - ?q = Suc (p - Suc ?q)" using that by simp
        then show ?thesis by simp
      qed
      have "tables' ! p = (if ?q \<le> p \<and> p < ?q + page_count (n - i)
          then kernel_entry (target (word_of_nat (A + 4096 * (p - ?q)))) else tables ! p)"
        if p: "p < length tables" for p
      proof (cases "Suc ?q \<le> p")
        case True
        then show ?thesis using t(3) [rule_format, of p] p unfolding q1 pc e [OF True] by simp
      next
        case False
        then show ?thesis using t(3) p unfolding q1 pc by (cases "p = ?q") auto
      qed
      then show ?thesis using step t(1,2) by auto
    qed
  qed
qed

section \<open>The allocator's state and its invariant\<close>

definition num_layers :: "buddy \<Rightarrow> nat" where
  "num_layers st = nat (g_buddy_layers st)"

text \<open>The size in bytes of a block of layer \<open>l\<close>, its offset in the heap and its address.\<close>

definition layer_size :: "buddy \<Rightarrow> nat \<Rightarrow> nat" where
  "layer_size st l = g_buddy_min_block st * 2 ^ (num_layers st - 1 - l)"

definition block_offset :: "buddy \<Rightarrow> block_id \<Rightarrow> nat" where
  "block_offset st b = (case b of (l, i) \<Rightarrow> i * layer_size st l)"

definition block_addr :: "buddy \<Rightarrow> block_id \<Rightarrow> u32" where
  "block_addr st b = BUDDY_ALLOC_VIRADR + word_of_nat (block_offset st b)"

text \<open>The bytes of a block, as offsets from \<open>BUDDY_ALLOC_VIRADR\<close>.\<close>

definition block_bytes :: "buddy \<Rightarrow> block_id \<Rightarrow> nat set" where
  "block_bytes st b = {block_offset st b ..< block_offset st b + layer_size st (fst b)}"

definition buddy_inv :: "buddy \<Rightarrow> bool" where
  "buddy_inv st \<longleftrightarrow> 2 \<le> g_buddy_layers st \<and> g_buddy_layers st \<le> BUDDY_LAYERS \<and>
     length (g_buddy_block st) = BUDDY_ARRAY_SIZE \<and>
     length (g_buddy_page_tables st) = 1024 * BUDDY_PAGE_TABLES \<and>
     0 < g_buddy_min_block st \<and>
     g_buddy_max_block st = g_buddy_min_block st * 2 ^ (num_layers st - 1) \<and>
     g_buddy_max_block st \<le> 2 ^ 29 \<and>
     wf_tree (num_layers st) (tree_of (g_buddy_block st))"

text \<open>The blocks the allocator has given out.\<close>

definition buddy_blocks :: "buddy \<Rightarrow> block_id set" where
  "buddy_blocks st = blocks (num_layers st) (tree_of (g_buddy_block st))"

text \<open>The layer a request is served from: the smallest block size that holds it.\<close>

definition fits :: "buddy \<Rightarrow> u32 \<Rightarrow> nat \<Rightarrow> bool" where
  "fits st sz m \<longleftrightarrow> m < num_layers st \<and> unat sz \<le> layer_size st m \<and>
     (Suc m < num_layers st \<longrightarrow> layer_size st (Suc m) < unat sz)"

text \<open>The page table entries of a block after mapping it to \<open>target\<close>.\<close>

definition pages_set :: "buddy \<Rightarrow> block_id \<Rightarrow> (u32 \<Rightarrow> u32) \<Rightarrow> u32 list \<Rightarrow> u32 list \<Rightarrow> bool" where
  "pages_set st b target tables tables' \<longleftrightarrow> length tables' = length tables \<and>
     (\<forall>p < length tables. tables' ! p =
       (let q = block_offset st b div 4096 in
        if q \<le> p \<and> p < q + page_count (layer_size st (fst b))
        then kernel_entry (target (word_of_nat (block_offset st b + 4096 * (p - q)))) else tables ! p))"

lemma buddy_invD:
  assumes "buddy_inv st"
  shows "stands_for (num_layers st) (g_buddy_block st) (tree_of (g_buddy_block st))"
    "wf_tree (num_layers st) (tree_of (g_buddy_block st))"
    "2 \<le> num_layers st" "num_layers st \<le> 14" "int (num_layers st) = g_buddy_layers st"
    "0 < g_buddy_min_block st" "g_buddy_max_block st = layer_size st 0"
    "g_buddy_max_block st \<le> 2 ^ 29" "length (g_buddy_page_tables st) = 2 ^ 18"
  using assms
  by (auto simp: buddy_inv_def stands_for_def tree_eq_def num_layers_def layer_size_def buddy_consts)

lemma layer_size_split:
  assumes "l < num_layers st"
  shows "layer_size st 0 = 2 ^ l * layer_size st l"
proof -
  have "num_layers st - 1 = l + (num_layers st - 1 - l)" using assms by simp
  then have "(2::nat) ^ (num_layers st - 1) = 2 ^ l * 2 ^ (num_layers st - 1 - l)"
    by (metis power_add)
  then show ?thesis by (simp add: layer_size_def)
qed

lemma block_end_le_max:
  assumes "l < num_layers st" "i < 2 ^ l"
  shows "block_offset st (l, i) + layer_size st l \<le> layer_size st 0"
proof -
  have "Suc i * layer_size st l \<le> 2 ^ l * layer_size st l"
    using assms(2) by (intro mult_le_mono1) simp
  then show ?thesis using layer_size_split [OF assms(1)] by (simp add: block_offset_def add.commute)
qed

lemma block_bytes_units:
  assumes "x \<in> block_bytes st b"
  shows "x div g_buddy_min_block st \<in> units (num_layers st) b"
proof -
  obtain l i where [simp]: "b = (l, i)" by (cases b)
  let ?m = "g_buddy_min_block st" and ?k = "2 ^ (num_layers st - 1 - l) :: nat"
  have x: "i * ?k * ?m \<le> x" "x < Suc i * ?k * ?m"
    using assms by (auto simp: block_bytes_def block_offset_def layer_size_def ac_simps distrib_left)
  then have "0 < ?m" by (cases "?m = 0") auto
  then show ?thesis
    using x by (simp add: units_def less_eq_div_iff_mult_less_eq div_less_iff_less_mult)
qed

text \<open>Different blocks of one heap share no byte.\<close>

lemma blocks_bytes_disjoint:
  assumes "buddy_inv st" "b \<in> buddy_blocks st" "c \<in> buddy_blocks st" "b \<noteq> c"
  shows "block_bytes st b \<inter> block_bytes st c = {}"
proof -
  have "disjoint_blocks b c"
    using blocks_disjoint [OF buddy_invD(2) [OF assms(1)]] assms(2-4) by (simp add: buddy_blocks_def)
  moreover have "fst b < num_layers st" "fst c < num_layers st"
    using assms(2,3) by (auto simp: buddy_blocks_def blocks_def leaf_def)
  ultimately have "units (num_layers st) b \<inter> units (num_layers st) c = {}"
    by (rule disjoint_blocks_units)
  then show ?thesis using block_bytes_units by blast
qed

lemma fit_layer_fits:
  assumes inv: "buddy_inv st" and sz: "unat sz \<le> g_buddy_max_block st"
  shows "\<exists>m. fits st sz m \<and> fit_layer (unat sz) (g_buddy_min_block st) (g_buddy_layers st - 1) =
    Some (layer_size st m, int m)"
proof -
  let ?n = "num_layers st - 1"
  note d = buddy_invD [OF inv]
  obtain k where k: "k \<le> ?n" "fit_layer (unat sz) (g_buddy_min_block st) (g_buddy_layers st - 1) =
      Some (g_buddy_min_block st * 2 ^ k, g_buddy_layers st - 1 - int k)"
    "unat sz \<le> g_buddy_min_block st * 2 ^ k" "0 < k \<longrightarrow> g_buddy_min_block st * 2 ^ (k - 1) < unat sz"
    using fit_layer_level [OF d(6), of "unat sz" ?n "g_buddy_layers st - 1"] sz d(7)
    by (auto simp: layer_size_def)
  let ?m = "?n - k"
  have e: "?n - ?m = k" "g_buddy_layers st - 1 - int k = int ?m" using k(1) d(3,5) by auto
  have "layer_size st (Suc ?m) < unat sz" if "Suc ?m < num_layers st"
  proof -
    have "0 < k" "?n - Suc ?m = k - 1" using that k(1) by auto
    then show ?thesis using k(4) by (simp add: layer_size_def)
  qed
  then have "fits st sz ?m" using e(1) k(3) d(3) by (simp add: fits_def layer_size_def)
  then show ?thesis using k(2) e by (intro exI [of _ ?m]) (simp add: layer_size_def)
qed

lemma pages_set_map:
  assumes inv: "buddy_inv st" and b: "l < num_layers st" "i < 2 ^ l"
  shows "\<exists>tables'. map_pages target 0 (layer_size st l) (word_of_nat (layer_size st l * i)) (g_buddy_page_tables st)
      = Some tables' \<and> pages_set st (l, i) target (g_buddy_page_tables st) tables'"
proof -
  note d = buddy_invD [OF inv]
  have "layer_size st l * i + (layer_size st l - 0) \<le> 4096 * length (g_buddy_page_tables st)"
    using block_end_le_max [OF b] d(7,8,9) by (simp add: block_offset_def mult.commute)
  from map_pages_entries [OF this, of target] d(9) show ?thesis
    by (auto simp: pages_set_def block_offset_def Let_def mult.commute)
qed

section \<open>Allocation\<close>

text \<open>Every block of the layer overlaps an allocated block: the request cannot be served.\<close>

definition layer_full :: "buddy \<Rightarrow> nat \<Rightarrow> bool" where
  "layer_full st m \<longleftrightarrow> (\<forall>i < 2 ^ m. \<exists>b \<in> buddy_blocks st. \<not> disjoint_blocks b (m, i))"

text \<open>The state after block \<open>b\<close> was given out: what changed and what did not.\<close>

definition gives_block :: "buddy \<Rightarrow> block_id \<Rightarrow> buddy \<Rightarrow> bool" where
  "gives_block st b st' \<longleftrightarrow> buddy_inv st' \<and> b \<notin> buddy_blocks st \<and>
     buddy_blocks st' = insert b (buddy_blocks st) \<and>
     pages_set st b (\<lambda>a. a + g_buddy_start st) (g_buddy_page_tables st) (g_buddy_page_tables st') \<and>
     st' = st\<lparr>g_buddy_block := g_buddy_block st', g_buddy_page_tables := g_buddy_page_tables st'\<rparr>"

lemma no_candidate_full:
  assumes inv: "buddy_inv st" and m: "m < num_layers st"
    and none: "\<And>f i. f \<le> m \<Longrightarrow> \<not> candidate (tree_of (g_buddy_block st)) f i"
  shows "layer_full st m"
  unfolding layer_full_def
proof (intro allI impI)
  let ?T = "tree_of (g_buddy_block st)"
  fix i :: nat assume i: "i < 2 ^ m"
  show "\<exists>b \<in> buddy_blocks st. \<not> disjoint_blocks b (m, i)"
  proof (cases "?T m i")
    case True
    then show ?thesis
      using marked_has_leaf [of ?T m i] m i by (auto simp: buddy_blocks_def disjoint_blocks_def)
  next
    case False
    then show ?thesis
      using free_block_candidate [OF buddy_invD(2) [OF inv] m i False] none
      by (fastforce simp: buddy_blocks_def disjoint_blocks_def)
  qed
qed

lemma root_only_full:
  assumes inv: "buddy_inv st" and t: "tree_of (g_buddy_block st) 0 0"
    "\<not> tree_of (g_buddy_block st) 1 0" "\<not> tree_of (g_buddy_block st) 1 1"
  shows "layer_full st m"
proof -
  have "(0, 0) \<in> buddy_blocks st"
    using t buddy_invD(3) [OF inv] by (auto simp: buddy_blocks_def blocks_def leaf_def)
  moreover have "\<not> disjoint_blocks (0, 0) (m, i)" if "i < 2 ^ m" for i
    using that by (simp add: disjoint_blocks_def covers_def)
  ultimately show ?thesis by (auto simp: layer_full_def)
qed

lemma candidate_gives_block:
  assumes inv: "buddy_inv st" and c: "candidate (tree_of (g_buddy_block st)) f j" and f: "f \<le> m" "m < num_layers st"
    and blk: "stands_for (num_layers st) blk (mark_path (tree_of (g_buddy_block st)) f j (m - f))"
    and ts: "pages_set st (m, j * 2 ^ (m - f)) (\<lambda>a. a + g_buddy_start st) (g_buddy_page_tables st) ts"
  shows "gives_block st (m, j * 2 ^ (m - f)) (st\<lparr>g_buddy_block := blk, g_buddy_page_tables := ts\<rparr>)"
proof -
  let ?T = "tree_of (g_buddy_block st)" and ?T' = "mark_path (tree_of (g_buddy_block st)) f j (m - f)"
  let ?L = "num_layers st" and ?st = "st\<lparr>g_buddy_block := blk, g_buddy_page_tables := ts\<rparr>"
  have n: "f + (m - f) < ?L" using f by simp
  note wf = buddy_invD(2) [OF inv]
  have eq: "tree_eq ?L (tree_of blk) ?T'" using blk by (simp add: stands_for_def)
  have "wf_tree ?L (tree_of blk)" using mark_path_wf [OF wf c n] wf_tree_cong [OF eq] by simp
  then have inv': "buddy_inv ?st"
    using inv blk ts by (simp add: buddy_inv_def stands_for_def pages_set_def num_layers_def)
  have "buddy_blocks ?st = insert (m, j * 2 ^ (m - f)) (buddy_blocks st)"
    using mark_path_blocks [OF wf c n] blocks_cong [OF eq] f by (simp add: buddy_blocks_def num_layers_def)
  moreover have "(m, j * 2 ^ (m - f)) \<notin> buddy_blocks st"
    using candidate_end_fresh [OF wf c n] f by (simp add: buddy_blocks_def)
  ultimately show ?thesis using inv' ts by (simp add: gives_block_def)
qed

text \<open>The whole of \<open>buddy_alloc\<close>: it always returns, and in one of two ways.\<close>

lemma block_size_shift:
  "buddy_inv st \<Longrightarrow> m < num_layers st \<Longrightarrow>
    push_bit (nat (g_buddy_layers st - int m - 1)) (g_buddy_min_block st) = layer_size st m"
  using buddy_invD(3,5) [of st] by (simp add: layer_size_def push_bit_eq_mult num_layers_def nat_diff_distrib')

lemma root_bits:
  "buddy_inv st \<Longrightarrow> buddy_block (g_buddy_block st) 0 0 = Some (tree_of (g_buddy_block st) 0 0)"
  "buddy_inv st \<Longrightarrow> buddy_block (g_buddy_block st) 1 0 = Some (tree_of (g_buddy_block st) 1 0)"
  "buddy_inv st \<Longrightarrow> buddy_block (g_buddy_block st) 1 1 = Some (tree_of (g_buddy_block st) 1 1)"
  using stands_for_block [OF buddy_invD(1) [of st], of 0 0] stands_for_block [OF buddy_invD(1) [of st], of 1 0]
    stands_for_block [OF buddy_invD(1) [of st], of 1 1] buddy_invD(3) [of st] by auto

text \<open>What \<open>buddy_alloc\<close> answers, by what the scan of the tree found.\<close>

lemma buddy_alloc_root_only:
  assumes inv: "buddy_inv st" and sz: "unat sz \<le> g_buddy_max_block st"
    and root: "tree_of (g_buddy_block st) 0 0" "\<not> tree_of (g_buddy_block st) 1 0" "\<not> tree_of (g_buddy_block st) 1 1"
  shows "buddy_alloc st sz = Some (st, 0, 0)"
  using sz root_bits [OF inv] root by (simp add: buddy_alloc_def)

lemma buddy_alloc_found:
  assumes inv: "buddy_inv st" and sz: "unat sz \<le> g_buddy_max_block st" and mL: "m < num_layers st"
    and root: "\<not> (tree_of (g_buddy_block st) 0 0 \<and> \<not> tree_of (g_buddy_block st) 1 0 \<and> \<not> tree_of (g_buddy_block st) 1 1)"
    and fit: "fit_layer (unat sz) (g_buddy_min_block st) (g_buddy_layers st - 1) = Some (layer_size st m, int m)"
    and scan: "alloc_scan (int m) (g_buddy_block st) (int m) 0 True True = Some (Found blk (int m) i)"
    and tables: "map_pages (\<lambda>a. a + g_buddy_start st) 0 (layer_size st m)
        (word_of_nat (layer_size st m * i)) (g_buddy_page_tables st) = Some ts"
  shows "buddy_alloc st sz = Some (st\<lparr>g_buddy_block := blk, g_buddy_page_tables := ts\<rparr>,
    layer_size st m, block_addr st (m, i))"
proof -
  have "word_of_nat (layer_size st m) * word_of_nat i + BUDDY_ALLOC_VIRADR = block_addr st (m, i)"
    by (simp add: block_addr_def block_offset_def mult.commute add.commute)
  then show ?thesis
    using sz root root_bits [OF inv] fit scan tables block_size_shift [OF inv mL]
    by (auto simp: buddy_alloc_def Let_def simp del: of_nat_mult)
qed

lemma buddy_alloc_none:
  assumes inv: "buddy_inv st" and sz: "unat sz \<le> g_buddy_max_block st" and top: "m = 0 \<Longrightarrow> tree_of (g_buddy_block st) 0 0"
    and root: "\<not> (tree_of (g_buddy_block st) 0 0 \<and> \<not> tree_of (g_buddy_block st) 1 0 \<and> \<not> tree_of (g_buddy_block st) 1 1)"
    and fit: "fit_layer (unat sz) (g_buddy_min_block st) (g_buddy_layers st - 1) = Some (layer_size st m, int m)"
    and scan: "alloc_scan (int m) (g_buddy_block st) (int m) 0 True True = Some (Exhausted (g_buddy_block st)) \<or>
      alloc_scan (int m) (g_buddy_block st) (int m) 0 True True = Some (Ret0 (g_buddy_block st))"
  shows "buddy_alloc st sz = Some (st, 0, 0)"
  using sz root root_bits [OF inv] fit scan top by (cases "m = 0") (auto simp: buddy_alloc_def Let_def)

lemma candidate_index:
  assumes "candidate t f j" "f \<le> m"
  shows "j * 2 ^ (m - f) < (2 :: nat) ^ m"
proof -
  have "j * 2 ^ (m - f) < 2 ^ f * (2 :: nat) ^ (m - f)" using assms(1) by (simp add: candidate_def)
  then show ?thesis using assms(2) by (simp flip: power_add)
qed

lemma buddy_alloc_result:
  assumes inv: "buddy_inv st" and sz: "unat sz \<le> g_buddy_max_block st"
  shows "\<exists>m. fits st sz m \<and>
    ((\<exists>i st'. i < 2 ^ m \<and> gives_block st (m, i) st' \<and>
        buddy_alloc st sz = Some (st', layer_size st m, block_addr st (m, i))) \<or>
     (layer_full st m \<and> buddy_alloc st sz = Some (st, 0, 0)))"
proof -
  let ?T = "tree_of (g_buddy_block st)" and ?L = "num_layers st" and ?b = "g_buddy_block st"
  obtain m where m: "fits st sz m" "fit_layer (unat sz) (g_buddy_min_block st) (g_buddy_layers st - 1) =
      Some (layer_size st m, int m)"
    using fit_layer_fits [OF inv sz] by blast
  have mL: "m < ?L" using m(1) by (simp add: fits_def)
  show ?thesis
  proof (cases "?T 0 0 \<and> \<not> ?T 1 0 \<and> \<not> ?T 1 1")
    case True
    then show ?thesis using m(1) buddy_alloc_root_only [OF inv sz] root_only_full [OF inv] by blast
  next
    case root: False
    have "scan_result ?L m ?b ?T m 0 (alloc_scan (int m) ?b (int m) 0 True True)"
      by (rule scan_label_result [OF buddy_invD(1,2) [OF inv] _ mL buddy_invD(3) [OF inv]]) simp
    then consider (found) f j blk where
        "alloc_scan (int m) ?b (int m) 0 True True = Some (Found blk (int m) (j * 2 ^ (m - f)))"
        "f \<le> m" "candidate ?T f j" "stands_for ?L blk (mark_path ?T f j (m - f))"
      | (none) "alloc_scan (int m) ?b (int m) 0 True True = Some (Exhausted ?b) \<or>
          alloc_scan (int m) ?b (int m) 0 True True = Some (Ret0 ?b)"
        "\<And>f i. f \<le> m \<Longrightarrow> \<not> candidate ?T f i"
      unfolding scan_result_def by (metis le_neq_implies_less zero_le)
    then show ?thesis
    proof cases
      case found
      note i = candidate_index [OF found(3,2)]
      obtain ts where ts: "map_pages (\<lambda>a. a + g_buddy_start st) 0 (layer_size st m)
          (word_of_nat (layer_size st m * (j * 2 ^ (m - f)))) (g_buddy_page_tables st) = Some ts"
        "pages_set st (m, j * 2 ^ (m - f)) (\<lambda>a. a + g_buddy_start st) (g_buddy_page_tables st) ts"
        using pages_set_map [OF inv mL i] by blast
      show ?thesis
        using m(1) i candidate_gives_block [OF inv found(3,2) mL found(4) ts(2)]
          buddy_alloc_found [OF inv sz mL root m(2) found(1) ts(1)] by blast
    next
      case none
      have "?T 0 0" if "m = 0" using none(2) [of 0 0] that by (simp add: candidate_def)
      from buddy_alloc_none [OF inv sz this root m(2) none(1)]
      show ?thesis using m(1) no_candidate_full [OF inv mL none(2)] by blast
    qed
  qed
qed

lemma buddy_alloc_too_big: "g_buddy_max_block st < unat sz \<Longrightarrow> buddy_alloc st sz = Some (st, 0, 0)"
  by (simp add: buddy_alloc_def)

section \<open>Release\<close>

text \<open>The state after block \<open>b\<close> was taken back.\<close>

definition takes_block :: "buddy \<Rightarrow> block_id \<Rightarrow> buddy \<Rightarrow> bool" where
  "takes_block st b st' \<longleftrightarrow> buddy_inv st' \<and> buddy_blocks st' = buddy_blocks st - {b} \<and>
     (\<exists>c. covers c b \<and> fst c < num_layers st \<and> (\<forall>x \<in> buddy_blocks st - {b}. disjoint_blocks c x) \<and>
        pages_set st c (\<lambda>a. 0) (g_buddy_page_tables st) (g_buddy_page_tables st')) \<and>
     st' = st\<lparr>g_buddy_block := g_buddy_block st', g_buddy_page_tables := g_buddy_page_tables st'\<rparr>"

lemma block_addr_offset:
  assumes inv: "buddy_inv st" and b: "l < num_layers st" "i < 2 ^ l"
  shows "unat (block_addr st (l, i) - BUDDY_ALLOC_VIRADR) = block_offset st (l, i)"
    and "block_addr st (l, i) \<noteq> 0"
proof -
  note d = buddy_invD [OF inv]
  have "block_offset st (l, i) \<le> 2 ^ 29" using block_end_le_max [OF b] d(7,8) by simp
  then have o: "unat (word_of_nat (block_offset st (l, i)) :: u32) = block_offset st (l, i)"
    by (simp add: unat_of_nat take_bit_eq_mod)
  then show "unat (block_addr st (l, i) - BUDDY_ALLOC_VIRADR) = block_offset st (l, i)"
    by (simp add: block_addr_def)
  show "block_addr st (l, i) \<noteq> 0"
  proof
    assume "block_addr st (l, i) = 0"
    then have "word_of_nat (block_offset st (l, i)) = (0x80000000 :: u32)"
      by (simp add: block_addr_def BUDDY_ALLOC_VIRADR_def add_eq_0_iff)
    then have "unat (word_of_nat (block_offset st (l, i)) :: u32) = 0x80000000" by simp
    with o \<open>block_offset st (l, i) \<le> 2 ^ 29\<close> show False by simp
  qed
qed

lemma block_offset_div:
  assumes "buddy_inv st" "l < num_layers st"
  shows "block_offset st (l, i) div g_buddy_min_block st = i * 2 ^ (num_layers st - 1 - l)"
  using buddy_invD(6) [OF assms(1)] by (simp add: block_offset_def layer_size_def mult.commute mult.left_commute)

text \<open>A node freed by a merge touches no block that stays allocated.\<close>

lemma merged_node_disjoint:
  assumes wf: "wf_tree L T" "wf_tree L T'" and b: "leaf L T l i"
    and T': "blocks L T' = blocks L T - {(l, i)}" "\<not> T' l' i'" "i' < 2 ^ l'" "l' < L"
    and c: "covers (l', i') (l, i)" and x: "x \<in> blocks L T'"
  shows "disjoint_blocks (l', i') x"
proof -
  have "\<not> covers (l', i') x"
    using marked_iff_leaf_below [OF wf(2) T'(4,3)] T'(2) x by blast
  moreover have "\<not> covers x (l', i')"
  proof
    assume "covers x (l', i')"
    then have "covers x (l, i)" using c covers_trans by blast
    moreover have "leaf L T (fst x) (snd x)" "x \<noteq> (l, i)" using x T'(1) by (auto simp: blocks_def)
    ultimately show False using leaf_covers_eq [OF wf(1) _ b] by (cases x) auto
  qed
  ultimately show ?thesis by (simp add: disjoint_blocks_def)
qed

lemma buddy_free_merge:
  assumes inv: "buddy_inv st" and b: "(l, i) \<in> buddy_blocks st"
  shows "case merge_up (upd (tree_of (g_buddy_block st)) l i False) l i of
      None \<Rightarrow> buddy_free st (block_addr st (l, i)) = None
    | Some (T', l', i') \<Rightarrow> \<exists>blk. stands_for (num_layers st) blk T' \<and>
        buddy_free st (block_addr st (l, i)) = do {
          tables \<leftarrow> map_pages (\<lambda>a. 0) 0 (push_bit (nat (g_buddy_layers st - int l' - 1)) (g_buddy_min_block st))
            (word_of_nat (push_bit (nat (g_buddy_layers st - int l' - 1)) (g_buddy_min_block st) * i'))
            (g_buddy_page_tables st);
          Some (st\<lparr>g_buddy_block := blk, g_buddy_page_tables := tables\<rparr>)
        }"
proof -
  let ?T = "tree_of (g_buddy_block st)" and ?L = "num_layers st"
  note d = buddy_invD [OF inv]
  have x: "leaf ?L ?T l i" using b by (simp add: buddy_blocks_def blocks_def)
  then have li: "l < ?L" "i < 2 ^ l" by (auto simp: leaf_def)
  let ?n = "?L - 1 - l" and ?u = "i * 2 ^ (?L - 1 - l)"
  have u: "unat (block_addr st (l, i) - BUDDY_ALLOC_VIRADR) div g_buddy_min_block st = ?u"
    using block_addr_offset(1) [OF inv li] block_offset_div [OF inv li(1)] by simp
  have bot: "int (l + ?n) = g_buddy_layers st - 1" using d(3,5) li(1) by auto
  have find: "free_find (g_buddy_block st) (g_buddy_layers st - 1) ?u = Some (int l, i)"
    unfolding bot [symmetric]
  proof (rule free_find_leaf [OF d(1,2) x])
    show "?u < 2 ^ (l + ?n)" using li(2) by (simp add: power_add)
  qed (use li(1) in auto)
  obtain blk where blk: "buddy_block_set (g_buddy_block st) (int l) i False = Some blk"
    "stands_for ?L blk (upd ?T l i False)"
    using stands_for_set [OF d(1) li] by metis
  have free: "buddy_free st (block_addr st (l, i)) = do {
      (blk', layer', idx') \<leftarrow> free_merge blk (int l) i;
      let address_size = push_bit (nat (g_buddy_layers st - layer' - 1)) (g_buddy_min_block st);
      tables \<leftarrow> map_pages (\<lambda>a. 0) 0 address_size (word_of_nat (address_size * idx'))
        (g_buddy_page_tables st);
      Some (st\<lparr>g_buddy_block := blk', g_buddy_page_tables := tables\<rparr>) }"
    using block_addr_offset(2) [OF inv li] d(6) u find blk(1)
    by (simp add: buddy_free_def Let_def)
  show ?thesis
    using free_merge_refines [OF blk(2) merging_start [OF d(2) x] d(3)] free
    by (auto simp: Let_def split: option.splits prod.splits)
qed

lemma buddy_free_result:
  assumes inv: "buddy_inv st" and b: "b \<in> buddy_blocks st"
  shows "if buddy_blocks st = {b} then buddy_free st (block_addr st b) = None
    else \<exists>st'. buddy_free st (block_addr st b) = Some st' \<and> takes_block st b st'"
proof -
  obtain l i where [simp]: "b = (l, i)" by (cases b)
  let ?T = "tree_of (g_buddy_block st)" and ?L = "num_layers st" and ?B = "buddy_blocks st - {(l, i)}"
  note d = buddy_invD [OF inv]
  have x: "leaf ?L ?T l i" using b by (simp add: buddy_blocks_def blocks_def)
  note free = buddy_free_merge [OF inv, of l i]
  have m: "if ?B = {} then merge_up (upd ?T l i False) l i = None
    else \<exists>T' l' i'. merge_up (upd ?T l i False) l i = Some (T', l', i') \<and> wf_tree ?L T' \<and>
      blocks ?L T' = ?B \<and> l' \<le> l \<and> l' < ?L \<and> i' = i div 2 ^ (l - l') \<and> \<not> T' l' i' \<and> i' < 2 ^ l'"
    unfolding buddy_blocks_def by (rule merge_up_correct [OF merging_start [OF d(2) x]])
  show ?thesis
  proof (cases "buddy_blocks st = {b}")
    case True
    then show ?thesis using m free b by simp
  next
    case False
    then have "?B \<noteq> {}" using b by auto
    then obtain T' l' i' where t: "merge_up (upd ?T l i False) l i = Some (T', l', i')" "wf_tree ?L T'"
      "blocks ?L T' = ?B" "l' \<le> l" "l' < ?L" "i' = i div 2 ^ (l - l')" "\<not> T' l' i'" "i' < 2 ^ l'"
      using m by auto
    have shift: "push_bit (nat (g_buddy_layers st - int l' - 1)) (g_buddy_min_block st) = layer_size st l'"
      using d(3,5) t(5) by (simp add: layer_size_def push_bit_eq_mult num_layers_def nat_diff_distrib')
    obtain ts where ts: "map_pages (\<lambda>a. 0) 0 (layer_size st l') (word_of_nat (layer_size st l' * i'))
        (g_buddy_page_tables st) = Some ts" "pages_set st (l', i') (\<lambda>a. 0) (g_buddy_page_tables st) ts"
      using pages_set_map [OF inv t(5,8)] by blast
    obtain blk where blk: "stands_for ?L blk T'"
      "buddy_free st (block_addr st b) = Some (st\<lparr>g_buddy_block := blk, g_buddy_page_tables := ts\<rparr>)"
      using free b t(1) ts(1) unfolding shift by (auto simp: shift simp del: of_nat_mult)
    have eq: "tree_eq ?L (tree_of blk) T'" using blk(1) by (simp add: stands_for_def)
    let ?st = "st\<lparr>g_buddy_block := blk, g_buddy_page_tables := ts\<rparr>"
    have cov: "covers (l', i') (l, i)" using t(4,6) by (simp add: covers_def)
    have "wf_tree ?L (tree_of blk)" using t(2) wf_tree_cong [OF eq] by simp
    then have "buddy_inv ?st"
      using inv blk(1) ts by (simp add: buddy_inv_def stands_for_def pages_set_def num_layers_def)
    moreover have "buddy_blocks ?st = ?B"
      using t(3) blocks_cong [OF eq] by (simp add: buddy_blocks_def num_layers_def)
    moreover have "disjoint_blocks (l', i') y" if "y \<in> ?B" for y
      using merged_node_disjoint [OF d(2) t(2) x _ t(7,8,5) cov] t(3) that by (simp add: buddy_blocks_def)
    then have "\<exists>c. covers c b \<and> fst c < ?L \<and> (\<forall>x \<in> buddy_blocks st - {b}. disjoint_blocks c x) \<and>
        pages_set st c (\<lambda>a. 0) (g_buddy_page_tables st) (g_buddy_page_tables ?st)"
      using cov t(5) ts(2) by (intro exI [of _ "(l', i')"]) simp
    ultimately have "takes_block st b ?st" by (simp add: takes_block_def)
    then show ?thesis using False blk(2) by auto
  qed
qed

text \<open>What was allocated determines the bitmap, so a release undoes an allocation.\<close>

lemma bitmap_determined:
  assumes "buddy_inv st" "buddy_inv st'" "num_layers st' = num_layers st"
    "buddy_blocks st' = buddy_blocks st"
  shows "tree_eq (num_layers st) (tree_of (g_buddy_block st')) (tree_of (g_buddy_block st))"
  using blocks_eq_tree_eq [OF buddy_invD(2) [OF assms(2)], of "tree_of (g_buddy_block st)"]
    buddy_invD(2) [OF assms(1)] assms(3,4) by (simp add: buddy_blocks_def)

section \<open>Initialisation\<close>

text \<open>The size the source sees in a block: the low 32 bits of its length, as an \<open>int\<close>.\<close>

definition seen_size :: "memory_block \<Rightarrow> int" where
  "seen_size b = sint (ucast (mb_length b) :: u32)"

lemma pick_block_max:
  assumes "pick_block bs n best = (n', best')"
  shows "n \<le> n' \<and> (\<forall>b \<in> set bs. mb_type b = MEMORY_BLOCK_TYPE_USABLE \<longrightarrow> seen_size b \<le> n') \<and>
    (n' = n \<and> best' = best \<or>
     (\<exists>b \<in> set bs. best' = Some b \<and> mb_type b = MEMORY_BLOCK_TYPE_USABLE \<and> seen_size b = n' \<and> n < n'))"
  using assms
proof (induction bs n best rule: pick_block.induct)
  case (2 b bs n best)
  then show ?case by (auto simp: Let_def seen_size_def split: if_splits)
qed auto

lemma seen_size_bound: "seen_size b < 2 ^ 31"
  using sint_lt [of "ucast (mb_length b) :: u32"] by (simp add: seen_size_def)

lemma count_layers_bounds:
  "0 < n \<Longrightarrow> 0 < count_layers n \<and> 2 ^ (count_layers n - 1) \<le> n \<and> n < 2 ^ count_layers n"
proof (induction n rule: less_induct)
  case (less n)
  show ?case
  proof (cases "n div 2 = 0")
    case True
    then have "n = 1" using less.prems by simp
    then show ?thesis by (simp add: count_layers.simps [of "Suc 0"] count_layers.simps [of 0])
  next
    case False
    then obtain k where k: "count_layers (n div 2) = Suc k" "2 ^ k \<le> n div 2" "n div 2 < 2 ^ Suc k"
      using less.IH [of "n div 2"] less.prems by (cases "count_layers (n div 2)") auto
    have "count_layers n = Suc (Suc k)" using less.prems k(1) by (simp add: count_layers.simps [of n])
    moreover have "n < 2 * 2 ^ Suc k" using k(3) by linarith
    ultimately show ?thesis using k(2) by simp
  qed
qed

lemma init_tables_returns:
  assumes "length dir = 1024" "length table0 = 1024" "n \<le> 2 ^ 29" "i = index * TOTAL_PAGE_MAPPABLE_SIZE"
  shows "\<exists>dir' table0'. init_tables a mem n i index dir table0 = Some (dir', table0') \<and>
    length dir' = 1024 \<and> length table0' = 1024"
  using assms
proof (induction a mem n i index dir table0 rule: init_tables.induct)
  case (1 a mem n i index dir table0)
  show ?case
  proof (cases "i < n")
    case False
    then show ?thesis using "1.prems" by (subst init_tables.simps) simp
  next
    case True
    let ?v = "a + 4 * word_of_nat (index * 1024)"
    have "unat (drop_bit 22 ?v) < 1024"
      using unsigned_less [of ?v]
      by (simp only: unsigned_drop_bit_eq) (simp add: drop_bit_eq_div take_bit_eq_mod less_mult_imp_div_less)
    then obtain ph where ph: "hal_physical_addr dir mem ?v = Some ph"
      using "1.prems"(1) by (auto simp: hal_physical_addr_def i686_physical_addr_def Let_def)
    have ix: "index < 128" using True "1.prems"(3,4) by (simp add: TOTAL_PAGE_MAPPABLE_SIZE_def)
    have "512 + int index = int (512 + index)" by simp
    then obtain dir' where dir': "hal_set_page_table dir ph (512 + int index) False = Some dir'" "length dir' = 1024"
      using ix "1.prems"(1) by (auto simp: hal_set_page_table_def i686_page_table_def simp del: of_nat_add)
    have "drop_bit 12 ph AND 0x3FF = take_bit 10 (drop_bit 12 ph)"
      by (simp add: take_bit_eq_mask mask_numeral)
    then have "unat (drop_bit 12 ph AND 0x3FF) < 1024"
      by (simp only: unsigned_take_bit_eq) (simp add: take_bit_eq_mod)
    then obtain t' where t': "hal_set_page_table_entry table0 0 (int (unat (drop_bit 12 ph AND 0x3FF))) ph False False
        = Some t'" "length t' = 1024"
      using "1.prems"(2) by (auto simp: hal_set_page_table_entry_def i686_page_table_entry_def simp del: of_nat_unat)
    have "i + TOTAL_PAGE_MAPPABLE_SIZE = (index + 1) * TOTAL_PAGE_MAPPABLE_SIZE"
      using "1.prems"(4) by simp
    then show ?thesis
      using "1.IH" [OF True ph dir'(1) t'(1) dir'(2) t'(2) "1.prems"(3)] True ph dir'(1) t'(1)
      by (subst init_tables.simps) simp
  qed
qed

lemma tree_of_zero: "\<not> tree_of (replicate n 0) l i" if "node l i div 8 < n"
  using that by (simp add: tree_of_def)

lemma buddy_init_geometry:
  assumes pick: "pick_block mblocks 0 None = (max_size, Some b)" and big: "2 ^ 15 \<le> max_size"
    and len: "length dir = 1024" "length table0 = 1024"
  shows "\<exists>st dir' table0'. buddy_init mblocks a mem dir table0 buddy_bss = Some (st, dir', table0', g_buddy_max_block st) \<and>
    buddy_inv st \<and> buddy_blocks st = {} \<and> num_layers st = 14 \<and>
    int (g_buddy_max_block st) \<le> max_size div 2 \<and> max_size div 2 < 2 * int (g_buddy_max_block st) \<and>
    g_buddy_start st = ucast (mb_begin b + mb_length b + 1 - word_of_nat (g_buddy_max_block st)) AND 0xFFFFF000"
proof -
  define n where "n = nat max_size div 2"
  have "max_size < 2 ^ 31"
    using pick_block_max [OF pick] seen_size_bound by auto
  then have n: "2 ^ 14 \<le> n" "n < 2 ^ 30" "int n = max_size div 2"
    using big unfolding n_def by (simp_all add: zdiv_int)
  obtain k where k: "count_layers n = Suc k" "2 ^ k \<le> n" "n < 2 ^ Suc k"
    using count_layers_bounds [of n] n(1) by (cases "count_layers n") auto
  have "(2::nat) ^ 14 < 2 ^ Suc k" using n(1) k(3) by (rule le_less_trans)
  then have k14: "14 \<le> k" using power_less_imp_less_exp [of "2::nat" 14 "Suc k"] by simp
  have "(2::nat) ^ k < 2 ^ 30" using k(2) n(2) by (rule le_less_trans)
  then have k29: "k \<le> 29" using power_less_imp_less_exp [of "2::nat" k 30] by simp
  have mx: "push_bit (nat (int (Suc k))) 1 div 2 = (2::nat) ^ k"
    by (simp only: nat_int push_bit_eq_mult) simp
  have pk: "(2::nat) ^ k = 2 ^ (k - 13) * 2 ^ 13"
    using power_add [of "2::nat" "k - 13" 13] k14 by simp
  have mn: "drop_bit (nat (max 0 (min (int (Suc k) - 2) (BUDDY_LAYERS - 1)))) (2 ^ k) = (2::nat) ^ (k - 13)"
  proof -
    have "nat (max 0 (min (int (Suc k) - 2) (BUDDY_LAYERS - 1))) = 13" using k14 by (simp add: BUDDY_LAYERS_def)
    then show ?thesis using pk by (simp add: drop_bit_eq_div)
  qed
  have p29: "(2::nat) ^ k \<le> 2 ^ 29" using k29 by (intro power_increasing) auto
  obtain dir' table0' where t: "init_tables a mem (2 ^ k) 0 0 dir table0 = Some (dir', table0')"
    using init_tables_returns [OF len p29, of 0 0 a mem] by auto
  let ?st = "buddy_bss\<lparr>g_buddy_max_block := 2 ^ k, g_buddy_min_block := 2 ^ (k - 13),
      g_buddy_layers := 14,
      g_buddy_start := ucast (mb_begin b + mb_length b + 1 - word_of_nat (2 ^ k)) AND 0xFFFFF000\<rparr>"
  have lay: "min (int (Suc k)) BUDDY_LAYERS = 14" using k14 by (simp add: BUDDY_LAYERS_def)
  have run: "buddy_init mblocks a mem dir table0 buddy_bss = Some (?st, dir', table0', 2 ^ k)"
    unfolding buddy_init_def pick by (simp add: Let_def n_def [symmetric] k(1) mx mn t lay del: of_nat_Suc of_nat_power)
  have clear: "\<not> tree_of (g_buddy_block ?st) l i" if "l < 14" "i < 2 ^ l" for l i
    using tree_of_zero [of l i BUDDY_ARRAY_SIZE] node_less [OF that(2,1)]
    by (simp add: buddy_bss_def BUDDY_ARRAY_SIZE_def)
  have "buddy_inv ?st"
    using pk clear p29 by (auto simp: buddy_inv_def buddy_bss_def buddy_consts num_layers_def wf_tree_def)
  moreover have "buddy_blocks ?st = {}"
    using clear by (auto simp: buddy_blocks_def blocks_def leaf_def num_layers_def)
  moreover have "int (2 ^ k) \<le> max_size div 2"
    using k(2) unfolding n(3) [symmetric] by (simp only: of_nat_le_iff)
  moreover have "n < 2 * 2 ^ k" using k(3) by simp
  then have "int n < int (2 * 2 ^ k)" by (simp only: of_nat_less_iff)
  then have "max_size div 2 < 2 * int (2 ^ k)" unfolding n(3) by simp
  ultimately show ?thesis using run by (intro exI [of _ ?st]) (simp add: num_layers_def)
qed

section \<open>The allocator interface\<close>

text \<open>The addresses of a block, and the laws of \<open>block_allocator\<close> for the buddy allocator.\<close>

definition buddy_extent :: "buddy \<Rightarrow> block_id \<Rightarrow> nat set" where
  "buddy_extent st b = {unat (block_addr st b) ..< unat (block_addr st b) + layer_size st (fst b)}"

lemma unat_block_addr:
  assumes inv: "buddy_inv st" and b: "l < num_layers st" "i < 2 ^ l"
  shows "unat (block_addr st (l, i)) = 0x80000000 + block_offset st (l, i)"
    and "block_offset st (l, i) + layer_size st l \<le> 2 ^ 29"
proof -
  note d = buddy_invD [OF inv]
  show o: "block_offset st (l, i) + layer_size st l \<le> 2 ^ 29"
    using block_end_le_max [OF b] d(7,8) by simp
  then have "unat (word_of_nat (block_offset st (l, i)) :: u32) = block_offset st (l, i)"
    by (simp add: unat_of_nat take_bit_eq_mod)
  then show "unat (block_addr st (l, i)) = 0x80000000 + block_offset st (l, i)"
    using o by (simp add: block_addr_def BUDDY_ALLOC_VIRADR_def unat_word_ariths)
qed

lemma buddy_blocks_range: "(l, i) \<in> buddy_blocks st \<Longrightarrow> l < num_layers st \<and> i < 2 ^ l"
  by (simp add: buddy_blocks_def blocks_def leaf_def)

lemma buddy_extent_disjoint:
  assumes inv: "buddy_inv st" and b: "b \<in> buddy_blocks st" "c \<in> buddy_blocks st" "b \<noteq> c"
  shows "buddy_extent st b \<inter> buddy_extent st c = {}"
proof -
  have e: "buddy_extent st x = (+) 0x80000000 ` block_bytes st x" if x: "x \<in> buddy_blocks st" for x
    using unat_block_addr(1) [OF inv] buddy_blocks_range [of "fst x" "snd x" st] x
    by (cases x) (simp add: buddy_extent_def block_bytes_def ac_simps)
  show ?thesis unfolding e [OF b(1)] e [OF b(2)]
    using blocks_bytes_disjoint [OF inv b] by (auto dest: inj_onD)
qed

text \<open>The geometry of the heap is fixed: only the bitmap and the page tables change.\<close>

lemma heap_frame:
  assumes "st' = st\<lparr>g_buddy_block := blk, g_buddy_page_tables := ts\<rparr>"
  shows "num_layers st' = num_layers st" "layer_size st' = layer_size st"
    "block_offset st' = block_offset st" "block_addr st' = block_addr st"
    "buddy_extent st' = buddy_extent st" "g_buddy_start st' = g_buddy_start st"
    "g_buddy_max_block st' = g_buddy_max_block st"
proof -
  show n: "num_layers st' = num_layers st" using assms by (simp add: num_layers_def)
  show l: "layer_size st' = layer_size st" using assms n by (simp add: layer_size_def fun_eq_iff)
  then show o: "block_offset st' = block_offset st" by (simp add: block_offset_def fun_eq_iff)
  then show a: "block_addr st' = block_addr st" by (simp add: block_addr_def fun_eq_iff)
  then show "buddy_extent st' = buddy_extent st" using l by (simp add: buddy_extent_def fun_eq_iff)
qed (use assms in auto)

lemma buddy_alloc_Some:
  assumes inv: "buddy_inv st" and run: "buddy_alloc st sz = Some (st', bsz, p)"
  shows "(p = 0 \<and> st' = st \<and> bsz = 0) \<or>
    (\<exists>m i. fits st sz m \<and> i < 2 ^ m \<and> gives_block st (m, i) st' \<and> bsz = layer_size st m \<and>
      p = block_addr st (m, i) \<and> p \<noteq> 0)"
proof (cases "g_buddy_max_block st < unat sz")
  case True
  then show ?thesis using run buddy_alloc_too_big [OF True] by simp
next
  case False
  then obtain m where m: "fits st sz m" "(\<exists>i st'. i < 2 ^ m \<and> gives_block st (m, i) st' \<and>
        buddy_alloc st sz = Some (st', layer_size st m, block_addr st (m, i))) \<or>
     (layer_full st m \<and> buddy_alloc st sz = Some (st, 0, 0))"
    using buddy_alloc_result [OF inv, of sz] by auto
  have "block_addr st (m, i) \<noteq> 0" if "i < 2 ^ m" for i
    using block_addr_offset(2) [OF inv _ that] m(1) by (simp add: fits_def)
  then show ?thesis using m run by fastforce
qed

interpretation buddy: block_allocator buddy_inv buddy_blocks buddy_extent block_addr buddy_alloc buddy_free
proof
  fix st :: buddy and n :: u32 assume inv: "buddy_inv st"
  show "\<exists>s' sz p. buddy_alloc st n = Some (s', sz, p)"
    using buddy_alloc_result [OF inv, of n] buddy_alloc_too_big [of st n]
    by (cases "g_buddy_max_block st < unat n") (auto simp: not_less)
next
  fix st :: buddy and n :: u32 and st' sz p
  assume inv: "buddy_inv st" and run: "buddy_alloc st n = Some (st', sz, p)" and p: "p \<noteq> 0"
  obtain m i where b: "fits st n m" "i < 2 ^ m" "gives_block st (m, i) st'" "sz = layer_size st m"
    "p = block_addr st (m, i)"
    using buddy_alloc_Some [OF inv run] p by auto
  have m: "m < num_layers st" "unat n \<le> sz" using b(1,4) by (auto simp: fits_def)
  have "unat p + sz \<le> 2 ^ 32"
    using unat_block_addr [OF inv m(1) b(2)] b(4,5) by simp
  then show "buddy_inv st' \<and> unat n \<le> sz \<and> unat p + sz \<le> 2 ^ 32 \<and>
      (\<exists>b. b \<notin> buddy_blocks st \<and> buddy_blocks st' = insert b (buddy_blocks st) \<and> p = block_addr st b \<and>
        buddy_extent st b = {unat p ..< unat p + sz})"
    using b m(2) by (auto simp: gives_block_def buddy_extent_def)
next
  fix st :: buddy and n :: u32 and st' sz p
  assume inv: "buddy_inv st" and run: "buddy_alloc st n = Some (st', sz, p)"
  have "st' = st\<lparr>g_buddy_block := g_buddy_block st', g_buddy_page_tables := g_buddy_page_tables st'\<rparr>"
    using buddy_alloc_Some [OF inv run] by (auto simp: gives_block_def)
  then show "buddy_extent st' = buddy_extent st \<and> block_addr st' = block_addr st"
    using heap_frame(4,5) by blast
next
  fix st :: buddy and n :: u32 and st' sz
  assume "buddy_inv st" "buddy_alloc st n = Some (st', sz, 0)"
  then show "st' = st \<and> sz = 0" using buddy_alloc_Some [of st n st' sz 0] by auto
next
  fix st :: buddy and b c
  assume "buddy_inv st" "b \<in> buddy_blocks st" "c \<in> buddy_blocks st" "b \<noteq> c"
  then show "buddy_extent st b \<inter> buddy_extent st c = {}" by (rule buddy_extent_disjoint)
next
  fix st :: buddy and b
  assume "buddy_inv st" "b \<in> buddy_blocks st" "buddy_blocks st \<noteq> {b}"
  then obtain st' where st': "buddy_free st (block_addr st b) = Some st'" "takes_block st b st'"
    using buddy_free_result [of st b] by auto
  then have "st' = st\<lparr>g_buddy_block := g_buddy_block st', g_buddy_page_tables := g_buddy_page_tables st'\<rparr>"
    by (simp add: takes_block_def)
  then have "buddy_extent st' = buddy_extent st" "block_addr st' = block_addr st"
    by (rule heap_frame)+
  with st' show "\<exists>s'. buddy_free st (block_addr st b) = Some s' \<and> buddy_inv s' \<and>
      buddy_blocks s' = buddy_blocks st - {b} \<and> buddy_extent s' = buddy_extent st \<and>
      block_addr s' = block_addr st"
    by (auto simp: takes_block_def)
qed

end
