(* ===== verification/BuddyTheorems.thy ===== *)
theory BuddyTheorems
  imports BuddyCorrect
begin

text \<open>
  The properties of the buddy allocator and of the page tables it fills: what an allocation
  and a release do on every branch, what holds in every state the kernel can reach, and
  where the processor finds the bytes of an allocated block.
\<close>

section \<open>Sequences of calls\<close>

text \<open>
  The calls the kernel makes: a request, the release of a block that is allocated, and the
  release of a null pointer.
\<close>

inductive heap_step :: "buddy \<Rightarrow> buddy \<Rightarrow> bool" where
  step_alloc: "buddy_alloc st sz = Some (st', n, p) \<Longrightarrow> heap_step st st'"
| step_free: "b \<in> buddy_blocks st \<Longrightarrow> buddy_free st (block_addr st b) = Some st' \<Longrightarrow> heap_step st st'"
| step_null: "buddy_free st 0 = Some st' \<Longrightarrow> heap_step st st'"

inductive_cases heap_stepE: "heap_step st st'"

lemma buddy_free_null: "buddy_free st 0 = Some st"
  by (simp add: buddy_free_def)

lemma heap_step_inv: "heap_step st st' \<Longrightarrow> buddy_inv st \<Longrightarrow> buddy_inv st'"
proof (erule heap_stepE)
  fix b assume inv: "buddy_inv st" and b: "b \<in> buddy_blocks st" "buddy_free st (block_addr st b) = Some st'"
  show "buddy_inv st'"
    using buddy_free_result [OF inv b(1)] b(2) by (auto simp: takes_block_def split: if_splits)
qed (auto simp: buddy_free_null intro: buddy.alloc_inv)

text \<open>What no call changes: everything but the bitmap and the page tables.\<close>

definition same_heap :: "buddy \<Rightarrow> buddy \<Rightarrow> bool" where
  "same_heap st st' \<longleftrightarrow>
     st' = st\<lparr>g_buddy_block := g_buddy_block st', g_buddy_page_tables := g_buddy_page_tables st'\<rparr>"

lemma same_heap_refl [simp]: "same_heap st st"
  by (simp add: same_heap_def)

lemma same_heap_trans: "same_heap st st' \<Longrightarrow> same_heap st' st'' \<Longrightarrow> same_heap st st''"
  unfolding same_heap_def by (metis buddy.surjective buddy.update_convs(1,6))

lemma same_heapD:
  assumes "same_heap st st'"
  shows "num_layers st' = num_layers st" "layer_size st' = layer_size st"
    "block_offset st' = block_offset st" "block_addr st' = block_addr st"
    "buddy_extent st' = buddy_extent st" "g_buddy_start st' = g_buddy_start st"
    "g_buddy_max_block st' = g_buddy_max_block st"
  using heap_frame [OF assms [unfolded same_heap_def]] by auto

lemma heap_step_frame: "heap_step st st' \<Longrightarrow> buddy_inv st \<Longrightarrow> same_heap st st'"
proof (erule heap_stepE)
  fix sz n p assume "buddy_inv st" "buddy_alloc st sz = Some (st', n, p)"
  then show "same_heap st st'"
    using buddy_alloc_Some [of st sz st' n p] by (auto simp: gives_block_def same_heap_def)
next
  fix b assume inv: "buddy_inv st" and b: "b \<in> buddy_blocks st" "buddy_free st (block_addr st b) = Some st'"
  show "same_heap st st'" using buddy_free_result [OF inv b(1)] b(2)
    by (auto simp: takes_block_def same_heap_def split: if_splits)
qed (auto simp: buddy_free_null)

lemma heap_steps_inv:
  assumes "heap_step\<^sup>*\<^sup>* st st'" "buddy_inv st"
  shows "buddy_inv st' \<and> same_heap st st'"
  using assms
  by (induction rule: rtranclp_induct) (auto dest: heap_step_inv heap_step_frame same_heap_trans)

section \<open>Consequences for a block that was given out\<close>

lemma gives_block_not_full:
  assumes inv: "buddy_inv st" and g: "gives_block st (m, i) st'" and i: "i < 2 ^ m"
  shows "\<not> layer_full st m"
proof
  assume "layer_full st m"
  then obtain b where b: "b \<in> buddy_blocks st" "\<not> disjoint_blocks b (m, i)"
    using i by (auto simp: layer_full_def)
  have st': "buddy_inv st'" "(m, i) \<in> buddy_blocks st'" "b \<in> buddy_blocks st'" "b \<noteq> (m, i)"
    using g b by (auto simp: gives_block_def)
  show False
    using blocks_disjoint [OF buddy_invD(2) [OF st'(1)], of b "(m, i)"] st' b(2)
    by (auto simp: buddy_blocks_def)
qed

text \<open>Small states for examples: two layers over a heap of 8 KiB.\<close>

definition small_heap :: "u8 \<Rightarrow> buddy" where
  "small_heap marks = \<lparr>g_buddy_block = (replicate BUDDY_ARRAY_SIZE 0)[0 := marks], g_buddy_max_block = 8192,
     g_buddy_min_block = 4096, g_buddy_layers = 2, g_buddy_start = 0x100000,
     g_buddy_page_tables = replicate (1024 * BUDDY_PAGE_TABLES) 0\<rparr>"

lemma small_heap_fields [simp]:
  "length (g_buddy_block (small_heap marks)) = BUDDY_ARRAY_SIZE"
  "length (g_buddy_page_tables (small_heap marks)) = 1024 * BUDDY_PAGE_TABLES"
  "g_buddy_layers (small_heap marks) = 2" "num_layers (small_heap marks) = 2"
  "g_buddy_min_block (small_heap marks) = 4096" "g_buddy_max_block (small_heap marks) = 8192"
  "g_buddy_start (small_heap marks) = 0x100000"
  by (simp_all add: small_heap_def num_layers_def)

lemma small_heap_tree:
  "tree_of (g_buddy_block (small_heap marks)) 0 0 = bit marks 0"
  "tree_of (g_buddy_block (small_heap marks)) 1 0 = bit marks 1"
  "tree_of (g_buddy_block (small_heap marks)) 1 1 = bit marks 2"
  by (simp_all add: small_heap_def tree_of_def node_def BUDDY_ARRAY_SIZE_def numeral_2_eq_2)

lemma less_2_nat: "(l :: nat) < 2 \<longleftrightarrow> l = 0 \<or> l = 1"
  by auto

lemma small_heap_inv:
  assumes "bit marks 1 \<or> bit marks 2 \<longrightarrow> bit marks 0"
  shows "buddy_inv (small_heap marks)"
proof -
  have "tree_of (g_buddy_block (small_heap marks)) l (i div 2)"
    if "Suc l < 2" "i < 2 ^ Suc l" "tree_of (g_buddy_block (small_heap marks)) (Suc l) i" for l i
    using that assms small_heap_tree [of marks] by (auto simp: less_2_nat)
  then have "wf_tree 2 (tree_of (g_buddy_block (small_heap marks)))" by (auto simp: wf_tree_def)
  then show ?thesis
    unfolding buddy_inv_def BUDDY_LAYERS_def small_heap_fields by (intro conjI) simp_all
qed

lemma small_heap_blocks:
  "buddy_blocks (small_heap marks) =
    {b. b = (0, 0) \<and> bit marks 0 \<and> \<not> bit marks 1 \<and> \<not> bit marks 2 \<or>
        b = (1, 0) \<and> bit marks 1 \<or> b = (1, 1) \<and> bit marks 2}"
proof -
  have L: "num_layers (small_heap marks) = 2" by simp
  let ?T = "tree_of (g_buddy_block (small_heap marks))"
  have "leaf 2 ?T 0 i \<longleftrightarrow> i = 0 \<and> bit marks 0 \<and> \<not> bit marks 1 \<and> \<not> bit marks 2" for i
    using small_heap_tree [of marks] by (cases "i = 0") (simp_all add: leaf_def)
  moreover have "leaf 2 ?T 1 i \<longleftrightarrow> i = 0 \<and> bit marks 1 \<or> i = 1 \<and> bit marks 2" for i
    using small_heap_tree [of marks] by (cases "i = 0"; cases "i = 1") (simp_all add: leaf_def)
  moreover have "leaf 2 ?T l i \<Longrightarrow> l = 0 \<or> l = 1" for l i
    by (simp add: leaf_def less_2_nat)
  then have "l \<noteq> 0 \<Longrightarrow> l \<noteq> 1 \<Longrightarrow> \<not> leaf 2 ?T l i" for l i by blast
  ultimately have "leaf 2 ?T l i \<longleftrightarrow>
      (l, i) \<in> {b. b = (0, 0) \<and> bit marks 0 \<and> \<not> bit marks 1 \<and> \<not> bit marks 2 \<or>
        b = (1, 0) \<and> bit marks 1 \<or> b = (1, 1) \<and> bit marks 2}" for l i
    by (cases "l = 0"; cases "l = 1") simp_all
  then show ?thesis unfolding buddy_blocks_def blocks_def L by (simp add: set_eq_iff)
qed

lemma small_heap_sizes [simp]:
  "layer_size (small_heap marks) 0 = 8192" "layer_size (small_heap marks) (Suc 0) = 4096"
  by (simp_all add: layer_size_def)

lemma bit_7_marks: "bit (7 :: u8) 0" "bit (7 :: u8) 1" "bit (7 :: u8) 2" "bit (3 :: u8) 0" "bit (3 :: u8) 1"
    "\<not> bit (3 :: u8) 2" "\<not> bit (0 :: u8) n"
  by (simp_all add: bit_numeral_word_iff)

section \<open>Allocation\<close>

text \<open>C1: On a well-formed heap \<open>buddy_alloc\<close> always returns, and on every branch the right
  thing: nothing for a request above the heap size; otherwise the request is rounded to the
  smallest block size that holds it, and a block of that size is refused exactly when every
  block of that size overlaps a live one. A block that is given out was not live, is the only
  block added, and only its page table entries change, to the frames behind it.\<close>

theorem buddy_alloc_correct:
  assumes inv: "buddy_inv st"
  shows "if g_buddy_max_block st < unat sz then buddy_alloc st sz = Some (st, 0, 0)
    else \<exists>m. fits st sz m \<and>
      (if layer_full st m then buddy_alloc st sz = Some (st, 0, 0)
       else \<exists>i st'. i < 2 ^ m \<and> gives_block st (m, i) st' \<and>
         buddy_alloc st sz = Some (st', layer_size st m, block_addr st (m, i)))"
proof (cases "g_buddy_max_block st < unat sz")
  case False
  then obtain m where "fits st sz m" "(\<exists>i st'. i < 2 ^ m \<and> gives_block st (m, i) st' \<and>
        buddy_alloc st sz = Some (st', layer_size st m, block_addr st (m, i))) \<or>
     (layer_full st m \<and> buddy_alloc st sz = Some (st, 0, 0))"
    using buddy_alloc_result [OF inv, of sz] by auto
  then show ?thesis using False gives_block_not_full [OF inv, of m] by (intro if_not_P [THEN iffD2] exI [of _ m]) auto
qed (simp add: buddy_alloc_too_big)

lemma buddy_alloc_correct_witness:
  "\<exists>m. fits (small_heap 0) 4096 m \<and>
    (if layer_full (small_heap 0) m then buddy_alloc (small_heap 0) 4096 = Some (small_heap 0, 0, 0)
     else \<exists>i st'. i < 2 ^ m \<and> gives_block (small_heap 0) (m, i) st' \<and>
       buddy_alloc (small_heap 0) 4096 = Some (st', layer_size (small_heap 0) m, block_addr (small_heap 0) (m, i)))"
  using buddy_alloc_correct [of "small_heap 0" 4096] small_heap_inv [of 0] bit_7_marks by simp

text \<open>C2: In every state that requests and releases reach from a well-formed heap, the heap is
  well-formed, has the geometry it started with, and the address ranges of any two live
  blocks share no byte and lie inside the \<open>g_buddy_max_block\<close> bytes from
  \<open>BUDDY_ALLOC_VIRADR\<close> on.\<close>

theorem reachable_blocks_separate:
  assumes inv: "buddy_inv st" and steps: "heap_step\<^sup>*\<^sup>* st st'"
  shows "buddy_inv st' \<and> same_heap st st' \<and>
    (\<forall>b \<in> buddy_blocks st'. buddy_extent st' b \<subseteq> {0x80000000 ..< 0x80000000 + g_buddy_max_block st}) \<and>
    (\<forall>b \<in> buddy_blocks st'. \<forall>c \<in> buddy_blocks st'. b \<noteq> c \<longrightarrow> buddy_extent st' b \<inter> buddy_extent st' c = {})"
proof -
  have inv': "buddy_inv st'" "same_heap st st'" using heap_steps_inv [OF steps inv] by auto
  have "buddy_extent st' b \<subseteq> {0x80000000 ..< 0x80000000 + g_buddy_max_block st}"
    if b: "b \<in> buddy_blocks st'" for b
  proof -
    obtain l i where [simp]: "b = (l, i)" by (cases b)
    have li: "l < num_layers st'" "i < 2 ^ l" using buddy_blocks_range b by auto
    show ?thesis
      using unat_block_addr(1) [OF inv'(1) li] block_end_le_max [OF li] buddy_invD(7) [OF inv'(1)]
        same_heapD(7) [OF inv'(2)]
      by (auto simp: buddy_extent_def)
  qed
  then show ?thesis using inv' buddy.live_disjoint [OF inv'(1)] by auto
qed

lemma reachable_blocks_separate_witness:
  "buddy_inv (small_heap 7) \<and> same_heap (small_heap 7) (small_heap 7) \<and>
    buddy_extent (small_heap 7) (1, 0) \<inter> buddy_extent (small_heap 7) (1, 1) = {}"
  using reachable_blocks_separate [of "small_heap 7" "small_heap 7"] small_heap_inv [of 7]
    bit_7_marks small_heap_blocks [of 7] by simp

text \<open>Two blocks given out one after the other share no byte, whatever was live before.\<close>

theorem consecutive_allocations_disjoint:
  assumes "buddy_inv st" "buddy_alloc st sz = Some (st', n, p)" "p \<noteq> 0"
    and "buddy_alloc st' sz' = Some (st'', n', p')" "p' \<noteq> 0"
  shows "{unat p ..< unat p + n} \<inter> {unat p' ..< unat p' + n'} = {}"
  by (rule buddy.alloc_alloc_disjoint [OF assms])

text \<open>A request for a page of the small heap is served when a page of it is free.\<close>

lemma small_heap_alloc:
  assumes inv: "buddy_inv st" and same: "same_heap (small_heap marks) st"
    and free: "i < 2" "\<And>b. b \<in> buddy_blocks st \<Longrightarrow> disjoint_blocks b (1, i)"
  shows "\<exists>st' j. buddy_alloc st 4096 = Some (st', 4096, block_addr st (1, j)) \<and> block_addr st (1, j) \<noteq> 0 \<and>
    buddy_inv st' \<and> same_heap (small_heap marks) st' \<and> j < 2 \<and> (1, j) \<notin> buddy_blocks st \<and>
    buddy_blocks st' = insert (1, j) (buddy_blocks st)"
proof -
  note geo = same_heapD [OF same]
  have "unat (4096 :: u32) \<le> g_buddy_max_block st" using geo(7) by simp
  from buddy_alloc_result [OF inv this] obtain m where m: "fits st 4096 m"
    "(\<exists>i st'. i < 2 ^ m \<and> gives_block st (m, i) st' \<and>
        buddy_alloc st 4096 = Some (st', layer_size st m, block_addr st (m, i))) \<or> layer_full st m"
    by blast
  have m1: "m = 1" using m(1) geo(1,2) by (cases m) (simp_all add: fits_def)
  have "\<not> layer_full st 1" using free by (auto simp: layer_full_def)
  then obtain j st' where j: "j < 2" "gives_block st (1, j) st'"
    "buddy_alloc st 4096 = Some (st', layer_size st 1, block_addr st (1, j))"
    using m(2) m1 by auto
  have "same_heap st st'" using heap_step_frame [OF step_alloc [OF j(3)] inv] .
  then have "same_heap (small_heap marks) st'" using same same_heap_trans by blast
  moreover have "layer_size st 1 = 4096" using geo(2) by simp
  moreover have "block_addr st (1, j) \<noteq> 0" using block_addr_offset(2) [OF inv, of 1 j] j(1) geo(1) by simp
  ultimately show ?thesis using j by (simp only: gives_block_def) blast
qed

lemma small_heap_two_allocs:
  "\<exists>st' st'' i j. buddy_alloc (small_heap 0) 4096 = Some (st', 4096, block_addr (small_heap 0) (1, i)) \<and>
     block_addr (small_heap 0) (1, i) \<noteq> 0 \<and>
     buddy_alloc st' 4096 = Some (st'', 4096, block_addr (small_heap 0) (1, j)) \<and>
     block_addr (small_heap 0) (1, j) \<noteq> 0"
proof -
  have b: "buddy_blocks (small_heap 0) = {}" using small_heap_blocks [of 0] by simp
  obtain st' i where 1: "buddy_alloc (small_heap 0) 4096 = Some (st', 4096, block_addr (small_heap 0) (1, i))"
    "block_addr (small_heap 0) (1, i) \<noteq> 0" "buddy_inv st'" "same_heap (small_heap 0) st'" "i < 2"
    "buddy_blocks st' = {(1, i)}"
    using small_heap_alloc [OF small_heap_inv same_heap_refl, of 0 0] b by auto
  have "disjoint_blocks (1, i) (1, 1 - i)"
    using 1(5) by (auto simp: disjoint_blocks_def covers_def less_2_nat)
  then obtain st'' j where "buddy_alloc st' 4096 = Some (st'', 4096, block_addr st' (1, j))" "block_addr st' (1, j) \<noteq> 0"
    using small_heap_alloc [OF 1(3,4), of "1 - i"] 1(5,6) by (auto simp: less_Suc_eq numeral_2_eq_2)
  then show ?thesis using 1(1,2) same_heapD(4) [OF 1(4)] by auto
qed

lemma consecutive_allocations_disjoint_witness:
  "\<exists>st' st'' p p'. buddy_alloc (small_heap 0) 4096 = Some (st', 4096, p) \<and>
     buddy_alloc st' 4096 = Some (st'', 4096, p') \<and>
     {unat p ..< unat p + 4096} \<inter> {unat p' ..< unat p' + 4096} = {}"
proof -
  obtain st' st'' i j where s: "buddy_alloc (small_heap 0) 4096 = Some (st', 4096, block_addr (small_heap 0) (1, i))"
    "block_addr (small_heap 0) (1, i) \<noteq> 0" "buddy_alloc st' 4096 = Some (st'', 4096, block_addr (small_heap 0) (1, j))"
    "block_addr (small_heap 0) (1, j) \<noteq> 0"
    using small_heap_two_allocs by blast
  have "buddy_inv (small_heap 0)" by (rule small_heap_inv) simp
  from consecutive_allocations_disjoint [OF this s] s show ?thesis by blast
qed

section \<open>Release\<close>


lemma two_pages_live: "buddy_inv (small_heap 7)" "buddy_blocks (small_heap 7) = {(1, 0), (1, 1)}"
  using small_heap_inv [of 7] small_heap_blocks [of 7] bit_7_marks by auto


text \<open>C9: Releasing the only live block leaves the arrays: the merge loop reaches the root,
  compares it with the bit of its first child, and writes through \<open>buddy_layers[-1]\<close>.\<close>

theorem buddy_free_last_out_of_bounds:
  assumes "buddy_inv st" "buddy_blocks st = {b}"
  shows "buddy_free st (block_addr st b) = None"
  using buddy_free_result [of st b] assms by simp

lemma buddy_free_last_out_of_bounds_witness:
  "buddy_free (small_heap 3) (block_addr (small_heap 3) (1, 0)) = None"
  by (rule buddy_free_last_out_of_bounds)
    (use small_heap_inv [of 3] small_heap_blocks [of 3] bit_7_marks in auto)

text \<open>Releasing a block that was just given out restores the bitmap, as long as another
  block is live.\<close>

theorem alloc_free_restores_bitmap:
  assumes inv: "buddy_inv st" and other: "buddy_blocks st \<noteq> {}"
    and run: "buddy_alloc st sz = Some (st', n, p)" "p \<noteq> 0"
  shows "\<exists>st''. buddy_free st' p = Some st'' \<and> buddy_blocks st'' = buddy_blocks st \<and>
    tree_eq (num_layers st) (tree_of (g_buddy_block st'')) (tree_of (g_buddy_block st))"
proof -
  obtain st'' where s: "buddy_free st' p = Some st''" "buddy_inv st''" "buddy_blocks st'' = buddy_blocks st"
    using buddy.alloc_release_live [OF inv other run] by blast
  obtain b where b: "b \<in> buddy_blocks st'" "p = block_addr st' b"
    using buddy.alloc_gives [OF inv run] buddy.alloc_keeps [OF inv run(1)] by auto
  have inv': "buddy_inv st'" using buddy.alloc_inv [OF inv run(1)] .
  have "same_heap st st'" using heap_step_frame [OF step_alloc [OF run(1)] inv] .
  moreover have "same_heap st' st''"
    using heap_step_frame [OF step_free [OF b(1)] inv', of st''] s(1) b(2) by simp
  ultimately have "num_layers st'' = num_layers st" using same_heapD(1) by metis
  from bitmap_determined [OF inv s(2) this s(3)] show ?thesis using s(1,3) by blast
qed

lemma alloc_free_restores_bitmap_witness:
  "\<exists>st' st'' p. buddy_alloc (small_heap 3) 4096 = Some (st', 4096, p) \<and> buddy_free st' p = Some st'' \<and>
     buddy_blocks st'' = {(1, 0)}"
proof -
  have b: "buddy_blocks (small_heap 3) = {(1, 0)}" "buddy_inv (small_heap 3)"
    using small_heap_inv [of 3] small_heap_blocks [of 3] bit_7_marks by auto
  have "disjoint_blocks c (1, 1)" if "c \<in> buddy_blocks (small_heap 3)" for c
    using that b by (simp add: disjoint_blocks_def covers_def)
  then obtain st' j where s: "buddy_alloc (small_heap 3) 4096 = Some (st', 4096, block_addr (small_heap 3) (1, j))"
    "block_addr (small_heap 3) (1, j) \<noteq> 0"
    using small_heap_alloc [OF b(2) same_heap_refl, of 1] by auto
  from alloc_free_restores_bitmap [OF b(2) _ s] s(1) b(1) show ?thesis by auto
qed

section \<open>The bitmap\<close>

text \<open>Writing the bit of a block succeeds on all 14 layers and changes that bit alone.\<close>

theorem buddy_block_set_get:
  assumes "l < 14" "i < 2 ^ l" "l' < 14" "i' < 2 ^ l'" "length blk = BUDDY_ARRAY_SIZE"
  shows "\<exists>blk'. buddy_block_set blk (int l) i v = Some blk' \<and> length blk' = BUDDY_ARRAY_SIZE \<and>
    buddy_block blk' (int l') i' = (if l' = l \<and> i' = i then Some v else buddy_block blk (int l') i')"
proof -
  obtain blk' where b: "buddy_block_set blk (int l) i v = Some blk'" "length blk' = BUDDY_ARRAY_SIZE"
    "\<And>l' i'. l' < 14 \<Longrightarrow> i' < 2 ^ l' \<Longrightarrow> tree_of blk' l' i' = upd (tree_of blk) l i v l' i'"
    using buddy_block_set_tree [OF assms(1,2,5)] by blast
  then show ?thesis using assms by (auto simp: buddy_block_tree upd_def)
qed

lemma buddy_block_set_get_witness:
  "\<exists>blk'. buddy_block_set (replicate BUDDY_ARRAY_SIZE 0) 3 5 True = Some blk' \<and> buddy_block blk' 3 5 = Some True"
  using buddy_block_set_get [of 3 5 3 5 "replicate BUDDY_ARRAY_SIZE 0" True] by auto

section \<open>Initialisation\<close>

text \<open>If the largest usable memory block the bootloader reports has at least 32 KiB (as
  the source reads its length), \<open>buddy_init\<close> returns with a well-formed, empty heap of 14
  layers whose size is the power of two just below half of that block, and every state that
  requests and releases reach from there is well-formed.\<close>

theorem buddy_init_heap:
  assumes "pick_block mblocks 0 None = (max_size, Some b)" "2 ^ 15 \<le> max_size"
    and "length dir = 1024" "length table0 = 1024"
  shows "\<exists>st dir' table0'.
    buddy_init mblocks a mem dir table0 buddy_bss = Some (st, dir', table0', g_buddy_max_block st) \<and>
    buddy_inv st \<and> buddy_blocks st = {} \<and> num_layers st = 14 \<and>
    int (g_buddy_max_block st) \<le> max_size div 2 \<and> max_size div 2 < 2 * int (g_buddy_max_block st) \<and>
    g_buddy_start st = ucast (mb_begin b + mb_length b + 1 - word_of_nat (g_buddy_max_block st)) AND 0xFFFFF000 \<and>
    (\<forall>st'. heap_step\<^sup>*\<^sup>* st st' \<longrightarrow> buddy_inv st')"
  using buddy_init_geometry [OF assms] heap_steps_inv by blast

lemma buddy_init_heap_witness:
  "\<exists>st dir' table0'. buddy_init [\<lparr>mb_begin = 0, mb_length = 0x9FC00, mb_type = 1, mb_acpi = 0\<rparr>,
      \<lparr>mb_begin = 0x100000, mb_length = 0x7EE0000, mb_type = 1, mb_acpi = 0\<rparr>] 0xC0030000 (\<lambda>a. 0)
      (replicate 1024 0) (replicate 1024 0) buddy_bss = Some (st, dir', table0', g_buddy_max_block st) \<and>
    buddy_inv st \<and> num_layers st = 14"
proof -
  have pick: "pick_block [\<lparr>mb_begin = 0, mb_length = 0x9FC00, mb_type = 1, mb_acpi = 0\<rparr>,
      \<lparr>mb_begin = 0x100000, mb_length = 0x7EE0000, mb_type = 1, mb_acpi = 0\<rparr>] 0 None =
      (0x7EE0000, Some \<lparr>mb_begin = 0x100000, mb_length = 0x7EE0000, mb_type = 1, mb_acpi = 0\<rparr>)"
    by (simp add: MEMORY_BLOCK_TYPE_USABLE_def)
  show ?thesis
    using buddy_init_heap [OF pick _ length_replicate length_replicate, of "0xC0030000" "\<lambda>a. 0" 0 0]
    by (auto)
qed

section \<open>Where the bytes of a block are\<close>

text \<open>
  The page tables as the processor sees them: entry \<open>512 + k\<close> of the page directory holds
  the frame \<open>frame k\<close> of the \<open>k\<close>-th table, whose entries are the allocator's array.
\<close>

definition tables_mapped :: "buddy \<Rightarrow> u32 list \<Rightarrow> (u32 \<Rightarrow> u32) \<Rightarrow> (nat \<Rightarrow> u32) \<Rightarrow> bool" where
  "tables_mapped st dir mem frame \<longleftrightarrow> length dir = 1024 \<and>
     (\<forall>k. 4194304 * k < g_buddy_max_block st \<longrightarrow>
        frame k AND 0xFFF = 0 \<and> dir ! (512 + k) = frame k OR (PAGE_READ_WRITE OR PAGE_PRESENT) \<and>
        (\<forall>j < 1024. mem (frame k + 4 * word_of_nat j) = g_buddy_page_tables st ! (1024 * k + j)))"

lemma frame_of_entry:
  fixes x :: u32
  assumes "x AND 0xFFF = 0"
  shows "(x OR 3) AND NOT 0x3FF = x" "x AND NOT 0xFFF = x" "x OR (v AND 0xFFF) = x + (v AND 0xFFF)"
proof -
  have low: "\<not> bit x n" if "n < 12" for n
  proof -
    have "\<not> bit (x AND 0xFFF) n" using assms by simp
    then show ?thesis using that by (simp add: bit_and_iff bit_mask_FFF)
  qed
  have three: "bit (3 :: u32) n \<longleftrightarrow> n < 2" for n
    using bit_mask_iff [where 'a = u32, of 2 n] by (auto simp: mask_numeral)
  show "(x OR 3) AND NOT 0x3FF = x"
  proof (rule bit_word_eqI)
    fix n show "bit ((x OR 3) AND NOT 0x3FF) n = bit x n" if "n < LENGTH(32)"
      using low [of n] that
      by (cases "n < 10"; cases "n < 12") (auto simp: bit_and_iff bit_or_iff bit_not_iff bit_masks three)
  qed
  show "x AND NOT 0xFFF = x"
  proof (rule bit_word_eqI)
    fix n show "bit (x AND NOT 0xFFF) n = bit x n" if "n < LENGTH(32)"
      using low [of n] that by (cases "n < 12") (auto simp: bit_and_iff bit_not_iff bit_masks)
  qed
  show "x OR (v AND 0xFFF) = x + (v AND 0xFFF)"
    by (rule disjunctive_add [symmetric]) (use low in \<open>auto simp: bit_and_iff bit_mask_FFF\<close>)
qed

lemma page_index: "unat (drop_bit 12 (v :: u32) AND 0x3FF) = unat v div 4096 mod 1024"
  by (simp only: unat_and_3FF unat_drop_bit) simp

lemma unat_u32_mod_page:
  fixes x y :: u32
  shows "unat (x + y) mod 4096 = (unat x + unat y) mod 4096" "unat (x * y) mod 4096 = (unat x * unat y) mod 4096"
proof -
  have "(a mod 2 ^ 32) mod 4096 = a mod 4096" for a :: nat by (rule mod_mod_cancel) simp
  then show "unat (x + y) mod 4096 = (unat x + unat y) mod 4096" "unat (x * y) mod 4096 = (unat x * unat y) mod 4096"
    using unat_word_ariths(1,2) [of x y] by simp_all
qed

lemma page_aligned_iff: "(x :: u32) AND 0xFFF = 0 \<longleftrightarrow> unat x mod 4096 = 0"
  using unat_and_FFF [of x] by (simp add: word_unat_eq_iff)

lemma aligned_sum: "(x :: u32) AND 0xFFF = 0 \<Longrightarrow> (x + 4096 * y) AND 0xFFF = 0"
  unfolding page_aligned_iff
  by (subst unat_u32_mod_page(1), subst mod_add_eq [symmetric], subst unat_u32_mod_page(2)) simp

lemma low_bits_block: "(BUDDY_ALLOC_VIRADR + w) AND 0xFFF = w AND 0xFFF"
proof -
  have "unat (w + BUDDY_ALLOC_VIRADR) mod 4096 = (unat w + 524288 * 4096) mod 4096"
    by (subst unat_u32_mod_page(1)) (simp add: BUDDY_ALLOC_VIRADR_def)
  also have "\<dots> = unat w mod 4096" by (rule mod_mult_self1)
  finally show ?thesis by (simp add: word_unat_eq_iff unat_and_FFF add.commute)
qed

lemma walk_of_block:
  assumes x: "x < 2 ^ 29" "x < g_buddy_max_block st" and tm: "tables_mapped st dir mem frame"
  shows "hal_physical_addr dir mem (BUDDY_ALLOC_VIRADR + word_of_nat x) =
    Some ((g_buddy_page_tables st ! (x div 4096) AND NOT 0x3FF) OR (word_of_nat x AND 0xFFF))"
proof -
  let ?v = "BUDDY_ALLOC_VIRADR + word_of_nat x :: u32" and ?k = "x div 4194304"
  let ?j = "x div 4096 mod 1024"
  have "unat (word_of_nat x :: u32) = x" using x by (simp add: unat_of_nat take_bit_eq_mod)
  then have v: "unat ?v = 0x80000000 + x"
    using x(1) by (simp add: BUDDY_ALLOC_VIRADR_def unat_word_ariths)
  have d: "unat (drop_bit 22 ?v) = 512 + ?k"
    using v by (simp only: unat_drop_bit) simp
  have "unat ?v div 4096 = x div 4096 + 512 * 1024" using v by simp
  then have "unat (drop_bit 12 ?v AND 0x3FF) = ?j"
    using page_index [of ?v] by (simp only: mod_mult_self1)
  then have j: "drop_bit 12 ?v AND 0x3FF = word_of_nat ?j"
    by (metis of_nat_unat ucast_id)
  have "4194304 * ?k < g_buddy_max_block st" using x(2) by (simp add: mult.commute le_less_trans [OF div_times_less_eq_dividend])
  then have t: "frame ?k AND 0xFFF = 0" "dir ! (512 + ?k) = frame ?k OR 3"
    "mem (frame ?k + 4 * word_of_nat ?j) = g_buddy_page_tables st ! (1024 * ?k + ?j)" "length dir = 1024"
    using tm by (auto simp: tables_mapped_def page_flag_defs)
  have "1024 * ?k + ?j = x div 4096"
    using mult_div_mod_eq [of 1024 "x div 4096"] by (simp only: div_mult2_eq [symmetric]) simp
  moreover have "512 + ?k < 1024" using x(1) by simp
  then have "aread dir (unat (drop_bit 22 ?v)) = Some (frame ?k OR 3)" using t(2,4) d by (simp only: aread_in)
  then have "hal_physical_addr dir mem ?v =
      Some ((mem (frame ?k + 4 * word_of_nat ?j) AND NOT 0x3FF) OR (?v AND 0xFFF))"
    using frame_of_entry(1) [OF t(1)]
    by (simp only: hal_physical_addr_def i686_physical_addr_def Let_def j Option.bind.bind_lunit)
  ultimately show ?thesis by (simp only: t(3) low_bits_block)
qed

lemma word_page_split: "(word_of_nat x :: u32) = 4096 * word_of_nat (x div 4096) + (word_of_nat x AND 0xFFF)"
proof -
  have "unat ((word_of_nat x :: u32) AND 0xFFF) = x mod 4096"
    unfolding unat_and_FFF by (simp add: unat_of_nat take_bit_eq_mod mod_mod_cancel)
  then have "(word_of_nat x :: u32) AND 0xFFF = word_of_nat (x mod 4096)" by (metis of_nat_unat ucast_id)
  moreover have "(word_of_nat x :: u32) = word_of_nat (4096 * (x div 4096) + x mod 4096)" by simp
  ultimately show ?thesis by (simp only: of_nat_add of_nat_mult of_nat_numeral)
qed

text \<open>A page of a block was entered with the frame behind it.\<close>

lemma pages_set_entry:
  assumes "pages_set st (l, i) target ts ts'" "4096 dvd g_buddy_min_block st"
    and "off < layer_size st l" "(block_offset st (l, i) + off) div 4096 < length ts"
  shows "ts' ! ((block_offset st (l, i) + off) div 4096) =
    kernel_entry (target (word_of_nat (4096 * ((block_offset st (l, i) + off) div 4096))))"
proof -
  have d: "4096 dvd layer_size st l" "4096 dvd block_offset st (l, i)"
    using assms(2) by (auto simp: layer_size_def block_offset_def)
  then obtain u v where u: "layer_size st l = 4096 * u" and v: "block_offset st (l, i) = 4096 * v" by (elim dvdE)
  have p: "(4096 * v + off) div 4096 = v + off div 4096" by simp
  have "off div 4096 < u" using assms(3) u by (simp add: less_mult_imp_div_less mult.commute)
  moreover have "page_count (4096 * u) = u" by (simp add: page_count_def)
  ultimately show ?thesis
    using assms(1,4) by (simp add: pages_set_def u v p Let_def algebra_simps)
qed

text \<open>C7: After \<open>buddy_alloc\<close> the whole of the new block is mapped, contiguously, to the
  physical memory at the same offset from \<open>g_buddy_start\<close>: every address of the block is
  translated to the frame behind it, by the page tables the call has filled. Blocks are whole
  pages, as they are on a heap of 32 MiB or more.\<close>

theorem allocated_block_translates:
  assumes inv: "buddy_inv st" and run: "buddy_alloc st sz = Some (st', n, p)" "p \<noteq> 0"
    and pages: "4096 dvd g_buddy_min_block st" "g_buddy_start st AND 0xFFF = 0"
    and tm: "tables_mapped st' dir mem frame" and off: "off < n"
  shows "hal_physical_addr dir mem (p + word_of_nat off) =
    Some (g_buddy_start st + (p - BUDDY_ALLOC_VIRADR) + word_of_nat off)"
proof -
  obtain m i where b: "fits st sz m" "i < 2 ^ m" "gives_block st (m, i) st'" "n = layer_size st m"
    "p = block_addr st (m, i)"
    using buddy_alloc_Some [OF inv run(1)] run(2) by blast
  define x where "x = block_offset st (m, i) + off"
  have m: "m < num_layers st" using b(1) by (simp add: fits_def)
  have end_x: "x < g_buddy_max_block st" "x < 2 ^ 29"
    using block_end_le_max [OF m b(2)] unat_block_addr(2) [OF inv m b(2)] buddy_invD(7) [OF inv] off b(4)
    by (auto simp: x_def)
  have max: "g_buddy_max_block st' = g_buddy_max_block st"
    using same_heapD(7) [OF heap_step_frame [OF step_alloc [OF run(1)] inv]] .
  have v: "p + word_of_nat off = BUDDY_ALLOC_VIRADR + word_of_nat x"
    "p - BUDDY_ALLOC_VIRADR + word_of_nat off = word_of_nat x"
    by (simp_all add: b(5) block_addr_def x_def)
  have "x div 4096 < length (g_buddy_page_tables st)" using end_x(2) buddy_invD(9) [OF inv] by simp
  moreover have ps: "pages_set st (m, i) (\<lambda>a. a + g_buddy_start st) (g_buddy_page_tables st) (g_buddy_page_tables st')"
    using b(3) by (simp add: gives_block_def)
  ultimately have "g_buddy_page_tables st' ! (x div 4096) =
      kernel_entry (g_buddy_start st + 4096 * word_of_nat (x div 4096))"
    using pages_set_entry [OF ps pages(1), of off] b(4) off by (simp add: x_def add.commute)
  then have "g_buddy_page_tables st' ! (x div 4096) = (g_buddy_start st + 4096 * word_of_nat (x div 4096)) OR 3"
    using frame_of_entry(2) [OF aligned_sum [OF pages(2)]] by (simp only: kernel_entry_def)
  then have "hal_physical_addr dir mem (p + word_of_nat off) =
      Some (g_buddy_start st + 4096 * word_of_nat (x div 4096) + (word_of_nat x AND 0xFFF))"
    using walk_of_block [OF end_x(2) _ tm] end_x(1) max frame_of_entry(1,3) [OF aligned_sum [OF pages(2)]]
    by (simp only: v(1))
  also have "\<dots> = Some (g_buddy_start st + word_of_nat x)"
    by (subst (3) word_page_split) (simp only: add.assoc)
  finally show ?thesis by (simp add: v(2) [symmetric] add.assoc)
qed

text \<open>A page directory and a memory that show the tables of a small heap.\<close>

definition small_dir :: "u32 list" where
  "small_dir = (replicate 1024 0)[512 := 0x100003]"

definition small_mem :: "buddy \<Rightarrow> u32 \<Rightarrow> u32" where
  "small_mem st a = g_buddy_page_tables st ! (unat (a - 0x100000) div 4)"

lemma small_tables_mapped:
  assumes "same_heap (small_heap marks) st"
  shows "tables_mapped st small_dir (small_mem st) (\<lambda>k. 0x100000)"
proof -
  have mem: "small_mem st (0x100000 + 4 * word_of_nat j) = g_buddy_page_tables st ! j" if "j < 1024" for j
  proof -
    have "unat (4 * word_of_nat j :: u32) = 4 * j"
      using that by (simp add: unat_word_ariths unat_of_nat take_bit_eq_mod)
    then show ?thesis by (simp add: small_mem_def)
  qed
  have dir: "length small_dir = 1024" "small_dir ! 512 = 0x100003"
    unfolding small_dir_def by (simp_all only: length_list_update length_replicate nth_list_update_eq)
  show ?thesis unfolding tables_mapped_def
  proof (intro conjI allI impI)
    fix k assume "4194304 * k < g_buddy_max_block st"
    then have k: "k = 0" using same_heapD(7) [OF assms] by simp
    show "small_dir ! (512 + k) = 0x100000 OR (PAGE_READ_WRITE OR PAGE_PRESENT)"
      using dir(2) by (simp add: k page_flag_defs)
    show "small_mem st (0x100000 + 4 * word_of_nat j) = g_buddy_page_tables st ! (1024 * k + j)"
      if "j < 1024" for j using mem [OF that] by (simp add: k)
  qed (simp_all add: dir)
qed

lemma allocated_block_translates_witness:
  "\<exists>st' i. buddy_alloc (small_heap 0) 4096 = Some (st', 4096, block_addr (small_heap 0) (1, i)) \<and>
     hal_physical_addr small_dir (small_mem st') (block_addr (small_heap 0) (1, i) + 100) =
       Some (0x100000 + (block_addr (small_heap 0) (1, i) - BUDDY_ALLOC_VIRADR) + 100)"
proof -
  have b: "buddy_blocks (small_heap 0) = {}" "buddy_inv (small_heap 0)"
    using small_heap_blocks [of 0] small_heap_inv [of 0] by auto
  obtain st' i where s: "buddy_alloc (small_heap 0) 4096 = Some (st', 4096, block_addr (small_heap 0) (1, i))"
    "block_addr (small_heap 0) (1, i) \<noteq> 0" "same_heap (small_heap 0) st'"
    using small_heap_alloc [OF b(2) same_heap_refl, of 0] b(1) by auto
  from allocated_block_translates [OF b(2) s(1,2) _ _ small_tables_mapped [OF s(3)], of 100] s(1)
  show ?thesis by auto
qed

section \<open>Page tables\<close>

text \<open>\<open>i686_physical_addr\<close> agrees with the processor's page walk for every address the
  processor can translate, if bits 10 and 11 of the entries are clear (the source masks the
  frame addresses with \<open>~0x3FF\<close>).\<close>

theorem physical_addr_is_page_walk:
  assumes "mmu_translate dir mem v = Some p"
    and "\<And>e. aread dir (unat (drop_bit 22 v)) = Some e \<Longrightarrow> avail_clear e"
    and "\<And>a. avail_clear (mem a)"
  shows "i686_physical_addr dir mem v = Some p"
  using assms by (rule physical_addr_mmu)

lemma physical_addr_is_page_walk_witness:
  "i686_physical_addr [0x5003] (\<lambda>a. if a = 0x5008 then 0x9003 else 0) 0x2ABC = Some 0x9ABC"
  by (rule physical_addr_is_page_walk)
    (simp_all add: mmu_translate_def aread_def avail_clear_def PAGE_PRESENT_def Let_def)

text \<open>An entry of the page directory reads back as the page table that was entered, and
  no other entry changes.\<close>

theorem page_directory_get_set:
  assumes "i < length dir" "j < length dir" "table AND 0xFFF = 0"
  shows "\<exists>dir'. hal_set_page_table dir table (int i) usermode = Some dir' \<and>
    hal_get_page_table dir' (int j) = (if i = j then Some table else hal_get_page_table dir (int j))"
proof -
  have "\<not> bit table n" if "n < 12" for n
  proof -
    have "\<not> bit (table AND 0xFFF) n" using assms(3) by simp
    then show ?thesis using that by (simp add: bit_and_iff bit_mask_FFF)
  qed
  moreover have "bit (7 :: u32) n \<longleftrightarrow> n < 3" "bit (3 :: u32) n \<longleftrightarrow> n < 2" for n
    using bit_mask_iff [where 'a = u32, of 3 n] bit_mask_iff [where 'a = u32, of 2 n] by (auto simp: mask_numeral)
  ultimately have "(table OR 7) AND NOT 0xFFF = table" "(table OR 3) AND NOT 0xFFF = table"
    by (auto intro!: bit_word_eqI simp: bit_and_iff bit_or_iff bit_not_iff bit_masks) (meson not_less)+
  then show ?thesis using assms
    by (cases usermode) (simp_all add: hal_page_defs page_flag_defs aread_def)
qed

lemma page_directory_get_set_witness:
  "\<exists>dir'. hal_set_page_table [0, 0] 0x7000 1 True = Some dir' \<and> hal_get_page_table dir' 1 = Some 0x7000"
  using page_directory_get_set [of 1 "[0, 0]" 1 "0x7000" True] by simp

text \<open>\<open>i686_page_table_find_empty\<close> returns the first entry of a table whose frame is 0,
  and -1 if there is none.\<close>

theorem page_table_find_empty_first:
  assumes "length table = 1024"
  shows "i686_page_table_find_empty table =
    Some (if \<exists>j < 1024. table ! j AND 0xFFFFF000 = 0
      then int (LEAST j. j < 1024 \<and> table ! j AND 0xFFFFF000 = 0) else - 1)"
  using find_empty_from_spec [OF assms, of 0] by (simp add: i686_page_table_find_empty_def)

lemma page_table_find_empty_first_witness:
  "i686_page_table_find_empty (replicate 1024 0x1003) = Some (- 1)"
  using page_table_find_empty_first [of "replicate 1024 0x1003"] by auto

end
