(* ===== verification/Heap.thy ===== *)
theory Heap
  imports Memory BuddyTheorems
begin

text \<open>
  The kernel's heap, \<open>kernel/include/heap_allocator.c\<close>: objects and free spaces in blocks of
  the buddy allocator, each with a header of one word that links it to the next object or the
  next free space. The two lists, their roots in the structure \<open>HEAP_CACHE\<close> and the table of
  blocks live in the flat memory; the other members of the structure, of which the code never
  takes the address, are fields of the state. Reading or writing through a null pointer is
  \<open>None\<close>, and so is a walk through a list that does not end.
\<close>

section \<open>State\<close>

record heap =
  h_buddy :: buddy
  h_mem :: memory
  heapc :: u32
  heap_blocks :: u32
  heap_blocks_size :: u32
  block_size :: u32
  avail_size :: u32
  best_avail_size :: u32
  best_alloc_ptr :: u32
  best_prev_free_ptr :: u32
  best_free_ptr :: u32
  alloc_ptr :: u32
  prev_free_ptr :: u32
  free_ptr :: u32
  temp_ptr :: u32
  h_block :: u32

definition HEAP_FIRST_FIT_MAX_SIZE :: u32 where "HEAP_FIRST_FIT_MAX_SIZE = 8 * 1024"
definition HEAP_METADATA_SIZE :: u32 where "HEAP_METADATA_SIZE = 16 * 1024"
definition SIZEOF_HEAP_CACHE :: u32 where "SIZEOF_HEAP_CACHE = 12 * 4"
definition heap_header_size :: u32 where "heap_header_size = 4"

text \<open>\<open>&heapc->alloc_root\<close> and \<open>&heapc->free_root\<close>.\<close>

definition alloc_root :: "heap \<Rightarrow> u32" where "alloc_root st = heapc st"
definition free_root :: "heap \<Rightarrow> u32" where "free_root st = heapc st + 4"

definition deref :: "heap \<Rightarrow> u32 \<Rightarrow> u32 option" where
  "deref st p = (if p = 0 then None else Some (load32 (h_mem st) p))"

definition assign :: "heap \<Rightarrow> u32 \<Rightarrow> u32 \<Rightarrow> heap option" where
  "assign st p v = (if p = 0 then None else Some (st\<lparr>h_mem := store32 (h_mem st) p v\<rparr>))"

definition request :: "heap \<Rightarrow> u32 \<Rightarrow> (heap \<times> u32) option" where
  "request st sz = do {
     (b, n, p) \<leftarrow> buddy_alloc (h_buddy st) sz;
     Some (st\<lparr>h_buddy := b, block_size := word_of_nat n\<rparr>, p)
   }"

section \<open>The table of blocks\<close>

definition heap_set_mem_block :: "heap \<Rightarrow> u32 \<Rightarrow> u32 \<Rightarrow> u32 \<Rightarrow> heap option" where
  "heap_set_mem_block st block addr sz = do {
     st1 \<leftarrow> assign st block addr;
     assign st1 (block + 4) sz
   }"

definition block_entry :: "heap \<Rightarrow> nat \<Rightarrow> u32" where
  "block_entry st i = load32 (h_mem st) (heap_blocks st + 4 * word_of_nat i)"

function heap_mem_block_from :: "heap \<Rightarrow> u32 \<Rightarrow> nat \<Rightarrow> u32" where
  "heap_mem_block_from st ptr i =
     (if i < unat (heap_blocks_size st) then
        (if block_entry st i \<noteq> 0 \<and> block_entry st i \<le> ptr \<and> ptr < block_entry st i + block_entry st (i + 1)
         then heap_blocks st + 4 * word_of_nat i
         else heap_mem_block_from st ptr (i + 2))
      else 0)"
  by pat_completeness auto
termination by (relation "measure (\<lambda>(st, ptr, i). unat (heap_blocks_size st) - i)") auto

declare heap_mem_block_from.simps [simp del]

definition heap_mem_block :: "heap \<Rightarrow> u32 \<Rightarrow> u32" where
  "heap_mem_block st ptr = heap_mem_block_from st ptr 0"

function heap_find_empty_from :: "heap \<Rightarrow> nat \<Rightarrow> u32" where
  "heap_find_empty_from st i =
     (if i < unat (heap_blocks_size st) then
        (if block_entry st i = 0 then heap_blocks st + 4 * word_of_nat i else heap_find_empty_from st (i + 2))
      else 0)"
  by pat_completeness auto
termination by (relation "measure (\<lambda>(st, i). unat (heap_blocks_size st) - i)") auto

declare heap_find_empty_from.simps [simp del]

definition heap_find_empty_block_ptr :: "heap \<Rightarrow> u32" where
  "heap_find_empty_block_ptr st = heap_find_empty_from st 0"

text \<open>The block looked at is always \<open>heapc->block\<close>.\<close>

definition heap_mem_block_end :: "heap \<Rightarrow> u32 option" where
  "heap_mem_block_end st = do {
     a \<leftarrow> deref st (h_block st);
     n \<leftarrow> deref st (h_block st + 4);
     Some (a + n)
   }"

definition heap_not_in_mem_block :: "heap \<Rightarrow> u32 \<Rightarrow> bool option" where
  "heap_not_in_mem_block st ptr = do {
     a \<leftarrow> deref st (h_block st);
     e \<leftarrow> heap_mem_block_end st;
     Some (ptr < a \<or> e \<le> ptr)
   }"

definition heap_in_mem_block :: "heap \<Rightarrow> u32 \<Rightarrow> bool option" where
  "heap_in_mem_block st ptr = map_option Not (heap_not_in_mem_block st ptr)"

definition heap_init :: "heap \<Rightarrow> (heap \<times> u32) option" where
  "heap_init st = do {
     (st1, p) \<leftarrow> request st HEAP_METADATA_SIZE;
     let st2 = st1\<lparr>heapc := p\<rparr>;
     if p = 0 then Some (st2, 0)
     else do {
       let n = (block_size st2 - SIZEOF_HEAP_CACHE) div heap_header_size;
       let mem_blocks_size = n * heap_header_size;
       Some (st2\<lparr>heap_blocks_size := n, heap_blocks := p + block_size st2 - mem_blocks_size\<rparr>, mem_blocks_size)
     }
   }"

section \<open>The search for a free space\<close>

text \<open>The object closest before the free space, in its block.\<close>

partial_function (option) closest_alloc :: "heap \<Rightarrow> heap option" where
  "closest_alloc st = do {
     next \<leftarrow> deref st (alloc_ptr st);
     inside \<leftarrow> heap_in_mem_block st next;
     if inside \<and> next < free_ptr st then
       (if next \<noteq> 0 then closest_alloc (st\<lparr>alloc_ptr := next\<rparr>) else Some st)
     else Some st
   }"

partial_function (option) reach_block :: "bool \<Rightarrow> heap \<Rightarrow> heap option" where
  "reach_block not_in_block st =
     (if alloc_ptr st = 0 then Some st
      else do {
        outside \<leftarrow> heap_not_in_mem_block st (alloc_ptr st);
        next \<leftarrow> deref st (alloc_ptr st);
        not_in_block' \<leftarrow> (if outside then heap_not_in_mem_block st next else Some not_in_block);
        if (outside \<and> not_in_block') \<or> (\<not> not_in_block' \<and> next < free_ptr st) then
          (if next \<noteq> 0 then reach_block not_in_block' (st\<lparr>alloc_ptr := next\<rparr>) else Some st)
        else Some st
      })"

text \<open>The block of the free space; the search stops when it has none.\<close>

definition locate_block :: "heap \<Rightarrow> heap option" where
  "locate_block st = do {
     outside \<leftarrow> (if h_block st = 0 then Some True else heap_not_in_mem_block st (free_ptr st));
     Some (if outside then st\<lparr>h_block := heap_mem_block st (free_ptr st)\<rparr> else st)
   }"

text \<open>The available size; \<open>False\<close> is the jump to \<open>hmalloc_loop_continue\<close>.\<close>

definition available_size :: "u32 \<Rightarrow> heap \<Rightarrow> (heap \<times> bool) option" where
  "available_size sz st = do {
     next \<leftarrow> deref st (alloc_ptr st);
     inside \<leftarrow> heap_in_mem_block st next;
     if inside then Some (st\<lparr>avail_size := next - free_ptr st\<rparr>, True)
     else if heap_mem_block st (free_ptr st) = h_block st \<and> heap_mem_block st next \<noteq> h_block st then do {
       e \<leftarrow> heap_mem_block_end st;
       let st1 = st\<lparr>avail_size := e - free_ptr st\<rparr>;
       st2 \<leftarrow> (if sz \<le> avail_size st1 then reach_block False st1 else Some st1);
       Some (st2, True)
     }
     else Some (st, False)
   }"

definition consider_space :: "bool \<Rightarrow> u32 \<Rightarrow> heap \<Rightarrow> heap \<times> bool" where
  "consider_space first_fit sz st =
     (if sz \<le> avail_size st \<and> avail_size st < best_avail_size st then
        (st\<lparr>best_avail_size := avail_size st, best_alloc_ptr := alloc_ptr st,
            best_free_ptr := free_ptr st, best_prev_free_ptr := prev_free_ptr st\<rparr>, first_fit)
      else (st, False))"

definition next_space :: "heap \<Rightarrow> heap option" where
  "next_space st = do {
     p \<leftarrow> deref st (prev_free_ptr st);
     f \<leftarrow> deref st p;
     Some (st\<lparr>prev_free_ptr := p, free_ptr := f\<rparr>)
   }"

text \<open>The loop; \<open>True\<close> is the jump to \<open>malloc_allocate_in_between\<close>.\<close>

partial_function (option) malloc_search :: "bool \<Rightarrow> u32 \<Rightarrow> heap \<Rightarrow> (heap \<times> bool) option" where
  "malloc_search first_fit sz st =
     (if free_ptr st = 0 then Some (st, False)
      else do {
        st1 \<leftarrow> locate_block st;
        if h_block st1 = 0 then Some (st1, False)
        else do {
          st2 \<leftarrow> (if alloc_ptr st1 \<noteq> 0 then closest_alloc st1 else Some st1);
          (st3, fits) \<leftarrow> available_size sz st2;
          if fits then
            (let (st4, jump) = consider_space first_fit sz st3 in
             if jump then Some (st4, True)
             else do { st5 \<leftarrow> next_space st4; malloc_search first_fit sz st5 })
          else do {
            f \<leftarrow> deref st3 (free_ptr st3);
            if f = 0 then Some (st3, False) else malloc_search first_fit sz (st3\<lparr>free_ptr := f\<rparr>)
          }
        }
      })"

partial_function (option) last_alloc :: "heap \<Rightarrow> heap option" where
  "last_alloc st = do {
     next \<leftarrow> deref st (alloc_ptr st);
     if next \<noteq> 0 then last_alloc (st\<lparr>alloc_ptr := next\<rparr>) else Some st
   }"

section \<open>malloc\<close>

definition malloc_first :: "u32 \<Rightarrow> heap \<Rightarrow> (heap \<times> u32) option" where
  "malloc_first sz st = do {
     (st1, ptr) \<leftarrow> request st sz;
     if ptr = 0 then Some (st1, 0)
     else do {
       st2 \<leftarrow> heap_set_mem_block st1 (heap_blocks st1) ptr (block_size st1);
       st3 \<leftarrow> assign st2 (alloc_root st2) ptr;
       st4 \<leftarrow> assign st3 ptr 0;
       st5 \<leftarrow> (if block_size st4 - sz > heap_header_size
         then do { st' \<leftarrow> assign st4 (free_root st4) (ptr + sz); assign st' (ptr + sz) 0 }
         else Some st4);
       Some (st5, ptr + heap_header_size)
     }
   }"

definition malloc_new_block :: "u32 \<Rightarrow> heap \<Rightarrow> (heap \<times> u32) option" where
  "malloc_new_block sz st = do {
     let empty_block_ptr = heap_find_empty_block_ptr st;
     if empty_block_ptr = 0 then Some (st, 0)
     else do {
       (st1, ptr) \<leftarrow> request st sz;
       if ptr = 0 then Some (st1, 0)
       else do {
         st2 \<leftarrow> heap_set_mem_block st1 empty_block_ptr ptr (block_size st1);
         a \<leftarrow> deref st2 (alloc_root st2);
         let st3 = st2\<lparr>alloc_ptr := a\<rparr>;
         st4 \<leftarrow> (if a \<noteq> 0 then last_alloc st3 else Some st3);
         st5 \<leftarrow> assign st4 (alloc_ptr st4) ptr;
         st6 \<leftarrow> (if block_size st5 - sz > heap_header_size then
             (if free_ptr st5 \<noteq> 0 then do { st' \<leftarrow> assign st5 (free_ptr st5) (ptr + sz); assign st' (ptr + sz) 0 }
              else if prev_free_ptr st5 \<noteq> 0 then do { st' \<leftarrow> assign st5 (prev_free_ptr st5) (ptr + sz); assign st' (ptr + sz) 0 }
              else Some st5)
           else Some st5);
         st7 \<leftarrow> assign st6 ptr 0;
         Some (st7, ptr + heap_header_size)
       }
     }
   }"

definition malloc_in_between :: "u32 \<Rightarrow> heap \<Rightarrow> (heap \<times> u32) option" where
  "malloc_in_between sz st = do {
     t \<leftarrow> deref st (best_free_ptr st);
     let st1 = st\<lparr>temp_ptr := t\<rparr>;
     n \<leftarrow> deref st1 (best_alloc_ptr st1);
     st2 \<leftarrow> assign st1 (best_free_ptr st1) n;
     st3 \<leftarrow> assign st2 (best_alloc_ptr st2) (best_free_ptr st2);
     st4 \<leftarrow> (if best_avail_size st3 - sz > heap_header_size then do {
         f \<leftarrow> deref st3 (best_free_ptr st3);
         if best_free_ptr st3 + sz + heap_header_size = f then assign st3 (best_prev_free_ptr st3) (temp_ptr st3)
         else do {
           a \<leftarrow> deref st3 (best_alloc_ptr st3);
           st' \<leftarrow> assign st3 (a + sz) (temp_ptr st3);
           a' \<leftarrow> deref st' (best_alloc_ptr st');
           assign st' (best_prev_free_ptr st') (a' + sz)
         }
       }
       else if best_prev_free_ptr st3 \<noteq> 0 then assign st3 (best_prev_free_ptr st3) (temp_ptr st3)
       else Some st3);
     p \<leftarrow> deref st4 (best_alloc_ptr st4);
     Some (st4, p + heap_header_size)
   }"

definition malloc :: "heap \<Rightarrow> u32 \<Rightarrow> (heap \<times> u32) option" where
  "malloc st size0 =
     (if size0 = 0 then Some (st, 0)
      else do {
        let sz = size0 + heap_header_size;
        root \<leftarrow> deref st (alloc_root st);
        if root = 0 then malloc_first sz st
        else do {
          let first_fit = (sz < HEAP_FIRST_FIT_MAX_SIZE);
          f \<leftarrow> deref st (free_root st);
          let st1 = st\<lparr>best_avail_size := 2000000000, alloc_ptr := alloc_root st,
            prev_free_ptr := free_root st, free_ptr := f, h_block := 0\<rparr>;
          (st2, found) \<leftarrow> malloc_search first_fit sz st1;
          if found then malloc_in_between sz st2
          else if first_fit \<or> best_avail_size st2 = 2000000000 then malloc_new_block sz st2
          else malloc_in_between sz st2
        }
      })"

text \<open>The pointer is not advanced.\<close>

definition zmalloc :: "heap \<Rightarrow> u32 \<Rightarrow> (heap \<times> u32) option" where
  "zmalloc st size0 = do {
     (st1, data) \<leftarrow> malloc st size0;
     if size0 = 0 then Some (st1, data)
     else if data = 0 then None
     else Some (st1\<lparr>h_mem := ((\<lambda>m. m(data := 0)) ^^ unat size0) (h_mem st1)\<rparr>, data)
   }"

section \<open>free\<close>

partial_function (option) find_link :: "u32 \<Rightarrow> heap \<Rightarrow> heap option" where
  "find_link ptr st =
     (if alloc_ptr st = 0 then Some st
      else do {
        next \<leftarrow> deref st (alloc_ptr st);
        if next \<noteq> 0 \<and> next \<noteq> ptr then find_link ptr (st\<lparr>alloc_ptr := next\<rparr>) else Some st
      })"

text \<open>Taking an object out of the list of objects; the heap may be empty after that.\<close>

datatype unlinked = Heap_empty | Unlinked | Invalid

definition unlink_alloc :: "u32 \<Rightarrow> heap \<Rightarrow> (heap \<times> unlinked) option" where
  "unlink_alloc ptr st = do {
     root \<leftarrow> deref st (alloc_root st);
     if root = ptr then do {
       next \<leftarrow> deref st root;
       st1 \<leftarrow> assign st (alloc_root st) next;
       if next = 0 then do {
         st2 \<leftarrow> assign st1 (alloc_root st1) 0;
         st3 \<leftarrow> assign st2 (free_root st2) 0;
         Some (st3, Heap_empty)
       }
       else Some (st1\<lparr>alloc_ptr := alloc_root st1\<rparr>, Unlinked)
     }
     else do {
       st1 \<leftarrow> find_link ptr (st\<lparr>alloc_ptr := alloc_root st\<rparr>);
       if alloc_ptr st1 \<noteq> 0 then do {
         a \<leftarrow> deref st1 (alloc_ptr st1);
         st2 \<leftarrow> (if a \<noteq> 0 then do { n \<leftarrow> deref st1 a; assign st1 (alloc_ptr st1) n } else Some st1);
         Some (st2, Unlinked)
       }
       else Some (st1, Invalid)
     }
   }"

text \<open>Whether an object lies between the place of the freed one and the free space \<open>f\<close> links to.\<close>

definition right_separated :: "u32 \<Rightarrow> heap \<Rightarrow> bool option" where
  "right_separated f st =
     (if alloc_ptr st = 0 \<or> f = 0 then Some False
      else do {
        g \<leftarrow> deref st f;
        outside \<leftarrow> heap_not_in_mem_block st g;
        if outside then Some True
        else do {
          a \<leftarrow> deref st (alloc_ptr st);
          inside \<leftarrow> heap_in_mem_block st a;
          Some (inside \<and> a < g)
        }
      })"

definition left_separated :: "heap \<Rightarrow> bool option" where
  "left_separated st = do {
     outside \<leftarrow> heap_not_in_mem_block st (free_ptr st);
     if outside then Some True
     else do {
       inside \<leftarrow> heap_in_mem_block st (alloc_ptr st);
       Some (inside \<and> free_ptr st \<le> alloc_ptr st)
     }
   }"

partial_function (option) free_before :: "u32 \<Rightarrow> heap \<Rightarrow> heap option" where
  "free_before ptr st = do {
     f \<leftarrow> deref st (free_ptr st);
     outside \<leftarrow> heap_not_in_mem_block st f;
     if outside \<or> f < ptr then
       (if f \<noteq> 0 then free_before ptr (st\<lparr>free_ptr := f\<rparr>) else Some st)
     else Some st
   }"

text \<open>Linking the freed space at \<open>free_ptr\<close>, by what lies to its left and right.\<close>

definition link_free :: "u32 \<Rightarrow> heap \<Rightarrow> heap option" where
  "link_free ptr st = do {
     left_sep \<leftarrow> left_separated st;
     right_sep \<leftarrow> right_separated (free_ptr st) st;
     f \<leftarrow> deref st (free_ptr st);
     if left_sep then
       (if right_sep then do {
          st1 \<leftarrow> assign st ptr f;
          assign st1 (free_ptr st1) ptr
        }
        else do {
          st1 \<leftarrow> (if f \<noteq> 0 then do { g \<leftarrow> deref st f; assign st ptr g } else Some st);
          assign st1 (free_ptr st1) ptr
        })
     else if \<not> right_sep \<and> f \<noteq> 0 then do { g \<leftarrow> deref st f; assign st (free_ptr st) g }
     else Some st
   }"

definition relink_free :: "u32 \<Rightarrow> heap \<Rightarrow> heap option" where
  "relink_free ptr st = do {
     root \<leftarrow> deref st (free_root st);
     inside \<leftarrow> heap_in_mem_block st root;
     if inside \<and> ptr < root then do {
       st1 \<leftarrow> assign st ptr root;
       st2 \<leftarrow> assign st1 (free_root st1) ptr;
       sep \<leftarrow> right_separated ptr st2;
       f \<leftarrow> deref st2 ptr;
       if \<not> sep \<and> f \<noteq> 0 then do { g \<leftarrow> deref st2 f; assign st2 ptr g } else Some st2
     }
     else if root = 0 then do {
       st1 \<leftarrow> assign st (free_root st) ptr;
       assign st1 ptr 0
     }
     else do {
       st1 \<leftarrow> free_before ptr (st\<lparr>free_ptr := root\<rparr>);
       link_free ptr st1
     }
   }"

text \<open>Whether an object is left in the block.\<close>

partial_function (option) block_in_use :: "heap \<Rightarrow> (heap \<times> bool) option" where
  "block_in_use st = do {
     inside \<leftarrow> heap_in_mem_block st (alloc_ptr st);
     if inside then Some (st, True)
     else if alloc_ptr st \<noteq> 0 then do {
       next \<leftarrow> deref st (alloc_ptr st);
       root \<leftarrow> deref st (alloc_root st);
       if next \<noteq> root then block_in_use (st\<lparr>alloc_ptr := next\<rparr>) else Some (st\<lparr>alloc_ptr := next\<rparr>, False)
     }
     else Some (st, False)
   }"

text \<open>Taking the free spaces of the block out of their list.\<close>

partial_function (option) drop_spaces :: "bool \<Rightarrow> heap \<Rightarrow> heap option" where
  "drop_spaces found_ptr st = do {
     inside \<leftarrow> heap_in_mem_block st (free_ptr st);
     if \<not> inside \<and> found_ptr then Some st
     else do {
       st1 \<leftarrow> (if inside then do {
           f \<leftarrow> deref st (free_ptr st);
           st' \<leftarrow> assign st (prev_free_ptr st) f;
           f' \<leftarrow> deref st' (free_ptr st');
           Some (st'\<lparr>free_ptr := f'\<rparr>)
         } else Some st);
       if free_ptr st1 \<noteq> 0 then do {
         st2 \<leftarrow> next_space st1;
         root \<leftarrow> deref st2 (free_root st2);
         if free_ptr st2 \<noteq> root then drop_spaces (inside \<or> found_ptr) st2 else Some st2
       }
       else Some st1
     }
   }"

definition free_clear_blocks :: "u32 \<Rightarrow> heap \<Rightarrow> heap option" where
  "free_clear_blocks ptr st = do {
     let st1 = st\<lparr>h_block := heap_mem_block st ptr\<rparr>;
     root \<leftarrow> deref st1 (alloc_root st1);
     (st2, used) \<leftarrow> block_in_use (st1\<lparr>alloc_ptr := root\<rparr>);
     if used then Some st2
     else do {
       a \<leftarrow> deref st2 (h_block st2);
       b \<leftarrow> buddy_free (h_buddy st2) a;
       f \<leftarrow> deref st2 (free_root st2);
       st3 \<leftarrow> drop_spaces False (st2\<lparr>h_buddy := b, prev_free_ptr := free_root st2, free_ptr := f\<rparr>);
       heap_set_mem_block st3 (h_block st3) 0 0
     }
   }"

definition heap_free :: "heap \<Rightarrow> u32 \<Rightarrow> heap option" where
  "heap_free st ptr0 =
     (if ptr0 = 0 then Some st
      else do {
        let ptr = ptr0 - heap_header_size;
        let st1 = st\<lparr>h_block := heap_mem_block st ptr\<rparr>;
        if h_block st1 = 0 then Some st1
        else do {
          (st2, u) \<leftarrow> unlink_alloc ptr st1;
          (case u of
             Invalid \<Rightarrow> Some st2
           | Heap_empty \<Rightarrow> free_clear_blocks ptr st2
           | Unlinked \<Rightarrow> do { st3 \<leftarrow> relink_free ptr st2; free_clear_blocks ptr st3 })
        }
      })"

section \<open>realloc\<close>

partial_function (option) find_alloc :: "u32 \<Rightarrow> heap \<Rightarrow> heap option" where
  "find_alloc real_ptr st =
     (if alloc_ptr st \<noteq> 0 \<and> alloc_ptr st \<noteq> real_ptr then do {
        next \<leftarrow> deref st (alloc_ptr st);
        find_alloc real_ptr (st\<lparr>alloc_ptr := next\<rparr>)
      } else Some st)"

partial_function (option) find_space :: "u32 \<Rightarrow> heap \<Rightarrow> heap option" where
  "find_space real_ptr st = do {
     outside \<leftarrow> heap_not_in_mem_block st (free_ptr st);
     if outside \<or> free_ptr st < real_ptr then do { st1 \<leftarrow> next_space st; find_space real_ptr st1 }
     else Some st
   }"

definition shrink :: "u32 \<Rightarrow> u32 \<Rightarrow> heap \<Rightarrow> heap option" where
  "shrink real_ptr sz st =
     (if free_ptr st = 0 then Some st
      else do {
        f \<leftarrow> deref st (free_ptr st);
        if avail_size st \<le> sz + heap_header_size then assign st (prev_free_ptr st) f
        else do {
          a \<leftarrow> deref st (alloc_ptr st);
          inside \<leftarrow> heap_in_mem_block st a;
          st1 \<leftarrow> assign st (real_ptr + sz) (if inside \<and> a < free_ptr st then free_ptr st else f);
          assign st1 (prev_free_ptr st1) (real_ptr + sz)
        }
      })"

definition realloc :: "heap \<Rightarrow> u32 \<Rightarrow> u32 \<Rightarrow> (heap \<times> u32) option" where
  "realloc st ptr size0 = (if ptr = 0 then Some (st, 0) else do {
     root \<leftarrow> deref st (alloc_root st);
     if root = 0 then Some (st, 0)
     else do {
       let real_ptr = ptr - heap_header_size;
       st1 \<leftarrow> find_alloc real_ptr (st\<lparr>alloc_ptr := root\<rparr>);
       if alloc_ptr st1 = 0 then Some (st1, 0)
       else do {
         f \<leftarrow> deref st1 (free_root st1);
         st2 \<leftarrow> find_space real_ptr (st1\<lparr>h_block := heap_mem_block st1 real_ptr, prev_free_ptr := free_root st1, free_ptr := f\<rparr>);
         a \<leftarrow> deref st2 (alloc_ptr st2);
         inside \<leftarrow> heap_in_mem_block st2 a;
         e \<leftarrow> heap_mem_block_end st2;
         let st3 = st2\<lparr>avail_size := (if inside then a else e) - real_ptr\<rparr>;
         if avail_size st3 > size0 + heap_header_size
         then map_option (\<lambda>s. (s, ptr)) (shrink real_ptr (size0 + heap_header_size) st3)
         else do {
           st4 \<leftarrow> heap_free st3 ptr;
           let ptr_size = avail_size st4;
           (st5, new_ptr) \<leftarrow> malloc st4 size0;
           if new_ptr = ptr then Some (st5, new_ptr)
           else if new_ptr = 0 then None
           else Some (st5\<lparr>h_mem := fst (memcpy (h_mem st5) new_ptr ptr (ptr_size - heap_header_size))\<rparr>, new_ptr)
         }
       }
     }
   })"

end
