(* ===== verification/HeapLayout.thy ===== *)
theory HeapLayout
  imports Heap
begin

text \<open>
  The heap on one block of the buddy allocator: linked lists in memory, the headers that tile
  the block, the invariant of the heap, and how stores to its cells preserve everything else.
\<close>

section \<open>Cells\<close>

text \<open>Words of memory that do not overlap behave like variables.\<close>

definition cells :: "u32 set \<Rightarrow> bool" where
  "cells K \<longleftrightarrow> (\<forall>a \<in> K. a \<noteq> 0 \<and> fits_memory a 4) \<and>
     (\<forall>a \<in> K. \<forall>b \<in> K. a \<noteq> b \<longrightarrow> range_of a 4 \<inter> range_of b 4 = {})"

lemma cell_store:
  assumes "cells K" "a \<in> K" "b \<in> K"
  shows "load32 (store32 m b w) a = ((load32 m)(b := w)) a"
  using assms load32_store32_other [of a b m w] by (auto simp: cells_def)

lemma cells_subset: "cells K \<Longrightarrow> L \<subseteq> K \<Longrightarrow> cells L"
  unfolding cells_def by blast

section \<open>Linked lists\<close>

primrec linked :: "(u32 \<Rightarrow> u32) \<Rightarrow> u32 \<Rightarrow> u32 list \<Rightarrow> bool" where
  "linked c p [] \<longleftrightarrow> c p = 0"
| "linked c p (x # xs) \<longleftrightarrow> c p = x \<and> x \<noteq> 0 \<and> linked c x xs"

lemma linked_cong: "(\<And>a. a \<in> insert p (set xs) \<Longrightarrow> c a = c' a) \<Longrightarrow> linked c p xs = linked c' p xs"
  by (induction xs arbitrary: p) auto

lemma linked_upd [simp]: "u \<noteq> p \<Longrightarrow> u \<notin> set xs \<Longrightarrow> linked (c(u := v)) p xs = linked c p xs"
  by (induction xs arbitrary: p) auto

lemma linked_append: "linked c p (xs @ ys) \<longleftrightarrow>
    (\<forall>i < length xs. c ((p # xs) ! i) = xs ! i \<and> xs ! i \<noteq> 0) \<and> linked c (last (p # xs)) ys"
proof (induction xs arbitrary: p)
  case (Cons x xs)
  have "(\<forall>i < length (x # xs). c ((p # x # xs) ! i) = (x # xs) ! i \<and> (x # xs) ! i \<noteq> 0) \<longleftrightarrow>
      c p = x \<and> x \<noteq> 0 \<and> (\<forall>i < length xs. c ((x # xs) ! i) = xs ! i \<and> xs ! i \<noteq> 0)"
    by (simp only: length_Cons All_less_Suc2) simp
  then show ?case using Cons.IH [of x] by auto
qed simp

lemma linked_last: "linked c p (xs @ ys) \<Longrightarrow> linked c (last (p # xs)) ys"
  by (simp add: linked_append)

lemma linked_head: "linked c p ys \<Longrightarrow> c p = (case ys of [] \<Rightarrow> 0 | y # _ \<Rightarrow> y)"
  by (cases ys) auto

lemma linked_nonzero: "linked c p xs \<Longrightarrow> x \<in> set xs \<Longrightarrow> x \<noteq> 0"
  by (induction xs arbitrary: p) auto

text \<open>Changing the rest of a list at its last cell.\<close>

lemma linked_splice:
  assumes "linked c p (xs @ ys)" "distinct (p # xs)" "q = last (p # xs)"
    and "linked (c(q := v)) q zs"
  shows "linked (c(q := v)) p (xs @ zs)"
proof -
  have "(c(q := v)) ((p # xs) ! i) = c ((p # xs) ! i)" if "i < length xs" for i
  proof -
    have "(p # xs) ! i \<noteq> last (p # xs)"
      using assms(2) that nth_eq_iff_index_eq [of "p # xs" i "length xs"] by (simp add: last_conv_nth del: last.simps)
    then show ?thesis using assms(3) by simp
  qed
  then show ?thesis using assms(1,3,4) by (simp add: linked_append)
qed

lemma linked_insert:
  assumes "linked c p (xs @ ys)" "distinct (p # xs @ x # ys)" "q = last (p # xs)" "x \<noteq> 0"
  shows "linked (c(x := c q, q := x)) p (xs @ x # ys)"
proof -
  have q: "q \<in> insert p (set xs)" using assms(3) last_in_set [of "p # xs"] by (simp del: last.simps)
  have "linked (c(x := c q)) p (xs @ ys)"
    using assms(1,2) by auto
  moreover have "linked (c(x := c q, q := x)) q (x # ys)"
  proof -
    have "linked c q ys" using linked_last [OF assms(1)] assms(3) by simp
    moreover have "q \<notin> set (x # ys)" using assms(2) q by auto
    ultimately have "linked (c(x := c q, q := x)) x ys" using assms(2) by (cases ys) auto
    then show ?thesis using assms(4) by simp
  qed
  ultimately show ?thesis using linked_splice assms(2,3) by (metis distinct.simps(2) distinct_append append_Cons)
qed

lemma linked_remove:
  assumes "linked c p (xs @ x # ys)" "distinct (p # xs @ x # ys)" "q = last (p # xs)"
  shows "linked (c(q := c x)) p (xs @ ys)"
proof -
  have q: "q \<in> insert p (set xs)" using assms(3) last_in_set [of "p # xs"] by (simp del: last.simps)
  have "linked c q (x # ys)" using linked_last [OF assms(1)] assms(3) by simp
  moreover have "q \<notin> set (x # ys)" using assms(2) q by auto
  ultimately have "linked (c(q := c x)) q ys" by (cases ys) auto
  then show ?thesis using linked_splice [OF assms(1) _ assms(3), of "c x" ys] assms(2) by simp
qed

section \<open>One block\<close>

text \<open>
  The structure with the two roots at \<open>hc\<close>, the table of \<open>N\<close> words at \<open>hb\<close> and the block of \<open>n\<close>
  bytes at \<open>s\<close> are apart, and only the first entry of the table is in use.
\<close>

definition geometry :: "u32 \<Rightarrow> u32 \<Rightarrow> u32 \<Rightarrow> u32 \<Rightarrow> u32 \<Rightarrow> bool" where
  "geometry hc hb N s n \<longleftrightarrow>
     hc \<noteq> 0 \<and> fits_memory hc 8 \<and> hb \<noteq> 0 \<and> fits_memory hb (4 * unat N) \<and> 2 \<le> unat N \<and>
     s \<noteq> 0 \<and> unat s + unat n < 2 ^ 32 \<and> unat n < 2000000000 \<and>
     range_of hc 8 \<inter> range_of hb (4 * unat N) = {} \<and> range_of hc 8 \<inter> range_of s (unat n) = {} \<and>
     range_of hb (4 * unat N) \<inter> range_of s (unat n) = {}"

definition one_entry :: "memory \<Rightarrow> u32 \<Rightarrow> u32 \<Rightarrow> u32 \<Rightarrow> u32 \<Rightarrow> bool" where
  "one_entry m hb N s n \<longleftrightarrow> load32 m hb = s \<and> load32 m (hb + 4) = n \<and>
     (\<forall>i. even i \<and> 0 < i \<and> i < unat N \<longrightarrow> load32 m (hb + 4 * word_of_nat i) = 0)"

abbreviation one_block :: "heap \<Rightarrow> u32 \<Rightarrow> u32 \<Rightarrow> bool" where
  "one_block st s n \<equiv> geometry (heapc st) (heap_blocks st) (heap_blocks_size st) s n \<and>
     one_entry (h_mem st) (heap_blocks st) (heap_blocks_size st) s n"

definition within :: "u32 \<Rightarrow> u32 \<Rightarrow> u32 \<Rightarrow> bool" where
  "within s n p \<longleftrightarrow> unat s \<le> unat p \<and> unat p < unat s + unat n"

lemma unat_block_end: "geometry hc hb N s n \<Longrightarrow> unat (s + n) = unat s + unat n"
  by (simp add: geometry_def unat_add_less)

lemma within_iff: "geometry hc hb N s n \<Longrightarrow> within s n p \<longleftrightarrow> s \<le> p \<and> p < s + n"
  by (simp add: within_def word_le_nat_alt word_less_nat_alt unat_block_end)

lemma not_within_null: "geometry hc hb N s n \<Longrightarrow> \<not> within s n 0"
  by (simp add: within_def geometry_def unat_eq_0)

lemma not_within_root: "geometry hc hb N s n \<Longrightarrow> \<not> within s n hc"
  by (auto simp: within_def geometry_def range_of_def)

lemma heap_mem_block_one:
  assumes "one_block st s n"
  shows "heap_mem_block st p = (if within s n p then heap_blocks st else 0)"
proof -
  let ?N = "unat (heap_blocks_size st)"
  have later: "even i \<Longrightarrow> 0 < i \<Longrightarrow> heap_mem_block_from st p i = 0" for i
  proof (induction "?N - i" arbitrary: i rule: less_induct)
    case less
    have e: "block_entry st i = 0" if "i < ?N"
      using assms less.prems that by (simp add: block_entry_def one_entry_def)
    have "heap_mem_block_from st p (i + 2) = 0" if "i < ?N"
      using less.hyps [of "i + 2"] less.prems that by simp
    then show ?case using e by (subst heap_mem_block_from.simps) simp
  qed
  have "block_entry st 0 = s" "block_entry st 1 = n" "0 < ?N" "s \<noteq> 0"
    using assms by (auto simp: block_entry_def one_entry_def geometry_def)
  moreover have "within s n p \<longleftrightarrow> s \<le> p \<and> p < s + n" using assms within_iff by blast
  ultimately show ?thesis unfolding heap_mem_block_def
    by (subst heap_mem_block_from.simps) (simp add: later)
qed

lemma heap_not_in_one:
  assumes "one_block st s n" "h_block st = heap_blocks st"
  shows "heap_mem_block_end st = Some (s + n)" "heap_not_in_mem_block st p = Some (\<not> within s n p)"
    "heap_in_mem_block st p = Some (within s n p)"
proof -
  have b: "unat (heap_blocks st) + 8 \<le> 2 ^ 32" using assms(1) by (simp add: geometry_def fits_memory_def)
  have "heap_blocks st + 4 \<noteq> 0"
  proof
    assume "heap_blocks st + 4 = 0"
    then show False using b unat_add_nat [of "heap_blocks st" 4] by simp
  qed
  then have d: "deref st (h_block st) = Some s" "deref st (h_block st + 4) = Some n"
    using assms by (simp_all add: deref_def geometry_def one_entry_def)
  show "heap_mem_block_end st = Some (s + n)" using d by (simp add: heap_mem_block_end_def)
  moreover have "within s n p \<longleftrightarrow> s \<le> p \<and> p < s + n" using assms(1) within_iff by blast
  ultimately show "heap_not_in_mem_block st p = Some (\<not> within s n p)"
    using d by (auto simp: heap_not_in_mem_block_def)
  then show "heap_in_mem_block st p = Some (within s n p)" by (simp add: heap_in_mem_block_def)
qed

section \<open>The layout of a block\<close>

text \<open>
  The headers in a block, each with whether it starts an object: they ascend, with room for a
  header and a byte each, and no free space follows another one.
\<close>

type_synonym layout = "(u32 \<times> bool) list"

fun laid :: "nat \<Rightarrow> layout \<Rightarrow> bool" where
  "laid e [] \<longleftrightarrow> True"
| "laid e [(a, u)] \<longleftrightarrow> unat a + 4 < e"
| "laid e ((a, u) # (b, v) # hs) \<longleftrightarrow> unat a + 4 < unat b \<and> (u \<or> v) \<and> laid e ((b, v) # hs)"

definition objects :: "layout \<Rightarrow> u32 list" where "objects hs = map fst (filter snd hs)"
definition spaces :: "layout \<Rightarrow> u32 list" where "spaces hs = map fst (filter (Not \<circ> snd) hs)"

lemma objects_simps [simp]:
  "objects [] = []" "objects ((a, True) # hs) = a # objects hs" "objects ((a, False) # hs) = objects hs"
  "objects (hs @ hs') = objects hs @ objects hs'"
  by (simp_all add: objects_def)

lemma spaces_simps [simp]:
  "spaces [] = []" "spaces ((a, True) # hs) = spaces hs" "spaces ((a, False) # hs) = a # spaces hs"
  "spaces (hs @ hs') = spaces hs @ spaces hs'"
  by (simp_all add: spaces_def)

text \<open>Where the space that starts before \<open>hs\<close> ends.\<close>

definition next_header :: "nat \<Rightarrow> layout \<Rightarrow> nat" where
  "next_header e hs = (case hs of [] \<Rightarrow> e | (a, _) # _ \<Rightarrow> unat a)"

lemma next_header_simps [simp]: "next_header e [] = e" "next_header e ((a, u) # hs) = unat a"
  by (simp_all add: next_header_def)

lemma laid_Cons: "laid e ((a, u) # hs) \<longleftrightarrow>
    unat a + 4 < next_header e hs \<and> (hs = [] \<or> u \<or> snd (hd hs)) \<and> laid e hs"
  by (cases hs) (auto split: prod.splits)

lemma laid_append: "laid e (xs @ (b, v) # ys) \<longleftrightarrow>
    laid (unat b) xs \<and> (xs = [] \<or> snd (last xs) \<or> v) \<and> laid e ((b, v) # ys)"
proof (induction xs)
  case (Cons x xs)
  then show ?case by (cases x; cases xs) (auto simp: laid_Cons)
qed simp

lemma laid_next_le: "laid e hs \<Longrightarrow> next_header e hs \<le> e"
proof (induction hs)
  case (Cons h hs)
  then show ?case by (cases h) (auto simp: laid_Cons)
qed simp

lemma laid_below: "laid e hs \<Longrightarrow> x \<in> set hs \<Longrightarrow> unat (fst x) + 4 < e"
proof (induction hs)
  case (Cons h hs)
  then show ?case using laid_next_le [of e hs] by (cases h) (auto simp: laid_Cons)
qed simp

lemma laid_above: "laid e ((a, u) # hs) \<Longrightarrow> x \<in> set hs \<Longrightarrow> unat a + 4 < unat (fst x)"
proof (induction hs arbitrary: a u)
  case (Cons h hs)
  then show ?case by (cases h) fastforce
qed simp

lemma laid_split:
  assumes "laid e (xs @ (b, v) # ys)"
  shows "\<And>x. x \<in> set xs \<Longrightarrow> unat (fst x) + 4 < unat b" "\<And>y. y \<in> set ys \<Longrightarrow> unat b + 4 < unat (fst y)"
    "unat b + 4 < next_header e ys" "unat b + 4 < e"
  using assms laid_below [of "unat b" xs] laid_above [of e b v ys] laid_below [of e "(b, v) # ys" "(b, v)"]
  by (auto simp: laid_append laid_Cons)

lemma objects_in: "x \<in> set (objects hs) \<longleftrightarrow> (x, True) \<in> set hs"
  by (auto simp: objects_def image_iff)

lemma spaces_in: "x \<in> set (spaces hs) \<longleftrightarrow> (x, False) \<in> set hs"
  by (auto simp: spaces_def image_iff)

text \<open>All headers in the block, the first at its start.\<close>

definition tiles :: "u32 \<Rightarrow> u32 \<Rightarrow> layout \<Rightarrow> bool" where
  "tiles s n hs \<longleftrightarrow> hs \<noteq> [] \<and> fst (hd hs) = s \<and> laid (unat s + unat n) hs"

lemma tiles_within:
  assumes "tiles s n hs" "(a, u) \<in> set hs"
  shows "within s n a \<and> unat a + 4 < unat s + unat n"
proof -
  have l: "laid (unat s + unat n) hs" using assms(1) by (simp add: tiles_def)
  have "unat s \<le> unat a"
    using assms laid_above [of "unat s + unat n" s "snd (hd hs)" "tl hs" "(a, u)"]
    by (cases hs) (auto simp: tiles_def)
  then show ?thesis using laid_below [OF l assms(2)] by (simp add: within_def)
qed

lemma distinct_headers: "laid e hs \<Longrightarrow> distinct (map fst hs)"
proof (induction hs)
  case (Cons h hs)
  then show ?case using laid_above [of e "fst h" "snd h" hs] by (cases h) (fastforce simp: laid_Cons)
qed simp

text \<open>The bytes of the objects behind their headers.\<close>

fun bodies :: "nat \<Rightarrow> layout \<Rightarrow> nat set" where
  "bodies e [] = {}"
| "bodies e ((a, u) # hs) = (if u then {unat a + 4 ..< next_header e hs} else {}) \<union> bodies e hs"

lemma bodies_append: "bodies e (xs @ (b, v) # ys) = bodies (unat b) xs \<union> bodies e ((b, v) # ys)"
proof (induction xs)
  case (Cons x xs)
  then show ?case by (cases x; cases xs) auto
qed simp

lemma bodies_in: "x \<in> bodies e hs \<Longrightarrow> \<exists>a u. (a, u) \<in> set hs \<and> unat a + 4 \<le> x"
proof (induction hs)
  case (Cons h hs)
  then show ?case by (cases h) (auto split: if_splits)
qed simp

lemma bodies_above:
  assumes "laid e ((a, u) # hs)" "x \<in> bodies e ((a, u) # hs)"
  shows "unat a + 4 \<le> x"
  using bodies_in [OF assms(2)] laid_above [OF assms(1)] by fastforce

lemma bodies_below: "laid e hs \<Longrightarrow> x \<in> bodies e hs \<Longrightarrow> x < e"
proof (induction hs)
  case (Cons h hs)
  then show ?case using laid_next_le [of e hs] by (cases h) (fastforce simp: laid_Cons split: if_splits)
qed simp

lemma header_not_body:
  assumes "laid e hs" "(a, u) \<in> set hs"
  shows "range_of a 4 \<inter> bodies e hs = {}"
proof -
  obtain xs ys where hs: "hs = xs @ (a, u) # ys" using assms(2) by (meson split_list)
  have l: "laid (unat a) xs" "laid e ((a, u) # ys)" using assms(1) by (simp_all add: hs laid_append)
  show ?thesis unfolding hs bodies_append range_of_def
    using bodies_below [OF l(1)] bodies_above [OF l(2)] by fastforce
qed

text \<open>The roots and the headers do not overlap.\<close>

definition heap_cells :: "u32 \<Rightarrow> layout \<Rightarrow> u32 set" where
  "heap_cells hc hs = insert hc (insert (hc + 4) (fst ` set hs))"

lemma heap_cells_in [simp]: "hc \<in> heap_cells hc hs" "hc + 4 \<in> heap_cells hc hs"
  "x \<in> set (objects hs) \<Longrightarrow> x \<in> heap_cells hc hs" "x \<in> set (spaces hs) \<Longrightarrow> x \<in> heap_cells hc hs"
  by (force simp: heap_cells_def objects_def spaces_def)+

lemma root_cells:
  assumes "geometry hc hb N s n"
  shows "unat (hc + 4) = unat hc + 4" "hc + 4 \<noteq> 0" "fits_memory hc 4" "fits_memory (hc + 4) 4"
    "range_of hc 4 \<subseteq> range_of hc 8" "range_of (hc + 4) 4 \<subseteq> range_of hc 8"
proof -
  have b: "unat hc + 8 \<le> 2 ^ 32" using assms by (simp add: geometry_def fits_memory_def)
  then show u: "unat (hc + 4) = unat hc + 4" using unat_add_nat [of hc 4] by simp
  then show "hc + 4 \<noteq> 0" by auto
  show "fits_memory hc 4" "fits_memory (hc + 4) 4" "range_of hc 4 \<subseteq> range_of hc 8" "range_of (hc + 4) 4 \<subseteq> range_of hc 8"
    using b u by (auto simp: fits_memory_def range_of_def)
qed

lemma header_cell:
  assumes "geometry hc hb N s n" "tiles s n hs" "(a, u) \<in> set hs"
  shows "a \<noteq> 0" "fits_memory a 4" "range_of a 4 \<subseteq> range_of s (unat n)"
proof -
  have w: "within s n a" "unat a + 4 < unat s + unat n" using tiles_within [OF assms(2,3)] by auto
  show "a \<noteq> 0" using w(1) not_within_null [OF assms(1)] by auto
  show "fits_memory a 4" using w(2) assms(1) by (simp add: fits_memory_def geometry_def)
  show "range_of a 4 \<subseteq> range_of s (unat n)" using w by (auto simp: range_of_def within_def)
qed

lemma headers_apart:
  assumes "laid e hs" "(a, u) \<in> set hs" "(b, v) \<in> set hs" "a \<noteq> b"
  shows "range_of a 4 \<inter> range_of b 4 = {}"
proof -
  obtain xs ys where hs: "hs = xs @ (a, u) # ys" using assms(2) by (meson split_list)
  consider "(b, v) \<in> set xs" | "(b, v) \<in> set ys" using assms(3,4) hs by auto
  then show ?thesis
    using laid_split(1,2) [OF assms(1) [unfolded hs], of "(b, v)"] by cases (auto simp: range_of_def)
qed

lemma cells_heap:
  assumes g: "geometry hc hb N s n" and t: "tiles s n hs"
  shows "cells (heap_cells hc hs)"
proof -
  have l: "laid (unat s + unat n) hs" using t by (simp add: tiles_def)
  have d: "range_of hc 8 \<inter> range_of s (unat n) = {}" using g by (simp add: geometry_def)
  note r = root_cells [OF g] and h = header_cell [OF g t]
  have rh: "range_of hc 4 \<inter> range_of a 4 = {}" "range_of (hc + 4) 4 \<inter> range_of a 4 = {}" if "(a, u) \<in> set hs" for a u
    using h(3) [OF that] r(5,6) d by blast+
  have rr: "range_of hc 4 \<inter> range_of (hc + 4) 4 = {}" using r(1) by (auto simp: range_of_def)
  have "hc \<noteq> 0" using g by (simp add: geometry_def)
  then have 1: "a \<noteq> 0 \<and> fits_memory a 4" if "a \<in> heap_cells hc hs" for a
    using that r h(1,2) by (auto simp: heap_cells_def)
  have k: "a = hc \<or> a = hc + 4 \<or> (\<exists>u. (a, u) \<in> set hs)" if "a \<in> heap_cells hc hs" for a
    using that by (auto simp: heap_cells_def)
  have 2: "range_of a 4 \<inter> range_of b 4 = {}" if ab: "a \<in> heap_cells hc hs" "b \<in> heap_cells hc hs" "a \<noteq> b" for a b
    using k [OF ab(1)] k [OF ab(2)] ab(3) rh rr headers_apart [OF l] by (elim disjE exE; blast)
  show ?thesis using 1 2 unfolding cells_def by blast
qed

text \<open>What the stores of an operation do not reach: the bodies of the objects, and everything
  outside the two roots and the block.\<close>

definition kept :: "u32 \<Rightarrow> u32 \<Rightarrow> u32 \<Rightarrow> layout \<Rightarrow> nat set" where
  "kept hc s n hs = bodies (unat s + unat n) hs \<union> - (range_of hc 8 \<union> range_of s (unat n))"

lemma kept_mono: "bodies (unat s + unat n) hs \<subseteq> bodies (unat s + unat n) hs' \<Longrightarrow> kept hc s n hs \<subseteq> kept hc s n hs'"
  by (auto simp: kept_def)

text \<open>A cell is apart from the table of blocks and from what is kept.\<close>

lemma cell_apart:
  assumes g: "geometry hc hb N s n" and t: "tiles s n hs" and a: "a \<in> heap_cells hc hs"
  shows "range_of a 4 \<inter> range_of hb (4 * unat N) = {}" "range_of a 4 \<inter> kept hc s n hs = {}"
proof -
  have l: "laid (unat s + unat n) hs" using t by (simp add: tiles_def)
  have d: "range_of hc 8 \<inter> range_of s (unat n) = {}" "range_of hc 8 \<inter> range_of hb (4 * unat N) = {}"
    "range_of hb (4 * unat N) \<inter> range_of s (unat n) = {}" using g by (simp_all add: geometry_def)
  have b: "bodies (unat s + unat n) hs \<subseteq> range_of s (unat n)"
  proof
    fix x assume x: "x \<in> bodies (unat s + unat n) hs"
    obtain a u where a: "(a, u) \<in> set hs" "unat a + 4 \<le> x" using bodies_in [OF x] by blast
    then show "x \<in> range_of s (unat n)"
      using tiles_within [OF t a(1)] bodies_below [OF l x] by (simp add: range_of_def within_def)
  qed
  from a consider (root) "range_of a 4 \<subseteq> range_of hc 8" | (header) u where "(a, u) \<in> set hs"
    using root_cells(5,6) [OF g] by (auto simp: heap_cells_def)
  then have "range_of a 4 \<inter> range_of hb (4 * unat N) = {} \<and> range_of a 4 \<inter> kept hc s n hs = {}"
  proof cases
    case root
    then show ?thesis using d(1,2) b unfolding kept_def by blast
  next
    case header
    have "range_of a 4 \<subseteq> range_of s (unat n)" by (rule header_cell(3) [OF g t header])
    then show ?thesis using header_not_body [OF l header] d(3) unfolding kept_def by blast
  qed
  then show "range_of a 4 \<inter> range_of hb (4 * unat N) = {}" "range_of a 4 \<inter> kept hc s n hs = {}"
    by simp_all
qed

text \<open>What a run of stores to the cells does: the cells hold \<open>c\<close>, all else is as in \<open>m0\<close>.\<close>

definition tracks :: "u32 \<Rightarrow> u32 \<Rightarrow> u32 \<Rightarrow> u32 \<Rightarrow> u32 \<Rightarrow> layout \<Rightarrow> memory \<Rightarrow> memory \<Rightarrow> (u32 \<Rightarrow> u32) \<Rightarrow> bool" where
  "tracks hc hb N s n hs m0 m c \<longleftrightarrow> geometry hc hb N s n \<and> tiles s n hs \<and> one_entry m hb N s n \<and>
     (\<forall>b \<in> heap_cells hc hs. load32 m b = c b) \<and> same_on m0 m (kept hc s n hs)"

lemma tracks_start:
  "geometry hc hb N s n \<Longrightarrow> tiles s n hs \<Longrightarrow> one_entry m hb N s n \<Longrightarrow> tracks hc hb N s n hs m m (load32 m)"
  by (simp add: tracks_def same_on_def)

lemma tracks_load: "tracks hc hb N s n hs m0 m c \<Longrightarrow> a \<in> heap_cells hc hs \<Longrightarrow> load32 m a = c a"
  by (simp add: tracks_def)

lemma store_outside_table:
  assumes "fits_memory hb (4 * k)" "fits_memory a 4" "range_of a 4 \<inter> range_of hb (4 * k) = {}" "i < k"
  shows "load32 (store32 m a w) (hb + 4 * word_of_nat i) = load32 m (hb + 4 * word_of_nat i)"
proof -
  have u: "unat (hb + word_of_nat (4 * i)) = unat hb + 4 * i"
    using assms(1,4) by (intro unat_add_nat) (simp add: fits_memory_def)
  have "load32 (store32 m a w) (hb + word_of_nat (4 * i)) = load32 m (hb + word_of_nat (4 * i))"
  proof (rule load32_store32_other [OF _ assms(2)])
    show "fits_memory (hb + word_of_nat (4 * i)) 4" using assms(1,4) u by (simp add: fits_memory_def)
    have "range_of (hb + word_of_nat (4 * i)) 4 \<subseteq> range_of hb (4 * k)" using u assms(4) by (auto simp: range_of_def)
    then show "range_of (hb + word_of_nat (4 * i)) 4 \<inter> range_of a 4 = {}" using assms(3) by blast
  qed
  then show ?thesis by simp
qed

lemma tracks_store:
  assumes t: "tracks hc hb N s n hs m0 m c" and a: "a \<in> heap_cells hc hs"
  shows "tracks hc hb N s n hs m0 (store32 m a w) (c(a := w))"
proof -
  have g: "geometry hc hb N s n" "tiles s n hs" "one_entry m hb N s n" using t by (auto simp: tracks_def)
  have k: "cells (heap_cells hc hs)" by (rule cells_heap [OF g(1,2)])
  have fa: "fits_memory a 4" using k a by (simp add: cells_def)
  have fb: "fits_memory hb (4 * unat N)" "2 \<le> unat N" using g(1) by (simp_all add: geometry_def)
  note ap = cell_apart [OF g(1,2) a]
  have e: "load32 (store32 m a w) (hb + 4 * word_of_nat i) = load32 m (hb + 4 * word_of_nat i)" if "i < unat N" for i
    using store_outside_table [OF fb(1) fa ap(1) that] .
  have "one_entry (store32 m a w) hb N s n"
    using g(3) e [of 0] e [of 1] e fb(2) by (simp add: one_entry_def)
  moreover have "\<forall>b \<in> heap_cells hc hs. load32 (store32 m a w) b = (c(a := w)) b"
    using cell_store [OF k _ a] t by (auto simp: tracks_def)
  moreover have "same_on m0 (store32 m a w) (kept hc s n hs)"
    unfolding same_on_def
  proof (intro allI impI)
    fix x :: u32 assume x: "unat x \<in> kept hc s n hs"
    then have "store32 m a w x = m x" using ap(2) by (intro store32_outside [OF _ fa]) blast
    then show "m0 x = store32 m a w x" using t x by (simp add: tracks_def same_on_def)
  qed
  ultimately show ?thesis using g by (simp add: tracks_def)
qed

section \<open>The invariant\<close>

definition heap_ok :: "heap \<Rightarrow> u32 \<Rightarrow> u32 \<Rightarrow> layout \<Rightarrow> bool" where
  "heap_ok st s n hs \<longleftrightarrow> one_block st s n \<and> tiles s n hs \<and> objects hs \<noteq> [] \<and>
     linked (load32 (h_mem st)) (alloc_root st) (objects hs) \<and> linked (load32 (h_mem st)) (free_root st) (spaces hs)"

lemma roots_cache [simp]:
  "alloc_root (st\<lparr>h_mem := m\<rparr>) = alloc_root st" "free_root (st\<lparr>h_mem := m\<rparr>) = free_root st"
  "alloc_root (st\<lparr>alloc_ptr := x\<rparr>) = alloc_root st" "free_root (st\<lparr>alloc_ptr := x\<rparr>) = free_root st"
  "alloc_root (st\<lparr>prev_free_ptr := x\<rparr>) = alloc_root st" "free_root (st\<lparr>prev_free_ptr := x\<rparr>) = free_root st"
  "alloc_root (st\<lparr>free_ptr := x\<rparr>) = alloc_root st" "free_root (st\<lparr>free_ptr := x\<rparr>) = free_root st"
  "alloc_root (st\<lparr>avail_size := x\<rparr>) = alloc_root st" "free_root (st\<lparr>avail_size := x\<rparr>) = free_root st"
  "alloc_root (st\<lparr>best_avail_size := x\<rparr>) = alloc_root st" "free_root (st\<lparr>best_avail_size := x\<rparr>) = free_root st"
  "alloc_root (st\<lparr>best_alloc_ptr := x\<rparr>) = alloc_root st" "free_root (st\<lparr>best_alloc_ptr := x\<rparr>) = free_root st"
  "alloc_root (st\<lparr>best_free_ptr := x\<rparr>) = alloc_root st" "free_root (st\<lparr>best_free_ptr := x\<rparr>) = free_root st"
  "alloc_root (st\<lparr>best_prev_free_ptr := x\<rparr>) = alloc_root st" "free_root (st\<lparr>best_prev_free_ptr := x\<rparr>) = free_root st"
  "alloc_root (st\<lparr>h_block := x\<rparr>) = alloc_root st" "free_root (st\<lparr>h_block := x\<rparr>) = free_root st"
  "alloc_root (st\<lparr>h_buddy := b\<rparr>) = alloc_root st" "free_root (st\<lparr>h_buddy := b\<rparr>) = free_root st"
  "alloc_root (st\<lparr>block_size := x\<rparr>) = alloc_root st" "free_root (st\<lparr>block_size := x\<rparr>) = free_root st"
  "alloc_root (st\<lparr>temp_ptr := x\<rparr>) = alloc_root st" "free_root (st\<lparr>temp_ptr := x\<rparr>) = free_root st"
  by (simp_all add: alloc_root_def free_root_def)

lemma heap_ok_cache [simp]:
  "heap_ok (st\<lparr>alloc_ptr := x\<rparr>) s n hs = heap_ok st s n hs" "heap_ok (st\<lparr>prev_free_ptr := x\<rparr>) s n hs = heap_ok st s n hs"
  "heap_ok (st\<lparr>free_ptr := x\<rparr>) s n hs = heap_ok st s n hs" "heap_ok (st\<lparr>avail_size := x\<rparr>) s n hs = heap_ok st s n hs"
  "heap_ok (st\<lparr>best_avail_size := x\<rparr>) s n hs = heap_ok st s n hs" "heap_ok (st\<lparr>best_alloc_ptr := x\<rparr>) s n hs = heap_ok st s n hs"
  "heap_ok (st\<lparr>best_free_ptr := x\<rparr>) s n hs = heap_ok st s n hs" "heap_ok (st\<lparr>best_prev_free_ptr := x\<rparr>) s n hs = heap_ok st s n hs"
  "heap_ok (st\<lparr>h_block := x\<rparr>) s n hs = heap_ok st s n hs" "heap_ok (st\<lparr>temp_ptr := x\<rparr>) s n hs = heap_ok st s n hs"
  "heap_ok (st\<lparr>h_buddy := b\<rparr>) s n hs = heap_ok st s n hs" "heap_ok (st\<lparr>block_size := x\<rparr>) s n hs = heap_ok st s n hs"
  by (simp_all add: heap_ok_def alloc_root_def free_root_def)

lemma heap_okD:
  assumes "heap_ok st s n hs"
  shows "one_block st s n" "tiles s n hs" "laid (unat s + unat n) hs" "objects hs \<noteq> []"
    "linked (load32 (h_mem st)) (alloc_root st) (objects hs)" "linked (load32 (h_mem st)) (free_root st) (spaces hs)"
    "alloc_root st \<noteq> 0" "free_root st \<noteq> 0" "\<not> within s n (alloc_root st)"
proof -
  have g: "geometry (heapc st) (heap_blocks st) (heap_blocks_size st) s n" using assms by (simp add: heap_ok_def)
  show "one_block st s n" "tiles s n hs" "objects hs \<noteq> []" "laid (unat s + unat n) hs"
    "linked (load32 (h_mem st)) (alloc_root st) (objects hs)" "linked (load32 (h_mem st)) (free_root st) (spaces hs)"
    using assms by (simp_all add: heap_ok_def tiles_def)
  show "alloc_root st \<noteq> 0" "free_root st \<noteq> 0" "\<not> within s n (alloc_root st)"
    using root_cells(2) [OF g] not_within_root [OF g] g by (simp_all add: alloc_root_def free_root_def geometry_def)
qed

end
