(* ===== verification/HeapMalloc.thy ===== *)
theory HeapMalloc
  imports HeapLayout
begin

text \<open>
  \<open>malloc\<close> on a heap of one block takes the first or the smallest free space that is large
  enough, and nothing else changes.
\<close>

section \<open>The search for a space\<close>

lemma closest_alloc_run:
  assumes "linked (load32 (h_mem st)) (alloc_ptr st) (us @ vs)" "alloc_ptr st \<noteq> 0"
    and "one_block st s n" "h_block st = heap_blocks st"
    and "\<And>x. x \<in> set us \<Longrightarrow> within s n x \<and> x < free_ptr st" "\<And>v. v \<in> set vs \<Longrightarrow> \<not> v < free_ptr st"
  shows "closest_alloc st = Some (st\<lparr>alloc_ptr := last (alloc_ptr st # us)\<rparr>)"
  using assms
proof (induction us arbitrary: st)
  case Nil
  have g: "geometry (heapc st) (heap_blocks st) (heap_blocks_size st) s n" using Nil.prems by simp
  show ?case
  proof (cases vs)
    case Nil
    then show ?thesis using Nil.prems not_within_null [OF g] heap_not_in_one(3) [OF Nil.prems(3,4)]
      by (subst closest_alloc.simps) (simp add: deref_def)
  next
    case (Cons v vs')
    then show ?thesis using Nil.prems heap_not_in_one(3) [OF Nil.prems(3,4)]
      by (subst closest_alloc.simps) (simp add: deref_def)
  qed
next
  case (Cons x us)
  have x: "load32 (h_mem st) (alloc_ptr st) = x" "x \<noteq> 0" "within s n x" "x < free_ptr st"
    using Cons.prems by auto
  have "closest_alloc (st\<lparr>alloc_ptr := x\<rparr>) = Some (st\<lparr>alloc_ptr := x, alloc_ptr := last (x # us)\<rparr>)"
    using Cons.IH [of "st\<lparr>alloc_ptr := x\<rparr>"] Cons.prems x(2) by simp
  then show ?case using Cons.prems(2) x heap_not_in_one(3) [OF Cons.prems(3,4), of x]
    by (subst closest_alloc.simps) (simp add: deref_def)
qed

lemma available_size_run:
  assumes "linked (load32 (h_mem st)) (alloc_ptr st) vs" "alloc_ptr st \<noteq> 0"
    and "one_block st s n" "h_block st = heap_blocks st" "within s n (free_ptr st)"
    and "\<And>v. v \<in> set vs \<Longrightarrow> within s n v" "vs = [] \<Longrightarrow> within s n (alloc_ptr st)"
  shows "available_size sz st = Some (st\<lparr>avail_size := (case vs of [] \<Rightarrow> s + n | v # _ \<Rightarrow> v) - free_ptr st\<rparr>, True)"
proof (cases vs)
  case (Cons v vs')
  then show ?thesis using assms heap_not_in_one(3) [OF assms(3,4)]
    by (simp add: available_size_def deref_def)
next
  case Nil
  have g: "geometry (heapc st) (heap_blocks st) (heap_blocks_size st) s n" using assms(3) by simp
  then have hb: "heap_blocks st \<noteq> 0" by (simp add: geometry_def)
  let ?st1 = "st\<lparr>avail_size := s + n - free_ptr st\<rparr>"
  have "reach_block False ?st1 = Some ?st1"
    using assms(2,3,4) assms(1,7) Nil heap_not_in_one(2) [of ?st1 s n]
    by (subst reach_block.simps) (simp add: deref_def)
  then show ?thesis
    using assms Nil hb not_within_null [OF g] heap_not_in_one [OF assms(3,4)] heap_mem_block_one [OF assms(3)]
    by (simp add: available_size_def deref_def Let_def)
qed

lemma last_last: "last (last (a # xs) # ys) = last (a # xs @ ys)"
  by (induction xs arbitrary: a) auto

lemma space_neighbours:
  assumes "laid e (pre @ (f, False) # post)"
  shows "post = [] \<or> (\<exists>y post'. post = (y, True) # post')" "pre = [] \<or> (\<exists>y pre'. pre = pre' @ [(y, True)])"
proof -
  have "post = [] \<or> snd (hd post)" "pre = [] \<or> snd (last pre)" using assms by (auto simp: laid_append laid_Cons)
  then show "post = [] \<or> (\<exists>y post'. post = (y, True) # post')" "pre = [] \<or> (\<exists>y pre'. pre = pre' @ [(y, True)])"
    by (cases post, auto) (cases pre rule: rev_cases, auto)+
qed

lemma headers_order:
  assumes "laid e (pre @ (f, v) # post)"
  shows "x \<in> set (objects pre) \<Longrightarrow> x < f" "x \<in> set (objects post) \<Longrightarrow> f < x"
    "x \<in> set (spaces pre) \<Longrightarrow> x < f" "x \<in> set (spaces post) \<Longrightarrow> f < x"
  using laid_split(1) [OF assms, of "(x, True)"] laid_split(1) [OF assms, of "(x, False)"]
    laid_split(2) [OF assms, of "(x, True)"] laid_split(2) [OF assms, of "(x, False)"]
  by (simp_all add: objects_in spaces_in word_less_nat_alt)

lemma headers_within:
  assumes "tiles s n hs"
  shows "x \<in> set (objects hs) \<Longrightarrow> within s n x" "x \<in> set (spaces hs) \<Longrightarrow> within s n x"
  using tiles_within [OF assms] by (auto simp: objects_in spaces_in)

text \<open>The size of the free space at \<open>f\<close> that ends with the first object behind it.\<close>

definition space_size :: "u32 \<Rightarrow> u32 \<Rightarrow> u32 \<Rightarrow> layout \<Rightarrow> u32" where
  "space_size s n f post = (case objects post of [] \<Rightarrow> s + n | v # _ \<Rightarrow> v) - f"

lemma unat_space_size:
  assumes "geometry hc hb N s n" "tiles s n (pre @ (f, False) # post)"
  shows "unat (space_size s n f post) = next_header (unat s + unat n) post - unat f" "4 < unat (space_size s n f post)"
    "unat f + unat (space_size s n f post) \<le> unat s + unat n"
proof -
  have l: "laid (unat s + unat n) (pre @ (f, False) # post)" using assms(2) by (simp add: tiles_def)
  have b: "unat f + 4 < next_header (unat s + unat n) post" by (rule laid_split(3) [OF l])
  have le: "next_header (unat s + unat n) post \<le> unat s + unat n"
    using l by (intro laid_next_le) (simp add: laid_append laid_Cons)
  have "unat (space_size s n f post) = next_header (unat s + unat n) post - unat f"
    using space_neighbours(1) [OF l] b unat_block_end [OF assms(1)]
    by (auto simp: space_size_def unat_sub word_le_nat_alt)
  then show "unat (space_size s n f post) = next_header (unat s + unat n) post - unat f" "4 < unat (space_size s n f post)"
    "unat f + unat (space_size s n f post) \<le> unat s + unat n"
    using b le by auto
qed

lemma consider_space_fields [simp]:
  "h_mem (fst (consider_space ff sz st)) = h_mem st" "prev_free_ptr (fst (consider_space ff sz st)) = prev_free_ptr st"
  by (simp_all add: consider_space_def)

text \<open>The steps of one round of the search over the space at \<open>f\<close>: its block is located, the object
  before it found, its size computed, and the next space fetched.\<close>

lemma search_locates:
  assumes "heap_ok st s n (pre @ (f, False) # post)" "free_ptr st = f" "h_block st = 0 \<or> h_block st = heap_blocks st"
  shows "locate_block st = Some (st\<lparr>h_block := heap_blocks st\<rparr>)" "within s n f" "f \<noteq> 0" "heap_blocks st \<noteq> 0"
proof -
  note D = heap_okD [OF assms(1)]
  show fw: "within s n f" "f \<noteq> 0" using tiles_within [OF D(2), of f False] D(1) not_within_null by auto
  show hb: "heap_blocks st \<noteq> 0" using D(1) by (simp add: geometry_def)
  show "locate_block st = Some (st\<lparr>h_block := heap_blocks st\<rparr>)"
    using assms(2,3) fw hb heap_mem_block_one [OF D(1)] heap_not_in_one(2) [OF D(1)]
    by (auto simp: locate_block_def)
qed

lemma last_alloc_nonzero:
  "heap_ok st s n hs \<Longrightarrow> set xs \<subseteq> set (objects hs) \<Longrightarrow> last (alloc_root st # xs) \<noteq> 0"
  using heap_okD(7) [of st s n hs] linked_nonzero [OF heap_okD(5), of st s n hs] by (cases xs rule: rev_cases) auto

lemma search_closest:
  assumes ok: "heap_ok st s n (pre @ (f, False) # post)" and pre: "pre = pre0 @ pre1"
    and st: "free_ptr st = f" "alloc_ptr st = last (alloc_root st # objects pre0)"
  shows "closest_alloc (st\<lparr>h_block := heap_blocks st\<rparr>) =
      Some (st\<lparr>h_block := heap_blocks st, alloc_ptr := last (alloc_root st # objects pre)\<rparr>)" "alloc_ptr st \<noteq> 0"
proof -
  note D = heap_okD [OF ok]
  have before: "within s n x \<and> x < f" if "x \<in> set (objects pre1)" for x
    using headers_order(1) [OF D(3)] headers_within(1) [OF D(2)] that pre by simp
  have behind: "\<not> v < f" if "v \<in> set (objects post)" for v using headers_order(2) [OF D(3) that] by auto
  have lk: "linked (load32 (h_mem st)) (alloc_ptr st) (objects pre1 @ objects post)"
    unfolding st(2) by (rule linked_last) (use D(5) pre in simp)
  have lst: "last (alloc_ptr st # objects pre1) = last (alloc_root st # objects pre)"
    unfolding st(2) last_last pre by simp
  show a0: "alloc_ptr st \<noteq> 0" unfolding st(2) by (rule last_alloc_nonzero [OF ok]) (simp add: pre)
  show "closest_alloc (st\<lparr>h_block := heap_blocks st\<rparr>) =
      Some (st\<lparr>h_block := heap_blocks st, alloc_ptr := last (alloc_root st # objects pre)\<rparr>)"
    using closest_alloc_run [of "st\<lparr>h_block := heap_blocks st\<rparr>" "objects pre1" "objects post" s n]
      lk a0 D(1) before behind st(1) lst by simp
qed

lemma search_measures:
  assumes ok: "heap_ok st s n (pre @ (f, False) # post)" and st: "free_ptr st = f" "h_block st = heap_blocks st"
    "alloc_ptr st = last (alloc_root st # objects pre)"
  shows "available_size sz st = Some (st\<lparr>avail_size := space_size s n f post\<rparr>, True)"
proof -
  note D = heap_okD [OF ok]
  have lk: "linked (load32 (h_mem st)) (alloc_ptr st) (objects post)"
    unfolding st(3) by (rule linked_last) (use D(5) in simp)
  have "within s n v" if "v \<in> set (objects (pre @ (f, False) # post))" for v using headers_within(1) [OF D(2) that] .
  then have ws: "\<And>v. v \<in> set (objects post) \<Longrightarrow> within s n v" "\<And>v. v \<in> set (objects pre) \<Longrightarrow> within s n v" by simp_all
  have "within s n (alloc_ptr st)" if "objects post = []"
    using D(4) that ws(2) unfolding st(3) by simp
  moreover have "alloc_ptr st \<noteq> 0" unfolding st(3) by (rule last_alloc_nonzero [OF ok]) simp
  ultimately show ?thesis
    using available_size_run [of st "objects post" s n sz] lk D(1) tiles_within [OF D(2), of f False] st(1,2) ws(1)
    by (simp add: space_size_def)
qed

lemma search_next:
  assumes ok: "heap_ok st s n (pre @ (f, False) # post)" and st: "free_ptr st = f" "prev_free_ptr st = last (free_root st # spaces pre)"
    and same: "h_mem st' = h_mem st" "prev_free_ptr st' = prev_free_ptr st"
  shows "next_space st' = Some (st'\<lparr>prev_free_ptr := f, free_ptr := (case spaces post of [] \<Rightarrow> 0 | g # _ \<Rightarrow> g)\<rparr>)"
proof -
  note D = heap_okD [OF ok]
  have fl: "linked (load32 (h_mem st)) (last (free_root st # spaces pre)) (f # spaces post)"
    by (rule linked_last) (use D(6) in simp)
  have "load32 (h_mem st) f = (case spaces post of [] \<Rightarrow> 0 | g # _ \<Rightarrow> g)"
    using fl linked_head [of "load32 (h_mem st)" f "spaces post"] by simp
  moreover have "last (free_root st # spaces pre) \<noteq> 0"
    using D(8) linked_nonzero [OF D(6)] by (cases "spaces pre" rule: rev_cases) auto
  ultimately show ?thesis
    using same fl search_locates(3) [OF ok st(1)] tiles_within [OF D(2), of f False] not_within_null D(1)
    by (simp add: next_space_def deref_def st(2))
qed

lemma search_step:
  assumes ok: "heap_ok st s n hs" and hs: "hs = pre @ (f, False) # post" "pre = pre0 @ pre1"
    and st: "free_ptr st = f" "prev_free_ptr st = last (free_root st # spaces pre)"
      "alloc_ptr st = last (alloc_root st # objects pre0)" "h_block st = 0 \<or> h_block st = heap_blocks st"
  shows "malloc_search ff sz st =
    (let (st1, jump) = consider_space ff sz (st\<lparr>h_block := heap_blocks st,
        alloc_ptr := last (alloc_root st # objects pre), avail_size := space_size s n f post\<rparr>) in
     if jump then Some (st1, True)
     else malloc_search ff sz (st1\<lparr>prev_free_ptr := f, free_ptr := (case spaces post of [] \<Rightarrow> 0 | g # _ \<Rightarrow> g)\<rparr>))"
proof -
  note ok' = ok [unfolded hs(1)]
  let ?st2 = "st\<lparr>h_block := heap_blocks st, alloc_ptr := last (alloc_root st # objects pre)\<rparr>"
  have "heap_ok ?st2 s n (pre @ (f, False) # post)" using ok' by simp
  from search_measures [OF this, of sz] st(1)
  have av: "available_size sz ?st2 = Some (?st2\<lparr>avail_size := space_size s n f post\<rparr>, True)" by simp
  obtain st4 jump where c: "consider_space ff sz (?st2\<lparr>avail_size := space_size s n f post\<rparr>) = (st4, jump)" by fastforce
  then have "h_mem st4 = h_mem st" "prev_free_ptr st4 = prev_free_ptr st"
    using consider_space_fields [of ff sz "?st2\<lparr>avail_size := space_size s n f post\<rparr>"] by simp_all
  note n4 = search_next [OF ok' st(1,2) this]
  show ?thesis
    unfolding malloc_search.simps [of ff sz st]
    using search_locates [OF ok' st(1,4)] search_closest [OF ok' hs(2) st(1,3)] av st(1) n4 c
    by (simp add: Let_def del: last.simps)
qed

text \<open>A free space that is large enough, and the one the search is to find.\<close>

definition fitting :: "u32 \<Rightarrow> u32 \<Rightarrow> u32 \<Rightarrow> layout \<Rightarrow> layout \<Rightarrow> u32 \<Rightarrow> layout \<Rightarrow> bool" where
  "fitting s n sz hs pre f post \<longleftrightarrow> hs = pre @ (f, False) # post \<and> sz \<le> space_size s n f post"

definition picked :: "bool \<Rightarrow> u32 \<Rightarrow> u32 \<Rightarrow> u32 \<Rightarrow> layout \<Rightarrow> layout \<Rightarrow> u32 \<Rightarrow> layout \<Rightarrow> bool" where
  "picked first_fit s n sz hs pre f post \<longleftrightarrow> fitting s n sz hs pre f post \<and>
     (\<forall>pre' f' post'. fitting s n sz hs pre' f' post' \<longrightarrow>
        (if first_fit then length pre \<le> length pre' else space_size s n f post \<le> space_size s n f' post'))"

definition best_is :: "heap \<Rightarrow> u32 \<Rightarrow> u32 \<Rightarrow> layout \<Rightarrow> u32 \<Rightarrow> layout \<Rightarrow> bool" where
  "best_is st s n pre f post \<longleftrightarrow> best_alloc_ptr st = last (alloc_root st # objects pre) \<and>
     best_prev_free_ptr st = last (free_root st # spaces pre) \<and>
     best_free_ptr st = f \<and> best_avail_size st = space_size s n f post"

definition same_store :: "heap \<Rightarrow> heap \<Rightarrow> bool" where
  "same_store st st' \<longleftrightarrow> h_buddy st' = h_buddy st \<and> h_mem st' = h_mem st \<and> heapc st' = heapc st \<and>
     heap_blocks st' = heap_blocks st \<and> heap_blocks_size st' = heap_blocks_size st"

text \<open>The best space among those before position \<open>k\<close>.\<close>

definition best_until :: "bool \<Rightarrow> heap \<Rightarrow> u32 \<Rightarrow> u32 \<Rightarrow> u32 \<Rightarrow> layout \<Rightarrow> nat \<Rightarrow> bool" where
  "best_until first_fit st s n sz hs k \<longleftrightarrow>
     best_avail_size st = 2000000000 \<and> (\<forall>p g q. fitting s n sz hs p g q \<longrightarrow> k \<le> length p) \<or>
     \<not> first_fit \<and> (\<exists>p g q. fitting s n sz hs p g q \<and> best_is st s n p g q \<and>
        (\<forall>p' g' q'. fitting s n sz hs p' g' q' \<and> length p' < k \<longrightarrow> space_size s n g q \<le> space_size s n g' q'))"

definition search_result :: "bool \<Rightarrow> heap \<Rightarrow> heap \<Rightarrow> bool \<Rightarrow> u32 \<Rightarrow> u32 \<Rightarrow> u32 \<Rightarrow> layout \<Rightarrow> bool" where
  "search_result first_fit st st' found s n sz hs \<longleftrightarrow> same_store st st' \<and>
     ((\<exists>p g q. picked first_fit s n sz hs p g q \<and> best_is st' s n p g q \<and> found = first_fit) \<or>
      (\<forall>p g q. \<not> fitting s n sz hs p g q) \<and> \<not> found \<and> best_avail_size st' = 2000000000 \<and>
        free_ptr st' = 0 \<and> prev_free_ptr st' = last (free_root st # spaces hs))"

lemma split_same_place:
  assumes "pre @ (f, u) # post = pre' @ (f', u') # post'" "length pre = length pre'"
  shows "pre = pre'" "f = f'" "u = u'" "post = post'"
  using assms by auto

lemma best_untilE:
  assumes "best_until ff st s n sz hs (length hs)"
  shows "(\<exists>p g q. picked ff s n sz hs p g q \<and> best_is st s n p g q \<and> \<not> ff) \<or>
    (\<forall>p g q. \<not> fitting s n sz hs p g q) \<and> best_avail_size st = 2000000000"
proof -
  have len: "length p < length hs" if "fitting s n sz hs p g q" for p g q
    using that by (auto simp: fitting_def)
  from assms [unfolded best_until_def] show ?thesis
  proof (elim disjE conjE exE)
    assume "best_avail_size st = 2000000000" and "\<forall>p g q. fitting s n sz hs p g q \<longrightarrow> length hs \<le> length p"
    moreover have "\<not> fitting s n sz hs p g q" for p g q using len [of p g q] calculation(2) by fastforce
    ultimately show ?thesis by simp
  next
    fix p g q
    assume a: "\<not> ff" "fitting s n sz hs p g q" "best_is st s n p g q"
      "\<forall>p' g' q'. fitting s n sz hs p' g' q' \<and> length p' < length hs \<longrightarrow> space_size s n g q \<le> space_size s n g' q'"
    have "space_size s n g q \<le> space_size s n g' q'" if "fitting s n sz hs p' g' q'" for p' g' q'
      using a(4) len [OF that] that by blast
    then have "picked ff s n sz hs p g q" unfolding picked_def using a(1,2) by simp
    then show ?thesis using a(1,3) by (intro disjI1 exI conjI)
  qed
qed

lemma best_until_object:
  assumes "best_until ff st s n sz hs (length pre)" "hs = pre @ (f, True) # rest"
  shows "best_until ff st s n sz hs (Suc (length pre))"
proof -
  have ne: "length p \<noteq> length pre" if "fitting s n sz hs p g q" for p g q
    using that assms(2) split_same_place(3) [of pre f True rest p g False q] by (auto simp: fitting_def)
  from assms(1) [unfolded best_until_def] show ?thesis
  proof (elim disjE conjE exE)
    assume "best_avail_size st = 2000000000" and "\<forall>p g q. fitting s n sz hs p g q \<longrightarrow> length pre \<le> length p"
    then show ?thesis using ne unfolding best_until_def by (simp add: Suc_le_eq order_less_le) metis
  next
    fix p g q
    assume a: "\<not> ff" "fitting s n sz hs p g q" "best_is st s n p g q"
      "\<forall>p' g' q'. fitting s n sz hs p' g' q' \<and> length p' < length pre \<longrightarrow> space_size s n g q \<le> space_size s n g' q'"
    then show ?thesis using ne unfolding best_until_def by (intro disjI2) (simp add: less_Suc_eq, metis)
  qed
qed

text \<open>One more space: it is the best so far, or the best one stays.\<close>

lemma fitting_same_place:
  assumes "fitting s n sz (pre @ (f, False) # rest) p g q" "length p = length pre"
  shows "g = f" "q = rest"
  using assms by (auto simp: fitting_def)

text \<open>The space at \<open>f\<close> is taken: it is now the best one.\<close>

lemma best_until_taken:
  assumes b: "best_until ff st s n sz (pre @ (f, False) # rest) (length pre)"
    and fit: "sz \<le> space_size s n f rest" "space_size s n f rest < best_avail_size st"
    and bi: "best_is st1 s n pre f rest"
  shows "if ff then picked True s n sz (pre @ (f, False) # rest) pre f rest
    else best_until ff st1 s n sz (pre @ (f, False) # rest) (Suc (length pre))"
proof -
  let ?hs = "pre @ (f, False) # rest" and ?w = "space_size s n f rest"
  have f: "fitting s n sz ?hs pre f rest" using fit(1) by (simp add: fitting_def)
  have taken: "best_until ff st1 s n sz ?hs (Suc (length pre))"
    if "\<not> ff" "\<And>p g q. fitting s n sz ?hs p g q \<Longrightarrow> length p < length pre \<Longrightarrow> ?w \<le> space_size s n g q"
    unfolding best_until_def
  proof (intro disjI2 conjI exI allI impI)
    fix p g q assume x: "fitting s n sz ?hs p g q \<and> length p < Suc (length pre)"
    then consider "length p < length pre" | "length p = length pre" by linarith
    then show "?w \<le> space_size s n g q"
    proof cases
      case 2
      then show ?thesis using fitting_same_place [of s n sz pre f rest p g q] x by simp
    qed (use x that(2) in blast)
  qed (use f bi that(1) in auto)
  from b [unfolded best_until_def] show ?thesis
  proof (elim disjE conjE exE)
    assume old: "\<forall>p g q. fitting s n sz ?hs p g q \<longrightarrow> length pre \<le> length p"
    then have "picked True s n sz ?hs pre f rest" using f by (simp add: picked_def)
    moreover have "best_until ff st1 s n sz ?hs (Suc (length pre))" if "\<not> ff"
      by (rule taken [OF that]) (use old in fastforce)
    ultimately show ?thesis by simp
  next
    fix p g q
    assume a: "\<not> ff" "best_is st s n p g q"
      "\<forall>p' g' q'. fitting s n sz ?hs p' g' q' \<and> length p' < length pre \<longrightarrow> space_size s n g q \<le> space_size s n g' q'"
    have le: "?w \<le> space_size s n g q" using fit(2) a(2) unfolding best_is_def by (metis order_less_imp_le)
    have "best_until ff st1 s n sz ?hs (Suc (length pre))"
      by (rule taken [OF a(1)]) (use a(3) le order_trans in blast)
    then show ?thesis using a(1) by simp
  qed
qed

text \<open>The space at \<open>f\<close> is passed: it is too small or no better.\<close>

lemma best_until_passed:
  assumes b: "best_until ff st s n sz (pre @ (f, False) # rest) (length pre)" and small: "space_size s n f rest < 2000000000"
    and no: "\<not> (sz \<le> space_size s n f rest \<and> space_size s n f rest < best_avail_size st)"
  shows "best_until ff st s n sz (pre @ (f, False) # rest) (Suc (length pre))"
proof -
  let ?hs = "pre @ (f, False) # rest"
  from b [unfolded best_until_def] show ?thesis
  proof (elim disjE conjE exE)
    assume old: "best_avail_size st = 2000000000" "\<forall>p g q. fitting s n sz ?hs p g q \<longrightarrow> length pre \<le> length p"
    have "length p \<noteq> length pre" if "fitting s n sz ?hs p g q" for p g q
      using fitting_same_place [OF that] that no old(1) small by (auto simp: fitting_def)
    then show ?thesis using old unfolding best_until_def by (simp add: Suc_le_eq order_less_le) metis
  next
    fix p g q
    assume a: "\<not> ff" "fitting s n sz ?hs p g q" "best_is st s n p g q"
      "\<forall>p' g' q'. fitting s n sz ?hs p' g' q' \<and> length p' < length pre \<longrightarrow> space_size s n g q \<le> space_size s n g' q'"
    have le: "space_size s n g q \<le> space_size s n g' q'"
      if x: "fitting s n sz ?hs p' g' q'" "length p' < Suc (length pre)" for p' g' q'
    proof (cases "length p' = length pre")
      case True
      have e: "g' = f" "q' = rest" using fitting_same_place [OF x(1) True] by simp_all
      have "sz \<le> space_size s n f rest" using x(1) unfolding e by (simp add: fitting_def)
      then show ?thesis using no a(3) unfolding e by (simp add: best_is_def)
    next
      case False
      then have "length p' < length pre" using x(2) by simp
      then show ?thesis using x(1) a(4) by blast
    qed
    show ?thesis unfolding best_until_def
      by (intro disjI2 conjI exI allI impI) (use a le in auto)
  qed
qed

lemma best_until_space:
  assumes b: "best_until ff st s n sz hs (length pre)" and hs: "hs = pre @ (f, False) # rest"
    and small: "space_size s n f rest < 2000000000" and st: "prev_free_ptr st = last (free_root st # spaces pre)"
      "alloc_ptr st = last (alloc_root st # objects pre)" "free_ptr st = f" "avail_size st = space_size s n f rest"
    and c: "consider_space ff sz st = (st1, jump)"
  shows "if jump then ff \<and> picked True s n sz hs pre f rest \<and> best_is st1 s n pre f rest
    else best_until ff st1 s n sz hs (Suc (length pre))"
proof (cases "sz \<le> space_size s n f rest \<and> space_size s n f rest < best_avail_size st")
  case True
  then have st1: "jump = ff" "best_is st1 s n pre f rest" using c st by (auto simp: consider_space_def best_is_def)
  show ?thesis using best_until_taken [OF b [unfolded hs] _ _ st1(2)] True st1 hs by (cases ff) auto
next
  case False
  then have "st1 = st" "\<not> jump" using c st by (auto simp: consider_space_def)
  then show ?thesis using best_until_passed [OF b [unfolded hs] small False] hs by simp
qed

lemma search_run:
  assumes "heap_ok st s n hs" "hs = pre @ rest"
    and "free_ptr st = (case spaces rest of [] \<Rightarrow> 0 | g # _ \<Rightarrow> g)" "prev_free_ptr st = last (free_root st # spaces pre)"
    and "\<exists>pre0 pre1. pre = pre0 @ pre1 \<and> alloc_ptr st = last (alloc_root st # objects pre0)"
    and "h_block st = 0 \<or> h_block st = heap_blocks st" and "best_until ff st s n sz hs (length pre)"
  shows "\<exists>st' found. malloc_search ff sz st = Some (st', found) \<and> search_result ff st st' found s n sz hs"
  using assms
proof (induction rest arbitrary: pre st)
  case Nil
  then have b: "best_until ff st s n sz hs (length hs)" by simp
  have run: "malloc_search ff sz st = Some (st, False)" using Nil.prems(3) by (subst malloc_search.simps) simp
  show ?case using best_untilE [OF b] Nil.prems(2-4) unfolding run search_result_def same_store_def by auto
next
  case (Cons h rest)
  obtain f u where h: "h = (f, u)" by fastforce
  show ?case
  proof (cases u)
    case True
    have "best_until ff st s n sz hs (length (pre @ [h]))"
      using best_until_object [OF Cons.prems(7)] Cons.prems(2) h True by simp
    moreover have "\<exists>pre0 pre1. pre @ [h] = pre0 @ pre1 \<and> alloc_ptr st = last (alloc_root st # objects pre0)"
      using Cons.prems(5) by (metis append_assoc)
    ultimately show ?thesis using Cons.prems Cons.IH [of st "pre @ [h]"] h True by simp
  next
    case False
    then have hs: "hs = pre @ (f, False) # rest" using Cons.prems(2) h by simp
    obtain pre0 pre1 where p01: "pre = pre0 @ pre1" "alloc_ptr st = last (alloc_root st # objects pre0)"
      using Cons.prems(5) by blast
    note D = heap_okD [OF Cons.prems(1)]
    let ?w = "space_size s n f rest"
    let ?st1 = "st\<lparr>h_block := heap_blocks st, alloc_ptr := last (alloc_root st # objects pre), avail_size := ?w\<rparr>"
    have step: "malloc_search ff sz st = (let (st1, jump) = consider_space ff sz ?st1 in
        if jump then Some (st1, True)
        else malloc_search ff sz (st1\<lparr>prev_free_ptr := f, free_ptr := (case spaces rest of [] \<Rightarrow> 0 | g # _ \<Rightarrow> g)\<rparr>))"
      using search_step [OF Cons.prems(1) hs p01(1) _ Cons.prems(4) p01(2) Cons.prems(6)] Cons.prems(3) h False by simp
    obtain st2 jump where c: "consider_space ff sz ?st1 = (st2, jump)" by fastforce
    have st2: "heap_ok st2 s n hs" "same_store st st2" "prev_free_ptr st2 = prev_free_ptr st" "h_block st2 = heap_blocks st2"
      "alloc_ptr st2 = last (alloc_root st # objects pre)" "alloc_root st2 = alloc_root st" "free_root st2 = free_root st"
      using c Cons.prems(1) by (auto simp: consider_space_def same_store_def split: if_splits)
    have g: "geometry (heapc st) (heap_blocks st) (heap_blocks_size st) s n" using D(1) by simp
    have "unat ?w < 2000000000"
      using unat_space_size(3) [OF g, of pre f rest] D(2) g headers_within(2) [OF D(2), of f] hs
      by (simp add: geometry_def within_def)
    then have small: "?w < 2000000000" by (simp add: word_less_nat_alt)
    have b1: "best_until ff ?st1 s n sz hs (length pre)"
      using Cons.prems(7) by (simp add: best_until_def best_is_def)
    have R: "if jump then ff \<and> picked True s n sz hs pre f rest \<and> best_is st2 s n pre f rest
      else best_until ff st2 s n sz hs (Suc (length pre))"
      by (rule best_until_space [OF b1 hs small _ _ _ _ c]) (use Cons.prems(3,4) h False in simp_all)
    show ?thesis
    proof (cases jump)
      case True
      then show ?thesis using step c R st2(2) unfolding search_result_def Let_def by auto
    next
      case False
      let ?st3 = "st2\<lparr>prev_free_ptr := f, free_ptr := (case spaces rest of [] \<Rightarrow> 0 | g # _ \<Rightarrow> g)\<rparr>"
      have "best_until ff ?st3 s n sz hs (length (pre @ [h]))"
        using R False by (simp add: best_until_def best_is_def)
      moreover have "\<exists>pre0 pre1. pre @ [h] = pre0 @ pre1 \<and> alloc_ptr ?st3 = last (alloc_root ?st3 # objects pre0)"
        using st2(5,6) by (intro exI [of _ pre] exI [of _ "[h]"]) simp
      ultimately obtain st' found where r: "malloc_search ff sz ?st3 = Some (st', found)"
        "search_result ff ?st3 st' found s n sz hs"
        using Cons.IH [of ?st3 "pre @ [h]"] st2(1,4) hs h \<open>\<not> u\<close> by auto
      have "search_result ff st st' found s n sz hs"
        using r(2) st2(2,7) unfolding search_result_def same_store_def by simp
      then show ?thesis using step c False r(1) by (simp add: Let_def)
    qed
  qed
qed

section \<open>Placing an object\<close>

lemma linked_replace:
  assumes "linked c p (xs @ x # ys)" "distinct (p # xs @ x # ys)" "g \<notin> set (p # xs @ x # ys)" "q = last (p # xs)" "g \<noteq> 0"
  shows "linked (c(g := c x, q := g)) p (xs @ g # ys)"
proof -
  have q: "q \<in> insert p (set xs)" using assms(4) last_in_set [of "p # xs"] by (simp del: last.simps)
  have l: "linked (c(g := c x)) p (xs @ x # ys)" using assms(1,3) by auto
  have "linked c q (x # ys)" using linked_last [OF assms(1)] assms(4) by simp
  moreover have "q \<notin> set (x # ys)" "q \<noteq> g" using assms(2,3) q by auto
  ultimately have "linked (c(g := c x, q := g)) q (g # ys)"
    using assms(3,5) by (cases ys) auto
  then show ?thesis by (intro linked_splice [OF l _ assms(4)]) (use assms(2) in auto)
qed

lemma distinct_lists:
  assumes "geometry hc hb N s n" "tiles s n hs"
  shows "distinct (hc # (hc + 4) # objects hs @ spaces hs)"
proof -
  have "distinct (map fst hs)" using assms(2) distinct_headers by (auto simp: tiles_def)
  then have "distinct (objects hs)" "distinct (spaces hs)" "set (objects hs) \<inter> set (spaces hs) = {}"
    using eq_key_imp_eq_value [of hs]
    by (auto simp: objects_def spaces_def distinct_map_filter) metis
  then have "distinct (objects hs @ spaces hs)" by simp
  moreover have "x \<noteq> hc \<and> x \<noteq> hc + 4" if "x \<in> set (objects hs @ spaces hs)" for x
  proof -
    have "within s n x" using headers_within [OF assms(2)] that by auto
    then show ?thesis using assms(1) root_cells(1) [OF assms(1)]
      by (auto simp: geometry_def within_def range_of_def)
  qed
  ultimately show ?thesis by auto
qed

text \<open>The layout with an object of \<open>sz\<close> bytes, its header included, at the space \<open>f\<close>.\<close>

definition place :: "u32 \<Rightarrow> u32 \<Rightarrow> u32 \<Rightarrow> layout \<Rightarrow> u32 \<Rightarrow> layout \<Rightarrow> layout" where
  "place s n sz pre f post = pre @ (f, True) #
     (if space_size s n f post - sz > heap_header_size then [(f + sz, False)] else []) @ post"

lemma place_tiles:
  assumes g: "geometry hc hb N s n" and t: "tiles s n (pre @ (f, False) # post)"
    and sz: "sz \<le> space_size s n f post" "4 < unat sz"
  shows "tiles s n (place s n sz pre f post)"
    "space_size s n f post - sz > heap_header_size \<Longrightarrow> unat (f + sz) = unat f + unat sz \<and> unat f + unat sz + 4 < next_header (unat s + unat n) post"
proof -
  let ?w = "space_size s n f post" and ?e = "unat s + unat n"
  have l: "laid ?e (pre @ (f, False) # post)" using t by (simp add: tiles_def)
  note w = unat_space_size [OF g t]
  have e: "?e < 2 ^ 32" using g by (simp add: geometry_def)
  have "unat sz \<le> unat ?w" using sz(1) by (simp add: word_le_nat_alt)
  then have u: "unat (f + sz) = unat f + unat sz" using w(3) e by (intro unat_add_less) simp
  have split: "unat f + unat sz + 4 < next_header ?e post" if "?w - sz > heap_header_size"
    using that sz(1) w(1) laid_split(3) [OF l] by (simp add: word_less_nat_alt unat_sub heap_header_size_def)
  show "?w - sz > heap_header_size \<Longrightarrow> unat (f + sz) = unat f + unat sz \<and> unat f + unat sz + 4 < next_header ?e post"
    using u split by simp
  have "laid ?e (place s n sz pre f post)"
    using l u split sz(2) laid_split(3) [OF l] unfolding place_def by (auto simp: laid_append laid_Cons)
  then show "tiles s n (place s n sz pre f post)"
    using t by (cases pre) (auto simp: tiles_def place_def)
qed

lemma place_lists:
  "objects (place s n sz pre f post) = objects pre @ f # objects post"
  "spaces (place s n sz pre f post) = spaces pre @ (if space_size s n f post - sz > heap_header_size then [f + sz] else []) @ spaces post"
  by (simp_all add: place_def)

lemma place_bodies: "bodies e (pre @ (f, False) # post) \<subseteq> bodies e (place s n sz pre f post)"
  by (auto simp: place_def bodies_append)

text \<open>Reads and stores at the cells of a layout.\<close>

lemma deref_cell:
  assumes "tracks hc hb N s n hs m0 (h_mem st) c" "p \<in> heap_cells hc hs"
  shows "deref st p = Some (c p)"
  using assms cells_heap [of hc hb N s n hs] tracks_load [OF assms] by (auto simp: deref_def tracks_def cells_def)

lemma assign_cell:
  assumes "tracks hc hb N s n hs m0 (h_mem st) c" "p \<in> heap_cells hc hs"
  shows "\<exists>m. assign st p v = Some (st\<lparr>h_mem := m\<rparr>) \<and> tracks hc hb N s n hs m0 m (c(p := v))"
proof -
  have "p \<noteq> 0" using assms cells_heap [of hc hb N s n hs] by (auto simp: tracks_def cells_def)
  then show ?thesis using tracks_store [OF assms] by (auto simp: assign_def)
qed

lemma last_cell: "set xs \<subseteq> heap_cells hc hs \<Longrightarrow> p \<in> heap_cells hc hs \<Longrightarrow> last (p # xs) \<in> heap_cells hc hs"
  using last_in_set [of "p # xs"] by (auto simp del: last.simps)

lemma placed_links:
  assumes d: "distinct (r # r' # (us @ f # us') @ vs @ gs @ vs')" and gs: "gs = [] \<or> (\<exists>g. gs = [g] \<and> g \<noteq> 0)"
    and l: "linked c r (us @ us')" "linked c r' (vs @ f # vs')" and f: "f \<noteq> 0"
    and AP: "A = last (r # us)" "P = last (r' # vs)"
  defines "c' \<equiv> (case gs of [] \<Rightarrow> c(f := c A, A := f, P := c f) | g # _ \<Rightarrow> c(f := c A, A := f, g := c f, P := g))"
  shows "linked c' r (us @ f # us')" "linked c' r' (vs @ gs @ vs')"
proof -
  have A: "A \<in> insert r (set us)" and P: "P \<in> insert r' (set vs)"
    using AP last_in_set [of "r # us"] last_in_set [of "r' # vs"] by (simp_all del: last.simps)
  have L: "linked (c(f := c A, A := f)) r (us @ f # us')"
    by (rule linked_insert [OF l(1) _ AP(1) f]) (use d in auto)
  have nP: "P \<noteq> r \<and> P \<notin> set (us @ f # us')" using P d by auto
  have nA: "A \<notin> insert r' (set (vs @ gs @ vs'))" and nf: "f \<notin> insert r' (set (vs @ gs @ vs'))" using A d by auto
  have "linked c' r (us @ f # us') \<and> linked c' r' (vs @ gs @ vs')"
  proof (cases gs)
    case Nil
    have c': "c' = c(f := c A, A := f, P := c f)" by (simp add: c'_def Nil)
    have "linked (c(P := c f)) r' (vs @ vs')" by (rule linked_remove [OF l(2) _ AP(2)]) (use d in auto)
    moreover have "linked (c(P := c f)) r' (vs @ vs') = linked c' r' (vs @ vs')"
      unfolding c' by (rule linked_cong) (use nA nf in auto)
    ultimately show ?thesis using Nil L nP unfolding c' by simp
  next
    case (Cons g gs')
    then have g: "gs = [g]" "g \<noteq> 0" using gs by auto
    have c': "c' = c(f := c A, A := f, g := c f, P := g)" by (simp add: c'_def g(1))
    have ng: "g \<noteq> r \<and> g \<notin> set (us @ f # us')" using d g(1) by auto
    have "linked (c(g := c f, P := g)) r' (vs @ g # vs')"
      by (rule linked_replace [OF l(2) _ _ AP(2) g(2)]) (use d g(1) in auto)
    moreover have "linked (c(g := c f, P := g)) r' (vs @ g # vs') = linked c' r' (vs @ g # vs')"
      unfolding c' by (rule linked_cong) (use nA nf g(1) in auto)
    ultimately show ?thesis using g(1) L nP ng unfolding c' by simp
  qed
  then show "linked c' r (us @ f # us')" "linked c' r' (vs @ gs @ vs')" by auto
qed

lemma list_ends_differ:
  assumes "distinct (r # r' # (us @ f # us') @ vs @ gs @ vs')"
  shows "last (r # us) \<noteq> f" "last (r' # vs) \<noteq> last (r # us)" "last (r # us) \<notin> set gs"
proof -
  obtain A P where AP: "A = last (r # us)" "P = last (r' # vs)" by blast
  then have "A \<in> insert r (set us)" "P \<in> insert r' (set vs)"
    using last_in_set [of "r # us"] last_in_set [of "r' # vs"] by (simp_all del: last.simps)
  then have "A \<noteq> f \<and> P \<noteq> A \<and> A \<notin> set gs" using assms by auto
  then show "last (r # us) \<noteq> f" "last (r' # vs) \<noteq> last (r # us)" "last (r # us) \<notin> set gs" unfolding AP by auto
qed

text \<open>What an operation leaves: only the memory of the cells and the cache change.\<close>

definition only_cells :: "heap \<Rightarrow> heap \<Rightarrow> nat set \<Rightarrow> bool" where
  "only_cells st st' A \<longleftrightarrow> h_buddy st' = h_buddy st \<and> heapc st' = heapc st \<and> heap_blocks st' = heap_blocks st \<and>
     heap_blocks_size st' = heap_blocks_size st \<and> same_on (h_mem st) (h_mem st') A"

text \<open>
  The situation: the search has found the space \<open>f\<close>, which is large enough; \<open>A\<close> and \<open>P\<close> are the links
  behind which \<open>f\<close> belongs in the list of objects and stands in that of the free spaces.
\<close>

definition placing :: "heap \<Rightarrow> u32 \<Rightarrow> u32 \<Rightarrow> u32 \<Rightarrow> layout \<Rightarrow> u32 \<Rightarrow> layout \<Rightarrow> u32 \<Rightarrow> u32 \<Rightarrow> bool" where
  "placing st s n sz pre f post A P \<longleftrightarrow> heap_ok st s n (pre @ (f, False) # post) \<and> best_is st s n pre f post \<and>
     sz \<le> space_size s n f post \<and> 4 < unat sz \<and> A = last (alloc_root st # objects pre) \<and> P = last (free_root st # spaces pre)"

abbreviation placing_cells where
  "placing_cells st s n sz pre f post \<equiv> heap_cells (heapc st) (place s n sz pre f post)"

abbreviation placing_tracks where
  "placing_tracks st s n sz pre f post \<equiv>
     tracks (heapc st) (heap_blocks st) (heap_blocks_size st) s n (place s n sz pre f post) (h_mem st)"

lemma placing_tiles:
  assumes pl: "placing st s n sz pre f post A P"
  shows "geometry (heapc st) (heap_blocks st) (heap_blocks_size st) s n" "tiles s n (place s n sz pre f post)"
    "placing_tracks st s n sz pre f post (h_mem st) (load32 (h_mem st))"
    "space_size s n f post - sz > heap_header_size \<Longrightarrow> unat (f + sz) = unat f + unat sz \<and>
      unat f + unat sz + 4 < next_header (unat s + unat n) post"
proof -
  note D = heap_okD [of st s n "pre @ (f, False) # post"]
  have ok: "heap_ok st s n (pre @ (f, False) # post)" and sz: "sz \<le> space_size s n f post" "4 < unat sz"
    using pl by (simp_all add: placing_def)
  show g: "geometry (heapc st) (heap_blocks st) (heap_blocks_size st) s n" using D(1) [OF ok] by simp
  show t: "tiles s n (place s n sz pre f post)"
    "space_size s n f post - sz > heap_header_size \<Longrightarrow> unat (f + sz) = unat f + unat sz \<and>
      unat f + unat sz + 4 < next_header (unat s + unat n) post"
    using place_tiles [OF g D(2) [OF ok] sz] by simp_all
  show "placing_tracks st s n sz pre f post (h_mem st) (load32 (h_mem st))"
    by (rule tracks_start [OF g t(1)]) (use D(1) [OF ok] in simp)
qed

lemma placing_facts:
  assumes pl: "placing st s n sz pre f post A P"
  shows "\<And>p. p \<in> placing_cells st s n sz pre f post \<Longrightarrow> p \<noteq> 0"
    "f \<in> placing_cells st s n sz pre f post" "A \<in> placing_cells st s n sz pre f post" "P \<in> placing_cells st s n sz pre f post"
    "alloc_root st \<in> placing_cells st s n sz pre f post" "free_root st \<in> placing_cells st s n sz pre f post"
    "space_size s n f post - sz > heap_header_size \<Longrightarrow> f + sz \<in> placing_cells st s n sz pre f post"
    "distinct (alloc_root st # free_root st # (objects pre @ f # objects post) @ spaces pre @
      (if space_size s n f post - sz > heap_header_size then [f + sz] else []) @ spaces post)"
    "A \<noteq> f" "P \<noteq> A" "space_size s n f post - sz > heap_header_size \<Longrightarrow> A \<noteq> f + sz"
    "linked (load32 (h_mem st)) (alloc_root st) (objects pre @ objects post)"
    "linked (load32 (h_mem st)) (free_root st) (spaces pre @ f # spaces post)"
    "best_alloc_ptr st = A" "best_prev_free_ptr st = P" "best_free_ptr st = f" "best_avail_size st = space_size s n f post"
proof -
  let ?H = "place s n sz pre f post" and ?w = "space_size s n f post"
  note t = placing_tiles [OF pl]
  have ok: "heap_ok st s n (pre @ (f, False) # post)" and A: "A = last (alloc_root st # objects pre)" and P: "P = last (free_root st # spaces pre)"
    and best: "best_is st s n pre f post"
    using pl by (simp_all add: placing_def)
  have roots: "alloc_root st = heapc st" "free_root st = heapc st + 4" by (simp_all add: alloc_root_def free_root_def)
  have sub: "set (objects pre) \<subseteq> heap_cells (heapc st) ?H" "set (spaces pre) \<subseteq> heap_cells (heapc st) ?H"
    using heap_cells_in(3,4) [of _ ?H "heapc st"] by (auto simp: place_lists)
  show "f \<in> heap_cells (heapc st) ?H" "A \<in> heap_cells (heapc st) ?H" "P \<in> heap_cells (heapc st) ?H"
    "alloc_root st \<in> heap_cells (heapc st) ?H" "free_root st \<in> heap_cells (heapc st) ?H"
    using sub last_cell roots unfolding A P by (simp_all add: place_lists del: last.simps)
  show "f + sz \<in> heap_cells (heapc st) ?H" if "?w - sz > heap_header_size"
    using that by (intro heap_cells_in(4)) (simp add: place_lists)
  show "p \<noteq> 0" if "p \<in> heap_cells (heapc st) ?H" for p using that cells_heap [OF t(1,2)] by (auto simp: cells_def)
  show dl: "distinct (alloc_root st # free_root st # (objects pre @ f # objects post) @ spaces pre @
      (if ?w - sz > heap_header_size then [f + sz] else []) @ spaces post)"
    using distinct_lists [OF t(1,2)] unfolding roots place_lists by simp
  show "A \<noteq> f" "P \<noteq> A" "?w - sz > heap_header_size \<Longrightarrow> A \<noteq> f + sz"
    using list_ends_differ [OF dl] unfolding A P by (simp_all del: last.simps)
  show "linked (load32 (h_mem st)) (alloc_root st) (objects pre @ objects post)"
    "linked (load32 (h_mem st)) (free_root st) (spaces pre @ f # spaces post)"
    using heap_okD(5,6) [OF ok] by simp_all
  show "best_alloc_ptr st = A" "best_prev_free_ptr st = P" "best_free_ptr st = f" "best_avail_size st = ?w"
    using best by (simp_all add: best_is_def A P)
qed

lemma placing_assign:
  assumes "placing_tracks st s n sz pre f post m c" "p \<in> placing_cells st s n sz pre f post"
  shows "\<exists>m'. assign (st\<lparr>temp_ptr := x, h_mem := m\<rparr>) p v = Some (st\<lparr>temp_ptr := x, h_mem := m'\<rparr>) \<and>
    placing_tracks st s n sz pre f post m' (c(p := v))"
  using assign_cell [of _ _ _ _ _ "place s n sz pre f post" "h_mem st" "st\<lparr>temp_ptr := x, h_mem := m\<rparr>" c p v] assms by simp

lemma placing_deref:
  assumes "placing_tracks st s n sz pre f post m c" "p \<in> placing_cells st s n sz pre f post"
  shows "deref (st\<lparr>temp_ptr := x, h_mem := m\<rparr>) p = Some (c p)"
  using deref_cell [of _ _ _ _ _ "place s n sz pre f post" "h_mem st" "st\<lparr>temp_ptr := x, h_mem := m\<rparr>" c p] assms by simp

text \<open>What is left to show once the cells are written.\<close>

lemma placing_finish:
  assumes pl: "placing st s n sz pre f post A P" and T: "placing_tracks st s n sz pre f post m' c'"
    and L: "linked c' (alloc_root st) (objects (place s n sz pre f post))" "linked c' (free_root st) (spaces (place s n sz pre f post))"
  shows "heap_ok (st\<lparr>temp_ptr := x, h_mem := m'\<rparr>) s n (place s n sz pre f post)"
    "only_cells st (st\<lparr>temp_ptr := x, h_mem := m'\<rparr>) (kept (heapc st) s n (pre @ (f, False) # post))"
proof -
  let ?H = "place s n sz pre f post" and ?st' = "st\<lparr>temp_ptr := x, h_mem := m'\<rparr>"
  have "linked (load32 m') (alloc_root st) (objects ?H) = linked c' (alloc_root st) (objects ?H)"
    "linked (load32 m') (free_root st) (spaces ?H) = linked c' (free_root st) (spaces ?H)"
    by (rule linked_cong; use tracks_load [OF T] placing_facts(5,6) [OF pl] in auto)+
  then show "heap_ok ?st' s n ?H" using T L placing_tiles(1,2) [OF pl] by (simp add: heap_ok_def tracks_def place_lists)
  show "only_cells st ?st' (kept (heapc st) s n (pre @ (f, False) # post))"
    using T kept_mono [OF place_bodies] same_on_mono unfolding only_cells_def tracks_def by fastforce
qed

text \<open>The first two writes: \<open>f\<close> is an object.\<close>

lemma placing_object:
  assumes pl: "placing st s n sz pre f post A P"
  defines "c \<equiv> load32 (h_mem st)"
  obtains m1 m2 where "deref st f = Some (c f)" "deref (st\<lparr>temp_ptr := c f\<rparr>) A = Some (c A)"
    "assign (st\<lparr>temp_ptr := c f\<rparr>) f (c A) = Some (st\<lparr>temp_ptr := c f, h_mem := m1\<rparr>)"
    "assign (st\<lparr>temp_ptr := c f, h_mem := m1\<rparr>) A f = Some (st\<lparr>temp_ptr := c f, h_mem := m2\<rparr>)"
    "placing_tracks st s n sz pre f post m2 (c(f := c A, A := f))"
proof -
  note F = placing_facts [OF pl] and T = placing_tiles(3) [OF pl, folded c_def]
  obtain m1 where m1: "assign (st\<lparr>temp_ptr := c f, h_mem := h_mem st\<rparr>) f (c A) = Some (st\<lparr>temp_ptr := c f, h_mem := m1\<rparr>)"
    "placing_tracks st s n sz pre f post m1 (c(f := c A))"
    using placing_assign [OF T F(2)] by blast
  obtain m2 where m2: "assign (st\<lparr>temp_ptr := c f, h_mem := m1\<rparr>) A f = Some (st\<lparr>temp_ptr := c f, h_mem := m2\<rparr>)"
    "placing_tracks st s n sz pre f post m2 (c(f := c A, A := f))"
    using placing_assign [OF m1(2) F(3)] by blast
  have "deref st f = Some (c f)" using placing_deref [OF T F(2), of "temp_ptr st"] by simp
  moreover have "deref (st\<lparr>temp_ptr := c f\<rparr>) A = Some (c A)" using placing_deref [OF T F(3), of "c f"] by simp
  ultimately show thesis using that m1(1) m2 by simp
qed

text \<open>No header fits behind the object, or one does; then it cannot meet the next object.\<close>

lemma malloc_whole_run:
  assumes pl: "placing st s n sz pre f post A P" and w: "\<not> space_size s n f post - sz > heap_header_size"
  shows "\<exists>x m. malloc_in_between sz st = Some (st\<lparr>temp_ptr := x, h_mem := m\<rparr>, f + heap_header_size) \<and>
    heap_ok (st\<lparr>temp_ptr := x, h_mem := m\<rparr>) s n (place s n sz pre f post) \<and>
    only_cells st (st\<lparr>temp_ptr := x, h_mem := m\<rparr>) (kept (heapc st) s n (pre @ (f, False) # post))"
proof -
  let ?c = "load32 (h_mem st)" and ?A = "alloc_root st" and ?F = "free_root st" and ?H = "place s n sz pre f post"
  let ?s = "\<lambda>m. st\<lparr>temp_ptr := ?c f, h_mem := m\<rparr>" and ?c3 = "?c(f := ?c A, A := f, P := ?c f)"
  note F = placing_facts [OF pl]
  have AP: "A = last (?A # objects pre)" "P = last (?F # spaces pre)" using pl by (simp_all add: placing_def)
  obtain m1 m2 where m: "deref st f = Some (?c f)" "deref (st\<lparr>temp_ptr := ?c f\<rparr>) A = Some (?c A)"
    "assign (st\<lparr>temp_ptr := ?c f\<rparr>) f (?c A) = Some (?s m1)" "assign (?s m1) A f = Some (?s m2)"
    "placing_tracks st s n sz pre f post m2 (?c(f := ?c A, A := f))"
    by (rule placing_object [OF pl])
  obtain m3 where m3: "assign (?s m2) P (?c f) = Some (?s m3)" "placing_tracks st s n sz pre f post m3 ?c3"
    using placing_assign [OF m(5) F(4)] by blast
  have "deref (?s m3) A = Some f" using placing_deref [OF m3(2) F(3), of "?c f"] F(10) by simp
  then have "malloc_in_between sz st = Some (?s m3, f + heap_header_size)"
    using m(1-4) m3(1) F(14-17) w F(1) [OF F(4)] by (simp add: malloc_in_between_def Let_def)
  moreover have "linked ?c3 ?A (objects ?H)" "linked ?c3 ?F (spaces ?H)"
    using placed_links [OF _ _ F(12,13) F(1) [OF F(2)] AP, of "[]"] F(8) w by (simp_all add: place_lists)
  ultimately show ?thesis using placing_finish [OF pl m3(2)] by blast
qed

lemma space_apart:
  assumes pl: "placing st s n sz pre f post A P" and w: "space_size s n f post - sz > heap_header_size"
  shows "f + sz + heap_header_size \<noteq> load32 (h_mem st) A"
proof -
  note t = placing_tiles [OF pl]
  have lay: "laid (unat s + unat n) (pre @ (f, False) # post)" using pl heap_okD(3) by (auto simp: placing_def)
  have e32: "unat s + unat n < 2 ^ 32" using t(1) by (simp add: geometry_def)
  have nb: "next_header (unat s + unat n) post \<le> unat s + unat n"
    using lay by (intro laid_next_le) (simp add: laid_append laid_Cons)
  have g4: "unat (f + sz + heap_header_size) = unat f + unat sz + 4"
    using t(4) [OF w] nb e32 unat_add_nat [of "f + sz" 4] by (simp add: heap_header_size_def)
  have "A = last (alloc_root st # objects pre)" using pl by (simp add: placing_def)
  then have cA: "load32 (h_mem st) A = (case objects post of [] \<Rightarrow> 0 | y # _ \<Rightarrow> y)"
    using linked_head [OF linked_last [OF placing_facts(12) [OF pl]]] by simp
  from space_neighbours(1) [OF lay] show ?thesis
  proof (elim disjE exE)
    assume "post = []"
    then show ?thesis using cA g4 by auto
  next
    fix y post' assume "post = (y, True) # post'"
    then show ?thesis using cA g4 t(4) [OF w] by auto
  qed
qed

lemma malloc_split_run:
  assumes pl: "placing st s n sz pre f post A P" and w: "space_size s n f post - sz > heap_header_size"
  shows "\<exists>x m. malloc_in_between sz st = Some (st\<lparr>temp_ptr := x, h_mem := m\<rparr>, f + heap_header_size) \<and>
    heap_ok (st\<lparr>temp_ptr := x, h_mem := m\<rparr>) s n (place s n sz pre f post) \<and>
    only_cells st (st\<lparr>temp_ptr := x, h_mem := m\<rparr>) (kept (heapc st) s n (pre @ (f, False) # post))"
proof -
  let ?c = "load32 (h_mem st)" and ?A = "alloc_root st" and ?F = "free_root st" and ?H = "place s n sz pre f post" and ?g = "f + sz"
  let ?s = "\<lambda>m. st\<lparr>temp_ptr := ?c f, h_mem := m\<rparr>" and ?c2 = "?c(f := ?c A, A := f)"
  let ?c3 = "?c2(?g := ?c f)" and ?c4 = "?c2(?g := ?c f, P := ?g)"
  note F = placing_facts [OF pl]
  have AP: "A = last (?A # objects pre)" "P = last (?F # spaces pre)" using pl by (simp_all add: placing_def)
  obtain m1 m2 where m: "deref st f = Some (?c f)" "deref (st\<lparr>temp_ptr := ?c f\<rparr>) A = Some (?c A)"
    "assign (st\<lparr>temp_ptr := ?c f\<rparr>) f (?c A) = Some (?s m1)" "assign (?s m1) A f = Some (?s m2)"
    "placing_tracks st s n sz pre f post m2 ?c2"
    by (rule placing_object [OF pl])
  obtain m3 where m3: "assign (?s m2) ?g (?c f) = Some (?s m3)" "placing_tracks st s n sz pre f post m3 ?c3"
    using placing_assign [OF m(5) F(7) [OF w]] by blast
  obtain m4 where m4: "assign (?s m3) P ?g = Some (?s m4)" "placing_tracks st s n sz pre f post m4 ?c4"
    using placing_assign [OF m3(2) F(4)] by blast
  have rd: "deref (?s m2) f = Some (?c A)" "deref (?s m2) A = Some f" "deref (?s m3) A = Some f" "deref (?s m4) A = Some f"
    using placing_deref [OF m(5) F(2), of "?c f"] placing_deref [OF m(5) F(3), of "?c f"] placing_deref [OF m3(2) F(3), of "?c f"]
      placing_deref [OF m4(2) F(3), of "?c f"] F(9,10) F(11) [OF w] by simp_all
  have "malloc_in_between sz st = Some (?s m4, f + heap_header_size)"
    using m(1-4) m3(1) m4(1) rd F(14-17) w space_apart [OF pl w] by (simp add: malloc_in_between_def Let_def)
  moreover have "linked ?c4 ?A (objects ?H)" "linked ?c4 ?F (spaces ?H)"
    using placed_links [OF _ _ F(12,13) F(1) [OF F(2)] AP, of "[?g]"] F(8) w F(1) [OF F(7) [OF w]] by (simp_all add: place_lists)
  ultimately show ?thesis using placing_finish [OF pl m4(2)] by blast
qed

lemma malloc_in_between_run:
  assumes "heap_ok st s n (pre @ (f, False) # post)" "best_is st s n pre f post" "sz \<le> space_size s n f post" "4 < unat sz"
  shows "\<exists>st'. malloc_in_between sz st = Some (st', f + heap_header_size) \<and> heap_ok st' s n (place s n sz pre f post) \<and>
    only_cells st st' (kept (heapc st) s n (pre @ (f, False) # post))"
proof -
  have "placing st s n sz pre f post (last (alloc_root st # objects pre)) (last (free_root st # spaces pre))"
    using assms by (simp add: placing_def)
  from malloc_whole_run [OF this] malloc_split_run [OF this] show ?thesis by blast
qed

section \<open>malloc\<close>

text \<open>The request starts the search at the roots.\<close>

definition search_start :: "heap \<Rightarrow> heap" where
  "search_start st = st\<lparr>best_avail_size := 2000000000, alloc_ptr := alloc_root st, prev_free_ptr := free_root st,
     free_ptr := load32 (h_mem st) (free_root st), h_block := 0\<rparr>"

lemma malloc_searches:
  assumes ok: "heap_ok st s n hs" and sz: "0 < unat size0"
  shows "\<exists>st' found. malloc st size0 =
      (if found \<or> (\<not> (size0 + 4 < HEAP_FIRST_FIT_MAX_SIZE) \<and> best_avail_size st' \<noteq> 2000000000)
       then malloc_in_between (size0 + 4) st' else malloc_new_block (size0 + 4) st') \<and>
    search_result (size0 + 4 < HEAP_FIRST_FIT_MAX_SIZE) st st' found s n (size0 + 4) hs"
proof -
  note D = heap_okD [OF ok]
  let ?sz = "size0 + 4" and ?c = "load32 (h_mem st)"
  let ?ff = "?sz < HEAP_FIRST_FIT_MAX_SIZE"
  have root: "deref st (alloc_root st) = Some (?c (alloc_root st))" "?c (alloc_root st) \<noteq> 0"
    using D(4,5,7) by (cases "objects hs"; simp add: deref_def)+
  have fr: "deref st (free_root st) = Some (?c (free_root st))" using D(8) by (simp add: deref_def)
  have "\<exists>st' found. malloc_search ?ff ?sz (search_start st) = Some (st', found) \<and>
      search_result ?ff (search_start st) st' found s n ?sz hs"
  proof (rule search_run [of _ _ _ _ "[]" hs])
    show "free_ptr (search_start st) = (case spaces hs of [] \<Rightarrow> 0 | g # _ \<Rightarrow> g)"
      using linked_head [OF D(6)] by (simp add: search_start_def)
    show "best_until ?ff (search_start st) s n ?sz hs (length [])"
      by (simp add: best_until_def search_start_def)
  qed (use ok in \<open>simp_all add: search_start_def\<close>)
  then obtain st' found where r: "malloc_search ?ff ?sz (search_start st) = Some (st', found)"
    "search_result ?ff (search_start st) st' found s n ?sz hs" by blast
  have "size0 \<noteq> 0" using sz by auto
  then have "malloc st size0 = (if found \<or> (\<not> ?ff \<and> best_avail_size st' \<noteq> 2000000000)
       then malloc_in_between ?sz st' else malloc_new_block ?sz st')"
    using root fr r(1) by (auto simp: malloc_def heap_header_size_def Let_def search_start_def)
  moreover have "search_result ?ff st st' found s n ?sz hs"
    using r(2) by (simp add: search_result_def same_store_def search_start_def)
  ultimately show ?thesis by blast
qed

lemma heap_ok_same_store:
  assumes "same_store st st'"
  shows "heap_ok st' s n hs = heap_ok st s n hs" "alloc_root st' = alloc_root st" "free_root st' = free_root st"
  using assms by (simp_all add: same_store_def heap_ok_def alloc_root_def free_root_def)

lemma new_object_range:
  assumes ok: "heap_ok st s n hs" and fit: "fitting s n (size0 + 4) hs pre f post" and sz: "unat size0 + 4 < 2 ^ 32"
  shows "range_of (f + 4) (unat size0) \<subseteq> range_of s (unat n) - bodies (unat s + unat n) hs"
proof -
  note D = heap_okD [OF ok]
  have hs: "hs = pre @ (f, False) # post" and le: "size0 + 4 \<le> space_size s n f post" using fit by (auto simp: fitting_def)
  have g: "geometry (heapc st) (heap_blocks st) (heap_blocks_size st) s n" using D(1) by simp
  have t: "tiles s n (pre @ (f, False) # post)" using D(2) hs by simp
  note w = unat_space_size [OF g t]
  have e: "unat s + unat n < 2 ^ 32" using g by (simp add: geometry_def)
  have l: "laid (unat s + unat n) (pre @ (f, False) # post)" using D(3) hs by simp
  have u: "unat (size0 + 4) = unat size0 + 4" using unat_add_nat [of size0 4] sz by simp
  then have b: "unat f + 4 + unat size0 \<le> next_header (unat s + unat n) post"
    using le w(1) laid_split(3) [OF l] by (simp add: word_le_nat_alt)
  have f4: "unat (f + 4) = unat f + 4" using unat_add_nat [of f 4] w(2,3) e by simp
  have fs: "unat s \<le> unat f" using tiles_within [OF t, of f False] by (simp add: within_def)
  have lp: "laid (unat f) pre" "laid (unat s + unat n) post" using l by (simp_all add: laid_append laid_Cons)
  have "x \<notin> bodies (unat s + unat n) hs" if "unat f + 4 \<le> x" "x < next_header (unat s + unat n) post" for x
  proof
    assume "x \<in> bodies (unat s + unat n) hs"
    then have "x \<in> bodies (unat s + unat n) post"
      using bodies_below [OF lp(1), of x] that(1) unfolding hs bodies_append by auto
    then show False using that(2) bodies_above [of "unat s + unat n" "fst (hd post)" "snd (hd post)" "tl post" x] lp(2)
      by (cases post) auto
  qed
  then show ?thesis using b f4 fs w(1,3) laid_split(3) [OF l] by (auto simp: range_of_def)
qed

lemma malloc_fits:
  assumes ok: "heap_ok st s n hs" and sz: "0 < unat size0" "unat size0 + 4 < 2 ^ 32" and fit: "fitting s n (size0 + 4) hs p g q"
  shows "\<exists>pre f post st'. picked (size0 + 4 < HEAP_FIRST_FIT_MAX_SIZE) s n (size0 + 4) hs pre f post \<and>
    malloc st size0 = Some (st', f + 4) \<and> heap_ok st' s n (place s n (size0 + 4) pre f post) \<and>
    only_cells st st' (kept (heapc st) s n hs)"
proof -
  obtain st1 found where r: "malloc st size0 =
      (if found \<or> (\<not> (size0 + 4 < HEAP_FIRST_FIT_MAX_SIZE) \<and> best_avail_size st1 \<noteq> 2000000000)
       then malloc_in_between (size0 + 4) st1 else malloc_new_block (size0 + 4) st1)"
    "search_result (size0 + 4 < HEAP_FIRST_FIT_MAX_SIZE) st st1 found s n (size0 + 4) hs"
    using malloc_searches [OF ok sz(1)] by blast
  then obtain pre f post where p: "picked (size0 + 4 < HEAP_FIRST_FIT_MAX_SIZE) s n (size0 + 4) hs pre f post"
    "best_is st1 s n pre f post" "found = (size0 + 4 < HEAP_FIRST_FIT_MAX_SIZE)" and same: "same_store st st1"
    using fit unfolding search_result_def by blast
  have hs: "hs = pre @ (f, False) # post" "size0 + 4 \<le> space_size s n f post" using p(1) by (auto simp: picked_def fitting_def)
  have ok1: "heap_ok st1 s n (pre @ (f, False) # post)" using ok heap_ok_same_store(1) [OF same] hs(1) by simp
  have "unat (size0 + 4) = unat size0 + 4" using unat_add_nat [of size0 4] sz(2) by simp
  then obtain st' where st': "malloc_in_between (size0 + 4) st1 = Some (st', f + heap_header_size)"
    "heap_ok st' s n (place s n (size0 + 4) pre f post)" "only_cells st1 st' (kept (heapc st1) s n (pre @ (f, False) # post))"
    using malloc_in_between_run [OF ok1 p(2) hs(2)] sz(1) by auto
  have "best_avail_size st1 \<noteq> 2000000000"
  proof -
    note D = heap_okD [OF ok1]
    have "unat (space_size s n f post) < 2000000000"
      using unat_space_size(3) [of _ _ _ s n pre f post] D(1,2) headers_within(2) [OF D(2), of f]
      by (fastforce simp: geometry_def within_def)
    then show ?thesis using p(2) by (auto simp: best_is_def)
  qed
  then have "malloc st size0 = Some (st', f + 4)" using r(1) p(3) st'(1) by (auto simp: heap_header_size_def)
  moreover have "only_cells st st' (kept (heapc st) s n hs)"
    using st'(3) same hs(1) by (simp add: only_cells_def same_store_def)
  ultimately show ?thesis using p(1) st'(2) by blast
qed

lemma malloc_no_room:
  assumes ok: "heap_ok st s n hs" and sz: "0 < unat size0" and none: "\<And>p g q. \<not> fitting s n (size0 + 4) hs p g q"
    and full: "\<And>b k p. buddy_alloc (h_buddy st) (size0 + 4) = Some (b, k, p) \<Longrightarrow> b = h_buddy st \<and> p = 0"
    and ret: "buddy_alloc (h_buddy st) (size0 + 4) \<noteq> None"
  shows "\<exists>st'. malloc st size0 = Some (st', 0) \<and> heap_ok st' s n hs \<and> same_store st st'"
proof -
  obtain st1 found where r: "malloc st size0 =
      (if found \<or> (\<not> (size0 + 4 < HEAP_FIRST_FIT_MAX_SIZE) \<and> best_avail_size st1 \<noteq> 2000000000)
       then malloc_in_between (size0 + 4) st1 else malloc_new_block (size0 + 4) st1)"
    "search_result (size0 + 4 < HEAP_FIRST_FIT_MAX_SIZE) st st1 found s n (size0 + 4) hs"
    using malloc_searches [OF ok sz(1)] by blast
  then have st1: "same_store st st1" "\<not> found" "best_avail_size st1 = 2000000000"
    using none unfolding search_result_def picked_def by auto
  obtain b k where b: "buddy_alloc (h_buddy st1) (size0 + 4) = Some (b, k, 0)" "b = h_buddy st"
    using ret full st1(1) by (fastforce simp: same_store_def)
  have "\<exists>st'. malloc_new_block (size0 + 4) st1 = Some (st', 0) \<and> same_store st st'"
    using b st1(1) by (auto simp: malloc_new_block_def request_def Let_def same_store_def)
  then show ?thesis using r(1) st1 heap_ok_same_store(1) ok by auto
qed

end
