(* ===== verification/HeapFree.thy ===== *)
theory HeapFree
  imports HeapMalloc
begin

text \<open>
  \<open>free\<close> on a heap of one block: the object becomes free space, joined with the free spaces
  next to it; with the last object the block goes back to the buddy allocator.
\<close>

section \<open>The layout after a release\<close>

definition left_free :: "layout \<Rightarrow> bool" where "left_free pre \<longleftrightarrow> pre \<noteq> [] \<and> \<not> snd (last pre)"
definition right_free :: "layout \<Rightarrow> bool" where "right_free post \<longleftrightarrow> post \<noteq> [] \<and> \<not> snd (hd post)"

definition release :: "layout \<Rightarrow> u32 \<Rightarrow> layout \<Rightarrow> layout" where
  "release pre a post = pre @ (if left_free pre then [] else [(a, False)]) @ (if right_free post then tl post else post)"

lemma left_freeE:
  assumes "left_free pre"
  obtains g pre' where "pre = pre' @ [(g, False)]"
  using assms by (cases pre rule: rev_cases) (auto simp: left_free_def)

lemma right_freeE:
  assumes "right_free post"
  obtains g post' where "post = (g, False) # post'"
  using assms by (cases post) (auto simp: right_free_def)

lemma release_lists:
  "objects (release pre a post) = objects pre @ objects post"
  "spaces (release pre a post) = spaces pre @ (if left_free pre then [] else [a]) @ (if right_free post then tl (spaces post) else spaces post)"
  by (auto simp: release_def elim!: left_freeE right_freeE)

text \<open>What lies behind an object once a free space next to it is gone.\<close>

lemma laid_behind:
  assumes "laid e (pre @ (a, True) # post)"
  defines "rest \<equiv> (if right_free post then tl post else post)"
  shows "laid e rest" "rest = [] \<or> snd (hd rest)" "unat a + 4 < next_header e rest"
proof -
  have "laid e rest \<and> (rest = [] \<or> snd (hd rest)) \<and> unat a + 4 < next_header e rest"
  proof (cases "right_free post")
    case True
    then obtain g post' where "post = (g, False) # post'" by (rule right_freeE)
    then show ?thesis using True assms by (auto simp: laid_append laid_Cons)
  next
    case False
    then show ?thesis using assms by (auto simp: laid_append laid_Cons right_free_def)
  qed
  then show "laid e rest" "rest = [] \<or> snd (hd rest)" "unat a + 4 < next_header e rest" by auto
qed

lemma release_tiles:
  assumes "tiles s n (pre @ (a, True) # post)"
  shows "tiles s n (release pre a post)"
proof -
  let ?e = "unat s + unat n"
  have l: "laid ?e (pre @ (a, True) # post)" using assms by (simp add: tiles_def)
  let ?post = "if right_free post then tl post else post"
  note post = laid_behind [OF l]
  show ?thesis
  proof (cases "left_free pre")
    case True
    then obtain g pre' where pre: "pre = pre' @ [(g, False)]" by (rule left_freeE)
    have "laid ?e (pre' @ (g, False) # ?post)"
      using l post unfolding pre by (auto simp: laid_append laid_Cons)
    then show ?thesis using assms True unfolding release_def pre by (cases pre') (auto simp: tiles_def)
  next
    case False
    then have "laid ?e (pre @ (a, False) # ?post)"
      using l post by (auto simp: laid_append laid_Cons left_free_def)
    then show ?thesis using assms False unfolding release_def by (cases pre) (auto simp: tiles_def)
  qed
qed

section \<open>Taking the object out of its list\<close>

lemma find_link_run:
  assumes "linked (load32 (h_mem st)) (alloc_ptr st) (us @ a # us')" "alloc_ptr st \<noteq> 0" "a \<notin> set us"
  shows "find_link a st = Some (st\<lparr>alloc_ptr := last (alloc_ptr st # us)\<rparr>)"
  using assms
proof (induction us arbitrary: st)
  case Nil
  then show ?case by (subst find_link.simps) (simp add: deref_def)
next
  case (Cons u us)
  have "find_link a (st\<lparr>alloc_ptr := u\<rparr>) = Some (st\<lparr>alloc_ptr := u, alloc_ptr := last (u # us)\<rparr>)"
    using Cons.IH [of "st\<lparr>alloc_ptr := u\<rparr>"] Cons.prems by simp
  moreover have "u \<noteq> a" using Cons.prems(3) by auto
  ultimately show ?case using Cons.prems by (subst find_link.simps) (simp add: deref_def)
qed

text \<open>
  The situation of a release: \<open>a\<close> is an object of the heap, \<open>A\<close> the link that leads to it, and the
  block is the one looked at.
\<close>

lemma unlink_run:
  assumes ok: "heap_ok st s n (pre @ (a, True) # post)" and more: "objects pre @ objects post \<noteq> []"
  defines "A \<equiv> last (alloc_root st # objects pre)"
  shows "unlink_alloc a st = Some (st\<lparr>alloc_ptr := A, h_mem := store32 (h_mem st) A (load32 (h_mem st) a)\<rparr>, Unlinked)"
proof -
  note D = heap_okD [OF ok]
  let ?c = "load32 (h_mem st)"
  have lk: "linked ?c (alloc_root st) (objects pre @ a # objects post)" using D(5) by simp
  have dist: "distinct (alloc_root st # objects pre @ a # objects post)"
    using distinct_lists [of "heapc st" _ _ s n] D(1,2) by (fastforce simp: alloc_root_def)
  have a0: "a \<noteq> 0" using linked_nonzero [OF D(5)] by simp
  have nxt: "?c a = (case objects post of [] \<Rightarrow> 0 | y # _ \<Rightarrow> y)"
    using linked_last [OF lk] linked_head [of ?c a "objects post"] by simp
  have A0: "A \<noteq> 0" using linked_nonzero [OF lk] D(7) unfolding A_def by (cases "objects pre" rule: rev_cases) auto
  show ?thesis
  proof (cases "objects pre")
    case Nil
    have "?c a \<noteq> 0" using nxt more Nil linked_nonzero [OF lk] by (cases "objects post") auto
    then show ?thesis using lk a0 D(7) Nil
      by (simp add: unlink_alloc_def deref_def assign_def A_def)
  next
    case (Cons u us)
    have "?c (alloc_root st) = u" "u \<noteq> 0" "u \<noteq> a" using lk Cons dist by auto
    moreover have "find_link a (st\<lparr>alloc_ptr := alloc_root st\<rparr>) = Some (st\<lparr>alloc_ptr := alloc_root st, alloc_ptr := A\<rparr>)"
      using find_link_run [of "st\<lparr>alloc_ptr := alloc_root st\<rparr>" "objects pre" a "objects post"] lk D(7) dist
      by (simp add: A_def del: last.simps)
    moreover have "?c A = a" using linked_last [OF lk] by (simp add: A_def del: last.simps)
    ultimately show ?thesis using a0 D(7) A0 by (simp add: unlink_alloc_def deref_def assign_def)
  qed
qed

lemma unlink_only_run:
  assumes ok: "heap_ok st s n (pre @ (a, True) # post)" and only: "objects pre @ objects post = []"
  shows "\<exists>m. unlink_alloc a st = Some (st\<lparr>h_mem := m\<rparr>, Heap_empty) \<and>
    tracks (heapc st) (heap_blocks st) (heap_blocks_size st) s n (pre @ (a, True) # post) (h_mem st) m
      ((load32 (h_mem st))(alloc_root st := 0, free_root st := 0))"
proof -
  note D = heap_okD [OF ok]
  let ?c = "load32 (h_mem st)" and ?H = "pre @ (a, True) # post"
  let ?T = "tracks (heapc st) (heap_blocks st) (heap_blocks_size st) s n ?H (h_mem st)"
  have T0: "?T (h_mem st) ?c" using tracks_start D(1,2) by blast
  have r: "?c (alloc_root st) = a" "a \<noteq> 0" "?c a = 0" using D(5) only by auto
  have roots: "alloc_root st \<in> heap_cells (heapc st) ?H" "free_root st \<in> heap_cells (heapc st) ?H"
    by (simp_all add: alloc_root_def free_root_def)
  have W: "\<exists>m'. assign t p v = Some (t\<lparr>h_mem := m'\<rparr>) \<and> ?T m' (c(p := v))"
    if "?T (h_mem t) c" "p \<in> heap_cells (heapc st) ?H" for t p c v
    by (rule assign_cell [OF that])
  obtain m1 where m1: "assign st (alloc_root st) 0 = Some (st\<lparr>h_mem := m1\<rparr>)" "?T m1 (?c(alloc_root st := 0))"
    using W [of st ?c "alloc_root st" 0] T0 roots(1) by auto
  obtain m2 where m2: "assign (st\<lparr>h_mem := m1\<rparr>) (alloc_root st) 0 = Some (st\<lparr>h_mem := m2\<rparr>)" "?T m2 (?c(alloc_root st := 0))"
    using W [of "st\<lparr>h_mem := m1\<rparr>" "?c(alloc_root st := 0)" "alloc_root st" 0] m1(2) roots(1) by auto
  obtain m3 where m3: "assign (st\<lparr>h_mem := m2\<rparr>) (free_root st) 0 = Some (st\<lparr>h_mem := m3\<rparr>)"
    "?T m3 (?c(alloc_root st := 0, free_root st := 0))"
    using W [of "st\<lparr>h_mem := m2\<rparr>" "?c(alloc_root st := 0)" "free_root st" 0] m2(2) roots(2) by auto
  show ?thesis using m1(1) m2(1) m3 r D(7) by (intro exI [of _ m3]) (simp add: unlink_alloc_def deref_def)
qed

section \<open>What lies next to the object\<close>

lemma free_before_run:
  assumes "linked (load32 (h_mem st)) (free_ptr st) (vs @ ws)" "free_ptr st \<noteq> 0"
    and "one_block st s n" "h_block st = heap_blocks st"
    and "\<And>v. v \<in> set vs \<Longrightarrow> v < a" "\<And>w. w \<in> set ws \<Longrightarrow> within s n w \<and> \<not> w < a"
  shows "free_before a st = Some (st\<lparr>free_ptr := last (free_ptr st # vs)\<rparr>)"
  using assms
proof (induction vs arbitrary: st)
  case Nil
  have g: "geometry (heapc st) (heap_blocks st) (heap_blocks_size st) s n" using Nil.prems by simp
  show ?case using Nil.prems not_within_null [OF g] heap_not_in_one(2) [OF Nil.prems(3,4)]
    by (subst free_before.simps) (cases ws; simp add: deref_def)
next
  case (Cons v vs)
  have v: "load32 (h_mem st) (free_ptr st) = v" "v \<noteq> 0" "v < a" using Cons.prems by auto
  have "free_before a (st\<lparr>free_ptr := v\<rparr>) = Some (st\<lparr>free_ptr := v, free_ptr := last (v # vs)\<rparr>)"
    using Cons.IH [of "st\<lparr>free_ptr := v\<rparr>"] Cons.prems v(2) by simp
  then show ?case using Cons.prems(2) v heap_not_in_one(2) [OF Cons.prems(3,4), of v]
    by (subst free_before.simps) (simp add: deref_def)
qed

text \<open>The right neighbour is free if the next space comes before the next object.\<close>

lemma right_separated_run:
  assumes "one_block st s n" "h_block st = heap_blocks st" "alloc_ptr st \<noteq> 0" "f \<noteq> 0"
    and l: "tiles s n (pre @ (a, True) # post)"
    and "load32 (h_mem st) f = (case spaces post of [] \<Rightarrow> 0 | g # _ \<Rightarrow> g)"
    and "load32 (h_mem st) (alloc_ptr st) = (case objects post of [] \<Rightarrow> 0 | y # _ \<Rightarrow> y)"
  shows "right_separated f st = Some (\<not> right_free post)"
proof -
  have g: "geometry (heapc st) (heap_blocks st) (heap_blocks_size st) s n" using assms(1) by simp
  note no = not_within_null [OF g] and hn = heap_not_in_one(2,3) [OF assms(1,2)]
  have lp: "laid (unat s + unat n) post" using l by (simp add: tiles_def laid_append laid_Cons)
  have w: "x \<in> set (objects post) \<Longrightarrow> within s n x" "x \<in> set (spaces post) \<Longrightarrow> within s n x" for x
    using headers_within [OF l] by auto
  show ?thesis
  proof (cases post)
    case Nil
    then show ?thesis using assms(3,4,6,7) no hn by (simp add: right_separated_def deref_def right_free_def)
  next
    case (Cons h post')
    obtain y u where h: "h = (y, u)" by fastforce
    note o = headers_order(2,4) [of "unat s + unat n" "[]" y u post'] lp [unfolded Cons h]
    show ?thesis
    proof (cases u)
      case True
      then have rf: "\<not> right_free post" by (simp add: right_free_def Cons h)
      show ?thesis
      proof (cases "spaces post'")
        case Nil
        then show ?thesis using assms(3,4,6,7) no hn rf Cons h True by (simp add: right_separated_def deref_def)
      next
        case (Cons z zs)
        then show ?thesis using assms(3,4,6,7) hn rf \<open>post = h # post'\<close> h True w(1) [of y] w(2) [of z] o(2) [of z] o(3)
          by (simp add: right_separated_def deref_def)
      qed
    next
      case False
      then have rf: "right_free post" by (simp add: right_free_def Cons h)
      show ?thesis
      proof (cases "objects post'")
        case Nil
        then show ?thesis using assms(3,4,6,7) no hn rf Cons h False w(2) [of y] by (simp add: right_separated_def deref_def)
      next
        case (Cons z zs)
        then have "y < z" using o(1) [of z] o(3) by simp
        then have "\<not> z < y" by (rule order_less_not_sym)
        then show ?thesis using assms(3,4,6,7) hn rf \<open>post = h # post'\<close> h False Cons w(1) [of z] w(2) [of y]
          by (simp add: right_separated_def deref_def)
      qed
    qed
  qed
qed

lemma left_separated_run:
  assumes "one_block st s n" "h_block st = heap_blocks st" "tiles s n (pre @ (a, True) # post)" "spaces pre \<noteq> []"
    and "free_ptr st = last (spaces pre)" "alloc_ptr st = last (alloc_root st # objects pre)"
  shows "left_separated st = Some (\<not> left_free pre)"
proof -
  have g: "geometry (heapc st) (heap_blocks st) (heap_blocks_size st) s n" using assms(1) by simp
  note hn = heap_not_in_one(2,3) [OF assms(1,2)]
  have w: "x \<in> set (objects pre) \<Longrightarrow> within s n x" "x \<in> set (spaces pre) \<Longrightarrow> within s n x" for x
    using headers_within [OF assms(3)] by auto
  have fw: "within s n (free_ptr st)" using w(2) assms(4,5) by simp
  have lp: "laid (unat a) pre" using assms(3) by (simp add: tiles_def laid_append)
  obtain pre' y u where pre: "pre = pre' @ [(y, u)]" using assms(4) by (cases pre rule: rev_cases) auto
  note o = headers_order(1,3) [of "unat a" pre' y u "[]"] lp [unfolded pre]
  show ?thesis
  proof (cases u)
    case True
    then have y: "alloc_ptr st = y" "within s n y" using assms(6) w(1) pre by auto
    have "free_ptr st < y" using assms(4,5) True o(2) [of "free_ptr st"] o(3) pre by auto
    then show ?thesis using hn fw y True pre
      by (simp add: left_separated_def left_free_def order_less_imp_le)
  next
    case False
    then have f: "free_ptr st = y" using assms(5) pre by simp
    have "\<not> (within s n (alloc_ptr st) \<and> y \<le> alloc_ptr st)"
    proof (cases "objects pre'")
      case Nil
      then show ?thesis using assms(6) pre False not_within_root [OF g] by (simp add: alloc_root_def)
    next
      case (Cons z zs)
      then have "alloc_ptr st \<in> set (objects pre')" using assms(6) pre False last_in_set [of "z # zs"] by (simp del: last.simps) (simp)
      then have "alloc_ptr st < y" using o(1) [of "alloc_ptr st"] o(3) by simp
      then show ?thesis by (simp add: not_le)
    qed
    then show ?thesis using hn fw f False pre by (simp add: left_separated_def left_free_def)
  qed
qed

section \<open>Joining the space with its neighbours\<close>

lemma last_cell_nonzero: "linked c p xs \<Longrightarrow> p \<noteq> 0 \<Longrightarrow> last (p # xs) \<noteq> 0"
  using linked_nonzero by (cases xs rule: rev_cases) auto

text \<open>The list of free spaces after each of the ways to link the freed one.\<close>

lemma insert_space:
  assumes "linked c p (vs @ ws)" "distinct (p # vs @ a # ws)" "a \<noteq> 0" "q = last (p # vs)"
  shows "linked (c(a := c q, q := a)) p (vs @ a # ws)"
  using linked_insert [OF assms(1,2,4,3)] .

lemma free_neighbours:
  assumes "laid e (pre @ (a, True) # post)"
  shows "left_free pre \<Longrightarrow> spaces pre \<noteq> []" "right_free post \<Longrightarrow> spaces post \<noteq> []"
  by (auto elim!: left_freeE right_freeE)

text \<open>
  The situation of the second half of a release: the object \<open>a\<close> is out of its list, \<open>c\<close> gives the
  cells of the heap, and \<open>alloc_ptr\<close> is the link that led to \<open>a\<close>. The result \<open>r\<close> has \<open>a\<close> in the list
  of free spaces, joined with its neighbours.
\<close>

abbreviation relink_tracks where
  "relink_tracks st s n pre a post \<equiv> tracks (heapc st) (heap_blocks st) (heap_blocks_size st) s n (pre @ (a, True) # post)"

abbreviation relink_cells where
  "relink_cells st pre a post \<equiv> heap_cells (heapc st) (pre @ (a, True) # post)"

definition relink_ready :: "heap \<Rightarrow> (u32 \<Rightarrow> u32) \<Rightarrow> u32 \<Rightarrow> u32 \<Rightarrow> layout \<Rightarrow> u32 \<Rightarrow> layout \<Rightarrow> memory \<Rightarrow> bool" where
  "relink_ready st c s n pre a post m0 \<longleftrightarrow> relink_tracks st s n pre a post m0 (h_mem st) c \<and>
     linked c (free_root st) (spaces pre @ spaces post) \<and> alloc_ptr st = last (alloc_root st # objects pre) \<and>
     c (alloc_ptr st) = (case objects post of [] \<Rightarrow> 0 | y # _ \<Rightarrow> y) \<and> h_block st = heap_blocks st"

definition relinked :: "heap \<Rightarrow> (u32 \<Rightarrow> u32) \<Rightarrow> u32 \<Rightarrow> u32 \<Rightarrow> layout \<Rightarrow> u32 \<Rightarrow> layout \<Rightarrow> memory \<Rightarrow> heap option \<Rightarrow> bool" where
  "relinked st c s n pre a post m0 r \<longleftrightarrow> (\<exists>m x c'. r = Some (st\<lparr>free_ptr := x, h_mem := m\<rparr>) \<and>
     relink_tracks st s n pre a post m0 m c' \<and> linked c' (free_root st) (spaces (release pre a post)) \<and>
     (\<forall>p. p \<notin> {a, free_root st} \<union> set (spaces pre) \<longrightarrow> c' p = c p))"

lemma relinkedI:
  assumes "r = Some (st\<lparr>free_ptr := x, h_mem := m\<rparr>)" "relink_tracks st s n pre a post m0 m c'"
    and "linked c' (free_root st) (spaces (release pre a post))"
    and "\<And>p. p \<noteq> a \<Longrightarrow> p \<noteq> free_root st \<Longrightarrow> p \<notin> set (spaces pre) \<Longrightarrow> c' p = c p"
  shows "relinked st c s n pre a post m0 r"
  unfolding relinked_def by (intro exI [of _ m] exI [of _ x] exI [of _ c']) (use assms in auto)

lemma relink_facts:
  assumes rd: "relink_ready st c s n pre a post m0"
  shows "geometry (heapc st) (heap_blocks st) (heap_blocks_size st) s n" "tiles s n (pre @ (a, True) # post)" "one_block st s n"
    "\<And>p. p \<in> relink_cells st pre a post \<Longrightarrow> p \<noteq> 0"
    "a \<in> relink_cells st pre a post" "free_root st \<in> relink_cells st pre a post" "alloc_ptr st \<in> relink_cells st pre a post"
    "\<And>x. x \<in> set (spaces pre) \<union> set (spaces post) \<Longrightarrow> x \<in> relink_cells st pre a post"
    "distinct (free_root st # spaces pre @ a # spaces post)" "alloc_ptr st \<notin> set (free_root st # spaces pre @ a # spaces post)"
    "c (free_root st) = (case spaces pre @ spaces post of [] \<Rightarrow> 0 | v # _ \<Rightarrow> v)"
proof -
  let ?H = "pre @ (a, True) # post"
  show g: "geometry (heapc st) (heap_blocks st) (heap_blocks_size st) s n" and t: "tiles s n ?H" and "one_block st s n"
    using rd by (auto simp: relink_ready_def tracks_def)
  have A: "alloc_ptr st = last (alloc_root st # objects pre)" using rd by (simp add: relink_ready_def)
  show "p \<noteq> 0" if "p \<in> heap_cells (heapc st) ?H" for p using that cells_heap [OF g t] by (auto simp: cells_def)
  show "a \<in> heap_cells (heapc st) ?H" "free_root st \<in> heap_cells (heapc st) ?H" "alloc_ptr st \<in> heap_cells (heapc st) ?H"
    "\<And>x. x \<in> set (spaces pre) \<union> set (spaces post) \<Longrightarrow> x \<in> heap_cells (heapc st) ?H"
    using last_cell [of "objects pre" "heapc st" ?H "alloc_root st"] A heap_cells_in(3) [of _ ?H "heapc st"]
    by (auto simp: free_root_def alloc_root_def subset_iff simp del: last.simps)
  have dl: "distinct (alloc_root st # free_root st # (objects pre @ a # objects post) @ spaces pre @ [] @ spaces post)"
    using distinct_lists [OF g t] by (simp add: alloc_root_def free_root_def)
  then show "distinct (free_root st # spaces pre @ a # spaces post)" by auto
  have "alloc_ptr st \<in> insert (alloc_root st) (set (objects pre))"
    using A last_in_set [of "alloc_root st # objects pre"] by (simp del: last.simps)
  then show "alloc_ptr st \<notin> set (free_root st # spaces pre @ a # spaces post)" using dl by auto
  show "c (free_root st) = (case spaces pre @ spaces post of [] \<Rightarrow> 0 | v # _ \<Rightarrow> v)"
    using rd by (intro linked_head) (simp add: relink_ready_def)
qed

text \<open>The tests of the neighbours, while cells other than that of \<open>alloc_ptr\<close> are written.\<close>

lemma relink_right:
  assumes rd: "relink_ready st c s n pre a post m0" and f: "f \<in> relink_cells st pre a post"
    and t: "relink_tracks st s n pre a post m0 m c'" "c' f = (case spaces post of [] \<Rightarrow> 0 | g # _ \<Rightarrow> g)"
      "c' (alloc_ptr st) = c (alloc_ptr st)"
  shows "right_separated f (st\<lparr>free_ptr := x, h_mem := m\<rparr>) = Some (\<not> right_free post)"
  using relink_facts [OF rd] rd f t tracks_load [OF t(1)]
  by (intro right_separated_run [where s = s and n = n and pre = pre and a = a]) (auto simp: relink_ready_def tracks_def)

lemma relink_within:
  assumes "relink_ready st c s n pre a post m0"
  shows "heap_in_mem_block st p = Some (within s n p)"
  using assms by (intro heap_not_in_one(3)) (auto simp: relink_ready_def tracks_def)

lemma relink_assign:
  assumes "relink_tracks st s n pre a post m0 m c" "p \<in> relink_cells st pre a post"
  shows "\<exists>m'. assign (st\<lparr>free_ptr := x, h_mem := m\<rparr>) p v = Some (st\<lparr>free_ptr := x, h_mem := m'\<rparr>) \<and>
    relink_tracks st s n pre a post m0 m' (c(p := v))"
  using assign_cell [of _ _ _ _ _ _ _ "st\<lparr>free_ptr := x, h_mem := m\<rparr>", of _ _ _ _ _ "pre @ (a, True) # post" m0 c p v] assms by simp

lemma relink_deref:
  assumes "relink_tracks st s n pre a post m0 m c" "p \<in> relink_cells st pre a post"
  shows "deref (st\<lparr>free_ptr := x, h_mem := m\<rparr>) p = Some (c p)"
  using deref_cell [of _ _ _ _ _ "pre @ (a, True) # post" m0 "st\<lparr>free_ptr := x, h_mem := m\<rparr>" c p] assms by simp

text \<open>No free space in front of \<open>a\<close>: it becomes the first one.\<close>

lemma relink_only:
  assumes rd: "relink_ready st c s n pre a post m0" and no: "spaces pre = []" "spaces post = []"
  shows "relinked st c s n pre a post m0 (relink_free a st)"
proof -
  let ?fr = "free_root st" and ?s = "\<lambda>m. st\<lparr>free_ptr := free_ptr st, h_mem := m\<rparr>"
  note F = relink_facts [OF rd]
  have T: "relink_tracks st s n pre a post m0 (h_mem st) c" using rd by (simp add: relink_ready_def)
  have lf: "\<not> left_free pre" "\<not> right_free post" using no by (auto elim: left_freeE right_freeE)
  obtain m1 where m1: "assign (?s (h_mem st)) ?fr a = Some (?s m1)" "relink_tracks st s n pre a post m0 m1 (c(?fr := a))"
    using relink_assign [OF T F(6)] by blast
  obtain m2 where m2: "assign (?s m1) a 0 = Some (?s m2)" "relink_tracks st s n pre a post m0 m2 (c(?fr := a, a := 0))"
    using relink_assign [OF m1(2) F(5)] by blast
  have d: "deref st ?fr = Some 0" using relink_deref [OF T F(6), of "free_ptr st"] F(11) no by simp
  have "relink_free a st = Some (?s m2)"
    using d relink_within [OF rd] not_within_null [OF F(1)] m1(1) m2(1) by (simp add: relink_free_def)
  moreover have "linked (c(?fr := a, a := 0)) ?fr (spaces (release pre a post))"
    using F(4,5,9) lf no release_lists(2) [of pre a post] by auto
  ultimately show ?thesis by (rule relinkedI [OF _ m2(2)]) auto
qed

lemma relink_front:
  assumes rd: "relink_ready st c s n pre a post m0" and no: "spaces pre = []" and some: "spaces post = f # ws"
  shows "relinked st c s n pre a post m0 (relink_free a st)"
proof -
  let ?fr = "free_root st" and ?s = "\<lambda>m. st\<lparr>free_ptr := free_ptr st, h_mem := m\<rparr>" and ?c2 = "c(a := f, free_root st := a)"
  note F = relink_facts [OF rd]
  have T: "relink_tracks st s n pre a post m0 (h_mem st) c" and L: "linked c ?fr (f # ws)" using rd no some by (simp_all add: relink_ready_def)
  have lf: "\<not> left_free pre" using no by (auto elim: left_freeE)
  have f: "c ?fr = f" "f \<in> relink_cells st pre a post" "within s n f" "a < f" "f \<noteq> a" "f \<noteq> ?fr" "f \<noteq> 0" "?fr \<noteq> a"
    using F(2,4,9,11) F(8) [of f] no some headers_within(2) [OF F(2), of f] headers_order(4) [of _ pre a True post f] by (auto simp: tiles_def)
  obtain m1 where m1: "assign (?s (h_mem st)) a f = Some (?s m1)" "relink_tracks st s n pre a post m0 m1 (c(a := f))"
    using relink_assign [OF T F(5)] by blast
  obtain m2 where m2: "assign (?s m1) ?fr a = Some (?s m2)" "relink_tracks st s n pre a post m0 m2 ?c2"
    using relink_assign [OF m1(2) F(6)] by blast
  obtain m3 where m3: "assign (?s m2) a (c f) = Some (?s m3)" "relink_tracks st s n pre a post m0 m3 (?c2(a := c f))"
    using relink_assign [OF m2(2) F(5)] by blast
  have sp: "right_separated a (?s m2) = Some (\<not> right_free post)"
    by (rule relink_right [OF rd F(5) m2(2)]) (use F(10) some f(8) in auto)
  have rd2: "deref (?s m2) a = Some f" "deref (?s m2) f = Some (c f)"
    using relink_deref [OF m2(2) F(5), of "free_ptr st"] relink_deref [OF m2(2) f(2), of "free_ptr st"] f by auto
  let ?m = "if right_free post then m3 else m2" and ?c' = "if right_free post then ?c2(a := c f) else ?c2"
  have "deref st ?fr = Some f" using relink_deref [OF T F(6), of "free_ptr st"] f(1) by simp
  then have "relink_free a st = Some (?s ?m)"
    using f relink_within [OF rd, of f] m1(1) m2(1) m3(1) sp rd2 by (simp add: relink_free_def)
  moreover have "linked ?c' ?fr (spaces (release pre a post))"
  proof (cases "right_free post")
    case True
    have "linked (c(a := c f, ?fr := a)) ?fr ([] @ a # ws)"
      by (rule linked_replace [where x = f]) (use L F(4,5,9) no some in auto)
    moreover have "c(a := c f, ?fr := a) = ?c2(a := c f)" using f(8) by auto
    ultimately show ?thesis using True lf release_lists(2) [of pre a post] no some by simp
  next
    case False
    have "linked (c(a := c ?fr, ?fr := a)) ?fr ([] @ a # (f # ws))"
      by (rule insert_space) (use L F(4,5,9) no some in auto)
    then show ?thesis using False lf release_lists(2) [of pre a post] no some f(1) by simp
  qed
  moreover have "relink_tracks st s n pre a post m0 ?m ?c'" using m2(2) m3(2) by simp
  ultimately show ?thesis by (intro relinkedI [where m = ?m and c' = ?c' and x = "free_ptr st"]) auto
qed

text \<open>Free spaces in front of \<open>a\<close>: the walk ends at the last of them.\<close>

lemma relink_walk:
  assumes rd: "relink_ready st c s n pre a post m0" and some: "spaces pre = v # vs"
  defines "l \<equiv> last (free_root st # spaces pre)"
  shows "relink_free a st = link_free a (st\<lparr>free_ptr := l\<rparr>)" "left_separated (st\<lparr>free_ptr := l\<rparr>) = Some (\<not> left_free pre)"
    "right_separated l (st\<lparr>free_ptr := l\<rparr>) = Some (\<not> right_free post)" "l \<in> set (spaces pre)"
    "c l = (case spaces post of [] \<Rightarrow> 0 | w # _ \<Rightarrow> w)"
proof -
  note F = relink_facts [OF rd]
  have T: "relink_tracks st s n pre a post m0 (h_mem st) c" and L: "linked c (free_root st) (spaces pre @ spaces post)"
    and hb: "h_block st = heap_blocks st" and A: "alloc_ptr st = last (alloc_root st # objects pre)"
    using rd by (simp_all add: relink_ready_def)
  have lay: "laid (unat s + unat n) (pre @ (a, True) # post)" using F(2) by (simp add: tiles_def)
  have v: "c (free_root st) = v" "v \<noteq> 0" "\<not> a < v" "within s n v"
    using F(11) some L headers_within(2) [OF F(2), of v] headers_order(3) [OF lay, of v] by (auto dest: order_less_not_sym)
  show l: "l \<in> set (spaces pre)" using some by (simp add: l_def del: last.simps) (simp)
  have l': "l = last (v # vs)" using some by (simp add: l_def)
  have lv: "linked c v (vs @ spaces post)" using L some by simp
  show cl: "c l = (case spaces post of [] \<Rightarrow> 0 | w # _ \<Rightarrow> w)" using linked_head [OF linked_last [OF lv]] l' by simp
  have "linked (load32 (h_mem st)) v (vs @ spaces post) = linked c v (vs @ spaces post)"
    by (rule linked_cong) (use tracks_load [OF T] F(8) some in auto)
  moreover have "x < a" if "x \<in> set vs" for x using headers_order(3) [OF lay, of x] that some by simp
  moreover have "within s n x \<and> \<not> x < a" if "x \<in> set (spaces post)" for x
    using headers_order(4) [OF lay that] headers_within(2) [OF F(2), of x] that by (auto dest: order_less_not_sym)
  ultimately have "free_before a (st\<lparr>free_ptr := v\<rparr>) = Some (st\<lparr>free_ptr := v, free_ptr := l\<rparr>)"
    using free_before_run [of "st\<lparr>free_ptr := v\<rparr>" vs "spaces post" s n a] v(2) F(3) hb l' lv by simp
  moreover have "deref st (free_root st) = Some v" using relink_deref [OF T F(6), of "free_ptr st"] v(1) by simp
  ultimately show "relink_free a st = link_free a (st\<lparr>free_ptr := l\<rparr>)"
    using v relink_within [OF rd, of v] by (simp add: relink_free_def)
  show "left_separated (st\<lparr>free_ptr := l\<rparr>) = Some (\<not> left_free pre)"
    by (rule left_separated_run [OF _ _ F(2)]) (use F(3) hb some l' A in simp_all)
  have "l \<in> relink_cells st pre a post" using F(8) l by blast
  from relink_right [OF rd this T cl refl, of l]
  show "right_separated l (st\<lparr>free_ptr := l\<rparr>) = Some (\<not> right_free post)" by simp
qed

lemma relink_behind:
  assumes rd: "relink_ready st c s n pre a post m0" and some: "spaces pre = v # vs"
  shows "relinked st c s n pre a post m0 (relink_free a st)"
proof -
  define l where "l = last (free_root st # spaces pre)"
  note W = relink_walk [OF rd some, folded l_def] and F = relink_facts [OF rd] and sl = release_lists(2) [of pre a post]
  let ?fr = "free_root st" and ?s = "\<lambda>m. st\<lparr>free_ptr := l, h_mem := m\<rparr>" and ?T = "relink_tracks st s n pre a post m0"
  have T: "?T (h_mem st) c" and L: "linked c ?fr (spaces pre @ spaces post)" using rd by (simp_all add: relink_ready_def)
  have lK: "l \<in> relink_cells st pre a post" using F(8) W(4) by blast
  have run: "relink_free a st = link_free a (?s (h_mem st))" "left_separated (?s (h_mem st)) = Some (\<not> left_free pre)"
    "right_separated l (?s (h_mem st)) = Some (\<not> right_free post)"
    using W(1-3) by simp_all
  note dl = relink_deref [OF T lK, of l]
  have fin: ?thesis if "link_free a (?s (h_mem st)) = Some (?s m')" "?T m' c'"
    "linked c' ?fr (spaces (release pre a post))" "\<And>p. p \<noteq> a \<Longrightarrow> p \<noteq> l \<Longrightarrow> c' p = c p" for m' c'
    by (rule relinkedI [where x = l, OF _ that(2,3)]) (use that(1,4) run(1) W(4) in auto)
  consider "right_free post" "left_free pre" | "right_free post" "\<not> left_free pre" | "\<not> right_free post" "left_free pre"
    | "\<not> right_free post" "\<not> left_free pre" by blast
  then show ?thesis
  proof cases
    case 3
    then have "link_free a (?s (h_mem st)) = Some (?s (h_mem st))" using run(2,3) dl by (simp add: link_free_def)
    then show ?thesis by (rule fin [OF _ T]) (use L sl 3 in simp_all)
  next
    case 4
    obtain m1 where m1: "assign (?s (h_mem st)) a (c l) = Some (?s m1)" "?T m1 (c(a := c l))"
      using relink_assign [OF T F(5)] by blast
    obtain m2 where m2: "assign (?s m1) l a = Some (?s m2)" "?T m2 (c(a := c l, l := a))"
      using relink_assign [OF m1(2) lK] by blast
    have "link_free a (?s (h_mem st)) = Some (?s m2)" using m1(1) m2(1) run(2,3) dl 4 by (simp add: link_free_def)
    moreover have "linked (c(a := c l, l := a)) ?fr (spaces (release pre a post))"
      using insert_space [OF L F(9) F(4) [OF F(5)] l_def] sl 4 by simp
    ultimately show ?thesis by (rule fin [OF _ m2(2)]) simp
  next
    case 1
    then obtain f ws where f: "spaces post = f # ws" by (cases "spaces post") (auto elim: right_freeE)
    have FF: "c l = f" "f \<in> relink_cells st pre a post" "f \<noteq> 0" using W(5) f F(4,8) by auto
    obtain m3 where m3: "assign (?s (h_mem st)) l (c f) = Some (?s m3)" "?T m3 (c(l := c f))"
      using relink_assign [OF T lK] by blast
    have "link_free a (?s (h_mem st)) = Some (?s m3)"
      using m3(1) run(2,3) dl relink_deref [OF T FF(2), of l] FF(1,3) 1 by (simp add: link_free_def)
    moreover have "linked (c(l := c f)) ?fr (spaces (release pre a post))"
      using linked_remove [of c ?fr "spaces pre" f ws l] L F(9) l_def sl 1 f by simp
    ultimately show ?thesis by (rule fin [OF _ m3(2)]) simp
  next
    case 2
    then obtain f ws where f: "spaces post = f # ws" by (cases "spaces post") (auto elim: right_freeE)
    have FF: "c l = f" "f \<in> relink_cells st pre a post" "f \<noteq> 0" using W(5) f F(4,8) by auto
    obtain m3 where m3: "assign (?s (h_mem st)) a (c f) = Some (?s m3)" "?T m3 (c(a := c f))"
      using relink_assign [OF T F(5)] by blast
    obtain m4 where m4: "assign (?s m3) l a = Some (?s m4)" "?T m4 (c(a := c f, l := a))"
      using relink_assign [OF m3(2) lK] by blast
    have "link_free a (?s (h_mem st)) = Some (?s m4)"
      using m3(1) m4(1) run(2,3) dl relink_deref [OF T FF(2), of l] FF(1,3) 2 by (simp add: link_free_def)
    moreover have "linked (c(a := c f, l := a)) ?fr (spaces pre @ a # ws)"
      by (rule linked_replace [where x = f]) (use L F(4,5,9) f l_def in auto)
    then have "linked (c(a := c f, l := a)) ?fr (spaces (release pre a post))" using sl 2 f by simp
    ultimately show ?thesis by (rule fin [OF _ m4(2)]) simp
  qed
qed

lemma relink_run:
  assumes "relink_tracks st s n pre a post m0 (h_mem st) c" "linked c (free_root st) (spaces pre @ spaces post)"
    and "alloc_ptr st = last (alloc_root st # objects pre)" "c (alloc_ptr st) = (case objects post of [] \<Rightarrow> 0 | y # _ \<Rightarrow> y)"
    and "h_block st = heap_blocks st"
  shows "\<exists>m x c'. relink_free a st = Some (st\<lparr>free_ptr := x, h_mem := m\<rparr>) \<and>
    relink_tracks st s n pre a post m0 m c' \<and> linked c' (free_root st) (spaces (release pre a post)) \<and>
    (\<forall>p. p \<notin> {a, free_root st} \<union> set (spaces pre) \<longrightarrow> c' p = c p)"
proof -
  have rd: "relink_ready st c s n pre a post m0" using assms by (simp add: relink_ready_def)
  have "relinked st c s n pre a post m0 (relink_free a st)"
    using relink_only [OF rd] relink_front [OF rd] relink_behind [OF rd] by (cases "spaces pre"; cases "spaces post") auto
  then show ?thesis by (simp only: relinked_def)
qed

section \<open>free\<close>

text \<open>Once the object is out of its list, the situation is that of \<open>relink_run\<close>.\<close>

lemma unlinked:
  assumes ok: "heap_ok st s n (pre @ (a, True) # post)" and more: "objects pre @ objects post \<noteq> []"
    and c: "c = load32 (h_mem st)" and A: "A = last (alloc_root st # objects pre)"
    and st2: "st2 = st\<lparr>h_block := heap_blocks st, alloc_ptr := A, h_mem := store32 (h_mem st) A (c a)\<rparr>"
  shows "unlink_alloc a (st\<lparr>h_block := heap_blocks st\<rparr>) = Some (st2, Unlinked)"
    "relink_ready st2 (c(A := c a)) s n pre a post (h_mem st)"
    "linked (c(A := c a)) (alloc_root st) (objects pre @ objects post)"
proof -
  let ?H = "pre @ (a, True) # post" and ?c1 = "c(A := c a)"
  note D = heap_okD [OF ok]
  have g: "geometry (heapc st) (heap_blocks st) (heap_blocks_size st) s n" using D(1) by simp
  show "unlink_alloc a (st\<lparr>h_block := heap_blocks st\<rparr>) = Some (st2, Unlinked)"
    using unlink_run [of "st\<lparr>h_block := heap_blocks st\<rparr>" s n pre a post] ok more by (simp add: A c st2)
  have AK: "A \<in> heap_cells (heapc st) ?H" using last_cell [of "objects pre" "heapc st" ?H "alloc_root st"] heap_cells_in(3) [of _ ?H "heapc st"]
    unfolding A by (auto simp: alloc_root_def subset_iff simp del: last.simps)
  have T2: "tracks (heapc st) (heap_blocks st) (heap_blocks_size st) s n ?H (h_mem st) (store32 (h_mem st) A (c a)) ?c1"
    by (rule tracks_store [OF _ AK]) (use tracks_start D(1,2) c in blast)
  have lk: "linked c (alloc_root st) (objects pre @ a # objects post)" using D(5) by (simp add: c)
  have dl: "distinct (alloc_root st # free_root st # (objects pre @ a # objects post) @ spaces pre @ [] @ spaces post)"
    using distinct_lists [OF g D(2)] by (simp add: alloc_root_def free_root_def)
  have Ain: "A \<in> insert (alloc_root st) (set (objects pre))"
    using last_in_set [of "alloc_root st # objects pre"] by (simp add: A del: last.simps)
  show "linked ?c1 (alloc_root st) (objects pre @ objects post)"
    by (rule linked_remove [OF lk _ A]) (use dl in auto)
  have "A \<noteq> free_root st" "A \<notin> set (spaces pre @ spaces post)" using Ain dl by auto
  then have "linked ?c1 (free_root st) (spaces pre @ spaces post)" using D(6) by (simp add: c)
  moreover have "?c1 A = (case objects post of [] \<Rightarrow> 0 | y # _ \<Rightarrow> y)"
    using linked_last [OF lk] linked_head [of c a "objects post"] by simp
  ultimately show "relink_ready st2 ?c1 s n pre a post (h_mem st)"
    using T2 A by (simp add: relink_ready_def st2 alloc_root_def free_root_def)
qed

text \<open>Both lists are in memory then.\<close>

lemma relinked_lists:
  assumes T: "relink_tracks st s n pre a post m0 m c"
    and L: "linked c (alloc_root st) (objects pre @ objects post)" "linked c (free_root st) (spaces (release pre a post))"
  shows "linked (load32 m) (alloc_root st) (objects (release pre a post))" "linked (load32 m) (free_root st) (spaces (release pre a post))"
proof -
  have o: "x \<in> relink_cells st pre a post" if "x \<in> insert (alloc_root st) (set (objects (release pre a post)))" for x
    using that by (auto simp: release_lists alloc_root_def)
  have "set (spaces (release pre a post)) \<subseteq> insert a (set (spaces pre) \<union> set (spaces post))"
    by (auto simp: release_lists dest: list.set_sel(2) elim!: right_freeE)
  then have p: "x \<in> relink_cells st pre a post" if "x \<in> insert (free_root st) (set (spaces (release pre a post)))" for x
    using that by (auto simp: free_root_def)
  show "linked (load32 m) (alloc_root st) (objects (release pre a post))"
    using L(1) linked_cong [of "alloc_root st" "objects (release pre a post)" "load32 m" c] tracks_load [OF T o]
    by (simp add: release_lists(1))
  show "linked (load32 m) (free_root st) (spaces (release pre a post))"
    using L(2) linked_cong [of "free_root st" "spaces (release pre a post)" "load32 m" c] tracks_load [OF T p] by simp
qed

text \<open>An object is left, so the block is still in use.\<close>

lemma keep_block:
  assumes ok: "heap_ok st s n hs" and a: "within s n a" "h_block st = heap_blocks st"
  shows "free_clear_blocks a st = Some (st\<lparr>alloc_ptr := hd (objects hs)\<rparr>)"
proof -
  note D = heap_okD [OF ok]
  obtain y ys where y: "objects hs = y # ys" using D(4) by (cases "objects hs") auto
  have yw: "within s n y" using headers_within(1) [OF D(2)] y by simp
  have "deref st (alloc_root st) = Some y" using D(5,7) y by (simp add: deref_def)
  moreover have "heap_mem_block st a = heap_blocks st" using heap_mem_block_one [OF D(1)] a(1) by simp
  then have "st\<lparr>h_block := heap_mem_block st a\<rparr> = st" using a(2) by simp
  moreover have "block_in_use (st\<lparr>alloc_ptr := y\<rparr>) = Some (st\<lparr>alloc_ptr := y\<rparr>, True)"
    using heap_not_in_one(3) [of "st\<lparr>alloc_ptr := y\<rparr>" s n y] D(1) yw a(2) by (subst block_in_use.simps) simp
  ultimately show ?thesis using y unfolding free_clear_blocks_def Let_def by (simp only: roots_cache) simp
qed

lemma free_shared_run:
  assumes ok: "heap_ok st s n (pre @ (a, True) # post)" and more: "objects pre @ objects post \<noteq> []"
  shows "\<exists>st'. heap_free st (a + 4) = Some st' \<and> heap_ok st' s n (release pre a post) \<and>
    only_cells st st' (kept (heapc st) s n (pre @ (a, True) # post))"
proof -
  let ?H = "pre @ (a, True) # post"
  note D = heap_okD [OF ok]
  have g: "geometry (heapc st) (heap_blocks st) (heap_blocks_size st) s n" using D(1) by simp
  have aw: "within s n a" "unat a + 4 < unat s + unat n" using tiles_within [OF D(2), of a True] by auto
  have "unat (a + 4) = unat a + 4" using aw(2) g unat_add_nat [of a 4] by (simp add: geometry_def)
  then have a4: "a + 4 \<noteq> 0" by auto
  have hb0: "heap_blocks st \<noteq> 0" using g by (simp add: geometry_def)
  have blk: "heap_mem_block st a = heap_blocks st" using heap_mem_block_one [OF D(1)] aw(1) by simp
  define c A where "c = load32 (h_mem st)" and "A = last (alloc_root st # objects pre)"
  define st2 where "st2 = st\<lparr>h_block := heap_blocks st, alloc_ptr := A, h_mem := store32 (h_mem st) A (c a)\<rparr>"
  note U = unlinked [OF ok more c_def A_def st2_def]
  have same: "alloc_root st2 = alloc_root st" "free_root st2 = free_root st" "heapc st2 = heapc st"
    by (simp_all add: st2_def alloc_root_def free_root_def)
  have "relink_tracks st2 s n pre a post (h_mem st) (h_mem st2) (c(A := c a))" using U(2) by (simp add: relink_ready_def)
  with U(2) obtain m x c' where r: "relink_free a st2 = Some (st2\<lparr>free_ptr := x, h_mem := m\<rparr>)"
    "relink_tracks st2 s n pre a post (h_mem st) m c'" "linked c' (free_root st2) (spaces (release pre a post))"
    "\<forall>p. p \<notin> {a, free_root st2} \<union> set (spaces pre) \<longrightarrow> c' p = (c(A := c a)) p"
    using relink_run [of st2 s n pre a post "h_mem st" "c(A := c a)"] unfolding relink_ready_def by blast
  let ?st3 = "st2\<lparr>free_ptr := x, h_mem := m\<rparr>"
  have "p \<notin> {a, free_root st} \<union> set (spaces pre)" if "p \<in> insert (alloc_root st) (set (objects pre @ objects post))" for p
    using that distinct_lists [OF g D(2)] by (auto simp: alloc_root_def free_root_def)
  then have L3: "linked c' (alloc_root st2) (objects pre @ objects post)"
    using U(3) linked_cong [of "alloc_root st" "objects pre @ objects post" c' "c(A := c a)"] r(4) unfolding same by blast
  have ok3: "heap_ok ?st3 s n (release pre a post)"
    using r(2) relinked_lists [OF r(2) L3 r(3)] release_tiles [OF D(2)] more by (simp add: heap_ok_def tracks_def release_lists(1))
  have "free_clear_blocks a ?st3 = Some (?st3\<lparr>alloc_ptr := hd (objects (release pre a post))\<rparr>)"
    by (rule keep_block [OF ok3 aw(1)]) (simp add: st2_def)
  then have "heap_free st (a + 4) = Some (?st3\<lparr>alloc_ptr := hd (objects (release pre a post))\<rparr>)"
    using a4 blk hb0 U(1) r(1) by (simp add: heap_free_def Let_def heap_header_size_def)
  moreover have "only_cells st (?st3\<lparr>alloc_ptr := hd (objects (release pre a post))\<rparr>) (kept (heapc st) s n ?H)"
    using r(2) by (simp add: only_cells_def tracks_def st2_def)
  moreover have "heap_ok (?st3\<lparr>alloc_ptr := hd (objects (release pre a post))\<rparr>) s n (release pre a post)"
    by (rule heap_ok_cache(1) [THEN iffD2, OF ok3])
  ultimately show ?thesis by blast
qed

section \<open>The empty heap\<close>

definition empty_geometry :: "u32 \<Rightarrow> u32 \<Rightarrow> u32 \<Rightarrow> bool" where
  "empty_geometry hc hb N \<longleftrightarrow> hc \<noteq> 0 \<and> fits_memory hc 8 \<and> hb \<noteq> 0 \<and> fits_memory hb (4 * unat N) \<and>
     2 \<le> unat N \<and> range_of hc 8 \<inter> range_of hb (4 * unat N) = {}"

definition heap_empty :: "heap \<Rightarrow> bool" where
  "heap_empty st \<longleftrightarrow> empty_geometry (heapc st) (heap_blocks st) (heap_blocks_size st) \<and>
     load32 (h_mem st) (alloc_root st) = 0 \<and> load32 (h_mem st) (free_root st) = 0 \<and>
     (\<forall>i. even i \<and> i < unat (heap_blocks_size st) \<longrightarrow> load32 (h_mem st) (heap_blocks st + 4 * word_of_nat i) = 0)"

lemma geometry_empty: "geometry hc hb N s n \<Longrightarrow> empty_geometry hc hb N"
  by (simp add: geometry_def empty_geometry_def)

lemma table_word:
  assumes "fits_memory hb (4 * k)" "i < k"
  shows "unat (hb + 4 * word_of_nat i) = unat hb + 4 * i" "fits_memory (hb + 4 * word_of_nat i) 4"
    "range_of (hb + 4 * word_of_nat i) 4 \<subseteq> range_of hb (4 * k)"
proof -
  have "unat (hb + word_of_nat (4 * i)) = unat hb + 4 * i"
    using assms by (intro unat_add_nat) (simp add: fits_memory_def)
  then show u: "unat (hb + 4 * word_of_nat i) = unat hb + 4 * i" by simp
  show "fits_memory (hb + 4 * word_of_nat i) 4" "range_of (hb + 4 * word_of_nat i) 4 \<subseteq> range_of hb (4 * k)"
    using u assms by (auto simp: fits_memory_def range_of_def)
qed

lemma store_table_other:
  assumes "fits_memory hb (4 * k)" "i < k" "j < k" "i \<noteq> j"
  shows "load32 (store32 m (hb + 4 * word_of_nat j) w) (hb + 4 * word_of_nat i) = load32 m (hb + 4 * word_of_nat i)"
  by (rule load32_store32_other)
    (use table_word [OF assms(1,2)] table_word [OF assms(1,3)] assms(4) in \<open>auto simp: range_of_def\<close>)

text \<open>Both words of the first entry are written.\<close>

lemma set_first_entry:
  fixes p k :: u32
  assumes g: "empty_geometry (heapc st) (heap_blocks st) (heap_blocks_size st)"
  defines "m \<equiv> store32 (store32 (h_mem st) (heap_blocks st) p) (heap_blocks st + 4) k"
  shows "heap_set_mem_block st (heap_blocks st) p k = Some (st\<lparr>h_mem := m\<rparr>)"
    "load32 m (heap_blocks st) = p" "load32 m (heap_blocks st + 4) = k"
    "\<And>i. 2 \<le> i \<Longrightarrow> i < unat (heap_blocks_size st) \<Longrightarrow> load32 m (heap_blocks st + 4 * word_of_nat i) = load32 (h_mem st) (heap_blocks st + 4 * word_of_nat i)"
    "load32 m (alloc_root st) = load32 (h_mem st) (alloc_root st)" "load32 m (free_root st) = load32 (h_mem st) (free_root st)"
    "same_on (h_mem st) m (- range_of (heap_blocks st) (4 * unat (heap_blocks_size st)))"
proof -
  let ?hb = "heap_blocks st" and ?N = "unat (heap_blocks_size st)" and ?hc = "heapc st"
  have b: "fits_memory ?hb (4 * ?N)" "0 < ?N" "1 < ?N" "?hb \<noteq> 0" using g by (auto simp: empty_geometry_def)
  note w0 = table_word [OF b(1,2)] and w1 = table_word [OF b(1,3)]
  have "?hb + 4 \<noteq> 0" using w1(1) by auto
  then show "heap_set_mem_block st ?hb p k = Some (st\<lparr>h_mem := m\<rparr>)"
    using b(4) by (simp add: heap_set_mem_block_def assign_def m_def)
  show "load32 m ?hb = p" "load32 m (?hb + 4) = k"
    using store_table_other [OF b(1,2,3), of "store32 (h_mem st) ?hb p" k] by (simp_all add: m_def)
  show "load32 m (?hb + 4 * word_of_nat i) = load32 (h_mem st) (?hb + 4 * word_of_nat i)" if "2 \<le> i" "i < ?N" for i
    using store_table_other [OF b(1) that(2) b(3), of "store32 (h_mem st) ?hb p" k] store_table_other [OF b(1) that(2) b(2), of "h_mem st" p] that
    by (simp add: m_def)
  have f: "fits_memory ?hb 4" "fits_memory (?hb + 4) 4" "range_of ?hb 4 \<subseteq> range_of ?hb (4 * ?N)" "range_of (?hb + 4) 4 \<subseteq> range_of ?hb (4 * ?N)"
    using w0 w1 by simp_all
  show sm: "same_on (h_mem st) m (- range_of ?hb (4 * ?N))"
    unfolding same_on_def m_def
  proof (intro allI impI)
    fix x :: u32 assume "unat x \<in> - range_of ?hb (4 * ?N)"
    then have "unat x \<notin> range_of ?hb 4" "unat x \<notin> range_of (?hb + 4) 4" using f(3,4) by auto
    then show "h_mem st x = store32 (store32 (h_mem st) ?hb p) (?hb + 4) k x" using store32_outside f(1,2) by simp
  qed
  have hc: "unat ?hc + 8 \<le> 2 ^ 32" using g by (simp add: empty_geometry_def fits_memory_def)
  have u4: "unat (?hc + 4) = unat ?hc + 4" using unat_add_nat [of ?hc 4] hc by simp
  have d: "range_of ?hc 8 \<subseteq> - range_of ?hb (4 * ?N)" using g by (auto simp: empty_geometry_def)
  have "range_of ?hc 4 \<subseteq> range_of ?hc 8" "range_of (?hc + 4) 4 \<subseteq> range_of ?hc 8"
    using u4 by (auto simp: range_of_def)
  then show "load32 m (alloc_root st) = load32 (h_mem st) (alloc_root st)" "load32 m (free_root st) = load32 (h_mem st) (free_root st)"
    using same_on_load32 [OF sm, of ?hc] same_on_load32 [OF sm, of "?hc + 4"] d u4 hc
    by (auto simp: alloc_root_def free_root_def fits_memory_def)
qed

lemma free_last_run:
  assumes ok: "heap_ok st s n (pre @ (a, True) # post)" and only: "objects pre @ objects post = []"
    and ret: "buddy_free (h_buddy st) s = Some b"
  shows "\<exists>st'. heap_free st (a + 4) = Some st' \<and> heap_empty st' \<and> h_buddy st' = b \<and> heapc st' = heapc st"
proof -
  let ?H = "pre @ (a, True) # post"
  note D = heap_okD [OF ok]
  have g: "geometry (heapc st) (heap_blocks st) (heap_blocks_size st) s n" using D(1) by simp
  have aw: "within s n a" "unat a + 4 < unat s + unat n" using tiles_within [OF D(2), of a True] by auto
  have "unat (a + 4) = unat a + 4" using aw(2) g unat_add_nat [of a 4] by (simp add: geometry_def)
  then have a4: "a + 4 \<noteq> 0" by auto
  have hb0: "heap_blocks st \<noteq> 0" using g by (simp add: geometry_def)
  have blk: "heap_mem_block st a = heap_blocks st" using heap_mem_block_one [OF D(1)] aw(1) by simp
  let ?st1 = "st\<lparr>h_block := heap_blocks st\<rparr>"
  obtain m where m: "unlink_alloc a ?st1 = Some (?st1\<lparr>h_mem := m\<rparr>, Heap_empty)"
    "tracks (heapc st) (heap_blocks st) (heap_blocks_size st) s n ?H (h_mem st) m
      ((load32 (h_mem st))(alloc_root st := 0, free_root st := 0))"
    using unlink_only_run [of ?st1 s n pre a post] ok only by auto
  let ?st2 = "?st1\<lparr>h_mem := m\<rparr>"
  have o2: "one_block ?st2 s n" using m(2) by (simp add: tracks_def)
  have roots: "load32 m (alloc_root st) = 0" "load32 m (free_root st) = 0"
    using tracks_load [OF m(2), of "alloc_root st"] tracks_load [OF m(2), of "free_root st"] by (simp_all add: alloc_root_def free_root_def)
  let ?st3 = "?st2\<lparr>alloc_ptr := 0\<rparr>"
  have same: "?st2\<lparr>h_block := heap_mem_block ?st2 a\<rparr> = ?st2" using heap_mem_block_one [OF o2, of a] aw(1) by simp
  have in0: "heap_in_mem_block u 0 = Some False"
    if "h_mem u = m" "heapc u = heapc st" "heap_blocks u = heap_blocks st" "heap_blocks_size u = heap_blocks_size st" "h_block u = heap_blocks st" for u :: heap
    using heap_not_in_one(3) [of u s n 0] o2 that not_within_null [OF g] by simp
  have idle: "block_in_use ?st3 = Some (?st3, False)" using in0 [of ?st3] by (subst block_in_use.simps) simp
  have ds: "deref ?st3 (heap_blocks st) = Some s" using o2 hb0 by (simp add: deref_def one_entry_def)
  let ?st4 = "?st3\<lparr>h_buddy := b, prev_free_ptr := free_root st, free_ptr := 0\<rparr>"
  have drop: "drop_spaces False ?st4 = Some ?st4" using in0 [of ?st4] by (subst drop_spaces.simps) simp
  have g4: "empty_geometry (heapc ?st4) (heap_blocks ?st4) (heap_blocks_size ?st4)" using geometry_empty [OF g] by simp
  note set = set_first_entry [OF g4, where p = 0 and k = 0]
  let ?st5 = "?st4\<lparr>h_mem := store32 (store32 m (heap_blocks st) 0) (heap_blocks st + 4) 0\<rparr>"
  have "deref ?st2 (alloc_root st) = Some 0" "deref ?st3 (free_root st) = Some 0"
    using roots D(7,8) by (simp_all add: deref_def)
  then have "free_clear_blocks a ?st2 = Some ?st5"
    using same idle ds drop set(1) ret unfolding free_clear_blocks_def Let_def by (simp add: free_root_def)
  then have "heap_free st (a + 4) = Some ?st5"
    using a4 blk hb0 m(1) by (simp add: heap_free_def Let_def heap_header_size_def)
  moreover have "heap_empty ?st5"
  proof -
    have "load32 (h_mem ?st5) (heap_blocks st + 4 * word_of_nat i) = 0" if "even i" "i < unat (heap_blocks_size st)" for i
    proof (cases "i = 0")
      case False
      then have "2 \<le> i" using that(1) by presburger
      then show ?thesis using set(4) [of i] that o2 by (simp add: one_entry_def)
    qed (use set(2) in simp)
    then show ?thesis using g4 set(5,6) roots by (simp add: heap_empty_def)
  qed
  ultimately show ?thesis by auto
qed

end
