(* ===== verification/HeapTheorems.thy ===== *)
theory HeapTheorems
  imports HeapFree
begin

text \<open>
  The properties of the heap: how it starts on two blocks of the buddy allocator, what \<open>malloc\<close>
  and \<open>free\<close> do on one block, and where they fail: a size that wraps, \<open>zmalloc\<close>, and the search
  over two blocks.
\<close>

section \<open>The first block\<close>

definition first_layout :: "u32 \<Rightarrow> u32 \<Rightarrow> u32 \<Rightarrow> layout" where
  "first_layout p k sz = (if k - sz > heap_header_size then [(p, True), (p + sz, False)] else [(p, True)])"

lemma first_layout_tiles:
  assumes g: "geometry hc hb N p k" and sz: "4 < unat sz" "unat sz \<le> unat k"
  shows "tiles p k (first_layout p k sz)" "unat (p + sz) = unat p + unat sz"
proof -
  have "unat p + unat k < 2 ^ 32" using g by (simp add: geometry_def)
  then show up: "unat (p + sz) = unat p + unat sz" using sz(2) by (intro unat_add_less) simp
  have le: "sz \<le> k" using sz(2) by (simp add: word_le_nat_alt)
  have "unat sz + 4 < unat k" if "k - sz > heap_header_size"
    using that le by (simp add: word_less_nat_alt unat_sub heap_header_size_def)
  then show "tiles p k (first_layout p k sz)" using sz up by (auto simp: tiles_def first_layout_def)
qed

lemma first_entry_only:
  assumes e: "heap_empty st" and eg: "empty_geometry (heapc st) (heap_blocks st) (heap_blocks_size st)"
  shows "one_entry (store32 (store32 (h_mem st) (heap_blocks st) p) (heap_blocks st + 4) k) (heap_blocks st) (heap_blocks_size st) p k"
proof -
  let ?hb = "heap_blocks st" and ?m = "store32 (store32 (h_mem st) (heap_blocks st) p) (heap_blocks st + 4) k"
  note set = set_first_entry [OF eg, where p = p and k = k]
  have z: "load32 (h_mem st) (?hb + 4 * word_of_nat i) = 0" if "even i" "i < unat (heap_blocks_size st)" for i
    using e that by (simp add: heap_empty_def)
  have "load32 ?m (?hb + 4 * word_of_nat i) = 0" if "even i" "0 < i" "i < unat (heap_blocks_size st)" for i
  proof -
    have "2 \<le> i" using that(1,2) by presburger
    then show ?thesis using set(4) [of i] z that by simp
  qed
  then show ?thesis using set(2,3) by (simp add: one_entry_def)
qed

lemma malloc_first_run:
  assumes e: "heap_empty st" and sz: "0 < unat size0" "unat size0 + 4 < 2 ^ 32"
    and alloc: "buddy_alloc (h_buddy st) (size0 + 4) = Some (b, k, p)" "p \<noteq> 0" "unat (size0 + 4) \<le> k" "k < 2 ^ 32"
    and g: "geometry (heapc st) (heap_blocks st) (heap_blocks_size st) p (word_of_nat k)"
  shows "\<exists>st'. malloc st size0 = Some (st', p + 4) \<and> heap_ok st' p (word_of_nat k) (first_layout p (word_of_nat k) (size0 + 4)) \<and>
    h_buddy st' = b"
proof -
  let ?sz = "size0 + 4" and ?k = "word_of_nat k :: u32" and ?hc = "heapc st" and ?hb = "heap_blocks st"
  define H where "H = first_layout p ?k ?sz"
  let ?T = "tracks ?hc ?hb (heap_blocks_size st) p ?k H"
  have u: "unat ?sz = unat size0 + 4" using unat_add_nat [of size0 4] sz(2) by simp
  have uk: "unat ?k = k" using alloc(4) by (simp add: unat_of_nat take_bit_eq_mod)
  have s4: "4 < unat ?sz" "unat ?sz \<le> unat ?k" using u sz(1) alloc(3) uk by simp_all
  note t = first_layout_tiles(1) [OF g s4, folded H_def] and up = first_layout_tiles(2) [OF g s4]
  have eg: "empty_geometry ?hc ?hb (heap_blocks_size st)" using geometry_empty [OF g] .
  let ?st1 = "st\<lparr>h_buddy := b, block_size := ?k\<rparr>"
  have eg1: "empty_geometry (heapc ?st1) (heap_blocks ?st1) (heap_blocks_size ?st1)" using eg by simp
  note set = set_first_entry [OF eg1, where p = p and k = ?k]
  define m2 where "m2 = store32 (store32 (h_mem st) ?hb p) (?hb + 4) ?k"
  have oe: "one_entry m2 ?hb (heap_blocks_size st) p ?k" unfolding m2_def by (rule first_entry_only [OF e eg])
  have T2: "?T m2 m2 (load32 m2)" by (rule tracks_start [OF g t oe])
  have K: "p \<in> heap_cells ?hc H" "alloc_root st \<in> heap_cells ?hc H" "free_root st \<in> heap_cells ?hc H"
    "?k - ?sz > heap_header_size \<Longrightarrow> p + ?sz \<in> heap_cells ?hc H"
    by (auto simp: heap_cells_def H_def first_layout_def alloc_root_def free_root_def)
  have W: "\<exists>m'. assign t' q v = Some (t'\<lparr>h_mem := m'\<rparr>) \<and> ?T m2 m' (c(q := v))"
    if "?T m2 (h_mem t') c" "q \<in> heap_cells ?hc H" for t' q c v
    by (rule assign_cell [OF that])
  let ?st2 = "?st1\<lparr>h_mem := m2\<rparr>" and ?c = "load32 m2"
  obtain m3 where m3: "assign ?st2 (alloc_root st) p = Some (?st1\<lparr>h_mem := m3\<rparr>)" "?T m2 m3 (?c(alloc_root st := p))"
    using W [of ?st2 ?c "alloc_root st" p] T2 K(2) by auto
  let ?c4 = "?c(alloc_root st := p, p := 0)"
  obtain m4 where m4: "assign (?st1\<lparr>h_mem := m3\<rparr>) p 0 = Some (?st1\<lparr>h_mem := m4\<rparr>)" "?T m2 m4 ?c4"
    using W [of "?st1\<lparr>h_mem := m3\<rparr>" "?c(alloc_root st := p)" p 0] m3(2) K(1) by auto
  have dl: "distinct (alloc_root st # free_root st # objects H @ spaces H)"
    using distinct_lists [OF g t] by (simp add: alloc_root_def free_root_def)
  have root0: "deref st (alloc_root st) = Some 0" using e eg by (simp add: heap_empty_def deref_def alloc_root_def empty_geometry_def)
  have s0: "size0 \<noteq> 0" using sz(1) by auto
  have req: "request st ?sz = Some (?st1, p)" using alloc(1,2) by (simp add: request_def)
  have set': "heap_set_mem_block ?st1 ?hb p ?k = Some ?st2" using set(1) by (simp add: m2_def)
  have free0: "?c (free_root st) = 0" using set(6) e by (simp add: heap_empty_def m2_def)
  have fin: ?thesis if T: "?T m2 m' c'" and L: "linked c' (alloc_root st) (objects H)" "linked c' (free_root st) (spaces H)"
    and run: "malloc_first ?sz st = Some (?st1\<lparr>h_mem := m'\<rparr>, p + heap_header_size)" for m' c'
  proof -
    let ?st' = "?st1\<lparr>h_mem := m'\<rparr>"
    have cong: "linked (load32 m') (alloc_root st) (objects H) = linked c' (alloc_root st) (objects H)"
      "linked (load32 m') (free_root st) (spaces H) = linked c' (free_root st) (spaces H)"
      by (rule linked_cong; use tracks_load [OF T] K(2,3) in auto)+
    have "objects H \<noteq> []" by (simp add: H_def first_layout_def)
    then have "heap_ok ?st' p ?k H" using T L cong t by (simp add: heap_ok_def tracks_def)
    moreover have "malloc st size0 = Some (?st', p + 4)"
      using root0 s0 run by (simp add: malloc_def heap_header_size_def Let_def)
    ultimately show ?thesis unfolding H_def by auto
  qed
  show ?thesis
  proof (cases "?k - ?sz > heap_header_size")
    case False
    have "linked ?c4 (alloc_root st) (objects H)" "linked ?c4 (free_root st) (spaces H)"
      using False alloc(2) dl free0 by (auto simp: H_def first_layout_def)
    moreover have "malloc_first ?sz st = Some (?st1\<lparr>h_mem := m4\<rparr>, p + heap_header_size)"
      using req alloc(2) set' m3(1) m4(1) False by (simp add: malloc_first_def)
    ultimately show ?thesis using fin m4(2) by blast
  next
    case True
    let ?g = "p + ?sz"
    obtain m5 where m5: "assign (?st1\<lparr>h_mem := m4\<rparr>) (free_root st) ?g = Some (?st1\<lparr>h_mem := m5\<rparr>)" "?T m2 m5 (?c4(free_root st := ?g))"
      using W [of "?st1\<lparr>h_mem := m4\<rparr>" ?c4 "free_root st" ?g] m4(2) K(3) by auto
    let ?c6 = "?c4(free_root st := ?g, ?g := 0)"
    obtain m6 where m6: "assign (?st1\<lparr>h_mem := m5\<rparr>) ?g 0 = Some (?st1\<lparr>h_mem := m6\<rparr>)" "?T m2 m6 ?c6"
      using W [of "?st1\<lparr>h_mem := m5\<rparr>" "?c4(free_root st := ?g)" ?g 0] m5(2) K(4) [OF True] by auto
    have "?g \<noteq> 0" using up u by auto
    then have "linked ?c6 (alloc_root st) (objects H)" "linked ?c6 (free_root st) (spaces H)"
      using True alloc(2) dl by (auto simp: H_def first_layout_def)
    moreover have "malloc_first ?sz st = Some (?st1\<lparr>h_mem := m6\<rparr>, p + heap_header_size)"
      using req alloc(2) set' m3(1) m4(1) m5(1) m6(1) True by (simp add: malloc_first_def)
    ultimately show ?thesis using fin m6(2) by blast
  qed
qed

section \<open>From the buddy allocator to the first object\<close>

lemma buddy_block_bounds:
  assumes inv: "buddy_inv bs" and run: "buddy_alloc bs sz = Some (bs', k, p)" "p \<noteq> 0"
  shows "buddy_inv bs'" "unat sz \<le> k" "0x80000000 \<le> unat p" "unat p + k \<le> 0x80000000 + 2 ^ 29"
    "\<exists>c. buddy_blocks bs' = insert c (buddy_blocks bs) \<and> buddy_extent bs' c = {unat p ..< unat p + k}"
    "\<And>c. c \<in> buddy_blocks bs \<Longrightarrow> {unat p ..< unat p + k} \<inter> buddy_extent bs c = {}"
    "buddy_extent bs' = buddy_extent bs"
proof -
  obtain m i where r: "fits bs sz m" "i < 2 ^ m" "k = layer_size bs m" "p = block_addr bs (m, i)"
    using buddy_alloc_Some [OF inv run(1)] run(2) by blast
  have m: "m < num_layers bs" using r(1) by (simp add: fits_def)
  show "0x80000000 \<le> unat p" "unat p + k \<le> 0x80000000 + 2 ^ 29"
    using unat_block_addr [OF inv m r(2)] r(3,4) by simp_all
  have gv: "buddy_inv bs' \<and> unat sz \<le> k \<and> unat p + k \<le> 2 ^ 32 \<and>
      (\<exists>b. b \<notin> buddy_blocks bs \<and> buddy_blocks bs' = insert b (buddy_blocks bs) \<and> p = block_addr bs b \<and>
        buddy_extent bs b = {unat p ..< unat p + k})"
    by (rule buddy.alloc_gives [OF inv run])
  then show "buddy_inv bs'" "unat sz \<le> k" by auto
  show same: "buddy_extent bs' = buddy_extent bs" using buddy.alloc_keeps [OF inv run(1)] by simp
  show "\<exists>c. buddy_blocks bs' = insert c (buddy_blocks bs) \<and> buddy_extent bs' c = {unat p ..< unat p + k}"
    using gv same by auto
  show "\<And>c. c \<in> buddy_blocks bs \<Longrightarrow> {unat p ..< unat p + k} \<inter> buddy_extent bs c = {}"
    by (rule buddy.alloc_extent_fresh [OF inv run])
qed

lemma load32_zero:
  assumes "\<And>x. unat x \<in> range_of a 4 \<Longrightarrow> m x = 0" "fits_memory a 4"
  shows "load32 m a = 0"
proof -
  have "load32 m a = load32 (\<lambda>_. 0) a"
    by (rule load32_cong) (use assms in_range_of [of a 4] in auto)
  then show ?thesis by (simp add: load32_def)
qed

lemma heap_init_run:
  assumes inv: "buddy_inv (h_buddy st)" and run: "buddy_alloc (h_buddy st) HEAP_METADATA_SIZE = Some (b, k, p)" "p \<noteq> 0"
    and zero: "\<And>x. unat x \<in> range_of p k \<Longrightarrow> h_mem st x = 0"
  shows "\<exists>st'. heap_init st = Some (st', word_of_nat (4 * ((k - 48) div 4))) \<and> heap_empty st' \<and> h_buddy st' = b \<and>
    heapc st' = p \<and> h_mem st' = h_mem st \<and> range_of (heap_blocks st') (4 * unat (heap_blocks_size st')) \<subseteq> range_of p k"
proof -
  note B = buddy_block_bounds [OF inv run]
  let ?n = "(k - 48) div 4" and ?k = "word_of_nat k :: u32"
  have k: "16384 \<le> k" "k \<le> 2 ^ 29" using B(2,3,4) by (simp_all add: HEAP_METADATA_SIZE_def)
  have uk: "unat ?k = k" using k(2) by (simp add: unat_of_nat take_bit_eq_mod)
  let ?N = "(?k - SIZEOF_HEAP_CACHE) div heap_header_size"
  have N: "unat ?N = ?n"
  proof -
    have "unat (?k - SIZEOF_HEAP_CACHE) = k - 48"
      using k(1) uk by (subst unat_sub_le) (simp_all add: SIZEOF_HEAP_CACHE_def word_le_nat_alt)
    then show ?thesis by (simp add: unat_div heap_header_size_def)
  qed
  have NH: "unat (?N * heap_header_size) = 4 * ?n"
    using N k(2) by (simp add: heap_header_size_def unat_word_ariths)
  let ?hb = "p + ?k - ?N * heap_header_size"
  have upk: "unat (p + ?k) = unat p + k" using B(4) uk unat_add_less [of p ?k] by simp
  have hb: "unat ?hb = unat p + k - 4 * ?n"
    using upk NH k(1) B(4) by (subst unat_sub_le) (simp_all add: word_le_nat_alt)
  let ?st' = "st\<lparr>h_buddy := b, block_size := ?k, heapc := p, heap_blocks_size := ?N, heap_blocks := ?hb\<rparr>"
  have "?N * heap_header_size = word_of_nat (4 * ?n)" using NH by (metis of_nat_unat ucast_id)
  then have init: "heap_init st = Some (?st', word_of_nat (4 * ?n))"
    using run by (simp add: heap_init_def request_def Let_def)
  have n: "4 * ?n \<le> k - 48" "2 \<le> ?n" using k(1) by auto
  have tab: "range_of ?hb (4 * unat ?N) \<subseteq> range_of p k" "fits_memory ?hb (4 * unat ?N)"
    using hb n(1) k(1) B(4) N by (auto simp: range_of_def fits_memory_def)
  have sep: "range_of p 8 \<inter> range_of ?hb (4 * unat ?N) = {}" using hb n(1) k(1) by (auto simp: range_of_def)
  have "0 < unat ?hb" using hb B(3) n(1) k(1) by simp
  then have hb0: "?hb \<noteq> 0" by auto
  have eg: "empty_geometry p ?hb ?N"
    using run(2) hb0 tab(2) n(2) N sep B(4) k(1) by (auto simp: empty_geometry_def fits_memory_def)
  have z: "load32 (h_mem st) q = 0" if "range_of q 4 \<subseteq> range_of p k" "fits_memory q 4" for q
    by (rule load32_zero [OF _ that(2)]) (use zero that(1) in blast)
  have p4: "unat (p + 4) = unat p + 4" using unat_add_nat [of p 4] B(4) k(1) by simp
  have "load32 (h_mem st) p = 0" "load32 (h_mem st) (p + 4) = 0"
    using k(1) B(4) p4 by (intro z; auto simp: range_of_def fits_memory_def)+
  moreover have "load32 (h_mem st) (?hb + 4 * word_of_nat i) = 0" if "i < unat ?N" for i
    by (rule z) (use table_word(2,3) [OF tab(2) that] tab(1) in auto)
  ultimately have "heap_empty ?st'" using eg by (simp add: heap_empty_def alloc_root_def free_root_def)
  then show ?thesis using init tab(1) by (intro exI [of _ ?st']) simp
qed

section \<open>A heap of one object\<close>

definition example_heap :: "buddy \<Rightarrow> heap" where
  "example_heap b = \<lparr>h_buddy = b,
     h_mem = fold (\<lambda>(a, w) m. store32 m a w)
       [(0x9000, 0x80000000), (0x9004, 0x80000064), (0x9030, 0x80000000), (0x9034, 4096), (0x80000000, 0), (0x80000064, 0)] (\<lambda>_. 0),
     heapc = 0x9000, heap_blocks = 0x9030, heap_blocks_size = 8, block_size = 4096, avail_size = 0, best_avail_size = 0,
     best_alloc_ptr = 0, best_prev_free_ptr = 0, best_free_ptr = 0, alloc_ptr = 0, prev_free_ptr = 0, free_ptr = 0,
     temp_ptr = 0, h_block = 0\<rparr>"

lemma load32_zero_memory [simp]: "load32 (\<lambda>_. 0) a = 0"
  by (simp add: load32_def)

lemma even_below_8: "even i \<and> 0 < i \<and> i < 8 \<longleftrightarrow> i \<in> {2, 4, 6 :: nat}"
  by (auto; presburger)

lemma example_heap_ok: "heap_ok (example_heap b) 0x80000000 4096 [(0x80000000, True), (0x80000064, False)]"
proof -
  have "geometry 0x9000 0x9030 8 0x80000000 4096"
    by (auto simp: geometry_def fits_memory_def range_of_def)
  moreover have "one_entry (h_mem (example_heap b)) 0x9030 8 0x80000000 4096"
    by (auto simp: one_entry_def even_below_8 example_heap_def load32_store32_eval)
  moreover have "tiles 0x80000000 4096 [(0x80000000, True), (0x80000064, False)]"
    by (simp add: tiles_def)
  ultimately show ?thesis
    by (simp add: heap_ok_def example_heap_def load32_store32_eval alloc_root_def free_root_def)
qed

definition example_empty :: "buddy \<Rightarrow> heap" where
  "example_empty b = example_heap b\<lparr>h_mem := (\<lambda>_. 0)\<rparr>"

lemma example_empty_heap: "heap_empty (example_empty b)"
  by (auto simp: heap_empty_def example_empty_def example_heap_def empty_geometry_def fits_memory_def range_of_def
      alloc_root_def free_root_def)

section \<open>malloc and free on one block\<close>

text \<open>C3: In a heap of one block in which some free space holds \<open>size\<close> bytes and a header,
  \<open>malloc\<close> returns a pointer to \<open>size\<close> bytes of the block that no object uses: the first space
  that is big enough below 8 KiB, a smallest one above. The list of objects, the list of free
  spaces and the tiling of the block stay intact, the rest of the space is a free space of its
  own if it holds more than a header. No byte of an object changes, and outside the block none
  but the heads of the two lists.\<close>

theorem malloc_one_block:
  assumes ok: "heap_ok st s n hs" and sz: "0 < unat size0" "unat size0 + 4 < 2 ^ 32"
    and fit: "fitting s n (size0 + 4) hs p g q"
  shows "\<exists>pre f post st'. picked (size0 + 4 < HEAP_FIRST_FIT_MAX_SIZE) s n (size0 + 4) hs pre f post \<and>
    malloc st size0 = Some (st', f + 4) \<and> heap_ok st' s n (place s n (size0 + 4) pre f post) \<and>
    same_on (h_mem st) (h_mem st') (kept (heapc st) s n hs) \<and>
    range_of (f + 4) (unat size0) \<subseteq> range_of s (unat n) - bodies (unat s + unat n) hs"
proof -
  obtain pre f post st' where r: "picked (size0 + 4 < HEAP_FIRST_FIT_MAX_SIZE) s n (size0 + 4) hs pre f post"
    "malloc st size0 = Some (st', f + 4)" "heap_ok st' s n (place s n (size0 + 4) pre f post)"
    "only_cells st st' (kept (heapc st) s n hs)"
    using malloc_fits [OF ok sz fit] by blast
  have "range_of (f + 4) (unat size0) \<subseteq> range_of s (unat n) - bodies (unat s + unat n) hs"
    using r(1) by (intro new_object_range [OF ok _ sz(2)]) (auto simp: picked_def)
  then show ?thesis using r by (auto simp: only_cells_def)
qed

lemma malloc_one_block_witness:
  "\<exists>st'. malloc (example_heap (small_heap 0)) 100 = Some (st', 0x80000068) \<and>
     heap_ok st' 0x80000000 4096 [(0x80000000, True), (0x80000064, True), (0x800000CC, False)]"
proof -
  let ?hs = "[(0x80000000, True), (0x80000064, False)] :: layout"
  have fit: "fitting 0x80000000 4096 (100 + 4) ?hs [(0x80000000, True)] 0x80000064 []"
    by (simp add: fitting_def space_size_def)
  have split: "pre = [(0x80000000, True)] \<and> f = 0x80000064 \<and> post = []" if "?hs = pre @ (f, False) # post" for pre f post
    using that by (auto simp: Cons_eq_append_conv)
  obtain pre f post st' where r: "?hs = pre @ (f, False) # post" "malloc (example_heap (small_heap 0)) 100 = Some (st', f + 4)"
    "heap_ok st' 0x80000000 4096 (place 0x80000000 4096 (100 + 4) pre f post)"
    using malloc_one_block [OF example_heap_ok _ _ fit, of "small_heap 0"] by (auto simp: picked_def fitting_def)
  show ?thesis using r(2,3) split [OF r(1)]
    by (auto simp: place_def space_size_def heap_header_size_def)
qed

text \<open>When no free space holds the request and the buddy allocator has no block for it,
  \<open>malloc\<close> returns 0; the lists, the tiling and all of memory are as before.\<close>

theorem malloc_no_memory:
  assumes ok: "heap_ok st s n hs" and sz: "0 < unat size0" and none: "\<forall>p g q. \<not> fitting s n (size0 + 4) hs p g q"
    and full: "buddy_inv (h_buddy st)" "buddy_alloc (h_buddy st) (size0 + 4) = Some (b, k, 0)"
  shows "\<exists>st'. malloc st size0 = Some (st', 0) \<and> heap_ok st' s n hs \<and> h_mem st' = h_mem st \<and> h_buddy st' = h_buddy st"
proof -
  have "b = h_buddy st" using buddy.alloc_fails [OF full] by simp
  then show ?thesis using malloc_no_room [OF ok sz] none full(2) by (fastforce simp: same_store_def)
qed

lemma malloc_no_memory_witness:
  "\<exists>st'. malloc (example_heap (small_heap 7)) 4000 = Some (st', 0) \<and>
     heap_ok st' 0x80000000 4096 [(0x80000000, True), (0x80000064, False)]"
proof -
  have "unat (4004 :: u32) \<le> g_buddy_max_block (small_heap 7)" by (simp add: small_heap_def)
  from buddy_alloc_result [OF two_pages_live(1) this] obtain m where m: "fits (small_heap 7) 4004 m"
    "(\<exists>i st'. i < 2 ^ m \<and> gives_block (small_heap 7) (m, i) st' \<and>
        buddy_alloc (small_heap 7) 4004 = Some (st', layer_size (small_heap 7) m, block_addr (small_heap 7) (m, i))) \<or>
     (layer_full (small_heap 7) m \<and> buddy_alloc (small_heap 7) 4004 = Some (small_heap 7, 0, 0))"
    by blast
  have "m = 1" using m(1) by (cases m) (simp_all add: fits_def)
  moreover have "\<not> gives_block (small_heap 7) (1, i) st'" if "i < 2" for i st'
    using that two_pages_live by (auto simp: gives_block_def less_2_nat)
  ultimately have full: "buddy_alloc (small_heap 7) 4004 = Some (small_heap 7, 0, 0)"
    using m(2) by auto
  have none: "\<forall>p g q. \<not> fitting 0x80000000 4096 (4000 + 4) [(0x80000000, True), (0x80000064, False)] p g q"
    by (auto simp: fitting_def space_size_def Cons_eq_append_conv)
  show ?thesis
    using malloc_no_memory [OF example_heap_ok _ none, of "small_heap 7" "small_heap 7" 0] two_pages_live(1) full
    by (auto simp: example_heap_def)
qed

text \<open>C4: Freeing one of several objects of a block returns; the object becomes free space, joined
  with the free spaces next to it, so that no two free spaces touch; the lists and the tiling
  stay intact, no byte of an object changes, and outside the block none but the heads of the lists.\<close>

theorem free_one_block:
  assumes "heap_ok st s n (pre @ (a, True) # post)" "objects pre @ objects post \<noteq> []"
  shows "\<exists>st'. heap_free st (a + 4) = Some st' \<and> heap_ok st' s n (release pre a post) \<and>
    same_on (h_mem st) (h_mem st') (kept (heapc st) s n (pre @ (a, True) # post)) \<and> h_buddy st' = h_buddy st"
  using free_shared_run [OF assms] by (auto simp: only_cells_def)

lemma example_heap_malloc:
  "\<exists>st'. malloc (example_heap b) 100 = Some (st', 0x80000068) \<and>
     heap_ok st' 0x80000000 4096 [(0x80000000, True), (0x80000064, True), (0x800000CC, False)]"
proof -
  have fit: "fitting 0x80000000 4096 (100 + 4) [(0x80000000, True), (0x80000064, False)] [(0x80000000, True)] 0x80000064 []"
    by (simp add: fitting_def space_size_def)
  obtain pre f post st' where r: "[(0x80000000, True), (0x80000064, False)] = pre @ (f, False) # post"
    "malloc (example_heap b) 100 = Some (st', f + 4)" "heap_ok st' 0x80000000 4096 (place 0x80000000 4096 (100 + 4) pre f post)"
    using malloc_fits [OF example_heap_ok _ _ fit, of b] by (auto simp: picked_def fitting_def)
  then have "pre = [(0x80000000, True)]" "f = 0x80000064" "post = []" by (auto simp: Cons_eq_append_conv)
  then show ?thesis using r(2,3) by (auto simp: place_def space_size_def heap_header_size_def)
qed

lemma free_one_block_witness:
  "\<exists>st st'. malloc (example_heap (small_heap 0)) 100 = Some (st, 0x80000068) \<and> heap_free st 0x80000068 = Some st' \<and>
     heap_ok st' 0x80000000 4096 [(0x80000000, True), (0x80000064, False)]"
proof -
  obtain st where st: "malloc (example_heap (small_heap 0)) 100 = Some (st, 0x80000068)"
    "heap_ok st 0x80000000 4096 ([(0x80000000, True)] @ (0x80000064, True) # [(0x800000CC, False)])"
    using example_heap_malloc by auto
  show ?thesis using free_one_block [OF st(2)] st(1) by (auto simp: release_def left_free_def right_free_def)
qed

text \<open>Freeing the last object of the heap empties both lists and the table of blocks and gives
  the block back to the buddy allocator.\<close>

theorem free_last_object:
  assumes ok: "heap_ok st s n hs" and last: "objects hs = [a]"
    and buddy: "buddy_inv (h_buddy st)" "blk \<in> buddy_blocks (h_buddy st)" "buddy_blocks (h_buddy st) \<noteq> {blk}"
      "block_addr (h_buddy st) blk = s"
  shows "\<exists>st'. heap_free st (a + 4) = Some st' \<and> heap_empty st' \<and> takes_block (h_buddy st) blk (h_buddy st')"
proof -
  obtain b where b: "buddy_free (h_buddy st) s = Some b" "takes_block (h_buddy st) blk b"
    using buddy_free_result [OF buddy(1,2)] buddy(3,4) by auto
  have "(a, True) \<in> set hs" using last objects_in [of a hs] by simp
  then obtain pre post where hs: "hs = pre @ (a, True) # post" by (meson split_list)
  then have "objects pre @ objects post = []" using last by (cases "objects pre") auto
  then show ?thesis using free_last_run [OF ok [unfolded hs] _ b(1)] b(2) by auto
qed

lemma free_last_object_witness:
  "\<exists>st'. heap_free (example_heap (small_heap 7)) 0x80000004 = Some st' \<and> heap_empty st' \<and>
     takes_block (small_heap 7) (1, 0) (h_buddy st')"
proof -
  have "h_buddy (example_heap (small_heap 7)) = small_heap 7" by (simp add: example_heap_def)
  moreover have "block_addr (small_heap 7) (1, 0) = 0x80000000"
    by (simp add: block_addr_def block_offset_def BUDDY_ALLOC_VIRADR_def)
  moreover have "objects [(0x80000000, True), (0x80000064, False)] = [0x80000000]" by simp
  ultimately show ?thesis
    using free_last_object [OF example_heap_ok, of "0x80000000" "small_heap 7" "(1, 0)"] two_pages_live by simp
qed

text \<open>The space an object was placed in is whole again once the object is released.\<close>

lemma place_then_release:
  assumes ok: "heap_ok st s n (pre @ (f, False) # post)"
  obtains rest where "place s n sz pre f post = pre @ (f, True) # (rest @ post)" "objects pre @ objects (rest @ post) \<noteq> []"
    "release pre f (rest @ post) = pre @ (f, False) # post" "f + 4 \<noteq> 0"
proof -
  note D = heap_okD [OF ok]
  define rest where "rest = (if space_size s n f post - sz > heap_header_size then [(f + sz, False)] else [])"
  have pl: "place s n sz pre f post = pre @ (f, True) # (rest @ post)" by (simp add: place_def rest_def)
  have more: "objects pre @ objects (rest @ post) \<noteq> []" using D(4) by (auto simp: rest_def)
  have "\<not> left_free pre" "\<not> right_free post"
    using D(3) space_neighbours [of "unat s + unat n" pre f post] by (auto simp: left_free_def right_free_def)
  then have restored: "release pre f (rest @ post) = pre @ (f, False) # post"
    by (auto simp: release_def rest_def right_free_def)
  have "unat (f + 4) = unat f + 4"
    using header_cell(2) [of _ _ _ s n "pre @ (f, False) # post" f False] D(1,2) tiles_within [OF D(2), of f False]
    by (intro unat_add_nat [of f 4, simplified]) (auto simp: geometry_def)
  then have "f + 4 \<noteq> 0" by auto
  then show thesis using that pl more restored by blast
qed

text \<open>An object freed right after it was allocated leaves the layout of the block, the bytes of
  the objects, all memory outside the block and the heads of the lists, and the buddy allocator
  as they were.\<close>

theorem malloc_free_roundtrip:
  assumes ok: "heap_ok st s n hs" and sz: "0 < unat size0" "unat size0 + 4 < 2 ^ 32"
    and fit: "fitting s n (size0 + 4) hs p g q"
  shows "\<exists>st1 ptr st2. malloc st size0 = Some (st1, ptr) \<and> ptr \<noteq> 0 \<and> heap_free st1 ptr = Some st2 \<and>
    heap_ok st2 s n hs \<and> same_on (h_mem st) (h_mem st2) (kept (heapc st) s n hs) \<and> h_buddy st2 = h_buddy st"
proof -
  obtain pre f post st' where r: "picked (size0 + 4 < HEAP_FIRST_FIT_MAX_SIZE) s n (size0 + 4) hs pre f post"
    "malloc st size0 = Some (st', f + 4)" "heap_ok st' s n (place s n (size0 + 4) pre f post)"
    "only_cells st st' (kept (heapc st) s n hs)"
    using malloc_fits [OF ok sz fit] by blast
  have hs: "hs = pre @ (f, False) # post" using r(1) by (auto simp: picked_def fitting_def)
  obtain rest where R: "place s n (size0 + 4) pre f post = pre @ (f, True) # (rest @ post)" "objects pre @ objects (rest @ post) \<noteq> []"
    "release pre f (rest @ post) = hs" "f + 4 \<noteq> 0"
    using place_then_release [OF ok [unfolded hs], of "size0 + 4"] hs by metis
  obtain st2 where st2: "heap_free st' (f + 4) = Some st2" "heap_ok st2 s n hs"
    "only_cells st' st2 (kept (heapc st') s n (pre @ (f, True) # (rest @ post)))"
    using free_shared_run [OF r(3) [unfolded R(1)] R(2)] R(3) by auto
  have "heapc st' = heapc st" using r(4) by (simp add: only_cells_def)
  moreover have "kept (heapc st) s n hs \<subseteq> kept (heapc st) s n (pre @ (f, True) # (rest @ post))"
    using place_bodies [of "unat s + unat n" pre f post s n "size0 + 4"] unfolding R(1) hs by (rule kept_mono)
  ultimately have "same_on (h_mem st') (h_mem st2) (kept (heapc st) s n hs)"
    using st2(3) same_on_mono by (auto simp: only_cells_def)
  then have "same_on (h_mem st) (h_mem st2) (kept (heapc st) s n hs)" using r(4) by (simp add: only_cells_def same_on_def)
  then show ?thesis using r(2,4) st2 R(4) by (auto simp: only_cells_def)
qed

lemma malloc_free_roundtrip_witness:
  "\<exists>st1 ptr st2. malloc (example_heap (small_heap 0)) 3000 = Some (st1, ptr) \<and> heap_free st1 ptr = Some st2 \<and>
     heap_ok st2 0x80000000 4096 [(0x80000000, True), (0x80000064, False)]"
proof -
  have fit: "fitting 0x80000000 4096 (3000 + 4) [(0x80000000, True), (0x80000064, False)] [(0x80000000, True)] 0x80000064 []"
    by (simp add: fitting_def space_size_def)
  show ?thesis using malloc_free_roundtrip [OF example_heap_ok _ _ fit, of "small_heap 0"] by auto
qed

section \<open>A buddy allocator with two blocks\<close>

text \<open>A buddy allocator with two blocks of \<open>w\<close> bytes serves two requests of at most \<open>w\<close> bytes.\<close>

definition two_layer_heap :: "nat \<Rightarrow> buddy" where
  "two_layer_heap w = (small_heap 0)\<lparr>g_buddy_min_block := w, g_buddy_max_block := 2 * w\<rparr>"

lemma two_layer_heap_inv:
  assumes "0 < w" "w \<le> 2 ^ 28"
  shows "buddy_inv (two_layer_heap w)" "buddy_blocks (two_layer_heap w) = {}" "num_layers (two_layer_heap w) = 2"
    "layer_size (two_layer_heap w) (Suc 0) = w" "g_buddy_max_block (two_layer_heap w) = 2 * w"
proof -
  have t: "tree_of (g_buddy_block (two_layer_heap w)) = tree_of (g_buddy_block (small_heap 0))"
    by (simp add: two_layer_heap_def)
  show n: "num_layers (two_layer_heap w) = 2" by (simp add: two_layer_heap_def num_layers_def)
  show "layer_size (two_layer_heap w) (Suc 0) = w" "g_buddy_max_block (two_layer_heap w) = 2 * w"
    by (simp_all add: layer_size_def n) (simp_all add: two_layer_heap_def)
  have "buddy_inv (small_heap 0)" by (rule small_heap_inv) simp
  then have "wf_tree 2 (tree_of (g_buddy_block (two_layer_heap w)))" by (simp add: buddy_inv_def t)
  then show "buddy_inv (two_layer_heap w)"
    using assms n unfolding buddy_inv_def by (simp add: two_layer_heap_def BUDDY_LAYERS_def)
  show "buddy_blocks (two_layer_heap w) = {}"
    using small_heap_blocks [of 0] by (simp add: buddy_blocks_def t n bit_7_marks)
qed

lemma two_layer_alloc:
  assumes inv: "buddy_inv st" and n: "num_layers st = 2" and sz: "unat sz \<le> layer_size st (Suc 0)"
    and free: "i < 2" "\<forall>b \<in> buddy_blocks st. disjoint_blocks b (1, i)"
  shows "\<exists>st' j. j < 2 \<and> gives_block st (1, j) st' \<and>
    buddy_alloc st sz = Some (st', layer_size st (Suc 0), block_addr st (1, j)) \<and> same_heap st st'"
proof -
  have "unat sz \<le> g_buddy_max_block st"
    using sz n buddy_invD(7) [OF inv] block_end_le_max [of 1 st 0] by (simp add: block_offset_def)
  from buddy_alloc_result [OF inv this] obtain m where m: "fits st sz m"
    "(\<exists>i st'. i < 2 ^ m \<and> gives_block st (m, i) st' \<and>
        buddy_alloc st sz = Some (st', layer_size st m, block_addr st (m, i))) \<or> layer_full st m"
    by blast
  have m1: "m = 1" using m(1) n sz by (cases m) (simp_all add: fits_def)
  have "\<not> layer_full st 1" using free by (auto simp: layer_full_def)
  then obtain j st' where j: "j < 2" "gives_block st (1, j) st'"
    "buddy_alloc st sz = Some (st', layer_size st (Suc 0), block_addr st (1, j))"
    using m(2) m1 by auto
  moreover have "same_heap st st'" using heap_step_frame [OF step_alloc [OF j(3)] inv] .
  ultimately show ?thesis by blast
qed

lemma two_layer_two_allocs:
  assumes w: "0 < w" "w \<le> 2 ^ 28" and sz: "unat sz \<le> w" "unat sz' \<le> w"
  shows "\<exists>b1 b2 i. i < 2 \<and> buddy_alloc (two_layer_heap w) sz = Some (b1, w, block_addr (two_layer_heap w) (1, i)) \<and>
    buddy_alloc b1 sz' = Some (b2, w, block_addr (two_layer_heap w) (1, 1 - i))"
proof -
  note H = two_layer_heap_inv [OF w]
  obtain b1 i where 1: "i < 2" "gives_block (two_layer_heap w) (1, i) b1" "same_heap (two_layer_heap w) b1"
    "buddy_alloc (two_layer_heap w) sz = Some (b1, w, block_addr (two_layer_heap w) (1, i))"
    using two_layer_alloc [OF H(1,3), of sz 0] sz(1) H(2,4) by auto
  note geo = same_heapD [OF 1(3)]
  have b: "buddy_inv b1" "buddy_blocks b1 = {(1, i)}" using 1(2) H(2) by (auto simp: gives_block_def)
  have less: "1 - i < 2" by simp
  have "disjoint_blocks (1, i) (1, 1 - i)" using 1(1) by (auto simp: disjoint_blocks_def covers_def less_2_nat)
  then obtain b2 j where 2: "j < 2" "gives_block b1 (1, j) b2" "buddy_alloc b1 sz' = Some (b2, w, block_addr b1 (1, j))"
    using two_layer_alloc [OF b(1), of sz' "1 - i"] geo(1,2) H(3,4) sz(2) b(2) less by auto
  have "j = 1 - i" using 2(1,2) 1(1) b(2) by (auto simp: gives_block_def)
  then show ?thesis using 1 2(3) geo(4) by auto
qed

lemma two_layer_addresses:
  assumes "0 < w" "w \<le> 2 ^ 28" "i < 2"
  shows "block_addr (two_layer_heap w) (1, i) = 0x80000000 + word_of_nat (i * w)"
    "block_addr (two_layer_heap w) (1, i) \<noteq> 0"
  using block_addr_offset(2) [OF two_layer_heap_inv(1) [OF assms(1,2)], of 1 i] two_layer_heap_inv(3,4) [OF assms(1,2)] assms(3)
  by (simp_all add: block_addr_def block_offset_def BUDDY_ALLOC_VIRADR_def)

section \<open>From an empty heap and back\<close>

text \<open>C5: On a well-formed buddy allocator that has a block for the metadata and then one for the
  first request, with the metadata's memory zero: after \<open>heap_init\<close>, \<open>malloc\<close> returns the address
  behind the header of an object at the start of the new block, the rest of which is a free
  space if it holds more than a header, and freeing that object empties the heap and leaves the
  blocks that were live after \<open>heap_init\<close>.\<close>

theorem heap_lifecycle:
  assumes inv: "buddy_inv (h_buddy st)" and meta: "buddy_alloc (h_buddy st) HEAP_METADATA_SIZE = Some (b, k, p)" "p \<noteq> 0"
    and zero: "\<forall>x. unat x \<in> range_of p k \<longrightarrow> h_mem st x = 0" and sz: "0 < unat size0" "unat size0 + 4 < 2 ^ 32"
    and first: "buddy_alloc b (size0 + 4) = Some (b', n, q)" "q \<noteq> 0"
  shows "\<exists>st1 len st2 st3. heap_init st = Some (st1, len) \<and> malloc st1 size0 = Some (st2, q + 4) \<and>
    heap_ok st2 q (word_of_nat n) (first_layout q (word_of_nat n) (size0 + 4)) \<and>
    heap_free st2 (q + 4) = Some st3 \<and> heap_empty st3 \<and> buddy_blocks (h_buddy st3) = buddy_blocks b"
proof -
  note B = buddy_block_bounds [OF inv meta]
  note Q = buddy_block_bounds [OF B(1) first]
  obtain st1 where st1: "heap_init st = Some (st1, word_of_nat (4 * ((k - 48) div 4)))" "heap_empty st1" "h_buddy st1 = b"
    "heapc st1 = p" "range_of (heap_blocks st1) (4 * unat (heap_blocks_size st1)) \<subseteq> range_of p k"
    using heap_init_run [OF inv meta] zero by blast
  let ?n = "word_of_nat n :: u32"
  have n: "unat ?n = n" "n < 2 ^ 32" using Q(3,4) by (simp_all add: unat_of_nat take_bit_eq_mod)
  obtain c where c: "c \<in> buddy_blocks b" "buddy_extent b c = range_of p k"
    using B(5) by (auto simp: range_of_def)
  then have apart: "range_of p k \<inter> range_of q n = {}" using Q(6) [of c] by (auto simp: range_of_def)
  have k: "16384 \<le> k" using B(2) by (simp add: HEAP_METADATA_SIZE_def)
  then have "range_of p 8 \<subseteq> range_of p k" by (auto simp: range_of_def)
  moreover have "empty_geometry p (heap_blocks st1) (heap_blocks_size st1)" using st1(2,4) by (simp add: heap_empty_def)
  ultimately have g: "geometry (heapc st1) (heap_blocks st1) (heap_blocks_size st1) q ?n"
    using st1(4,5) apart Q(3,4) first(2) n(1) unfolding geometry_def empty_geometry_def by auto
  have r: "buddy_alloc (h_buddy st1) (size0 + 4) = Some (b', n, q)" using first(1) st1(3) by simp
  obtain st2 where st2: "malloc st1 size0 = Some (st2, q + 4)" "h_buddy st2 = b'"
    "heap_ok st2 q ?n (first_layout q ?n (size0 + 4))"
    using malloc_first_run [OF st1(2) sz r first(2) Q(2) n(2) g] by blast
  obtain b'' where b'': "buddy_free b' q = Some b''" "buddy_blocks b'' = buddy_blocks b"
    using buddy.alloc_release_live [OF B(1) _ first] c(1) by blast
  obtain post where fl: "first_layout q ?n (size0 + 4) = [] @ (q, True) # post" "objects [] @ objects post = []"
    by (cases "word_of_nat n - (size0 + 4) > heap_header_size") (auto simp: first_layout_def)
  obtain st3 where "heap_free st2 (q + 4) = Some st3" "heap_empty st3" "h_buddy st3 = b''"
    using free_last_run [OF st2(3) [unfolded fl(1)] fl(2)] b''(1) st2(2) by blast
  then show ?thesis using st1(1) st2(1,3) b''(2) by blast
qed

lemma heap_lifecycle_witness:
  "\<exists>st1 len st2 st3 q. heap_init (example_empty (two_layer_heap 16384)) = Some (st1, len) \<and>
     malloc st1 100 = Some (st2, q + 4) \<and> heap_free st2 (q + 4) = Some st3 \<and> heap_empty st3"
proof -
  let ?b = "two_layer_heap 16384" and ?st = "example_empty (two_layer_heap 16384)"
  obtain b1 b2 i where r: "i < (2 :: nat)" "buddy_alloc ?b HEAP_METADATA_SIZE = Some (b1, 16384, block_addr ?b (1, i))"
    "buddy_alloc b1 (100 + 4) = Some (b2, 16384, block_addr ?b (1, 1 - i))"
    using two_layer_two_allocs [of 16384 HEAP_METADATA_SIZE 104] by (auto simp: HEAP_METADATA_SIZE_def)
  have "block_addr ?b (1, i) \<noteq> 0" "block_addr ?b (1, 1 - i) \<noteq> 0" using two_layer_addresses(2) [of 16384] r(1) by auto
  moreover have "h_buddy ?st = ?b" "h_mem ?st = (\<lambda>_. 0)" by (simp_all add: example_empty_def example_heap_def)
  moreover have "buddy_inv ?b" by (rule two_layer_heap_inv) simp_all
  ultimately show ?thesis using heap_lifecycle [of ?st b1 16384 "block_addr ?b (1, i)" 100 b2 16384 "block_addr ?b (1, 1 - i)"] r by auto
qed

section \<open>Where the code fails\<close>

text \<open>The size with its header is computed in 32 bits: for a size in the last four bytes below
  2 to the 32 the sum wraps, the first \<open>malloc\<close> asks for fewer than four bytes and returns a
  pointer into a block far smaller than the size asked for.\<close>

theorem malloc_size_wraps:
  assumes e: "heap_empty st" and inv: "buddy_inv (h_buddy st)" and big: "2 ^ 32 \<le> unat size0 + 4"
    and alloc: "buddy_alloc (h_buddy st) (size0 + 4) = Some (b, k, p)" "p \<noteq> 0"
  shows "\<exists>st'. malloc st size0 = Some (st', p + 4) \<and> block_size st' = word_of_nat k \<and> k < unat size0"
proof -
  note B = buddy_block_bounds [OF inv alloc]
  have lt: "unat size0 < 2 ^ 32" using unsigned_less [of size0] by simp
  have "unat (size0 + 4) = (unat size0 + 4) mod 2 ^ 32" by (simp add: unat_word_ariths)
  also have "\<dots> = (unat size0 + 4 - 2 ^ 32) mod 2 ^ 32" by (rule le_mod_geq [OF big])
  also have "\<dots> = unat size0 + 4 - 2 ^ 32" using lt by (intro mod_less) simp
  finally have s: "unat (size0 + 4) = unat size0 + 4 - 2 ^ 32" .
  have eg: "empty_geometry (heapc st) (heap_blocks st) (heap_blocks_size st)" using e by (simp add: heap_empty_def)
  let ?st1 = "st\<lparr>h_buddy := b, block_size := word_of_nat k\<rparr>"
  have hb: "heap_blocks st + 4 \<noteq> 0" "heap_blocks st \<noteq> 0"
    using eg unat_add_nat [of "heap_blocks st" 4] by (fastforce simp: empty_geometry_def fits_memory_def)+
  have hc: "heapc st + 4 \<noteq> 0" "heapc st \<noteq> 0"
    using eg unat_add_nat [of "heapc st" 4] by (fastforce simp: empty_geometry_def fits_memory_def)+
  have "unat (p + (size0 + 4)) = unat p + unat (size0 + 4)"
    using B(4) s lt by (intro unat_add_less) simp
  then have p: "p + (size0 + 4) \<noteq> 0" using B(3) by auto
  have "\<exists>st'. malloc_first w st = Some (st', p + 4) \<and> block_size st' = word_of_nat k"
    if w: "buddy_alloc (h_buddy st) w = Some (b, k, p)" "p + w \<noteq> 0" for w
    using w alloc(2) hb hc
    by (cases "word_of_nat k - w > (4 :: u32)")
      (simp_all add: malloc_first_def request_def heap_set_mem_block_def assign_def alloc_root_def free_root_def heap_header_size_def)
  from this [OF alloc(1) p]
  have "\<exists>st'. malloc_first (size0 + 4) st = Some (st', p + 4) \<and> block_size st' = word_of_nat k" .
  moreover have "deref st (alloc_root st) = Some 0" using e hc(2) by (simp add: heap_empty_def deref_def alloc_root_def)
  moreover have "size0 \<noteq> 0" using big by (intro notI) simp
  ultimately have "\<exists>st'. malloc st size0 = Some (st', p + 4) \<and> block_size st' = word_of_nat k"
    by (simp add: malloc_def heap_header_size_def)
  moreover have "k < unat size0" using B(3,4) big by simp
  ultimately show ?thesis by blast
qed

lemma malloc_size_wraps_witness:
  "\<exists>st' p. malloc (example_empty (two_layer_heap 4096)) 0xFFFFFFFE = Some (st', p + 4) \<and> block_size st' = 4096"
proof -
  let ?b = "two_layer_heap 4096"
  obtain b1 i where r: "i < (2 :: nat)" "buddy_alloc ?b (0xFFFFFFFE + 4) = Some (b1, 4096, block_addr ?b (1, i))"
  proof -
    have w: "(0xFFFFFFFE + 4 :: u32) = 2" by simp
    show ?thesis using two_layer_two_allocs [of 4096 2 2] that unfolding w by auto
  qed
  have "block_addr ?b (1, i) \<noteq> 0" using two_layer_addresses(2) [of 4096] r(1) by auto
  moreover have "buddy_inv ?b" by (rule two_layer_heap_inv) simp_all
  ultimately show ?thesis
    using malloc_size_wraps [OF example_empty_heap, of ?b "0xFFFFFFFE" b1 4096 "block_addr ?b (1, i)"] r(2)
    by (auto simp: example_empty_def example_heap_def)
qed

text \<open>\<open>zmalloc\<close> writes through the pointer \<open>malloc\<close> gave it without advancing it: it clears the
  first byte of the object and leaves the rest as it was, and when \<open>malloc\<close> fails it writes
  through the null pointer.\<close>

theorem zmalloc_clears_one_byte:
  assumes run: "malloc st size0 = Some (st1, data)" and sz: "size0 \<noteq> 0"
  shows "if data = 0 then zmalloc st size0 = None
    else \<exists>st2. zmalloc st size0 = Some (st2, data) \<and> h_mem st2 data = 0 \<and> (\<forall>x. x \<noteq> data \<longrightarrow> h_mem st2 x = h_mem st1 x)"
proof -
  obtain j where j: "unat size0 = Suc j" using sz by (cases "unat size0") (auto simp: unat_eq_0)
  have "((\<lambda>m. m(data := 0)) ^^ Suc i) m = m(data := 0)" for i and m :: memory by (induction i) (simp_all add: fun_eq_iff)
  then show ?thesis using run sz by (simp add: zmalloc_def j)
qed

lemma zmalloc_clears_one_byte_witness:
  "\<exists>st1 st2. malloc (example_heap (small_heap 0)) 100 = Some (st1, 0x80000068) \<and> zmalloc (example_heap (small_heap 0)) 100 = Some (st2, 0x80000068) \<and>
     (\<forall>x. x \<noteq> 0x80000068 \<longrightarrow> h_mem st2 x = h_mem st1 x)"
proof -
  obtain st1 where st1: "malloc (example_heap (small_heap 0)) 100 = Some (st1, 0x80000068)" using example_heap_malloc by auto
  show ?thesis using zmalloc_clears_one_byte [OF st1] st1 by auto
qed

end
