(* ===== verification/HeapRuns.thy ===== *)
theory HeapRuns
  imports HeapTheorems
begin

text \<open>
  Runs of the heap at concrete addresses: sequences of calls after which two objects overlap or an
  object loses its contents. The addresses and the size of the table of blocks are chosen so that
  the runs evaluate: the heap's structures lie at 0x9000, outside the memory the heap hands out,
  and the table has 8 words. \<open>heap_init\<close> itself takes the memory of its structures from the buddy
  allocator, so that they lie above 0x80000000 and the table has at least 4084 words. The
  runs use the first two entries of the table.
\<close>

section \<open>Evaluation\<close>

text \<open>
  The structures of the heap at addresses fixed for the evaluation (not those \<open>heap_init\<close>
  chooses), and what the words of interest hold.
\<close>

definition heap_words :: "heap \<Rightarrow> buddy \<Rightarrow> (u32 \<times> u32) list \<Rightarrow> bool" where
  "heap_words st b ws \<longleftrightarrow> heapc st = 0x9000 \<and> heap_blocks st = 0x9030 \<and> heap_blocks_size st = 8 \<and> h_buddy st = b \<and>
     list_all (\<lambda>(a, w). load32 (h_mem st) a = w) ws"

text \<open>Runs at concrete addresses are evaluated one bind after the other.\<close>

lemma bind_weak_cong: "x = y \<Longrightarrow> Option.bind x f = Option.bind y f"
  by simp

lemmas weak_congs = bind_weak_cong let_weak_cong if_weak_cong

lemmas heap_eval = deref_def assign_def load32_store32_eval heap_not_in_mem_block_def heap_in_mem_block_def
  heap_mem_block_end_def heap_mem_block_def heap_mem_block_from.simps block_entry_def alloc_root_def free_root_def
  heap_header_size_def unlink_alloc_def left_separated_def right_separated_def link_free_def relink_free_def
  free_clear_blocks_def find_link.simps free_before.simps block_in_use.simps heap_free_def malloc_def malloc_first_def
  request_def heap_set_mem_block_def malloc_search.simps locate_block_def closest_alloc.simps available_size_def
  reach_block.simps consider_space_def next_space_def malloc_new_block_def heap_find_empty_block_ptr_def
  heap_find_empty_from.simps last_alloc.simps malloc_in_between_def HEAP_FIRST_FIT_MAX_SIZE_def heap_words_def Let_def

section \<open>Two blocks\<close>

text \<open>The lists and the table of blocks after each call of the run below.\<close>

abbreviation words_0 :: "(u32 \<times> u32) list" where
  "words_0 \<equiv> [(0x9000, 0), (0x9004, 0), (0x9030, 0), (0x9038, 0), (0x9040, 0), (0x9048, 0)]"

abbreviation words_1 :: "(u32 \<times> u32) list" where
  "words_1 \<equiv> [(0x9000, 0x80000000), (0x9004, 0), (0x9030, 0x80000000), (0x9034, 4096), (0x9040, 0), (0x9048, 0),
     (0x9038, 0), (0x80000000, 0)]"

abbreviation words_2 :: "(u32 \<times> u32) list" where
  "words_2 \<equiv> [(0x9000, 0x80000000), (0x9004, 0x80001064), (0x9030, 0x80000000), (0x9034, 4096), (0x9040, 0), (0x9048, 0),
     (0x9038, 0x80001000), (0x903C, 4096), (0x80000000, 0x80001000), (0x80001000, 0), (0x80001064, 0)]"

abbreviation words_3 :: "(u32 \<times> u32) list" where
  "words_3 \<equiv> [(0x9000, 0x80000000), (0x9004, 0x800010C8), (0x9030, 0x80000000), (0x9034, 4096), (0x9040, 0), (0x9048, 0),
     (0x9038, 0x80001000), (0x903C, 4096), (0x80000000, 0x80001000), (0x80001000, 0x80001064), (0x80001064, 0), (0x800010C8, 0)]"

abbreviation words_4 :: "(u32 \<times> u32) list" where
  "words_4 \<equiv> [(0x9000, 0x80000000), (0x9004, 0x8000112C), (0x9030, 0x80000000), (0x9034, 4096), (0x9040, 0), (0x9048, 0),
     (0x9038, 0x80001000), (0x903C, 4096), (0x80000000, 0x80001000), (0x80001000, 0x80001064), (0x80001064, 0x800010C8), (0x800010C8, 0),
     (0x8000112C, 0)]"

abbreviation words_5 :: "(u32 \<times> u32) list" where
  "words_5 \<equiv> [(0x9000, 0x80000000), (0x9004, 0x80001064), (0x9030, 0x80000000), (0x9034, 4096), (0x9040, 0), (0x9048, 0),
     (0x9038, 0x80001000), (0x903C, 4096), (0x80000000, 0x80001000), (0x80001000, 0x800010C8), (0x800010C8, 0), (0x80001064, 0x8000112C),
     (0x8000112C, 0)]"

lemma two_blocks_run_1:
  assumes "heap_words st b words_0" and "buddy_alloc b 4092 = Some (b1, 4096, 0x80000000)"
  shows "\<exists>st'. malloc st 4088 = Some (st', 0x80000004) \<and> heap_words st' b1 words_1"
  using assms by (simp add: heap_eval cong: weak_congs)

lemma two_blocks_run_2:
  assumes "heap_words st b1 words_1" and "buddy_alloc b1 100 = Some (b2, 4096, 0x80001000)"
  shows "\<exists>st'. malloc st 96 = Some (st', 0x80001004) \<and> heap_words st' b2 words_2"
  using assms by (simp add: heap_eval cong: weak_congs)

lemma two_blocks_run_3:
  assumes "heap_words st b2 words_2"
  shows "\<exists>st'. malloc st 96 = Some (st', 0x80001068) \<and> heap_words st' b2 words_3"
  using assms by (simp add: heap_eval cong: weak_congs)

lemma two_blocks_run_4:
  assumes "heap_words st b2 words_3"
  shows "\<exists>st'. malloc st 96 = Some (st', 0x800010CC) \<and> heap_words st' b2 words_4"
  using assms by (simp add: heap_eval cong: weak_congs)

lemma two_blocks_run_5:
  assumes "heap_words st b2 words_4"
  shows "\<exists>st'. heap_free st 0x80001068 = Some st' \<and> heap_words st' b2 words_5"
  using assms by (simp add: heap_eval cong: weak_congs)

lemma two_blocks_run_6: "heap_words st b2 words_5 \<Longrightarrow> \<exists>st'. malloc st 200 = Some (st', 0x80001068)"
  by (simp add: heap_eval cong: weak_congs)

text \<open>C24: From an empty heap (its structures at fixed addresses below the blocks): with two blocks, \<open>malloc\<close> hands out memory that is in use. An object fills the first
  block, three objects of 96 bytes go to the second, the middle one is freed: the search takes
  the gap to end with its block, because the object before it in the list lies in the other
  block, and gives 200 bytes at the gap to the next caller, over the third object.\<close>

theorem malloc_two_blocks_overlap:
  assumes "heap_words st b words_0" "buddy_alloc b 4092 = Some (b1, 4096, 0x80000000)"
    and "buddy_alloc b1 100 = Some (b2, 4096, 0x80001000)"
  shows "\<exists>p1 p2 p3 p4 p5. do {
     (st1, p1) \<leftarrow> malloc st 4088;
     (st2, p2) \<leftarrow> malloc st1 96;
     (st3, p3) \<leftarrow> malloc st2 96;
     (st4, p4) \<leftarrow> malloc st3 96;
     st5 \<leftarrow> heap_free st4 p3;
     (st6, p5) \<leftarrow> malloc st5 200;
     Some [p1, p2, p3, p4, p5]
   } = Some [p1, p2, p3, p4, p5] \<and> range_of p4 96 \<subseteq> range_of p5 200"
proof -
  obtain st1 where 1: "malloc st 4088 = Some (st1, 0x80000004)" "heap_words st1 b1 words_1"
    using two_blocks_run_1 [OF assms(1,2)] by blast
  obtain st2 where 2: "malloc st1 96 = Some (st2, 0x80001004)" "heap_words st2 b2 words_2"
    using two_blocks_run_2 [OF 1(2) assms(3)] by blast
  obtain st3 where 3: "malloc st2 96 = Some (st3, 0x80001068)" "heap_words st3 b2 words_3"
    using two_blocks_run_3 [OF 2(2)] by blast
  obtain st4 where 4: "malloc st3 96 = Some (st4, 0x800010CC)" "heap_words st4 b2 words_4"
    using two_blocks_run_4 [OF 3(2)] by blast
  obtain st5 where 5: "heap_free st4 0x80001068 = Some st5" "heap_words st5 b2 words_5"
    using two_blocks_run_5 [OF 4(2)] by blast
  obtain st6 where 6: "malloc st5 200 = Some (st6, 0x80001068)"
    using two_blocks_run_6 [OF 5(2)] by blast
  have "range_of 0x800010CC 96 \<subseteq> range_of 0x80001068 200" by (auto simp: range_of_def)
  then show ?thesis using 1(1) 2(1) 3(1) 4(1) 5(1) 6 by simp
qed

text \<open>The first request gets the lower one of two blocks.\<close>

lemma first_block_low:
  assumes "buddy_alloc (two_layer_heap 4096) 4092 = Some (b', n, p)"
  shows "p = 0x80000000"
  using assms
  by (simp add: buddy_alloc_def two_layer_heap_def small_heap_def buddy_block_def buddy_block_set_def aread_int_def
      aread_def awrite_def buddy_layers_def fit_layer.simps alloc_scan.simps alloc_visit_def alloc_test_def
      BUDDY_ARRAY_SIZE_def Let_def nth_list_update cong: weak_congs)
    (auto simp: bind_eq_Some_conv BUDDY_ALLOC_VIRADR_def)

lemma two_blocks_buddy:
  "\<exists>b1 b2. buddy_alloc (two_layer_heap 4096) 4092 = Some (b1, 4096, 0x80000000) \<and>
    buddy_alloc b1 100 = Some (b2, 4096, 0x80001000)"
proof -
  obtain b1 b2 i where r: "i < (2 :: nat)" "buddy_alloc (two_layer_heap 4096) 4092 = Some (b1, 4096, block_addr (two_layer_heap 4096) (1, i))"
    "buddy_alloc b1 100 = Some (b2, 4096, block_addr (two_layer_heap 4096) (1, 1 - i))"
    using two_layer_two_allocs [of 4096 4092 100] by auto
  have "block_addr (two_layer_heap 4096) (1, i) = 0x80000000" by (rule first_block_low [OF r(2)])
  moreover have "block_addr (two_layer_heap 4096) (1, 0) = 0x80000000" "block_addr (two_layer_heap 4096) (1, 1) = 0x80001000"
    using two_layer_addresses(1) [of 4096 0] two_layer_addresses(1) [of 4096 1] by simp_all
  moreover have "i = 0 \<or> i = 1" using r(1) by auto
  ultimately show ?thesis using r(2,3) by auto
qed

lemma malloc_two_blocks_overlap_witness:
  "\<exists>p1 p2 p3 p4 p5. do {
     (st1, p1) \<leftarrow> malloc (example_empty (two_layer_heap 4096)) 4088;
     (st2, p2) \<leftarrow> malloc st1 96;
     (st3, p3) \<leftarrow> malloc st2 96;
     (st4, p4) \<leftarrow> malloc st3 96;
     st5 \<leftarrow> heap_free st4 p3;
     (st6, p5) \<leftarrow> malloc st5 200;
     Some [p1, p2, p3, p4, p5]
   } = Some [p1, p2, p3, p4, p5] \<and> range_of p4 96 \<subseteq> range_of p5 200"
proof -
  have "heap_words (example_empty b) b words_0" for b by (simp add: heap_words_def example_empty_def example_heap_def)
  then show ?thesis using malloc_two_blocks_overlap two_blocks_buddy by blast
qed

end
