(* ===== verification/HeapRealloc.thy ===== *)
theory HeapRealloc
  imports HeapRuns
begin

text \<open>
  \<open>realloc\<close>: resizing an object where it lies, and what goes wrong when no free space follows
  it in its block or when it has to move.
\<close>

section \<open>The object and the free space behind it\<close>

lemma find_alloc_run:
  assumes "linked (load32 (h_mem st)) p (us @ a # us')" "a \<notin> set us" "alloc_ptr st = load32 (h_mem st) p"
  shows "find_alloc a st = Some (st\<lparr>alloc_ptr := a\<rparr>)"
  using assms
proof (induction us arbitrary: p st)
  case Nil
  then show ?case by (subst find_alloc.simps) simp
next
  case (Cons u us)
  let ?st = "st\<lparr>alloc_ptr := load32 (h_mem st) u\<rparr>"
  have "find_alloc a ?st = Some (?st\<lparr>alloc_ptr := a\<rparr>)" by (rule Cons.IH [where p = u]) (use Cons.prems in auto)
  then show ?case using Cons.prems by (subst find_alloc.simps) (auto simp: deref_def)
qed

lemma find_space_step:
  assumes "one_block st s n" "h_block st = heap_blocks st" "prev_free_ptr st \<noteq> 0"
    and "free_ptr st = load32 (h_mem st) (prev_free_ptr st)" "\<not> within s n (free_ptr st) \<or> free_ptr st < a"
  shows "find_space a st = (if free_ptr st = 0 then None
    else find_space a (st\<lparr>prev_free_ptr := free_ptr st, free_ptr := load32 (h_mem st) (free_ptr st)\<rparr>))"
  using assms heap_not_in_one(2) [OF assms(1,2)]
  by (subst find_space.simps) (auto simp: next_space_def deref_def)

lemma find_space_run:
  assumes "linked (load32 (h_mem st)) (prev_free_ptr st) (vs @ ws)" "prev_free_ptr st \<noteq> 0"
    and "free_ptr st = load32 (h_mem st) (prev_free_ptr st)" "one_block st s n" "h_block st = heap_blocks st"
    and "\<And>v. v \<in> set vs \<Longrightarrow> v < a" "\<And>w. w \<in> set ws \<Longrightarrow> within s n w \<and> \<not> w < a"
  shows "find_space a st = (case ws of [] \<Rightarrow> None
    | f # _ \<Rightarrow> Some (st\<lparr>prev_free_ptr := last (prev_free_ptr st # vs), free_ptr := f\<rparr>))"
  using assms
proof (induction vs arbitrary: st)
  case Nil
  note hn = heap_not_in_one(2) [OF Nil.prems(4,5)]
  show ?case
  proof (cases ws)
    case Nil
    then have "free_ptr st = 0" using \<open>linked _ _ ([] @ ws)\<close> Nil.prems(3) by simp
    moreover have "\<not> within s n 0" using Nil.prems(4) not_within_null by blast
    ultimately show ?thesis using find_space_step [OF Nil.prems(4,5,2,3), of a] Nil by simp
  next
    case (Cons f ws')
    then have "free_ptr st = f" using Nil.prems(1,3) by simp
    then show ?thesis using Nil.prems(7) [of f] hn Cons by (subst find_space.simps) simp
  qed
next
  case (Cons v vs)
  have v: "free_ptr st = v" "v \<noteq> 0" "v < a" using Cons.prems by auto
  let ?st = "st\<lparr>prev_free_ptr := v, free_ptr := load32 (h_mem st) v\<rparr>"
  have "find_space a ?st = (case ws of [] \<Rightarrow> None
    | f # _ \<Rightarrow> Some (?st\<lparr>prev_free_ptr := last (prev_free_ptr ?st # vs), free_ptr := f\<rparr>))"
    by (rule Cons.IH) (use Cons.prems in auto)
  then show ?case using find_space_step [OF Cons.prems(4,5,2,3), of a] v by (simp split: list.splits)
qed

text \<open>The state in which the new size is compared with the space up to the next object.\<close>

definition realloc_start :: "heap \<Rightarrow> u32 \<Rightarrow> u32 \<Rightarrow> layout \<Rightarrow> u32 \<Rightarrow> layout \<Rightarrow> u32 \<Rightarrow> heap" where
  "realloc_start st s n pre a post f = st\<lparr>alloc_ptr := a, h_block := heap_blocks st,
     prev_free_ptr := last (free_root st # spaces pre), free_ptr := f, avail_size := space_size s n a post\<rparr>"

lemma realloc_reaches:
  assumes ok: "heap_ok st s n (pre @ (a, True) # post)"
  shows "spaces post = [] \<Longrightarrow> realloc st (a + 4) size0 = None"
    "spaces post = f # fs \<Longrightarrow> size0 + 4 < space_size s n a post \<Longrightarrow> realloc st (a + 4) size0 =
       map_option (\<lambda>st'. (st', a + 4)) (shrink a (size0 + 4) (realloc_start st s n pre a post f))"
proof -
  note D = heap_okD [OF ok]
  have g: "geometry (heapc st) (heap_blocks st) (heap_blocks_size st) s n" using D(1) by simp
  have l: "laid (unat s + unat n) (pre @ (a, True) # post)" using D(3) .
  have aw: "within s n a" "unat a + 4 < unat s + unat n" using tiles_within [OF D(2), of a True] by auto
  have "unat (a + 4) = unat a + 4" using aw(2) g unat_add_nat [of a 4] by (simp add: geometry_def)
  then have a4: "a + 4 \<noteq> 0" by auto
  have an: "a \<noteq> 0" using header_cell(1) [OF g D(2), of a True] by simp
  have blk: "heap_mem_block (st\<lparr>alloc_ptr := a\<rparr>) a = heap_blocks st"
    using heap_mem_block_one [of "st\<lparr>alloc_ptr := a\<rparr>" s n a] D(1) aw(1) by simp
  let ?c = "load32 (h_mem st)"
  have da: "distinct (objects pre @ a # objects post)" using distinct_lists [OF g D(2)] by auto
  have root: "deref st (alloc_root st) = Some (?c (alloc_root st))" "?c (alloc_root st) \<noteq> 0"
    using D(4,5,7) by (cases "objects (pre @ (a, True) # post)"; simp add: deref_def)+
  have find: "find_alloc a (st\<lparr>alloc_ptr := ?c (alloc_root st)\<rparr>) = Some (st\<lparr>alloc_ptr := a\<rparr>)"
    using find_alloc_run [of "st\<lparr>alloc_ptr := ?c (alloc_root st)\<rparr>" "alloc_root st" "objects pre" a "objects post"] D(5) da by simp
  let ?st1 = "st\<lparr>alloc_ptr := a, h_block := heap_blocks st, prev_free_ptr := free_root st, free_ptr := ?c (free_root st)\<rparr>"
  have sp: "find_space a ?st1 = (case spaces post of [] \<Rightarrow> None
    | f # _ \<Rightarrow> Some (?st1\<lparr>prev_free_ptr := last (prev_free_ptr ?st1 # spaces pre), free_ptr := f\<rparr>))"
  proof (rule find_space_run)
    show "linked (load32 (h_mem ?st1)) (prev_free_ptr ?st1) (spaces pre @ spaces post)" using D(6) by simp
    show "\<And>v. v \<in> set (spaces pre) \<Longrightarrow> v < a" "\<And>w. w \<in> set (spaces post) \<Longrightarrow> within s n w \<and> \<not> w < a"
      using headers_order(3,4) [OF l] headers_within(2) [OF D(2)] by (auto simp: order_less_not_sym)
  qed (use D(1,8) in auto)
  have nxt: "?c a = (case objects post of [] \<Rightarrow> 0 | y # _ \<Rightarrow> y)"
    using linked_last [of ?c "alloc_root st" "objects pre @ [a]" "objects post"] D(5) by (cases "objects post") auto
  note start = root an a4 find blk
  show "spaces post = [] \<Longrightarrow> realloc st (a + 4) size0 = None"
    using start sp D(8) by (simp add: realloc_def heap_header_size_def Let_def deref_def)
  assume f: "spaces post = f # fs" and small: "size0 + 4 < space_size s n a post"
  let ?st2 = "?st1\<lparr>prev_free_ptr := last (free_root st # spaces pre), free_ptr := f\<rparr>"
  have hn: "heap_mem_block_end ?st2 = Some (s + n)" "heap_in_mem_block ?st2 p = Some (within s n p)" for p
    using heap_not_in_one(1,3) [of ?st2 s n] D(1) by simp_all
  have da2: "deref ?st2 a = Some (?c a)" using an by (simp add: deref_def)
  have sz: "(if within s n (?c a) then ?c a else s + n) - a = space_size s n a post"
    using nxt headers_within(1) [OF D(2)] not_within_null [OF g] by (auto simp: space_size_def split: list.splits)
  show "realloc st (a + 4) size0 =
       map_option (\<lambda>st'. (st', a + 4)) (shrink a (size0 + 4) (realloc_start st s n pre a post f))"
    using start sp f D(8) hn da2 sz small
    by (simp add: realloc_def heap_header_size_def Let_def deref_def realloc_start_def del: last.simps)
qed

section \<open>Resizing in place\<close>

definition resized :: "u32 \<Rightarrow> u32 \<Rightarrow> u32 \<Rightarrow> u32 \<Rightarrow> layout \<Rightarrow> layout" where
  "resized s n sz a post = (if sz + 4 < space_size s n a post then [(a + sz, False)] else []) @
     (if right_free post then tl post else post)"

lemma laid_objects_next:
  assumes "rest = [] \<or> snd (hd rest)"
  shows "next_header e rest = (case objects rest of [] \<Rightarrow> e | v # _ \<Rightarrow> unat v)"
proof (cases rest)
  case (Cons h hs)
  then show ?thesis using assms by (cases h) auto
qed simp

lemma resized_tiles:
  assumes g: "geometry hc hb N s n" and t: "tiles s n (pre @ (a, True) # post)"
    and sz: "sz < space_size s n a post" "4 < unat sz"
  shows "tiles s n (pre @ (a, True) # resized s n sz a post)"
    "sz + 4 < space_size s n a post \<Longrightarrow> unat (a + sz) = unat a + unat sz"
proof -
  let ?e = "unat s + unat n" and ?w = "space_size s n a post"
  define rest where "rest = (if right_free post then tl post else post)"
  have l: "laid ?e (pre @ (a, True) # post)" using t by (simp add: tiles_def)
  note r = laid_behind [OF l, folded rest_def]
  have e: "?e < 2 ^ 32" "unat n < 2000000000" "unat (s + n) = ?e" using g unat_block_end [OF g] by (simp_all add: geometry_def)
  have "objects rest = objects post" by (auto simp: rest_def elim!: right_freeE)
  then have "next_header ?e rest = unat (case objects post of [] \<Rightarrow> s + n | v # _ \<Rightarrow> v)"
    using laid_objects_next [OF r(2), of ?e] e(3) by (simp split: list.splits)
  then have w: "unat ?w = next_header ?e rest - unat a"
    using r(3) by (simp add: space_size_def unat_sub word_le_nat_alt)
  have le: "next_header ?e rest \<le> ?e" by (rule laid_next_le [OF r(1)])
  have u: "unat sz < unat ?w" using sz(1) by (simp add: word_less_nat_alt)
  then have ua: "unat (a + sz) = unat a + unat sz" using w r(3) le e(1) by (intro unat_add_less) simp
  then show "sz + 4 < ?w \<Longrightarrow> unat (a + sz) = unat a + unat sz" .
  have "unat a \<ge> unat s" using tiles_within [OF t, of a True] by (simp add: within_def)
  then have "unat ?w \<le> unat n" using w r(3) le by simp
  then have u4: "unat (sz + 4) = unat sz + 4" using u e(2) unat_add_nat [of sz 4] by simp
  have split: "unat a + unat sz + 4 < next_header ?e rest" if "sz + 4 < ?w"
    using that w r(3) by (simp add: word_less_nat_alt u4)
  have la: "laid (unat a) pre" "pre = [] \<or> snd (last pre) \<or> True" using l by (simp_all add: laid_append)
  have "laid ?e (pre @ (a, True) # resized s n sz a post)"
    using r la(1) split ua sz(2) by (simp add: resized_def laid_append laid_Cons flip: rest_def)
  then show "tiles s n (pre @ (a, True) # resized s n sz a post)" using t by (cases pre) (auto simp: tiles_def)
qed

lemma resized_lists:
  "objects (pre @ (a, True) # resized s n sz a post) = objects pre @ a # objects post"
  "spaces (pre @ (a, True) # resized s n sz a post) =
     spaces pre @ (if sz + 4 < space_size s n a post then [a + sz] else []) @ (if right_free post then tl (spaces post) else spaces post)"
  by (auto simp: resized_def elim!: right_freeE)

text \<open>The list of free spaces after the space behind the object was moved, added or taken out.\<close>

lemma resized_links:
  assumes l: "linked c r (vs @ f # fs)" and d: "distinct (r # vs @ f # fs)" "distinct (r # vs @ g # (if far then f # fs else fs))"
    and P: "P = last (r # vs)" and g: "g \<noteq> 0"
  shows "linked (c(g := (if far then f else c f), P := g)) r (vs @ g # (if far then f # fs else fs))"
proof -
  have cP: "c P = f" using linked_last [OF l] P by simp
  show ?thesis
  proof (cases far)
    case True
    then show ?thesis using linked_insert [of c r vs "f # fs" g P] l d(2) P g cP by simp
  next
    case False
    show ?thesis
    proof (cases "g = f")
      case True
      then show ?thesis using False l cP by (simp add: fun_upd_idem)
    next
      case ne: False
      have "g \<notin> set (r # vs @ f # fs)" using d(2) ne False by auto
      then show ?thesis using linked_replace [OF l d(1) _ P g] False by simp
    qed
  qed
qed

text \<open>The space behind the object is not its neighbour exactly if the next object comes before it.\<close>

lemma next_object_before:
  assumes ok: "heap_ok st s n (pre @ (a, True) # post)" and f: "spaces post = f # fs"
  shows "within s n (load32 (h_mem st) a) \<and> load32 (h_mem st) a < f \<longleftrightarrow> \<not> right_free post"
proof -
  note D = heap_okD [OF ok]
  let ?c = "load32 (h_mem st)"
  have g: "geometry (heapc st) (heap_blocks st) (heap_blocks_size st) s n" using D(1) by simp
  have nxt: "?c a = (case objects post of [] \<Rightarrow> 0 | y # _ \<Rightarrow> y)"
    using linked_last [of ?c "alloc_root st" "objects pre @ [a]" "objects post"] D(5) by (cases "objects post") auto
  obtain y u post' where post: "post = (y, u) # post'" using f by (cases post) auto
  have lp: "laid (unat s + unat n) ([] @ (y, u) # post')" using D(3) by (simp add: laid_append laid_Cons post)
  note o = headers_order(2,4) [OF lp] and w = headers_within(1) [OF D(2)]
  show ?thesis
  proof (cases u)
    case True
    then have "y < f" using o(2) [of f] f post by simp
    then show ?thesis using True w [of y] nxt post by (simp add: right_free_def)
  next
    case False
    then have "y = f" "right_free post" using f post by (simp_all add: right_free_def)
    moreover have "\<not> ?c a < f" if "within s n (?c a)"
    proof (cases "objects post'")
      case Nil
      then show ?thesis using that nxt post False not_within_null [OF g] by simp
    next
      case (Cons v vs)
      then have "f < v" using o(1) [of v] \<open>y = f\<close> by simp
      then show ?thesis using nxt post False Cons by (simp add: order_less_not_sym)
    qed
    ultimately show ?thesis by blast
  qed
qed

text \<open>What is left to show once the list of free spaces is written.\<close>

lemma resized_finish:
  fixes st s n pre a sz post f
  defines "H \<equiv> pre @ (a, True) # resized s n sz a post" and "st0 \<equiv> realloc_start st s n pre a post f"
  assumes T: "tracks (heapc st) (heap_blocks st) (heap_blocks_size st) s n H (h_mem st) m c'"
    and L: "linked c' (free_root st) (spaces H)" "linked c' (alloc_root st) (objects H)"
  shows "heap_ok (st0\<lparr>h_mem := m\<rparr>) s n H" "only_cells st (st0\<lparr>h_mem := m\<rparr>) (kept (heapc st) s n H)"
proof -
  have "objects H \<noteq> []" unfolding H_def resized_lists(1) by simp
  moreover have "linked (load32 m) (alloc_root st) (objects H) = linked c' (alloc_root st) (objects H)"
    "linked (load32 m) (free_root st) (spaces H) = linked c' (free_root st) (spaces H)"
    by (rule linked_cong; use tracks_load [OF T] in \<open>auto simp: alloc_root_def free_root_def\<close>)+
  ultimately show "heap_ok (st0\<lparr>h_mem := m\<rparr>) s n H" "only_cells st (st0\<lparr>h_mem := m\<rparr>) (kept (heapc st) s n H)"
    using T L by (auto simp: st0_def heap_ok_def tracks_def only_cells_def realloc_start_def alloc_root_def free_root_def)
qed

lemma shrink_run:
  assumes ok: "heap_ok st s n (pre @ (a, True) # post)" and f: "spaces post = f # fs"
    and sz: "sz < space_size s n a post" "4 < unat sz" and room: "right_free post \<or> sz + 4 < space_size s n a post"
  defines "H \<equiv> pre @ (a, True) # resized s n sz a post"
  shows "\<exists>st'. shrink a sz (realloc_start st s n pre a post f) = Some st' \<and> heap_ok st' s n H \<and>
    only_cells st st' (kept (heapc st) s n H)"
proof -
  note D = heap_okD [OF ok]
  let ?w = "space_size s n a post" and ?c = "load32 (h_mem st)" and ?st = "realloc_start st s n pre a post f"
  let ?T = "tracks (heapc st) (heap_blocks st) (heap_blocks_size st) s n H (h_mem st)" and ?K = "heap_cells (heapc st) H"
  define P where "P = last (free_root st # spaces pre)"
  define far where "far = (\<not> right_free post)"
  have g: "geometry (heapc st) (heap_blocks st) (heap_blocks_size st) s n" using D(1) by simp
  have t: "tiles s n H" unfolding H_def by (rule resized_tiles(1) [OF g D(2) sz])
  have T0: "?T (h_mem st) ?c" using tracks_start [OF g t] D(1) by blast
  have K: "P \<in> ?K" unfolding P_def
    by (rule last_cell) (auto simp: subset_iff free_root_def H_def)
  have P: "P \<in> insert (free_root st) (set (spaces pre))" using last_in_set [of "free_root st # spaces pre"] by (simp add: P_def del: last.simps)
  have dH: "distinct (alloc_root st # free_root st # objects (pre @ (a, True) # post) @ spaces (pre @ (a, True) # post))"
    using distinct_lists [OF g D(2)] by (simp add: alloc_root_def free_root_def)
  have dH': "distinct (alloc_root st # free_root st # objects H @ spaces H)"
    using distinct_lists [OF g t] by (simp add: alloc_root_def free_root_def)
  have objs: "objects H = objects pre @ a # objects post" unfolding H_def by (rule resized_lists(1))
  have spcs: "spaces H = spaces pre @ (if sz + 4 < ?w then [a + sz] else []) @ (if far then f # fs else fs)"
    unfolding H_def resized_lists(2) using f by (simp add: far_def)
  have fl: "linked ?c (free_root st) (spaces pre @ f # fs)" using D(6) f by simp
  have f0: "f \<noteq> 0" "deref ?st f = Some (?c f)" using linked_nonzero [OF fl, of f] by (simp_all add: deref_def realloc_start_def)
  note fin = resized_finish [where s = s and n = n and a = a and sz = sz and pre = pre and post = post and f = f and st = st, folded H_def]
  have W: "\<exists>m'. assign t p v = Some (t\<lparr>h_mem := m'\<rparr>) \<and> ?T m' (c(p := v))" if "?T (h_mem t) c" "p \<in> ?K" for t p v c
    by (rule assign_cell [OF that])
  have pr: "prev_free_ptr ?st = P" "free_ptr ?st = f" "alloc_ptr ?st = a" "avail_size ?st = ?w" "h_mem ?st = h_mem st"
    by (simp_all add: realloc_start_def P_def)
  have ol: "linked ?c (alloc_root st) (objects H)" using D(5) objs by simp
  have Pn: "P \<notin> insert (alloc_root st) (set (objects H))" using P dH unfolding objs by auto
  show ?thesis
  proof (cases "sz + 4 < ?w")
    case False
    obtain m where m: "assign ?st P (?c f) = Some (?st\<lparr>h_mem := m\<rparr>)" "?T m (?c(P := ?c f))"
      using W [of ?st ?c P "?c f"] T0 K pr(5) by auto
    have "linked (?c(P := ?c f)) (free_root st) (spaces H)"
      using linked_remove [OF fl _ P_def] dH f spcs False room by (simp add: far_def)
    moreover have "linked (?c(P := ?c f)) (alloc_root st) (objects H)" using ol Pn by simp
    ultimately show ?thesis using fin [OF m(2)] m(1) f0 pr False by (intro exI [of _ "?st\<lparr>h_mem := m\<rparr>"]) (auto simp: shrink_def heap_header_size_def not_less)
  next
    case True
    let ?g = "a + sz" and ?v = "if far then f else ?c f"
    have gK: "?g \<in> ?K" using spcs True by (intro heap_cells_in(4)) simp
    have gn: "?g \<noteq> 0" "?g \<notin> insert (alloc_root st) (set (objects H))" using gK cells_heap [OF g t] dH' spcs True by (auto simp: cells_def)
    obtain m1 where m1: "assign ?st ?g ?v = Some (?st\<lparr>h_mem := m1\<rparr>)" "?T m1 (?c(?g := ?v))"
      using W [of ?st ?c ?g ?v] T0 gK pr(5) by auto
    obtain m2 where m2: "assign (?st\<lparr>h_mem := m1\<rparr>) P ?g = Some (?st\<lparr>h_mem := m2\<rparr>)" "?T m2 (?c(?g := ?v, P := ?g))"
      using W [of "?st\<lparr>h_mem := m1\<rparr>" "?c(?g := ?v)" P ?g] m1(2) K by auto
    have "linked (?c(?g := ?v, P := ?g)) (free_root st) (spaces H)"
      unfolding spcs using resized_links [OF fl _ _ P_def gn(1), of far] dH dH' f spcs True by simp
    moreover have "linked (?c(?g := ?v, P := ?g)) (alloc_root st) (objects H)" using ol Pn gn(2) by simp
    ultimately have ok': "heap_ok (?st\<lparr>h_mem := m2\<rparr>) s n H" "only_cells st (?st\<lparr>h_mem := m2\<rparr>) (kept (heapc st) s n H)"
      using fin [OF m2(2)] by auto
    have an: "a \<noteq> 0" using header_cell(1) [OF g D(2), of a True] by simp
    have in_block: "heap_in_mem_block ?st p = Some (within s n p)" for p
      using heap_not_in_one(3) [of ?st s n] D(1) by (simp add: realloc_start_def)
    have "within s n (?c a) \<and> ?c a < f \<longleftrightarrow> far" unfolding far_def by (rule next_object_before [OF ok f])
    then have "shrink a sz ?st = Some (?st\<lparr>h_mem := m2\<rparr>)"
      using f0 pr True an in_block m1(1) m2(1)
      by (auto simp: shrink_def heap_header_size_def deref_def not_less realloc_start_def)
    then show ?thesis using ok' by blast
  qed
qed


text \<open>
  When the rest of the space does not hold a header, \<open>shrink\<close> takes the next free space of the
  list out, wherever it lies.
\<close>

lemma shrink_unlinks:
  assumes ok: "heap_ok st s n (pre @ (a, True) # post)" and f: "spaces post = f # fs"
    and sz: "\<not> sz + 4 < space_size s n a post"
  defines "hs \<equiv> pre @ (a, True) # post"
  shows "\<exists>st'. shrink a sz (realloc_start st s n pre a post f) = Some st' \<and>
    linked (load32 (h_mem st')) (free_root st) (spaces pre @ fs) \<and>
    linked (load32 (h_mem st')) (alloc_root st) (objects hs) \<and> only_cells st st' (kept (heapc st) s n hs)"
proof -
  note D = heap_okD [OF ok]
  let ?c = "load32 (h_mem st)" and ?st = "realloc_start st s n pre a post f"
  let ?T = "tracks (heapc st) (heap_blocks st) (heap_blocks_size st) s n hs (h_mem st)" and ?K = "heap_cells (heapc st) hs"
  define P where "P = last (free_root st # spaces pre)"
  have g: "geometry (heapc st) (heap_blocks st) (heap_blocks_size st) s n" using D(1) by simp
  have T0: "?T (h_mem st) ?c" using tracks_start [OF g] D(1,2) unfolding hs_def by blast
  have K: "P \<in> ?K" unfolding P_def by (rule last_cell) (auto simp: subset_iff free_root_def hs_def)
  have P: "P \<in> insert (free_root st) (set (spaces pre))" using last_in_set [of "free_root st # spaces pre"] by (simp add: P_def del: last.simps)
  have d: "distinct (alloc_root st # free_root st # objects hs @ spaces hs)"
    using distinct_lists [OF g D(2)] by (simp add: alloc_root_def free_root_def hs_def)
  have fl: "linked ?c (free_root st) (spaces pre @ f # fs)" using D(6) f by simp
  have f0: "deref ?st f = Some (?c f)" "f \<noteq> 0" using linked_nonzero [OF fl, of f] by (simp_all add: deref_def realloc_start_def)
  obtain m where m: "assign ?st P (?c f) = Some (?st\<lparr>h_mem := m\<rparr>)" "?T m (?c(P := ?c f))"
    using assign_cell [of "heapc st" "heap_blocks st" "heap_blocks_size st" s n hs "h_mem st" ?st ?c P "?c f"] T0 K
    by (auto simp: realloc_start_def)
  have run: "shrink a sz ?st = Some (?st\<lparr>h_mem := m\<rparr>)"
    using m(1) f0 sz by (auto simp: shrink_def heap_header_size_def not_less realloc_start_def P_def)
  have "linked (load32 m) (free_root st) (spaces pre @ fs) = linked (?c(P := ?c f)) (free_root st) (spaces pre @ fs)"
    "linked (load32 m) (alloc_root st) (objects hs) = linked (?c(P := ?c f)) (alloc_root st) (objects hs)"
    by (rule linked_cong; use tracks_load [OF m(2)] f in \<open>auto simp: alloc_root_def free_root_def hs_def\<close>)+
  moreover have "linked (?c(P := ?c f)) (free_root st) (spaces pre @ fs)"
    by (rule linked_remove [OF fl _ P_def]) (use d f in \<open>auto simp: hs_def\<close>)
  moreover have "linked (?c(P := ?c f)) (alloc_root st) (objects hs)"
    using D(5) d P by (subst linked_upd) (auto simp: hs_def)
  moreover have "only_cells st (?st\<lparr>h_mem := m\<rparr>) (kept (heapc st) s n hs)"
    using m(2) by (auto simp: only_cells_def tracks_def realloc_start_def)
  ultimately show ?thesis using run by auto
qed

text \<open>C25: Resizing an object to less than the space up to the next object, in each of the three
  cases. When no free space follows in its block, \<open>realloc\<close> reads through the null pointer.
  When the next free space lies directly behind the object, or the rest is larger than a header,
  the same pointer is returned: the object keeps its place and its bytes, what is left of the
  space is one free space behind it, the lists, the tiling and all other objects stay intact,
  and outside the block only the heads of the lists change. Otherwise the same pointer is
  returned and the objects stay intact, but the next free space, which is not a neighbour, is
  lost: it is taken out of the list of free spaces.\<close>

theorem realloc_in_place:
  assumes ok: "heap_ok st s n (pre @ (a, True) # post)"
    and sz: "0 < unat size0" "unat size0 + 4 < 2 ^ 32" "size0 + 4 < space_size s n a post"
  shows "case spaces post of
      [] \<Rightarrow> realloc st (a + 4) size0 = None
    | f # fs \<Rightarrow> \<exists>st'. realloc st (a + 4) size0 = Some (st', a + 4) \<and> h_buddy st' = h_buddy st \<and>
        (if right_free post \<or> size0 + 4 + 4 < space_size s n a post
         then heap_ok st' s n (pre @ (a, True) # resized s n (size0 + 4) a post) \<and>
           same_on (h_mem st) (h_mem st') (kept (heapc st) s n (pre @ (a, True) # resized s n (size0 + 4) a post))
         else linked (load32 (h_mem st')) (alloc_root st') (objects (pre @ (a, True) # post)) \<and>
           linked (load32 (h_mem st')) (free_root st') (spaces pre @ fs) \<and>
           same_on (h_mem st) (h_mem st') (kept (heapc st) s n (pre @ (a, True) # post)))"
proof (cases "spaces post")
  case Nil
  then show ?thesis using realloc_reaches(1) [OF ok] by simp
next
  case (Cons f fs)
  have "unat (size0 + 4) = unat size0 + 4" using unat_add_nat [of size0 4] sz(2) by simp
  then have u: "4 < unat (size0 + 4)" using sz(1) by simp
  note reach = realloc_reaches(2) [OF ok Cons sz(3)]
  show ?thesis
  proof (cases "right_free post \<or> size0 + 4 + 4 < space_size s n a post")
    case True
    then show ?thesis using reach shrink_run [OF ok Cons sz(3) u True] Cons by (auto simp: only_cells_def)
  next
    case False
    then obtain st' where "shrink a (size0 + 4) (realloc_start st s n pre a post f) = Some st'"
      "linked (load32 (h_mem st')) (free_root st) (spaces pre @ fs)"
      "linked (load32 (h_mem st')) (alloc_root st) (objects (pre @ (a, True) # post))"
      "only_cells st st' (kept (heapc st) s n (pre @ (a, True) # post))"
      using shrink_unlinks [OF ok Cons, of "size0 + 4"] by blast
    then show ?thesis using reach False Cons by (auto simp: only_cells_def alloc_root_def free_root_def)
  qed
qed

lemma realloc_in_place_witness:
  "\<exists>st'. realloc (example_heap (small_heap 0)) 0x80000004 1000 = Some (st', 0x80000004) \<and>
     heap_ok st' 0x80000000 4096 [(0x80000000, True), (0x800003EC, False)]"
proof -
  have "heap_ok (example_heap (small_heap 0)) 0x80000000 4096 ([] @ (0x80000000, True) # [(0x80000064, False)])"
    using example_heap_ok by simp
  from realloc_in_place [OF this, of 1000] show ?thesis
    by (auto simp: space_size_def right_free_def resized_def)
qed

text \<open>When no free space follows the object in its block, \<open>realloc\<close> walks past the end of the
  list of free spaces and reads through the null pointer, whatever the new size.\<close>

theorem realloc_without_space_behind:
  assumes "heap_ok st s n (pre @ (a, True) # post)" "spaces post = []"
  shows "realloc st (a + 4) size0 = None"
  by (rule realloc_reaches(1) [OF assms])

lemma example_heap_full:
  "\<exists>st'. malloc (example_heap b) 3992 = Some (st', 0x80000068) \<and> heap_ok st' 0x80000000 4096 [(0x80000000, True), (0x80000064, True)]"
proof -
  have fit: "fitting 0x80000000 4096 (3992 + 4) [(0x80000000, True), (0x80000064, False)] [(0x80000000, True)] 0x80000064 []"
    by (simp add: fitting_def space_size_def)
  obtain pre f post st' where r: "[(0x80000000, True), (0x80000064, False)] = pre @ (f, False) # post"
    "malloc (example_heap b) 3992 = Some (st', f + 4)" "heap_ok st' 0x80000000 4096 (place 0x80000000 4096 (3992 + 4) pre f post)"
    using malloc_fits [OF example_heap_ok _ _ fit, of b] by (auto simp: picked_def fitting_def)
  then have "pre = [(0x80000000, True)]" "f = 0x80000064" "post = []" by (auto simp: Cons_eq_append_conv)
  then show ?thesis using r(2,3) by (auto simp: place_def space_size_def heap_header_size_def)
qed

lemma realloc_without_space_behind_witness:
  "\<exists>st. malloc (example_heap (small_heap 0)) 3992 = Some (st, 0x80000068) \<and> realloc st 0x80000068 100 = None"
proof -
  obtain st where st: "malloc (example_heap (small_heap 0)) 3992 = Some (st, 0x80000068)"
    "heap_ok st 0x80000000 4096 ([(0x80000000, True)] @ (0x80000064, True) # [])"
    using example_heap_full by auto
  show ?thesis using realloc_without_space_behind [OF st(2), of 100] st(1) by auto
qed

section \<open>Moving an object\<close>

text \<open>
  The words of a block with objects of 96 bytes at 0, 300 and 400, and free spaces of 200 bytes at
  100 and at 500 up to the end, as after requests of 96, 196, 96 and 96 bytes and the release of
  the second one. The heap's structures lie at addresses fixed for the evaluation.
\<close>

abbreviation move_words :: "(u32 \<times> u32) list" where
  "move_words \<equiv> [(0x9000, 0x80000000), (0x9004, 0x80000064), (0x9030, 0x80000000), (0x9034, 4096), (0x9038, 0),
     (0x9040, 0), (0x9048, 0), (0x80000000, 0x8000012C), (0x80000064, 0x800001F4), (0x8000012C, 0x80000190),
     (0x80000190, 0), (0x800001F4, 0)]"

lemma move_run:
  assumes "heap_words st b move_words"
  shows "\<exists>st' m. realloc st 0x80000130 210 = Some (st', 0x80000068) \<and>
    h_mem st' = fst (memcpy m 0x80000068 0x80000130 96) \<and> load32 m 0x8000013A = 0x800001F4"
  using assms
  by (simp add: realloc_def find_alloc.simps find_space.simps heap_eval cong: weak_congs)
    (rule exI, rule conjI, rule refl, simp add: load32_store32_eval)

lemma memcpy_word:
  assumes "fits_memory d (unat n)" "fits_memory p (unat n)" "range_of d (unat n) \<inter> range_of p (unat n) = {}" "i + 4 \<le> unat n"
  shows "load32 (fst (memcpy m d p n)) (d + word_of_nat i) = load32 m (p + word_of_nat i)"
proof -
  have "fst (memcpy m d p n) (d + word_of_nat j) = m (p + word_of_nat j)" if "j < unat n" for j
    using memcpy_ranges(1) [OF assms(1-3), of m] that bytes_at_nth by metis
  from this [of i] this [of "i + 1"] this [of "i + 2"] this [of "i + 3"] show ?thesis
    using assms(4) by (simp add: load32_def add.assoc add.commute add.left_commute)
qed

text \<open>C26: An object that has to move can lose contents: \<open>realloc\<close> frees it first, and
  \<open>malloc\<close> writes the header of the rest of the joined space into its bytes before they are copied. Here
  bytes 10 to 13 of the new object are the link to the next free space, whatever was there.\<close>

theorem realloc_move_loses_data:
  assumes "heap_words st b move_words"
  shows "\<exists>st'. realloc st 0x80000130 210 = Some (st', 0x80000068) \<and> load32 (h_mem st') (0x80000068 + 10) = 0x800001F4"
proof -
  obtain st' m where r: "realloc st 0x80000130 210 = Some (st', 0x80000068)"
    "h_mem st' = fst (memcpy m 0x80000068 0x80000130 96)" "load32 m 0x8000013A = 0x800001F4"
    using move_run [OF assms] by blast
  have "load32 (h_mem st') (0x80000068 + word_of_nat 10) = load32 m (0x80000130 + word_of_nat 10)"
    unfolding r(2) by (rule memcpy_word) (auto simp: fits_memory_def range_of_def)
  then show ?thesis using r(1,3) by simp
qed

definition example_move :: "u32 \<Rightarrow> heap" where
  "example_move w = (example_heap (small_heap 0))\<lparr>h_mem := fold (\<lambda>(a, w) m. store32 m a w) (move_words @ [(0x8000013A, w)]) (\<lambda>_. 0)\<rparr>"

lemma realloc_move_loses_data_witness:
  "load32 (h_mem (example_move 0x12345678)) (0x80000130 + 10) = 0x12345678 \<and>
   (\<exists>st'. realloc (example_move 0x12345678) 0x80000130 210 = Some (st', 0x80000068) \<and> load32 (h_mem st') (0x80000068 + 10) = 0x800001F4)"
proof -
  have "heap_words (example_move 0x12345678) (small_heap 0) move_words"
    by (simp add: heap_words_def example_move_def example_heap_def load32_store32_eval)
  moreover have "load32 (h_mem (example_move 0x12345678)) 0x8000013A = 0x12345678"
    by (simp add: example_move_def load32_store32_eval)
  ultimately show ?thesis using realloc_move_loses_data by simp
qed

end
