(* ===== verification/Process.thy ===== *)
theory Process
  imports BuddyTheorems InterruptsCorrect
begin

text \<open>
  The creation of a user process, \<open>hal_create_user_process\<close> of \<open>kernel/hal/scheduler.c\<close>: it
  works on the scheduler, the heap, the page tables and the descriptor tables. A page table is
  the list of its 1024 entries, found by the address the code uses for it; physical memory,
  which address translation reads, is a function of the state of the heap.
\<close>

record system =
  mach :: machine
  segs :: segments
  heap :: buddy
  page_dir :: "u32 list"
  page_tables :: "u32 \<Rightarrow> u32 list"
  interrupts_on :: bool

text \<open>What assembly and linker give: addresses, the kernel's stack, the flags register.\<close>

record layout =
  user_entry :: u32
  tss_addr :: u32
  kernel_ss :: u32
  kernel_esp :: u32
  getflags :: u32
  phys_mem :: "buddy \<Rightarrow> u32 \<Rightarrow> u32"

definition virt_to_phys :: "layout \<Rightarrow> system \<Rightarrow> u32 \<Rightarrow> u32 option" where
  "virt_to_phys ly s a = hal_physical_addr (page_dir s) (phys_mem ly (heap s)) a"

text \<open>Writing an entry of the page table at an address; a null pointer is not a table.\<close>

definition set_table_entry :: "u32 \<Rightarrow> int \<Rightarrow> u32 \<Rightarrow> bool \<Rightarrow> bool \<Rightarrow> system \<Rightarrow> system option" where
  "set_table_entry tab i addr usermode readonly s =
     (if tab = 0 then None
      else do {
        t \<leftarrow> hal_set_page_table_entry (page_tables s tab) 0 i addr usermode readonly;
        Some (s\<lparr>page_tables := (page_tables s)(tab := t)\<rparr>)
      })"

definition set_sched :: "scheduler \<Rightarrow> system \<Rightarrow> system" where
  "set_sched sc s = s\<lparr>mach := (mach s)\<lparr>sched := sc\<rparr>\<rparr>"

text \<open>The first process sets up the task state segment, the timer and the page of the user entry.\<close>

definition setup_userspace :: "layout \<Rightarrow> u32 \<Rightarrow> system \<Rightarrow> system option" where
  "setup_userspace ly user_entry_phys s =
     (if is_ring3_tss_gdt_init (segs s) then Some s
      else do {
        let m1 = log_msg ''[LOG]Initialising TSS.'' []
          (log_msg ''[LOG]Setting up userspace for the first time.'' [] (mach s));
        sg \<leftarrow> i686_ring3_tss_gdt_init (tss_addr ly) (segs s) (kernel_ss ly) (kernel_esp ly);
        let s1 = s\<lparr>mach := i686_preempt_handler m1, segs := sg\<rparr>;
        for_loop (\<lambda>i st. do {
            tab \<leftarrow> hal_get_page_table (page_dir st) 0;
            set_table_entry tab i (user_entry_phys + word_of_int ((i - 256) * 0x1000)) True True st
          }) [256..256] s1
      })"

text \<open>The registers a new process starts with.\<close>

definition user_registers :: "layout \<Rightarrow> u32 \<Rightarrow> u32 \<Rightarrow> u32 \<Rightarrow> REGISTERS \<Rightarrow> REGISTERS" where
  "user_registers ly table_idx phys user_entry_phys r =
     r\<lparr>ds := (4 * 8) OR 3, es := (4 * 8) OR 3, fs := (4 * 8) OR 3, gs := (4 * 8) OR 3,
       ss := (4 * 8) OR 3, esp := push_bit 22 (table_idx + 1) - 1,
       eflags := getflags ly OR 0x200, cs := (3 * 8) OR 3,
       eip := 0x100000 OR (user_entry_phys AND 0xFFF),
       eax := push_bit 22 table_idx OR (phys AND 0xFFF)\<rparr>"

text \<open>The result is 1 or 0.\<close>

definition hal_create_user_process :: "layout \<Rightarrow> system \<Rightarrow> u32 \<Rightarrow> bool \<Rightarrow> (system \<times> int) option" where
  "hal_create_user_process ly s0 user_func prio = do {
     let s = s0\<lparr>interrupts_on := False\<rparr>;
     process_idx \<leftarrow> find_process (processes (sched (mach s))) 0 False;
     if process_idx = -1 then Some (s, 0)
     else do {
       a \<leftarrow> aread_int (processes (sched (mach s))) process_idx;
       ps \<leftarrow> awrite_int (processes (sched (mach s))) process_idx
         (a OR (PROCESS_PRESENT OR (if prio then PROCESS_PRIO else 0)));
       let s1 = set_sched ((sched (mach s))\<lparr>processes := ps\<rparr>) s;
       phys \<leftarrow> virt_to_phys ly s1 user_func;
       user_entry_phys \<leftarrow> virt_to_phys ly s1 (user_entry ly);
       (heap', block_size, tab) \<leftarrow> buddy_alloc (heap s1) 4096;
       let s2 = s1\<lparr>heap := heap'\<rparr>;
       let table_idx = 1 + USER_SPACE_4MBs * word_of_int process_idx;
       table_phys \<leftarrow> virt_to_phys ly s2 tab;
       dir \<leftarrow> hal_set_page_table (page_dir s2) table_phys (sint table_idx) True;
       s3 \<leftarrow> for_loop (\<lambda>i. set_table_entry tab i (phys + word_of_int (i * 0x1000)) True False)
         [0..1023] (s2\<lparr>page_dir := dir\<rparr>);
       s4 \<leftarrow> setup_userspace ly user_entry_phys s3;
       let s5 = s4\<lparr>mach := log_msg ''[LOG]Running Process %i.'' [word_of_int process_idx] (mach s4)\<rparr>;
       pcb \<leftarrow> aread_int (pcbs (sched (mach s5))) process_idx;
       pcbs' \<leftarrow> awrite_int (pcbs (sched (mach s5))) process_idx
         \<lparr>regs = user_registers ly table_idx phys user_entry_phys (regs pcb), valid = False\<rparr>;
       Some ((set_sched ((sched (mach s5))\<lparr>pcbs := pcbs'\<rparr>) s5)\<lparr>interrupts_on := True\<rparr>, 1)
     }
   }"

section \<open>The slot\<close>

lemma find_absent:
  assumes "length ps = MAX_THREADS" "i \<le> MAX_THREADS"
  shows "find_process ps i False = Some (if \<exists>j. i \<le> j \<and> j < MAX_THREADS \<and> ps ! j AND PROCESS_PRESENT = 0
     then int (LEAST j. i \<le> j \<and> j < MAX_THREADS \<and> ps ! j AND PROCESS_PRESENT = 0) else -1)"
  using assms(2)
proof (induction "MAX_THREADS - i" arbitrary: i)
  case 0
  then show ?case by (subst find_process.simps) auto
next
  case (Suc k)
  then have i: "i < MAX_THREADS" by simp
  show ?case
  proof (cases "ps ! i AND PROCESS_PRESENT = 0")
    case True
    then have "(LEAST j. i \<le> j \<and> j < MAX_THREADS \<and> ps ! j AND PROCESS_PRESENT = 0) = i"
      using i by (intro Least_equality) auto
    then show ?thesis using i True assms(1) by (subst find_process.simps) auto
  next
    case False
    have "(\<lambda>j. i \<le> j \<and> j < MAX_THREADS \<and> ps ! j AND PROCESS_PRESENT = 0) =
        (\<lambda>j. Suc i \<le> j \<and> j < MAX_THREADS \<and> ps ! j AND PROCESS_PRESENT = 0)"
      using False by (auto simp: fun_eq_iff) (metis Suc_leI le_neq_implies_less)
    moreover have "find_process ps i False = find_process ps (Suc i) False"
      using i False assms(1) by (subst find_process.simps) simp
    ultimately show ?thesis using Suc.hyps(1) [of "Suc i"] Suc.hyps(2) i by (simp only:)
  qed
qed

section \<open>The page tables\<close>

definition user_entry_word :: "u32 \<Rightarrow> nat \<Rightarrow> u32" where
  "user_entry_word phys i = ((phys + word_of_int (int i * 0x1000)) AND NOT 0xFFF) OR
     (PAGE_ALL_ACCESS OR PAGE_READ_WRITE OR PAGE_PRESENT)"

lemma set_table_entry_ok:
  assumes "tab \<noteq> 0" "length (page_tables s tab) = 1024" "i < 1024"
  shows "\<exists>w. set_table_entry tab (int i) a u ro s = Some (s\<lparr>page_tables := (page_tables s)(tab := (page_tables s tab)[i := w])\<rparr>) \<and>
    w = (a AND NOT 0xFFF) OR ((if u then PAGE_ALL_ACCESS else 0) OR (if ro then 0 else PAGE_READ_WRITE) OR PAGE_PRESENT)"
  using assms by (auto simp: set_table_entry_def hal_set_page_table_entry_def i686_page_table_entry_def)

lemma fill_table:
  assumes "tab \<noteq> 0" "length (page_tables s tab) = 1024"
  shows "for_loop (\<lambda>i. set_table_entry tab i (phys + word_of_int (i * 0x1000)) True False) [0..1023] s =
    Some (s\<lparr>page_tables := (page_tables s)(tab := map (user_entry_word phys) [0..<1024])\<rparr>)"
proof -
  let ?P = "\<lambda>don t. \<exists>tl. t = s\<lparr>page_tables := (page_tables s)(tab := tl)\<rparr> \<and> length tl = 1024 \<and>
    (\<forall>k < 1024. int k \<in> set don \<longrightarrow> tl ! k = user_entry_word phys k)"
  have "\<exists>s'. for_loop (\<lambda>i. set_table_entry tab i (phys + word_of_int (i * 0x1000)) True False) [0..1023] s = Some s' \<and> ?P [0..1023] s'"
  proof (rule for_loop_inv [of ?P])
    show "?P [] s" using assms by (intro exI [of _ "page_tables s tab"]) simp
    fix don i rest and t :: system
    assume sp: "[0..1023] = don @ i # rest" and P: "?P don t"
    then obtain tl where tl: "t = s\<lparr>page_tables := (page_tables s)(tab := tl)\<rparr>" "length tl = 1024"
      "\<forall>k < 1024. int k \<in> set don \<longrightarrow> tl ! k = user_entry_word phys k" by blast
    have "i \<in> set [0..1023]" unfolding sp by simp
    then have "0 \<le> i" "i < 1024" unfolding set_upto by auto
    then obtain n where n: "i = int n" "n < 1024" by (metis nonneg_int_cases of_nat_less_numeral_iff)
    let ?w = "user_entry_word phys n"
    have len: "length (page_tables t tab) = 1024" using tl(1,2) by simp
    have "set_table_entry tab i (phys + word_of_int (i * 0x1000)) True False t =
        Some (s\<lparr>page_tables := (page_tables s)(tab := tl[n := ?w])\<rparr>)"
      using set_table_entry_ok [OF assms(1) len n(2), of "phys + word_of_int (i * 0x1000)" True False] tl(1) n(1)
      by (simp add: user_entry_word_def)
    moreover have "\<forall>k < 1024. int k \<in> set (don @ [i]) \<longrightarrow> tl[n := ?w] ! k = user_entry_word phys k"
      using tl(2,3) n by (auto simp: nth_list_update)
    ultimately show "\<exists>t'. set_table_entry tab i (phys + word_of_int (i * 0x1000)) True False t = Some t' \<and> ?P (don @ [i]) t'"
      using tl(2) by auto
  qed
  then obtain tl where tl: "for_loop (\<lambda>i. set_table_entry tab i (phys + word_of_int (i * 0x1000)) True False) [0..1023] s =
      Some (s\<lparr>page_tables := (page_tables s)(tab := tl)\<rparr>)" "length tl = 1024"
    "\<forall>k < 1024. int k \<in> set [0..1023] \<longrightarrow> tl ! k = user_entry_word phys k" by blast
  have "tl = map (user_entry_word phys) [0..<1024]"
    using tl(2,3) unfolding set_upto by (intro nth_equalityI) auto
  then show ?thesis using tl(1) by simp
qed

text \<open>What the first process finds: the kernel's first page table, and the table of segments.\<close>

definition userspace_ready :: "system \<Rightarrow> u32 \<Rightarrow> bool" where
  "userspace_ready s tab \<longleftrightarrow> is_ring3_tss_gdt_init (segs s) \<or>
     (let t0 = page_dir s ! 0 AND NOT 0xFFF in t0 \<noteq> 0 \<and> t0 \<noteq> tab \<and> length (page_tables s t0) = 1024 \<and> length (gdt (segs s)) = 6)"

lemma setup_userspace_ok:
  assumes "userspace_ready s tab" "length (page_dir s) = 1024"
  shows "\<exists>s'. setup_userspace ly ue s = Some s' \<and> sched (mach s') = sched (mach s) \<and> page_dir s' = page_dir s \<and> heap s' = heap s \<and>
    page_tables s' tab = page_tables s tab \<and> take 5 (gdt (segs s')) = take 5 (gdt (segs s)) \<and> is_ring3_tss_gdt_init (segs s') \<and>
    (\<not> is_ring3_tss_gdt_init (segs s) \<longrightarrow> preempt_handler (mach s') \<and>
      page_tables s' (page_dir s ! 0 AND NOT 0xFFF) ! 256 = (ue AND NOT 0xFFF) OR (PAGE_ALL_ACCESS OR PAGE_PRESENT))"
proof (cases "is_ring3_tss_gdt_init (segs s)")
  case True
  then show ?thesis by (simp add: setup_userspace_def)
next
  case False
  let ?t0 = "page_dir s ! 0 AND NOT 0xFFF"
  have r: "?t0 \<noteq> 0" "?t0 \<noteq> tab" "length (page_tables s ?t0) = 1024" "length (gdt (segs s)) = 6"
    using False assms(1) by (auto simp: userspace_ready_def Let_def)
  obtain sg where sg: "i686_ring3_tss_gdt_init (tss_addr ly) (segs s) (kernel_ss ly) (kernel_esp ly) = Some sg"
    "is_ring3_tss_gdt_init sg" "take 5 (gdt sg) = take 5 (gdt (segs s))"
    using r(4) by (simp add: i686_ring3_tss_gdt_init_def Let_def)
  let ?m1 = "log_msg ''[LOG]Initialising TSS.'' [] (log_msg ''[LOG]Setting up userspace for the first time.'' [] (mach s))"
  let ?s1 = "s\<lparr>mach := i686_preempt_handler ?m1, segs := sg\<rparr>"
  have dir: "hal_get_page_table (page_dir s) 0 = Some ?t0"
    using assms(2) by (simp add: hal_get_page_table_def i686_get_page_table_def aread_int_def)
  have len: "length (page_tables ?s1 ?t0) = 1024" using r(3) by simp
  obtain w where w: "set_table_entry ?t0 (int 256) ue True True ?s1 =
      Some (?s1\<lparr>page_tables := (page_tables ?s1)(?t0 := (page_tables ?s1 ?t0)[256 := w])\<rparr>)"
    "w = (ue AND NOT 0xFFF) OR (PAGE_ALL_ACCESS OR PAGE_PRESENT)"
    using set_table_entry_ok [OF r(1) len, of 256 ue True True] by auto
  have run: "setup_userspace ly ue s = Some (?s1\<lparr>page_tables := (page_tables ?s1)(?t0 := (page_tables ?s1 ?t0)[256 := w])\<rparr>)"
    using False sg(1) dir w(1) by (simp add: setup_userspace_def Let_def)
  show ?thesis unfolding run using sg(2,3) r w(2) by (simp add: i686_preempt_handler_def)
qed

section \<open>The new process\<close>

text \<open>The segment descriptor a selector names.\<close>

definition selected :: "GDT_ENTRY list \<Rightarrow> u32 \<Rightarrow> GDT_ENTRY" where
  "selected g sel = g ! (unat sel div 8)"

lemma gdt_user_segments:
  "desc_usable (gdt_entry ! 3) \<and> desc_code (gdt_entry ! 3) \<and> desc_dpl (gdt_entry ! 3) = 3 \<and>
   desc_usable (gdt_entry ! 4) \<and> \<not> desc_code (gdt_entry ! 4) \<and> desc_dpl (gdt_entry ! 4) = 3"
  by (simp add: gdt_entry_def ring_code_def ring_data_def mk_gdt_entry_def gdt_flag_defs desc_usable_def desc_code_def
      desc_dpl_def bit_numeral_word_iff)

text \<open>The address range of the page table with an index.\<close>

lemma region_of_entry:
  assumes "t < 1024"
  shows "drop_bit 22 (push_bit 22 (word_of_nat t) OR (x AND 0xFFF)) = (word_of_nat t :: u32)"
proof (rule bit_word_eqI)
  fix n assume n: "n < LENGTH(32)"
  have t: "unat (word_of_nat t :: u32) < 2 ^ 10" using assms by (simp add: unat_of_nat take_bit_eq_mod)
  show "bit (drop_bit 22 (push_bit 22 (word_of_nat t) OR (x AND 0xFFF))) n = bit (word_of_nat t :: u32) n"
    using n bit_above_limit [OF t, of n]
    by (cases "n < 10") (auto simp: bit_drop_bit_eq bit_or_iff bit_push_bit_iff bit_and_iff bit_mask_FFF)
qed

lemma region_of_stack:
  assumes "t < 1023"
  shows "drop_bit 22 (push_bit 22 (word_of_nat t + 1) - 1) = (word_of_nat t :: u32)"
proof -
  have "unat (push_bit 22 (word_of_nat t + 1) - 1 :: u32) = 4194304 * t + 4194303"
  proof -
    have "push_bit 22 (word_of_nat t + 1) - 1 = (word_of_nat (4194304 * t + 4194303) :: u32)"
      by (simp add: push_bit_eq_mult algebra_simps)
    then show ?thesis using assms by (simp add: unat_of_nat take_bit_eq_mod del: of_nat_add of_nat_mult)
  qed
  then have "unat (drop_bit 22 (push_bit 22 (word_of_nat t + 1) - 1 :: u32)) = t"
    unfolding unat_drop_bit by simp
  then show ?thesis by (metis of_nat_unat ucast_id)
qed

lemma set_present: "(a OR (PROCESS_PRESENT OR x)) AND PROCESS_PRESENT = PROCESS_PRESENT"
  by (rule bit_word_eqI) (auto simp: bit_or_iff bit_and_iff)

text \<open>The registers of a new process, read through the segments they select.\<close>

definition user_mode_start :: "GDT_ENTRY list \<Rightarrow> nat \<Rightarrow> u32 \<Rightarrow> REGISTERS \<Rightarrow> bool" where
  "user_mode_start g p ue r \<longleftrightarrow>
     (let c = selected g (cs r); d = selected g (ss r) in
      eip r = 0x100000 OR (ue AND 0xFFF) \<and> bit (eflags r) 9 \<and>
      desc_usable c \<and> desc_code c \<and> desc_dpl c = 3 \<and> desc_usable d \<and> \<not> desc_code d \<and> desc_dpl d = 3 \<and>
      ds r = ss r \<and> es r = ss r \<and> fs r = ss r \<and> gs r = ss r \<and>
      drop_bit 22 (esp r) = word_of_nat (1 + 3 * p) \<and> drop_bit 22 (eax r) = word_of_nat (1 + 3 * p))"

lemma user_registers_start:
  assumes "p < MAX_THREADS" "take 5 g = take 5 gdt_entry"
  shows "user_mode_start g p ue (user_registers ly (word_of_nat (1 + 3 * p)) phys ue r)"
proof -
  have "length gdt_entry \<ge> 5" by (simp add: gdt_entry_def)
  then have g: "g ! 3 = gdt_entry ! 3" "g ! 4 = gdt_entry ! 4"
    using assms(2) nth_take [of 3 5 g] nth_take [of 3 5 gdt_entry] nth_take [of 4 5 g] nth_take [of 4 5 gdt_entry] by simp_all
  have seg: "unat ((3 * 8) OR 3 :: u32) div 8 = 3" "unat ((4 * 8) OR 3 :: u32) div 8 = 4" by simp_all
  have reg: "drop_bit 22 (push_bit 22 (word_of_nat (1 + 3 * p) + 1) - 1) = (word_of_nat (1 + 3 * p) :: u32)"
    "drop_bit 22 (push_bit 22 (word_of_nat (1 + 3 * p)) OR (phys AND 0xFFF)) = (word_of_nat (1 + 3 * p) :: u32)"
    using assms(1) by (intro region_of_stack region_of_entry; simp add: MAX_THREADS_def)+
  have fl: "bit (getflags ly OR 0x200) 9" by (simp add: bit_or_iff bit_numeral_word_iff)
  show ?thesis unfolding user_mode_start_def Let_def user_registers_def selected_def
    using reg fl gdt_user_segments seg by (simp add: g del: of_nat_add of_nat_mult of_nat_Suc)
qed

text \<open>The slot and the directory entry of a new process.\<close>

lemma first_free_slot:
  assumes "length ps = MAX_THREADS" "\<exists>q < MAX_THREADS. ps ! q AND PROCESS_PRESENT = 0"
    and "p = (LEAST q. q < MAX_THREADS \<and> ps ! q AND PROCESS_PRESENT = 0)"
  shows "p < MAX_THREADS" "ps ! p AND PROCESS_PRESENT = 0" "find_process ps 0 False = Some (int p)"
  using LeastI_ex [of "\<lambda>q. q < MAX_THREADS \<and> ps ! q AND PROCESS_PRESENT = 0"]
    find_absent [OF assms(1), of 0] assms(2,3) by auto

lemma process_table_index: "1 + USER_SPACE_4MBs * word_of_int (int p) = (word_of_nat (1 + 3 * p) :: u32)"
  by (simp add: USER_SPACE_4MBs_def)

lemma set_process_table:
  assumes "p < MAX_THREADS" "length dir = 1024"
  shows "hal_set_page_table dir tp (sint (1 + USER_SPACE_4MBs * word_of_int (int p) :: u32)) True =
    Some (dir[1 + 3 * p := tp OR (PAGE_ALL_ACCESS OR PAGE_READ_WRITE OR PAGE_PRESENT)])"
proof -
  have p: "p < 10" using assms(1) by (simp add: MAX_THREADS_def)
  have i: "sint (1 + USER_SPACE_4MBs * word_of_int (int p) :: u32) = int (1 + 3 * p)"
    unfolding process_table_index using p
    by (simp add: signed_of_nat signed_take_bit_int_eq_self del: of_nat_add of_nat_mult of_nat_Suc)
  show ?thesis unfolding i using p assms(2)
    by (simp add: hal_set_page_table_def i686_page_table_def awrite_int_def nat_add_distrib nat_mult_distrib)
qed

text \<open>C19: Creating a process when a slot is free and the addresses involved are mapped takes the
  first free slot and no other one, enters a page table that maps the code for user access
  from the page of the function on, and prepares registers with which the process starts at
  the user entry, in ring 3 by its segments, with its stack and function in the region of its
  page table and with interrupts enabled.\<close>

theorem create_process_correct:
  assumes ok: "sched_ok (sched (mach s))" and free: "\<exists>q < MAX_THREADS. processes (sched (mach s)) ! q AND PROCESS_PRESENT = 0"
    and p: "p = (LEAST q. q < MAX_THREADS \<and> processes (sched (mach s)) ! q AND PROCESS_PRESENT = 0)"
    and phys: "virt_to_phys ly s user_func = Some phys" "virt_to_phys ly s (user_entry ly) = Some ue"
    and alloc: "buddy_alloc (heap s) 4096 = Some (h, n, tab)" "tab \<noteq> 0" "virt_to_phys ly (s\<lparr>heap := h\<rparr>) tab = Some tp"
    and len: "length (page_dir s) = 1024" "length (page_tables s tab) = 1024" and ready: "userspace_ready s tab"
    and gdt: "take 5 (gdt (segs s)) = take 5 gdt_entry"
  shows "\<exists>s'. hal_create_user_process ly s user_func prio = Some (s', 1) \<and> interrupts_on s' \<and>
    processes (sched (mach s')) = (processes (sched (mach s)))[p := processes (sched (mach s)) ! p OR
      (PROCESS_PRESENT OR (if prio then PROCESS_PRIO else 0))] \<and> present (sched (mach s')) (int p) \<and>
    page_dir s' = (page_dir s)[1 + 3 * p := tp OR (PAGE_ALL_ACCESS OR PAGE_READ_WRITE OR PAGE_PRESENT)] \<and>
    page_tables s' tab = map (user_entry_word phys) [0..<1024] \<and>
    \<not> valid (pcbs (sched (mach s')) ! p) \<and> user_mode_start (gdt (segs s')) p ue (regs (pcbs (sched (mach s')) ! p))"
proof -
  let ?sc = "sched (mach s)" and ?ps = "processes (sched (mach s))"
  have lens: "length ?ps = MAX_THREADS" "length (pcbs ?sc) = MAX_THREADS" using ok by (auto simp: sched_ok_def)
  note slot = first_free_slot [OF lens(1) free p]
  note pl = slot(1,2) and find = slot(3)
  let ?a = "?ps ! p OR (PROCESS_PRESENT OR (if prio then PROCESS_PRIO else 0))"
  let ?s1 = "set_sched (?sc\<lparr>processes := ?ps[p := ?a]\<rparr>) (s\<lparr>interrupts_on := False\<rparr>)"
  have v1: "virt_to_phys ly ?s1 user_func = Some phys" "virt_to_phys ly ?s1 (user_entry ly) = Some ue"
    using phys by (simp_all add: virt_to_phys_def set_sched_def)
  have v2: "virt_to_phys ly (?s1\<lparr>heap := h\<rparr>) tab = Some tp"
    using alloc(3) by (simp add: virt_to_phys_def set_sched_def)
  let ?ti = "1 + USER_SPACE_4MBs * word_of_int (int p) :: u32"
  let ?dir = "(page_dir s)[1 + 3 * p := tp OR (PAGE_ALL_ACCESS OR PAGE_READ_WRITE OR PAGE_PRESENT)]"
  have dir: "hal_set_page_table (page_dir (?s1\<lparr>heap := h\<rparr>)) tp (sint ?ti) True = Some ?dir"
    using set_process_table [OF pl(1) len(1), of tp] by (simp add: set_sched_def)
  let ?s2 = "?s1\<lparr>heap := h, page_dir := ?dir\<rparr>"
  let ?s3 = "?s2\<lparr>page_tables := (page_tables ?s2)(tab := map (user_entry_word phys) [0..<1024])\<rparr>"
  have fill: "for_loop (\<lambda>i. set_table_entry tab i (phys + word_of_int (i * 0x1000)) True False) [0..1023] ?s2 = Some ?s3"
    using fill_table [OF alloc(2), of ?s2 phys] len(2) by (simp add: set_sched_def)
  have ready3: "userspace_ready ?s3 tab" "length (page_dir ?s3) = 1024"
    using ready len(1) by (auto simp: userspace_ready_def set_sched_def Let_def)
  obtain s4 where s4: "setup_userspace ly ue ?s3 = Some s4" "sched (mach s4) = sched (mach ?s3)" "page_dir s4 = page_dir ?s3"
    "page_tables s4 tab = page_tables ?s3 tab" "take 5 (gdt (segs s4)) = take 5 (gdt (segs ?s3))"
    using setup_userspace_ok [OF ready3, of ly ue] by blast
  let ?m5 = "log_msg ''[LOG]Running Process %i.'' [word_of_int (int p)] (mach s4)"
  let ?r = "user_registers ly ?ti phys ue (regs (pcbs ?sc ! p))"
  let ?sc5 = "(sched ?m5)\<lparr>pcbs := (pcbs ?sc)[p := \<lparr>regs = ?r, valid = False\<rparr>]\<rparr>"
  let ?s' = "(set_sched ?sc5 (s4\<lparr>mach := ?m5\<rparr>))\<lparr>interrupts_on := True\<rparr>"
  have sc4: "sched (mach s4) = ?sc\<lparr>processes := ?ps[p := ?a]\<rparr>" using s4(2) by (simp add: set_sched_def)
  have run: "hal_create_user_process ly s user_func prio = Some (?s', 1)"
    using find lens pl(1) v1 alloc(1) v2 dir fill s4(1) sc4
    by (simp add: hal_create_user_process_def Let_def set_sched_def)
  have g: "take 5 (gdt (segs ?s')) = take 5 gdt_entry" using s4(5) gdt by (simp add: set_sched_def)
  have r: "regs (pcbs (sched (mach ?s')) ! p) = user_registers ly (word_of_nat (1 + 3 * p)) phys ue (regs (pcbs ?sc ! p))"
    using lens(2) pl(1) unfolding process_table_index by (simp add: set_sched_def)
  have pres: "present (sched (mach ?s')) (int p)"
    using lens(1) pl(1) sc4 set_present by (simp add: present_def set_sched_def) (simp add: PROCESS_PRESENT_def)
  have start: "user_mode_start (gdt (segs ?s')) p ue (regs (pcbs (sched (mach ?s')) ! p))"
    unfolding r by (rule user_registers_start [OF pl(1) g])
  have rest: "interrupts_on ?s'" "processes (sched (mach ?s')) = ?ps[p := ?a]" "page_dir ?s' = ?dir"
    "page_tables ?s' tab = map (user_entry_word phys) [0..<1024]" "\<not> valid (pcbs (sched (mach ?s')) ! p)"
    using sc4 s4(3,4) lens(2) pl(1) by (simp_all add: set_sched_def)
  show ?thesis using run rest pres start by blast
qed

text \<open>A system before its first process, on the small heap.\<close>

definition ex_system :: system where
  "ex_system = \<lparr>mach = ex_machine, segs = \<lparr>gdt = gdt_entry, is_ring3_tss_gdt_init = False, g_tss = zero_tss\<rparr>,
     heap = small_heap 0, page_dir = 0x2003 # replicate 1023 0, page_tables = (\<lambda>_. replicate 1024 0), interrupts_on = True\<rparr>"

definition ex_layout :: layout where
  "ex_layout = \<lparr>user_entry = 0x7000, tss_addr = 0x9000, kernel_ss = 16, kernel_esp = 0x9F00, getflags = 2, phys_mem = (\<lambda>_ _. 0x5003)\<rparr>"

lemma create_process_correct_witness:
  "\<exists>s'. hal_create_user_process ex_layout ex_system 0x8123 True = Some (s', 1) \<and> present (sched (mach s')) 0"
proof -
  have inv: "buddy_inv (small_heap 0)" by (rule small_heap_inv) simp
  obtain h j where h: "buddy_alloc (small_heap 0) 4096 = Some (h, 4096, block_addr (small_heap 0) (1, j))"
    "block_addr (small_heap 0) (1, j) \<noteq> 0" "j < 2"
    using small_heap_alloc [OF inv same_heap_refl, of 0] small_heap_blocks [of 0] by auto
  let ?tab = "block_addr (small_heap 0) (1, j)"
  have tab: "?tab \<noteq> 0x2000" using h(3) by (auto simp: block_addr_def block_offset_def BUDDY_ALLOC_VIRADR_def less_2_nat)
  have v: "\<exists>x. virt_to_phys ex_layout (ex_system\<lparr>heap := g\<rparr>) a = Some x" for g a
  proof -
    have "unat (drop_bit 22 a) < 1024" using unsigned_less [of a, where ?'a = nat] unfolding unat_drop_bit by (simp add: drop_bit_eq_div)
    then show ?thesis by (simp add: virt_to_phys_def hal_physical_addr_def i686_physical_addr_def aread_def ex_system_def Let_def)
  qed
  have m: "0 = (LEAST q. q < MAX_THREADS \<and> processes (sched (mach ex_system)) ! q AND PROCESS_PRESENT = 0)"
    by (rule Least_equality [symmetric]) (simp_all add: ex_system_def ex_machine_def ex_sched_def MAX_THREADS_def)
  have f: "\<exists>q < MAX_THREADS. processes (sched (mach ex_system)) ! q AND PROCESS_PRESENT = 0"
    by (rule exI [of _ 0]) (simp add: ex_system_def ex_machine_def ex_sched_def MAX_THREADS_def)
  have ok: "sched_ok (sched (mach ex_system))" using ex_sched_facts(1) by (simp add: ex_system_def ex_machine_def)
  have e: "buddy_alloc (heap ex_system) 4096 = Some (h, 4096, ?tab)" "length (page_dir ex_system) = 1024"
    "length (page_tables ex_system ?tab) = 1024" "userspace_ready ex_system ?tab"
    "take 5 (gdt (segs ex_system)) = take 5 gdt_entry"
    using h(1) tab by (simp_all add: ex_system_def userspace_ready_def Let_def gdt_entry_def)
  obtain x y z where "virt_to_phys ex_layout ex_system 0x8123 = Some x" "virt_to_phys ex_layout ex_system (user_entry ex_layout) = Some y"
    "virt_to_phys ex_layout (ex_system\<lparr>heap := h\<rparr>) ?tab = Some z"
    using v [of "heap ex_system"] v [of h] by (metis (full_types) system.surjective system.update_convs(3) system.select_convs(3))
  from create_process_correct [OF ok f m this(1,2) e(1) h(2) this(3) e(2-5), of True] show ?thesis by auto
qed

text \<open>With a full process table, creation returns 0 and changes no table, and leaves the
  interrupts switched off.\<close>

theorem create_process_full:
  assumes "sched_ok (sched (mach s))" "\<forall>q < MAX_THREADS. processes (sched (mach s)) ! q AND PROCESS_PRESENT \<noteq> 0"
  shows "hal_create_user_process ly s user_func prio = Some (s\<lparr>interrupts_on := False\<rparr>, 0)"
  using assms find_absent [of "processes (sched (mach s))" 0]
  by (auto simp: hal_create_user_process_def Let_def sched_ok_def)

lemma create_process_full_witness:
  "\<exists>s'. hal_create_user_process ex_layout (set_sched (ex_sched\<lparr>processes := replicate 10 PROCESS_PRESENT\<rparr>) ex_system) 0x8123 False = Some (s', 0) \<and>
     \<not> interrupts_on s'"
  using create_process_full [of "set_sched (ex_sched\<lparr>processes := replicate 10 PROCESS_PRESENT\<rparr>) ex_system" ex_layout "0x8123" False] ex_sched_facts(1)
  by (simp add: set_sched_def sched_ok_def MAX_THREADS_def PROCESS_PRESENT_def)

end
