(* ===== verification/Stack.thy ===== *)
theory Stack
  imports Memory BuddyTheorems
begin

text \<open>
  The kernel's stacks, \<open>kernel/include/stack.c\<close>: a block of the buddy allocator whose last
  16 bytes are the \<open>STACK\<close> structure and whose elements grow down from it. The structure
  and the elements live in the flat memory.
\<close>

section \<open>The interface\<close>

text \<open>
  A bounded stack as its clients use it: a push takes the address of an element and returns 0
  or, when the stack is full, 1; a pop returns where the element is, or a null pointer.
\<close>

locale bounded_stack =
  fixes inv :: "'s \<Rightarrow> bool"
    and content :: "'s \<Rightarrow> 'e list"
    and capacity :: "'s \<Rightarrow> nat"
    and readable :: "'s \<Rightarrow> 'a \<Rightarrow> bool"
    and elem :: "'s \<Rightarrow> 'a \<Rightarrow> 'e"
    and push :: "'s \<Rightarrow> 'a \<Rightarrow> 's \<times> int"
    and pop :: "'s \<Rightarrow> 's \<times> 'a"
    and null :: 'a
  assumes push_room: "inv s \<Longrightarrow> readable s x \<Longrightarrow> length (content s) < capacity s \<Longrightarrow>
      \<exists>s'. push s x = (s', 0) \<and> inv s' \<and> content s' = elem s x # content s \<and> capacity s' = capacity s"
    and push_full: "inv s \<Longrightarrow> capacity s \<le> length (content s) \<Longrightarrow> push s x = (s, 1)"
    and pop_elem: "inv s \<Longrightarrow> content s = e # es \<Longrightarrow>
      \<exists>s' p. pop s = (s', p) \<and> p \<noteq> null \<and> inv s' \<and> elem s' p = e \<and> content s' = es \<and> capacity s' = capacity s"
    and pop_empty: "inv s \<Longrightarrow> content s = [] \<Longrightarrow> pop s = (s, null)"
begin

text \<open>What was pushed is popped, and the rest of the stack is as it was.\<close>

lemma push_pop:
  assumes "inv s" "readable s x" "push s x = (s', 0)"
  shows "\<exists>s'' p. pop s' = (s'', p) \<and> p \<noteq> null \<and> elem s'' p = elem s x \<and> content s'' = content s \<and> inv s''"
proof -
  have "length (content s) < capacity s" using push_full [OF assms(1), of x] assms(3) by fastforce
  then have "inv s'" "content s' = elem s x # content s"
    using push_room [OF assms(1,2)] assms(3) by auto
  from pop_elem [OF this] show ?thesis by blast
qed

text \<open>A push fails exactly on a full stack.\<close>

lemma push_fails_iff:
  assumes "inv s" "readable s x"
  shows "snd (push s x) = 1 \<longleftrightarrow> capacity s \<le> length (content s)"
  using push_room [OF assms] push_full [OF assms(1), of x] by fastforce

end

section \<open>The structure\<close>

text \<open>\<open>elem_size\<close>, \<open>alloc_size\<close>, \<open>sp\<close> and \<open>min\<close>, at their offsets.\<close>

definition SIZEOF_STACK :: u32 where "SIZEOF_STACK = 16"

definition stack_elem_size :: "memory \<Rightarrow> u32 \<Rightarrow> u32" where "stack_elem_size m s = load32 m s"
definition stack_sp :: "memory \<Rightarrow> u32 \<Rightarrow> u32" where "stack_sp m s = load32 m (s + 8)"
definition stack_min :: "memory \<Rightarrow> u32 \<Rightarrow> u32" where "stack_min m s = load32 m (s + 12)"

lemmas stack_fields = stack_elem_size_def stack_sp_def stack_min_def

section \<open>The operations\<close>

definition stack_init :: "buddy \<Rightarrow> memory \<Rightarrow> u32 \<Rightarrow> u32 \<Rightarrow> (buddy \<times> memory \<times> u32) option" where
  "stack_init bs m sz elem_size = do {
     (bs', block_size, alloc_ptr) \<leftarrow> buddy_alloc bs sz;
     let sz' = (word_of_nat block_size :: u32);
     if alloc_ptr = 0 then Some (bs', m, 0)
     else do {
       let stack = alloc_ptr + sz' - SIZEOF_STACK;
       let m1 = store32 m stack elem_size;
       let m2 = store32 m1 (stack + 4) sz';
       let m3 = store32 m2 (stack + 8) stack;
       let m4 = store32 m3 (stack + 12) alloc_ptr;
       Some (bs', m4, stack)
     }
   }"

definition stack_destroy :: "buddy \<Rightarrow> memory \<Rightarrow> u32 \<Rightarrow> buddy option" where
  "stack_destroy bs m stack = buddy_free bs (stack_min m stack)"

text \<open>\<open>args\<close> is the address of the variable arguments, \<open>&stack + 1\<close>.\<close>

definition stack_push :: "memory \<Rightarrow> u32 \<Rightarrow> u32 \<Rightarrow> memory \<times> int" where
  "stack_push m stack args =
     (let new_ptr = stack_sp m stack - stack_elem_size m stack in
      if stack_min m stack \<le> new_ptr then
        let (m1, _) = memcpy m new_ptr args (stack_elem_size m stack) in
        (store32 m1 (stack + 8) new_ptr, 0)
      else (m, 1))"

definition stack_pop :: "memory \<Rightarrow> u32 \<Rightarrow> memory \<times> u32" where
  "stack_pop m stack =
     (let new_ptr = stack_sp m stack + stack_elem_size m stack in
      if stack < new_ptr then (m, 0)
      else let ret = stack_sp m stack in (store32 m (stack + 8) new_ptr, ret))"

section \<open>Invariant and contents\<close>

text \<open>
  The elements fill the space between \<open>sp\<close> and the structure; an element is not larger than
  the address the block starts at, and ends below the top of memory from the structure on, so
  that \<open>sp - elem_size\<close> and \<open>sp + elem_size\<close> do not wrap.
\<close>

definition stack_inv :: "memory \<times> u32 \<Rightarrow> bool" where
  "stack_inv = (\<lambda>(m, s). fits_memory s 16 \<and>
     0 < unat (stack_elem_size m s) \<and> unat (stack_elem_size m s) \<le> unat (stack_min m s) \<and>
     unat s + unat (stack_elem_size m s) < 2 ^ 32 \<and>
     unat (stack_min m s) \<le> unat (stack_sp m s) \<and> unat (stack_sp m s) \<le> unat s \<and>
     unat (stack_elem_size m s) dvd unat s - unat (stack_sp m s))"

definition stack_height :: "memory \<times> u32 \<Rightarrow> nat" where
  "stack_height = (\<lambda>(m, s). (unat s - unat (stack_sp m s)) div unat (stack_elem_size m s))"

fun elements_at :: "memory \<Rightarrow> u32 \<Rightarrow> nat \<Rightarrow> nat \<Rightarrow> u8 list list" where
  "elements_at m a e 0 = []"
| "elements_at m a e (Suc n) = bytes_at m a e # elements_at m (a + word_of_nat e) e n"

definition stack_content :: "memory \<times> u32 \<Rightarrow> u8 list list" where
  "stack_content = (\<lambda>(m, s).
     elements_at m (stack_sp m s) (unat (stack_elem_size m s)) (stack_height (m, s)))"

definition stack_capacity :: "memory \<times> u32 \<Rightarrow> nat" where
  "stack_capacity = (\<lambda>(m, s). (unat s - unat (stack_min m s)) div unat (stack_elem_size m s))"

text \<open>The argument of a push is outside the block.\<close>

definition stack_readable :: "memory \<times> u32 \<Rightarrow> u32 \<Rightarrow> bool" where
  "stack_readable = (\<lambda>(m, s) x. fits_memory x (unat (stack_elem_size m s)) \<and>
     range_of x (unat (stack_elem_size m s)) \<inter> {unat (stack_min m s) ..< unat s + 16} = {})"

definition stack_elem :: "memory \<times> u32 \<Rightarrow> u32 \<Rightarrow> u8 list" where
  "stack_elem = (\<lambda>(m, s) x. bytes_at m x (unat (stack_elem_size m s)))"

lemmas stack_defs = stack_inv_def stack_height_def stack_content_def stack_capacity_def
  stack_readable_def stack_elem_def

lemma length_elements_at [simp]: "length (elements_at m a e n) = n"
  by (induction n arbitrary: a) auto

lemma elements_at_cong:
  "same_on m m' A \<Longrightarrow> fits_memory a (n * e) \<Longrightarrow> range_of a (n * e) \<subseteq> A \<Longrightarrow> 0 < e \<Longrightarrow>
    elements_at m a e n = elements_at m' a e n"
proof (induction n arbitrary: a)
  case (Suc n)
  show ?case
  proof (cases "n = 0")
    case True
    then show ?thesis using Suc.prems same_on_bytes_at [of m m' A a e] by auto
  next
    case False
    then have ne: "0 < n * e" using Suc.prems(4) by simp
    have f: "fits_memory a e" using Suc.prems(2) by (simp add: fits_memory_def)
    have u: "unat (a + word_of_nat e) = unat a + e"
      using Suc.prems(2) ne unfolding fits_memory_def mult_Suc by (intro unat_add_nat) linarith
    have "elements_at m (a + word_of_nat e) e n = elements_at m' (a + word_of_nat e) e n"
      by (rule Suc.IH [OF Suc.prems(1) _ _ Suc.prems(4)]) (use Suc.prems u in \<open>auto simp: fits_memory_def range_of_def\<close>)
    moreover have "bytes_at m a e = bytes_at m' a e"
      by (rule same_on_bytes_at [OF Suc.prems(1) f]) (use Suc.prems(3) in \<open>auto simp: range_of_def\<close>)
    ultimately show ?thesis by simp
  qed
qed simp

text \<open>Writing \<open>sp\<close> changes neither the other fields nor what lies below the structure.\<close>

lemma set_sp:
  assumes "fits_memory s 16"
  shows "stack_sp (store32 m (s + 8) w) s = w"
    and "stack_elem_size (store32 m (s + 8) w) s = stack_elem_size m s"
    and "stack_min (store32 m (s + 8) w) s = stack_min m s"
    and "same_on (store32 m (s + 8) w) m {..< unat s}"
proof -
  have u: "unat (s + 8) = unat s + 8" "unat (s + 12) = unat s + 12"
    using assms unat_add_nat [of s 8] unat_add_nat [of s 12] by (auto simp: fits_memory_def)
  show "stack_sp (store32 m (s + 8) w) s = w" by (simp add: stack_sp_def)
  show "stack_elem_size (store32 m (s + 8) w) s = stack_elem_size m s"
    unfolding stack_elem_size_def
    by (rule load32_store32_other) (use assms u in \<open>auto simp: fits_memory_def range_of_def\<close>)
  show "stack_min (store32 m (s + 8) w) s = stack_min m s"
    unfolding stack_min_def
    by (rule load32_store32_other) (use assms u in \<open>auto simp: fits_memory_def range_of_def\<close>)
  have "store32 m (s + 8) w x = m x" if "unat x < unat s" for x
    by (rule store32_outside) (use that assms u in \<open>auto simp: fits_memory_def range_of_def\<close>)
  then show "same_on (store32 m (s + 8) w) m {..< unat s}" by (simp add: same_on_def)
qed

lemma same_on_fields:
  assumes "same_on m m' {unat s ..< unat s + 16}" "fits_memory s 16"
  shows "stack_sp m s = stack_sp m' s" "stack_elem_size m s = stack_elem_size m' s"
    "stack_min m s = stack_min m' s"
proof -
  have u: "unat (s + 8) = unat s + 8" "unat (s + 12) = unat s + 12"
    using assms(2) unat_add_nat [of s 8] unat_add_nat [of s 12] by (auto simp: fits_memory_def)
  show "stack_sp m s = stack_sp m' s" "stack_elem_size m s = stack_elem_size m' s"
    "stack_min m s = stack_min m' s"
    unfolding stack_fields
    by (rule same_on_load32 [OF assms(1)]; use assms(2) u in \<open>auto simp: fits_memory_def range_of_def\<close>)+
qed

section \<open>The operations keep the invariant\<close>

lemma stack_height_le:
  assumes "stack_inv (m, s)"
  shows "unat s - unat (stack_sp m s) = stack_height (m, s) * unat (stack_elem_size m s)"
    "unat (stack_sp m s) + stack_height (m, s) * unat (stack_elem_size m s) = unat s"
  using assms by (auto simp: stack_inv_def stack_height_def)

lemma stack_room_iff:
  assumes inv: "stack_inv (m, s)"
  shows "stack_height (m, s) < stack_capacity (m, s) \<longleftrightarrow>
    unat (stack_min m s) + unat (stack_elem_size m s) \<le> unat (stack_sp m s)"
proof -
  define e where "e = unat (stack_elem_size m s)"
  have e: "0 < e" "unat (stack_min m s) \<le> unat (stack_sp m s)" "unat (stack_sp m s) \<le> unat s"
    using inv by (auto simp: stack_inv_def e_def)
  have "stack_height (m, s) < stack_capacity (m, s) \<longleftrightarrow> Suc (stack_height (m, s)) * e \<le> unat s - unat (stack_min m s)"
    using e(1) by (simp add: stack_capacity_def e_def Suc_le_eq [symmetric] less_eq_div_iff_mult_less_eq)
  also have "\<dots> \<longleftrightarrow> unat (stack_min m s) + e \<le> unat (stack_sp m s)"
    using stack_height_le(2) [OF inv] e(2,3) by (auto simp: e_def)
  finally show ?thesis by (simp add: e_def)
qed

lemma stack_new_ptr:
  assumes inv: "stack_inv (m, s)"
  shows "stack_min m s \<le> stack_sp m s - stack_elem_size m s \<longleftrightarrow>
      unat (stack_min m s) + unat (stack_elem_size m s) \<le> unat (stack_sp m s)"
    and "unat (stack_sp m s - stack_elem_size m s) = unat (stack_sp m s) - unat (stack_elem_size m s)"
proof -
  have le: "stack_elem_size m s \<le> stack_sp m s" "stack_elem_size m s \<le> stack_min m s"
    using inv by (auto simp: stack_inv_def word_le_nat_alt)
  show "unat (stack_sp m s - stack_elem_size m s) = unat (stack_sp m s) - unat (stack_elem_size m s)"
    by (rule unat_sub_le [OF le(1)])
  with le show "stack_min m s \<le> stack_sp m s - stack_elem_size m s \<longleftrightarrow>
      unat (stack_min m s) + unat (stack_elem_size m s) \<le> unat (stack_sp m s)"
    by (auto simp: word_le_nat_alt)
qed

lemma stack_push_room:
  assumes inv: "stack_inv (m, s)" and arg: "stack_readable (m, s) x"
    and room: "stack_height (m, s) < stack_capacity (m, s)"
  shows "\<exists>m'. stack_push m s x = (m', 0) \<and> stack_inv (m', s) \<and>
    stack_content (m', s) = stack_elem (m, s) x # stack_content (m, s) \<and>
    stack_capacity (m', s) = stack_capacity (m, s)"
proof -
  define e sp mn where "e = stack_elem_size m s" and "sp = stack_sp m s" and "mn = stack_min m s"
  define new where "new = sp - e"
  define m1 where "m1 = fst (memcpy m new x e)"
  define m2 where "m2 = store32 m1 (s + 8) new"
  note defs = e_def sp_def mn_def
  have i: "fits_memory s 16" "0 < unat e" "unat e \<le> unat mn" "unat mn \<le> unat sp" "unat sp \<le> unat s"
    "unat e dvd unat s - unat sp" "unat s + unat e < 2 ^ 32"
    using inv by (auto simp: stack_inv_def defs)
  have le: "unat mn + unat e \<le> unat sp" using room stack_room_iff [OF inv] by (simp add: defs)
  have new: "unat new = unat sp - unat e" "mn \<le> new"
    using stack_new_ptr [OF inv] le by (auto simp: new_def defs)
  have sz: "unat s < 2 ^ 32" using unat_u32_less [of s] by simp
  have fm: "fits_memory new (unat e)" using new(1) i sz by (auto simp: fits_memory_def)
  have disj: "range_of new (unat e) \<inter> range_of x (unat e) = {}"
    using arg new(1) le i by (auto simp: stack_readable_def defs range_of_def)
  have fx: "fits_memory x (unat e)" using arg by (simp add: stack_readable_def defs)
  have copy: "bytes_at m1 new (unat e) = bytes_at m x (unat e)" "same_on m1 m (- range_of new (unat e))"
    unfolding m1_def using memcpy_ranges [OF fm fx disj] by auto
  have m1: "stack_sp m1 s = sp" "stack_elem_size m1 s = e" "stack_min m1 s = mn"
    unfolding defs
    by (rule same_on_fields [OF same_on_mono [OF copy(2)] i(1)];
        use new(1) i le in \<open>auto simp: range_of_def\<close>)+
  have m2: "stack_sp m2 s = new" "stack_elem_size m2 s = e" "stack_min m2 s = mn" "same_on m2 m1 {..< unat s}"
    unfolding m2_def using set_sp [OF i(1)] m1 by auto
  have run: "stack_push m s x = (m2, 0)"
    using new(2) by (simp add: stack_push_def Let_def m2_def m1_def new_def defs case_prod_unfold)
  have d: "unat s - unat new = unat e + (unat s - unat sp)" using new(1) i le by simp
  have "unat e dvd unat s - unat new" unfolding d by (rule dvd_add) (use i(6) in auto)
  moreover have "unat mn \<le> unat new" "unat new \<le> unat s" using new(1) le i(4,5) by linarith+
  ultimately have inv': "stack_inv (m2, s)"
    using i(1-3,7) by (simp add: stack_inv_def m2)
  have h: "stack_height (m2, s) = Suc (stack_height (m, s))"
    using d div_add_self1 [of "unat e" "unat s - unat sp"] i(2) by (simp add: stack_height_def m2 defs)
  have nsp: "new + word_of_nat (unat e) = sp" by (simp add: new_def)
  have below: "range_of sp (stack_height (m, s) * unat e) \<subseteq> - range_of new (unat e)"
    "range_of sp (stack_height (m, s) * unat e) \<subseteq> {..< unat s}"
    "range_of new (unat e) \<subseteq> {..< unat s}"
    using stack_height_le(2) [OF inv] new(1) le i by (auto simp: range_of_def defs)
  have fsp: "fits_memory sp (stack_height (m, s) * unat e)"
    using stack_height_le(2) [OF inv] sz by (simp add: fits_memory_def defs)
  have "elements_at m2 sp (unat e) (stack_height (m, s)) = elements_at m1 sp (unat e) (stack_height (m, s))"
    by (rule elements_at_cong [OF m2(4) fsp below(2) i(2)])
  also have "\<dots> = elements_at m sp (unat e) (stack_height (m, s))"
    by (rule elements_at_cong [OF copy(2) fsp below(1) i(2)])
  finally have "stack_content (m2, s) = bytes_at m2 new (unat e) # stack_content (m, s)"
    by (simp add: stack_content_def h m2 nsp defs [symmetric] del: of_nat_unat)
  moreover have "bytes_at m2 new (unat e) = bytes_at m x (unat e)"
    using same_on_bytes_at [OF m2(4) fm below(3)] copy(1) by simp
  moreover have "stack_capacity (m2, s) = stack_capacity (m, s)" by (simp add: stack_capacity_def m2 defs)
  ultimately show ?thesis using run inv' by (auto simp: stack_elem_def defs)
qed

lemma stack_push_full:
  assumes inv: "stack_inv (m, s)" and full: "stack_capacity (m, s) \<le> stack_height (m, s)"
  shows "stack_push m s x = (m, 1)"
  using stack_room_iff [OF inv] stack_new_ptr(1) [OF inv] full by (simp add: stack_push_def Let_def)

lemma stack_pop_elem:
  assumes inv: "stack_inv (m, s)" and h: "stack_height (m, s) = Suc n"
  shows "\<exists>m' p. stack_pop m s = (m', p) \<and> p \<noteq> 0 \<and> stack_inv (m', s) \<and>
    stack_elem (m', s) p # stack_content (m', s) = stack_content (m, s) \<and>
    stack_capacity (m', s) = stack_capacity (m, s)"
proof -
  define e sp mn where "e = stack_elem_size m s" and "sp = stack_sp m s" and "mn = stack_min m s"
  define new where "new = sp + e"
  define m2 where "m2 = store32 m (s + 8) new"
  note defs = e_def sp_def mn_def
  have i: "fits_memory s 16" "0 < unat e" "unat e \<le> unat mn" "unat mn \<le> unat sp" "unat sp \<le> unat s"
    "unat e dvd unat s - unat sp" "unat s + unat e < 2 ^ 32"
    using inv by (auto simp: stack_inv_def defs)
  have sum: "unat sp + (unat e + n * unat e) = unat s" using stack_height_le(2) [OF inv] h by (simp add: defs)
  have sz: "unat s < 2 ^ 32" using unat_u32_less [of s] by simp
  have new: "unat new = unat sp + unat e" unfolding new_def by (rule unat_add_less) (use sum sz in linarith)
  have m2: "stack_sp m2 s = new" "stack_elem_size m2 s = e" "stack_min m2 s = mn" "same_on m2 m {..< unat s}"
    unfolding m2_def using set_sp [OF i(1)] by (auto simp: defs)
  have "\<not> s < new" using new sum by (simp add: word_less_nat_alt)
  then have run: "stack_pop m s = (m2, sp)" by (simp add: stack_pop_def Let_def m2_def new_def defs)
  have d: "unat s - unat new = n * unat e" using new sum by simp
  have inv': "stack_inv (m2, s)" using i new sum d by (simp add: stack_inv_def m2)
  have h': "stack_height (m2, s) = n" using i(2) d by (simp add: stack_height_def m2)
  have nsp: "sp + word_of_nat (unat e) = new" by (simp add: new_def)
  have "elements_at m2 new (unat e) n = elements_at m new (unat e) n"
    by (rule elements_at_cong [OF m2(4) _ _ i(2)]) (use new sum sz in \<open>auto simp: fits_memory_def range_of_def\<close>)
  moreover have "bytes_at m2 sp (unat e) = bytes_at m sp (unat e)"
    by (rule same_on_bytes_at [OF m2(4)]) (use sum sz in \<open>auto simp: fits_memory_def range_of_def\<close>)
  ultimately have "stack_elem (m2, s) sp # stack_content (m2, s) = stack_content (m, s)"
    by (simp add: stack_content_def stack_elem_def h' h m2 nsp defs [symmetric] del: of_nat_unat)
  moreover have "stack_capacity (m2, s) = stack_capacity (m, s)" by (simp add: stack_capacity_def m2 defs)
  moreover have "sp \<noteq> 0" using i by auto
  ultimately show ?thesis using run inv' by auto
qed

lemma stack_pop_empty:
  assumes inv: "stack_inv (m, s)" and h: "stack_height (m, s) = 0"
  shows "stack_pop m s = (m, 0)"
proof -
  have "unat (stack_sp m s) = unat s" using stack_height_le(2) [OF inv] h by simp
  then have "stack_sp m s = s" by (simp add: word_unat_eq_iff)
  moreover have "unat (s + stack_elem_size m s) = unat s + unat (stack_elem_size m s)"
    using inv by (intro unat_add_less) (auto simp: stack_inv_def)
  ultimately have "s < stack_sp m s + stack_elem_size m s"
    using inv by (auto simp: stack_inv_def word_less_nat_alt)
  then show ?thesis by (simp add: stack_pop_def Let_def)
qed

lemma length_stack_content: "length (stack_content (m, s)) = stack_height (m, s)"
  by (simp add: stack_content_def)

interpretation stack: bounded_stack stack_inv stack_content stack_capacity stack_readable stack_elem
  "\<lambda>(m, s) x. case stack_push m s x of (m', r) \<Rightarrow> ((m', s), r)"
  "\<lambda>(m, s). case stack_pop m s of (m', p) \<Rightarrow> ((m', s), p)" 0
proof
  fix st :: "memory \<times> u32" and x
  obtain m s where [simp]: "st = (m, s)" by (cases st)
  assume "stack_inv st" "stack_readable st x" "length (stack_content st) < stack_capacity st"
  then show "\<exists>s'. (case st of (m, s) \<Rightarrow> \<lambda>x. case stack_push m s x of (m', r) \<Rightarrow> ((m', s), r)) x = (s', 0) \<and>
      stack_inv s' \<and> stack_content s' = stack_elem st x # stack_content st \<and> stack_capacity s' = stack_capacity st"
    using stack_push_room [of m s x] by (auto simp: length_stack_content)
next
  fix st :: "memory \<times> u32" and x
  obtain m s where [simp]: "st = (m, s)" by (cases st)
  assume "stack_inv st" "stack_capacity st \<le> length (stack_content st)"
  then show "(case st of (m, s) \<Rightarrow> \<lambda>x. case stack_push m s x of (m', r) \<Rightarrow> ((m', s), r)) x = (st, 1)"
    using stack_push_full [of m s x] by (simp add: length_stack_content)
next
  fix st :: "memory \<times> u32" and e es
  obtain m s where [simp]: "st = (m, s)" by (cases st)
  assume a: "stack_inv st" "stack_content st = e # es"
  then have "stack_height (m, s) = Suc (length es)" using length_stack_content [of m s] by simp
  with stack_pop_elem [of m s] a show "\<exists>s' p. (case st of (m, s) \<Rightarrow> case stack_pop m s of (m', p) \<Rightarrow> ((m', s), p)) = (s', p) \<and>
      p \<noteq> 0 \<and> stack_inv s' \<and> stack_elem s' p = e \<and> stack_content s' = es \<and> stack_capacity s' = stack_capacity st"
    by fastforce
next
  fix st :: "memory \<times> u32"
  obtain m s where [simp]: "st = (m, s)" by (cases st)
  assume "stack_inv st" "stack_content st = []"
  then show "(case st of (m, s) \<Rightarrow> case stack_pop m s of (m', p) \<Rightarrow> ((m', s), p)) = (st, 0)"
    using stack_pop_empty [of m s] length_stack_content [of m s] by simp
qed

section \<open>Creation\<close>

text \<open>The four stores of \<open>stack_init\<close> set the fields and touch only the structure.\<close>

lemma stack_stores:
  assumes f: "fits_memory s 16"
    and m4_def: "m4 = store32 (store32 (store32 (store32 m s e) (s + 4) sz) (s + 8) sp) (s + 12) mn"
  shows "stack_elem_size m4 s = e" "stack_sp m4 s = sp" "stack_min m4 s = mn"
    "same_on m4 m (- {unat s ..< unat s + 16})"
proof -
  have u: "unat (s + 4) = unat s + 4" "unat (s + 8) = unat s + 8" "unat (s + 12) = unat s + 12"
    using f unat_add_nat [of s 4] unat_add_nat [of s 8] unat_add_nat [of s 12] by (auto simp: fits_memory_def)
  have fit: "fits_memory s 4" "fits_memory (s + 4) 4" "fits_memory (s + 8) 4" "fits_memory (s + 12) 4"
    using f u by (auto simp: fits_memory_def)
  have disj: "range_of s 4 \<inter> range_of (s + 4) 4 = {}" "range_of s 4 \<inter> range_of (s + 8) 4 = {}"
    "range_of s 4 \<inter> range_of (s + 12) 4 = {}" "range_of (s + 8) 4 \<inter> range_of (s + 12) 4 = {}"
    using u by (auto simp: range_of_def)
  show "stack_elem_size m4 s = e" "stack_sp m4 s = sp" "stack_min m4 s = mn"
    unfolding m4_def stack_fields using fit disj by (simp_all add: load32_store32_other)
  show "same_on m4 m (- {unat s ..< unat s + 16})"
    unfolding same_on_def
  proof (intro allI impI)
    fix x :: u32 assume "unat x \<in> - {unat s ..< unat s + 16}"
    then have "unat x \<notin> range_of s 4" "unat x \<notin> range_of (s + 4) 4" "unat x \<notin> range_of (s + 8) 4"
      "unat x \<notin> range_of (s + 12) 4"
      using u by (auto simp: range_of_def)
    then show "m4 x = m x" unfolding m4_def using fit by (simp add: store32_outside)
  qed
qed

text \<open>What a created stack is: empty, inside the block it was given, everything else untouched.\<close>

definition new_stack :: "buddy \<Rightarrow> memory \<Rightarrow> u32 \<Rightarrow> buddy \<Rightarrow> memory \<Rightarrow> u32 \<Rightarrow> nat \<Rightarrow> bool" where
  "new_stack bs m elem_size bs' m' s n \<longleftrightarrow> buddy_inv bs' \<and> stack_inv (m', s) \<and> stack_content (m', s) = [] \<and>
     stack_elem_size m' s = elem_size \<and> stack_capacity (m', s) = (n - 16) div unat elem_size \<and>
     (\<exists>b. b \<notin> buddy_blocks bs \<and> buddy_blocks bs' = insert b (buddy_blocks bs) \<and>
        stack_min m' s = block_addr bs' b \<and> buddy_extent bs' b = {unat (stack_min m' s) ..< unat s + 16}) \<and>
     same_on m' m (- {unat (stack_min m' s) ..< unat s + 16})"

lemma stack_init_new:
  assumes inv: "buddy_inv bs" and run: "buddy_alloc bs sz = Some (bs', n, p)" and p: "p \<noteq> 0"
    and e: "0 < unat e" "unat e < 2 ^ 28" and n: "16 \<le> n"
  shows "\<exists>m' s. stack_init bs m sz e = Some (bs', m', s) \<and> s \<noteq> 0 \<and> new_stack bs m e bs' m' s n"
proof -
  obtain b where b: "buddy_inv bs'" "b \<notin> buddy_blocks bs" "buddy_blocks bs' = insert b (buddy_blocks bs)"
    "p = block_addr bs' b" "buddy_extent bs' b = {unat p ..< unat p + n}"
    using buddy.alloc_gives [OF inv run p] buddy.alloc_keeps [OF inv run] by metis
  obtain l i where [simp]: "b = (l, i)" by (cases b)
  have li: "l < num_layers bs'" "i < 2 ^ l" using buddy_blocks_range [of l i bs'] b(3) by auto
  have u: "unat p = 0x80000000 + block_offset bs' (l, i)" using unat_block_addr(1) [OF b(1) li] b(4) by simp
  have "layer_size bs' l = n"
  proof -
    have "{unat p ..< unat p + layer_size bs' l} = {unat p ..< unat p + n}"
      using b(5) by (simp add: buddy_extent_def b(4))
    then have "card {unat p ..< unat p + layer_size bs' l} = card {unat p ..< unat p + n}" by simp
    then show ?thesis by simp
  qed
  then have top: "unat p + n \<le> 0x80000000 + 2 ^ 29" using unat_block_addr(2) [OF b(1) li] u by simp
  define s where "s = p + word_of_nat n - SIZEOF_STACK"
  have "s = p + word_of_nat (n - 16)" using n by (simp add: s_def SIZEOF_STACK_def)
  then have us: "unat s = unat p + n - 16" using unat_add_nat [of p "n - 16"] top n by simp
  then have "s \<noteq> 0" using u n by auto
  have f: "fits_memory s 16" using us top n by (simp add: fits_memory_def)
  define m4 where "m4 = store32 (store32 (store32 (store32 m s e) (s + 4) (word_of_nat n)) (s + 8) s) (s + 12) p"
  note st = stack_stores [OF f m4_def]
  have run': "stack_init bs m sz e = Some (bs', m4, s)"
    using run p by (simp add: stack_init_def Let_def s_def m4_def)
  have sinv: "stack_inv (m4, s)"
    using e us top n u f by (simp add: stack_inv_def st)
  have sp: "unat (stack_sp m4 s) = unat s" by (simp add: st)
  have "same_on m4 m (- {unat p ..< unat s + 16})"
    by (rule same_on_mono [OF st(4)]) (use us n in auto)
  then have "new_stack bs m e bs' m4 s n"
    using b sinv us n by (auto simp: new_stack_def st stack_content_def stack_height_def stack_capacity_def)
  then show ?thesis using run' \<open>s \<noteq> 0\<close> by blast
qed

section \<open>The properties of the stacks\<close>

text \<open>\<open>stack_init\<close> either finds no block, returns a null pointer and changes nothing, or
  returns an empty stack at the end of a block of its own, big enough for the requested
  bytes, with room for as many elements as fit beside the structure; no byte outside that
  block changes.\<close>

theorem stack_init_correct:
  assumes inv: "buddy_inv bs" "16 \<le> g_buddy_min_block bs" and e: "0 < unat e" "unat e < 2 ^ 28"
  shows "(stack_init bs m sz e = Some (bs, m, 0)) \<or>
    (\<exists>bs' m' s n. stack_init bs m sz e = Some (bs', m', s) \<and> s \<noteq> 0 \<and> unat sz \<le> n \<and>
      new_stack bs m e bs' m' s n)"
proof -
  obtain bs' n p where run: "buddy_alloc bs sz = Some (bs', n, p)" using buddy.alloc_returns [OF inv(1)] by blast
  show ?thesis
  proof (cases "p = 0")
    case True
    then have "bs' = bs" using buddy.alloc_fails [OF inv(1)] run by blast
    then show ?thesis using run True by (simp add: stack_init_def Let_def)
  next
    case False
    have "unat sz \<le> n" using buddy.alloc_gives [OF inv(1) run False] by simp
    moreover have "16 \<le> n"
    proof -
      obtain l where "n = layer_size bs l" using buddy_alloc_Some [OF inv(1) run] False by auto
      moreover have "(1 :: nat) \<le> 2 ^ (num_layers bs - 1 - l)" by simp
      ultimately show ?thesis using inv(2) by (metis layer_size_def le_trans mult_le_mono2 mult.right_neutral)
    qed
    ultimately show ?thesis using stack_init_new [OF inv(1) run False e] by blast
  qed
qed

lemma stack_init_correct_witness:
  "(stack_init (small_heap 0) (\<lambda>a. 0) 100 8 = Some (small_heap 0, \<lambda>a. 0, 0)) \<or>
    (\<exists>bs' m' s n. stack_init (small_heap 0) (\<lambda>a. 0) 100 8 = Some (bs', m', s) \<and> s \<noteq> 0 \<and> unat (100 :: u32) \<le> n \<and>
      new_stack (small_heap 0) (\<lambda>a. 0) 8 bs' m' s n)"
  by (rule stack_init_correct) (simp_all add: small_heap_inv)

text \<open>C10: On a stack, a push of an element from outside its block succeeds exactly when fewer
  elements than fit are on it; a pop right after a successful push returns a pointer to a
  copy of the pushed bytes and leaves the elements as they were before the push.\<close>

theorem stack_push_pop:
  assumes inv: "stack_inv (m, s)" and arg: "stack_readable (m, s) x"
  shows "(snd (stack_push m s x) = 1 \<longleftrightarrow> stack_capacity (m, s) \<le> length (stack_content (m, s))) \<and>
    (\<forall>m'. stack_push m s x = (m', 0) \<longrightarrow>
      (\<exists>m'' p. stack_pop m' s = (m'', p) \<and> p \<noteq> 0 \<and> stack_inv (m'', s) \<and>
        bytes_at m'' p (unat (stack_elem_size m'' s)) = bytes_at m x (unat (stack_elem_size m s)) \<and>
        stack_content (m'', s) = stack_content (m, s)))"
proof (intro conjI allI impI)
  show "snd (stack_push m s x) = 1 \<longleftrightarrow> stack_capacity (m, s) \<le> length (stack_content (m, s))"
    using stack.push_fails_iff [OF inv arg] by (simp add: case_prod_unfold)
  fix m' assume "stack_push m s x = (m', 0)"
  then show "\<exists>m'' p. stack_pop m' s = (m'', p) \<and> p \<noteq> 0 \<and> stack_inv (m'', s) \<and>
      bytes_at m'' p (unat (stack_elem_size m'' s)) = bytes_at m x (unat (stack_elem_size m s)) \<and>
      stack_content (m'', s) = stack_content (m, s)"
    using stack.push_pop [OF inv arg, of "(m', s)"] by (auto simp: stack_elem_def split: prod.splits)
qed

text \<open>A pop of an empty stack returns a null pointer and changes nothing; a pop of any
  other stack returns a pointer to the element pushed last and keeps the others in order.\<close>

theorem stack_pop_correct:
  assumes inv: "stack_inv (m, s)"
  shows "case stack_content (m, s) of [] \<Rightarrow> stack_pop m s = (m, 0)
    | x # xs \<Rightarrow> \<exists>m' p. stack_pop m s = (m', p) \<and> p \<noteq> 0 \<and> stack_inv (m', s) \<and>
        bytes_at m' p (unat (stack_elem_size m' s)) = x \<and> stack_content (m', s) = xs"
proof (cases "stack_content (m, s)")
  case Nil
  then show ?thesis using stack.pop_empty [OF inv Nil] by (simp split: prod.splits)
next
  case (Cons x xs)
  then show ?thesis using stack.pop_elem [OF inv Cons] by (auto simp: stack_elem_def split: prod.splits)
qed

text \<open>\<open>stack_destroy\<close> of a stack whose \<open>min\<close> field is as \<open>stack_init\<close> left it gives back
  exactly the block the stack was made in, while another block is live.\<close>

theorem stack_destroy_releases:
  assumes "new_stack bs m e bs' m' s n" "buddy_blocks bs \<noteq> {}" "stack_min m'' s = stack_min m' s"
  shows "\<exists>bs''. stack_destroy bs' m'' s = Some bs'' \<and> buddy_inv bs'' \<and> buddy_blocks bs'' = buddy_blocks bs"
proof -
  obtain b where b: "buddy_inv bs'" "b \<notin> buddy_blocks bs" "buddy_blocks bs' = insert b (buddy_blocks bs)"
    "stack_min m' s = block_addr bs' b"
    using assms(1) by (auto simp: new_stack_def)
  have "buddy_blocks bs' \<noteq> {b}" using b(2,3) assms(2) by auto
  then show ?thesis
    using buddy.release_works [OF b(1), of b] b assms(3) by (auto simp: stack_destroy_def)
qed

text \<open>A stack of three bytes for one-byte elements, at address \<open>0x103\<close>, holding one element.\<close>

definition small_stack :: memory where
  "small_stack = (let m = (\<lambda>a. 0)(0x102 := 7, 0x10 := 9) in
     store32 (store32 (store32 m 0x103 1) 0x10B 0x102) 0x10F 0x100)"

lemma small_stack_fields:
  "stack_elem_size small_stack 0x103 = 1" "stack_sp small_stack 0x103 = 0x102"
  "stack_min small_stack 0x103 = 0x100" "small_stack 0x102 = 7" "small_stack 0x10 = 9"
  by (simp_all add: small_stack_def stack_fields load32_store32_other fits_memory_def range_of_def
      store32_outside)

lemma small_stack_inv: "stack_inv (small_stack, 0x103)"
  by (simp add: stack_inv_def small_stack_fields fits_memory_def)

lemma small_stack_content: "stack_content (small_stack, 0x103) = [[7]]"
  by (simp add: stack_content_def stack_height_def small_stack_fields)

lemma stack_push_pop_witness:
  "\<exists>m' m'' p. stack_push small_stack 0x103 0x10 = (m', 0) \<and> stack_pop m' 0x103 = (m'', p) \<and> p \<noteq> 0 \<and>
    stack_content (m'', 0x103) = [[7]]"
proof -
  have r: "stack_readable (small_stack, 0x103) 0x10"
    by (simp add: stack_readable_def small_stack_fields fits_memory_def range_of_def)
  have "\<not> stack_capacity (small_stack, 0x103) \<le> length (stack_content (small_stack, 0x103))"
    by (simp add: small_stack_content) (simp add: stack_capacity_def small_stack_fields)
  moreover have "snd (stack_push small_stack 0x103 0x10) = 0 \<or> snd (stack_push small_stack 0x103 0x10) = 1"
    by (simp add: stack_push_def Let_def split: prod.splits)
  ultimately obtain m' where "stack_push small_stack 0x103 0x10 = (m', 0)"
    using stack_push_pop [OF small_stack_inv r] by (metis prod.collapse)
  then show ?thesis using stack_push_pop [OF small_stack_inv r] small_stack_content by metis
qed

lemma stack_pop_correct_witness:
  "\<exists>m' p. stack_pop small_stack 0x103 = (m', p) \<and> p \<noteq> 0 \<and> stack_content (m', 0x103) = []"
  using stack_pop_correct [OF small_stack_inv] by (auto simp: small_stack_content)

lemma stack_destroy_releases_witness:
  "\<exists>bs' m' s bs''. stack_init (small_heap 3) (\<lambda>a. 0) 4096 8 = Some (bs', m', s) \<and>
     stack_destroy bs' m' s = Some bs'' \<and> buddy_blocks bs'' = {(1, 0)}"
proof -
  have b: "buddy_blocks (small_heap 3) = {(1, 0)}" "buddy_inv (small_heap 3)"
    using small_heap_inv [of 3] small_heap_blocks [of 3] bit_7_marks by auto
  have "disjoint_blocks c (1, 1)" if "c \<in> buddy_blocks (small_heap 3)" for c
    using that b by (simp add: disjoint_blocks_def covers_def)
  then obtain bs' p where run: "buddy_alloc (small_heap 3) 4096 = Some (bs', 4096, p)" "p \<noteq> 0"
    using small_heap_alloc [OF b(2) same_heap_refl, of 1] by auto
  obtain m' s where "stack_init (small_heap 3) (\<lambda>a. 0) 4096 8 = Some (bs', m', s)"
    "new_stack (small_heap 3) (\<lambda>a. 0) 8 bs' m' s 4096"
    using stack_init_new [OF b(2) run, of 8 "\<lambda>a. 0"] by auto
  with stack_destroy_releases [OF this(2) _ refl] show ?thesis using b(1) by auto
qed

end
