(* ===== verification/Boot.thy ===== *)
theory Boot
  imports Floppy FatCorrect Buddy
begin

text \<open>
  Stage 2 of the boot loader, \<open>bootloader/stage2\<close>: the disk over the BIOS (\<open>disk.c\<close>), the FAT12
  driver (\<open>fat.c\<close>), paging (\<open>page.c\<close>), the memory map and the loading of the kernel (\<open>main.c\<close>).
  The BIOS, reached through the assembly of \<open>x86.asm\<close>, is a parameter. The driver's tables are
  the ones of theory \<open>Fat\<close>: \<open>fat.c\<close> has the same functions as the kernel's driver, over
  \<open>disk_read_sectors\<close>. Messages on the console are left out.
\<close>

section \<open>The disk\<close>

text \<open>
  The geometry of a drive as cylinders, sectors and heads; the bytes a read gives, which may
  depend on how often it was tried; and a call of E820 for a continuation value: the result,
  the block and the next value.
\<close>

record bios =
  drive_params :: "u8 \<Rightarrow> (u16 \<times> u16 \<times> u16) option"
  int13_read :: "nat \<Rightarrow> u8 \<Rightarrow> u16 \<Rightarrow> u16 \<Rightarrow> u16 \<Rightarrow> u8 \<Rightarrow> u8 list option"
  e820 :: "u32 \<Rightarrow> int \<times> memory_block \<times> u32"

definition disk_init :: "bios \<Rightarrow> u8 \<Rightarrow> DISK option" where
  "disk_init bios drive_number =
     (case drive_params bios drive_number of
        None \<Rightarrow> None
      | Some (cylinders, sectors, heads) \<Rightarrow>
          Some \<lparr>disk_id = drive_number, disk_heads = heads, disk_cylinders = cylinders, disk_sectors = sectors\<rparr>)"

text \<open>\<open>for (int i = 0; i < 3; i++)\<close> from \<open>i\<close> on, with \<open>n\<close> tries left.\<close>

fun read_tries :: "nat \<Rightarrow> nat \<Rightarrow> (nat \<Rightarrow> u8 list option) \<Rightarrow> u8 list option" where
  "read_tries 0 i f = None"
| "read_tries (Suc n) i f = (case f i of Some data \<Rightarrow> Some data | None \<Rightarrow> read_tries n (Suc i) f)"

definition disk_read_sectors :: "bios \<Rightarrow> DISK \<Rightarrow> u32 \<Rightarrow> u8 \<Rightarrow> u8 list option option" where
  "disk_read_sectors bios disk lba sectors =
     (if disk_sectors disk = 0 \<or> disk_heads disk = 0 then None
      else (let lba_sectors = lba div ucast (disk_sectors disk);
          sector = ucast (lba mod ucast (disk_sectors disk) + 1);
          cylinder = ucast (lba_sectors div ucast (disk_heads disk));
          head = ucast (lba_sectors mod ucast (disk_heads disk)) in
        Some (read_tries 3 0 (\<lambda>i. int13_read bios i (disk_id disk) cylinder sector head sectors))))"

text \<open>Reads of one sector, as the FAT driver makes them once the first one has not trapped.\<close>

definition boot_sectors :: "bios \<Rightarrow> DISK \<Rightarrow> disk" where
  "boot_sectors bios disk lba = (case disk_read_sectors bios disk lba 1 of None \<Rightarrow> None | Some r \<Rightarrow> r)"

section \<open>The FAT driver\<close>

definition SIZEOF_FAT_DRIVER :: u32 where "SIZEOF_FAT_DRIVER = 512 + 11 * (512 + 16 + 4 + 12)"
definition SIZEOF_FAT_DIR_ENTRY :: u32 where "SIZEOF_FAT_DIR_ENTRY = 32"
definition MEMORY_FAT_SIZE :: u32 where "MEMORY_FAT_SIZE = 0x10000"
definition MEMORY_FREE_BUFFER :: u32 where "MEMORY_FREE_BUFFER = 0x30000"
definition MEMORY_BUFFER_SIZE :: u32 where "MEMORY_BUFFER_SIZE = 0x10000"
definition MEMORY_KERNEL_ADDR :: u32 where "MEMORY_KERNEL_ADDR = 0x100000"

lemmas boot_consts = SIZEOF_FAT_DRIVER_def SIZEOF_FAT_DIR_ENTRY_def MEMORY_FAT_SIZE_def MEMORY_FREE_BUFFER_def
  MEMORY_BUFFER_SIZE_def MEMORY_KERNEL_ADDR_def

text \<open>The members of the boot sector the driver uses, at their offsets.\<close>

record bpb =
  sector_bytes :: u16
  bpb_cluster_sectors :: u8
  res_sectors :: u16
  fats :: u8
  dir_entries :: u16
  fat_sectors :: u16

definition bpb_of :: "u8 list \<Rightarrow> bpb option" where
  "bpb_of bs = do {
     sb \<leftarrow> le16 bs 11;
     cs \<leftarrow> aread bs 13;
     res \<leftarrow> le16 bs 14;
     n \<leftarrow> aread bs 16;
     de \<leftarrow> le16 bs 17;
     fs \<leftarrow> le16 bs 22;
     Some \<lparr>sector_bytes = sb, bpb_cluster_sectors = cs, res_sectors = res, fats = n, dir_entries = de, fat_sectors = fs\<rparr>
   }"

definition root_descriptor :: "u32 \<Rightarrow> u32 \<Rightarrow> fat_file_desc \<Rightarrow> fat_file_desc" where
  "root_descriptor root_dir_lba root_dir_size d = d\<lparr>
     d_file := \<lparr>f_handle = ROOT_DIR_HANDLE, f_is_dir = True, f_pos = 0, f_size = root_dir_size\<rparr>,
     d_opened := True, d_first_cluster := root_dir_lba, d_cur_cluster := root_dir_lba, d_cur_sector_in_cluster := 0\<rparr>"

text \<open>\<open>st\<close> is what the memory at \<open>MEMORY_FAT_ADDR\<close> holds before. The count of sectors of the table
  is passed as a byte.\<close>

definition boot_fat_init :: "bios \<Rightarrow> DISK \<Rightarrow> fat \<Rightarrow> (fat \<times> bool) option" where
  "boot_fat_init bios disk st = do {
     boot_sector \<leftarrow> disk_read_sectors bios disk 0 1;
     (case boot_sector of
        None \<Rightarrow> Some (st, False)
      | Some bs \<Rightarrow> do {
          b \<leftarrow> bpb_of bs;
          let st1 = st\<lparr>cluster_sectors := bpb_cluster_sectors b\<rparr>;
          let fat_size = ucast (sector_bytes b) * ucast (fat_sectors b);
          if SIZEOF_FAT_DRIVER + fat_size \<ge> MEMORY_FAT_SIZE then Some (st1, False)
          else do {
            table \<leftarrow> disk_read_sectors bios disk (ucast (res_sectors b)) (ucast (fat_sectors b));
            (case table of
               None \<Rightarrow> Some (st1, False)
             | Some bytes \<Rightarrow> do {
                 let root_dir_lba = ucast (res_sectors b) + ucast (fat_sectors b) * ucast (fats b);
                 let root_dir_size = SIZEOF_FAT_DIR_ENTRY * ucast (dir_entries b);
                 let st2 = st1\<lparr>g_fat := bytes @ drop (length bytes) (g_fat st1),
                   root_dir := root_descriptor root_dir_lba root_dir_size (root_dir st1)\<rparr>;
                 root_sector \<leftarrow> disk_read_sectors bios disk root_dir_lba 1;
                 (case root_sector of
                    None \<Rightarrow> Some (st2, False)
                  | Some sector \<Rightarrow>
                      if sector_bytes b = 0 then None
                      else Some (st2\<lparr>root_dir := (root_dir st2)\<lparr>d_buffer := sector\<rparr>,
                        g_data_lba := root_dir_lba + (root_dir_size + ucast (sector_bytes b) - 1) div ucast (sector_bytes b),
                        opened_files := map (\<lambda>d. d\<lparr>d_opened := False\<rparr>) (opened_files st2)\<rparr>, True))
               })
          }
        })
   }"

text \<open>What the kernel is given, and its \<open>fat_init\<close>: the pointers to the same structures.\<close>

record FAT_DATA =
  fd_driver :: fat
  fd_fat :: "u8 list"
  fd_data_lba :: u32

definition fat_export_data :: "fat \<Rightarrow> FAT_DATA" where
  "fat_export_data st = \<lparr>fd_driver = st, fd_fat = g_fat st, fd_data_lba = g_data_lba st\<rparr>"

definition kernel_fat_init :: "FAT_DATA \<Rightarrow> fat" where
  "kernel_fat_init data = (fd_driver data)\<lparr>g_fat := fd_fat data, g_data_lba := fd_data_lba data\<rparr>"

text \<open>
  The other functions are word for word those of the kernel's driver, over the sectors of the
  BIOS; \<open>memcmp\<close> of stage 2 gives 1 for any difference, which the search only compares with 0.
\<close>

definition boot_memcmp :: "u8 list \<Rightarrow> u8 list \<Rightarrow> int" where
  "boot_memcmp xs ys = (if list_all2 (=) xs ys then 0 else 1)"

definition boot_fat_open_entry :: "bios \<Rightarrow> DISK \<Rightarrow> fat \<Rightarrow> fat_dir_entry \<Rightarrow> (fat \<times> int option) option" where
  "boot_fat_open_entry bios disk = fat_open_entry (boot_sectors bios disk)"

definition boot_fat_find_file :: "bios \<Rightarrow> DISK \<Rightarrow> fat \<Rightarrow> int \<Rightarrow> u8 list \<Rightarrow> u8 list \<Rightarrow> (fat \<times> fat_dir_entry option) option" where
  "boot_fat_find_file bios disk = fat_find_file (boot_sectors bios disk)"

text \<open>
  One component of a path in \<open>name\<close>, an array that is not initialised: of a component before a
  slash the terminator is written one character too far. The result is the array, the rest of
  the path and \<open>is_last\<close>.
\<close>

definition boot_component :: "u8 list \<Rightarrow> u8 list \<Rightarrow> (u8 list \<times> u8 list \<times> bool) option" where
  "boot_component name path =
     (case find_char 47 path of
        Some i \<Rightarrow> if MAX_PATH_SIZE \<le> i + 1 then None
          else Some ((take i path @ drop i name)[i + 1 := 0], drop (i + 1) path, False)
      | None \<Rightarrow> if MAX_PATH_SIZE \<le> length path then None
          else Some ((path @ drop (length path) name)[length path := 0], [], True))"

definition c_string :: "u8 list \<Rightarrow> u8 list" where
  "c_string name = takeWhile (\<lambda>c. c \<noteq> 0) name"

partial_function (option) boot_open_loop ::
    "bios \<Rightarrow> DISK \<Rightarrow> (nat \<Rightarrow> u8 list) \<Rightarrow> nat \<Rightarrow> u8 list \<Rightarrow> fat \<Rightarrow> int option \<Rightarrow> u8 list \<Rightarrow> (fat \<times> int option) option" where
  "boot_open_loop bios disk names round name st current path =
     (if path = [] then Some (st, current)
      else do {
        (name', rest, is_last) \<leftarrow> boot_component name path;
        file \<leftarrow> current;
        (st1, found) \<leftarrow> boot_fat_find_file bios disk st file (names round) (c_string name');
        st2 \<leftarrow> fat_close st1 file;
        (case found of
           None \<Rightarrow> Some (st2, None)
         | Some entry \<Rightarrow>
             if \<not> is_last \<and> e_attribute entry AND of_bool (FILE_ATTR_DIRECTORY = 0) \<noteq> 0
             then Some (st2, None)
             else do {
               (st3, current') \<leftarrow> boot_fat_open_entry bios disk st2 entry;
               boot_open_loop bios disk names (Suc round) name' st3 current' rest
             })
      })"

text \<open>\<open>name\<close> is what the array held before, \<open>names\<close> the same for \<open>fat_name\<close> in each search.\<close>

definition boot_fat_open ::
    "bios \<Rightarrow> DISK \<Rightarrow> (nat \<Rightarrow> u8 list) \<Rightarrow> u8 list \<Rightarrow> fat \<Rightarrow> u8 list \<Rightarrow> (fat \<times> int option) option" where
  "boot_fat_open bios disk names name st path =
     boot_open_loop bios disk names 0 name st (Some ROOT_DIR_HANDLE) (if char_at path 0 = 47 then tl path else path)"

definition boot_fat_read :: "bios \<Rightarrow> DISK \<Rightarrow> fat \<Rightarrow> int \<Rightarrow> u32 \<Rightarrow> (fat \<times> u8 list) option" where
  "boot_fat_read bios disk = fat_read (boot_sectors bios disk)"

section \<open>Paging\<close>

definition page_init :: "u32 list" where
  "page_init = map (\<lambda>i. PAGE_READ_WRITE) [0..<1024]"

definition page_table :: "u32 list \<Rightarrow> u32 \<Rightarrow> int \<Rightarrow> u32 \<Rightarrow> u32 list option" where
  "page_table g_page_dir table index extraflags =
     awrite_int g_page_dir index (table OR PAGE_READ_WRITE OR PAGE_PRESENT OR extraflags)"

definition page_table_entry :: "u32 list \<Rightarrow> int \<Rightarrow> u32 \<Rightarrow> u32 list option" where
  "page_table_entry table index maddr = awrite_int table index ((maddr AND 0xFFFFF000) OR PAGE_READ_WRITE OR PAGE_PRESENT)"

text \<open>The tables of \<open>main\<close>; \<open>start_addr\<close> and \<open>table_addr\<close> are the addresses of the two arrays, the rest of
  which is zero.\<close>

definition start_page_table :: "u32 list" where
  "start_page_table = map (\<lambda>i. (word_of_nat i * 0x1000) OR PAGE_READ_WRITE OR PAGE_PRESENT) [0..<256] @ replicate 768 0"

definition kernel_page_table :: "u32 list" where
  "kernel_page_table = map (\<lambda>i. ((MEMORY_KERNEL_ADDR AND 0xFFFFF000) + word_of_nat i * 0x1000) OR PAGE_READ_WRITE OR PAGE_PRESENT) [0..<1024]"

definition boot_page_dir :: "u32 \<Rightarrow> u32 \<Rightarrow> u32 list option" where
  "boot_page_dir start_addr table_addr = do {
     dir \<leftarrow> page_table page_init start_addr 0 PAGE_ALL_ACCESS;
     page_table dir table_addr 768 0
   }"

section \<open>The memory map\<close>

text \<open>The loop, with what the last call gave; \<open>g_blocks\<close> has 256 elements.\<close>

definition MAX_BLOCKS :: nat where "MAX_BLOCKS = 256"

partial_function (option) detect_loop ::
    "bios \<Rightarrow> int \<Rightarrow> memory_block \<Rightarrow> u32 \<Rightarrow> memory_block list \<Rightarrow> memory_block list option" where
  "detect_loop bios ret block cont g_blocks =
     (if ret > 0 \<and> cont \<noteq> 0 then
        if MAX_BLOCKS \<le> length g_blocks then None
        else (case e820 bios cont of (ret', block', cont') \<Rightarrow>
          detect_loop bios ret' block' cont' (g_blocks @ [block]))
      else Some g_blocks)"

definition detect_memory :: "bios \<Rightarrow> memory_block list option" where
  "detect_memory bios = (case e820 bios 0 of (ret, block, cont) \<Rightarrow> detect_loop bios ret block cont [])"

section \<open>Loading the kernel\<close>

definition put_bytes :: "memory \<Rightarrow> u32 \<Rightarrow> u8 list \<Rightarrow> memory" where
  "put_bytes m a bs = fold (\<lambda>i m. m(a + word_of_nat i := bs ! i)) [0..<length bs] m"

partial_function (option) load_loop ::
    "bios \<Rightarrow> DISK \<Rightarrow> int \<Rightarrow> fat \<Rightarrow> memory \<Rightarrow> u32 \<Rightarrow> (fat \<times> memory) option" where
  "load_loop bios disk file st m kernel_prog_pos = do {
     (st', data) \<leftarrow> boot_fat_read bios disk st file MEMORY_BUFFER_SIZE;
     let m1 = put_bytes m MEMORY_FREE_BUFFER data;
     if data = [] then Some (st', m1)
     else (let read = word_of_nat (length data) in
       load_loop bios disk file st' (fst (memcpy m1 kernel_prog_pos MEMORY_FREE_BUFFER read)) (kernel_prog_pos + read))
   }"

datatype boot_error = Disk_failed | Fat_failed | Kernel_not_found

record BOOT_DATA =
  bd_blocks :: "memory_block list"
  bd_disk :: DISK
  bd_fat_data :: FAT_DATA
  bd_boot_device :: u8

text \<open>
  \<open>main\<close>: \<open>st\<close> and \<open>m\<close> are the memory of the FAT driver and the rest of it, \<open>names\<close> and
  \<open>name\<close> the uninitialised names of the driver. The kernel is entered with the boot data, its memory and the page
  directory; \<open>fat_data\<close> points to the driver, which the kernel finds as it was left.
\<close>

definition stage2_main ::
    "bios \<Rightarrow> (nat \<Rightarrow> u8 list) \<Rightarrow> u8 list \<Rightarrow> u32 \<times> u32 \<Rightarrow> u16 \<Rightarrow> fat \<Rightarrow> memory \<Rightarrow> (boot_error + BOOT_DATA \<times> memory \<times> u32 list) option" where
  "stage2_main bios names name tables boot_drive st m =
     (case disk_init bios (ucast boot_drive) of
        None \<Rightarrow> Some (Inl Disk_failed)
      | Some disk \<Rightarrow> do {
          (st1, ok) \<leftarrow> boot_fat_init bios disk st;
          if \<not> ok then Some (Inl Fat_failed)
          else do {
            (st2, fat_file) \<leftarrow> boot_fat_open bios disk names name st1 (ascii ''/kernel.bin'');
            (case fat_file of
               None \<Rightarrow> Some (Inl Kernel_not_found)
             | Some file \<Rightarrow> do {
                 (st3, m1) \<leftarrow> load_loop bios disk file st2 m MEMORY_KERNEL_ADDR;
                 st4 \<leftarrow> fat_close st3 file;
                 blocks \<leftarrow> detect_memory bios;
                 dir \<leftarrow> boot_page_dir (fst tables) (snd tables);
                 Some (Inr (\<lparr>bd_blocks = blocks, bd_disk = disk, bd_fat_data = fat_export_data st4, bd_boot_device = ucast boot_drive\<rparr>, m1, dir))
               })
          }
        })"

end
