(* ===== verification/BootCorrect.thy ===== *)
theory BootCorrect
  imports Boot FatSearch FloppyCorrect BuddyTheorems
begin

text \<open>
  What the boot loader does with a BIOS that reads the sectors of a disk image: the address of
  a sector, the state of the FAT driver after its initialisation, the memory the kernel is
  loaded to, the pages it is entered with, and the memory map it is given.
\<close>

section \<open>Reading the image\<close>

lemma read_tries_first:
  "read_tries n i f = (case filter (\<lambda>j. f j \<noteq> None) [i..<i + n] of [] \<Rightarrow> None | j # _ \<Rightarrow> f j)"
proof (induction n arbitrary: i)
  case (Suc n)
  have "[i..<i + Suc n] = i # [Suc i..<Suc i + n]" by (simp add: upt_conv_Cons)
  then show ?case using Suc [of "Suc i"] by (auto split: option.split)
qed simp

lemma three_tries: "read_tries 3 0 f = (case filter (\<lambda>j. f j \<noteq> None) [0, 1, 2] of [] \<Rightarrow> None | j # _ \<Rightarrow> f j)"
proof -
  have "[0..<0 + 3] = [0, 1, 2 :: nat]" by (simp add: upt_rec)
  then show ?thesis using read_tries_first [of 3 0 f] by (simp only:)
qed

lemma u32_of_u16: "unat (ucast (w :: u16) :: u32) = unat w"
  using unat_lt_16 [of w] by (simp add: unsigned_ucast_eq take_bit_nat_eq_self)

lemma unat_u16: "n < 65536 \<Longrightarrow> unat (w :: u32) = n \<Longrightarrow> unat (ucast w :: u16) = n"
  by (simp add: unsigned_ucast_eq take_bit_nat_eq_self)

text \<open>The place a block number is read from, and which of the tries counts.\<close>

lemma disk_read_sectors_place:
  assumes "disk_sectors disk \<noteq> 0" "disk_heads disk \<noteq> 0"
  defines "S \<equiv> unat (disk_sectors disk)" and "H \<equiv> unat (disk_heads disk)"
  assumes "unat lba div S div H < 2 ^ 16"
  obtains cyl sec head where "unat sec = unat lba mod S + 1" "unat head = unat lba div S mod H" "unat cyl = unat lba div S div H"
    "disk_read_sectors bios disk lba n = Some (case filter (\<lambda>i. int13_read bios i (disk_id disk) cyl sec head n \<noteq> None) [0, 1, 2] of
       [] \<Rightarrow> None | i # _ \<Rightarrow> int13_read bios i (disk_id disk) cyl sec head n)"
proof -
  let ?s = "ucast (disk_sectors disk) :: u32" and ?h = "ucast (disk_heads disk) :: u32"
  have nz: "0 < S" "0 < H" using assms(1,2) unat_eq_zero by (auto simp: S_def H_def)
  have sh: "unat ?s = S" "unat ?h = H" by (simp_all add: S_def H_def u32_of_u16)
  have lt: "S < 65536" "H < 65536" using unat_lt_16 by (simp_all add: S_def H_def)
  have "unat lba mod S + 1 \<le> S" using nz(1) by (simp add: Suc_le_eq)
  then have sec: "unat lba mod S + 1 < 65536" using lt(1) by linarith
  have m: "unat (lba mod ?s) = unat lba mod S" by (simp add: unat_mod sh)
  have "unat (lba mod ?s + 1) = unat lba mod S + 1" using sec m by (simp add: unat_word_ariths)
  then have usec: "unat (ucast (lba mod ?s + 1) :: u16) = unat lba mod S + 1" using sec unat_u16 by blast
  have d: "unat (lba div ?s) = unat lba div S" by (simp add: unat_div sh)
  have "unat lba div S mod H < H" using nz(2) by simp
  then have "unat lba div S mod H < 65536" using lt(2) by linarith
  then have uhead: "unat (ucast (lba div ?s mod ?h) :: u16) = unat lba div S mod H"
    by (rule unat_u16) (simp add: unat_mod d sh)
  have ucyl: "unat (ucast (lba div ?s div ?h) :: u16) = unat lba div S div H"
    by (rule unat_u16) (use assms(5) in \<open>simp_all add: unat_div d sh\<close>)
  show thesis
    by (rule that [OF usec uhead ucyl])
      (use assms(1,2) in \<open>simp add: disk_read_sectors_def Let_def three_tries\<close>)
qed

text \<open>A read goes to the cylinder, head and sector that the block number stands for; of the
  three tries the first that succeeds counts, and the read fails exactly when all three do.\<close>

theorem disk_read_sectors_correct:
  assumes "disk_sectors disk \<noteq> 0" "disk_heads disk \<noteq> 0" "unat lba div unat (disk_sectors disk) div unat (disk_heads disk) < 2 ^ 16"
  shows "\<exists>cyl sec head r. disk_read_sectors bios disk lba n = Some r \<and>
    (unat cyl * unat (disk_heads disk) + unat head) * unat (disk_sectors disk) + (unat sec - 1) = unat lba \<and>
    unat head < unat (disk_heads disk) \<and> 0 < unat sec \<and> unat sec \<le> unat (disk_sectors disk) \<and>
    (r = None \<longleftrightarrow> (\<forall>i < 3. int13_read bios i (disk_id disk) cyl sec head n = None)) \<and>
    (\<forall>i < 3. int13_read bios i (disk_id disk) cyl sec head n \<noteq> None \<and> (\<forall>j < i. int13_read bios j (disk_id disk) cyl sec head n = None) \<longrightarrow>
       r = int13_read bios i (disk_id disk) cyl sec head n)"
proof -
  let ?S = "unat (disk_sectors disk)" and ?H = "unat (disk_heads disk)"
  have nz: "0 < ?S" "0 < ?H" using assms(1,2) unat_eq_zero by auto
  obtain cyl sec head where p: "unat sec = unat lba mod ?S + 1" "unat head = unat lba div ?S mod ?H" "unat cyl = unat lba div ?S div ?H"
    "disk_read_sectors bios disk lba n = Some (case filter (\<lambda>i. int13_read bios i (disk_id disk) cyl sec head n \<noteq> None) [0, 1, 2] of
       [] \<Rightarrow> None | i # _ \<Rightarrow> int13_read bios i (disk_id disk) cyl sec head n)"
    by (rule disk_read_sectors_place [OF assms, where bios = bios and n = n])
  let ?f = "\<lambda>i. int13_read bios i (disk_id disk) cyl sec head n"
  let ?r = "case filter (\<lambda>i. ?f i \<noteq> None) [0, 1, 2] of [] \<Rightarrow> None | i # _ \<Rightarrow> ?f i"
  have three: "(\<forall>i < 3. P i) \<longleftrightarrow> P 0 \<and> P 1 \<and> P 2" for P :: "nat \<Rightarrow> bool"
    by (auto simp: less_Suc_eq numeral_eq_Suc)
  have "(unat cyl * ?H + unat head) * ?S + (unat sec - 1) = unat lba" by (simp add: p(1-3))
  moreover have "unat head < ?H" "0 < unat sec" "unat sec \<le> ?S" using nz by (simp_all add: p(1,2) Suc_le_eq)
  moreover have "?r = None \<longleftrightarrow> (\<forall>i < 3. ?f i = None)" unfolding three by (auto split: option.split)
  moreover have "\<forall>i < 3. ?f i \<noteq> None \<and> (\<forall>j < i. ?f j = None) \<longrightarrow> ?r = ?f i"
    unfolding three by (auto simp: less_Suc_eq numeral_2_eq_2)
  ultimately show ?thesis using p(4)
    by - (rule exI [of _ cyl], rule exI [of _ sec], rule exI [of _ head], rule exI [of _ ?r], intro conjI)
qed

text \<open>
  A BIOS that serves the sectors of an image, at least in one of three tries; a read must not
  leave the track.
\<close>

definition serves :: "bios \<Rightarrow> DISK \<Rightarrow> u8 list list \<Rightarrow> bool" where
  "serves bios disk img \<longleftrightarrow>
     (let S = unat (disk_sectors disk); H = unat (disk_heads disk) in
      0 < S \<and> 0 < H \<and> length img \<le> 2 ^ 16 * (H * S) \<and> length img < 2 ^ 32 \<and> (\<forall>s \<in> set img. length s = 512) \<and>
      (\<forall>cyl head sec n. 0 < unat sec \<and> unat head < H \<and> 0 < unat n \<and> unat sec + unat n \<le> S + 1 \<and>
          (unat cyl * H + unat head) * S + (unat sec - 1) + unat n \<le> length img \<longrightarrow>
        (\<forall>i d. int13_read bios i (disk_id disk) cyl sec head n = Some d \<longrightarrow>
           d = concat (take (unat n) (drop ((unat cyl * H + unat head) * S + (unat sec - 1)) img))) \<and>
        (\<exists>i < 3. int13_read bios i (disk_id disk) cyl sec head n \<noteq> None)))"

lemma serves_read:
  assumes "serves bios disk img" "unat lba + unat n \<le> length img" "0 < unat n"
    "unat lba mod unat (disk_sectors disk) + unat n \<le> unat (disk_sectors disk)"
  shows "disk_read_sectors bios disk lba n = Some (Some (concat (take (unat n) (drop (unat lba) img))))"
proof -
  let ?S = "unat (disk_sectors disk)" and ?H = "unat (disk_heads disk)"
  have s: "0 < ?S" "0 < ?H" "length img \<le> 2 ^ 16 * (?H * ?S)" using assms(1) by (simp_all add: serves_def Let_def)
  then have nz: "disk_sectors disk \<noteq> 0" "disk_heads disk \<noteq> 0" by auto
  have "unat lba < 2 ^ 16 * (?H * ?S)" using s(3) assms(2,3) by linarith
  then have "unat lba div ?S div ?H < 2 ^ 16"
    by (simp add: div_mult2_eq [symmetric] less_mult_imp_div_less mult.commute mult.left_commute)
  then obtain cyl sec head where p: "unat sec = unat lba mod ?S + 1" "unat head = unat lba div ?S mod ?H" "unat cyl = unat lba div ?S div ?H"
    "disk_read_sectors bios disk lba n = Some (case filter (\<lambda>i. int13_read bios i (disk_id disk) cyl sec head n \<noteq> None) [0, 1, 2] of
       [] \<Rightarrow> None | i # _ \<Rightarrow> int13_read bios i (disk_id disk) cyl sec head n)"
    by (rule disk_read_sectors_place [OF nz, where bios = bios and n = n])
  let ?f = "\<lambda>i. int13_read bios i (disk_id disk) cyl sec head n" and ?d = "concat (take (unat n) (drop (unat lba) img))"
  have place: "(unat cyl * ?H + unat head) * ?S + (unat sec - 1) = unat lba" by (simp add: p(1-3))
  have "0 < unat sec \<and> unat head < ?H \<and> 0 < unat n \<and> unat sec + unat n \<le> ?S + 1 \<and>
      (unat cyl * ?H + unat head) * ?S + (unat sec - 1) + unat n \<le> length img"
    unfolding place using s assms(2-4) by (simp add: p(1,2))
  then have "(\<forall>i d. ?f i = Some d \<longrightarrow> d = ?d) \<and> (\<exists>i < 3. ?f i \<noteq> None)"
    using assms(1) unfolding serves_def Let_def by (metis place)
  then have f: "\<And>i. ?f i \<noteq> None \<Longrightarrow> ?f i = Some ?d" "\<exists>i < 3. ?f i \<noteq> None" by auto
  have "filter (\<lambda>i. ?f i \<noteq> None) [0, 1, 2] \<noteq> []" using f(2) by (auto simp: less_Suc_eq numeral_eq_Suc)
  then obtain i js where i: "filter (\<lambda>i. ?f i \<noteq> None) [0, 1, 2] = i # js" by (meson list.exhaust)
  then have "i \<in> set (filter (\<lambda>i. ?f i \<noteq> None) [0, 1, 2])" by simp
  then have "?f i = Some ?d" using f(1) [of i] unfolding set_filter by blast
  then show ?thesis using p(4) i by simp
qed

lemma serves_sector:
  assumes "serves bios disk img" "k < length img"
  shows "boot_sectors bios disk (word_of_nat k) = Some (img ! k)" "disk_read_sectors bios disk (word_of_nat k) 1 = Some (Some (img ! k))"
proof -
  have k: "unat (word_of_nat k :: u32) = k" using assms by (simp add: serves_def Let_def unat_of_nat take_bit_nat_eq_self)
  have "take 1 (drop k img) = [img ! k]" using assms(2) by (simp add: Cons_nth_drop_Suc [symmetric])
  moreover have "k mod unat (disk_sectors disk) + 1 \<le> unat (disk_sectors disk)"
    using assms(1) by (simp add: serves_def Let_def Suc_le_eq)
  ultimately show r: "disk_read_sectors bios disk (word_of_nat k) 1 = Some (Some (img ! k))"
    using serves_read [OF assms(1), of "word_of_nat k" 1] assms(2) k by simp
  show "boot_sectors bios disk (word_of_nat k) = Some (img ! k)" by (simp add: boot_sectors_def r)
qed

section \<open>The state of the driver\<close>

text \<open>
  An image with the file system the driver expects: the boot sector describes sectors of 512
  bytes and a table that fits its memory and lies in one track; the root directory and its
  sectors are inside the image.
\<close>

definition root_lba :: "bpb \<Rightarrow> nat" where
  "root_lba b = unat (res_sectors b) + unat (fat_sectors b) * unat (fats b)"

definition root_size :: "bpb \<Rightarrow> nat" where "root_size b = 32 * unat (dir_entries b)"

definition root_length :: "bpb \<Rightarrow> nat" where "root_length b = (root_size b + 511) div 512"

definition root_sectors :: "bpb \<Rightarrow> u8 list list \<Rightarrow> u8 list list" where
  "root_sectors b img = take (root_length b) (drop (root_lba b) img)"

definition fat_table :: "bpb \<Rightarrow> u8 list list \<Rightarrow> u8 list" where
  "fat_table b img = concat (take (unat (fat_sectors b)) (drop (unat (res_sectors b)) img))"

definition fat_image :: "DISK \<Rightarrow> bpb \<Rightarrow> u8 list list \<Rightarrow> bool" where
  "fat_image disk b img \<longleftrightarrow> img \<noteq> [] \<and> bpb_of (img ! 0) = Some b \<and> sector_bytes b = 512 \<and> 0 < unat (dir_entries b) \<and>
     0 < unat (fat_sectors b) \<and> unat (fat_sectors b) \<le> 115 \<and>
     unat (res_sectors b) mod unat (disk_sectors disk) + unat (fat_sectors b) \<le> unat (disk_sectors disk) \<and>
     unat (res_sectors b) + unat (fat_sectors b) \<le> length img \<and> root_lba b + root_length b \<le> length img"

lemma unat_u8: "unat (ucast (w :: u8) :: u32) = unat w"
proof -
  have "unat w < 2 ^ 8" using unsigned_less [of w, where 'a = nat] by simp
  then show ?thesis by (simp add: unsigned_ucast_eq take_bit_nat_eq_self)
qed

lemma root_lba_word: "ucast (res_sectors b) + ucast (fat_sectors b) * ucast (fats b) = (word_of_nat (root_lba b) :: u32)"
proof -
  have "(ucast (res_sectors b) :: u32) = word_of_nat (unat (res_sectors b))" "(ucast (fat_sectors b) :: u32) = word_of_nat (unat (fat_sectors b))"
    "(ucast (fats b) :: u32) = word_of_nat (unat (fats b))"
    by simp_all
  then show ?thesis by (simp add: root_lba_def)
qed

lemma root_size_word: "SIZEOF_FAT_DIR_ENTRY * ucast (dir_entries b) = (word_of_nat (root_size b) :: u32)"
proof -
  have "(ucast (dir_entries b) :: u32) = word_of_nat (unat (dir_entries b))" by simp
  then show ?thesis by (simp add: root_size_def SIZEOF_FAT_DIR_ENTRY_def)
qed

lemma root_size_bounds: "unat (word_of_nat (root_size b) :: u32) = root_size b" "root_size b < 2 ^ 21"
proof -
  show "root_size b < 2 ^ 21" using unat_lt_16 [of "dir_entries b"] by (simp add: root_size_def)
  then show "unat (word_of_nat (root_size b) :: u32) = root_size b" by (simp add: unat_of_nat take_bit_nat_eq_self)
qed

lemma root_length_word: "(511 + word_of_nat (root_size b)) div 512 = (word_of_nat (root_length b) :: u32)"
proof -
  let ?s = "word_of_nat (root_size b) :: u32"
  have "root_size b < 2097152" using root_size_bounds(2) [of b] by simp
  then have b: "511 + root_size b < 4294967296" by linarith
  have "511 + ?s = word_of_nat (511 + root_size b)" by simp
  then have "unat (511 + ?s) = 511 + root_size b"
    using b by (simp add: unat_of_nat take_bit_nat_eq_self del: of_nat_add)
  then have u: "unat ((511 + ?s) div 512) = root_length b"
    unfolding unat_div root_length_def by (simp only: add.commute [of 511]) simp
  have "(511 + ?s) div 512 = word_of_nat (unat ((511 + ?s) div 512))" by simp
  then show ?thesis by (simp only: u)
qed

lemma root_length_pos: "fat_image disk b img \<Longrightarrow> 0 < root_length b"
  by (simp add: fat_image_def root_length_def root_size_def div_greater_zero_iff)

text \<open>The state after the initialisation.\<close>

definition booted_fat :: "bpb \<Rightarrow> u8 list list \<Rightarrow> fat \<Rightarrow> fat" where
  "booted_fat b img st = st\<lparr>cluster_sectors := bpb_cluster_sectors b,
     g_fat := fat_table b img @ drop (length (fat_table b img)) (g_fat st),
     root_dir := (root_descriptor (word_of_nat (root_lba b)) (word_of_nat (root_size b)) (root_dir st))\<lparr>d_buffer := img ! root_lba b\<rparr>,
     g_data_lba := word_of_nat (root_lba b + root_length b),
     opened_files := map (\<lambda>d. d\<lparr>d_opened := False\<rparr>) (opened_files st)\<rparr>"

lemma boot_fat_init_run:
  assumes "serves bios disk img" "fat_image disk b img"
  shows "boot_fat_init bios disk st = Some (booted_fat b img st, True)"
proof -
  note i = assms(2) [unfolded fat_image_def]
  have r0: "disk_read_sectors bios disk 0 1 = Some (Some (img ! 0))" using serves_sector(2) [OF assms(1), of 0] i by simp
  have "unat (sector_bytes b) = 512" "unat (fat_sectors b) \<le> 115" using i by simp_all
  then have m: "unat (ucast (sector_bytes b) * ucast (fat_sectors b) :: u32) = 512 * unat (fat_sectors b)"
    by (simp add: unat_word_ariths u32_of_u16)
  then have "unat (SIZEOF_FAT_DRIVER + ucast (sector_bytes b) * ucast (fat_sectors b)) = 6496 + 512 * unat (fat_sectors b)"
    using i by (simp add: unat_word_ariths SIZEOF_FAT_DRIVER_def)
  then have small: "\<not> MEMORY_FAT_SIZE \<le> SIZEOF_FAT_DRIVER + ucast (sector_bytes b) * ucast (fat_sectors b)"
    using i by (simp add: word_le_nat_alt MEMORY_FAT_SIZE_def)
  have n: "unat (ucast (fat_sectors b) :: u8) = unat (fat_sectors b)"
    using i by (simp add: unsigned_ucast_eq take_bit_nat_eq_self)
  have r1: "disk_read_sectors bios disk (ucast (res_sectors b)) (ucast (fat_sectors b)) = Some (Some (fat_table b img))"
    using serves_read [OF assms(1), of "ucast (res_sectors b)" "ucast (fat_sectors b)"] i n by (simp add: u32_of_u16 fat_table_def)
  have "0 < root_length b" using root_length_pos [OF assms(2)] .
  then have r2: "disk_read_sectors bios disk (word_of_nat (root_lba b)) 1 = Some (Some (img ! root_lba b))"
    using serves_sector(2) [OF assms(1)] i by simp
  show ?thesis
    unfolding boot_fat_init_def r0 using i small r1 r2
    by (simp add: Let_def root_lba_word booted_fat_def) (simp add: root_size_word root_length_word)
qed

lemma booted_root_view:
  assumes "serves bios disk img" "fat_image disk b img"
  shows "root_view (boot_sectors bios disk) (booted_fat b img st) (root_sectors b img) 0 (root_size b)"
proof -
  note i = assms(2) [unfolded fat_image_def]
  have s: "\<forall>s \<in> set img. length s = 512" "length img < 2 ^ 32" using assms(1) by (simp_all add: serves_def Let_def)
  have len: "length (root_sectors b img) = root_length b" using i by (auto simp: root_sectors_def min_def)
  have pos: "0 < root_length b" "0 < root_size b" using i root_length_pos [OF assms(2)] by (simp_all add: root_size_def)
  have sz: "root_size b \<le> 512 * root_length b" by (simp add: root_length_def)
  have "root_size b < 2097152" using root_size_bounds(2) [of b] by simp
  then have up: "512 * root_length b < 2 ^ 32" unfolding root_length_def by simp
  have "root_sectors b img ! 0 = img ! root_lba b" using i pos by (simp add: root_sectors_def)
  moreover have "boot_sectors bios disk (word_of_nat (root_lba b) + word_of_nat k) = Some (root_sectors b img ! k)"
    if "k < root_length b" for k
    using serves_sector(1) [OF assms(1), of "root_lba b + k"] that i by (simp add: root_sectors_def)
  moreover have "\<forall>s \<in> set (root_sectors b img). length s = 512"
    using s(1) by (auto simp: root_sectors_def dest: in_set_takeD in_set_dropD)
  ultimately have r: "root_ok (boot_sectors bios disk, booted_fat b img st, word_of_nat (root_lba b), root_sectors b img)"
    "root_at (boot_sectors bios disk, booted_fat b img st, word_of_nat (root_lba b), root_sectors b img) (root_dir (booted_fat b img st)) 0"
    using len pos up by (simp_all add: root_ok_def root_at_def booted_fat_def root_descriptor_def)
  then have "root.at_byte (boot_sectors bios disk, booted_fat b img st, word_of_nat (root_lba b), root_sectors b img)
      (root_dir (booted_fat b img st)) 0"
    by (simp add: root.at_byte_def root.total_def) (simp add: booted_fat_def root_descriptor_def)
  moreover have "32 dvd root_size b" by (simp add: root_size_def)
  ultimately show ?thesis using r(1) len pos sz root_size_bounds(1) [of b]
    by (simp add: root_view_def) (simp add: booted_fat_def root_descriptor_def)
qed

text \<open>With a BIOS that serves an image of a FAT12 file system \<open>fat_init\<close> succeeds: the table is
  in memory, the data area starts behind the root directory, the root directory is open at its
  first entry, and no other file is open.\<close>

theorem boot_fat_init_correct:
  assumes "serves bios disk img" "fat_image disk b img"
  shows "\<exists>st'. boot_fat_init bios disk st = Some (st', True) \<and>
    take (512 * unat (fat_sectors b)) (g_fat st') = fat_table b img \<and> cluster_sectors st' = bpb_cluster_sectors b \<and>
    g_data_lba st' = word_of_nat (root_lba b + (32 * unat (dir_entries b) + 511) div 512) \<and>
    root_view (boot_sectors bios disk) st' (root_sectors b img) 0 (32 * unat (dir_entries b)) \<and>
    length (opened_files st') = length (opened_files st) \<and> (\<forall>d \<in> set (opened_files st'). \<not> d_opened d)"
proof -
  have s: "\<forall>s \<in> set img. length s = 512" using assms(1) by (simp add: serves_def Let_def)
  have "length (fat_table b img) = 512 * unat (fat_sectors b)"
  proof -
    have "\<forall>s \<in> set (take (unat (fat_sectors b)) (drop (unat (res_sectors b)) img)). length s = 512"
      using s by (auto dest: in_set_takeD in_set_dropD)
    then have "length (fat_table b img) = 512 * length (take (unat (fat_sectors b)) (drop (unat (res_sectors b)) img))"
      unfolding fat_table_def by (intro length_concat_blocks) blast
    then show ?thesis using assms(2) by (auto simp: fat_image_def min_def)
  qed
  then show ?thesis using boot_fat_init_run [OF assms, of st] booted_root_view [OF assms, of st]
    by (simp add: booted_fat_def root_size_def root_length_def)
qed

section \<open>Loading a file\<close>

lemma put_bytes_at:
  assumes "fits_memory a (length bs)"
  shows "bytes_at (put_bytes m a bs) a (length bs) = bs" "same_on (put_bytes m a bs) m (- range_of a (length bs))"
proof -
  have f: "(\<forall>i < k. fold (\<lambda>i m. m(a + word_of_nat i := bs ! i)) [0..<k] m (a + word_of_nat i) = bs ! i) \<and>
      (\<forall>x. (\<forall>i < k. x \<noteq> a + word_of_nat i) \<longrightarrow> fold (\<lambda>i m. m(a + word_of_nat i := bs ! i)) [0..<k] m x = m x)"
    if "k \<le> length bs" for k
    using that
  proof (induction k)
    case (Suc k)
    have "a + word_of_nat i \<noteq> a + word_of_nat k" if "i < k" for i
      using that Suc.prems assms u32_add_inj [of i k a] by (simp add: fits_memory_def)
    then show ?case using Suc by (auto simp: less_Suc_eq)
  qed simp
  show "bytes_at (put_bytes m a bs) a (length bs) = bs"
  proof (rule nth_equalityI)
    fix i assume i: "i < length (bytes_at (put_bytes m a bs) a (length bs))"
    show "bytes_at (put_bytes m a bs) a (length bs) ! i = bs ! i"
      using i f [of "length bs"] by (simp add: bytes_at_nth put_bytes_def)
  qed simp
  show "same_on (put_bytes m a bs) m (- range_of a (length bs))"
    unfolding same_on_def
  proof (intro allI impI)
    fix x :: u32 assume "unat x \<in> - range_of a (length bs)"
    then have "\<forall>i < length bs. x \<noteq> a + word_of_nat i" using not_in_range [OF _ assms] by blast
    then show "put_bytes m a bs x = m x" using f [of "length bs"] by (simp add: put_bytes_def)
  qed
qed

lemma same_on_trans: "same_on m1 m2 A \<Longrightarrow> same_on m2 m3 A \<Longrightarrow> same_on m1 m3 A"
  by (simp add: same_on_def)

lemma bytes_at_add:
  "bytes_at m a (n + k) = bytes_at m a n @ bytes_at m (a + word_of_nat n) k"
  by (induction n arbitrary: a) (simp_all add: ac_simps)

lemma take_split: "k \<le> n \<Longrightarrow> take k xs @ take (n - k) (drop k xs) = take n xs"
  using take_add [of k "n - k" xs] by simp

text \<open>The open files but \<open>h\<close> are as they were.\<close>

definition others_kept :: "int \<Rightarrow> fat \<Rightarrow> fat \<Rightarrow> bool" where
  "others_kept h st' st \<longleftrightarrow> length (opened_files st') = length (opened_files st) \<and>
     (\<forall>j. j \<noteq> nat h \<longrightarrow> opened_files st' ! j = opened_files st ! j)"

text \<open>One file read of the loop fills the buffer at \<open>MEMORY_FREE_BUFFER\<close>.\<close>

lemma buffer_filled:
  assumes "file_view sectors st h cls secs p sz" "k = min 0x10000 (sz - p)"
    "data = take k (drop p (concat secs))"
  shows "length data = k"
    "bytes_at (put_bytes m MEMORY_FREE_BUFFER data) MEMORY_FREE_BUFFER k = data"
    "same_on (put_bytes m MEMORY_FREE_BUFFER data) m (- range_of 0x30000 0x10000)"
proof -
  have v: "p \<le> sz" "sz \<le> 512 * length secs" "\<forall>s \<in> set secs. length s = 512"
    using assms(1) by (auto simp: file_view_def chain_ok_def Let_def)
  have "length (concat secs) = 512 * length secs" by (rule length_concat_blocks) (use v(3) in blast)
  then show len: "length data = k" using v(1,2) assms(2,3) by simp
  have fb: "fits_memory MEMORY_FREE_BUFFER (length data)"
    using len assms(2) by (simp add: fits_memory_def MEMORY_FREE_BUFFER_def)
  have "range_of MEMORY_FREE_BUFFER (length data) \<subseteq> range_of 0x30000 0x10000"
    using len assms(2) by (auto simp: range_of_def MEMORY_FREE_BUFFER_def)
  then show "same_on (put_bytes m MEMORY_FREE_BUFFER data) m (- range_of 0x30000 0x10000)"
    by (intro same_on_mono [OF put_bytes_at(2) [OF fb]]) auto
  show "bytes_at (put_bytes m MEMORY_FREE_BUFFER data) MEMORY_FREE_BUFFER k = data"
    using put_bytes_at(1) [OF fb, of m] len by simp
qed

lemma load_reads:
  assumes "file_view (boot_sectors bios disk) st h cls secs p sz" "k = min 0x10000 (sz - p)"
  obtains st1 where "boot_fat_read bios disk st h MEMORY_BUFFER_SIZE = Some (st1, take k (drop p (concat secs)))"
    "file_view (boot_sectors bios disk) st1 h cls secs (p + k) sz" "others_kept h st1 st"
  using fat_read_run [OF assms(1), of MEMORY_BUFFER_SIZE] that assms(2)
  by (auto simp: boot_fat_read_def others_kept_def MEMORY_BUFFER_SIZE_def)

text \<open>The loop ends on the first read that returns nothing.\<close>

lemma load_loop_end:
  assumes "file_view (boot_sectors bios disk) st h cls secs sz sz"
  shows "\<exists>st' m'. load_loop bios disk h st m pos = Some (st', m') \<and>
    file_view (boot_sectors bios disk) st' h cls secs sz sz \<and> others_kept h st' st \<and>
    same_on m' m (- range_of 0x30000 0x10000)"
proof -
  obtain st1 where "boot_fat_read bios disk st h MEMORY_BUFFER_SIZE = Some (st1, [])"
    and st1: "file_view (boot_sectors bios disk) st1 h cls secs sz sz" "others_kept h st1 st"
    using load_reads [OF assms refl] by auto
  then have "load_loop bios disk h st m pos = Some (st1, put_bytes m MEMORY_FREE_BUFFER [])"
    by (subst load_loop.simps) simp
  moreover have "same_on (put_bytes m MEMORY_FREE_BUFFER []) m (- range_of 0x30000 0x10000)"
    by (rule buffer_filled(3) [OF assms refl]) simp
  ultimately show ?thesis using st1 by blast
qed

text \<open>Otherwise a round copies what was read to \<open>pos\<close> and goes on behind it.\<close>

lemma load_loop_round:
  assumes view: "file_view (boot_sectors bios disk) st h cls secs p sz" and k: "k = min 0x10000 (sz - p)" "p < sz"
    and pos: "0x40000 \<le> unat pos" "unat pos + k < 2 ^ 32"
  obtains st1 m2 where "load_loop bios disk h st m pos = load_loop bios disk h st1 m2 (pos + word_of_nat k)"
    "file_view (boot_sectors bios disk) st1 h cls secs (p + k) sz" "others_kept h st1 st"
    "bytes_at m2 pos k = take k (drop p (concat secs))"
    "same_on m2 m (- (range_of 0x30000 0x10000 \<union> range_of pos k))"
proof -
  define data where "data = take k (drop p (concat secs))"
  obtain st1 where st1: "boot_fat_read bios disk st h MEMORY_BUFFER_SIZE = Some (st1, data)"
    "file_view (boot_sectors bios disk) st1 h cls secs (p + k) sz" "others_kept h st1 st"
    using load_reads [OF view k(1)] unfolding data_def by blast
  define m1 where "m1 = put_bytes m MEMORY_FREE_BUFFER data"
  note filled = buffer_filled(1) [OF view k(1) data_def] buffer_filled(2,3) [OF view k(1) data_def, of m, folded m1_def]
  have b: "0 < k" "k \<le> 0x10000" using k by auto
  have w: "unat (word_of_nat k :: u32) = k" using b(2) by (simp add: unat_of_nat take_bit_nat_eq_self)
  define m2 where "m2 = fst (memcpy m1 pos MEMORY_FREE_BUFFER (word_of_nat k))"
  have disj: "range_of pos k \<inter> range_of MEMORY_FREE_BUFFER k = {}"
    using pos(1) b(2) by (auto simp: range_of_def MEMORY_FREE_BUFFER_def)
  have fits: "fits_memory pos k" "fits_memory MEMORY_FREE_BUFFER k"
    using pos(2) b(2) by (simp_all add: fits_memory_def MEMORY_FREE_BUFFER_def)
  note c = memcpy_ranges [of pos "word_of_nat k" MEMORY_FREE_BUFFER m1, unfolded w, OF fits disj, folded m2_def]
  have "data \<noteq> []" using filled(1) b(1) by auto
  then have "load_loop bios disk h st m pos = load_loop bios disk h st1
      (fst (memcpy m1 pos MEMORY_FREE_BUFFER (word_of_nat (length data)))) (pos + word_of_nat (length data))"
    by (subst load_loop.simps) (simp add: st1(1) m1_def [symmetric] Let_def)
  then have step: "load_loop bios disk h st m pos = load_loop bios disk h st1 m2 (pos + word_of_nat k)"
    by (simp only: filled(1) m2_def)
  have "bytes_at m2 pos k = data" using c(1) filled(2) by simp
  moreover have "same_on m2 m (- (range_of 0x30000 0x10000 \<union> range_of pos k))"
    by (rule same_on_trans [OF same_on_mono [OF c(2)] same_on_mono [OF filled(3)]]) auto
  ultimately show ?thesis using that [OF step st1(2,3)] by (simp add: data_def)
qed

lemma load_loop_run:
  assumes "file_view (boot_sectors bios disk) st h cls secs p sz" "0x40000 \<le> unat pos" "unat pos + (sz - p) < 2 ^ 32"
  shows "\<exists>st' m'. load_loop bios disk h st m pos = Some (st', m') \<and>
    bytes_at m' pos (sz - p) = take (sz - p) (drop p (concat secs)) \<and>
    file_view (boot_sectors bios disk) st' h cls secs sz sz \<and> others_kept h st' st \<and>
    same_on m' m (- (range_of 0x30000 0x10000 \<union> range_of pos (sz - p)))"
  using assms
proof (induction "sz - p" arbitrary: p st m pos rule: less_induct)
  case less
  have "p \<le> sz" using less.prems(1) by (auto simp: file_view_def chain_ok_def Let_def)
  then consider "p = sz" | "p < sz" by linarith
  then show ?case
  proof cases
    case 1
    then show ?thesis using load_loop_end [of bios disk st h cls secs sz m pos] less.prems(1)
      by (auto simp: range_of_def)
  next
    case 2
    define k where "k = min 0x10000 (sz - p)"
    have k: "0 < k" "k \<le> sz - p" using 2 by (auto simp: k_def)
    have bound: "unat pos + k < 2 ^ 32" using k(2) less.prems(3) by simp
    have up: "unat (pos + word_of_nat k) = unat pos + k" by (rule unat_add_nat [OF bound])
    obtain st1 m2 where s: "load_loop bios disk h st m pos = load_loop bios disk h st1 m2 (pos + word_of_nat k)"
      "file_view (boot_sectors bios disk) st1 h cls secs (p + k) sz" "others_kept h st1 st"
      "bytes_at m2 pos k = take k (drop p (concat secs))"
      "same_on m2 m (- (range_of 0x30000 0x10000 \<union> range_of pos k))"
      using load_loop_round [OF less.prems(1) k_def 2 less.prems(2) bound] by blast
    have pre: "sz - (p + k) < sz - p" "0x40000 \<le> unat (pos + word_of_nat k)"
      "unat (pos + word_of_nat k) + (sz - (p + k)) < 2 ^ 32"
      using k less.prems(2,3) unfolding up by simp_all
    obtain st' m' where r: "load_loop bios disk h st1 m2 (pos + word_of_nat k) = Some (st', m')"
      "bytes_at m' (pos + word_of_nat k) (sz - (p + k)) = take (sz - (p + k)) (drop (p + k) (concat secs))"
      "file_view (boot_sectors bios disk) st' h cls secs sz sz" "others_kept h st' st1"
      "same_on m' m2 (- (range_of 0x30000 0x10000 \<union> range_of (pos + word_of_nat k) (sz - (p + k))))"
      using less.hyps [OF pre(1) s(2) pre(2,3)] by blast
    have "range_of pos k \<subseteq> - (range_of 0x30000 0x10000 \<union> range_of (pos + word_of_nat k) (sz - (p + k)))"
      using up less.prems(2) by (auto simp: range_of_def k_def)
    then have "bytes_at m' pos k = take k (drop p (concat secs))"
      using same_on_bytes_at [OF r(5), of pos k] s(4) bound by (simp add: fits_memory_def)
    then have "bytes_at m' pos (k + (sz - (p + k))) = take (sz - p) (drop p (concat secs))"
      using r(2) take_split [OF k(2), of "drop p (concat secs)"] by (simp add: bytes_at_add add.commute)
    moreover have "k + (sz - (p + k)) = sz - p" using k(2) by simp
    ultimately have b: "bytes_at m' pos (sz - p) = take (sz - p) (drop p (concat secs))" by simp
    let ?A = "- (range_of 0x30000 0x10000 \<union> range_of pos (sz - p))"
    have "same_on m' m2 ?A" by (rule same_on_mono [OF r(5)]) (use up k in \<open>auto simp: range_of_def\<close>)
    moreover have "same_on m2 m ?A" by (rule same_on_mono [OF s(5)]) (use k in \<open>auto simp: range_of_def\<close>)
    ultimately have "same_on m' m ?A" by (rule same_on_trans)
    then show ?thesis using s(1,3) r(1,3,4) b by (simp add: others_kept_def)
  qed
qed

section \<open>Booting\<close>

lemma geometry_root_dir [simp]:
  "fat_next_cluster (st\<lparr>root_dir := d\<rparr>) = fat_next_cluster st"
  "cluster_to_lba (st\<lparr>root_dir := d\<rparr>) = cluster_to_lba st"
  "per_cluster (st\<lparr>root_dir := d\<rparr>) = per_cluster st"
  by (simp_all add: fun_eq_iff fat_next_cluster_def cluster_to_lba_def per_cluster_def Let_def)

lemma chain_ok_root_dir: "chain_ok (disk, st\<lparr>root_dir := d\<rparr>, cls, secs) = chain_ok (disk, st, cls, secs)"
  by (simp add: chain_ok_def)

lemma fat_close_root_only: "\<exists>d. fat_close st ROOT_DIR_HANDLE = Some (st\<lparr>root_dir := d\<rparr>)"
  by (auto simp: fat_close_def)

text \<open>Opening a file of the root directory whose name is found there.\<close>

lemma open_root_file:
  assumes v: "root_view (boot_sectors bios disk) st dsecs 0 rsz" and base: "length base \<le> 8" "46 \<notin> set base" "0 \<notin> set base" "47 \<notin> set base"
    and ext: "length ext = 3" "0 \<notin> set ext" "47 \<notin> set ext" and g: "length (names 0) = 12"
    and found: "List.find (\<lambda>e. e_name e = map upper base @ replicate (8 - length base) 32 @ map upper ext) (entries_of dsecs rsz) = Some e"
    and ok: "chain_ok (boot_sectors bios disk, st, cls, secs)" "cls \<noteq> []" "hd cls = ucast (e_first_cluster_low e) + push_bit 16 (ucast (e_first_cluster_high e))"
    and e: "e_attribute e AND FILE_ATTR_DIRECTORY = 0" "unat (e_size e) \<le> 512 * length secs"
    and op: "length (opened_files st) = MAX_FILE_HANDLE" "\<exists>d \<in> set (opened_files st). \<not> d_opened d"
    and buf: "length name = MAX_PATH_SIZE"
  shows "\<exists>st' h. boot_fat_open bios disk names name st (47 # base @ 46 # ext) = Some (st', Some h) \<and>
    file_view (boot_sectors bios disk) st' h cls secs 0 (unat (e_size e)) \<and> others_kept h st' st"
proof -
  let ?path = "base @ 46 # ext" and ?dsk = "boot_sectors bios disk"
  have ne: "x = 47" if "sint x = 47" for x :: u8
  proof -
    have "word_of_int (sint x) = (47 :: u8)" using that by simp
    then show ?thesis by simp
  qed
  have "47 \<notin> sint ` set ?path"
  proof
    assume "47 \<in> sint ` set ?path"
    then obtain x where "x \<in> set ?path" "sint x = 47" by force
    then have "47 \<in> set ?path" using ne [of x] by simp
    then show False using base(4) ext(3) by simp
  qed
  have delim: "find_char 47 ?path = None"
    using find_char_none [of 47 ?path] \<open>47 \<notin> sint ` set ?path\<close> by blast
  have fn: "take 11 (fat_name_of (names 0) ?path) = map upper base @ replicate (8 - length base) 32 @ map upper ext"
    using fat_name_ext [OF base(1-3) _ ext(2) g] ext(1) by simp
  obtain d1 where s: "fat_find_file ?dsk st ROOT_DIR_HANDLE (names 0) ?path = Some (st\<lparr>root_dir := d1\<rparr>, Some e)"
    using find_loop_root [OF v length_fat_name_of [OF g], of ?path] found unfolding fat_find_file_def fn by auto
  define st1 where "st1 = st\<lparr>root_dir := d1\<rparr>"
  obtain d2 where d2: "fat_close st1 ROOT_DIR_HANDLE = Some (st1\<lparr>root_dir := d2\<rparr>)" using fat_close_root_only by blast
  let ?st2 = "st1\<lparr>root_dir := d2\<rparr>"
  have ok2: "chain_ok (boot_sectors bios disk, ?st2, cls, secs)" using ok(1) by (simp add: st1_def chain_ok_root_dir)
  obtain h st' where o: "fat_open_entry ?dsk ?st2 e = Some (st', Some h)" "file_view ?dsk st' h cls secs 0 (unat (e_size e))"
    "others_kept h st' st"
    using fat_open_entry_correct [OF _ ok2 ok(2,3) e] op by (auto simp: st1_def others_kept_def split: if_splits)
  have len: "length ?path \<le> 12" using base(1) ext(1) by simp
  define name' where "name' = (?path @ drop (length ?path) name)[length ?path := 0]"
  have "?path \<noteq> [] \<and> length ?path < length name" using len buf by (simp add: MAX_PATH_SIZE_def)
  then have "name' = ?path @ 0 # drop (Suc (length ?path)) name"
    by (simp add: name'_def list_update_append Cons_nth_drop_Suc [symmetric] del: append_assoc)
  moreover have "\<forall>c \<in> set ?path. c \<noteq> 0" using base(3) ext(2) by auto
  ultimately have str: "c_string name' = ?path" by (simp add: c_string_def takeWhile_append2)
  have comp: "boot_component name ?path = Some (name', [], True)"
    using delim len by (simp add: boot_component_def MAX_PATH_SIZE_def name'_def)
  have last: "boot_open_loop bios disk names (Suc 0) name' st' (Some h) [] = Some (st', Some h)"
    by (subst boot_open_loop.simps) simp
  have "boot_open_loop bios disk names 0 name st (Some ROOT_DIR_HANDLE) ?path = Some (st', Some h)"
    using s [folded st1_def] d2 o(1) last str
    by (subst boot_open_loop.simps) (simp add: comp boot_fat_find_file_def boot_fat_open_entry_def)
  then have "boot_fat_open bios disk names name st (47 # ?path) = Some (st', Some h)" by (simp add: boot_fat_open_def char_at_def)
  then show ?thesis using o(2,3) by blast
qed

text \<open>The search only asks whether \<open>memcmp\<close> is 0, where both versions agree.\<close>

lemma boot_memcmp_zero: "length xs = length ys \<Longrightarrow> boot_memcmp xs ys = 0 \<longleftrightarrow> compare_bytes xs ys = 0"
  by (simp add: boot_memcmp_def compare_bytes_eq list.rel_eq)

text \<open>A component before a slash is searched with the byte behind it that the array happened to
  hold, unless this was 0.\<close>

theorem boot_directory_name:
  assumes "find_char 47 path = Some i" "i + 1 < length name" "length name = MAX_PATH_SIZE" "0 \<notin> set path" "i < length path"
  shows "\<exists>name'. boot_component name path = Some (name', drop (i + 1) path, False) \<and>
    c_string name' = take i path @ (if name ! i = 0 then [] else [name ! i])"
proof -
  let ?name = "(take i path @ drop i name)[i + 1 := 0]"
  have "drop i name = name ! i # name ! Suc i # drop (Suc (Suc i)) name" using assms(2) by (simp add: Cons_nth_drop_Suc)
  then have "?name = take i path @ name ! i # 0 # drop (Suc (Suc i)) name"
    using assms(5) by (simp add: list_update_append min_def)
  moreover have "\<forall>c \<in> set (take i path). c \<noteq> 0" using assms(4) by (metis in_set_takeD)
  ultimately have "c_string ?name = take i path @ (if name ! i = 0 then [] else [name ! i])"
    by (simp add: c_string_def takeWhile_append2)
  then show ?thesis using assms(1-3) by (simp add: boot_component_def)
qed

lemma boot_directory_name_witness:
  "\<exists>name'. boot_component (replicate 256 65) [98, 47, 99] = Some (name', [99], False) \<and> c_string name' = [98, 65]"
  using boot_directory_name [of "[98, 47, 99]" 1 "replicate 256 65"] by (simp add: MAX_PATH_SIZE_def)

lemma boot_page_dir_some: "\<exists>dir. boot_page_dir start_addr table_addr = Some dir"
  by (simp add: boot_page_dir_def page_table_def page_init_def awrite_int_def)

lemma ascii_kernel: "ascii ''/kernel.bin'' = 47 # [107, 101, 114, 110, 101, 108] @ 46 # [98, 105, 110]"
  by (simp add: ascii_def)

text \<open>The eleven characters \<open>KERNEL  BIN\<close>.\<close>

definition kernel_name :: "u8 list" where
  "kernel_name = [75, 69, 82, 78, 69, 76, 32, 32, 66, 73, 78]"

lemma kernel_upper:
  "map upper [107, 101, 114, 110, 101, 108] @ replicate (8 - length [107, 101, 114, 110, 101, 108 :: u8]) 32 @ map upper [98, 105, 110] = kernel_name"
  by (simp add: upper_def toupper_def islower_def kernel_name_def numeral_eq_Suc)

text \<open>Opening \<open>/kernel.bin\<close> in stage 2, and closing the only open file.\<close>

lemma opens_kernel:
  assumes "serves bios disk img" "fat_image disk b img"
    and "length (opened_files st) = MAX_FILE_HANDLE" "length (names 0) = 12" "length name = MAX_PATH_SIZE"
    and "List.find (\<lambda>e. e_name e = kernel_name) (entries_of (root_sectors b img) (root_size b)) = Some e"
    and "e_attribute e AND FILE_ATTR_DIRECTORY = 0" "unat (e_size e) \<le> 512 * length secs"
    and "chain_ok (boot_sectors bios disk, booted_fat b img st, cls, secs)" "cls \<noteq> []"
      "hd cls = ucast (e_first_cluster_low e) + push_bit 16 (ucast (e_first_cluster_high e))"
  obtains st2 h where
    "boot_fat_open bios disk names name (booted_fat b img st) (ascii ''/kernel.bin'') = Some (st2, Some h)"
    "file_view (boot_sectors bios disk) st2 h cls secs 0 (unat (e_size e))" "others_kept h st2 (booted_fat b img st)"
proof -
  let ?base = "[107, 101, 114, 110, 101, 108] :: u8 list" and ?ext = "[98, 105, 110] :: u8 list"
  let ?st1 = "booted_fat b img st"
  have op: "length (opened_files ?st1) = MAX_FILE_HANDLE" "\<forall>d \<in> set (opened_files ?st1). \<not> d_opened d"
    using assms(3) by (simp_all add: booted_fat_def)
  then have fr: "\<exists>d \<in> set (opened_files ?st1). \<not> d_opened d"
    by (cases "opened_files ?st1") (simp_all add: MAX_FILE_HANDLE_def)
  have f: "List.find (\<lambda>e. e_name e = map upper ?base @ replicate (8 - length ?base) 32 @ map upper ?ext)
      (entries_of (root_sectors b img) (root_size b)) = Some e"
    unfolding kernel_upper by (rule assms(6))
  have "\<exists>st' h. boot_fat_open bios disk names name ?st1 (47 # ?base @ 46 # ?ext) = Some (st', Some h) \<and>
      file_view (boot_sectors bios disk) st' h cls secs 0 (unat (e_size e)) \<and> others_kept h st' ?st1"
    by (rule open_root_file [OF booted_root_view [OF assms(1,2)] _ _ _ _ _ _ _ _ f assms(9-11,7,8) op(1) fr assms(5)])
      (simp_all add: assms(4))
  then show ?thesis unfolding ascii_kernel [symmetric] using that by blast
qed

lemma all_closed_after:
  assumes "0 \<le> h" "nat h < length (opened_files st3)" "others_kept h st3 st1" "\<forall>d \<in> set (opened_files st1). \<not> d_opened d"
  obtains st4 where "fat_close st3 h = Some st4" "\<forall>d \<in> set (opened_files st4). \<not> d_opened d"
proof
  let ?st4 = "st3\<lparr>opened_files := (opened_files st3)[nat h := (opened_files st3 ! nat h)\<lparr>d_opened := False\<rparr>]\<rparr>"
  show "fat_close st3 h = Some ?st4"
    using assms(1,2) get_set_desc [OF assms(1,2)] by (simp add: fat_close_def aread_int_def ROOT_DIR_HANDLE_def aread_def)
  have "\<not> d_opened (opened_files st3 ! i)" if "i < length (opened_files st3)" "i \<noteq> nat h" for i
  proof -
    have "opened_files st1 ! i \<in> set (opened_files st1)"
      using that(1) assms(3) by (intro nth_mem) (simp add: others_kept_def)
    then show ?thesis using that(2) assms(3,4) by (simp add: others_kept_def)
  qed
  then have "\<not> d_opened (opened_files ?st4 ! i)" if "i < length (opened_files st3)" for i
    using that by (cases "i = nat h") simp_all
  then show "\<forall>d \<in> set (opened_files ?st4). \<not> d_opened d" by (auto simp: in_set_conv_nth)
qed

text \<open>C6: With a BIOS that serves an image with a file \<open>kernel.bin\<close> in its root directory whose
  cluster chain is readable, stage 2 reaches the kernel: the bytes of the file are at
  \<open>0x100000\<close>, nothing but them and the buffer has changed in memory, and the kernel is given the
  drive, the memory map and the state of the driver.\<close>

theorem stage2_boots_kernel:
  assumes disk: "disk_init bios (ucast boot_drive) = Some disk" and img: "serves bios disk img" "fat_image disk b img"
    and st: "length (opened_files st) = MAX_FILE_HANDLE" "length (names 0) = 12" "length name = MAX_PATH_SIZE"
    and found: "List.find (\<lambda>e. e_name e = kernel_name) (entries_of (root_sectors b img) (root_size b)) = Some e"
    and e: "e_attribute e AND FILE_ATTR_DIRECTORY = 0" "unat (e_size e) \<le> 512 * length secs" "unat (e_size e) < 2 ^ 32 - 0x100000"
    and chain: "chain_ok (boot_sectors bios disk, booted_fat b img st, cls, secs)" "cls \<noteq> []"
      "hd cls = ucast (e_first_cluster_low e) + push_bit 16 (ucast (e_first_cluster_high e))"
    and blks: "detect_memory bios = Some blks"
  shows "\<exists>bd m' dir. stage2_main bios names name tables boot_drive st m = Some (Inr (bd, m', dir)) \<and>
    bytes_at m' 0x100000 (unat (e_size e)) = take (unat (e_size e)) (concat secs) \<and>
    same_on m' m (- (range_of 0x30000 0x10000 \<union> range_of 0x100000 (unat (e_size e)))) \<and>
    boot_page_dir (fst tables) (snd tables) = Some dir \<and> bd_disk bd = disk \<and> bd_blocks bd = blks \<and> bd_boot_device bd = ucast boot_drive \<and>
    (\<forall>d \<in> set (opened_files (kernel_fat_init (bd_fat_data bd))). \<not> d_opened d)"
proof -
  let ?bsd = "boot_sectors bios disk" and ?st1 = "booted_fat b img st" and ?sz = "unat (e_size e)"
  obtain st2 h where o: "boot_fat_open bios disk names name ?st1 (ascii ''/kernel.bin'') = Some (st2, Some h)"
    "file_view ?bsd st2 h cls secs 0 ?sz" "others_kept h st2 ?st1"
    by (rule opens_kernel [of bios disk img b st names name e secs cls, OF img st found e(1,2) chain])
  obtain st3 m' where l: "load_loop bios disk h st2 m MEMORY_KERNEL_ADDR = Some (st3, m')"
    "bytes_at m' 0x100000 ?sz = take ?sz (concat secs)" "file_view ?bsd st3 h cls secs ?sz ?sz" "others_kept h st3 st2"
    "same_on m' m (- (range_of 0x30000 0x10000 \<union> range_of 0x100000 ?sz))"
    using load_loop_run [OF o(2), of MEMORY_KERNEL_ADDR m] e(3) by (auto simp: MEMORY_KERNEL_ADDR_def)
  have h: "0 \<le> h" "nat h < length (opened_files st3)" using l(3) by (simp_all add: file_view_def)
  have kept: "others_kept h st3 ?st1" using o(3) l(4) by (simp add: others_kept_def)
  have "\<forall>d \<in> set (opened_files ?st1). \<not> d_opened d" by (simp add: booted_fat_def)
  from all_closed_after [OF h kept this] obtain st4 where c: "fat_close st3 h = Some st4"
    and closed: "\<forall>d \<in> set (opened_files st4). \<not> d_opened d" .
  obtain dir where dir: "boot_page_dir (fst tables) (snd tables) = Some dir" using boot_page_dir_some by blast
  have "stage2_main bios names name tables boot_drive st m =
    Some (Inr (\<lparr>bd_blocks = blks, bd_disk = disk, bd_fat_data = fat_export_data st4, bd_boot_device = ucast boot_drive\<rparr>, m', dir))"
    using o(1) l(1) c dir blks
    by (simp add: stage2_main_def disk boot_fat_init_run [OF img])
  then show ?thesis using l(2,5) dir closed by (simp add: kernel_fat_init_def fat_export_data_def)
qed

section \<open>The pages the kernel is entered with\<close>

lemma flags_frame:
  assumes "(x :: u32) AND 0xFFF = 0" "f AND NOT 0xFFF = 0"
  shows "(x OR f) AND NOT 0xFFF = x"
proof -
  have "(x OR f) AND NOT 0xFFF = (x AND NOT 0xFFF) OR (f AND NOT 0xFFF)" by (rule bit.conj_disj_distrib2)
  also have "\<dots> = x" using frame_of_entry(2) [OF assms(1)] assms(2) by simp
  finally show ?thesis .
qed

lemma page_entry:
  assumes "(x :: u32) AND 0xFFF = 0"
  shows "(x OR PAGE_READ_WRITE OR PAGE_PRESENT) AND PAGE_PRESENT \<noteq> 0"
    "((x OR PAGE_READ_WRITE OR PAGE_PRESENT) AND NOT 0xFFF) OR (v AND 0xFFF) = x + (v AND 0xFFF)"
proof -
  have "(x OR PAGE_READ_WRITE OR PAGE_PRESENT) AND PAGE_PRESENT = 1"
    by (simp add: PAGE_READ_WRITE_def PAGE_PRESENT_def bit.conj_disj_distrib2 or.assoc) 
  then show "(x OR PAGE_READ_WRITE OR PAGE_PRESENT) AND PAGE_PRESENT \<noteq> 0" by simp
  have "(x OR PAGE_READ_WRITE OR PAGE_PRESENT) AND NOT 0xFFF = x"
    using flags_frame [OF assms, of "PAGE_READ_WRITE OR PAGE_PRESENT"]
    by (simp add: PAGE_READ_WRITE_def PAGE_PRESENT_def or.assoc)
  then show "((x OR PAGE_READ_WRITE OR PAGE_PRESENT) AND NOT 0xFFF) OR (v AND 0xFFF) = x + (v AND 0xFFF)"
    using frame_of_entry(3) [OF assms] by simp
qed

lemma boot_dir_entry:
  assumes "boot_page_dir start_addr table_addr = Some dir" "k < 1024"
  shows "aread dir k = Some (if k = 0 then start_addr OR PAGE_READ_WRITE OR PAGE_PRESENT OR PAGE_ALL_ACCESS
    else if k = 768 then table_addr OR PAGE_READ_WRITE OR PAGE_PRESENT else PAGE_READ_WRITE)"
proof -
  have l: "length page_init = 1024" "\<And>i. i < 1024 \<Longrightarrow> page_init ! i = PAGE_READ_WRITE" by (simp_all add: page_init_def)
  have "dir = page_init[0 := start_addr OR PAGE_READ_WRITE OR PAGE_PRESENT OR PAGE_ALL_ACCESS,
      768 := table_addr OR PAGE_READ_WRITE OR PAGE_PRESENT OR 0]"
    using assms(1) by (simp add: boot_page_dir_def page_table_def awrite_int_def l)
  then show ?thesis using assms(2) l by (auto simp: aread_def nth_list_update)
qed

lemma start_page_entry:
  "i < 1024 \<Longrightarrow> start_page_table ! i = (if i < 256 then (4096 * word_of_nat i) OR PAGE_READ_WRITE OR PAGE_PRESENT else 0)"
  by (simp add: start_page_table_def nth_append mult.commute)

lemma kernel_page_entry:
  "i < 1024 \<Longrightarrow> kernel_page_table ! i = (0x100000 + 4096 * word_of_nat i) OR PAGE_READ_WRITE OR PAGE_PRESENT"
  by (simp add: kernel_page_table_def MEMORY_KERNEL_ADDR_def mult.commute)

lemma directory_frame:
  assumes "(a :: u32) AND 0xFFF = 0"
  shows "(a OR PAGE_READ_WRITE OR PAGE_PRESENT) AND PAGE_PRESENT \<noteq> 0" "(a OR PAGE_READ_WRITE OR PAGE_PRESENT) AND NOT 0xFFF = a"
    "(a OR PAGE_READ_WRITE OR PAGE_PRESENT OR PAGE_ALL_ACCESS) AND PAGE_PRESENT \<noteq> 0"
    "(a OR PAGE_READ_WRITE OR PAGE_PRESENT OR PAGE_ALL_ACCESS) AND NOT 0xFFF = a"
proof -
  show "(a OR PAGE_READ_WRITE OR PAGE_PRESENT) AND PAGE_PRESENT \<noteq> 0" by (rule page_entry(1) [OF assms])
  show "(a OR PAGE_READ_WRITE OR PAGE_PRESENT) AND NOT 0xFFF = a"
    using flags_frame [OF assms, of "PAGE_READ_WRITE OR PAGE_PRESENT"] by (simp add: page_flag_defs or.assoc)
  have "(a OR PAGE_READ_WRITE OR PAGE_PRESENT OR PAGE_ALL_ACCESS) AND PAGE_PRESENT = 1"
    by (simp add: page_flag_defs bit.conj_disj_distrib2 or.assoc)
  then show "(a OR PAGE_READ_WRITE OR PAGE_PRESENT OR PAGE_ALL_ACCESS) AND PAGE_PRESENT \<noteq> 0" by simp
  show "(a OR PAGE_READ_WRITE OR PAGE_PRESENT OR PAGE_ALL_ACCESS) AND NOT 0xFFF = a"
    using flags_frame [OF assms, of "PAGE_READ_WRITE OR PAGE_PRESENT OR PAGE_ALL_ACCESS"] by (simp add: page_flag_defs or.assoc)
qed

lemma page_multiple: "(4096 * y :: u32) AND 0xFFF = 0"
  using aligned_sum [of 0 y] by simp

text \<open>The indices of an address in the directory and in a table.\<close>

lemma walk_indices:
  fixes v :: u32
  defines "hi \<equiv> unat v div 4194304" and "lo \<equiv> unat v div 4096 mod 1024"
  shows "unat (drop_bit 22 v) = hi" "drop_bit 12 v AND 0x3FF = word_of_nat lo" "hi < 1024" "lo < 1024"
    "v = 4096 * word_of_nat (unat v div 4096) + (v AND 0xFFF)"
proof -
  have uv: "unat v < 4294967296" using unsigned_less [of v, where 'a = nat] by simp
  show "unat (drop_bit 22 v) = hi" by (simp only: unat_drop_bit hi_def) simp
  show "drop_bit 12 v AND 0x3FF = word_of_nat lo" unfolding lo_def page_index [symmetric] by simp
  show "hi < 1024" unfolding hi_def using uv by (intro less_mult_imp_div_less) simp
  show "lo < 1024" by (simp add: lo_def)
  show "v = 4096 * word_of_nat (unat v div 4096) + (v AND 0xFFF)" using word_page_split [of "unat v"] by simp
qed

text \<open>The three parts of the address space: the table of the first megabytes, that of the kernel, and the rest.\<close>

lemma walk_start:
  assumes dir: "boot_page_dir start_addr table_addr = Some dir" and al: "start_addr AND 0xFFF = 0"
    and tab: "\<And>i. i < 1024 \<Longrightarrow> pm (start_addr + 4 * word_of_nat i) = start_page_table ! i" and v: "unat v div 4194304 = 0"
  shows "mmu_translate dir pm v = (if unat v < 0x100000 then Some v else None)"
proof -
  define lo where "lo = unat v div 4096 mod 1024"
  note w = walk_indices [of v, folded lo_def]
  have lov: "lo = unat v div 4096" using v by (simp add: lo_def div_eq_0_iff less_mult_imp_div_less)
  have run: "mmu_translate dir pm v = (let pte = start_page_table ! lo in
      if pte AND PAGE_PRESENT = 0 then None else Some ((pte AND NOT 0xFFF) OR (v AND 0xFFF)))"
    using boot_dir_entry [OF dir w(3)] v directory_frame(3,4) [OF al] tab [OF w(4)] by (simp add: mmu_translate_def w(1,2))
  have small: "lo < 256 \<longleftrightarrow> unat v < 0x100000" unfolding lov by (simp add: div_less_iff_less_mult)
  show ?thesis
  proof (cases "lo < 256")
    case True
    then have "mmu_translate dir pm v = Some (4096 * word_of_nat lo + (v AND 0xFFF))"
      using start_page_entry [OF w(4)] page_entry [OF page_multiple [of "word_of_nat lo"]]
      unfolding run by (simp only: Let_def if_True if_False simp_thms)
    then show ?thesis using w(5) small True by (simp add: lov)
  next
    case False
    then show ?thesis using start_page_entry [OF w(4)] small unfolding run by simp
  qed
qed

lemma walk_kernel:
  assumes dir: "boot_page_dir start_addr table_addr = Some dir" and al: "table_addr AND 0xFFF = 0"
    and tab: "\<And>i. i < 1024 \<Longrightarrow> pm (table_addr + 4 * word_of_nat i) = kernel_page_table ! i" and v: "unat v div 4194304 = 768"
  shows "mmu_translate dir pm v = Some (v - 0xC0000000 + 0x100000)"
proof -
  define lo where "lo = unat v div 4096 mod 1024"
  note w = walk_indices [of v, folded lo_def]
  have run: "mmu_translate dir pm v = (let pte = kernel_page_table ! lo in
      if pte AND PAGE_PRESENT = 0 then None else Some ((pte AND NOT 0xFFF) OR (v AND 0xFFF)))"
    using boot_dir_entry [OF dir w(3)] v directory_frame(1,2) [OF al] tab [OF w(4)] by (simp add: mmu_translate_def w(1,2))
  have "(0x100000 + 4096 * word_of_nat lo :: u32) AND 0xFFF = 0" by (rule aligned_sum) simp
  then have "mmu_translate dir pm v = Some (0x100000 + 4096 * word_of_nat lo + (v AND 0xFFF))"
    using page_entry [of "0x100000 + 4096 * word_of_nat lo"]
    unfolding run kernel_page_entry [OF w(4)] by (simp only: Let_def if_True if_False simp_thms)
  moreover have "unat v div 4096 = 786432 + lo"
  proof -
    have "unat v div 4194304 = unat v div 4096 div 1024" by (simp add: div_mult2_eq [symmetric])
    then show ?thesis using v div_mult_mod_eq [of "unat v div 4096" 1024] by (simp add: lo_def)
  qed
  then have "v = 0xC0000000 + (4096 * word_of_nat lo + (v AND 0xFFF))" using w(5) by (simp add: algebra_simps)
  ultimately show ?thesis by (simp add: algebra_simps)
qed

lemma walk_absent:
  assumes "boot_page_dir start_addr table_addr = Some dir" "unat v div 4194304 \<notin> {0, 768}"
  shows "mmu_translate dir pm v = None"
  using boot_dir_entry [OF assms(1) walk_indices(3) [of v]] assms(2) by (simp add: mmu_translate_def walk_indices(1) page_flag_defs)

text \<open>C31: Under the page directory stage 2 builds the first megabyte is mapped to itself, the
  four megabytes from \<open>0xC0000000\<close> on are mapped to the memory from \<open>0x100000\<close> on, where the
  kernel was loaded, and every other address faults.\<close>

theorem boot_paging:
  assumes dir: "boot_page_dir start_addr table_addr = Some dir" and al: "start_addr AND 0xFFF = 0" "table_addr AND 0xFFF = 0"
    and tabs: "\<And>i. i < 1024 \<Longrightarrow> pm (start_addr + 4 * word_of_nat i) = start_page_table ! i"
      "\<And>i. i < 1024 \<Longrightarrow> pm (table_addr + 4 * word_of_nat i) = kernel_page_table ! i"
  shows "mmu_translate dir pm v =
    (if unat v < 0x100000 then Some v
     else if 0xC0000000 \<le> unat v \<and> unat v < 0xC0400000 then Some (v - 0xC0000000 + 0x100000) else None)"
proof -
  have "unat v div 4194304 = 768 \<longleftrightarrow> 0xC0000000 \<le> unat v \<and> unat v < 0xC0400000" by linarith
  moreover have "unat v div 4194304 = 0 \<longleftrightarrow> unat v < 0x400000" by linarith
  ultimately show ?thesis
    using walk_start [OF dir al(1) tabs(1)] walk_kernel [OF dir al(2) tabs(2)] walk_absent [OF dir]
    by (cases "unat v div 4194304 \<in> {0, 768}") auto
qed

section \<open>The memory map\<close>

text \<open>A BIOS that describes the memory as these blocks: the last of them comes with
  continuation 0, as the E820 service documents.\<close>

fun e820_blocks :: "bios \<Rightarrow> u32 \<Rightarrow> memory_block list \<Rightarrow> bool" where
  "e820_blocks bios cont [] \<longleftrightarrow> False"
| "e820_blocks bios cont (b # bs) \<longleftrightarrow> (case e820 bios cont of (ret, block, cont') \<Rightarrow>
     ret > 0 \<and> block = b \<and> (if bs = [] then cont' = 0 else cont' \<noteq> 0 \<and> e820_blocks bios cont' bs))"

lemma detect_loop_blocks:
  assumes "e820_blocks bios cont (b # bs)" "e820 bios cont = (ret, block, cont')" "length found \<le> MAX_BLOCKS"
  shows "detect_loop bios ret block cont' found =
    (if length found + length bs \<le> MAX_BLOCKS then Some (found @ butlast (b # bs)) else None)"
  using assms
proof (induction bs arbitrary: b cont ret block cont' found)
  case Nil
  then show ?case by (subst detect_loop.simps) simp
next
  case (Cons b' bs)
  then have c: "ret > 0" "block = b" "cont' \<noteq> 0" "e820_blocks bios cont' (b' # bs)" by (simp_all del: e820_blocks.simps add: e820_blocks.simps(2) [of bios cont])
  obtain ret2 block2 cont2 where n: "e820 bios cont' = (ret2, block2, cont2)" by (cases "e820 bios cont'")
  show ?case
  proof (cases "MAX_BLOCKS \<le> length found")
    case True
    then show ?thesis using c by (subst detect_loop.simps) simp
  next
    case False
    then have "detect_loop bios ret2 block2 cont2 (found @ [b]) =
        (if length (found @ [b]) + length bs \<le> MAX_BLOCKS then Some ((found @ [b]) @ butlast (b' # bs)) else None)"
      by (intro Cons.IH [OF c(4) n]) simp
    then show ?thesis using c n False by (subst detect_loop.simps) simp
  qed
qed

text \<open>C32: Of the blocks the BIOS reports all but the last are stored: the loop ends on
  continuation 0 before it stores the block that came with it. More than 257 blocks overrun the
  array.\<close>

theorem detect_memory_loses_last_block:
  assumes "e820_blocks bios 0 bs"
  shows "detect_memory bios = (if length bs \<le> 257 then Some (butlast bs) else None)"
proof -
  obtain b bs' where bs: "bs = b # bs'" using assms by (cases bs) auto
  obtain ret block cont where n: "e820 bios 0 = (ret, block, cont)" by (cases "e820 bios 0")
  show ?thesis
    using detect_loop_blocks [of bios 0 b bs' ret block cont "[]"] assms n
    by (simp add: bs detect_memory_def MAX_BLOCKS_def del: e820_blocks.simps)
qed

section \<open>Examples\<close>

text \<open>An image of four sectors: the boot sector, the table, the root directory with the entry
  of \<open>kernel.bin\<close>, and its ten bytes; and a BIOS whose first try of a read fails.\<close>

definition ex_boot_sector :: "u8 list" where
  "ex_boot_sector = replicate 11 0 @ [0, 2, 1, 1, 0, 1, 16, 0, 0, 0, 0, 1, 0] @ replicate 488 0"

definition ex_fat_sector :: "u8 list" where
  "ex_fat_sector = [0xF0, 0xFF, 0xFF, 0xFF, 0x0F] @ replicate 507 0"

definition ex_kernel_entry :: "u8 list" where
  "ex_kernel_entry = kernel_name @ replicate 15 0 @ [2, 0, 10, 0, 0, 0]"

definition ex_image :: "u8 list list" where
  "ex_image = [ex_boot_sector, ex_fat_sector, ex_kernel_entry @ replicate 480 0, replicate 512 7]"

definition ex_block :: memory_block where
  "ex_block = \<lparr>mb_begin = 0, mb_length = 0x9FC00, mb_type = 1, mb_acpi = 1\<rparr>"

definition ex_boot_disk :: DISK where
  "ex_boot_disk = \<lparr>disk_id = 0, disk_heads = 2, disk_cylinders = 80, disk_sectors = 18\<rparr>"

definition ex_bios :: bios where
  "ex_bios = \<lparr>drive_params = (\<lambda>d. Some (80, 18, 2)),
     int13_read = (\<lambda>i d cyl sec head n. if i = 0 then None
       else Some (concat (take (unat n) (drop ((unat cyl * 2 + unat head) * 18 + (unat sec - 1)) ex_image)))),
     e820 = (\<lambda>cont. (24, ex_block, if cont = 0 then 1 else 0))\<rparr>"

definition ex_bpb :: bpb where
  "ex_bpb = \<lparr>sector_bytes = 512, bpb_cluster_sectors = 1, res_sectors = 1, fats = 1, dir_entries = 16, fat_sectors = 1\<rparr>"

lemma ex_disk_init: "disk_init ex_bios d = Some \<lparr>disk_id = d, disk_heads = 2, disk_cylinders = 80, disk_sectors = 18\<rparr>"
  by (simp add: disk_init_def ex_bios_def)

lemma length_kernel_name [simp]: "length kernel_name = 11"
  by (simp add: kernel_name_def)

lemma ex_image_sectors [simp]:
  "length ex_image = 4" "ex_image ! 0 = ex_boot_sector" "ex_image ! Suc 0 = ex_fat_sector"
  "ex_image ! 2 = ex_kernel_entry @ replicate 480 0" "ex_image ! 3 = replicate 512 7"
  by (simp_all add: ex_image_def nth_Cons')

lemma ex_serves: "serves ex_bios ex_boot_disk ex_image"
proof -
  have "\<forall>s \<in> set ex_image. length s = 512"
    by (simp add: ex_image_def ex_boot_sector_def ex_fat_sector_def ex_kernel_entry_def)
  moreover have "\<exists>i < 3. int13_read ex_bios i d cyl sec head n \<noteq> None" for d cyl sec head n
    by (rule exI [of _ 1]) (simp add: ex_bios_def)
  ultimately show ?thesis
    unfolding serves_def Let_def by (simp add: ex_boot_disk_def) (simp add: ex_bios_def)
qed

lemma ex_fat_image: "fat_image ex_boot_disk ex_bpb ex_image"
proof -
  have "bpb_of ex_boot_sector = Some ex_bpb"
    by (simp add: bpb_of_def le16_def aread_def ex_boot_sector_def ex_bpb_def nth_append)
  moreover have "ex_image \<noteq> []" by (simp add: ex_image_def)
  ultimately show ?thesis
    by (simp add: fat_image_def) (simp add: ex_bpb_def ex_boot_disk_def root_lba_def root_length_def root_size_def)
qed

lemma ex_root: "root_lba ex_bpb = 2" "root_size ex_bpb = 512" "root_length ex_bpb = 1"
  "root_sectors ex_bpb ex_image = [ex_kernel_entry @ replicate 480 0]" "fat_table ex_bpb ex_image = ex_fat_sector"
  by (simp_all add: root_lba_def root_length_def root_size_def root_sectors_def fat_table_def ex_bpb_def ex_image_def)

lemma ex_found:
  "List.find (\<lambda>e. e_name e = kernel_name) (entries_of (root_sectors ex_bpb ex_image) (root_size ex_bpb)) = Some (entry_of_bytes ex_kernel_entry)"
proof -
  have "entries_of (root_sectors ex_bpb ex_image) (root_size ex_bpb) =
      map (\<lambda>i. entry_of_bytes (take 32 (drop (32 * i) (ex_kernel_entry @ replicate 480 0)))) (0 # [1..<16])"
    unfolding entries_of_def ex_root by (simp add: upt_conv_Cons)
  moreover have "take 32 (ex_kernel_entry @ replicate 480 0) = ex_kernel_entry" by (simp add: ex_kernel_entry_def)
  moreover have "e_name (entry_of_bytes ex_kernel_entry) = kernel_name" by (simp add: entry_of_bytes_def ex_kernel_entry_def)
  ultimately show ?thesis by simp
qed

lemma ex_entry: "e_attribute (entry_of_bytes ex_kernel_entry) = 0" "e_size (entry_of_bytes ex_kernel_entry) = 10"
  "e_first_cluster_low (entry_of_bytes ex_kernel_entry) = 2" "e_first_cluster_high (entry_of_bytes ex_kernel_entry) = 0"
  by (simp_all add: entry_of_bytes_def ex_kernel_entry_def kernel_name_def le32_def nth_append)

lemma ex_boot_chain: "chain_ok (boot_sectors ex_bios ex_boot_disk, booted_fat ex_bpb ex_image st, [2], [replicate 512 7])"
proof -
  have f: "g_fat (booted_fat ex_bpb ex_image st) = ex_fat_sector @ drop 512 (g_fat st)"
    by (simp add: booted_fat_def ex_root ex_fat_sector_def)
  have "fat_next_cluster (booted_fat ex_bpb ex_image st) 2 = Some 0xFFF"
    unfolding fat_next_cluster_def f by (simp add: ex_fat_sector_def le16_def aread_def Let_def nth_append)
  moreover have "cluster_to_lba (booted_fat ex_bpb ex_image st) 2 = 3" "cluster_sectors (booted_fat ex_bpb ex_image st) = 1"
    by (simp_all add: cluster_to_lba_def booted_fat_def ex_root) (simp add: ex_bpb_def)
  moreover have "boot_sectors ex_bios ex_boot_disk 3 = Some (replicate 512 7)"
    using serves_sector(1) [OF ex_serves, of 3] by simp
  ultimately show ?thesis by (simp add: chain_ok_def per_cluster_def)
qed

lemma ex_detect: "detect_memory ex_bios = Some [ex_block]"
  by (simp add: detect_memory_def ex_bios_def, subst detect_loop.simps, simp add: MAX_BLOCKS_def, subst detect_loop.simps, simp)

lemma disk_read_sectors_correct_witness:
  "\<exists>cyl sec head r. disk_read_sectors ex_bios ex_boot_disk 20 1 = Some r \<and>
    (unat cyl * 2 + unat head) * 18 + (unat (sec :: u16) - 1) = 20 \<and>
    (r = None \<longleftrightarrow> (\<forall>i < 3. int13_read ex_bios i 0 cyl sec head 1 = None))"
proof -
  have "\<exists>cyl sec head r. disk_read_sectors ex_bios ex_boot_disk 20 1 = Some r \<and>
    (unat cyl * unat (disk_heads ex_boot_disk) + unat head) * unat (disk_sectors ex_boot_disk) + (unat sec - 1) = unat (20 :: u32) \<and>
    unat head < unat (disk_heads ex_boot_disk) \<and> 0 < unat sec \<and> unat sec \<le> unat (disk_sectors ex_boot_disk) \<and>
    (r = None \<longleftrightarrow> (\<forall>i < 3. int13_read ex_bios i (disk_id ex_boot_disk) cyl sec head 1 = None)) \<and>
    (\<forall>i < 3. int13_read ex_bios i (disk_id ex_boot_disk) cyl sec head 1 \<noteq> None \<and>
        (\<forall>j < i. int13_read ex_bios j (disk_id ex_boot_disk) cyl sec head 1 = None) \<longrightarrow>
       r = int13_read ex_bios i (disk_id ex_boot_disk) cyl sec head 1)"
    by (rule disk_read_sectors_correct) (simp_all add: ex_boot_disk_def)
  moreover have "disk_heads ex_boot_disk = 2" "disk_sectors ex_boot_disk = 18" "disk_id ex_boot_disk = 0"
    by (simp_all add: ex_boot_disk_def)
  ultimately show ?thesis by auto
qed

text \<open>The state of the driver before it is initialised: nothing in it is used.\<close>

definition ex_blank_fat :: fat where
  "ex_blank_fat = ex_fat (ex_desc 0 [] 0 0 0 0 False) (replicate MAX_FILE_HANDLE (ex_desc 0 [] 0 0 0 0 False))"

lemma boot_fat_init_correct_witness:
  "\<exists>st'. boot_fat_init ex_bios ex_boot_disk ex_blank_fat = Some (st', True) \<and> g_data_lba st' = 3 \<and>
    take 512 (g_fat st') = ex_fat_sector"
  using boot_fat_init_correct [OF ex_serves ex_fat_image, of ex_blank_fat]
  by (auto simp: ex_root) (auto simp: ex_bpb_def root_lba_def)

lemma stage2_boots_kernel_witness:
  "\<exists>bd m' dir. stage2_main ex_bios (\<lambda>_. replicate 12 0) (replicate 256 1) (0x10000, 0x11000) 0 ex_blank_fat (\<lambda>_. 0) = Some (Inr (bd, m', dir)) \<and>
    bytes_at m' 0x100000 10 = replicate 10 7 \<and> bd_blocks bd = [ex_block]"
proof -
  have d: "disk_init ex_bios (ucast (0 :: u16)) = Some ex_boot_disk" unfolding ex_disk_init by (simp add: ex_boot_disk_def)
  have o: "length (opened_files ex_blank_fat) = MAX_FILE_HANDLE" by (simp add: ex_blank_fat_def ex_fat_def)
  show ?thesis
    using stage2_boots_kernel [OF d ex_serves ex_fat_image o _ _ ex_found _ _ _ ex_boot_chain _ _ ex_detect,
        where names = "\<lambda>_. replicate 12 0" and name = "replicate 256 1" and tables = "(0x10000, 0x11000)" and m = "\<lambda>_. 0"]
    by (auto simp: ex_entry MAX_PATH_SIZE_def)
qed

lemma boot_paging_witness:
  "\<exists>dir. boot_page_dir 0x10000 0x11000 = Some dir \<and> mmu_translate dir
    (\<lambda>a. if a < 0x11000 then start_page_table ! (unat (a - 0x10000) div 4) else kernel_page_table ! (unat (a - 0x11000) div 4)) 0xC0001234 =
    Some 0x101234"
proof -
  let ?pm = "\<lambda>a :: u32. if a < 0x11000 then start_page_table ! (unat (a - 0x10000) div 4) else kernel_page_table ! (unat (a - 0x11000) div 4)"
  obtain dir where dir: "boot_page_dir 0x10000 0x11000 = Some dir" using boot_page_dir_some by blast
  have i1: "unat (4 * word_of_nat i :: u32) = 4 * i" if "i < 1024" for i
  proof -
    have "(4 * word_of_nat i :: u32) = word_of_nat (4 * i)" by simp
    then show ?thesis using that by (simp add: unat_of_nat take_bit_nat_eq_self del: of_nat_mult)
  qed
  have i2: "unat (c + 4 * word_of_nat i :: u32) = unat c + 4 * i" if "i < 1024" "unat c \<le> 0x11000" for i and c :: u32
  proof -
    have "(4 * word_of_nat i :: u32) = word_of_nat (4 * i)" by simp
    moreover have "unat (c + word_of_nat (4 * i) :: u32) = unat c + 4 * i" by (rule unat_add_nat) (use that in simp)
    ultimately show ?thesis by simp
  qed
  have t1: "?pm (0x10000 + 4 * word_of_nat i) = start_page_table ! i" if "i < 1024" for i
    using i2 [OF that, where c = "0x10000"] i1 [OF that] that by (simp add: word_less_nat_alt)
  have t2: "?pm (0x11000 + 4 * word_of_nat i) = kernel_page_table ! i" if "i < 1024" for i
    using i2 [OF that, where c = "0x11000"] i1 [OF that] that by (simp add: word_less_nat_alt)
  have "mmu_translate dir ?pm 0xC0001234 = (if unat (0xC0001234 :: u32) < 0x100000 then Some 0xC0001234
     else if 0xC0000000 \<le> unat (0xC0001234 :: u32) \<and> unat (0xC0001234 :: u32) < 0xC0400000
     then Some (0xC0001234 - 0xC0000000 + 0x100000) else None)"
    by (rule boot_paging [OF dir _ _ t1 t2]) simp_all
  then show ?thesis using dir by simp
qed

lemma detect_memory_loses_last_block_witness: "detect_memory ex_bios = Some (butlast [ex_block, ex_block])"
  using detect_memory_loses_last_block [of ex_bios "[ex_block, ex_block]"] by (simp add: ex_bios_def)

end
