(* ===== verification/Shell.thy ===== *)
theory Shell
  imports HeapRealloc Process Stack BootCorrect
begin

text \<open>
  The start of the kernel and its shell: \<open>main\<close> of \<open>kernel/main.c\<close> with \<open>hal_disk_init\<close> of
  \<open>hal/hal.c\<close>, and the commands of \<open>util/cmd.c\<close>. Here the components come together: one state
  holds the system of theory \<open>Process\<close> with the buddy allocator, the heap over it, the stack of
  the test commands, and the floppy and FAT drivers. Messages of \<open>printf\<close> are recorded in the
  machine, as in theory \<open>Interrupts\<close>.
\<close>

section \<open>State\<close>

text \<open>
  The buddy allocator and the machine are those of \<open>k_sys\<close>; the heap and the floppy driver are
  given them when they run. \<open>k_outw\<close> records the writes of \<open>i686_outw\<close>. Messages are
  recorded without their newlines and tabs.
\<close>

record 'd kernel =
  k_sys :: system
  k_heap :: heap
  k_floppy :: "'d floppy"
  k_fat :: fat
  k_stack :: u32
  k_outw :: "(u16 \<times> u16) list"

text \<open>
  What the linker, the stack frame of \<open>main\<close>, and the devices give: \<open>args_addr\<close> is where the
  variable arguments of \<open>stack_push\<close> lie, \<open>dev_disk\<close> the sectors as the floppy driver reads
  them, \<open>fat_names\<close> the uninitialised names of the FAT driver.
\<close>

record 'd kernel_env =
  bss_start :: u32
  kernel_end :: u32
  isr_addr :: "nat \<Rightarrow> u32"
  tables_addr :: u32
  page_mem :: "u32 \<Rightarrow> u32"
  ke_layout :: layout
  args_addr :: u32
  user_func :: u32
  user_func2 :: u32
  ke_dev :: "'d port_device"
  floppy_addr :: u32
  dev_disk :: disk
  fat_names :: "nat \<Rightarrow> u8 list"

definition text_of :: "u8 list \<Rightarrow> string" where
  "text_of s = map (\<lambda>c. char_of (unat c)) s"

definition on_mach :: "(machine \<Rightarrow> machine) \<Rightarrow> 'd kernel \<Rightarrow> 'd kernel" where
  "on_mach f k = k\<lparr>k_sys := (k_sys k)\<lparr>mach := f (mach (k_sys k))\<rparr>\<rparr>"

definition say :: "string \<Rightarrow> u32 list \<Rightarrow> 'd kernel \<Rightarrow> 'd kernel" where
  "say s args = on_mach (log_msg s args)"

definition with_buddy :: "'d kernel \<Rightarrow> heap" where
  "with_buddy k = (k_heap k)\<lparr>h_buddy := heap (k_sys k)\<rparr>"

definition set_heap :: "heap \<Rightarrow> 'd kernel \<Rightarrow> 'd kernel" where
  "set_heap h k = k\<lparr>k_heap := h, k_sys := (k_sys k)\<lparr>heap := h_buddy h\<rparr>\<rparr>"

definition k_mem :: "'d kernel \<Rightarrow> memory" where "k_mem k = h_mem (k_heap k)"

definition set_mem :: "memory \<Rightarrow> 'd kernel \<Rightarrow> 'd kernel" where
  "set_mem m k = k\<lparr>k_heap := (k_heap k)\<lparr>h_mem := m\<rparr>\<rparr>"

definition kernel_malloc :: "u32 \<Rightarrow> 'd kernel \<Rightarrow> ('d kernel \<times> u32) option" where
  "kernel_malloc sz k = map_option (\<lambda>(h, p). (set_heap h k, p)) (malloc (with_buddy k) sz)"

definition kernel_realloc :: "u32 \<Rightarrow> u32 \<Rightarrow> 'd kernel \<Rightarrow> ('d kernel \<times> u32) option" where
  "kernel_realloc ptr sz k = map_option (\<lambda>(h, p). (set_heap h k, p)) (realloc (with_buddy k) ptr sz)"

definition kernel_free :: "u32 \<Rightarrow> 'd kernel \<Rightarrow> 'd kernel option" where
  "kernel_free ptr k = map_option (\<lambda>h. set_heap h k) (heap_free (with_buddy k) ptr)"

definition kernel_pop :: "'d kernel \<Rightarrow> 'd kernel \<times> u32" where
  "kernel_pop k = (case stack_pop (k_mem k) (k_stack k) of (m, a) \<Rightarrow> (set_mem m k, a))"

text \<open>\<open>stack_push(stack, x)\<close>: the argument lies on the stack of the processor.\<close>

definition kernel_push :: "'d kernel_env \<Rightarrow> u32 \<Rightarrow> 'd kernel \<Rightarrow> 'd kernel" where
  "kernel_push env x k = set_mem (fst (stack_push (store32 (k_mem k) (args_addr env) x) (k_stack k) (args_addr env))) k"

definition load_at :: "'d kernel \<Rightarrow> u32 \<Rightarrow> u32 option" where
  "load_at k p = deref (k_heap k) p"

definition store_at :: "u32 \<Rightarrow> u32 \<Rightarrow> 'd kernel \<Rightarrow> 'd kernel" where
  "store_at p v k = set_mem (store32 (k_mem k) p v) k"

section \<open>Start-up\<close>

text \<open>The difference of two pointers to words counts words.\<close>

definition clear_bss :: "u32 \<Rightarrow> u32 \<Rightarrow> memory \<Rightarrow> memory" where
  "clear_bss bss kend m = fst (memset m bss 0 (word_of_int (sint (kend - bss) sdiv 4)))"

text \<open>The result is 1 for a failure.\<close>

definition hal_disk_init :: "'d kernel_env \<Rightarrow> FAT_DATA \<Rightarrow> DISK \<Rightarrow> bool \<Rightarrow> 'd kernel \<Rightarrow> ('d kernel \<times> int) option" where
  "hal_disk_init env data disk test_read k = do {
     fl \<leftarrow> i686_detect_drives (ke_dev env) ((k_floppy k)\<lparr>fl_machine := mach (k_sys k)\<rparr>);
     let (fl1, failed) = i686_floppy_reset FLOPPY_STANDARD_BASE (fl_log ''[LOG]Resetting Floppy Drive.'' [] fl);
     let k1 = on_mach (\<lambda>_. fl_machine fl1) (k\<lparr>k_floppy := fl1\<rparr>);
     if failed \<noteq> 0 then Some (say ''[ERROR]Floppy Drive reset failed.'' [] k1, 1)
     else do {
       let k2 = say ''[LOG]Floppy Drive successfully reset.'' [] k1;
       (k3, ok) \<leftarrow> (if test_read then do {
           (k3, buffer) \<leftarrow> kernel_malloc 512 (say ''[LOG]Floppy Drive: proceed with test read, cylinder = 0.'' [] k2);
           (fl2, status, data) \<leftarrow> i686_floppy_read_sector (ke_dev env) (floppy_addr env) disk FLOPPY_STANDARD_BASE 0
             ((k_floppy k3)\<lparr>fl_machine := mach (k_sys k3)\<rparr>);
           let k4 = on_mach (\<lambda>_. fl_machine fl2) (k3\<lparr>k_floppy := fl2\<rparr>);
           let k5 = (case data of Some bs \<Rightarrow> set_mem (put_bytes (k_mem k4) buffer bs) k4 | None \<Rightarrow> k4);
           if status \<noteq> 0 then do {
             k6 \<leftarrow> kernel_free buffer (say ''[ERROR]Floppy Drive test read failed.'' [] k5);
             Some (k6, False)
           } else do {
             k6 \<leftarrow> kernel_free buffer k5;
             Some (say ''[LOG]Floppy Drive test read passed.'' [] k6, True)
           }
         } else Some (k2, True));
       if \<not> ok then Some (k3, 1)
       else Some (say ''[LOG]FAT initialised.'' [] (k3\<lparr>k_fat := kernel_fat_init data\<rparr>), 0)
     }
   }"

text \<open>
  \<open>main\<close> up to the first command. A failure is the message before \<open>goto end\<close>; \<open>table0\<close> is the
  identity map of the first megabytes.
\<close>

datatype start_error = No_buddy | No_heap | No_disk | No_stack

definition kernel_start ::
    "'d kernel_env \<Rightarrow> BOOT_DATA \<Rightarrow> u32 \<Rightarrow> u32 \<Rightarrow> u32 list \<Rightarrow> 'd kernel \<Rightarrow> (start_error + 'd kernel) option" where
  "kernel_start env bd scr_x scr_y table0 k = do {
     let k1 = set_mem (clear_bss (bss_start env) (kernel_end env) (k_mem k)) k;
     let k2 = on_mach (\<lambda>m. m\<lparr>con := set_screen_pos (con m) (sint scr_x) (sint scr_y)\<rparr>) k1;
     m \<leftarrow> hal_init (isr_addr env) (mach (k_sys (say ''[LOG]Initialising HAL.'' [] k2)));
     let k3 = on_mach (\<lambda>_. m\<lparr>kbd := hal_keyboard_onpress (kbd m)\<rparr>) k2;
     let k4 = say ''[LOG]Initialising Buddy Allocator.'' [] (say ''[LOG]Initialising Paging.'' [] (say ''[LOG]HAL initialised.'' [] k3));
     (b, dir, table0', buddy_mem) \<leftarrow> buddy_init (bd_blocks bd) (tables_addr env) (page_mem env) (page_dir (k_sys k4)) table0 (heap (k_sys k4));
     let k5 = k4\<lparr>k_sys := (k_sys k4)\<lparr>heap := b, page_dir := dir\<rparr>\<rparr>;
     if buddy_mem = 0 then Some (Inl No_buddy)
     else do {
       let k6 = say ''[LOG]Initialising Heap.'' []
         (say ''[LOG]Buddy Allocator initialised. %iKB memory allocated.'' [word_of_nat (buddy_mem div 1024)] k5);
       (h, heap_mem) \<leftarrow> heap_init (with_buddy k6);
       if heap_mem = 0 then Some (Inl No_heap)
       else do {
         (k7, failed) \<leftarrow> hal_disk_init env (bd_fat_data bd) (bd_disk bd) False
           (say ''[LOG]Initialising Floppy Disk Driver.'' [] (say ''[LOG]Heap initialised. %iB allocated for the block addresses.'' [heap_mem] (set_heap h k6)));
         if failed \<noteq> 0 then Some (Inl No_disk)
         else do {
           (b', m', stack) \<leftarrow> stack_init (heap (k_sys k7)) (k_mem k7) (16 * 1024) 4;
           let k8 = set_mem m' (k7\<lparr>k_sys := (k_sys k7)\<lparr>heap := b'\<rparr>, k_stack := stack\<rparr>);
           if stack = 0 then Some (Inl No_stack)
           else Some (Inr (say ''[LOG]Commands available.'' [] (say ''[LOG]Floppy Disk Driver initialised.'' [] k8)))
         }
       }
     }
   }"

section \<open>Commands\<close>

definition hal_shutdown :: "'d kernel \<Rightarrow> 'd kernel" where
  "hal_shutdown k = k\<lparr>k_outw := k_outw k @ [(0x604, 0x2000)]\<rparr>"

definition cmd_shutdown :: "u8 list \<Rightarrow> 'd kernel \<Rightarrow> ('d kernel \<times> bool) option" where
  "cmd_shutdown answer k =
     (if 4 \<le> length answer then None
      else let k1 = say ''[LOG]are you sure to shutdown? y/n'' [] k in
        if char_at answer 0 \<noteq> 121 then Some (k1, False)
        else Some (hal_shutdown k1, True))"

text \<open>The loop of \<open>cmd_echo\<close>: where \<open>arg\<close> points behind it, before \<open>arg--\<close>.\<close>

fun echo_loop :: "u8 list \<Rightarrow> nat \<Rightarrow> nat" where
  "echo_loop [] i = i"
| "echo_loop (c # rest) i = (if c \<noteq> 32 then i + 1 else echo_loop rest (i + 1))"

definition cmd_echo :: "u8 list \<Rightarrow> 'd kernel \<Rightarrow> 'd kernel" where
  "cmd_echo arg0 k =
     (if arg0 \<noteq> [] then
        let arg = drop (echo_loop arg0 0 - 1) arg0 in
        if take 3 (arg @ [0]) = ascii ''on'' @ [0]
        then say ''[LOG]echo is turned on.'' [] (on_mach (\<lambda>m. m\<lparr>con := (con m)\<lparr>g_enable_echo := True\<rparr>\<rparr>) k)
        else if take 4 (arg @ [0]) = ascii ''off'' @ [0]
        then say ''[LOG]echo is turned off.'' [] (on_mach (\<lambda>m. m\<lparr>con := (con m)\<lparr>g_enable_echo := False\<rparr>\<rparr>) k)
        else say (''[LOG]'' @ text_of arg) [] k
      else if g_enable_echo (con (mach (k_sys k))) then say ''[LOG]echo is on.'' [] k
      else say ''[LOG]echo is off.'' [] k)"

definition g_memory_block_type_str :: "string list" where
  "g_memory_block_type_str = [''USABLE'', ''RESERVED'', ''RECLAIMABLE'', ''NVS'', ''BADMEM'']"

text \<open>A type that is not one of 1 to 5 reads outside the array of names.\<close>

definition cmd_memmap :: "memory_block list \<Rightarrow> 'd kernel \<Rightarrow> 'd kernel option" where
  "cmd_memmap blks k = for_loop (\<lambda>b k. do {
       name \<leftarrow> aread g_memory_block_type_str (unat (mb_type b - 1));
       Some (say (''%08X-%08X '' @ name) [ucast (mb_begin b), ucast (mb_begin b + mb_length b - 1)] k)
     }) blks (say ''[LOG]Memory Mapping: '' [] k)"

section \<open>The shell\<close>

text \<open>The loop that copies the first word to \<open>command\<close>.\<close>

fun command_loop :: "u8 list \<Rightarrow> u8 list \<Rightarrow> u8 list" where
  "command_loop [] command = command"
| "command_loop (c # rest) command = (if c = 32 then command else command_loop rest (command @ [c]))"

text \<open>What the calls of \<open>scanf\<close> of one round read: the line, the number of some test commands,
  the answer of \<open>shutdown\<close>.\<close>

record shell_input =
  in_line :: "u8 list"
  in_size :: u32
  in_answer :: "u8 list"

text \<open>The test commands over the stack and the heap; the printer of the heap is left out.\<close>

definition cmd_try :: "'d kernel \<Rightarrow> 'd kernel option" where
  "cmd_try k = do {
     let (k1, a) = kernel_pop k;
     v \<leftarrow> load_at k1 a;
     let k2 = say ''0x%X'' [v] k1;
     if a \<noteq> 0 then kernel_free v k2 else Some (say ''NULL'' [] k2)
   }"

definition cmd_try1 :: "'d kernel_env \<Rightarrow> u32 \<Rightarrow> 'd kernel \<Rightarrow> 'd kernel option" where
  "cmd_try1 env sz k =
     (let (k1, a) = kernel_pop k in
      if a = 0 then Some (say ''NULL'' [] k1)
      else do {
        v \<leftarrow> load_at k1 a;
        (k2, p) \<leftarrow> kernel_realloc v sz k1;
        let k3 = kernel_push env p (store_at a p k2);
        w \<leftarrow> load_at k3 a;
        Some (say ''0x%X'' [w] k3)
      })"

definition cmd_try4 :: "'d kernel_env \<Rightarrow> u32 \<Rightarrow> 'd kernel \<Rightarrow> 'd kernel option" where
  "cmd_try4 env sz k =
     (let (k1, a) = kernel_pop k; (k2, b) = kernel_pop k1 in
      if b = 0 then Some (say ''NULL'' [] k2)
      else do {
        v \<leftarrow> load_at k2 b;
        (k3, p) \<leftarrow> kernel_realloc v sz k2;
        let k4 = kernel_push env p (store_at b p k3);
        x \<leftarrow> load_at k4 a;
        let k5 = kernel_push env x k4;
        w \<leftarrow> load_at k5 b;
        Some (say ''0x%X'' [w] k5)
      })"

definition cmd_try2 :: "'d kernel_env \<Rightarrow> u32 \<Rightarrow> 'd kernel \<Rightarrow> 'd kernel option" where
  "cmd_try2 env sz k = do {
     (k1, p) \<leftarrow> kernel_malloc sz k;
     Some (if p = 0 then say ''NULL'' [] k1
       else say ''0x%X'' [p] (kernel_push env p (say ''0x%X'' [p] k1)))
   }"

text \<open>The file is printed with its contents as the format; a null pointer from \<open>malloc\<close> is used.\<close>

partial_function (option) print_file :: "'d kernel_env \<Rightarrow> int \<Rightarrow> u32 \<Rightarrow> 'd kernel \<Rightarrow> 'd kernel option" where
  "print_file env h buffer k = do {
     (st, data) \<leftarrow> fat_read (dev_disk env) (k_fat k) h 15000;
     let k1 = set_mem (put_bytes (k_mem k) buffer data) (k\<lparr>k_fat := st\<rparr>);
     if data = [] then Some k1
     else do {
       let k2 = set_mem ((k_mem k1)(buffer + word_of_nat (length data) := 0)) k1;
       (c, n) \<leftarrow> writef (k_mem k2) (con (mach (k_sys k2))) buffer (args_addr env);
       print_file env h buffer (on_mach (\<lambda>m. m\<lparr>con := c\<rparr>) k2)
     }
   }"

definition cmd_try3 :: "'d kernel_env \<Rightarrow> 'd kernel \<Rightarrow> 'd kernel option" where
  "cmd_try3 env k = do {
     (st, fat_file) \<leftarrow> fat_open (dev_disk env) (fat_names env) (k_fat k) (ascii ''dir/inner/test.txt'');
     let k1 = k\<lparr>k_fat := st\<rparr>;
     (case fat_file of
        None \<Rightarrow> Some k1
      | Some h \<Rightarrow> do {
          (k2, buffer) \<leftarrow> kernel_malloc 15100 k1;
          k3 \<leftarrow> print_file env h buffer k2;
          st' \<leftarrow> fat_close (k_fat k3) h;
          kernel_free buffer (k3\<lparr>k_fat := st'\<rparr>)
        })
   }"

definition cmd_run :: "'d kernel_env \<Rightarrow> u32 \<Rightarrow> bool \<Rightarrow> 'd kernel \<Rightarrow> 'd kernel option" where
  "cmd_run env func prio k = do {
     (s, ok) \<leftarrow> hal_create_user_process (ke_layout env) (k_sys k) func prio;
     Some (if ok = 0 then say ''Run Failed!'' [] (k\<lparr>k_sys := s\<rparr>) else k\<lparr>k_sys := s\<rparr>)
   }"

text \<open>One round of the loop; the flag is its \<open>break\<close>. \<open>buffer\<close> and \<open>command\<close> have 1024 characters.\<close>

definition shell_step ::
    "'d kernel_env \<Rightarrow> BOOT_DATA \<Rightarrow> shell_input \<Rightarrow> 'd kernel \<Rightarrow> ('d kernel \<times> bool) option" where
  "shell_step env bd inp k =
     (let buffer = in_line inp; command = command_loop buffer [];
          continue = map_option (\<lambda>k. (k, False)) in
      if 1024 \<le> length buffer then None
      else if command = ascii ''help'' then
        Some (say ''memmap  prints the memory mapping.'' [] (say ''shutdown shuts down the computer.'' []
          (say ''echo     print text to console.'' [] (say ''[LOG]Commands:'' [] k))), False)
      else if command = ascii ''echo'' then Some (cmd_echo (drop 4 buffer) k, False)
      else if command = ascii ''shutdown'' then cmd_shutdown (in_answer inp) k
      else if command = ascii ''try'' then continue (cmd_try k)
      else if command = ascii ''try1'' then continue (cmd_try1 env (in_size inp) k)
      else if command = ascii ''try4'' then continue (cmd_try4 env (in_size inp) k)
      else if command = ascii ''try2'' then continue (cmd_try2 env (in_size inp) k)
      else if command = ascii ''try3'' then continue (cmd_try3 env k)
      else if command = ascii ''m'' then continue (cmd_run env (user_func env) False k)
      else if command = ascii ''n'' then continue (cmd_run env (user_func2 env) True k)
      else if command = ascii ''memmap'' then continue (cmd_memmap (bd_blocks bd) k)
      else Some (say (''[LOG]'' @ text_of buffer @ '': not a command.'') [] k, False))"

fun shell_run ::
    "'d kernel_env \<Rightarrow> BOOT_DATA \<Rightarrow> shell_input list \<Rightarrow> 'd kernel \<Rightarrow> ('d kernel \<times> bool) option" where
  "shell_run env bd [] k = Some (k, False)"
| "shell_run env bd (inp # inps) k = do {
     (k', stop) \<leftarrow> shell_step env bd inp k;
     if stop then Some (k', True) else shell_run env bd inps k'
   }"

end
