(* ===== verification/ShellCorrect.thy ===== *)
theory ShellCorrect
  imports Shell
begin

text \<open>
  The start of the kernel leads to a working heap and an empty stack, a command is the first
  word of a line, the commands do what they say, and the test commands for allocation and
  release cancel each other.
\<close>

section \<open>The buddy allocator at the start\<close>

lemma memset_loop_zero: "m x = 0 \<Longrightarrow> memset_loop m a 0 i n x = 0"
  by (induction n arbitrary: i m) auto

lemma clear_bss_zero: "m x = 0 \<Longrightarrow> clear_bss a b m x = 0"
  by (simp add: clear_bss_def memset_def memset_loop_zero)

lemma layer_size_mono: "l \<le> l' \<Longrightarrow> layer_size st l' \<le> layer_size st l"
  by (auto simp: layer_size_def intro!: diff_le_mono2)

lemma fits_unique:
  assumes "fits st sz m" "fits st sz m'"
  shows "m = m'"
proof -
  have "\<not> a < b" if "fits st sz a" "fits st sz b" for a b
  proof
    assume "a < b"
    then have "layer_size st b \<le> layer_size st (Suc a)" by (intro layer_size_mono) simp
    moreover have "Suc a < num_layers st" using that(2) \<open>a < b\<close> by (simp add: fits_def)
    ultimately show False using that by (simp add: fits_def)
  qed
  then show ?thesis using assms by (meson nat_neq_iff)
qed

text \<open>A fresh allocator with room for more than two blocks of a size gives two of them.\<close>

lemma two_blocks:
  assumes inv: "buddy_inv b" and none: "buddy_blocks b = {}" and sz: "0 < unat sz" "2 * unat sz < g_buddy_max_block b"
  obtains b1 k1 p1 b2 k2 p2 where "buddy_alloc b sz = Some (b1, k1, p1)" "p1 \<noteq> 0" "buddy_alloc b1 sz = Some (b2, k2, p2)" "p2 \<noteq> 0"
proof -
  have zs: "unat sz \<le> g_buddy_max_block b" using sz by simp
  obtain m where m: "fits b sz m"
    "(\<exists>i b1. i < 2 ^ m \<and> gives_block b (m, i) b1 \<and> buddy_alloc b sz = Some (b1, layer_size b m, block_addr b (m, i))) \<or> layer_full b m"
    using buddy_alloc_result [OF inv zs] by blast
  have "\<not> layer_full b m" using none by (auto simp: layer_full_def intro: exI [of _ 0])
  then obtain i b1 where b1: "i < 2 ^ m" "gives_block b (m, i) b1" "buddy_alloc b sz = Some (b1, layer_size b m, block_addr b (m, i))"
    using m(2) by blast
  have ml: "m < num_layers b" using m(1) by (simp add: fits_def)
  note d = buddy_invD [OF inv]
  have pos: "0 < m"
  proof (rule ccontr)
    assume "\<not> 0 < m"
    then have "m = 0" by simp
    moreover have n2: "Suc 0 < num_layers b" using inv by (simp add: buddy_inv_def num_layers_def nat_less_iff)
    ultimately have "layer_size b (Suc 0) < unat sz" using m(1) by (simp add: fits_def)
    moreover have "g_buddy_max_block b = layer_size b 0" using inv by (simp add: buddy_inv_def layer_size_def)
    moreover have "layer_size b 0 = 2 * layer_size b (Suc 0)" using layer_size_split [OF n2] by simp
    ultimately show False using sz(2) by simp
  qed
  have inv1: "buddy_inv b1" and blk1: "buddy_blocks b1 = {(m, i)}" and
    fr: "b1 = b\<lparr>g_buddy_block := g_buddy_block b1, g_buddy_page_tables := g_buddy_page_tables b1\<rparr>"
    using b1(2) none by (simp_all add: gives_block_def)
  note h = heap_frame [OF fr]
  have "unat sz \<le> g_buddy_max_block b1" using zs h(7) by simp
  from buddy_alloc_result [OF inv1 this] obtain m' where m': "fits b1 sz m'"
    "(\<exists>i b2. i < 2 ^ m' \<and> gives_block b1 (m', i) b2 \<and> buddy_alloc b1 sz = Some (b2, layer_size b1 m', block_addr b1 (m', i))) \<or> layer_full b1 m'"
    by blast
  have "fits b sz m'" using m'(1) h(1,2) by (simp add: fits_def)
  then have [simp]: "m' = m" using fits_unique m(1) by blast
  define j where "j = (if i = 0 then 1 else 0 :: nat)"
  have "(2 :: nat) ^ 1 \<le> 2 ^ m" using pos by (intro power_increasing) simp_all
  then have j: "j < 2 ^ m" "j \<noteq> i" by (simp_all add: j_def)
  have "disjoint_blocks (m, i) (m, j)" using j(2) by (simp add: disjoint_blocks_def covers_def)
  then have "\<not> layer_full b1 m" using j(1) blk1 by (auto simp: layer_full_def)
  then obtain i2 b2 where b2: "i2 < 2 ^ m" "buddy_alloc b1 sz = Some (b2, layer_size b1 m, block_addr b1 (m, i2))"
    using m'(2) by auto
  have "unat (block_addr b (m, i)) \<noteq> 0" "unat (block_addr b1 (m, i2)) \<noteq> 0"
    using unat_block_addr(1) [OF inv ml b1(1)] unat_block_addr(1) [OF inv1 _ b2(1)] ml h(1) by simp_all
  then have "block_addr b (m, i) \<noteq> 0" "block_addr b1 (m, i2) \<noteq> 0" by auto
  then show thesis using that b1(3) b2(2) by blast
qed

lemma heap_empty_kept:
  assumes "heap_empty st" "same_on m (h_mem st) (range_of (heapc st) 8 \<union> range_of (heap_blocks st) (4 * unat (heap_blocks_size st)))"
  shows "heap_empty (st\<lparr>h_mem := m\<rparr>)"
proof -
  have g: "empty_geometry (heapc st) (heap_blocks st) (heap_blocks_size st)" using assms(1) by (simp add: heap_empty_def)
  have f: "fits_memory (heapc st) 8" "fits_memory (heap_blocks st) (4 * unat (heap_blocks_size st))" using g by (simp_all add: empty_geometry_def)
  have u: "unat (heapc st + 4) = unat (heapc st) + 4" using f(1) unat_add_nat [of "heapc st" 4] by (simp add: fits_memory_def)
  have "load32 m (heapc st) = load32 (h_mem st) (heapc st)" "load32 m (heapc st + 4) = load32 (h_mem st) (heapc st + 4)"
    by (rule same_on_load32 [OF assms(2)]; use f(1) u in \<open>auto simp: fits_memory_def range_of_def\<close>)+
  moreover have "load32 m (heap_blocks st + 4 * word_of_nat i) = load32 (h_mem st) (heap_blocks st + 4 * word_of_nat i)"
    if "i < unat (heap_blocks_size st)" for i
    by (rule same_on_load32 [OF assms(2)]; use table_word(2,3) [OF f(2) that] in blast)
  ultimately show ?thesis using assms(1) by (simp add: heap_empty_def alloc_root_def free_root_def)
qed

section \<open>Start-up\<close>

lemma mach_on_mach [simp]: "mach (k_sys (on_mach f k)) = f (mach (k_sys k))"
  "heap (k_sys (on_mach f k)) = heap (k_sys k)" "page_dir (k_sys (on_mach f k)) = page_dir (k_sys k)"
  "k_heap (on_mach f k) = k_heap k" "k_mem (on_mach f k) = k_mem k" "k_stack (on_mach f k) = k_stack k" "k_fat (on_mach f k) = k_fat k"
  "k_floppy (on_mach f k) = k_floppy k" "with_buddy (on_mach f k) = with_buddy k" "k_outw (on_mach f k) = k_outw k"
  by (simp_all add: on_mach_def k_mem_def with_buddy_def)

lemma say_simps [simp]: "mach (k_sys (say s args k)) = log_msg s args (mach (k_sys k))"
  "heap (k_sys (say s args k)) = heap (k_sys k)" "page_dir (k_sys (say s args k)) = page_dir (k_sys k)"
  "k_heap (say s args k) = k_heap k" "k_mem (say s args k) = k_mem k" "k_stack (say s args k) = k_stack k" "k_fat (say s args k) = k_fat k"
  "k_floppy (say s args k) = k_floppy k" "with_buddy (say s args k) = with_buddy k" "k_outw (say s args k) = k_outw k"
  by (simp_all add: say_def)

lemma set_mem_simps [simp]: "k_sys (set_mem m k) = k_sys k" "k_heap (set_mem m k) = (k_heap k)\<lparr>h_mem := m\<rparr>"
  "k_mem (set_mem m k) = m" "k_stack (set_mem m k) = k_stack k" "k_fat (set_mem m k) = k_fat k" "k_floppy (set_mem m k) = k_floppy k"
  "with_buddy (set_mem m k) = (with_buddy k)\<lparr>h_mem := m\<rparr>" "k_outw (set_mem m k) = k_outw k"
  by (simp_all add: set_mem_def k_mem_def with_buddy_def)

lemma set_heap_simps [simp]: "mach (k_sys (set_heap h k)) = mach (k_sys k)" "heap (k_sys (set_heap h k)) = h_buddy h"
  "k_heap (set_heap h k) = h" "k_mem (set_heap h k) = h_mem h" "k_stack (set_heap h k) = k_stack k" "k_fat (set_heap h k) = k_fat k"
  "k_floppy (set_heap h k) = k_floppy k" "with_buddy (set_heap h k) = h" "k_outw (set_heap h k) = k_outw k"
  by (simp_all add: set_heap_def k_mem_def with_buddy_def)

text \<open>The types of the two drives the CMOS names are known ones.\<close>

definition drives_known :: "'d port_device \<Rightarrow> bool" where
  "drives_known dev \<longleftrightarrow> (\<forall>d. unat (drop_bit 4 (fst (p_in dev d 0x71))) < 8 \<and> unat (fst (p_in dev d 0x71) AND 0xF) < 8)"

definition same_handlers :: "machine \<Rightarrow> machine \<Rightarrow> bool" where
  "same_handlers m m' \<longleftrightarrow> idt m' = idt m \<and> isr_handlers m' = isr_handlers m \<and> irq_handlers m' = irq_handlers m \<and>
     sched m' = sched m \<and> kbd m' = kbd m \<and> con m' = con m"

lemma same_handlers_log [simp]: "same_handlers m (log_msg s args m') = same_handlers m m'"
  by (simp add: same_handlers_def log_msg_def)

lemma detect_drives_returns:
  assumes "drives_known dev"
  shows "\<exists>fl. i686_detect_drives dev st = Some fl \<and> same_handlers (fl_machine st) (fl_machine fl)"
proof -
  obtain v st1 where v: "fl_in dev 0x71 (fl_out dev 0x70 0x10 st) = (v, st1)" by (cases "fl_in dev 0x71 (fl_out dev 0x70 0x10 st)")
  then have "v = fst (p_in dev (fl_dev (fl_out dev 0x70 0x10 st)) 0x71)" by (auto simp: fl_in_def split: prod.splits)
  then have "unat (drop_bit 4 v) < 8 \<and> unat (v AND 0xF) < 8" using assms by (simp add: drives_known_def)
  moreover have "same_handlers (fl_machine st) (fl_machine st1)"
    using v by (auto simp: fl_in_def fl_out_def put_outs_def same_handlers_def split: prod.splits)
  ultimately show ?thesis unfolding i686_detect_drives_def v by (simp add: aread_def drive_types_str_def fl_log_def Let_def)
qed

lemma hal_disk_init_run:
  assumes "drives_known (ke_dev env)"
  shows "\<exists>k'. hal_disk_init env data disk False k = Some (k', 0) \<and> k_fat k' = kernel_fat_init data \<and>
    heap (k_sys k') = heap (k_sys k) \<and> k_heap k' = k_heap k \<and> same_handlers (mach (k_sys k)) (mach (k_sys k'))"
proof -
  let ?st = "(k_floppy k)\<lparr>fl_machine := mach (k_sys k)\<rparr>"
  obtain fl where "i686_detect_drives (ke_dev env) ?st = Some fl" "same_handlers (fl_machine ?st) (fl_machine fl)"
    using detect_drives_returns [OF assms] by blast
  then show ?thesis
    by (simp add: hal_disk_init_def i686_floppy_reset_def Let_def say_def on_mach_def fl_log_def)
qed

lemma block_count_nonzero:
  assumes "16384 \<le> n" "n \<le> 2 ^ 29"
  shows "(word_of_nat (4 * ((n - 48) div 4)) :: u32) \<noteq> 0"
proof -
  have "unat (word_of_nat (4 * ((n - 48) div 4)) :: u32) = 4 * ((n - 48) div 4)"
    using assms(2) by (subst unat_of_nat) (simp add: take_bit_nat_eq_self)
  moreover have "4 * ((n - 48) div 4) \<noteq> 0" using assms(1) by (simp add: div_greater_zero_iff)
  ultimately show ?thesis by auto
qed

text \<open>The memory of a new stack is apart from the blocks given before.\<close>

lemma new_stack_apart:
  assumes new: "new_stack b1 m 4 b2 m' s n2" and inv: "buddy_inv b2" and ext: "buddy_extent b2 = buddy_extent b1"
    and c1: "c1 \<in> buddy_blocks b1" "buddy_extent b1 c1 = range_of p1 n1"
  shows "{unat (stack_min m' s) ..< unat s + 16} \<inter> range_of p1 n1 = {}"
proof -
  obtain c where c: "c \<notin> buddy_blocks b1" "buddy_blocks b2 = insert c (buddy_blocks b1)"
    "buddy_extent b2 c = {unat (stack_min m' s) ..< unat s + 16}"
    using new by (auto simp: new_stack_def)
  have "c1 \<in> buddy_blocks b2" "c \<in> buddy_blocks b2" "c1 \<noteq> c" using c c1(1) by auto
  then have "buddy_extent b2 c1 \<inter> buddy_extent b2 c = {}" using buddy_extent_disjoint [OF inv] by blast
  then show ?thesis using c(3) c1(2) ext by (auto simp: fun_eq_iff)
qed

text \<open>
  The stack fills one block of the allocator, and the structures of the heap lie in the only other
  one, so that the two are apart, and apart from every block the heap asks for later.
\<close>

definition heap_and_stack_apart :: "heap \<Rightarrow> memory \<Rightarrow> u32 \<Rightarrow> bool" where
  "heap_and_stack_apart h m s \<longleftrightarrow> (\<exists>c d. c \<noteq> d \<and> buddy_blocks (h_buddy h) = {c, d} \<and>
     buddy_extent (h_buddy h) c = {unat (stack_min m s) ..< unat s + 16} \<and>
     range_of (heapc h) 8 \<union> range_of (heap_blocks h) (4 * unat (heap_blocks_size h)) \<subseteq> buddy_extent (h_buddy h) d \<and>
     buddy_extent (h_buddy h) c \<inter> buddy_extent (h_buddy h) d = {})"

text \<open>Heap and stack over an allocator that has given nothing away.\<close>

lemma heap_and_stack_start:
  assumes inv: "buddy_inv (h_buddy st)" "buddy_blocks (h_buddy st) = {}" and big: "2 * unat HEAP_METADATA_SIZE < g_buddy_max_block (h_buddy st)"
    and zero: "\<And>x. 0x80000000 \<le> unat x \<Longrightarrow> unat x < 0xA0000000 \<Longrightarrow> h_mem st x = 0"
  obtains h n b2 m' s where "heap_init st = Some (h, n)" "n \<noteq> 0" "h_mem h = h_mem st"
    "stack_init (h_buddy h) (h_mem st) (16 * 1024) 4 = Some (b2, m', s)" "s \<noteq> 0" "buddy_inv b2" "stack_inv (m', s)"
    "stack_content (m', s) = []" "stack_elem_size m' s = 4" "heap_empty (h\<lparr>h_mem := m'\<rparr>)"
    "heap_and_stack_apart (h\<lparr>h_buddy := b2\<rparr>) m' s"
proof -
  have sz: "HEAP_METADATA_SIZE = 16 * 1024" "0 < unat HEAP_METADATA_SIZE" by (simp_all add: HEAP_METADATA_SIZE_def)
  obtain b1 n1 p1 b2 n2 p2 where A: "buddy_alloc (h_buddy st) HEAP_METADATA_SIZE = Some (b1, n1, p1)" "p1 \<noteq> 0"
    "buddy_alloc b1 HEAP_METADATA_SIZE = Some (b2, n2, p2)" "p2 \<noteq> 0"
    by (rule two_blocks [OF inv sz(2) big])
  note P1 = buddy_block_bounds [OF inv(1) A(1,2)] and P2 = buddy_block_bounds [OF buddy_block_bounds(1) [OF inv(1) A(1,2)] A(3,4)]
  have z1: "h_mem st x = 0" if "unat x \<in> range_of p1 n1" for x using that P1(3,4) zero by (auto simp: range_of_def)
  obtain h where h: "heap_init st = Some (h, word_of_nat (4 * ((n1 - 48) div 4)))" "heap_empty h" "h_buddy h = b1"
    "heapc h = p1" "h_mem h = h_mem st" "range_of (heap_blocks h) (4 * unat (heap_blocks_size h)) \<subseteq> range_of p1 n1"
    using heap_init_run [OF inv(1) A(1,2) z1] by metis
  have n: "16384 \<le> n1" "n1 \<le> 2 ^ 29" "16 \<le> n2" using P1(2,3,4) P2(2) by (simp_all add: HEAP_METADATA_SIZE_def)
  obtain m' s where S: "stack_init b1 (h_mem st) (16 * 1024) 4 = Some (b2, m', s)" "s \<noteq> 0" "new_stack b1 (h_mem st) 4 b2 m' s n2"
    using stack_init_new [OF P1(1) A(3) [unfolded sz(1)] A(4) _ _ n(3), where e = 4 and m = "h_mem st"] by auto
  have st: "buddy_inv b2" "stack_inv (m', s)" "stack_content (m', s) = []" "stack_elem_size m' s = 4"
    "same_on m' (h_mem st) (- {unat (stack_min m' s) ..< unat s + 16})"
    using S(3) by (simp_all add: new_stack_def)
  obtain c1 where c1: "buddy_blocks b1 = {c1}" "buddy_extent b1 c1 = range_of p1 n1" using P1(5) inv(2) by (auto simp: range_of_def)
  have ext: "{unat (stack_min m' s) ..< unat s + 16} \<inter> range_of p1 n1 = {}"
    by (rule new_stack_apart [OF S(3) st(1) _ _ c1(2)]) (use P2(7) c1(1) in auto)
  obtain c2 where c2: "c2 \<noteq> c1" "buddy_blocks b2 = {c2, c1}" "buddy_extent b2 c2 = {unat (stack_min m' s) ..< unat s + 16}"
    using S(3) c1(1) by (auto simp: new_stack_def)
  have own: "range_of (heapc h) 8 \<subseteq> range_of p1 n1" using h(4) n(1) by (auto simp: range_of_def)
  have "heap_and_stack_apart (h\<lparr>h_buddy := b2\<rparr>) m' s"
    unfolding heap_and_stack_apart_def
    by (rule exI [of _ c2], rule exI [of _ c1]) (use c1 c2 ext own h(6) P2(7) in auto)
  moreover
  have "heap_empty (h\<lparr>h_mem := m'\<rparr>)"
  proof (rule heap_empty_kept [OF h(2)])
    show "same_on m' (h_mem h) (range_of (heapc h) 8 \<union> range_of (heap_blocks h) (4 * unat (heap_blocks_size h)))"
      unfolding h(5) by (intro same_on_mono [OF st(5)]) (use ext own h(6) in blast)
  qed
  ultimately show thesis using that h(1,3,5) block_count_nonzero [OF n(1,2)] S(1,2) st(1-4) by blast
qed

text \<open>C33: With a memory map whose largest usable block has at least 256 KiB, memory that reads as
  zero where the heap will be, and drives of known types, the kernel starts. The interrupts are
  connected: the sixteen lines, at the vectors 32 to 47, to the handler of requests, line 0 to the
  timer, line 1 to the keyboard, and 0x88 to the system calls. The heap is empty and well-formed,
  the stack is empty, the two take one block of the allocator each and are apart, and the
  file system is the one the boot loader left.\<close>

theorem kernel_start_correct:
  assumes tabs: "length (idt (mach (k_sys k))) = 256" "length (isr_handlers (mach (k_sys k))) = 256" "length (irq_handlers (mach (k_sys k))) = 16"
    and pick: "pick_block (bd_blocks bd) 0 None = (max_size, Some b)" "2 ^ 18 \<le> max_size"
    and len: "length (page_dir (k_sys k)) = 1024" "length table0 = 1024" and fresh: "heap (k_sys k) = buddy_bss"
    and zero: "\<forall>x. 0x80000000 \<le> unat x \<and> unat x < 0xA0000000 \<longrightarrow> k_mem k x = 0"
    and dev: "drives_known (ke_dev env)"
  shows "\<exists>k'. kernel_start env bd scr_x scr_y table0 k = Some (Inr k') \<and>
    buddy_inv (heap (k_sys k')) \<and> heap_empty (with_buddy k') \<and>
    stack_inv (k_mem k', k_stack k') \<and> stack_content (k_mem k', k_stack k') = [] \<and> stack_elem_size (k_mem k') (k_stack k') = 4 \<and>
    heap_and_stack_apart (with_buddy k') (k_mem k') (k_stack k') \<and>
    k_fat k' = kernel_fat_init (bd_fat_data bd) \<and> isr_handlers (mach (k_sys k')) ! 0x88 = Some Isr_syscall \<and>
    (\<forall>n < 16. isr_handlers (mach (k_sys k')) ! (32 + n) = Some Irq_handler) \<and>
    irq_handlers (mach (k_sys k')) ! 0 = Some Irq_idle \<and> irq_handlers (mach (k_sys k')) ! 1 = Some Irq_keyboard \<and> g_keyboard_onpress_listener (kbd (mach (k_sys k')))"
proof -
  define k2 where "k2 = on_mach (\<lambda>m. m\<lparr>con := set_screen_pos (con m) (sint scr_x) (sint scr_y)\<rparr>)
    (set_mem (clear_bss (bss_start env) (kernel_end env) (k_mem k)) k)"
  let ?m2 = "mach (k_sys (say ''[LOG]Initialising HAL.'' [] k2))"
  have t2: "length (idt ?m2) = 256" "length (isr_handlers ?m2) = 256" "length (irq_handlers ?m2) = 16"
    using tabs by (simp_all add: k2_def log_msg_def)
  obtain m where m: "hal_init (isr_addr env) ?m2 = Some m" "isr_handlers m ! 0x88 = Some Isr_syscall"
    "irq_handlers m = (irq_handlers ?m2)[0 := Some Irq_idle, 1 := Some Irq_keyboard]"
    "\<forall>n < 16. isr_handlers m ! (32 + n) = Some Irq_handler"
    by (rule hal_init_handlers [OF t2])
  define k4 where "k4 = say ''[LOG]Initialising Buddy Allocator.'' [] (say ''[LOG]Initialising Paging.'' [] (say ''[LOG]HAL initialised.'' []
    (on_mach (\<lambda>_. m\<lparr>kbd := hal_keyboard_onpress (kbd m)\<rparr>) k2)))"
  have h4: "heap (k_sys k4) = buddy_bss" "page_dir (k_sys k4) = page_dir (k_sys k)" using fresh by (simp_all add: k4_def k2_def)
  have big: "2 ^ 15 \<le> max_size" using pick(2) by simp
  obtain bs dir' table0' where B: "buddy_init (bd_blocks bd) (tables_addr env) (page_mem env) (page_dir (k_sys k)) table0 buddy_bss =
      Some (bs, dir', table0', g_buddy_max_block bs)"
    "buddy_inv bs" "buddy_blocks bs = {}" "max_size div 2 < 2 * int (g_buddy_max_block bs)"
    using buddy_init_geometry [OF pick(1) big len] by blast
  define k6 where "k6 = say ''[LOG]Initialising Heap.'' [] (say ''[LOG]Buddy Allocator initialised. %iKB memory allocated.''
    [word_of_nat (g_buddy_max_block bs div 1024)] (k4\<lparr>k_sys := (k_sys k4)\<lparr>heap := bs, page_dir := dir'\<rparr>\<rparr>))"
  have w6: "h_buddy (with_buddy k6) = bs" "h_mem (with_buddy k6) = k_mem k4" by (simp_all add: k6_def with_buddy_def k_mem_def)
  have ready: "buddy_inv (h_buddy (with_buddy k6))" "buddy_blocks (h_buddy (with_buddy k6)) = {}"
    "2 * unat HEAP_METADATA_SIZE < g_buddy_max_block (h_buddy (with_buddy k6))" "g_buddy_max_block bs \<noteq> 0"
    "\<And>x. 0x80000000 \<le> unat x \<Longrightarrow> unat x < 0xA0000000 \<Longrightarrow> h_mem (with_buddy k6) x = 0"
    unfolding w6 using B(2-4) pick(2) zero clear_bss_zero by (simp_all add: HEAP_METADATA_SIZE_def k4_def k2_def)
  obtain h n b2 m' s where H: "heap_init (with_buddy k6) = Some (h, n)" "n \<noteq> 0" "h_mem h = h_mem (with_buddy k6)"
    "stack_init (h_buddy h) (h_mem (with_buddy k6)) (16 * 1024) 4 = Some (b2, m', s)" "s \<noteq> 0" "buddy_inv b2" "stack_inv (m', s)"
    "stack_content (m', s) = []" "stack_elem_size m' s = 4" "heap_empty (h\<lparr>h_mem := m'\<rparr>)"
    "heap_and_stack_apart (h\<lparr>h_buddy := b2\<rparr>) m' s"
    by (rule heap_and_stack_start [OF ready(1,2,3,5)])
  let ?k7 = "say ''[LOG]Initialising Floppy Disk Driver.'' [] (say ''[LOG]Heap initialised. %iB allocated for the block addresses.''
    [n] (set_heap h k6))"
  obtain k8 where k8: "hal_disk_init env (bd_fat_data bd) (bd_disk bd) False ?k7 = Some (k8, 0)" "k_fat k8 = kernel_fat_init (bd_fat_data bd)"
    "heap (k_sys k8) = h_buddy h" "k_heap k8 = h" "same_handlers (mach (k_sys ?k7)) (mach (k_sys k8))"
    using hal_disk_init_run [OF dev, of "bd_fat_data bd" "bd_disk bd" ?k7] by auto
  define k9 where "k9 = set_mem m' (k8\<lparr>k_sys := (k_sys k8)\<lparr>heap := b2\<rparr>, k_stack := s\<rparr>)"
  let ?k' = "say ''[LOG]Commands available.'' [] (say ''[LOG]Floppy Disk Driver initialised.'' [] k9)"
  have km8: "k_mem k8 = k_mem k4" using k8(4) H(3) w6(2) by (simp add: k_mem_def)
  have run: "kernel_start env bd scr_x scr_y table0 k = Some (Inr ?k')"
    unfolding kernel_start_def k2_def [symmetric] Let_def
    using m(1) B(1) h4 H(1,2) k8(1,3) H(4,5) w6(2) km8 ready(4)
    by (simp del: say_simps mach_on_mach add: k4_def [symmetric] k6_def [symmetric] k9_def)
  have he: "heap_empty (with_buddy ?k')"
    using H(10) by (simp add: k9_def with_buddy_def k8(4) heap_empty_def alloc_root_def free_root_def)
  have ap: "heap_and_stack_apart (with_buddy ?k') m' s"
    using H(11) by (simp add: k9_def with_buddy_def k8(4) heap_and_stack_apart_def)
  have "same_handlers m (mach (k_sys k8)\<lparr>kbd := kbd m\<rparr>)" "kbd (mach (k_sys k8)) = hal_keyboard_onpress (kbd m)"
    using k8(5) by (simp_all add: k6_def k4_def same_handlers_def log_msg_def)
  then have "isr_handlers (mach (k_sys ?k')) ! 0x88 = Some Isr_syscall" "irq_handlers (mach (k_sys ?k')) ! 1 = Some Irq_keyboard"
    "irq_handlers (mach (k_sys ?k')) ! 0 = Some Irq_idle" "\<forall>n < 16. isr_handlers (mach (k_sys ?k')) ! (32 + n) = Some Irq_handler"
    "g_keyboard_onpress_listener (kbd (mach (k_sys ?k')))"
    using m(2-4) t2(3) by (simp_all add: k9_def same_handlers_def log_msg_def hal_keyboard_onpress_def)
  moreover have "buddy_inv (heap (k_sys ?k'))" "k_mem ?k' = m'" "k_stack ?k' = s" "k_fat ?k' = kernel_fat_init (bd_fat_data bd)"
    using H(6) k8(2) by (simp_all add: k9_def)
  ultimately show ?thesis using run he ap H(7-9) by metis
qed

text \<open>C35: The start clears only a quarter of the memory between \<open>__bss_start\<close> and
  \<open>__kernel_end\<close>: the difference of the two pointers counts words, and \<open>memset\<close> bytes.\<close>

theorem clear_bss_quarter:
  assumes "unat a \<le> unat b" "unat b - unat a < 2 ^ 31" "j < unat b - unat a"
  shows "clear_bss a b m (a + word_of_nat j) = (if j < (unat b - unat a) div 4 then 0 else m (a + word_of_nat j))"
proof -
  let ?d = "unat b - unat a"
  have u: "unat (b - a) = ?d" using assms(1) by (simp add: unat_sub word_le_nat_alt)
  have "sint (b - a) = int ?d"
  proof -
    have "int (unat (b - a)) = uint (b - a)" by simp
    then have "uint (b - a) = int ?d" unfolding u by simp
    then show ?thesis using assms(2) by (simp add: sint_uint signed_take_bit_int_eq_self)
  qed
  then have "sint (b - a) sdiv 4 = int (?d div 4)" using sdiv_nat [of ?d 4] by simp
  then have n: "unat (word_of_int (sint (b - a) sdiv 4) :: u32) = ?d div 4"
    using assms(2) by (simp add: unat_of_nat take_bit_nat_eq_self)
  show ?thesis
  proof -
    have "(\<exists>i. i < ?d div 4 \<and> a + word_of_nat j = a + word_of_nat i) \<longleftrightarrow> j < ?d div 4"
    proof
      assume "\<exists>i. i < ?d div 4 \<and> a + word_of_nat j = a + word_of_nat i"
      then obtain i where i: "i < ?d div 4" "(word_of_nat j :: u32) = word_of_nat i" by auto
      have "unat (word_of_nat j :: u32) = j" "unat (word_of_nat i :: u32) = i"
        using i(1) assms(2,3) by (simp_all add: unat_of_nat take_bit_nat_eq_self)
      then show "j < ?d div 4" using i by metis
    qed auto
    then show ?thesis using n by (simp add: clear_bss_def memset_def memset_loop_apply)
  qed
qed

section \<open>Commands\<close>

lemma command_loop_word: "command_loop buf command = command @ takeWhile (\<lambda>c. c \<noteq> 32) buf"
  by (induction buf command rule: command_loop.induct) auto

lemma echo_loop_skips:
  "echo_loop arg i = i + (if \<forall>c \<in> set arg. c = 32 then length arg else Suc (length (takeWhile (\<lambda>c. c = 32) arg)))"
  by (induction arg i rule: echo_loop.induct) auto

lemma terminated_prefix:
  "(0 :: u8) \<notin> set xs \<Longrightarrow> 0 \<notin> set ys \<Longrightarrow> n = Suc (length ys) \<Longrightarrow> take n (xs @ [0]) = ys @ [0] \<longleftrightarrow> xs = ys"
proof (induction ys arbitrary: xs n)
  case Nil
  then show ?case by (cases xs) auto
next
  case (Cons y ys)
  then show ?case by (cases xs) auto
qed

text \<open>\<open>echo\<close> with a text prints the text without its leading spaces, a single space if there
  is nothing else; only \<open>on\<close> and \<open>off\<close> switch the echo instead.\<close>

theorem shell_echo:
  assumes "in_line inp = ascii ''echo'' @ 32 # arg" "length (in_line inp) < 1024" "0 \<notin> set arg"
  defines "shown \<equiv> (if dropWhile (\<lambda>c. c = 32) arg = [] then [32] else dropWhile (\<lambda>c. c = 32) arg)"
  shows "shell_step env bd inp k = Some
    (if shown = ascii ''on'' then say ''[LOG]echo is turned on.'' [] (on_mach (\<lambda>m. m\<lparr>con := (con m)\<lparr>g_enable_echo := True\<rparr>\<rparr>) k)
     else if shown = ascii ''off'' then say ''[LOG]echo is turned off.'' [] (on_mach (\<lambda>m. m\<lparr>con := (con m)\<lparr>g_enable_echo := False\<rparr>\<rparr>) k)
     else say (''[LOG]'' @ text_of shown) [] k, False)"
proof -
  let ?arg0 = "32 # arg"
  have "drop (echo_loop ?arg0 0 - 1) ?arg0 = shown"
  proof (cases "\<forall>c \<in> set arg. c = 32")
    case True
    then have r: "arg = replicate (length arg) 32" by (metis replicate_length_same)
    have "drop (length arg) (replicate (Suc (length arg)) 32) = [32 :: u8]" unfolding drop_replicate by simp
    then have "drop (length arg) (32 # replicate (length arg) 32) = [32 :: u8]" by simp
    then have "drop (length arg) ?arg0 = [32]" using r by metis
    moreover have "dropWhile (\<lambda>c. c = 32) arg = []" using True by (simp add: dropWhile_eq_Nil_conv)
    ultimately show ?thesis using True by (simp add: echo_loop_skips shown_def)
  next
    case False
    then have "shown = dropWhile (\<lambda>c. c = 32) arg" by (auto simp: shown_def dropWhile_eq_Nil_conv)
    moreover have "\<not> (\<forall>c \<in> set ?arg0. c = 32)" using False by simp
    then have "echo_loop ?arg0 0 - 1 = Suc (length (takeWhile (\<lambda>c. c = 32) arg))" unfolding echo_loop_skips by auto
    ultimately show ?thesis by (simp add: dropWhile_eq_drop)
  qed
  moreover have nz: "0 \<notin> set shown" using assms(3) by (auto simp: shown_def dest: set_dropWhileD)
  have "take 3 (shown @ [0]) = ascii ''on'' @ [0] \<longleftrightarrow> shown = ascii ''on''" "take 4 (shown @ [0]) = ascii ''off'' @ [0] \<longleftrightarrow> shown = ascii ''off''"
    by (rule terminated_prefix [OF nz]; simp add: ascii_def)+
  moreover have "shell_step env bd inp k = Some (cmd_echo ?arg0 k, False)"
  proof -
    have w: "command_loop (in_line inp) [] = ascii ''echo''" by (simp add: assms(1) command_loop_word ascii_def)
    have "ascii ''echo'' \<noteq> ascii ''help''" "drop 4 (in_line inp) = ?arg0" by (simp_all add: assms(1) ascii_def)
    then show ?thesis unfolding shell_step_def Let_def w using assms(2) by (simp only: if_False if_True not_le [symmetric]) simp
  qed
  moreover have "cmd_echo ?arg0 k =
    (if take 3 (shown @ [0]) = ascii ''on'' @ [0] then say ''[LOG]echo is turned on.'' [] (on_mach (\<lambda>m. m\<lparr>con := (con m)\<lparr>g_enable_echo := True\<rparr>\<rparr>) k)
     else if take 4 (shown @ [0]) = ascii ''off'' @ [0] then say ''[LOG]echo is turned off.'' [] (on_mach (\<lambda>m. m\<lparr>con := (con m)\<lparr>g_enable_echo := False\<rparr>\<rparr>) k)
     else say (''[LOG]'' @ text_of shown) [] k)"
    if "drop (echo_loop ?arg0 0 - 1) ?arg0 = shown"
    unfolding cmd_echo_def Let_def that by simp
  ultimately show ?thesis by (simp only:)
qed

section \<open>Switching off\<close>

lemma stack_outw: "k_outw (fst (kernel_pop k)) = k_outw k" "k_outw (kernel_push env x k) = k_outw k" "k_outw (store_at p v k) = k_outw k"
  by (simp_all add: kernel_pop_def kernel_push_def store_at_def split: prod.split)

lemma kernel_pop_outw: "kernel_pop k = (k1, a) \<Longrightarrow> k_outw k1 = k_outw k"
  using stack_outw(1) [of k] by simp

lemma heap_outw:
  "kernel_malloc sz k = Some (k1, p) \<Longrightarrow> k_outw k1 = k_outw k"
  "kernel_realloc ptr sz k = Some (k1, p) \<Longrightarrow> k_outw k1 = k_outw k"
  "kernel_free ptr k = Some k1 \<Longrightarrow> k_outw k1 = k_outw k"
  by (auto simp: kernel_malloc_def kernel_realloc_def kernel_free_def)

lemma print_file_outw:
  assumes "print_file env h buffer k = Some k'"
  shows "k_outw k' = k_outw k"
proof (rule print_file.raw_induct [OF _ assms, of "\<lambda>env h buffer k k'. k_outw k' = k_outw k"])
  fix rec :: "'a kernel_env \<Rightarrow> int \<Rightarrow> u32 \<Rightarrow> 'a kernel \<Rightarrow> 'a kernel option" and env h buffer k k'
  assume ih: "\<And>env h buffer k k'. rec env h buffer k = Some k' \<Longrightarrow> k_outw k' = k_outw k"
    and step: "do {
      (st, data) \<leftarrow> fat_read (dev_disk env) (k_fat k) h 15000;
      let k1 = set_mem (put_bytes (k_mem k) buffer data) (k\<lparr>k_fat := st\<rparr>);
      if data = [] then Some k1
      else do {
        let k2 = set_mem ((k_mem k1)(buffer + word_of_nat (length data) := 0)) k1;
        (c, n) \<leftarrow> writef (k_mem k2) (con (mach (k_sys k2))) buffer (args_addr env);
        rec env h buffer (on_mach (\<lambda>m. m\<lparr>con := c\<rparr>) k2)
      }
    } = Some k'"
  show "k_outw k' = k_outw k"
    using step by (auto simp: Let_def dest!: ih split: bind_splits if_splits prod.splits)
qed

lemma test_outw:
  "cmd_try k = Some k' \<Longrightarrow> k_outw k' = k_outw k"
  "cmd_try1 env sz k = Some k' \<Longrightarrow> k_outw k' = k_outw k"
  "cmd_try2 env sz k = Some k' \<Longrightarrow> k_outw k' = k_outw k"
  "cmd_try4 env sz k = Some k' \<Longrightarrow> k_outw k' = k_outw k"
  by (auto simp: cmd_try_def cmd_try1_def cmd_try2_def cmd_try4_def Let_def stack_outw
      dest!: kernel_pop_outw heap_outw split: bind_splits prod.splits if_splits)

lemma cmd_try3_outw: "cmd_try3 env k = Some k' \<Longrightarrow> k_outw k' = k_outw k"
  by (auto simp: cmd_try3_def Let_def dest!: heap_outw print_file_outw split: bind_splits prod.splits option.splits)

lemma cmd_run_outw: "cmd_run env f prio k = Some k' \<Longrightarrow> k_outw k' = k_outw k"
  by (auto simp: cmd_run_def split: bind_splits prod.splits if_splits)

lemma cmd_memmap_outw: "cmd_memmap blks k = Some k' \<Longrightarrow> k_outw k' = k_outw k"
proof -
  have "for_loop (\<lambda>b k. do {
       name \<leftarrow> aread g_memory_block_type_str (unat (mb_type b - 1));
       Some (say (''%08X-%08X '' @ name) [ucast (mb_begin b), ucast (mb_begin b + mb_length b - 1)] k)
     }) blks k0 = Some k' \<Longrightarrow> k_outw k' = k_outw k0" for k0
    by (induction blks arbitrary: k0) (auto split: bind_splits)
  then show "cmd_memmap blks k = Some k' \<Longrightarrow> k_outw k' = k_outw k" by (simp add: cmd_memmap_def)
qed

lemma cmd_echo_outw: "k_outw (cmd_echo arg k) = k_outw k"
  by (simp add: cmd_echo_def Let_def)

lemma shell_step_outw:
  assumes "shell_step env bd inp k = Some (k', stop)"
  shows "if stop then takeWhile (\<lambda>c. c \<noteq> 32) (in_line inp) = ascii ''shutdown'' \<and> char_at (in_answer inp) 0 = 121 \<and>
    k_outw k' = k_outw k @ [(0x604, 0x2000)] else k_outw k' = k_outw k"
  using assms unfolding shell_step_def Let_def command_loop_word append_Nil
  by (auto simp: cmd_echo_outw cmd_shutdown_def hal_shutdown_def Let_def dest!: test_outw cmd_try3_outw cmd_run_outw cmd_memmap_outw split: if_splits)

text \<open>Over any run of the shell the machine is switched off only by the word \<open>shutdown\<close> with an
  answer that starts with \<open>y\<close>, which also ends the run; no other command writes the port.\<close>

theorem power_off_only_by_shutdown:
  assumes "shell_run env bd inps k = Some (k', stop)"
  shows "if stop then \<exists>inp \<in> set inps. takeWhile (\<lambda>c. c \<noteq> 32) (in_line inp) = ascii ''shutdown'' \<and>
      char_at (in_answer inp) 0 = 121 \<and> k_outw k' = k_outw k @ [(0x604, 0x2000)]
    else k_outw k' = k_outw k"
  using assms
proof (induction inps arbitrary: k)
  case (Cons inp inps)
  then obtain k1 st where s: "shell_step env bd inp k = Some (k1, st)"
    "(if st then Some (k1, True) else shell_run env bd inps k1) = Some (k', stop)"
    by (auto split: bind_splits)
  show ?case
  proof (cases st)
    case True
    then show ?thesis using s shell_step_outw [OF s(1)] by auto
  next
    case False
    then have "k_outw k1 = k_outw k" "shell_run env bd inps k1 = Some (k', stop)" using s shell_step_outw [OF s(1)] by auto
    then show ?thesis using Cons.IH [of k1] by (auto split: if_splits)
  qed
qed simp

section \<open>Allocation and release from the shell\<close>

text \<open>The memory of the heap and of the stack.\<close>

definition heap_area :: "heap \<Rightarrow> u32 \<Rightarrow> u32 \<Rightarrow> nat set" where
  "heap_area st s n = range_of (heapc st) 8 \<union> range_of s (unat n) \<union> range_of (heap_blocks st) (4 * unat (heap_blocks_size st))"

definition stack_area :: "memory \<Rightarrow> u32 \<Rightarrow> nat set" where
  "stack_area m s = {unat (stack_min m s) ..< unat s + 16}"

lemma heap_ok_area:
  assumes ok: "heap_ok st s n hs" and m: "same_on m (h_mem st) (heap_area st s n)"
  shows "heap_ok (st\<lparr>h_mem := m\<rparr>) s n hs"
proof -
  note D = heap_okD [OF ok]
  have g: "geometry (heapc st) (heap_blocks st) (heap_blocks_size st) s n" using D(1) by simp
  have f: "fits_memory (heap_blocks st) (4 * unat (heap_blocks_size st))" "2 \<le> unat (heap_blocks_size st)" using g by (simp_all add: geometry_def)
  have tab: "load32 m (heap_blocks st + 4 * word_of_nat i) = load32 (h_mem st) (heap_blocks st + 4 * word_of_nat i)"
    if "i < unat (heap_blocks_size st)" for i
    by (rule same_on_load32 [OF m]) (use table_word(2,3) [OF f(1) that] in \<open>auto simp: heap_area_def\<close>)
  have cell: "load32 m c = load32 (h_mem st) c" if c: "c \<in> heap_cells (heapc st) hs" for c
  proof (rule same_on_load32 [OF m])
    show "fits_memory c 4" using cells_heap [OF g D(2)] c by (simp add: cells_def)
    consider "range_of c 4 \<subseteq> range_of (heapc st) 8" | u where "(c, u) \<in> set hs"
      using c root_cells(5,6) [OF g] by (auto simp: heap_cells_def)
    then show "range_of c 4 \<subseteq> heap_area st s n"
      using header_cell(3) [OF g D(2)] by cases (auto simp: heap_area_def)
  qed
  have "one_entry m (heap_blocks st) (heap_blocks_size st) s n"
    using D(1) tab [of 0] tab [of 1] tab f(2) by (simp add: one_entry_def)
  moreover have "linked (load32 m) (alloc_root st) (objects hs) = linked (load32 (h_mem st)) (alloc_root st) (objects hs)"
    "linked (load32 m) (free_root st) (spaces hs) = linked (load32 (h_mem st)) (free_root st) (spaces hs)"
    by (rule linked_cong, rule cell; auto simp: alloc_root_def free_root_def)+
  ultimately show ?thesis using ok by (simp add: heap_ok_def)
qed

lemma stack_same:
  assumes inv: "stack_inv (m, s)" and same: "same_on m' m (stack_area m s)"
  shows "stack_inv (m', s)" "stack_content (m', s) = stack_content (m, s)" "stack_capacity (m', s) = stack_capacity (m, s)"
    "stack_elem_size m' s = stack_elem_size m s" "stack_area m' s = stack_area m s"
proof -
  have i: "fits_memory s 16" "0 < unat (stack_elem_size m s)" "unat (stack_min m s) \<le> unat (stack_sp m s)"
    "unat (stack_sp m s) \<le> unat s" using inv by (auto simp: stack_inv_def)
  have "same_on m' m {unat s ..< unat s + 16}" by (rule same_on_mono [OF same]) (use i in \<open>auto simp: stack_area_def\<close>)
  note f = same_on_fields [OF this i(1)]
  show "stack_inv (m', s)" "stack_capacity (m', s) = stack_capacity (m, s)" "stack_elem_size m' s = stack_elem_size m s"
    "stack_area m' s = stack_area m s"
    using inv by (simp_all add: stack_inv_def stack_capacity_def stack_area_def f)
  have h: "unat (stack_sp m s) + stack_height (m, s) * unat (stack_elem_size m s) = unat s" by (rule stack_height_le(2) [OF inv])
  have "elements_at m' (stack_sp m s) (unat (stack_elem_size m s)) (stack_height (m, s)) =
      elements_at m (stack_sp m s) (unat (stack_elem_size m s)) (stack_height (m, s))"
    by (rule elements_at_cong [OF same _ _ i(2)])
      (use h i(3) unsigned_less [of s, where 'a = nat] in \<open>auto simp: fits_memory_def range_of_def stack_area_def\<close>)
  moreover have "stack_height (m', s) = stack_height (m, s)" by (simp add: stack_height_def f)
  ultimately show "stack_content (m', s) = stack_content (m, s)" by (simp add: stack_content_def f)
qed

lemma stack_sp_store:
  assumes inv: "stack_inv (m, s)"
  shows "same_on (store32 m (s + 8) w) m (- stack_area m s)"
  unfolding same_on_def
proof (intro allI impI)
  fix x :: u32 assume x: "unat x \<in> - stack_area m s"
  have i: "fits_memory s 16" "unat (stack_min m s) \<le> unat s" using inv by (auto simp: stack_inv_def)
  have u: "unat (s + 8) = unat s + 8" using i(1) unat_add_nat [of s 8] by (simp add: fits_memory_def)
  show "store32 m (s + 8) w x = m x"
    by (rule store32_outside) (use x i u in \<open>auto simp: fits_memory_def range_of_def stack_area_def\<close>)
qed

lemma stack_pop_kept:
  assumes "stack_inv (m, s)"
  shows "same_on (fst (stack_pop m s)) m (- stack_area m s)" "stack_area (fst (stack_pop m s)) s = stack_area m s"
    "stack_elem_size (fst (stack_pop m s)) s = stack_elem_size m s"
  using stack_sp_store [OF assms] set_sp(2,3) [of s m] assms
  by (simp_all add: stack_pop_def Let_def stack_area_def stack_inv_def) (simp_all add: same_on_def)

lemma stack_push_kept:
  assumes inv: "stack_inv (m, s)" and arg: "stack_readable (m, s) x"
  shows "same_on (fst (stack_push m s x)) m (- stack_area m s)" "stack_area (fst (stack_push m s x)) s = stack_area m s"
    "stack_elem_size (fst (stack_push m s x)) s = stack_elem_size m s"
proof (atomize (full), cases "stack_min m s \<le> stack_sp m s - stack_elem_size m s")
  case True
  let ?e = "stack_elem_size m s" and ?new = "stack_sp m s - stack_elem_size m s"
  note n = stack_new_ptr [OF inv]
  have i: "unat (stack_sp m s) \<le> unat s" "unat (stack_min m s) + unat ?e \<le> unat (stack_sp m s)" "fits_memory s 16"
    using inv True n(1) by (auto simp: stack_inv_def)
  have sub: "range_of ?new (unat ?e) \<subseteq> stack_area m s" using i n(2) by (auto simp: range_of_def stack_area_def)
  have fm: "fits_memory ?new (unat ?e)" using i n(2) unsigned_less [of s, where 'a = nat] by (simp add: fits_memory_def)
  have fx: "fits_memory x (unat ?e)" "range_of ?new (unat ?e) \<inter> range_of x (unat ?e) = {}"
    using arg sub by (auto simp: stack_readable_def stack_area_def)
  define m1 where "m1 = fst (memcpy m ?new x ?e)"
  have c: "same_on m1 m (- range_of ?new (unat ?e))" unfolding m1_def by (rule memcpy_ranges(2) [OF fm fx])
  have "same_on (store32 m1 (s + 8) ?new) m1 (- stack_area m s)"
    unfolding same_on_def
  proof (intro allI impI)
    fix y :: u32 assume y: "unat y \<in> - stack_area m s"
    have u: "unat (s + 8) = unat s + 8" using i(3) unat_add_nat [of s 8] by (simp add: fits_memory_def)
    show "store32 m1 (s + 8) ?new y = m1 y"
      by (rule store32_outside) (use y i u in \<open>auto simp: fits_memory_def range_of_def stack_area_def\<close>)
  qed
  moreover have "same_on m1 m (- stack_area m s)" by (rule same_on_mono [OF c]) (use sub in auto)
  moreover have "fst (stack_push m s x) = store32 m1 (s + 8) ?new"
    using True by (simp add: stack_push_def Let_def m1_def case_prod_unfold)
  moreover have "stack_min m1 s = stack_min m s" "stack_elem_size m1 s = stack_elem_size m s"
    by (rule same_on_fields [OF same_on_mono [OF c] i(3)]; use i n(2) in \<open>auto simp: range_of_def\<close>)+
  ultimately show "same_on (fst (stack_push m s x)) m (- stack_area m s) \<and> stack_area (fst (stack_push m s x)) s = stack_area m s \<and>
      stack_elem_size (fst (stack_push m s x)) s = stack_elem_size m s"
    using set_sp(2,3) [OF i(3)] by (simp add: same_on_def stack_area_def)
next
  case False
  then show "same_on (fst (stack_push m s x)) m (- stack_area m s) \<and> stack_area (fst (stack_push m s x)) s = stack_area m s \<and>
      stack_elem_size (fst (stack_push m s x)) s = stack_elem_size m s"
    by (simp add: stack_push_def Let_def same_on_def)
qed

text \<open>The four bytes of a pointer in memory.\<close>

definition pointer_bytes :: "u32 \<Rightarrow> u8 list" where
  "pointer_bytes w = bytes_at (store32 (\<lambda>_. 0) 0 w) 0 4"

lemma pointer_bytes:
  "bytes_at (store32 m a w) a 4 = pointer_bytes w" "bytes_at m a 4 = pointer_bytes w \<Longrightarrow> load32 m a = w"
proof -
  show b: "bytes_at (store32 m a w) a 4 = pointer_bytes w" for m a
    by (simp add: pointer_bytes_def bytes_at_4 store32_def)
  assume "bytes_at m a 4 = pointer_bytes w"
  then have "bytes_at m a 4 = bytes_at (store32 m 0 w) 0 4" using b by simp
  then have "load32 m a = load32 (store32 m 0 w) 0" by (simp add: bytes_at_4 load32_def)
  then show "load32 m a = w" by simp
qed

text \<open>The heap and the stack are well-formed and apart, and the arguments of a call lie outside both.\<close>

definition shell_ready :: "'d kernel_env \<Rightarrow> 'd kernel \<Rightarrow> u32 \<Rightarrow> u32 \<Rightarrow> HeapLayout.layout \<Rightarrow> bool" where
  "shell_ready env k s n hs \<longleftrightarrow> heap_ok (with_buddy k) s n hs \<and>
     stack_inv (k_mem k, k_stack k) \<and> stack_elem_size (k_mem k) (k_stack k) = 4 \<and>
     heap_area (with_buddy k) s n \<inter> stack_area (k_mem k) (k_stack k) = {} \<and> fits_memory (args_addr env) 4 \<and>
     range_of (args_addr env) 4 \<inter> (heap_area (with_buddy k) s n \<union> stack_area (k_mem k) (k_stack k)) = {}"

abbreviation shell_stack :: "'d kernel \<Rightarrow> u8 list list" where
  "shell_stack k \<equiv> stack_content (k_mem k, k_stack k)"

text \<open>An operation of the heap keeps the stack.\<close>

lemma ready_set_heap:
  assumes rd: "shell_ready env k s n hs" and ok: "heap_ok h s n hs'" and cells: "only_cells (with_buddy k) h (kept (heapc (with_buddy k)) s n hs'')"
  shows "shell_ready env (set_heap h k) s n hs'" "shell_stack (set_heap h k) = shell_stack k"
    "stack_capacity (h_mem h, k_stack k) = stack_capacity (k_mem k, k_stack k)" "heap (k_sys (set_heap h k)) = heap (k_sys k)"
proof -
  have "stack_area (k_mem k) (k_stack k) \<subseteq> kept (heapc (with_buddy k)) s n hs''"
    using rd by (auto simp: shell_ready_def kept_def heap_area_def)
  moreover have "same_on (k_mem k) (h_mem h) (kept (heapc (with_buddy k)) s n hs'')"
    using cells by (simp add: only_cells_def with_buddy_def k_mem_def)
  ultimately have "same_on (k_mem k) (h_mem h) (stack_area (k_mem k) (k_stack k))" by (rule same_on_mono [rotated])
  then have "same_on (h_mem h) (k_mem k) (stack_area (k_mem k) (k_stack k))" by (simp add: same_on_def)
  note st = stack_same [OF _ this]
  have "heap_area h s n = heap_area (with_buddy k) s n" using cells by (simp add: only_cells_def heap_area_def)
  then show "shell_ready env (set_heap h k) s n hs'" "shell_stack (set_heap h k) = shell_stack k"
    "stack_capacity (h_mem h, k_stack k) = stack_capacity (k_mem k, k_stack k)"
    using rd ok st by (simp_all add: shell_ready_def)
  show "heap (k_sys (set_heap h k)) = heap (k_sys k)" using cells by (simp add: only_cells_def with_buddy_def)
qed

text \<open>A change of memory outside the heap keeps the heap.\<close>

lemma ready_set_mem:
  assumes rd: "shell_ready env k s n hs" and m: "same_on m (k_mem k) (heap_area (with_buddy k) s n)"
    and st: "stack_inv (m, k_stack k)" "stack_elem_size m (k_stack k) = 4" "stack_area m (k_stack k) = stack_area (k_mem k) (k_stack k)"
  shows "shell_ready env (set_mem m k) s n hs"
proof -
  have "h_mem (with_buddy k) = k_mem k" by (simp add: with_buddy_def k_mem_def)
  then have "heap_ok ((with_buddy k)\<lparr>h_mem := m\<rparr>) s n hs"
    using heap_ok_area [of "with_buddy k" s n hs m] rd m by (simp add: shell_ready_def)
  moreover have "heap_area ((with_buddy k)\<lparr>h_mem := m\<rparr>) s n = heap_area (with_buddy k) s n" by (simp add: heap_area_def)
  ultimately show ?thesis using rd st by (simp add: shell_ready_def)
qed

lemma ready_push:
  assumes rd: "shell_ready env k s n hs" and room: "stack_height (k_mem k, k_stack k) < stack_capacity (k_mem k, k_stack k)"
  shows "shell_ready env (kernel_push env p k) s n hs" "shell_stack (kernel_push env p k) = pointer_bytes p # shell_stack k"
    "same_on (k_mem (kernel_push env p k)) (k_mem k) (heap_area (with_buddy k) s n)"
proof -
  let ?s = "k_stack k" and ?args = "args_addr env" and ?A = "heap_area (with_buddy k) s n" and ?S = "stack_area (k_mem k) (k_stack k)"
  note R = rd [unfolded shell_ready_def]
  define m2 where "m2 = store32 (k_mem k) ?args p"
  have s2: "same_on m2 (k_mem k) (?A \<union> ?S)"
    unfolding same_on_def
  proof (intro allI impI)
    fix x :: u32 assume "unat x \<in> ?A \<union> ?S"
    moreover have "range_of ?args 4 \<inter> (?A \<union> ?S) = {}" "fits_memory ?args 4" using R by simp_all
    ultimately show "m2 x = k_mem k x" unfolding m2_def by (intro store32_outside) blast+
  qed
  have "same_on m2 (k_mem k) ?S" by (rule same_on_mono [OF s2]) simp
  note st2 = stack_same [OF _ this]
  have inv2: "stack_inv (m2, ?s)" and e2: "stack_elem_size m2 ?s = 4" using st2(1,4) R by simp_all
  have arg: "stack_readable (m2, ?s) ?args"
    using R e2 st2(5) by (auto simp: stack_readable_def stack_area_def)
  have room2: "stack_height (m2, ?s) < stack_capacity (m2, ?s)"
    using room st2(2,3) R length_stack_content by metis
  obtain m3 where m3: "stack_push m2 ?s ?args = (m3, 0)" "stack_inv (m3, ?s)"
    "stack_content (m3, ?s) = stack_elem (m2, ?s) ?args # stack_content (m2, ?s)"
    using stack_push_room [OF inv2 arg room2] by blast
  have s3: "same_on m3 m2 (- ?S)" "stack_area m3 ?s = ?S" "stack_elem_size m3 ?s = 4"
    using stack_push_kept [OF inv2 arg] m3(1) st2(5) R e2 by simp_all
  have A: "same_on m3 (k_mem k) ?A" using s2 s3(1) R by (auto simp: same_on_def)
  have k: "kernel_push env p k = set_mem m3 k" using m3(1) by (simp add: kernel_push_def m2_def)
  show "shell_ready env (kernel_push env p k) s n hs" unfolding k by (rule ready_set_mem [OF rd A m3(2) s3(3,2)])
  show "same_on (k_mem (kernel_push env p k)) (k_mem k) ?A" using A by (simp add: k)
  have "stack_elem (m2, ?s) ?args = pointer_bytes p" using pointer_bytes(1) e2 by (simp add: stack_elem_def m2_def)
  then show "shell_stack (kernel_push env p k) = pointer_bytes p # shell_stack k" using m3(3) st2(2) R by (simp add: k)
qed

lemma ready_pop:
  assumes rd: "shell_ready env k s n hs" and top: "shell_stack k = pointer_bytes p # rest"
  obtains k' a where "kernel_pop k = (k', a)" "a \<noteq> 0" "load_at k' a = Some p" "shell_ready env k' s n hs" "shell_stack k' = rest"
    "same_on (k_mem k') (k_mem k) (heap_area (with_buddy k) s n)" "heap (k_sys k') = heap (k_sys k)" "with_buddy k' = (with_buddy k)\<lparr>h_mem := k_mem k'\<rparr>"
proof -
  let ?s = "k_stack k"
  note R = rd [unfolded shell_ready_def]
  have inv: "stack_inv (k_mem k, ?s)" using R by simp
  have "stack_height (k_mem k, ?s) = Suc (length rest)" using top by (metis length_Cons length_stack_content)
  from stack_pop_elem [OF inv this] obtain m a where m: "stack_pop (k_mem k) ?s = (m, a)" "a \<noteq> 0" "stack_inv (m, ?s)"
    "stack_elem (m, ?s) a = pointer_bytes p" "stack_content (m, ?s) = rest"
    using top by auto
  have s: "same_on m (k_mem k) (- stack_area (k_mem k) ?s)" "stack_area m ?s = stack_area (k_mem k) ?s" "stack_elem_size m ?s = 4"
    using stack_pop_kept [OF inv] m(1) R by simp_all
  have A: "same_on m (k_mem k) (heap_area (with_buddy k) s n)" by (rule same_on_mono [OF s(1)]) (use R in blast)
  have "shell_ready env (set_mem m k) s n hs" by (rule ready_set_mem [OF rd A m(3) s(3,2)])
  moreover have "kernel_pop k = (set_mem m k, a)" using m(1) by (simp add: kernel_pop_def)
  moreover have "load32 m a = p" using m(4) s(3) by (intro pointer_bytes(2)) (simp add: stack_elem_def)
  then have "load_at (set_mem m k) a = Some p" using m(2) by (simp add: load_at_def deref_def)
  ultimately show thesis using that [of "set_mem m k" a] m(2,5) A by simp
qed

lemma bodies_area:
  assumes "tiles s n hs"
  shows "bodies (unat s + unat n) hs \<subseteq> range_of s (unat n)"
proof
  fix x assume x: "x \<in> bodies (unat s + unat n) hs"
  obtain a u where a: "(a, u) \<in> set hs" "unat a + 4 \<le> x" using bodies_in [OF x] by blast
  have l: "laid (unat s + unat n) hs" using assms by (simp add: tiles_def)
  show "x \<in> range_of s (unat n)"
    using tiles_within [OF assms a(1)] a(2) bodies_below [OF l x] by (simp add: range_of_def within_def)
qed

lemma only_cells_area: "only_cells st st' A \<Longrightarrow> heap_area st' s n = heap_area st s n"
  by (simp add: only_cells_def heap_area_def)

text \<open>\<open>try2\<close> places an object and pushes the pointer to it.\<close>

lemma try2_allocates:
  assumes rd: "shell_ready env k s n hs" and sz: "0 < unat sz" "unat sz + 4 < 2 ^ 32" and fit: "fitting s n (sz + 4) hs p g q"
    and room: "stack_height (k_mem k, k_stack k) < stack_capacity (k_mem k, k_stack k)"
  obtains k1 pre f rest post where "picked (sz + 4 < HEAP_FIRST_FIT_MAX_SIZE) s n (sz + 4) hs pre f post"
    "cmd_try2 env sz k = Some k1" "place s n (sz + 4) pre f post = pre @ (f, True) # rest"
    "shell_ready env k1 s n (pre @ (f, True) # rest)" "shell_stack k1 = pointer_bytes (f + 4) # shell_stack k"
    "same_on (k_mem k1) (k_mem k) (bodies (unat s + unat n) hs)" "heap (k_sys k1) = heap (k_sys k)"
    "heap_area (with_buddy k1) s n = heap_area (with_buddy k) s n"
    "objects pre @ objects rest \<noteq> []" "release pre f rest = hs" "f + 4 \<noteq> 0"
proof -
  let ?H = "with_buddy k" and ?B = "bodies (unat s + unat n) hs"
  have ok: "heap_ok ?H s n hs" using rd by (simp add: shell_ready_def)
  obtain pre f post h1 where r: "picked (sz + 4 < HEAP_FIRST_FIT_MAX_SIZE) s n (sz + 4) hs pre f post"
    "malloc ?H sz = Some (h1, f + 4)" "heap_ok h1 s n (place s n (sz + 4) pre f post)" "only_cells ?H h1 (kept (heapc ?H) s n hs)"
    using malloc_fits [OF ok sz fit] by blast
  have hs: "hs = pre @ (f, False) # post" using r(1) by (auto simp: picked_def fitting_def)
  obtain rest where R: "place s n (sz + 4) pre f post = pre @ (f, True) # (rest @ post)" "objects pre @ objects (rest @ post) \<noteq> []"
    "release pre f (rest @ post) = hs" "f + 4 \<noteq> 0"
    using place_then_release [OF ok [unfolded hs], of "sz + 4"] hs by metis
  let ?ka = "say ''0x%X'' [f + 4] (set_heap h1 k)"
  note a = ready_set_heap [OF rd r(3,4)]
  have rda: "shell_ready env ?ka s n (place s n (sz + 4) pre f post)" using a(1) by (simp add: shell_ready_def)
  have rooma: "stack_height (k_mem ?ka, k_stack ?ka) < stack_capacity (k_mem ?ka, k_stack ?ka)"
    using room a(2,3) length_stack_content by (metis say_simps(5,6) set_heap_simps(4,5))
  note b = ready_push [OF rda rooma, of "f + 4"]
  let ?k1 = "say ''0x%X'' [f + 4] (kernel_push env (f + 4) ?ka)"
  have run: "cmd_try2 env sz k = Some ?k1" using r(2) R(4) by (simp add: cmd_try2_def kernel_malloc_def)
  have rd1: "shell_ready env ?k1 s n (pre @ (f, True) # (rest @ post))" "shell_stack ?k1 = pointer_bytes (f + 4) # shell_stack k"
    using b(1,2) a(2) R(1) by (simp_all add: shell_ready_def)
  have BA: "?B \<subseteq> heap_area ?H s n" using bodies_area [OF heap_okD(2) [OF ok]] by (auto simp: heap_area_def)
  have ar: "heap_area h1 s n = heap_area ?H s n" by (rule only_cells_area [OF r(4)])
  have "same_on (k_mem k) (h_mem h1) ?B" using r(4) by (auto simp: only_cells_def same_on_def kept_def with_buddy_def k_mem_def)
  moreover have "same_on (k_mem ?k1) (h_mem h1) ?B" using same_on_mono [OF b(3)] BA ar by simp
  ultimately have same: "same_on (k_mem ?k1) (k_mem k) ?B" by (simp add: same_on_def)
  have "heap (k_sys ?k1) = heap (k_sys k)" "heap_area (with_buddy ?k1) s n = heap_area ?H s n"
    using a(4) ar by (simp_all add: heap_area_def kernel_push_def)
  then show ?thesis using that [OF r(1) run R(1) rd1 same _ _ R(2-4)] by simp
qed

text \<open>\<open>try\<close> pops a pointer and releases what it points to.\<close>

lemma try_releases:
  assumes rd: "shell_ready env k s n (pre @ (f, True) # post)" "shell_stack k = pointer_bytes (f + 4) # xs"
    and other: "objects pre @ objects post \<noteq> []" and B: "B \<subseteq> bodies (unat s + unat n) (pre @ (f, True) # post)" "B \<subseteq> heap_area (with_buddy k) s n"
  obtains k2 where "cmd_try k = Some k2" "shell_ready env k2 s n (release pre f post)" "shell_stack k2 = xs"
    "same_on (k_mem k2) (k_mem k) B" "heap (k_sys k2) = heap (k_sys k)"
proof -
  obtain k' x where P: "kernel_pop k = (k', x)" "x \<noteq> 0" "load_at k' x = Some (f + 4)"
    "shell_ready env k' s n (pre @ (f, True) # post)" "shell_stack k' = xs"
    "same_on (k_mem k') (k_mem k) (heap_area (with_buddy k) s n)" "heap (k_sys k') = heap (k_sys k)"
    "with_buddy k' = (with_buddy k)\<lparr>h_mem := k_mem k'\<rparr>"
    by (rule ready_pop [OF rd])
  have ok': "heap_ok (with_buddy k') s n (pre @ (f, True) # post)" using P(4) by (simp add: shell_ready_def)
  obtain h5 where h5: "heap_free (with_buddy k') (f + 4) = Some h5" "heap_ok h5 s n (release pre f post)"
    "only_cells (with_buddy k') h5 (kept (heapc (with_buddy k')) s n (pre @ (f, True) # post))"
    using free_shared_run [OF ok' other] by auto
  let ?k' = "say ''0x%X'' [f + 4] k'"
  have rd': "shell_ready env ?k' s n (pre @ (f, True) # post)" using P(4) by (simp add: shell_ready_def)
  have cells': "only_cells (with_buddy ?k') h5 (kept (heapc (with_buddy ?k')) s n (pre @ (f, True) # post))" using h5(3) by simp
  note c = ready_set_heap [OF rd' h5(2) cells']
  let ?k2 = "set_heap h5 ?k'"
  have run: "cmd_try k = Some ?k2" using P(1-3) h5(1) by (simp add: cmd_try_def kernel_free_def)
  have "same_on (k_mem k') (k_mem k) B" by (rule same_on_mono [OF P(6) B(2)])
  moreover have "same_on (k_mem k') (h_mem h5) B"
    using h5(3) B(1) by (auto simp: only_cells_def same_on_def kept_def with_buddy_def k_mem_def)
  ultimately have same: "same_on (k_mem ?k2) (k_mem k) B" by (simp add: same_on_def)
  show ?thesis using that [OF run c(1) _ same] c(2,4) P(5,7) by simp
qed

text \<open>C34: \<open>try2\<close> with a size that fits the heap pushes a pointer to new memory, and \<open>try\<close> then frees
  what it points to: the layout of the heap, the bytes of all objects, the contents of the
  stack and the buddy allocator are as before. Both keep heap and stack well-formed.\<close>

theorem allocate_release_commands:
  assumes rd: "shell_ready env k s n hs" and sz: "0 < unat sz" "unat sz + 4 < 2 ^ 32" and fit: "fitting s n (sz + 4) hs p g q"
    and room: "stack_height (k_mem k, k_stack k) < stack_capacity (k_mem k, k_stack k)"
  shows "\<exists>k1 k2 pre f post. picked (sz + 4 < HEAP_FIRST_FIT_MAX_SIZE) s n (sz + 4) hs pre f post \<and>
    cmd_try2 env sz k = Some k1 \<and> shell_ready env k1 s n (place s n (sz + 4) pre f post) \<and>
    shell_stack k1 = pointer_bytes (f + 4) # shell_stack k \<and>
    cmd_try k1 = Some k2 \<and> shell_ready env k2 s n hs \<and> shell_stack k2 = shell_stack k \<and>
    same_on (k_mem k2) (k_mem k) (bodies (unat s + unat n) hs) \<and> heap (k_sys k2) = heap (k_sys k)"
proof -
  let ?B = "bodies (unat s + unat n) hs"
  have ok: "heap_ok (with_buddy k) s n hs" using rd by (simp add: shell_ready_def)
  obtain k1 pre f rest post where a: "picked (sz + 4 < HEAP_FIRST_FIT_MAX_SIZE) s n (sz + 4) hs pre f post"
    "cmd_try2 env sz k = Some k1" "place s n (sz + 4) pre f post = pre @ (f, True) # rest"
    "shell_ready env k1 s n (pre @ (f, True) # rest)" "shell_stack k1 = pointer_bytes (f + 4) # shell_stack k"
    "same_on (k_mem k1) (k_mem k) ?B" "heap (k_sys k1) = heap (k_sys k)"
    "heap_area (with_buddy k1) s n = heap_area (with_buddy k) s n"
    "objects pre @ objects rest \<noteq> []" "release pre f rest = hs" "f + 4 \<noteq> 0"
    by (rule try2_allocates [OF rd sz fit room])
  have hs: "hs = pre @ (f, False) # post" using a(1) by (auto simp: picked_def fitting_def)
  have B: "?B \<subseteq> bodies (unat s + unat n) (pre @ (f, True) # rest)"
    using place_bodies [of "unat s + unat n" pre f post s n "sz + 4"] unfolding a(3) hs .
  have BA: "?B \<subseteq> heap_area (with_buddy k1) s n"
    using bodies_area [OF heap_okD(2) [OF ok]] unfolding a(8) by (auto simp: heap_area_def)
  obtain k2 where b: "cmd_try k1 = Some k2" "shell_ready env k2 s n (release pre f rest)" "shell_stack k2 = shell_stack k"
    "same_on (k_mem k2) (k_mem k1) ?B" "heap (k_sys k2) = heap (k_sys k1)"
    by (rule try_releases [OF a(4,5,9) B BA])
  have rd1: "shell_ready env k1 s n (place s n (sz + 4) pre f post)" using a(4) unfolding a(3) .
  have rd2: "shell_ready env k2 s n hs" using b(2) unfolding a(10) .
  have "same_on (k_mem k2) (k_mem k) ?B" by (rule same_on_trans [OF b(4) a(6)])
  moreover have "heap (k_sys k2) = heap (k_sys k)" using a(7) b(5) by simp
  ultimately show ?thesis using a(1,2,5) b(1,3) rd1 rd2 by blast
qed

section \<open>A kernel at work\<close>

text \<open>A kernel before its start, and one with an object on its heap and an empty stack.\<close>

definition ex_env :: "unit kernel_env" where
  "ex_env = \<lparr>bss_start = 0xC0020000, kernel_end = 0xC0030000, isr_addr = (\<lambda>n. 0xC0001000 + 16 * word_of_nat n),
     tables_addr = 0xC0030000, page_mem = (\<lambda>_. 0), ke_layout = ex_layout, args_addr = 0x100, user_func = 0xC0002000,
     user_func2 = 0xC0002100, ke_dev = \<lparr>p_in = (\<lambda>d p. (0x40, d)), p_out = (\<lambda>d p v. d), p_read = (\<lambda>d. []), p_write = (\<lambda>bs d. d)\<rparr>,
     floppy_addr = 0x8000, dev_disk = (\<lambda>_. None), fat_names = (\<lambda>_. [])\<rparr>"

definition ex_kernel :: "heap \<Rightarrow> u32 \<Rightarrow> unit kernel" where
  "ex_kernel h s = \<lparr>k_sys = ex_system\<lparr>heap := h_buddy h\<rparr>, k_heap = h,
     k_floppy = \<lparr>fl_machine = ex_machine, fl_events = [], fl_dev = (), floppy_motor_ticks = 0, floppy_motor_state = 0\<rparr>,
     k_fat = ex_blank_fat, k_stack = s, k_outw = []\<rparr>"

definition ex_boot :: BOOT_DATA where
  "ex_boot = \<lparr>bd_blocks = [\<lparr>mb_begin = 0, mb_length = 0x9FC00, mb_type = 1, mb_acpi = 0\<rparr>,
      \<lparr>mb_begin = 0x100000, mb_length = 0x7EE0000, mb_type = 1, mb_acpi = 0\<rparr>],
    bd_disk = ex_boot_disk, bd_fat_data = fat_export_data ex_blank_fat, bd_boot_device = 0\<rparr>"

definition ex_work :: "unit kernel" where
  "ex_work = ex_kernel ((example_heap (small_heap 0))\<lparr>h_mem :=
     fold (\<lambda>(a, w) m. store32 m a w) [(0x4000, 4), (0x4008, 0x4000), (0x400C, 0x3F00)] (h_mem (example_heap (small_heap 0)))\<rparr>) 0x4000"

lemma ex_kernel_simps [simp]: "k_heap (ex_kernel h s) = h" "heap (k_sys (ex_kernel h s)) = h_buddy h" "k_mem (ex_kernel h s) = h_mem h"
  "k_stack (ex_kernel h s) = s" "with_buddy (ex_kernel h s) = h" "mach (k_sys (ex_kernel h s)) = ex_machine" "k_outw (ex_kernel h s) = []"
  by (simp_all add: ex_kernel_def k_mem_def with_buddy_def ex_system_def)

lemma kernel_start_correct_witness:
  "\<exists>k'. kernel_start ex_env ex_boot 0 0 (replicate 1024 0) (ex_kernel (example_empty buddy_bss) 0) = Some (Inr k') \<and>
     heap_empty (with_buddy k') \<and> stack_content (k_mem k', k_stack k') = []"
proof -
  let ?k = "ex_kernel (example_empty buddy_bss) 0"
  have e: "h_buddy (example_empty buddy_bss) = buddy_bss" "h_mem (example_empty buddy_bss) = (\<lambda>_. 0)"
    by (simp_all add: example_empty_def example_heap_def)
  have pick: "pick_block (bd_blocks ex_boot) 0 None = (0x7EE0000, Some \<lparr>mb_begin = 0x100000, mb_length = 0x7EE0000, mb_type = 1, mb_acpi = 0\<rparr>)"
    by (simp add: ex_boot_def MEMORY_BLOCK_TYPE_USABLE_def)
  have big: "2 ^ 18 \<le> (0x7EE0000 :: int)" by simp
  have len: "length (page_dir (k_sys ?k)) = 1024" by (simp add: ex_kernel_def ex_system_def)
  have dev: "drives_known (ke_dev ex_env)" by (simp add: drives_known_def ex_env_def)
  show ?thesis
    using kernel_start_correct [where k = ?k, OF _ _ _ pick big len length_replicate _ _ dev, of 0 0 0] e by auto
qed

lemma ex_work_fields:
  "h_mem (with_buddy ex_work) = k_mem ex_work" "k_stack ex_work = 0x4000"
  "stack_elem_size (k_mem ex_work) 0x4000 = 4" "stack_sp (k_mem ex_work) 0x4000 = 0x4000" "stack_min (k_mem ex_work) 0x4000 = 0x3F00"
  by (simp_all add: ex_work_def stack_fields load32_store32_eval example_heap_def)

lemma ex_work_ready: "shell_ready ex_env ex_work 0x80000000 4096 [(0x80000000, True), (0x80000064, False)]"
proof -
  let ?h = "example_heap (small_heap 0)"
  have A: "heap_area ?h 0x80000000 4096 = {0x9000 ..< 0x9008} \<union> {0x80000000 ..< 0x80001000} \<union> {0x9030 ..< 0x9050}"
    by (simp add: heap_area_def range_of_def example_heap_def)
  have s: "same_on (store32 m a w) m (heap_area ?h 0x80000000 4096)" if "unat a + 4 \<le> 0x9000" for m a w
    unfolding same_on_def A
    by (intro allI impI store32_outside) (use that in \<open>auto simp: range_of_def fits_memory_def\<close>)
  have "same_on (k_mem ex_work) (h_mem ?h) (heap_area ?h 0x80000000 4096)"
    using s [of "0x4000" _ 4] s [of "0x4008" _ "0x4000"] s [of "0x400C" _ "0x3F00"] by (simp add: ex_work_def same_on_def)
  from heap_ok_area [OF example_heap_ok this]
  have "heap_ok (with_buddy ex_work) 0x80000000 4096 [(0x80000000, True), (0x80000064, False)]" by (simp add: ex_work_def)
  moreover have "heap_area (with_buddy ex_work) 0x80000000 4096 = heap_area ?h 0x80000000 4096"
    by (simp add: ex_work_def heap_area_def)
  ultimately show ?thesis
    by (simp add: shell_ready_def A ex_work_fields stack_area_def stack_inv_def fits_memory_def ex_env_def range_of_def) auto
qed

lemma allocate_release_commands_witness:
  "\<exists>k1 k2. cmd_try2 ex_env 100 ex_work = Some k1 \<and> cmd_try k1 = Some k2 \<and>
     shell_stack k1 = [pointer_bytes 0x80000068] \<and> shell_stack k2 = [] \<and>
     shell_ready ex_env k2 0x80000000 4096 [(0x80000000, True), (0x80000064, False)]"
proof -
  let ?hs = "[(0x80000000, True), (0x80000064, False)] :: HeapLayout.layout"
  have fit: "fitting 0x80000000 4096 (100 + 4) ?hs [(0x80000000, True)] 0x80000064 []"
    by (simp add: fitting_def space_size_def)
  have split: "f = 0x80000064" if "?hs = pre @ (f, False) # post" for pre f post
    using that by (auto simp: Cons_eq_append_conv)
  have "stack_height (k_mem ex_work, k_stack ex_work) = 0" "stack_capacity (k_mem ex_work, k_stack ex_work) = 64"
    by (simp_all add: stack_height_def stack_capacity_def ex_work_fields)
  moreover have "shell_stack ex_work = []" by (simp add: stack_content_def stack_height_def ex_work_fields)
  ultimately show ?thesis
    using allocate_release_commands [OF ex_work_ready _ _ fit] split unfolding picked_def fitting_def by fastforce
qed

lemma clear_bss_quarter_witness:
  "clear_bss 0xC0020000 0xC0030000 (\<lambda>_. 7) 0xC0023FFF = 0 \<and> clear_bss 0xC0020000 0xC0030000 (\<lambda>_. 7) 0xC0024000 = 7"
  using clear_bss_quarter [of "0xC0020000" "0xC0030000" "0x3FFF" "\<lambda>_. 7"] clear_bss_quarter [of "0xC0020000" "0xC0030000" "0x4000" "\<lambda>_. 7"]
  by simp

lemma shell_echo_witness:
  "shell_step ex_env ex_boot \<lparr>in_line = ascii ''echo  hi'', in_size = 0, in_answer = []\<rparr> ex_work = Some (say ''[LOG]hi'' [] ex_work, False)"
  using shell_echo [of "\<lparr>in_line = ascii ''echo  hi'', in_size = 0, in_answer = []\<rparr>" "ascii '' hi''" ex_env ex_boot ex_work]
  by (simp add: ascii_def text_of_def char_of_def bit_Suc bit_0)

lemma power_off_only_by_shutdown_witness:
  "\<exists>k'. shell_run ex_env ex_boot [\<lparr>in_line = ascii ''echo'', in_size = 0, in_answer = []\<rparr>,
      \<lparr>in_line = ascii ''shutdown'', in_size = 0, in_answer = ascii ''y''\<rparr>] ex_work = Some (k', True) \<and> k_outw k' = [(0x604, 0x2000)]"
proof -
  let ?in = "[\<lparr>in_line = ascii ''echo'', in_size = 0, in_answer = []\<rparr>, \<lparr>in_line = ascii ''shutdown'', in_size = 0, in_answer = ascii ''y''\<rparr>]"
  obtain k' where r: "shell_run ex_env ex_boot ?in ex_work = Some (k', True)"
    by (simp add: shell_step_def cmd_shutdown_def ascii_def char_at_def)
  have "k_outw k' = k_outw ex_work @ [(0x604, 0x2000)]" using power_off_only_by_shutdown [OF r] by auto
  then show ?thesis using r by (auto simp: ex_work_def)
qed

end
