(* ===== verification/Syscalls.thy ===== *)
theory Syscalls
  imports ShellCorrect
begin

text \<open>
  The handlers of \<open>hal/handler.c\<close> that work on memory: the system calls 4 to 7, which pass
  requests on to the heap but which the dispatcher of theory \<open>Interrupts\<close> never calls, and the
  handler of page faults, which is registered nowhere.
\<close>

section \<open>Memory through system calls\<close>

text \<open>The size is in \<open>ebx\<close>; the result of the first two is left in \<open>ecx\<close>, of the third in \<open>edx\<close>.\<close>

definition kernel_zmalloc :: "u32 \<Rightarrow> 'd kernel \<Rightarrow> ('d kernel \<times> u32) option" where
  "kernel_zmalloc sz k = map_option (\<lambda>(h, p). (set_heap h k, p)) (zmalloc (with_buddy k) sz)"

definition syscall4 :: "'d kernel \<Rightarrow> REGISTERS \<Rightarrow> ('d kernel \<times> REGISTERS) option" where
  "syscall4 k r = map_option (\<lambda>(k', p). (k', r\<lparr>ecx := p\<rparr>)) (kernel_malloc (ebx r) k)"

definition syscall5 :: "'d kernel \<Rightarrow> REGISTERS \<Rightarrow> ('d kernel \<times> REGISTERS) option" where
  "syscall5 k r = map_option (\<lambda>(k', p). (k', r\<lparr>ecx := p\<rparr>)) (kernel_zmalloc (ebx r) k)"

definition syscall6 :: "'d kernel \<Rightarrow> REGISTERS \<Rightarrow> ('d kernel \<times> REGISTERS) option" where
  "syscall6 k r = map_option (\<lambda>(k', p). (k', r\<lparr>edx := p\<rparr>)) (kernel_realloc (ecx r) (ebx r) k)"

definition syscall7 :: "'d kernel \<Rightarrow> REGISTERS \<Rightarrow> ('d kernel \<times> REGISTERS) option" where
  "syscall7 k r = map_option (\<lambda>k'. (k', r)) (kernel_free (ebx r) k)"

text \<open>
  What the calls would do: memory of \<open>ebx\<close> bytes comes back in \<open>ecx\<close>, and given to call 7 it
  leaves the heap as it was.
\<close>

theorem memory_calls_roundtrip:
  assumes ok: "heap_ok (with_buddy k) s n hs" and sz: "0 < unat (ebx r)" "unat (ebx r) + 4 < 2 ^ 32"
    and fit: "fitting s n (ebx r + 4) hs p g q"
  shows "\<exists>k1 r1 k2. syscall4 k r = Some (k1, r1) \<and> ecx r1 \<noteq> 0 \<and> r1\<lparr>ecx := ecx r\<rparr> = r \<and>
    syscall7 k1 (r1\<lparr>ebx := ecx r1\<rparr>) = Some (k2, r1\<lparr>ebx := ecx r1\<rparr>) \<and> heap_ok (with_buddy k2) s n hs \<and>
    same_on (k_mem k) (k_mem k2) (kept (heapc (with_buddy k)) s n hs) \<and> heap (k_sys k2) = heap (k_sys k) \<and>
    mach (k_sys k2) = mach (k_sys k)"
proof -
  obtain h1 ptr h2 where h: "malloc (with_buddy k) (ebx r) = Some (h1, ptr)" "ptr \<noteq> 0" "heap_free h1 ptr = Some h2"
    "heap_ok h2 s n hs" "same_on (h_mem (with_buddy k)) (h_mem h2) (kept (heapc (with_buddy k)) s n hs)"
    "h_buddy h2 = h_buddy (with_buddy k)"
    using malloc_free_roundtrip [OF ok sz fit] by blast
  have b: "h_mem (with_buddy k) = k_mem k" "h_buddy (with_buddy k) = heap (k_sys k)" by (simp_all add: with_buddy_def k_mem_def)
  show ?thesis
    using h unfolding b by (intro exI [of _ "set_heap h1 k"] exI [of _ "r\<lparr>ecx := ptr\<rparr>"] exI [of _ "set_heap h2 (set_heap h1 k)"])
      (simp add: syscall4_def syscall7_def kernel_malloc_def kernel_free_def)
qed

text \<open>
  What they do: a program that makes one of these calls gets its registers back as they were
  (or the 12030 that every call leaves after some time), and nothing has changed but the number
  of calls and the messages.
\<close>

theorem memory_calls_not_dispatched:
  assumes "eax r \<in> {4, 5, 6, 7}"
  shows "\<exists>os r'. hal_isr_syscall env m r = Some (m\<lparr>syscalls := syscalls m + 1, msgs := os\<rparr>, r') \<and> (r' = r \<or> r' = r\<lparr>ecx := 12030\<rparr>)"
proof -
  have n: "eax r \<noteq> 0" "eax r \<noteq> 1" "eax r \<noteq> 2" "eax r \<noteq> 3" using assms by auto
  let ?said = "(''[LOG]You have made a System Call. Congratz :D %i'', [eax r])"
  show ?thesis
  proof (cases "sint (syscalls m + 1) smod 140000 = 0")
    case True
    then show ?thesis using n
      by (intro exI [of _ "msgs m @ [?said]"] exI [of _ "r\<lparr>ecx := 12030\<rparr>"]) (simp add: hal_isr_syscall_def log_msg_def)
  next
    case False
    then show ?thesis using n by (intro exI [of _ "msgs m"] exI [of _ r]) (simp add: hal_isr_syscall_def)
  qed
qed

lemma memory_calls_not_dispatched_witness:
  "\<exists>os r'. hal_isr_syscall \<lparr>inb = (\<lambda>_. 0), pending = [], garbage = []\<rparr> ex_ready (zero_registers\<lparr>eax := 4, ebx := 100\<rparr>) =
    Some (ex_ready\<lparr>syscalls := syscalls ex_ready + 1, msgs := os\<rparr>, r') \<and> ecx r' \<in> {0, 12030}"
  using memory_calls_not_dispatched [of "zero_registers\<lparr>eax := 4, ebx := 100\<rparr>" "\<lparr>inb = (\<lambda>_. 0), pending = [], garbage = []\<rparr>" ex_ready]
  by (auto simp: zero_registers_def)

lemma memory_calls_roundtrip_witness:
  "\<exists>k1 r1 k2. syscall4 ex_work (zero_registers\<lparr>ebx := 100\<rparr>) = Some (k1, r1) \<and> ecx r1 \<noteq> 0 \<and>
    syscall7 k1 (r1\<lparr>ebx := ecx r1\<rparr>) = Some (k2, r1\<lparr>ebx := ecx r1\<rparr>) \<and>
    heap_ok (with_buddy k2) 0x80000000 4096 [(0x80000000, True), (0x80000064, False)]"
proof -
  have fit: "fitting 0x80000000 4096 (ebx (zero_registers\<lparr>ebx := 100\<rparr>) + 4) [(0x80000000, True), (0x80000064, False)] [(0x80000000, True)] 0x80000064 []"
    by (simp add: fitting_def space_size_def)
  have "heap_ok (with_buddy ex_work) 0x80000000 4096 [(0x80000000, True), (0x80000064, False)]"
    using ex_work_ready by (simp add: shell_ready_def)
  from memory_calls_roundtrip [OF this _ _ fit] show ?thesis by fastforce
qed

section \<open>Page faults\<close>

text \<open>
  The low bits of the error code are clear for a read by the kernel of a page that is not
  present. The new table is taken from the buddy allocator and entered for the second four
  megabytes.
\<close>

definition hal_irq_page_fault :: "system \<Rightarrow> REGISTERS \<Rightarrow> system option" where
  "hal_irq_page_fault s r =
     (if err r AND 7 = 0 then do {
        (b, block_size, table) \<leftarrow> buddy_alloc (heap s) 4096;
        dir \<leftarrow> i686_page_table (page_dir s) table 1 (PAGE_READ_WRITE OR PAGE_PRESENT);
        Some (s\<lparr>heap := b, page_dir := dir\<rparr>)
      }
      else Some (s\<lparr>mach := i686_panic (log_msg ''[ERROR]: #PF Unhandled Error Code. (0x%8X)'' [err r] (mach s))\<rparr>))"

text \<open>C38: the handler of page faults does not do what it is for: whatever address faulted, it
  enters a table for the second four megabytes only, so a fault elsewhere, in a part of the
  address space without a table, comes again when the handler returns. The table entered is
  named by its virtual address, above the two gigabytes at which the allocator's blocks are
  mapped, or is the one at address 0 when there is no memory; and each time a block is
  taken from the allocator and never given back.\<close>

theorem page_fault_comes_again:
  assumes inv: "buddy_inv (heap s)" and dir: "length (page_dir s) = 1024" and e: "err r AND 7 = 0"
    and a: "drop_bit 22 (cr2 r) \<noteq> 1" "page_dir s ! unat (drop_bit 22 (cr2 r)) AND PAGE_PRESENT = 0"
  shows "\<exists>s' table. hal_irq_page_fault s r = Some s' \<and> (\<forall>mem. mmu_translate (page_dir s') mem (cr2 r) = None) \<and>
    page_dir s' = (page_dir s)[1 := table OR 3] \<and>
    (if table = 0 then s' = s\<lparr>page_dir := page_dir s'\<rparr>
     else 2 ^ 31 \<le> unat table \<and> (\<exists>b. b \<notin> buddy_blocks (heap s) \<and> buddy_blocks (heap s') = insert b (buddy_blocks (heap s)) \<and>
       table = block_addr (heap s) b))"
proof -
  obtain h bsz table where run: "buddy_alloc (heap s) 4096 = Some (h, bsz, table)"
    using buddy_alloc_result [OF inv, of 4096] buddy_alloc_too_big [of "heap s" 4096] by (cases "g_buddy_max_block (heap s) < unat (4096 :: u32)") auto
  let ?s = "s\<lparr>heap := h, page_dir := (page_dir s)[1 := table OR 3]\<rparr>"
  have flags: "PAGE_READ_WRITE OR PAGE_PRESENT = 3" by (simp add: page_flag_defs)
  have fault: "hal_irq_page_fault s r = Some ?s"
    using run e dir by (simp add: hal_irq_page_fault_def i686_page_table_def awrite_int_def awrite_def flags)
  have i: "unat (drop_bit 22 (cr2 r)) \<noteq> 1" using a(1) by (simp add: word_unat_eq_iff)
  have "unat (drop_bit 22 (cr2 r)) < 1024"
    using unsigned_less [of "cr2 r", where ?'a = nat] unfolding unat_drop_bit by (simp add: drop_bit_eq_div)
  then have walk: "mmu_translate (page_dir ?s) mem (cr2 r) = None" for mem
    using a(2) i dir by (simp add: mmu_translate_def aread_def)
  have "if table = 0 then h = heap s else 2 ^ 31 \<le> unat table \<and> (\<exists>b. b \<notin> buddy_blocks (heap s) \<and>
      buddy_blocks h = insert b (buddy_blocks (heap s)) \<and> table = block_addr (heap s) b)"
    using buddy_alloc_Some [OF inv run] unat_block_addr(1) [OF inv] by (auto simp: gives_block_def fits_def)
  then show ?thesis using fault walk by (intro exI [of _ ?s] exI [of _ table]) auto
qed

text \<open>Any other error code stops the machine with a message.\<close>

lemma page_fault_panics:
  "err r AND 7 \<noteq> 0 \<Longrightarrow> \<exists>m. hal_irq_page_fault s r = Some (s\<lparr>mach := m\<rparr>) \<and> panicked m"
  by (intro exI [of _ "i686_panic (log_msg ''[ERROR]: #PF Unhandled Error Code. (0x%8X)'' [err r] (mach s))"])
    (simp add: hal_irq_page_fault_def i686_panic_def)

text \<open>A fault at 20MB, where the example has no table.\<close>

lemma page_fault_comes_again_witness:
  "\<exists>s' table. hal_irq_page_fault ex_system (zero_registers\<lparr>cr2 := 0x1400000\<rparr>) = Some s' \<and>
    mmu_translate (page_dir s') (\<lambda>_. 3) 0x1400000 = None \<and> page_dir s' ! 1 = table OR 3"
proof -
  have "buddy_inv (heap ex_system)" using small_heap_inv [of 0] by (simp add: ex_system_def)
  moreover have "length (page_dir ex_system) = 1024" by (simp add: ex_system_def)
  moreover have "err (zero_registers\<lparr>cr2 := 0x1400000\<rparr>) AND 7 = 0" by (simp add: zero_registers_def)
  moreover have "drop_bit 22 (cr2 (zero_registers\<lparr>cr2 := 0x1400000\<rparr>)) \<noteq> 1"
    "page_dir ex_system ! unat (drop_bit 22 (cr2 (zero_registers\<lparr>cr2 := 0x1400000\<rparr>))) AND PAGE_PRESENT = 0"
    by (simp_all add: ex_system_def)
  ultimately obtain s' table where s': "hal_irq_page_fault ex_system (zero_registers\<lparr>cr2 := 0x1400000\<rparr>) = Some s'"
    "\<forall>mem. mmu_translate (page_dir s') mem (cr2 (zero_registers\<lparr>cr2 := 0x1400000\<rparr>)) = None" "page_dir s' = (page_dir ex_system)[1 := table OR 3]"
    using page_fault_comes_again by metis
  have "page_dir s' ! 1 = table OR 3" unfolding s'(3) by (simp add: ex_system_def)
  then show ?thesis using s'(1,2) by auto
qed

end
