(* ===== verification/BootConsole.thy ===== *)
theory BootConsole
  imports Printf
begin

text \<open>
  The console of the boot loader, \<open>bootloader/stage2/stdio.c\<close>: a screen with one cursor, \<open>putc\<close>,
  scrolling, \<open>printf\<close> and \<open>print_buffer\<close>. The screen is the 32 KiB text window of the video adapter
  at \<open>0xB8000\<close>, as in theory \<open>Console\<close>, whose constants and index of a cell are the same here.
\<close>

section \<open>The screen\<close>

record boot_console =
  b_scr_buff :: "u8 list"
  b_scr_x :: int
  b_scr_y :: int
  b_ports :: "(u16 \<times> u8) list"

definition boot_screen_pos :: "boot_console \<Rightarrow> int \<times> int" where
  "boot_screen_pos st = (b_scr_x st, b_scr_y st)"

definition boot_putchar :: "boot_console \<Rightarrow> int \<Rightarrow> int \<Rightarrow> u8 \<Rightarrow> boot_console option" where
  "boot_putchar st x y c = do {
     buff \<leftarrow> awrite (b_scr_buff st) (unat (cell_index x y)) c;
     Some (st\<lparr>b_scr_buff := buff\<rparr>)
   }"

definition boot_putclr :: "boot_console \<Rightarrow> int \<Rightarrow> int \<Rightarrow> u8 \<Rightarrow> boot_console option" where
  "boot_putclr st x y colour = do {
     buff \<leftarrow> awrite (b_scr_buff st) (unat (cell_index x y + 1)) colour;
     Some (st\<lparr>b_scr_buff := buff\<rparr>)
   }"

definition boot_getc :: "boot_console \<Rightarrow> int \<Rightarrow> int \<Rightarrow> u8 option" where
  "boot_getc st x y = aread (b_scr_buff st) (unat (cell_index x y))"

definition boot_getclr :: "boot_console \<Rightarrow> int \<Rightarrow> int \<Rightarrow> u8 option" where
  "boot_getclr st x y = aread (b_scr_buff st) (unat (cell_index x y + 1))"

definition boot_setcrsr :: "boot_console \<Rightarrow> int \<Rightarrow> int \<Rightarrow> boot_console" where
  "boot_setcrsr st x y =
     (let pos = y * SCREEN_WIDTH + x in
      st\<lparr>b_ports := b_ports st @ [(0x3D4, 0x0F), (0x3D5, word_of_int (pos AND 0xFF)),
        (0x3D4, 0x0E), (0x3D5, word_of_int (drop_bit 8 pos AND 0xFF))]\<rparr>)"

definition boot_scroll_cell :: "int \<Rightarrow> int \<Rightarrow> int \<Rightarrow> boot_console \<Rightarrow> boot_console option" where
  "boot_scroll_cell lines y x st = do {
     c \<leftarrow> boot_getc st x y;
     st1 \<leftarrow> boot_putchar st x (y - lines) c;
     colour \<leftarrow> boot_getclr st1 x y;
     boot_putclr st1 x (y - lines) colour
   }"

definition boot_blank_cell :: "int \<Rightarrow> int \<Rightarrow> boot_console \<Rightarrow> boot_console option" where
  "boot_blank_cell y x st = do {
     st1 \<leftarrow> boot_putchar st x y 0;
     boot_putclr st1 x y DEFAULT_COLOUR
   }"

text \<open>Both loops over the columns of a line end at \<open>SCREEN_HEIGHT\<close>.\<close>

definition boot_scrollback :: "boot_console \<Rightarrow> int \<Rightarrow> boot_console option" where
  "boot_scrollback st lines = do {
     st1 \<leftarrow> for_loop (\<lambda>y. for_loop (boot_scroll_cell lines y) [0..SCREEN_HEIGHT - 1]) [lines..SCREEN_HEIGHT - 1] st;
     st2 \<leftarrow> for_loop (\<lambda>y. for_loop (boot_blank_cell y) [0..SCREEN_HEIGHT - 1])
       [SCREEN_HEIGHT - lines..SCREEN_HEIGHT - 1] st1;
     Some (st2\<lparr>b_scr_y := b_scr_y st2 - lines\<rparr>)
   }"

definition boot_clrscr :: "boot_console \<Rightarrow> boot_console option" where
  "boot_clrscr st = do {
     st1 \<leftarrow> for_loop (\<lambda>y. for_loop (boot_blank_cell y) [0..SCREEN_WIDTH - 1]) [0..SCREEN_HEIGHT - 1] st;
     let st2 = st1\<lparr>b_scr_x := 0, b_scr_y := 0\<rparr>;
     Some (boot_setcrsr st2 (b_scr_x st2) (b_scr_y st2))
   }"

section \<open>Characters\<close>

text \<open>What follows the \<open>switch\<close> of \<open>putc\<close>; the comparisons are unsigned.\<close>

definition boot_putc_finish :: "boot_console \<Rightarrow> boot_console option" where
  "boot_putc_finish st = do {
     let st1 = (if as_unsigned (b_scr_x st) > SCREEN_WIDTH then st\<lparr>b_scr_x := 0, b_scr_y := b_scr_y st + 1\<rparr> else st);
     st2 \<leftarrow> (if as_unsigned (b_scr_y st1) \<ge> SCREEN_HEIGHT then boot_scrollback st1 1 else Some st1);
     Some (boot_setcrsr st2 (b_scr_x st2) (b_scr_y st2))
   }"

text \<open>\<open>putc\<close> but for the tabulator, for which it calls itself with spaces.\<close>

definition boot_putc_plain :: "boot_console \<Rightarrow> u8 \<Rightarrow> boot_console option" where
  "boot_putc_plain st c =
     (if c = 10 then boot_putc_finish (st\<lparr>b_scr_x := 0, b_scr_y := b_scr_y st + 1\<rparr>)
      else if c = 13 then boot_putc_finish (st\<lparr>b_scr_x := 0\<rparr>)
      else do {
        st1 \<leftarrow> boot_putchar st (b_scr_x st) (b_scr_y st) c;
        boot_putc_finish (st1\<lparr>b_scr_x := b_scr_x st1 + 1\<rparr>)
      })"

definition boot_putc :: "boot_console \<Rightarrow> u8 \<Rightarrow> boot_console option" where
  "boot_putc st c =
     (if c = 9 then do {
        let rel_g_scr_x = b_scr_x st smod 4;
        st1 \<leftarrow> for_loop (\<lambda>i s. boot_putc_plain s 32) [0..4 - rel_g_scr_x - 1] st;
        boot_putc_finish st1
      } else boot_putc_plain st c)"

partial_function (option) boot_puts :: "memory \<Rightarrow> boot_console \<Rightarrow> u32 \<Rightarrow> boot_console option" where
  "boot_puts mem st str =
     (if mem str = 0 then Some st
      else do {
        st' \<leftarrow> boot_putc st (mem str);
        boot_puts mem st' (str + 1)
      })"

section \<open>Numbers and formats\<close>

partial_function (option) boot_digit_loop ::
    "u8 list \<Rightarrow> nat \<Rightarrow> nat \<Rightarrow> u8 list \<Rightarrow> nat \<Rightarrow> (u8 list \<times> nat) option" where
  "boot_digit_loop chars radix number buffer pos =
     (if radix = 0 then None
      else do {
        c \<leftarrow> aread chars (number mod radix);
        buffer' \<leftarrow> awrite buffer pos c;
        if number div radix > 0 then boot_digit_loop chars radix (number div radix) buffer' (pos + 1)
        else Some (buffer', pos + 1)
      })"

definition boot_printf_number ::
    "memory \<Rightarrow> boot_console \<Rightarrow> u32 \<Rightarrow> bool \<Rightarrow> nat \<Rightarrow> bool \<Rightarrow> bool \<Rightarrow> boot_console option" where
  "boot_printf_number mem st argp sign radix uppercase long_t = do {
     let (negative, number) = number_of_arg (load32 mem argp) sign long_t;
     (buffer, pos) \<leftarrow> boot_digit_loop (number_chars uppercase) radix (unat number) (replicate 32 0) 0;
     buffer' \<leftarrow> (if negative then awrite buffer pos 45 else Some buffer);
     let pos' = (if negative then pos + 1 else pos);
     for_loop (\<lambda>i s. do { c \<leftarrow> aread buffer' i; boot_putc s c }) (rev [0..<pos']) st
   }"

text \<open>The locals of the loop of \<open>printf\<close>: console, \<open>argp\<close>, \<open>state\<close>, \<open>len\<close>; and its body.\<close>

type_synonym boot_locals = "boot_console \<times> u32 \<times> printf_state \<times> bool"

definition boot_printf_step :: "memory \<Rightarrow> u8 \<Rightarrow> boot_locals \<Rightarrow> boot_locals option" where
  "boot_printf_step mem c = (\<lambda>(st, argp, state, len).
     if state = PRINTF_STATE_PRINT then
       (if c = 37 then Some (st, argp, PRINTF_STATE_SPECIFIER, len)
        else do { st' \<leftarrow> boot_putc st c; Some (st', argp, PRINTF_STATE_PRINT, len) })
     else
       let len' = (state = PRINTF_STATE_LENGTH \<or> len);
           argp' = (if len' then argp - 4 else argp);
           done_with = (\<lambda>r state'. do {
             st' \<leftarrow> r;
             Some (st', if len' then argp' + 4 + 4 else argp' + 4, state', False)
           }) in
       if c = 100 \<or> c = 105 then done_with (boot_printf_number mem st argp' True 10 True len') PRINTF_STATE_PRINT
       else if c = 117 then done_with (boot_printf_number mem st argp' False 10 True len') PRINTF_STATE_PRINT
       else if c = 88 then done_with (boot_printf_number mem st argp' False 16 True len') PRINTF_STATE_PRINT
       else if c = 120 then done_with (boot_printf_number mem st argp' False 16 False len') PRINTF_STATE_PRINT
       else if c = 111 then done_with (boot_printf_number mem st argp' False 8 True len') PRINTF_STATE_PRINT
       else if c = 108 then done_with (Some st) PRINTF_STATE_LENGTH
       else if c = 115 then done_with (boot_puts mem st (load32 mem argp')) PRINTF_STATE_PRINT
       else if c = 99 then done_with (boot_putc st (ucast (load32 mem argp'))) PRINTF_STATE_PRINT
       else if c = 37 then done_with (boot_putc st 37) PRINTF_STATE_PRINT
       else done_with (Some st) PRINTF_STATE_PRINT)"

partial_function (option) boot_printf_loop :: "memory \<Rightarrow> u32 \<Rightarrow> boot_locals \<Rightarrow> boot_locals option" where
  "boot_printf_loop mem fmt s =
     (if mem fmt = 0 then Some s
      else do {
        s' \<leftarrow> boot_printf_step mem (mem fmt) s;
        boot_printf_loop mem (fmt + 1) s'
      })"

definition boot_printf :: "memory \<Rightarrow> boot_console \<Rightarrow> u32 \<Rightarrow> u32 \<Rightarrow> boot_console option" where
  "boot_printf mem st fmt argp = do {
     (st', _) \<leftarrow> boot_printf_loop mem fmt (st, argp, PRINTF_STATE_PRINT, False);
     Some st'
   }"

text \<open>The counter of \<open>print_buffer\<close> has 16 bits.\<close>

partial_function (option) print_buffer_loop ::
    "memory \<Rightarrow> u32 \<Rightarrow> u32 \<Rightarrow> u16 \<Rightarrow> boot_console \<Rightarrow> boot_console option" where
  "print_buffer_loop mem buffer n i st =
     (if unat i < unat n then do {
        let b = mem (buffer + ucast i);
        hi \<leftarrow> aread (number_chars True) (unat (drop_bit 4 b));
        st1 \<leftarrow> boot_putc st hi;
        lo \<leftarrow> aread (number_chars True) (unat (b AND 0xF));
        st2 \<leftarrow> boot_putc st1 lo;
        print_buffer_loop mem buffer n (i + 1) st2
      } else Some st)"

definition print_buffer :: "memory \<Rightarrow> boot_console \<Rightarrow> u32 \<Rightarrow> u32 \<Rightarrow> u32 \<Rightarrow> boot_console option" where
  "print_buffer mem st msg buffer n = do {
     st1 \<leftarrow> boot_puts mem st msg;
     st2 \<leftarrow> print_buffer_loop mem buffer n 0 st1;
     boot_putc st2 10
   }"

section \<open>Scrolling moves 25 columns\<close>

text \<open>The screen as the one of the kernel, for the lemmas on its cells.\<close>

definition as_console :: "boot_console \<Rightarrow> console" where
  "as_console st = \<lparr>g_scr_buff = b_scr_buff st, g_scr_x = b_scr_x st, g_scr_y = b_scr_y st, out_scr_x = 0, out_scr_y = 0,
     char_written = 0, g_enable_echo = False, ports = b_ports st\<rparr>"

lemma as_console_simps [simp]:
  "g_scr_buff (as_console st) = b_scr_buff st" "as_console st = as_console st' \<longleftrightarrow> st = st'"
  "as_console (st\<lparr>b_scr_buff := b\<rparr>) = (as_console st)\<lparr>g_scr_buff := b\<rparr>"
  by (cases st; cases st'; simp add: as_console_def)+

lemma for_loop_map:
  assumes "\<And>x s. f x (h s) = map_option h (g x s)"
  shows "for_loop f xs (h s) = map_option h (for_loop g xs s)"
  by (induction xs arbitrary: s) (auto simp: assms split: Option.bind_split)

lemma boot_cells:
  "scroll_cell l y x (as_console st) = map_option as_console (boot_scroll_cell l y x st)"
  "blank_cell y x (as_console st) = map_option as_console (boot_blank_cell y x st)"
  by (auto simp: scroll_cell_def boot_scroll_cell_def getc_def boot_getc_def getclr_def boot_getclr_def blank_cell_def boot_blank_cell_def
      putchar_def boot_putchar_def putclr_def boot_putclr_def split: Option.bind_split)

lemma boot_scrollback_one:
  assumes len: "length (b_scr_buff st) = BUFF_SIZE"
  obtains b where "boot_scrollback st 1 = Some (st\<lparr>b_scr_buff := b, b_scr_y := b_scr_y st - 1\<rparr>)" "length b = BUFF_SIZE"
    "\<forall>i < BUFF_SIZE. b ! i = (if i mod 160 < 50 \<and> i < cell 0 25
      then (if i < cell 0 24 then b_scr_buff st ! (i + 160) else blank i) else b_scr_buff st ! i)"
proof -
  have len': "length (g_scr_buff (as_console st)) = BUFF_SIZE" using len by simp
  obtain t t' where t: "for_loop (\<lambda>y. for_loop (scroll_cell 1 y) [0..24]) [1..24] (as_console st) = Some t"
    "for_loop (blank_cell 24) [0..24] t = Some t'"
    "window (as_console st) (\<lambda>i. if i mod 160 < 50 \<and> i < cell 0 25
      then (if i < cell 0 24 then b_scr_buff st ! (i + 160) else blank i) else b_scr_buff st ! i) t'"
    using scroll_screen_window [OF len', of 25] unfolding as_console_simps(1) by auto
  have r: "for_loop (scroll_cell 1 y) [0..24] (as_console s) = map_option as_console (for_loop (boot_scroll_cell 1 y) [0..24] s)" for y s
    by (rule for_loop_map) (rule boot_cells)
  have "for_loop (\<lambda>y. for_loop (scroll_cell 1 y) [0..24]) [1..24] (as_console st) =
      map_option as_console (for_loop (\<lambda>y. for_loop (boot_scroll_cell 1 y) [0..24]) [1..24] st)"
    by (rule for_loop_map) (rule r)
  from trans [OF this [symmetric] t(1)] obtain u where u: "for_loop (\<lambda>y. for_loop (boot_scroll_cell 1 y) [0..24]) [1..24] st = Some u" "t = as_console u"
    by auto
  have "for_loop (blank_cell 24) [0..24] (as_console u) = map_option as_console (for_loop (boot_blank_cell 24) [0..24] u)"
    by (rule for_loop_map) (rule boot_cells)
  from trans [OF this [symmetric] t(2) [unfolded u(2)]] obtain v where v: "for_loop (boot_blank_cell 24) [0..24] u = Some v" "t' = as_console v"
    by auto
  obtain b where b: "as_console v = (as_console st)\<lparr>g_scr_buff := b\<rparr>" "length b = BUFF_SIZE"
    "\<forall>i < BUFF_SIZE. b ! i = (if i mod 160 < 50 \<and> i < cell 0 25
      then (if i < cell 0 24 then b_scr_buff st ! (i + 160) else blank i) else b_scr_buff st ! i)"
    using t(3) v(2) unfolding window_def by auto
  have "as_console v = as_console (st\<lparr>b_scr_buff := b\<rparr>)" using b(1) by simp
  then have w: "v = st\<lparr>b_scr_buff := b\<rparr>" by (simp only: as_console_simps(2))
  have "[24..24 :: int] = [24]" by simp
  then have "boot_scrollback st 1 = Some (st\<lparr>b_scr_buff := b, b_scr_y := b_scr_y st - 1\<rparr>)"
    using u(1) v(1) by (simp add: boot_scrollback_def SCREEN_HEIGHT_def w)
  then show thesis using that b(2,3) by blast
qed

lemma cell_mod: "0 \<le> x \<Longrightarrow> x < 80 \<Longrightarrow> 0 \<le> y \<Longrightarrow> cell x y mod 160 = nat (2 * x)" "0 \<le> x \<Longrightarrow> x < 80 \<Longrightarrow> 0 \<le> y \<Longrightarrow> Suc (cell x y) mod 160 = Suc (nat (2 * x))"
proof -
  assume a: "0 \<le> x" "x < 80" "0 \<le> y"
  then have "cell x y = nat (2 * x) + 160 * nat y" by (simp add: cell_def nat_add_distrib nat_mult_distrib)
  then show "cell x y mod 160 = nat (2 * x)" "Suc (cell x y) mod 160 = Suc (nat (2 * x))"
    using a(2) mod_line [of "nat y" "nat (2 * x) + 160 * nat y"] mod_line [of "nat y" "Suc (nat (2 * x) + 160 * nat y)"] by auto
qed

text \<open>Scrolling of the boot loader moves only the first 25 of the 80 columns: in the others the
  old characters stay, and the last line is cleared in its first 25 columns only.\<close>

theorem boot_scrollback_columns:
  assumes len: "length (b_scr_buff st) = 0x8000"
  shows "\<exists>st'. boot_scrollback st 1 = Some st' \<and> length (b_scr_buff st') = 0x8000 \<and>
    boot_screen_pos st' = (b_scr_x st, b_scr_y st - 1) \<and>
    (\<forall>x y. 0 \<le> x \<and> x < 80 \<and> 0 \<le> y \<and> y < 25 \<longrightarrow>
       boot_getc st' x y = (if x \<ge> 25 then boot_getc st x y else if y < 24 then boot_getc st x (y + 1) else Some 0) \<and>
       boot_getclr st' x y = (if x \<ge> 25 then boot_getclr st x y else if y < 24 then boot_getclr st x (y + 1) else Some DEFAULT_COLOUR))"
proof -
  have L: "length (b_scr_buff st) = BUFF_SIZE" using len by (simp add: BUFF_SIZE_def)
  obtain b where b: "boot_scrollback st 1 = Some (st\<lparr>b_scr_buff := b, b_scr_y := b_scr_y st - 1\<rparr>)" "length b = BUFF_SIZE"
    "\<forall>i < BUFF_SIZE. b ! i = (if i mod 160 < 50 \<and> i < cell 0 25
      then (if i < cell 0 24 then b_scr_buff st ! (i + 160) else blank i) else b_scr_buff st ! i)"
    by (rule boot_scrollback_one [OF L])
  let ?s = "st\<lparr>b_scr_buff := b, b_scr_y := b_scr_y st - 1\<rparr>"
  have at: "boot_getc t x y = Some (b_scr_buff t ! cell x y)" "boot_getclr t x y = Some (b_scr_buff t ! Suc (cell x y))"
    if "length (b_scr_buff t) = BUFF_SIZE" "0 \<le> x" "x < 80" "0 \<le> y" "y < 25" for t x y
    using that cell_index_screen [of x y] cell_less [of x y] by (simp_all add: boot_getc_def boot_getclr_def)
  have "boot_getc ?s x y = (if x \<ge> 25 then boot_getc st x y else if y < 24 then boot_getc st x (y + 1) else Some 0) \<and>
       boot_getclr ?s x y = (if x \<ge> 25 then boot_getclr st x y else if y < 24 then boot_getclr st x (y + 1) else Some DEFAULT_COLOUR)"
    if c: "0 \<le> x" "x < 80" "0 \<le> y" "y < 25" for x y
  proof -
    have l: "cell x y < BUFF_SIZE" "Suc (cell x y) < BUFF_SIZE" using c cell_less [of x y] by auto
    have k: "cell x y < cell 0 25" "Suc (cell x y) < cell 0 25" "cell x (y + 1) = cell x y + 160"
      "cell x y < cell 0 24 \<longleftrightarrow> y < 24" "Suc (cell x y) < cell 0 24 \<longleftrightarrow> y < 24" using c by (auto simp: cell_def)
    have e: "even (cell x y)" using c by (simp add: cell_def even_nat_iff)
    show ?thesis
      using b(2,3) L l k cell_mod [OF c(1-3)] c at [of ?s x y] at [of st x y] at [of st x "y + 1"] e by (auto simp: blank_def)
  qed
  then show ?thesis using b(1,2) by (simp add: boot_screen_pos_def BUFF_SIZE_def)
qed

section \<open>Characters\<close>

text \<open>The cursor may stand behind the last column.\<close>

definition boot_screen_ok :: "boot_console \<Rightarrow> bool" where
  "boot_screen_ok st \<longleftrightarrow> length (b_scr_buff st) = BUFF_SIZE \<and> 0 \<le> b_scr_x st \<and> b_scr_x st \<le> 80 \<and> 0 \<le> b_scr_y st \<and> b_scr_y st < 25"

lemma boot_setcrsr_simps [simp]:
  "b_scr_buff (boot_setcrsr st x y) = b_scr_buff st" "b_scr_x (boot_setcrsr st x y) = b_scr_x st" "b_scr_y (boot_setcrsr st x y) = b_scr_y st"
  by (simp_all add: boot_setcrsr_def Let_def)

lemma boot_putchar_screen:
  assumes "length (b_scr_buff st) = BUFF_SIZE" "0 \<le> x" "x \<le> 80" "0 \<le> y" "y < 25"
  shows "boot_putchar st x y c = Some (st\<lparr>b_scr_buff := (b_scr_buff st)[cell x y := c]\<rparr>)"
  using cell_index_screen [of x y] cell_less [of x y] assms by (simp add: boot_putchar_def)

lemma as_unsigned_small: "0 \<le> x \<Longrightarrow> x \<le> 100 \<Longrightarrow> as_unsigned x = x"
  by (simp add: as_unsigned_def take_bit_int_eq_self unsigned_of_int)

text \<open>The end of \<open>putc\<close>, on a line that is not the last one and in general.\<close>

lemma boot_finish_line:
  assumes "0 \<le> b_scr_x st" "b_scr_x st \<le> 81" "0 \<le> b_scr_y st" "b_scr_y st < 24"
  shows "boot_putc_finish st = Some (let st1 = (if b_scr_x st = 81 then st\<lparr>b_scr_x := 0, b_scr_y := b_scr_y st + 1\<rparr> else st)
    in boot_setcrsr st1 (b_scr_x st1) (b_scr_y st1))"
  using assms by (auto simp: boot_putc_finish_def as_unsigned_small screen_consts Let_def)

lemma boot_finish_ok:
  assumes len: "length (b_scr_buff st) = BUFF_SIZE" and x: "0 \<le> b_scr_x st" "b_scr_x st \<le> 81" and y: "0 \<le> b_scr_y st" "b_scr_y st \<le> 25"
    and xy: "b_scr_y st = 25 \<longrightarrow> b_scr_x st \<le> 80"
  shows "\<exists>st'. boot_putc_finish st = Some st' \<and> boot_screen_ok st'"
proof -
  define s where "s = (if b_scr_x st = 81 then st\<lparr>b_scr_x := 0, b_scr_y := b_scr_y st + 1\<rparr> else st)"
  have s: "length (b_scr_buff s) = BUFF_SIZE" "0 \<le> b_scr_x s" "b_scr_x s \<le> 80" "0 \<le> b_scr_y s" "b_scr_y s \<le> 25"
    using assms by (auto simp: s_def)
  have f: "boot_putc_finish st = do {
     st2 \<leftarrow> (if b_scr_y s \<ge> 25 then boot_scrollback s 1 else Some s);
     Some (boot_setcrsr st2 (b_scr_x st2) (b_scr_y st2)) }"
    using x y s(4,5) by (auto simp: boot_putc_finish_def as_unsigned_small screen_consts Let_def s_def)
  show ?thesis
  proof (cases "b_scr_y s \<ge> 25")
    case True
    obtain b where "boot_scrollback s 1 = Some (s\<lparr>b_scr_buff := b, b_scr_y := b_scr_y s - 1\<rparr>)" "length b = BUFF_SIZE"
      by (rule boot_scrollback_one [OF s(1)])
    then show ?thesis using f True s by (simp add: boot_screen_ok_def)
  next
    case False
    then show ?thesis using f s by (simp add: boot_screen_ok_def)
  qed
qed

lemma boot_putc_plain_ok:
  assumes ok: "boot_screen_ok st"
  shows "\<exists>st'. boot_putc_plain st c = Some st' \<and> boot_screen_ok st'"
proof -
  note o = ok [unfolded boot_screen_ok_def]
  have len: "length ((b_scr_buff st)[cell (b_scr_x st) (b_scr_y st) := c]) = BUFF_SIZE" using o by simp
  show ?thesis
    using boot_finish_ok [of "st\<lparr>b_scr_x := 0, b_scr_y := b_scr_y st + 1\<rparr>"] boot_finish_ok [of "st\<lparr>b_scr_x := 0\<rparr>"]
      boot_finish_ok [of "st\<lparr>b_scr_buff := (b_scr_buff st)[cell (b_scr_x st) (b_scr_y st) := c], b_scr_x := b_scr_x st + 1\<rparr>"]
      boot_putchar_screen [of st "b_scr_x st" "b_scr_y st" c] o len
    by (auto simp: boot_putc_plain_def)
qed

lemma boot_putc_ok:
  assumes ok: "boot_screen_ok st"
  shows "\<exists>st'. boot_putc st c = Some st' \<and> boot_screen_ok st'"
proof (cases "c = 9")
  case True
  let ?xs = "[0..4 - b_scr_x st smod 4 - 1]"
  have "\<exists>st1. for_loop (\<lambda>i s. boot_putc_plain s 32) ?xs st = Some st1 \<and> boot_screen_ok st1"
    by (rule for_loop_inv [where P = "\<lambda>_. boot_screen_ok"]) (use ok boot_putc_plain_ok in blast)+
  then obtain st1 where 1: "for_loop (\<lambda>i s. boot_putc_plain s 32) ?xs st = Some st1" "boot_screen_ok st1" by blast
  then show ?thesis using True boot_finish_ok [of st1] by (auto simp: boot_putc_def boot_screen_ok_def Let_def)
next
  case False
  then show ?thesis using boot_putc_plain_ok [OF ok] by (simp add: boot_putc_def)
qed

lemma boot_putc_char:
  assumes ok: "boot_screen_ok st" and y: "b_scr_y st < 24" and c: "c \<notin> {9, 10, 13}"
  shows "\<exists>st'. boot_putc st c = Some st' \<and> b_scr_buff st' = (b_scr_buff st)[cell (b_scr_x st) (b_scr_y st) := c] \<and>
    boot_screen_pos st' = (if b_scr_x st = 80 then (0, b_scr_y st + 1) else (b_scr_x st + 1, b_scr_y st))"
proof -
  let ?s = "st\<lparr>b_scr_buff := (b_scr_buff st)[cell (b_scr_x st) (b_scr_y st) := c], b_scr_x := b_scr_x st + 1\<rparr>"
  have "boot_putc st c = boot_putc_finish ?s"
    using boot_putchar_screen [of st "b_scr_x st" "b_scr_y st" c] ok c by (simp add: boot_putc_def boot_putc_plain_def boot_screen_ok_def)
  then show ?thesis using boot_finish_line [of ?s] ok y by (auto simp: boot_screen_ok_def boot_screen_pos_def Let_def)
qed

text \<open>A line of the boot loader takes 81 characters: the last one goes to the first cell of the
  next line, where the next character overwrites it.\<close>

theorem boot_putc_loses_character:
  assumes ok: "boot_screen_ok st" and at: "b_scr_x st = 80" "b_scr_y st < 23" and c: "c \<notin> {9, 10, 13}" and d: "d \<notin> {9, 10, 13}"
  shows "\<exists>st1 st2. boot_putc st c = Some st1 \<and> boot_screen_pos st1 = (0, b_scr_y st + 1) \<and>
    boot_putc st1 d = Some st2 \<and> boot_screen_pos st2 = (1, b_scr_y st + 1) \<and>
    b_scr_buff st2 = (b_scr_buff st)[cell 0 (b_scr_y st + 1) := d]"
proof -
  obtain st1 where 1: "boot_putc st c = Some st1" "b_scr_buff st1 = (b_scr_buff st)[cell 80 (b_scr_y st) := c]"
    "boot_screen_pos st1 = (0, b_scr_y st + 1)"
    using boot_putc_char [OF ok _ c] at by auto
  have s1: "boot_screen_ok st1" using boot_putc_ok [OF ok, of c] 1(1) by simp
  have y1: "b_scr_x st1 = 0" "b_scr_y st1 = b_scr_y st + 1" using 1(3) by (simp_all add: boot_screen_pos_def)
  obtain st2 where 2: "boot_putc st1 d = Some st2" "b_scr_buff st2 = (b_scr_buff st1)[cell 0 (b_scr_y st + 1) := d]"
    "boot_screen_pos st2 = (1, b_scr_y st + 1)"
    using boot_putc_char [OF s1 _ d] y1 at by auto
  have "cell 80 (b_scr_y st) = cell 0 (b_scr_y st + 1)" by (simp add: cell_def)
  then show ?thesis using 1 2 by simp
qed

definition boot_put_chars :: "u8 list \<Rightarrow> boot_console \<Rightarrow> boot_console option" where
  "boot_put_chars cs = for_loop (\<lambda>c s. boot_putc s c) cs"

lemma boot_put_chars_ok: "boot_screen_ok st \<Longrightarrow> \<exists>st'. boot_put_chars cs st = Some st' \<and> boot_screen_ok st'"
  unfolding boot_put_chars_def
  by (rule for_loop_inv [where P = "\<lambda>_. boot_screen_ok"]) (use boot_putc_ok in blast)+

section \<open>The same text as the kernel\<close>

lemma boot_put_chars_append: "boot_put_chars (xs @ ys) st = Option.bind (boot_put_chars xs st) (boot_put_chars ys)"
  by (simp add: boot_put_chars_def for_loop_append)

lemma boot_put_chars_simps [simp]: "boot_put_chars [] st = Some st" "boot_put_chars [c] st = boot_putc st c"
  by (simp_all add: boot_put_chars_def split: Option.bind_split)

lemma put_chars_simps [simp]: "put_chars [] st = Some st" "put_chars [c] st = putc st (sint c)"
  by (simp_all add: put_chars_def split: Option.bind_split)

lemma boot_puts_string: "string_at mem a s \<Longrightarrow> boot_puts mem st a = boot_put_chars s st"
proof (induction s arbitrary: a st)
  case (Cons c s)
  then show ?case
    by (subst boot_puts.simps) (auto simp: boot_put_chars_def split: Option.bind_split)
qed (subst boot_puts.simps, simp)

text \<open>The digits are those of the kernel's loop, which counts the missing zeros as well.\<close>

lemma boot_digit_loop_eq:
  assumes r: "2 \<le> r"
  shows "boot_digit_loop chars r n buffer pos = map_option (\<lambda>(b, p, md). (b, p)) (digit_loop chars r n buffer pos md)"
proof (induction n arbitrary: buffer pos md rule: less_induct)
  case (less n)
  have "n div r < n" if "0 < n div r" using that r by (cases "n = 0") (auto intro: div_less_dividend)
  then show ?case
    using r less.IH [of "n div r" _ "pos + 1" "md - 1"]
    by (subst boot_digit_loop.simps, subst digit_loop.simps) (auto split: Option.bind_split)
qed

lemma boot_put_chars_reversed:
  "p \<le> length buf \<Longrightarrow>
    for_loop (\<lambda>i s. do { c \<leftarrow> aread buf i; boot_putc s c }) (rev [0..<p]) st = boot_put_chars (rev (take p buf)) st"
proof (induction p arbitrary: st)
  case (Suc p)
  then show ?case
    by (simp add: take_Suc_conv_app_nth boot_put_chars_def) (auto split: Option.bind_split)
qed simp

lemma boot_printf_number_text:
  assumes r: "radix = 8 \<or> radix = 10 \<or> radix = 16"
    and arg: "number_of_arg (load32 mem argp) sign long_t = (negative, number)"
  shows "boot_printf_number mem st argp sign radix up long_t = boot_put_chars (number_text radix up 0 negative (unat number)) st"
proof -
  let ?n = "unat number" and ?k = "length (digits radix (unat number))"
  obtain b where b: "digit_loop (number_chars up) radix ?n (replicate 32 0) 0 0 = Some (b, ?k, 0 - int ?k)"
    "length b = 32" "?k \<le> 22" "take ?k b = rev (map ((!) (number_chars up)) (digits radix ?n))"
    by (rule number_buffer [OF r])
  have d: "boot_digit_loop (number_chars up) radix ?n (replicate 32 0) 0 = Some (b, ?k)"
    using boot_digit_loop_eq [of radix _ _ _ _ 0] b(1) r by auto
  let ?b = "if negative then b[?k := 45] else b" and ?p = "if negative then ?k + 1 else ?k"
  have rev: "rev (take ?p ?b) = (if negative then [45] else []) @ map ((!) (number_chars up)) (digits radix ?n)"
    using b(2-4) by (auto simp: take_Suc_conv_app_nth)
  have "boot_printf_number mem st argp sign radix up long_t = for_loop (\<lambda>i s. do { c \<leftarrow> aread ?b i; boot_putc s c }) (rev [0..<?p]) st"
    using arg d b(2,3) by (simp add: boot_printf_number_def Let_def)
  also have "\<dots> = boot_put_chars (rev (take ?p ?b)) st" by (rule boot_put_chars_reversed) (use b(2,3) in auto)
  finally show ?thesis by (simp add: rev number_text_def)
qed

text \<open>The format has no minimal width, which only the kernel knows: no digit behind a percent sign.\<close>

fun no_width :: "printf_state \<Rightarrow> u8 list \<Rightarrow> bool" where
  "no_width state [] \<longleftrightarrow> True"
| "no_width state (c # s) \<longleftrightarrow>
     (if state = PRINTF_STATE_PRINT then no_width (if c = 37 then PRINTF_STATE_SPECIFIER else PRINTF_STATE_PRINT) s
      else \<not> (48 \<le> c \<and> c \<le> 57) \<and> no_width (if c = 108 then PRINTF_STATE_LENGTH else PRINTF_STATE_PRINT) s)"

text \<open>Both steps print the same characters and go on in the same way.\<close>

definition same_step :: "memory \<Rightarrow> u8 \<Rightarrow> u32 \<Rightarrow> printf_state \<Rightarrow> u8 list \<Rightarrow> u32 \<Rightarrow> printf_state \<Rightarrow> bool" where
  "same_step mem c argp state cs argp' state' \<longleftrightarrow>
     (\<forall>st. writef_step mem c (st, argp, state, False, 0) = map_option (\<lambda>st'. (st', argp', state', False, 0)) (put_chars cs st)) \<and>
     (\<forall>st. boot_printf_step mem c (st, argp, state, False) = map_option (\<lambda>st'. (st', argp', state', False)) (boot_put_chars cs st))"

lemma bind_map_option: "Option.bind x (\<lambda>y. Some (f y)) = map_option f x"
  by (cases x) simp_all

lemma steps_agree:
  assumes z: "has_zero mem" and w: "state \<noteq> PRINTF_STATE_DIGIT_SPECIFIER" "state = PRINTF_STATE_PRINT \<or> \<not> (48 \<le> c \<and> c \<le> 57)"
  shows "\<exists>cs argp' state'. same_step mem c argp state cs argp' state' \<and>
    state' = (if state = PRINTF_STATE_PRINT then (if c = 37 then PRINTF_STATE_SPECIFIER else PRINTF_STATE_PRINT)
      else if c = 108 then PRINTF_STATE_LENGTH else PRINTF_STATE_PRINT)"
proof (cases "state = PRINTF_STATE_PRINT")
  case True
  have "same_step mem c argp state (if c = 37 then [] else [c]) argp (if c = 37 then PRINTF_STATE_SPECIFIER else PRINTF_STATE_PRINT)"
    using True by (simp add: same_step_def writef_step_def boot_printf_step_def bind_map_option)
  then show ?thesis by (intro exI conjI) (assumption, use True in simp)
next
  case False
  define len where "len \<longleftrightarrow> state = PRINTF_STATE_LENGTH"
  define a where "a = (if len then argp - 4 else argp)"
  define a' where "a' = next_arg a len"
  have num: "\<exists>cs. (\<forall>st. printf_number mem st a sign radix up len 0 = put_chars cs st) \<and>
      (\<forall>st. boot_printf_number mem st a sign radix up len = boot_put_chars cs st)" if "radix = 8 \<or> radix = 10 \<or> radix = 16" for sign radix up
    using printf_number_text [OF that, of mem a sign len] boot_printf_number_text [OF that, of mem a sign len]
    by (cases "number_of_arg (load32 mem a) sign len") metis
  obtain s where s: "string_at mem (load32 mem a) s" using string_exists [OF z] by blast
  note step = same_step_def writef_step_def boot_printf_step_def bind_map_option Let_def
  have *: "\<exists>cs. same_step mem c argp state cs a' (if c = 108 then PRINTF_STATE_LENGTH else PRINTF_STATE_PRINT)"
  proof -
    consider "c = 100 \<or> c = 105" | "c = 117" | "c = 88" | "c = 120" | "c = 111" | "c = 115" | "c = 99" | "c = 37"
      | "c \<notin> {100, 105, 117, 88, 120, 111, 115, 99, 37}" by blast
    then show ?thesis
    proof cases
      case 1
      then show ?thesis using num [of 10 True True] False by (auto simp: step len_def a_def a'_def next_arg_def)
    next
      case 2
      then show ?thesis using num [of 10 False True] False by (auto simp: step len_def a_def a'_def next_arg_def)
    next
      case 3
      then show ?thesis using num [of 16 False True] False by (auto simp: step len_def a_def a'_def next_arg_def)
    next
      case 4
      then show ?thesis using num [of 16 False False] False by (auto simp: step len_def a_def a'_def next_arg_def)
    next
      case 5
      then show ?thesis using num [of 8 False True] False by (auto simp: step len_def a_def a'_def next_arg_def)
    next
      case 6
      then show ?thesis using puts_string [OF s] boot_puts_string [OF s] False
        by (intro exI [of _ s]) (simp add: step len_def a_def a'_def next_arg_def)
    next
      case 7
      then show ?thesis using False
        by (intro exI [of _ "[ucast (load32 mem a)]"]) (simp add: step len_def a_def a'_def next_arg_def)
    next
      case 8
      then show ?thesis using False by (intro exI [of _ "[37]"]) (simp add: step len_def a_def a'_def next_arg_def)
    next
      case 9
      moreover have "c \<noteq> 48" "49 \<le> c \<Longrightarrow> \<not> c \<le> 57" using False w(2) order_trans [of 48 49 c] by auto
      ultimately show ?thesis using False w by (intro exI [of _ "[]"]) (simp add: step len_def a_def a'_def next_arg_def)
    qed
  qed
  then obtain cs where "same_step mem c argp state cs a' (if c = 108 then PRINTF_STATE_LENGTH else PRINTF_STATE_PRINT)" ..
  then show ?thesis by (intro exI conjI) (assumption, use False in simp)
qed

lemma loops_agree:
  assumes z: "has_zero mem"
  shows "string_at mem fmt s \<Longrightarrow> no_width state s \<Longrightarrow> state \<noteq> PRINTF_STATE_DIGIT_SPECIFIER \<Longrightarrow>
    \<exists>cs argp' state'. (\<forall>st. writef_loop mem fmt (st, argp, state, False, 0) = map_option (\<lambda>st'. (st', argp', state', False, 0)) (put_chars cs st)) \<and>
      (\<forall>st. boot_printf_loop mem fmt (st, argp, state, False) = map_option (\<lambda>st'. (st', argp', state', False)) (boot_put_chars cs st))"
proof (induction s arbitrary: fmt argp state)
  case Nil
  then show ?case
    by (intro exI [of _ "[]"] exI [of _ argp] exI [of _ state]) (subst writef_loop.simps, subst boot_printf_loop.simps, simp)
next
  case (Cons c s)
  have m: "mem fmt = c" "c \<noteq> 0" "string_at mem (fmt + 1) s" using Cons.prems(1) by auto
  have d: "state = PRINTF_STATE_PRINT \<or> \<not> (48 \<le> c \<and> c \<le> 57)" using Cons.prems(2) by (auto split: if_splits)
  from steps_agree [OF z Cons.prems(3) d] obtain cs argp' state' where 1: "same_step mem c argp state cs argp' state'"
    "state' = (if state = PRINTF_STATE_PRINT then (if c = 37 then PRINTF_STATE_SPECIFIER else PRINTF_STATE_PRINT)
      else if c = 108 then PRINTF_STATE_LENGTH else PRINTF_STATE_PRINT)" by blast
  have n: "no_width state' s" "state' \<noteq> PRINTF_STATE_DIGIT_SPECIFIER" using Cons.prems(2) 1(2) by (auto split: if_splits)
  from Cons.IH [OF m(3) n, of argp'] obtain cs2 argp2 state2 where 2:
    "\<forall>st. writef_loop mem (fmt + 1) (st, argp', state', False, 0) = map_option (\<lambda>st'. (st', argp2, state2, False, 0)) (put_chars cs2 st)"
    "\<forall>st. boot_printf_loop mem (fmt + 1) (st, argp', state', False) = map_option (\<lambda>st'. (st', argp2, state2, False)) (boot_put_chars cs2 st)"
    by blast
  have "writef_loop mem fmt (st, argp, state, False, 0) = map_option (\<lambda>st'. (st', argp2, state2, False, 0)) (put_chars (cs @ cs2) st)" for st
    using m(1,2) 1(1) 2(1) by (subst writef_loop.simps) (cases "put_chars cs st"; simp add: same_step_def put_chars_append)
  moreover have "boot_printf_loop mem fmt (st, argp, state, False) = map_option (\<lambda>st'. (st', argp2, state2, False)) (boot_put_chars (cs @ cs2) st)" for st
    using m(1,2) 1(1) 2(2) by (subst boot_printf_loop.simps) (cases "boot_put_chars cs st"; simp add: same_step_def boot_put_chars_append)
  ultimately show ?case by blast
qed

text \<open>C36: For every format without minimal widths and without a log prefix, and all arguments,
  \<open>printf\<close> of the boot loader prints the same characters as \<open>writef\<close> of the kernel, and from
  well-formed screens both return.\<close>

theorem boot_printf_like_writef:
  assumes s: "string_at mem fmt s" "no_width PRINTF_STATE_PRINT s" and plain: "mem fmt \<noteq> 91" and z: "has_zero mem"
  shows "\<exists>cs. (\<forall>st. writef mem st fmt argp =
        map_option (\<lambda>st'. (update_out st', char_written st')) (put_chars cs (st\<lparr>char_written := 0\<rparr>))) \<and>
    (\<forall>bst. boot_printf mem bst fmt argp = boot_put_chars cs bst) \<and>
    (\<forall>st. screen_ok st \<longrightarrow> put_chars cs (st\<lparr>char_written := 0\<rparr>) \<noteq> None) \<and>
    (\<forall>bst. boot_screen_ok bst \<longrightarrow> boot_put_chars cs bst \<noteq> None)"
proof -
  from loops_agree [OF z s, of argp] obtain cs argp' state' where
    l: "\<forall>st. writef_loop mem fmt (st, argp, PRINTF_STATE_PRINT, False, 0) = map_option (\<lambda>st'. (st', argp', state', False, 0)) (put_chars cs st)"
    "\<forall>st. boot_printf_loop mem fmt (st, argp, PRINTF_STATE_PRINT, False) = map_option (\<lambda>st'. (st', argp', state', False)) (boot_put_chars cs st)"
    by blast
  have p: "\<not> has_prefix mem fmt ''[LOG]''" "\<not> has_prefix mem fmt ''[DEBUG]''" "\<not> has_prefix mem fmt ''[ERROR]''"
    using no_prefix [of mem fmt] plain by auto
  have "writef mem st fmt argp = map_option (\<lambda>st'. (update_out st', char_written st')) (put_chars cs (st\<lparr>char_written := 0\<rparr>))" for st
    using l(1) p by (cases "put_chars cs (st\<lparr>char_written := 0\<rparr>)") (simp_all add: writef_def Let_def ascii_def)
  moreover have "boot_printf mem bst fmt argp = boot_put_chars cs bst" for bst
    using l(2) by (cases "boot_put_chars cs bst") (simp_all add: boot_printf_def)
  ultimately show ?thesis using put_chars_ok [of "st\<lparr>char_written := 0\<rparr>" cs for st] boot_put_chars_ok [of _ cs] by fastforce
qed

section \<open>Bytes in hexadecimal\<close>

definition hex_of :: "u8 \<Rightarrow> u8 list" where
  "hex_of b = [number_chars True ! (unat b div 16), number_chars True ! (unat b mod 16)]"

lemma hex_digits: "unat (drop_bit 4 b :: u8) = unat b div 16" "unat (b AND 0xF :: u8) = unat b mod 16"
proof -
  have "(0xF :: u8) = mask 4" by (simp add: mask_eq_exp_minus_1)
  then have "b AND 0xF = take_bit 4 b" by (simp add: take_bit_eq_mask)
  moreover have "unat (take_bit 4 b) = unat b mod 16" by (simp only: unsigned_take_bit_eq) (simp add: take_bit_eq_mod)
  ultimately show "unat (b AND 0xF :: u8) = unat b mod 16" by (simp only:)
  show "unat (drop_bit 4 b :: u8) = unat b div 16" by (simp only: unat_drop_bit_eq) (simp add: drop_bit_eq_div)
qed

lemma print_buffer_loop_text:
  assumes n: "unat n < 2 ^ 16"
  shows "k \<le> unat n \<Longrightarrow> print_buffer_loop mem buffer n (word_of_nat (unat n - k)) st =
    boot_put_chars (concat (map (\<lambda>i. hex_of (mem (buffer + word_of_nat i))) [unat n - k..<unat n])) st"
proof (induction k arbitrary: st)
  case 0
  have "unat (word_of_nat (unat n) :: u16) = unat n" using n by (simp only: unat_of_nat) (simp add: take_bit_nat_eq_self)
  then show ?case by (subst print_buffer_loop.simps) simp
next
  case (Suc k)
  let ?i = "unat n - Suc k" and ?b = "mem (buffer + word_of_nat (unat n - Suc k))"
  have u: "unat (word_of_nat ?i :: u16) = ?i" using n by (simp add: unat_of_nat take_bit_nat_eq_self)
  have c: "ucast (word_of_nat ?i :: u16) = (word_of_nat ?i :: u32)"
  proof -
    have "ucast (word_of_nat ?i :: u16) = (word_of_nat (unat (word_of_nat ?i :: u16)) :: u32)" by (rule of_nat_unat [symmetric])
    then show ?thesis by (simp only: u)
  qed
  have nx: "(word_of_nat ?i :: u16) + 1 = word_of_nat (unat n - k)"
    using Suc.prems by (metis Suc_diff_Suc Suc_le_lessD of_nat_Suc add.commute)
  have l: "unat ?b div 16 < 17" "unat ?b mod 16 < 17" using unsigned_less [of ?b, where 'a = nat] by auto
  have up: "[?i..<unat n] = ?i # [unat n - k..<unat n]" using Suc.prems by (subst upt_conv_Cons) (auto simp: Suc_diff_Suc)
  have "print_buffer_loop mem buffer n (word_of_nat ?i) st =
      Option.bind (boot_put_chars (hex_of ?b) st) (print_buffer_loop mem buffer n (word_of_nat (unat n - k)))"
    using Suc.prems u c nx l
    by (subst print_buffer_loop.simps)
      (simp add: hex_digits aread_def hex_of_def boot_put_chars_def Let_def split: Option.bind_split)
  also have "\<dots> = boot_put_chars (concat (map (\<lambda>i. hex_of (mem (buffer + word_of_nat i))) [?i..<unat n])) st"
  proof -
    have "print_buffer_loop mem buffer n (word_of_nat (unat n - k)) =
        boot_put_chars (concat (map (\<lambda>i. hex_of (mem (buffer + word_of_nat i))) [unat n - k..<unat n]))"
      by (rule ext, rule Suc.IH) (use Suc.prems in simp)
    then show ?thesis unfolding up by (simp only: list.map concat.simps boot_put_chars_append)
  qed
  finally show ?case .
qed

lemma print_buffer_loop_long:
  assumes n: "2 ^ 16 \<le> unat n"
  shows "print_buffer_loop mem buffer n i st = None"
proof (rule ccontr)
  assume "print_buffer_loop mem buffer n i st \<noteq> None"
  then obtain r where r: "print_buffer_loop mem buffer n i st = Some r" by blast
  have "2 ^ 16 \<le> unat n \<longrightarrow> False"
  proof (rule print_buffer_loop.raw_induct [OF _ r, of "\<lambda>mem buffer n i st r. 2 ^ 16 \<le> unat n \<longrightarrow> False"])
    fix rec :: "memory \<Rightarrow> u32 \<Rightarrow> u32 \<Rightarrow> u16 \<Rightarrow> boot_console \<Rightarrow> boot_console option"
    fix mem buffer n i st r
    assume ih: "\<And>mem buffer n i st r. rec mem buffer n i st = Some r \<Longrightarrow> 2 ^ 16 \<le> unat n \<longrightarrow> False"
      and step: "(if unat i < unat n then do {
        let b = mem (buffer + ucast i);
        hi \<leftarrow> aread (number_chars True) (unat (drop_bit 4 b));
        st1 \<leftarrow> boot_putc st hi;
        lo \<leftarrow> aread (number_chars True) (unat (b AND 0xF));
        st2 \<leftarrow> boot_putc st1 lo;
        rec mem buffer n (i + 1) st2
      } else Some st) = Some r"
    show "2 ^ 16 \<le> unat n \<longrightarrow> False"
      using step ih unsigned_less [of i, where 'a = nat] by (auto simp: Let_def split: bind_splits if_splits)
  qed
  then show False using n by simp
qed

lemma bytes_at_map: "bytes_at m a n = map (\<lambda>i. m (a + word_of_nat i)) [0..<n]"
  by (rule nth_equalityI) (simp_all add: bytes_at_nth)

text \<open>\<open>print_buffer\<close> prints the message and each byte of the buffer as two hexadecimal digits; with
  65536 bytes or more it never returns, as its counter has 16 bits.\<close>

theorem print_buffer_correct:
  assumes s: "string_at mem msg s"
  shows "print_buffer mem st msg buffer n = (if unat n < 2 ^ 16
    then boot_put_chars (s @ concat (map hex_of (bytes_at mem buffer (unat n))) @ [10]) st else None)"
proof (cases "unat n < 2 ^ 16")
  case True
  have "print_buffer_loop mem buffer n 0 st1 = boot_put_chars (concat (map hex_of (bytes_at mem buffer (unat n)))) st1" for st1
    using print_buffer_loop_text [OF True, of "unat n"] by (simp add: bytes_at_map comp_def)
  then show ?thesis using True boot_puts_string [OF s]
    by (cases "boot_put_chars s st"; cases "boot_put_chars (concat (map hex_of (bytes_at mem buffer (unat n)))) (the (boot_put_chars s st))")
      (simp_all add: print_buffer_def boot_put_chars_append)
next
  case False
  then show ?thesis using print_buffer_loop_long [of n] by (auto simp: print_buffer_def split: Option.bind_split)
qed

section \<open>Examples\<close>

definition ex_boot_screen :: "int \<Rightarrow> boot_console" where
  "ex_boot_screen x = \<lparr>b_scr_buff = replicate 0x8000 65, b_scr_x = x, b_scr_y = 3, b_ports = []\<rparr>"

lemma ex_boot_screen_ok: "0 \<le> x \<Longrightarrow> x \<le> 80 \<Longrightarrow> boot_screen_ok (ex_boot_screen x)"
  by (simp add: boot_screen_ok_def ex_boot_screen_def BUFF_SIZE_def)

lemma boot_scrollback_columns_witness:
  "\<exists>st'. boot_scrollback (ex_boot_screen 0) 1 = Some st' \<and> boot_getc st' 24 24 = Some 0 \<and> boot_getc st' 25 24 = Some 65"
proof -
  have l: "length (b_scr_buff (ex_boot_screen 0)) = 0x8000" unfolding ex_boot_screen_def by (simp only: boot_console.simps length_replicate)
  have "boot_getc (ex_boot_screen 0) 25 24 = Some 65"
    unfolding boot_getc_def ex_boot_screen_def using cell_index_screen [of 25 24] by (simp add: cell_def aread_def)
  then show ?thesis using boot_scrollback_columns [OF l] by auto
qed

lemma boot_putc_loses_character_witness:
  "\<exists>st1 st2. boot_putc (ex_boot_screen 80) 66 = Some st1 \<and> boot_putc st1 67 = Some st2 \<and>
    b_scr_buff st2 = (replicate 0x8000 65)[640 := 67]"
proof -
  have s: "b_scr_x (ex_boot_screen 80) = 80" "b_scr_y (ex_boot_screen 80) = 3" "b_scr_buff (ex_boot_screen 80) = replicate 0x8000 65"
    unfolding ex_boot_screen_def by (simp_all only: boot_console.simps)
  have ok: "boot_screen_ok (ex_boot_screen 80)" by (simp add: ex_boot_screen_ok)
  have "cell 0 4 = 640" by (simp add: cell_def)
  then show ?thesis using boot_putc_loses_character [OF ok s(1), of 66 67] unfolding s(2,3) by auto
qed

lemma boot_printf_like_writef_witness:
  "\<exists>cs. boot_printf (\<lambda>a. if a = 0 then 37 else if a = 1 then 117 else 0) (ex_boot_screen 0) 0 0x20 = boot_put_chars cs (ex_boot_screen 0) \<and>
     boot_put_chars cs (ex_boot_screen 0) \<noteq> None"
proof -
  let ?m = "\<lambda>a :: u32. if a = 0 then 37 else if a = 1 then 117 else 0 :: u8"
  have s: "string_at ?m 0 [37, 117]" by simp
  have z: "has_zero ?m" unfolding has_zero_def by (rule exI [of _ 2]) simp
  have w: "no_width PRINTF_STATE_PRINT [37, 117]" by simp
  show ?thesis using boot_printf_like_writef [OF s w _ z, of "0x20"] ex_boot_screen_ok [of 0] by auto
qed

lemma print_buffer_correct_witness:
  "print_buffer (\<lambda>a. if a = 7 then 0xAB else 0) (ex_boot_screen 0) 0 7 1 = boot_put_chars [65, 66, 10] (ex_boot_screen 0) \<and>
   print_buffer (\<lambda>a. 0) (ex_boot_screen 0) 0 7 70000 = None"
proof -
  have h: "hex_of 0xAB = [65, 66]" by (simp add: hex_of_def number_chars_def of_char_def)
  show ?thesis
    using print_buffer_correct [of "\<lambda>a. if a = 7 then 0xAB else 0" 0 "[]" "ex_boot_screen 0" 7 1]
      print_buffer_correct [of "\<lambda>a. 0" 0 "[]" "ex_boot_screen 0" 7 70000] h
    by simp
qed

end
