(* ===== verification/Spec2Isabelle.thy ===== *)
theory Spec2Isabelle
  imports CString FloppyDisk MachineTypes Syscalls BootConsole
begin

text \<open>
  A verification library for CrypthantusOS, a 32-bit kernel for the PC with its boot loader. The
  sources lie in \<open>src/kernel\<close>, \<open>src/bootloader\<close> and \<open>src/libs\<close>; paths below are relative to
  \<open>src/\<close>.

  The system. Stage 2 of the boot loader (\<open>bootloader/stage2\<close>) reads the FAT12 file system of
  the floppy through the BIOS, loads the kernel to the address \<open>0x100000\<close>, asks the BIOS for the
  memory map, and enters the kernel at \<open>0xC0000000\<close> with paging on. \<open>main\<close> of the kernel
  (\<open>kernel/main.c\<close>) sets up descriptor tables, interrupts and the keyboard, gives the largest
  usable block of memory to a buddy allocator, starts a heap over it, takes over the file system
  from the boot loader, and runs a shell. A timer interrupt switches between processes; system
  calls and the keyboard reach the kernel through interrupts too.

  How it is modelled. Every operation is a function on an explicit state, a record with the
  globals of its file. Integers are machine words of their width (\<open>u8\<close>, \<open>u16\<close>, \<open>u32\<close>), so
  arithmetic wraps as on the machine; C's \<open>int\<close> is \<open>int\<close> where the source cannot overflow it, or with a
  check of its range (the minimal width of \<open>writef\<close>). Arrays are lists that are read and written with a check of the index. What the kernel keeps in
  allocated memory (the heap's lists, stacks, strings) lies in a flat memory
  \<open>u32 \<Rightarrow> u8\<close>. An operation that may leave the C abstract machine (an index out of bounds, a null
  pointer, a loop that does not end) returns an option, and \<open>None\<close> stands for all of these. Loops
  whose end is not evident are partial functions over the option type: there is no fuel, and a
  theorem that such an operation returns \<open>Some\<close> includes that it terminates. Loops with a counter
  are functions by recursion. Hardware and the BIOS are parameters: a function from ports to
  values, a device that reads and writes ports, sectors that are read or fail.

  Theories, in the order of their imports:

  \<^item> \<open>Prelude\<close>: words, checked arrays, counted loops, the collections of lemmas. \<open>CString\<close>:
    \<open>kernel/include/string.c\<close>, \<open>ctype.c\<close>, \<open>stdtype.c\<close>, over the flat memory. \<open>Memory\<close>: 32-bit fields
    in the flat memory and ranges of addresses.
  \<^item> \<open>Allocator\<close>: the locale \<open>block_allocator\<close>, the contract of an allocator of blocks with the lemmas of its
    clients. \<open>BuddyTree\<close>: the abstract tree of blocks. \<open>Paging\<close>: \<open>kernel/arch/i686/page.c\<close>
    and the wrappers of \<open>hal.c\<close>. \<open>Buddy\<close>: \<open>kernel/util/buddy_alloc.c\<close> with its bitmap.
    \<open>BuddyCorrect\<close>: bitmap and search refine the tree, and \<open>block_allocator\<close> is interpreted.
    \<open>BuddyTheorems\<close>: its properties, with the address translation of a block.
  \<^item> \<open>Heap\<close>: \<open>kernel/include/heap_allocator.c\<close>. \<open>HeapLayout\<close>: its invariant, headers that tile a block and
    two linked lists. \<open>HeapMalloc\<close>, \<open>HeapFree\<close>: the runs of \<open>malloc\<close> and \<open>free\<close>. \<open>HeapTheorems\<close>,
    \<open>HeapRuns\<close>, \<open>HeapRealloc\<close>: the properties of the heap, and runs, at addresses chosen for their
    evaluation, where objects overlap or lose their contents.
  \<^item> \<open>Stack\<close>: \<open>kernel/include/stack.c\<close> and the locale \<open>bounded_stack\<close>, interpreted on it.
  \<^item> \<open>Console\<close>, \<open>ConsoleCorrect\<close>, \<open>Printf\<close>: the screen and formatted output of
    \<open>kernel/include/stdio.c\<close>. \<open>Keyboard\<close>, \<open>KeyboardCorrect\<close>: its input side and the keyboard part of
    \<open>kernel/hal/handler.c\<close>.
  \<^item> \<open>Descriptors\<close>: \<open>gdt.c\<close>, \<open>tss.c\<close>, \<open>idt.c\<close>, \<open>isr_gate.c\<close> of \<open>kernel/arch/i686\<close>. \<open>Scheduler\<close>:
    \<open>kernel/hal/scheduler.c\<close>. \<open>Interrupts\<close>, \<open>InterruptsCorrect\<close>: \<open>pic.c\<close>, \<open>irq.c\<close>, \<open>isr.c\<close> and
    the system calls, on one state with scheduler, keyboard and console. \<open>MachineTypes\<close>: the types that
    every interrupt keeps. \<open>Process\<close>: the creation
    of a process across all of these and the buddy allocator.
  \<^item> \<open>Fat\<close>, \<open>FatCorrect\<close>: \<open>kernel/hal/fat.c\<close>; reading refines reading from a stream of sectors (the
    locale \<open>sector_stream\<close>, interpreted for cluster chains and for the root directory).
    \<open>FatSearch\<close>, \<open>FatPath\<close>: directories as streams of entries (the locale \<open>entry_stream\<close>, interpreted
    for the root directory and for subdirectories), names, and the walk along a path.
    \<open>Floppy\<close>, \<open>FloppyCorrect\<close>: \<open>kernel/arch/i686/floppy.c\<close> and a model of the controller, which
    either reports the end of a cylinder, as its data sheet says, or takes it as a normal end, as
    emulators do. \<open>FloppyDisk\<close>: the reads of the FAT driver through a device with a state (the
    locale \<open>sector_device\<close>, interpreted on the floppy driver with a controller of
    the second kind).
  \<^item> \<open>Boot\<close>, \<open>BootCorrect\<close>: \<open>disk.c\<close>, \<open>fat.c\<close>, \<open>page.c\<close>, \<open>main.c\<close> of \<open>bootloader/stage2\<close>.
  \<^item> \<open>BootConsole\<close>: \<open>stdio.c\<close> of \<open>bootloader/stage2\<close>, with its \<open>printf\<close> compared to \<open>writef\<close> of the kernel.
  \<^item> \<open>Shell\<close>, \<open>ShellCorrect\<close>: \<open>kernel/main.c\<close>, \<open>kernel/util/cmd.c\<close> and \<open>hal_disk_init\<close>, on one state
    that holds all components of the kernel. \<open>Syscalls\<close>: the system calls on the heap and the page
    fault handler of \<open>kernel/hal/handler.c\<close>.

  What the theorems show. Allocation: blocks of the buddy allocator are disjoint in every state it can
  reach, its search is complete, translated addresses stay inside the block; \<open>malloc\<close>, \<open>free\<close> and \<open>realloc\<close> keep the
  heap's lists and the bytes of all objects as long as the heap has one block, and fail with two.
  Files: a path leads to its file and reading returns the bytes of the cluster chain, over an abstract
  disk and over the floppy driver with a controller that takes the end of a cylinder as a normal
  end; with one that reports it, every transfer of the driver fails. Booting: stage 2 hands over the kernel's
  bytes; \<open>main\<close> reaches the shell with an empty heap and a stack apart from it. Processes: every present process is
  eventually run with the registers it had. Interrupts: every hardware interrupt is handled and
  acknowledged, waits and sleeps return, and every run of interrupts keeps the tables, the screen and
  the process table well formed. Console: what the kernel printed is not changed by the
  user; formatted output returns if the widths of its format fit an \<open>int\<close>. Several theorems state how the code fails where it does:
  out-of-bounds accesses, lost data, overlapping objects.

  Not modelled: assembly (entry points, loading of tables, mode switches) and stage 1 of the boot
  loader; \<open>_heap_debug\<close>, which only prints; \<open>save_to_pcb\<close>, \<open>load_pcb\<close>, \<open>i686_reg_pic_send_eoi\<close> and
  \<open>init_test_struct\<close>, which nothing calls. Messages that the kernel prints for information
  are recorded as a list or left out. Interrupts come between the steps of a wait and not inside
  the other operations. The variables of the kernel and the screen are not bytes of the memory: a
  conversion of \<open>scanf\<close> that stores into the kernel's image or the screen, which the read call
  lets a user program ask for, has no value in the model, and stores into the kernel's stack or
  page tables are not seen.
\<close>

end
